(* ===== verification/Prelude.thy ===== *)
theory Prelude imports Main "HOL-Library.AList" "HOL-Library.Multiset" begin

text \<open>
  What every component of the development shares: the outcome of a Rust call that may return
  an error, panic or run forever; \<open>for\<close> loops that stop at the first early return; hash maps as
  association lists in iteration order; and the state-machine interface
  (\<open>step_system\<close>) that the concurrent components instantiate.

  Conventions. A \<open>Result<T, E>\<close> whose code cannot panic is a value of \<open>E + T\<close>, with \<open>Inl\<close> the
  error. Code that can panic or loop returns \<open>'e fault + 'a\<close>. A \<open>HashMap\<close> or \<open>HashSet\<close> is a list
  with distinct keys, in the order in which an iteration visits it: Rust leaves that order open,
  so the theorems quantify over the list and compare results up to order.
\<close>

named_theorems res_simps \<open>evaluation of results, binds and loops over results\<close>
named_theorems hm_simps \<open>lookups in hash maps after an operation\<close>
named_theorems hm_intros \<open>preservation of the key-distinctness of hash maps\<close>

section \<open>Results\<close>

datatype 'e fault =
    Err 'e      \<comment> \<open>an \<open>Err\<close> returned to the caller\<close>
  | Panic       \<comment> \<open>a failed \<open>unwrap\<close>, an index out of range, \<dots>\<close>
  | Diverges    \<comment> \<open>the call never returns\<close>

type_synonym ('e, 'a) outcome = "'e fault + 'a"

definition rbind :: "'e + 'a \<Rightarrow> ('a \<Rightarrow> 'e + 'b) \<Rightarrow> 'e + 'b" where
  "rbind r k = (case r of Inl e \<Rightarrow> Inl e | Inr x \<Rightarrow> k x)"

definition ok_or :: "'e \<Rightarrow> 'a option \<Rightarrow> 'e + 'a" where
  "ok_or e x = (case x of None \<Rightarrow> Inl e | Some y \<Rightarrow> Inr y)"

text \<open>\<open>unwrap\<close> of an option, and the value of a loop given as a partial function.\<close>

abbreviation unwrap :: "'a option \<Rightarrow> ('e, 'a) outcome" where
  "unwrap \<equiv> ok_or Panic"

abbreviation returned :: "'a option \<Rightarrow> ('e, 'a) outcome" where
  "returned \<equiv> ok_or Diverges"

fun get_ok :: "'e + 'a \<Rightarrow> 'a option" where
  "get_ok (Inl _) = None"
| "get_ok (Inr x) = Some x"

lemma rbind_Inl [simp, res_simps]: "rbind (Inl e) k = Inl e"
  by (simp add: rbind_def)

lemma rbind_Inr [simp, res_simps]: "rbind (Inr x) k = k x"
  by (simp add: rbind_def)

lemma rbind_eq_Inr_iff [res_simps]: "rbind r k = Inr y \<longleftrightarrow> (\<exists>x. r = Inr x \<and> k x = Inr y)"
  by (cases r) auto

lemma rbind_assoc: "rbind (rbind r k) l = rbind r (\<lambda>x. rbind (k x) l)"
  by (cases r) auto

lemma ok_or_Some [simp, res_simps]: "ok_or e (Some x) = Inr x"
  by (simp add: ok_or_def)

lemma ok_or_None [simp, res_simps]: "ok_or e None = Inl e"
  by (simp add: ok_or_def)

lemma ok_or_eq_Inr_iff [simp, res_simps]: "ok_or e m = Inr x \<longleftrightarrow> m = Some x"
  by (cases m) auto

lemma ok_or_eq_Inl_iff [simp, res_simps]: "ok_or e m = Inl f \<longleftrightarrow> m = None \<and> f = e"
  by (cases m) auto

lemma get_ok_eq_Some_iff [simp]: "get_ok r = Some x \<longleftrightarrow> r = Inr x"
  by (cases r) auto

lemma option_ext: "(\<And>x. a = Some x \<longleftrightarrow> b = Some x) \<Longrightarrow> a = b"
  by (metis not_Some_eq)

section \<open>Loops with early returns\<close>

text \<open>A \<open>for\<close> loop over a mutable state whose body may return early.\<close>

fun fold_res :: "('a \<Rightarrow> 's \<Rightarrow> 'e + 's) \<Rightarrow> 'a list \<Rightarrow> 's \<Rightarrow> 'e + 's" where
  "fold_res f [] s = Inr s"
| "fold_res f (x # xs) s = rbind (f x s) (fold_res f xs)"

text \<open>\<open>iter().map(f).collect::<Result<Vec<_>, _>>()\<close>.\<close>

fun collect_res :: "('a \<Rightarrow> 'e + 'b) \<Rightarrow> 'a list \<Rightarrow> 'e + 'b list" where
  "collect_res f [] = Inr []"
| "collect_res f (x # xs) = rbind (f x) (\<lambda>y. rbind (collect_res f xs) (\<lambda>ys. Inr (y # ys)))"

lemma fold_res_append [res_simps]:
  "fold_res f (xs @ ys) s = rbind (fold_res f xs s) (fold_res f ys)"
proof (induction xs arbitrary: s)
  case (Cons x xs)
  then show ?case by (cases "f x s") auto
qed simp

lemma fold_res_invariant:
  assumes "fold_res f xs s = Inr t" and "P s"
    and "\<And>x u v. x \<in> set xs \<Longrightarrow> P u \<Longrightarrow> f x u = Inr v \<Longrightarrow> P v"
  shows "P t"
  using assms
proof (induction xs arbitrary: s)
  case Nil
  then show ?case by simp
next
  case (Cons x xs)
  from Cons.prems(1) obtain u where u: "f x s = Inr u" and t: "fold_res f xs u = Inr t"
    by (auto simp: rbind_eq_Inr_iff)
  from Cons.prems(2,3) u have "P u" by (meson list.set_intros(1))
  with t show ?case using Cons.IH Cons.prems(3) by (meson list.set_intros(2))
qed

lemma fold_res_total:
  assumes "P s"
    and "\<And>x u. x \<in> set xs \<Longrightarrow> P u \<Longrightarrow> \<exists>v. f x u = Inr v \<and> P v"
  shows "\<exists>t. fold_res f xs s = Inr t \<and> P t"
  using assms
proof (induction xs arbitrary: s)
  case Nil
  then show ?case by simp
next
  case (Cons x xs)
  from Cons.prems obtain u where "f x s = Inr u" and "P u"
    by (meson list.set_intros(1))
  moreover from this Cons obtain t where "fold_res f xs u = Inr t" and "P t"
    by (meson list.set_intros(2))
  ultimately show ?case by simp
qed

lemma collect_res_map_Inr:
  "(\<And>x. x \<in> set xs \<Longrightarrow> f x = Inr (g x)) \<Longrightarrow> collect_res f xs = Inr (map g xs)"
  by (induction xs) auto

lemma collect_res_eq_Inr_iff:
  "collect_res f xs = Inr ys \<longleftrightarrow> list_all2 (\<lambda>x y. f x = Inr y) xs ys"
  by (induction xs arbitrary: ys) (auto simp: rbind_eq_Inr_iff list_all2_Cons1)

lemma collect_res_map_eq:
  "collect_res f xs = Inr ys \<Longrightarrow> (\<And>x y. x \<in> set xs \<Longrightarrow> f x = Inr y \<Longrightarrow> g y = h x) \<Longrightarrow>
     map g ys = map h xs"
  by (induction xs arbitrary: ys) (auto simp: rbind_eq_Inr_iff)

section \<open>Hash maps\<close>

type_synonym ('k, 'v) hmap = "('k \<times> 'v) list"

definition hm_wf :: "('k, 'v) hmap \<Rightarrow> bool" where
  "hm_wf m \<longleftrightarrow> distinct (map fst m)"

abbreviation hm_get :: "('k, 'v) hmap \<Rightarrow> 'k \<Rightarrow> 'v option" where
  "hm_get \<equiv> map_of"

abbreviation hm_insert :: "'k \<Rightarrow> 'v \<Rightarrow> ('k, 'v) hmap \<Rightarrow> ('k, 'v) hmap" where
  "hm_insert \<equiv> AList.update"

abbreviation hm_remove :: "'k \<Rightarrow> ('k, 'v) hmap \<Rightarrow> ('k, 'v) hmap" where
  "hm_remove \<equiv> AList.delete"

abbreviation hm_keys :: "('k, 'v) hmap \<Rightarrow> 'k list" where
  "hm_keys m \<equiv> map fst m"

definition hm_contains :: "('k, 'v) hmap \<Rightarrow> 'k \<Rightarrow> bool" where
  "hm_contains m k \<longleftrightarrow> hm_get m k \<noteq> None"

text \<open>\<open>into_iter().collect::<HashMap<_, _>>()\<close>: later pairs overwrite earlier ones.\<close>

definition hm_collect :: "('k \<times> 'v) list \<Rightarrow> ('k, 'v) hmap" where
  "hm_collect ps = fold (\<lambda>(k, v). hm_insert k v) ps []"

text \<open>\<open>HashSet::insert\<close> on a set as a list.\<close>

definition hs_insert :: "'a \<Rightarrow> 'a list \<Rightarrow> 'a list" where
  "hs_insert x xs = (if x \<in> set xs then xs else xs @ [x])"

lemma hm_wf_Nil [simp, hm_intros]: "hm_wf []"
  by (simp add: hm_wf_def)

lemma hm_wf_insert [simp, hm_intros]: "hm_wf m \<Longrightarrow> hm_wf (hm_insert k v m)"
  by (simp add: hm_wf_def distinct_update)

lemma hm_wf_remove [simp, hm_intros]: "hm_wf m \<Longrightarrow> hm_wf (hm_remove k m)"
  by (simp add: hm_wf_def distinct_delete)

lemma hm_wf_filter [simp, hm_intros]: "hm_wf m \<Longrightarrow> hm_wf (filter P m)"
  by (simp add: hm_wf_def distinct_map_filter)

lemma hm_wf_map_values [simp, hm_intros]: "hm_wf m \<Longrightarrow> hm_wf (map (\<lambda>(k, v). (k, f k v)) m)"
  by (simp add: hm_wf_def comp_def case_prod_unfold)

lemma hm_get_insert [hm_simps]: "hm_get (hm_insert k v m) = (hm_get m)(k \<mapsto> v)"
  by (rule update_conv')

lemma hm_get_remove [hm_simps]: "hm_get (hm_remove k m) = (hm_get m)(k := None)"
  by (rule delete_conv')

lemma hm_get_eq_Some_iff: "hm_wf m \<Longrightarrow> hm_get m k = Some v \<longleftrightarrow> (k, v) \<in> set m"
  by (simp add: hm_wf_def)

lemma hm_get_filter [hm_simps]:
  "hm_wf m \<Longrightarrow> hm_get (filter P m) k =
     (case hm_get m k of None \<Rightarrow> None | Some v \<Rightarrow> if P (k, v) then Some v else None)"
  by (induction m) (auto simp: hm_wf_def map_of_eq_None_iff split: option.splits)

lemma hm_get_map_values [hm_simps]:
  "hm_get (map (\<lambda>(k, v). (k, f k v)) m) k = map_option (f k) (hm_get m k)"
  by (induction m) auto

lemma hm_empty_iff: "m = [] \<longleftrightarrow> (\<forall>k. hm_get m k = None)"
proof (cases m)
  case (Cons kv ms)
  then have "hm_get m (fst kv) \<noteq> None" by (cases kv) simp
  with Cons show ?thesis by auto
qed simp

lemma hm_get_None_iff: "hm_get m k = None \<longleftrightarrow> k \<notin> set (hm_keys m)"
  by (auto simp: map_of_eq_None_iff)

lemma hm_contains_iff [hm_simps]: "hm_contains m k \<longleftrightarrow> k \<in> set (hm_keys m)"
  by (auto simp: hm_contains_def map_of_eq_None_iff)

lemma hm_keys_insert [hm_simps]: "set (hm_keys (hm_insert k v m)) = insert k (set (hm_keys m))"
  by (simp add: dom_update)

lemma hm_get_perm:
  assumes "hm_wf m" and "mset m = mset m'"
  shows "hm_get m = hm_get m'"
proof (rule ext)
  fix k
  from assms have "hm_wf m'"
    unfolding hm_wf_def by (metis mset_map mset_eq_imp_distinct_iff)
  with assms show "hm_get m k = hm_get m' k"
    by (cases "hm_get m k"; cases "hm_get m' k")
      (metis hm_get_eq_Some_iff mset_eq_setD option.simps(3))+
qed

lemma hm_wf_perm: "mset m = mset m' \<Longrightarrow> hm_wf m \<longleftrightarrow> hm_wf m'"
  unfolding hm_wf_def by (metis mset_map mset_eq_imp_distinct_iff)

lemma fold_insert_wf: "hm_wf m \<Longrightarrow> hm_wf (fold (\<lambda>(k, v). hm_insert k v) ps m)"
  by (induction ps arbitrary: m) auto

lemma hm_wf_collect [simp, hm_intros]: "hm_wf (hm_collect ps)"
  by (simp add: hm_collect_def fold_insert_wf)

lemma hm_get_fold_insert:
  "hm_get (fold (\<lambda>(k, v). hm_insert k v) ps m) = hm_get m ++ hm_get (rev ps)"
  by (induction ps arbitrary: m)
    (auto simp: hm_get_insert map_add_def fun_eq_iff split: option.splits)

lemma hm_get_collect: "hm_get (hm_collect ps) = hm_get (rev ps)"
  by (simp add: hm_collect_def hm_get_fold_insert)

lemma hm_get_collect_distinct: "distinct (map fst ps) \<Longrightarrow> hm_get (hm_collect ps) = hm_get ps"
  by (metis hm_get_collect hm_get_perm hm_wf_def mset_rev rev_map distinct_rev)

text \<open>A map converted pair by pair, under an injective conversion of its keys.\<close>

lemma hm_get_collect_map:
  assumes wf: "hm_wf m" and inj: "inj_on f (set (hm_keys m))"
  shows "hm_get (hm_collect (map (\<lambda>(k, v). (f k, g v)) m)) l = Some w \<longleftrightarrow>
    (\<exists>k v. hm_get m k = Some v \<and> l = f k \<and> w = g v)"
proof -
  have "distinct (map fst (map (\<lambda>(k, v). (f k, g v)) m))"
  proof -
    have "map fst (map (\<lambda>(k, v). (f k, g v)) m) = map f (hm_keys m)" by (induction m) auto
    then show ?thesis using wf inj unfolding hm_wf_def by (simp only: distinct_map [of f "hm_keys m"])
  qed
  then show ?thesis
    using wf by (auto simp: hm_get_collect_distinct hm_get_eq_Some_iff hm_wf_def)
qed

lemma hs_insert_set [simp]: "set (hs_insert x xs) = insert x (set xs)"
  by (auto simp: hs_insert_def)

lemma hs_insert_distinct [simp]: "distinct (hs_insert x xs) \<longleftrightarrow> distinct xs"
  by (auto simp: hs_insert_def)

section \<open>Sorting\<close>

text \<open>
  A stable sort by an injective key gives the same list for every order of its input: what
  makes an output that iterates over a hash map deterministic.
\<close>

lemma sort_key_perm:
  assumes "mset xs = mset ys" and "inj_on f (set xs)"
  shows "sort_key f xs = sort_key f ys"
proof (rule properties_for_sort_key)
  show "mset (sort_key f ys) = mset xs" using assms(1) by simp
  show "sorted (map f (sort_key f ys))" by simp
next
  fix k
  assume "k \<in> set (sort_key f ys)"
  then have k: "k \<in> set xs" using assms(1) by (metis mset_eq_setD set_sort)
  have one_key: "filter (\<lambda>x. f k = f x) zs = replicate (count (mset zs) k) k"
    if "set zs \<subseteq> set xs" for zs
  proof -
    from that assms(2) k have "filter (\<lambda>x. f k = f x) zs = filter (HOL.eq k) zs"
      by (intro filter_cong) (auto dest: inj_onD)
    then show ?thesis by (simp add: replicate_count_mset_eq_filter_eq)
  qed
  have "set (sort_key f ys) \<subseteq> set xs"
    using mset_eq_setD [OF assms(1)] by simp
  from one_key [OF this] one_key [of xs]
  show "filter (\<lambda>x. f k = f x) (sort_key f ys) = filter (\<lambda>x. f k = f x) xs"
    by (simp add: assms(1) del: filter_sort)
qed

section \<open>State machines\<close>

inductive reachable :: "('s \<Rightarrow> bool) \<Rightarrow> ('s \<Rightarrow> 's \<Rightarrow> bool) \<Rightarrow> 's \<Rightarrow> bool"
  for init :: "'s \<Rightarrow> bool" and step :: "'s \<Rightarrow> 's \<Rightarrow> bool" where
  reachable_init: "init s \<Longrightarrow> reachable init step s"
| reachable_step: "reachable init step s \<Longrightarrow> step s t \<Longrightarrow> reachable init step t"

text \<open>
  The contract between a component's steps and its invariant: what the initial states satisfy
  and every step keeps holds in every reachable state.
\<close>

locale step_system =
  fixes init :: "'s \<Rightarrow> bool" and step :: "'s \<Rightarrow> 's \<Rightarrow> bool" and inv :: "'s \<Rightarrow> bool"
  assumes inv_init: "init s \<Longrightarrow> inv s"
    and inv_step: "inv s \<Longrightarrow> step s t \<Longrightarrow> inv t"
begin

lemma inv_reachable: "reachable init step s \<Longrightarrow> inv s"
  by (induction rule: reachable.induct) (auto intro: inv_init inv_step)

lemma inv_steps: "step\<^sup>*\<^sup>* s t \<Longrightarrow> inv s \<Longrightarrow> inv t"
  by (induction rule: rtranclp_induct) (auto intro: inv_step)

end

end
