(* ===== verification/Rust_Strings.thy ===== *)
theory Rust_Strings imports Prelude "HOL-Library.Sublist" begin

text \<open>
  The string operations of Rust's standard library that the program uses. A \<open>String\<close> is the list of
  its UTF-8 bytes, one \<open>char\<close> per byte, as \<open>len\<close>, slicing and \<open>find\<close> count in Rust. A pattern is
  ASCII or complete UTF-8, so matching bytes is matching characters. Integers are \<open>int\<close> or \<open>nat\<close>
  with the range check of \<open>parse\<close> written out.

  The interface \<open>codec\<close> states what a pair of a printer and a parser promises; \<open>sep_codec\<close> extends it
  to lists printed with a separator. The decimal numbers are instances here, the node identifiers,
  arrays and history references in their own theories.
\<close>

named_theorems str_simps \<open>evaluation of the string operations\<close>

section \<open>Prefixes, suffixes and searching\<close>

definition starts_with :: "string \<Rightarrow> string \<Rightarrow> bool" where
  "starts_with s p \<longleftrightarrow> take (length p) s = p"

definition ends_with :: "string \<Rightarrow> string \<Rightarrow> bool" where
  "ends_with s p \<longleftrightarrow> starts_with (rev s) (rev p)"

definition strip_prefix :: "string \<Rightarrow> string \<Rightarrow> string option" where
  "strip_prefix s p = (if starts_with s p then Some (drop (length p) s) else None)"

definition strip_suffix :: "string \<Rightarrow> string \<Rightarrow> string option" where
  "strip_suffix s p = (if ends_with s p then Some (take (length s - length p) s) else None)"

text \<open>\<open>str::find\<close>: the byte index of the first occurrence.\<close>

fun find_str :: "string \<Rightarrow> string \<Rightarrow> nat option" where
  "find_str [] p = (if p = [] then Some 0 else None)"
| "find_str (c # s) p = (if starts_with (c # s) p then Some 0 else map_option Suc (find_str s p))"

definition contains_str :: "string \<Rightarrow> string \<Rightarrow> bool" where
  "contains_str s p \<longleftrightarrow> find_str s p \<noteq> None"

text \<open>\<open>str::rfind\<close> of a character.\<close>

fun rfind_char :: "string \<Rightarrow> char \<Rightarrow> nat option" where
  "rfind_char [] c = None"
| "rfind_char (x # s) c =
     (case rfind_char s c of Some i \<Rightarrow> Some (Suc i) | None \<Rightarrow> if x = c then Some 0 else None)"

definition split_once :: "string \<Rightarrow> char \<Rightarrow> (string \<times> string) option" where
  "split_once s c =
     (case dropWhile (\<lambda>x. x \<noteq> c) s of [] \<Rightarrow> None | _ # r \<Rightarrow> Some (takeWhile (\<lambda>x. x \<noteq> c) s, r))"

lemma starts_with_append [simp, str_simps]: "starts_with (p @ s) p"
  by (simp add: starts_with_def)

lemma starts_with_iff: "starts_with s p \<longleftrightarrow> (\<exists>r. s = p @ r)"
  unfolding starts_with_def by (metis append_eq_conv_conj append_take_drop_id)

lemma starts_with_Nil [simp, str_simps]: "starts_with s []"
  by (simp add: starts_with_def)

lemma starts_with_Cons [simp, str_simps]:
  "starts_with (c # s) (d # p) \<longleftrightarrow> c = d \<and> starts_with s p"
  by (auto simp: starts_with_def)

lemma starts_with_Nil_Cons [simp, str_simps]: "\<not> starts_with [] (d # p)"
  by (simp add: starts_with_def)

lemma ends_with_iff: "ends_with s p \<longleftrightarrow> (\<exists>r. s = r @ p)"
  unfolding ends_with_def starts_with_iff by (metis rev_append rev_rev_ident)

lemma strip_prefix_append [simp, str_simps]: "strip_prefix (p @ s) p = Some s"
  by (simp add: strip_prefix_def)

lemma strip_prefix_Cons [simp, str_simps]:
  "strip_prefix (c # s) (d # p) = (if c = d then strip_prefix s p else None)"
  by (auto simp: strip_prefix_def)

lemma strip_prefix_Nil [simp, str_simps]: "strip_prefix s [] = Some s" "strip_prefix [] (d # p) = None"
  by (auto simp: strip_prefix_def)

lemma strip_prefix_eq_Some_iff: "strip_prefix s p = Some r \<longleftrightarrow> s = p @ r"
  by (auto simp: strip_prefix_def starts_with_iff)

lemma strip_suffix_append [simp, str_simps]: "strip_suffix (s @ p) p = Some s"
  by (auto simp: strip_suffix_def ends_with_iff)

lemma split_once_append:
  "c \<notin> set a \<Longrightarrow> split_once (a @ c # b) c = Some (a, b)"
  by (induction a) (auto simp: split_once_def split: list.splits)

lemma split_once_eq_Some:
  "split_once s c = Some (a, b) \<Longrightarrow> s = a @ c # b \<and> c \<notin> set a"
proof (induction s arbitrary: a)
  case Nil
  then show ?case by (simp add: split_once_def)
next
  case (Cons x s)
  then show ?case
    by (cases "x = c") (auto simp: split_once_def split: list.splits)
qed

lemma find_str_eq_Some:
  "find_str s p = Some i \<Longrightarrow> i \<le> length s \<and> starts_with (drop i s) p"
  by (induction s arbitrary: i) (auto split: if_splits)

lemma find_str_None_sublist: "find_str s p = None \<Longrightarrow> s \<noteq> a @ p @ b"
proof (induction a arbitrary: s)
  case Nil
  then show ?case by (cases s; cases p) (auto split: if_splits)
next
  case (Cons c a)
  then show ?case by (cases s) (auto split: if_splits)
qed

lemma rfind_char_bound: "rfind_char s c = Some i \<Longrightarrow> i < length s"
  by (induction s arbitrary: i) (auto split: option.splits if_splits)

text \<open>
  \<open>&s[a..b]\<close>: panics when the range is not within the string or cuts a character (a byte
  \<open>0x80..0xBF\<close> continues one).
\<close>

definition continuation_byte :: "char \<Rightarrow> bool" where
  "continuation_byte c \<longleftrightarrow> 128 \<le> (of_char c :: nat) \<and> (of_char c :: nat) < 192"

definition is_char_boundary :: "string \<Rightarrow> nat \<Rightarrow> bool" where
  "is_char_boundary s i \<longleftrightarrow> i = length s \<or> i < length s \<and> \<not> continuation_byte (s ! i)"

definition slice :: "string \<Rightarrow> nat \<Rightarrow> nat \<Rightarrow> ('e, string) outcome" where
  "slice s a b =
     (if a \<le> b \<and> is_char_boundary s a \<and> is_char_boundary s b
      then Inr (take (b - a) (drop a s)) else Inl Panic)"

text \<open>The start of a string: a Rust \<open>str\<close> never begins within a character.\<close>

abbreviation str_start_ok :: "string \<Rightarrow> bool" where
  "str_start_ok s \<equiv> is_char_boundary s 0"

lemma is_char_boundary_append [simp]:
  "is_char_boundary (p @ s) (length p) \<longleftrightarrow> is_char_boundary s 0"
  by (auto simp: is_char_boundary_def nth_append)

lemma is_char_boundary_ascii [simp]:
  "\<not> continuation_byte c \<Longrightarrow> is_char_boundary (c # s) 0"
  by (simp add: is_char_boundary_def)

lemma slice_middle:
  "is_char_boundary (m @ s) 0 \<Longrightarrow> is_char_boundary s 0 \<Longrightarrow>
     slice (p @ m @ s) (length p) (length p + length m) = Inr m"
  using is_char_boundary_append [of "p @ m" s] is_char_boundary_append [of p "m @ s"]
  by (simp add: slice_def del: is_char_boundary_append)

section \<open>Splitting and joining\<close>

fun split_on :: "char \<Rightarrow> string \<Rightarrow> string list" where
  "split_on c [] = [[]]"
| "split_on c (x # s) =
     (if x = c then [] # split_on c s
      else (case split_on c s of [] \<Rightarrow> [[x]] | p # ps \<Rightarrow> (x # p) # ps))"

text \<open>\<open>str::split\<close> by a non-empty string: leftmost matches, not overlapping.\<close>

function split_str_from :: "string \<Rightarrow> string \<Rightarrow> string \<Rightarrow> string list" where
  "split_str_from p cur s =
     (if s = [] then [rev cur]
      else if p \<noteq> [] \<and> starts_with s p then rev cur # split_str_from p [] (drop (length p) s)
      else split_str_from p (hd s # cur) (tl s))"
  by pat_completeness auto
termination
  by (relation "measure (\<lambda>(p, cur, s). length s)") auto

declare split_str_from.simps [simp del]

definition split_str :: "string \<Rightarrow> string \<Rightarrow> string list" where
  "split_str p s = split_str_from p [] s"

fun str_join :: "string \<Rightarrow> string list \<Rightarrow> string" where
  "str_join sep [] = []"
| "str_join sep [x] = x"
| "str_join sep (x # y # ys) = x @ sep @ str_join sep (y # ys)"

lemma split_on_not_Nil [simp]: "split_on c s \<noteq> []"
  by (cases s) (auto split: list.splits)

lemma split_on_no_sep: "c \<notin> set s \<Longrightarrow> split_on c s = [s]"
  by (induction s) auto

lemma split_on_append: "c \<notin> set a \<Longrightarrow> split_on c (a @ c # b) = a # split_on c b"
  by (induction a) auto

lemma split_on_join:
  "xs \<noteq> [] \<Longrightarrow> (\<forall>x\<in>set xs. c \<notin> set x) \<Longrightarrow> split_on c (str_join [c] xs) = xs"
  by (induction "[c]" xs rule: str_join.induct) (auto simp: split_on_no_sep split_on_append)

lemma str_join_not_Nil: "x \<in> set xs \<Longrightarrow> x \<noteq> [] \<Longrightarrow> str_join sep xs \<noteq> []"
  by (induction sep xs rule: str_join.induct) auto

lemma str_join_Cons: "xs \<noteq> [] \<Longrightarrow> str_join sep (x # xs) = x @ sep @ str_join sep xs"
  by (cases xs) auto

lemma str_join_snoc: "xs \<noteq> [] \<Longrightarrow> str_join sep (xs @ [y]) = str_join sep xs @ sep @ y"
  by (induction sep xs rule: str_join.induct) auto

lemma str_join_merge_last: "str_join sep (ns @ [x @ sep @ y]) = str_join sep (ns @ [x, y])"
  by (induction ns) (auto simp: str_join_Cons)

lemma split_on_join_space:
  "(\<forall>y\<in>set (x # xs). c \<notin> set y) \<Longrightarrow> c \<noteq> d \<Longrightarrow>
     split_on c (str_join [c, d] (x # xs)) = x # map ((#) d) xs"
proof (induction xs arbitrary: x)
  case Nil
  then show ?case by (simp add: split_on_no_sep)
next
  case (Cons y ys)
  from Cons.prems have "split_on c (x @ c # d # str_join [c, d] (y # ys)) =
      x # split_on c (d # str_join [c, d] (y # ys))"
    by (simp add: split_on_append)
  moreover have "split_on c (str_join [c, d] (y # ys)) = y # map ((#) d) ys"
    using Cons by simp
  ultimately show ?case using Cons.prems(2) by simp
qed

lemma hd_str_join: "x \<noteq> [] \<Longrightarrow> hd (str_join sep (x # xs)) = hd x"
  by (cases xs) auto

lemma last_str_join:
  "(\<forall>y\<in>set (x # xs). y \<noteq> []) \<Longrightarrow> last (str_join sep (x # xs)) = last (last (x # xs))"
proof (induction xs arbitrary: x)
  case (Cons y ys)
  then show ?case using str_join_not_Nil [of y "y # ys" sep] by simp
qed simp

lemma split_on_parts_free: "p \<in> set (split_on c s) \<Longrightarrow> c \<notin> set p"
  by (induction s arbitrary: p) (auto split: if_splits list.splits)

lemma set_str_join: "set (str_join sep xs) \<subseteq> set sep \<union> (\<Union>x\<in>set xs. set x)"
  by (induction sep xs rule: str_join.induct) auto

lemma split_str_from_not_Nil [simp]: "split_str_from p cur s \<noteq> []"
  by (induction p cur s rule: split_str_from.induct)
    (metis list.distinct(1) split_str_from.simps)

section \<open>White space and lines\<close>

text \<open>The UTF-8 encodings of the characters with the Unicode property \<open>White_Space\<close>.\<close>

definition white_spaces :: "string list" where
  "white_spaces =
     [[CHR 0x20], [CHR 0x09], [CHR 0x0A], [CHR 0x0B], [CHR 0x0C], [CHR 0x0D],
      [CHR 0xC2, CHR 0x85], [CHR 0xC2, CHR 0xA0], [CHR 0xE1, CHR 0x9A, CHR 0x80],
      [CHR 0xE2, CHR 0x80, CHR 0x80], [CHR 0xE2, CHR 0x80, CHR 0x81],
      [CHR 0xE2, CHR 0x80, CHR 0x82], [CHR 0xE2, CHR 0x80, CHR 0x83],
      [CHR 0xE2, CHR 0x80, CHR 0x84], [CHR 0xE2, CHR 0x80, CHR 0x85],
      [CHR 0xE2, CHR 0x80, CHR 0x86], [CHR 0xE2, CHR 0x80, CHR 0x87],
      [CHR 0xE2, CHR 0x80, CHR 0x88], [CHR 0xE2, CHR 0x80, CHR 0x89],
      [CHR 0xE2, CHR 0x80, CHR 0x8A], [CHR 0xE2, CHR 0x80, CHR 0xA8],
      [CHR 0xE2, CHR 0x80, CHR 0xA9], [CHR 0xE2, CHR 0x80, CHR 0xAF],
      [CHR 0xE2, CHR 0x81, CHR 0x9F], [CHR 0xE3, CHR 0x80, CHR 0x80]]"

lemma white_spaces_not_Nil: "w \<in> set white_spaces \<Longrightarrow> w \<noteq> []"
  by (auto simp: white_spaces_def)

function trim_start :: "string \<Rightarrow> string" where
  "trim_start s =
     (case find (starts_with s) white_spaces of
        None \<Rightarrow> s
      | Some w \<Rightarrow> trim_start (drop (length w) s))"
  by pat_completeness auto
termination
proof (relation "measure length")
  fix s w
  assume "find (starts_with s) white_spaces = Some w"
  then have "starts_with s w" and "w \<in> set white_spaces"
    by (auto simp: find_Some_iff in_set_conv_nth)
  then show "(drop (length w) s, s) \<in> measure length"
    using white_spaces_not_Nil [of w] by (cases s) (auto simp: starts_with_iff)
qed simp

declare trim_start.simps [simp del]

text \<open>No encoding of white space is a suffix of another one, so trimming the end is trimming the
  start of the reversed bytes against the reversed encodings.\<close>

function trim_end_rev :: "string \<Rightarrow> string" where
  "trim_end_rev s =
     (case find (\<lambda>w. starts_with s (rev w)) white_spaces of
        None \<Rightarrow> s
      | Some w \<Rightarrow> trim_end_rev (drop (length w) s))"
  by pat_completeness auto
termination
proof (relation "measure length")
  fix s w
  assume "find (\<lambda>w. starts_with s (rev w)) white_spaces = Some w"
  then have "starts_with s (rev w)" and "w \<in> set white_spaces"
    by (auto simp: find_Some_iff in_set_conv_nth)
  then show "(drop (length w) s, s) \<in> measure length"
    using white_spaces_not_Nil [of w] by (cases s) (auto simp: starts_with_iff)
qed simp

declare trim_end_rev.simps [simp del]

definition trim_end :: "string \<Rightarrow> string" where
  "trim_end s = rev (trim_end_rev (rev s))"

definition trim :: "string \<Rightarrow> string" where
  "trim s = trim_end (trim_start s)"

text \<open>Bytes that can begin or end an encoding of white space.\<close>

definition white_bytes :: "char set" where
  "white_bytes = set (concat white_spaces)"

lemma trim_start_black:
  "c \<notin> white_bytes \<Longrightarrow> trim_start (c # s) = c # s"
proof -
  assume c: "c \<notin> white_bytes"
  have "\<not> starts_with (c # s) w" if "w \<in> set white_spaces" for w
  proof
    assume "starts_with (c # s) w"
    then have "c \<in> set w" using white_spaces_not_Nil [OF that] by (cases w) auto
    with that c show False by (auto simp: white_bytes_def)
  qed
  then have "find (starts_with (c # s)) white_spaces = None"
    by (auto simp: find_None_iff)
  then show ?thesis by (simp add: trim_start.simps [of "c # s"])
qed

lemma trim_end_rev_black:
  "c \<notin> white_bytes \<Longrightarrow> trim_end_rev (c # s) = c # s"
proof -
  assume c: "c \<notin> white_bytes"
  have "\<not> starts_with (c # s) (rev w)" if "w \<in> set white_spaces" for w
  proof
    assume "starts_with (c # s) (rev w)"
    then have "c \<in> set (rev w)"
      using white_spaces_not_Nil [OF that] by (cases "rev w") (auto simp del: set_rev)
    with that c show False by (auto simp: white_bytes_def)
  qed
  then have "find (\<lambda>w. starts_with (c # s) (rev w)) white_spaces = None"
    by (auto simp: find_None_iff)
  then show ?thesis by (simp add: trim_end_rev.simps [of "c # s"])
qed

lemma trim_black_ends:
  assumes "s \<noteq> []" and "hd s \<notin> white_bytes" and "last s \<notin> white_bytes"
  shows "trim s = s"
proof -
  obtain c r where s: "s = c # r" using assms(1) by (cases s) auto
  with assms(2) have "trim_start s = s" by (simp add: trim_start_black)
  moreover obtain d q where d: "rev s = d # q" using assms(1) by (cases "rev s") auto
  then have "d = last s" by (metis last_rev list.sel(1) rev_rev_ident)
  with d assms(3) have "trim_end_rev (rev s) = rev s" by (metis trim_end_rev_black)
  ultimately show ?thesis by (simp add: trim_def trim_end_def)
qed

lemma trim_black: "s \<noteq> [] \<Longrightarrow> set s \<inter> white_bytes = {} \<Longrightarrow> trim s = s"
  by (rule trim_black_ends) (auto dest: hd_in_set last_in_set)

lemma trim_start_space: "trim_start (CHR 0x20 # s) = trim_start s"
  by (subst trim_start.simps) (simp add: white_spaces_def)

lemma trim_space_black:
  "s \<noteq> [] \<Longrightarrow> set s \<inter> white_bytes = {} \<Longrightarrow> trim (CHR 0x20 # s) = s"
  by (simp add: trim_def trim_start_space) (simp add: trim_black flip: trim_def)

lemma trim_Nil [simp, str_simps]: "trim [] = []"
  by (simp add: trim_def trim_end_def trim_start.simps [of "[]"] trim_end_rev.simps [of "[]"]
      white_spaces_def)

text \<open>Trimming never goes past a byte that is not part of white space.\<close>

lemma trim_end_rev_stops:
  "d \<notin> white_bytes \<Longrightarrow> \<exists>u'. trim_end_rev (u @ d # v) = u' @ d # v"
proof (induction "u @ d # v" arbitrary: u rule: trim_end_rev.induct)
  case 1
  show ?case
  proof (cases "find (\<lambda>w. starts_with (u @ d # v) (rev w)) white_spaces")
    case None
    then show ?thesis by (subst trim_end_rev.simps) auto
  next
    case (Some w)
    then have w: "starts_with (u @ d # v) (rev w)" "w \<in> set white_spaces"
      by (auto simp: find_Some_iff in_set_conv_nth)
    have len: "length w \<le> length u"
    proof (rule ccontr)
      assume "\<not> length w \<le> length u"
      then have "d \<in> set (take (length w) (u @ d # v))"
        by (cases "length w - length u") auto
      also have "take (length w) (u @ d # v) = rev w"
        using w(1) by (simp add: starts_with_def)
      finally show False using w(2) 1(2) by (auto simp: white_bytes_def)
    qed
    then have "drop (length w) (u @ d # v) = drop (length w) u @ d # v" by simp
    with 1(1) [OF Some this 1(2)]
    obtain u' where "trim_end_rev (drop (length w) (u @ d # v)) = u' @ d # v" by auto
    with Some show ?thesis by (subst trim_end_rev.simps) auto
  qed
qed

lemma trim_black_prefix:
  assumes "p \<noteq> []" and "hd p \<notin> white_bytes" and "last p \<notin> white_bytes"
  shows "\<exists>r. trim (p @ q) = p @ r"
proof -
  from assms(1,2) have "trim_start (p @ q) = p @ q" by (cases p) (auto simp: trim_start_black)
  moreover from assms(1) have "rev (p @ q) = rev q @ last p # rev (butlast p)"
    by (metis append_butlast_last_id append.assoc rev.simps(2) rev_append rev_rev_ident)
  with trim_end_rev_stops [OF assms(3)] obtain u
    where "trim_end_rev (rev (p @ q)) = u @ last p # rev (butlast p)" by metis
  ultimately have "trim (p @ q) = (butlast p @ [last p]) @ rev u"
    by (simp add: trim_def trim_end_def)
  with assms(1) show ?thesis by auto
qed

text \<open>\<open>trim_start_matches\<close> and \<open>trim_end_matches\<close> of a non-empty string.\<close>

function trim_start_matches :: "string \<Rightarrow> string \<Rightarrow> string" where
  "trim_start_matches p s =
     (if p \<noteq> [] \<and> starts_with s p then trim_start_matches p (drop (length p) s) else s)"
  by pat_completeness auto
termination
  by (relation "measure (\<lambda>(p, s). length s)") (auto simp: starts_with_iff)

declare trim_start_matches.simps [simp del]

definition trim_end_matches :: "string \<Rightarrow> string \<Rightarrow> string" where
  "trim_end_matches p s = rev (trim_start_matches (rev p) (rev s))"

text \<open>\<open>str::lines\<close>: lines end at a line feed, with a carriage return before it removed.\<close>

fun strip_cr :: "string \<Rightarrow> string" where
  "strip_cr l = (if l \<noteq> [] \<and> last l = CHR 0x0D then butlast l else l)"

fun lines :: "string \<Rightarrow> string list" where
  "lines s =
     (let ps = split_on (CHR 0x0A) s
      in map strip_cr (butlast ps) @ (if last ps = [] then [] else [last ps]))"

declare lines.simps [simp del]

lemma split_on_prefix: "c \<notin> set p \<Longrightarrow> \<exists>q rest. split_on c (p @ s) = (p @ q) # rest"
  by (induction p) (auto split: list.splits, meson list.exhaust split_on_not_Nil)

lemma lines_prefix:
  assumes "p \<noteq> []" and "CHR 0x0A \<notin> set p" and "last p \<noteq> CHR 0x0D"
  shows "\<exists>q rest. lines (p @ s) = (p @ q) # rest"
proof -
  obtain q rest where ps: "split_on (CHR 0x0A) (p @ s) = (p @ q) # rest"
    using split_on_prefix [OF assms(2)] by blast
  have "\<exists>q'. strip_cr (p @ q) = p @ q'"
    using assms(1,3) by (cases "q = []") (auto simp: butlast_append)
  with ps assms(1) show ?thesis by (cases "rest = []") (auto simp: lines.simps Let_def)
qed

section \<open>Decimal integers\<close>

definition is_digit :: "char \<Rightarrow> bool" where
  "is_digit c \<longleftrightarrow> 48 \<le> (of_char c :: nat) \<and> (of_char c :: nat) \<le> 57"

definition digit_val :: "char \<Rightarrow> nat" where
  "digit_val c = of_char c - 48"

definition digit_char :: "nat \<Rightarrow> char" where
  "digit_char d = char_of (48 + d)"

fun show_nat :: "nat \<Rightarrow> string" where
  "show_nat n = (if n < 10 then [digit_char n] else show_nat (n div 10) @ [digit_char (n mod 10)])"

declare show_nat.simps [simp del]

definition show_int :: "int \<Rightarrow> string" where
  "show_int i = (if i < 0 then CHR ''-'' # show_nat (nat (- i)) else show_nat (nat i))"

definition digits_val :: "string \<Rightarrow> nat" where
  "digits_val s = foldl (\<lambda>a c. 10 * a + digit_val c) 0 s"

definition parse_digits :: "string \<Rightarrow> nat option" where
  "parse_digits s = (if s \<noteq> [] \<and> list_all is_digit s then Some (digits_val s) else None)"

text \<open>\<open>str::parse\<close> for a signed type with the given range, and for \<open>u64\<close>.\<close>

definition parse_signed :: "int \<Rightarrow> int \<Rightarrow> string \<Rightarrow> int option" where
  "parse_signed lo hi s =
     (let (neg, ds) = (case s of
          [] \<Rightarrow> (False, [])
        | c # r \<Rightarrow> if c = CHR ''+'' then (False, r) else if c = CHR ''-'' then (True, r) else (False, s))
      in case parse_digits ds of
           None \<Rightarrow> None
         | Some n \<Rightarrow> let v = (if neg then - int n else int n)
                     in if lo \<le> v \<and> v \<le> hi then Some v else None)"

definition i32_ok :: "int \<Rightarrow> bool" where
  "i32_ok i \<longleftrightarrow> - (2 ^ 31) \<le> i \<and> i \<le> 2 ^ 31 - 1"

definition i64_ok :: "int \<Rightarrow> bool" where
  "i64_ok i \<longleftrightarrow> - (2 ^ 63) \<le> i \<and> i \<le> 2 ^ 63 - 1"

definition parse_i32 :: "string \<Rightarrow> int option" where
  "parse_i32 = parse_signed (- (2 ^ 31)) (2 ^ 31 - 1)"

definition parse_i64 :: "string \<Rightarrow> int option" where
  "parse_i64 = parse_signed (- (2 ^ 63)) (2 ^ 63 - 1)"

definition parse_u64 :: "string \<Rightarrow> nat option" where
  "parse_u64 s =
     (let ds = (case s of [] \<Rightarrow> [] | c # r \<Rightarrow> if c = CHR ''+'' then r else s)
      in case parse_digits ds of
           None \<Rightarrow> None
         | Some n \<Rightarrow> if n < 2 ^ 64 then Some n else None)"

lemma of_char_digit_char [simp]: "d < 10 \<Longrightarrow> (of_char (digit_char d) :: nat) = 48 + d"
  by (simp add: digit_char_def)

lemma is_digit_digit_char [simp]: "d < 10 \<Longrightarrow> is_digit (digit_char d)"
  by (simp add: is_digit_def)

lemma digit_val_digit_char [simp]: "d < 10 \<Longrightarrow> digit_val (digit_char d) = d"
  by (simp add: digit_val_def)

lemma digits_val_snoc [simp]: "digits_val (s @ [c]) = 10 * digits_val s + digit_val c"
  by (simp add: digits_val_def)

lemma show_nat_not_Nil [simp]: "show_nat n \<noteq> []"
  by (subst show_nat.simps) simp

lemma show_nat_digits: "list_all is_digit (show_nat n)"
proof (induction n rule: show_nat.induct)
  case (1 n)
  then show ?case by (subst show_nat.simps) simp
qed

lemma digits_val_show_nat [simp]: "digits_val (show_nat n) = n"
proof (induction n rule: show_nat.induct)
  case (1 n)
  then show ?case
    by (subst show_nat.simps) (auto simp: digits_val_def)
qed

lemma parse_digits_show_nat [simp]: "parse_digits (show_nat n) = Some n"
  by (simp add: parse_digits_def show_nat_digits)

lemma show_nat_inj [simp]: "show_nat m = show_nat n \<longleftrightarrow> m = n"
  by (metis digits_val_show_nat)

lemma digit_not_sign: "is_digit c \<Longrightarrow> c \<noteq> CHR ''-'' \<and> c \<noteq> CHR ''+''"
  by (auto simp: is_digit_def)

lemma set_show_nat: "c \<in> set (show_nat n) \<Longrightarrow> is_digit c"
  using show_nat_digits by (auto simp: list_all_iff)

lemma show_nat_Cons: "show_nat n = c # r \<Longrightarrow> is_digit c"
  using set_show_nat [of c n] by auto

lemma set_show_int: "c \<in> set (show_int i) \<Longrightarrow> is_digit c \<or> c = CHR ''-'' \<and> i < 0"
  by (auto simp: show_int_def dest: set_show_nat split: if_splits)

lemma show_int_not_Nil [simp]: "show_int i \<noteq> []"
  by (simp add: show_int_def)

lemma digit_not_white: "is_digit c \<Longrightarrow> c \<notin> white_bytes"
  by (auto simp: is_digit_def white_bytes_def white_spaces_def)

lemma minus_not_white: "CHR ''-'' \<notin> white_bytes"
  by (simp add: white_bytes_def white_spaces_def)

lemma show_int_not_white: "set (show_int i) \<inter> white_bytes = {}"
  using set_show_int [of _ i] digit_not_white minus_not_white by fastforce

lemma parse_signed_show_int:
  assumes "lo \<le> i" and "i \<le> hi"
  shows "parse_signed lo hi (show_int i) = Some i"
proof (cases "i < 0")
  case True
  with assms show ?thesis by (simp add: parse_signed_def show_int_def Let_def)
next
  case False
  then obtain c r where s: "show_int i = c # r" "show_nat (nat i) = c # r" "is_digit c"
    by (metis show_int_def show_nat_Cons show_nat_not_Nil neq_Nil_conv)
  then have "parse_digits (c # r) = Some (nat i)" by (metis parse_digits_show_nat)
  with s False assms digit_not_sign [of c] show ?thesis
    by (simp add: parse_signed_def Let_def)
qed

lemma parse_i32_range: "parse_i32 s = Some i \<Longrightarrow> i32_ok i"
  by (auto simp: parse_i32_def parse_signed_def i32_ok_def Let_def
      split: option.splits if_splits list.splits prod.splits)

lemma parse_i64_range: "parse_i64 s = Some i \<Longrightarrow> i64_ok i"
  by (auto simp: parse_i64_def parse_signed_def i64_ok_def Let_def
      split: option.splits if_splits list.splits prod.splits)

lemma parse_u64_show_nat: "n < 2 ^ 64 \<Longrightarrow> parse_u64 (show_nat n) = Some n"
proof -
  assume n: "n < 2 ^ 64"
  obtain c r where s: "show_nat n = c # r" "is_digit c"
    by (metis show_nat_Cons show_nat_not_Nil neq_Nil_conv)
  have "parse_digits (c # r) = Some n" using s by (metis parse_digits_show_nat)
  with s n digit_not_sign [of c] show ?thesis by (simp add: parse_u64_def Let_def)
qed

section \<open>Printers and parsers\<close>

locale codec =
  fixes print :: "'a \<Rightarrow> string" and parse :: "string \<Rightarrow> 'a option" and valid :: "'a \<Rightarrow> bool"
  assumes parse_print: "valid x \<Longrightarrow> parse (print x) = Some x"
begin

lemma print_inj: "valid x \<Longrightarrow> valid y \<Longrightarrow> print x = print y \<Longrightarrow> x = y"
  by (metis option.inject parse_print)

lemma parse_print_all:
  "(\<forall>x\<in>set xs. valid x) \<Longrightarrow> collect_res (\<lambda>s. ok_or e (parse s)) (map print xs) = Inr xs"
  by (induction xs) (auto simp: parse_print)

end

text \<open>Lists of such values, printed with a separator that no printed value contains.\<close>

locale sep_codec = codec print parse valid
  for print :: "'a \<Rightarrow> string" and parse :: "string \<Rightarrow> 'a option" and valid :: "'a \<Rightarrow> bool" +
  fixes sep :: char
  assumes sep_free: "valid x \<Longrightarrow> sep \<notin> set (print x)"
begin

lemma split_print_join:
  "xs \<noteq> [] \<Longrightarrow> (\<forall>x\<in>set xs. valid x) \<Longrightarrow>
     split_on sep (str_join [sep] (map print xs)) = map print xs"
  by (rule split_on_join) (auto simp: sep_free)

lemma parse_print_list:
  "xs \<noteq> [] \<Longrightarrow> (\<forall>x\<in>set xs. valid x) \<Longrightarrow>
     collect_res (\<lambda>s. ok_or e (parse s)) (split_on sep (str_join [sep] (map print xs))) = Inr xs"
  by (simp add: split_print_join parse_print_all)

end

lemma show_int_no_sep: "\<not> is_digit c \<Longrightarrow> c \<noteq> CHR ''-'' \<Longrightarrow> c \<notin> set (show_int i)"
  using set_show_int by blast

lemma show_int_no_minus: "0 \<le> i \<Longrightarrow> CHR ''-'' \<notin> set (show_int i)"
  by (auto simp: show_int_def is_digit_def dest: set_show_nat)

interpretation i64_codec: codec show_int parse_i64 i64_ok
  by unfold_locales (simp add: parse_i64_def i64_ok_def parse_signed_show_int)

interpretation i32_comma: sep_codec show_int parse_i32 i32_ok "CHR '',''"
  by unfold_locales
    (simp_all add: parse_i32_def i32_ok_def parse_signed_show_int show_int_no_sep is_digit_def)

text \<open>With a dash as the separator only the non-negative numbers survive.\<close>

interpretation i32_dash:
  sep_codec show_int parse_i32 "\<lambda>i. i32_ok i \<and> 0 \<le> i" "CHR ''-''"
  by unfold_locales
    (simp_all add: parse_i32_def i32_ok_def parse_signed_show_int show_int_no_minus)

end
