(* ===== verification/Godot_Scene.thy ===== *)
theory Godot_Scene imports Rust_Strings begin

text \<open>
  The data of \<open>parser/godot_parser.rs\<close> and \<open>parser/parser_defs.rs\<close>: node identifiers with their
  text form, scenes, nodes, resources and connections as records with the source's fields, the
  scene's accessors, packed integer arrays and quoting. \<open>i32\<close> and \<open>i64\<close> fields are \<open>int\<close>; \<open>i32_ok\<close>
  and \<open>i64_ok\<close> give their ranges.
\<close>

section \<open>Node identifiers\<close>

record node_id =
  nid_id :: int
  nid_root_instance_id :: "int list option"

abbreviation mk_node_id :: "int \<Rightarrow> int list option \<Rightarrow> node_id" where
  "mk_node_id i r \<equiv> \<lparr>nid_id = i, nid_root_instance_id = r\<rparr>"

definition unique_scene_id_unassigned :: node_id where
  "unique_scene_id_unassigned = mk_node_id 0 None"

definition node_id_show :: "node_id \<Rightarrow> string" where
  "node_id_show n =
     show_int (nid_id n) @
     (case nid_root_instance_id n of
        None \<Rightarrow> []
      | Some ids \<Rightarrow> concat (map (\<lambda>i. ''-'' @ show_int i) ids))"

definition invalid_node_id :: "string \<Rightarrow> string" where
  "invalid_node_id s = ''Invalid node id: '' @ s"

definition node_id_from_str :: "string \<Rightarrow> string + node_id" where
  "node_id_from_str s =
     (let parts = split_on (CHR ''-'') s
      in if parts = [] then Inl (invalid_node_id s)
         else rbind (ok_or (invalid_node_id s) (parse_i32 (hd parts))) (\<lambda>i.
              rbind (if length parts > 1
                     then rbind (collect_res (\<lambda>p. ok_or (invalid_node_id s) (parse_i32 p)) (tl parts))
                            (\<lambda>r. Inr (Some r))
                     else Inr None) (\<lambda>r.
              Inr (mk_node_id i r))))"

text \<open>The identifiers whose text parses back: no negative number and no empty instance path.\<close>

definition node_id_plain :: "node_id \<Rightarrow> bool" where
  "node_id_plain n \<longleftrightarrow>
     (i32_ok (nid_id n) \<and> 0 \<le> nid_id n) \<and>
     (case nid_root_instance_id n of
        None \<Rightarrow> True
      | Some ids \<Rightarrow> ids \<noteq> [] \<and> (\<forall>i\<in>set ids. i32_ok i \<and> 0 \<le> i))"

lemma node_id_show_join:
  "node_id_show n = str_join ''-'' (map show_int (nid_id n #
     (case nid_root_instance_id n of None \<Rightarrow> [] | Some ids \<Rightarrow> ids)))"
proof -
  have "x @ concat (map (\<lambda>i. ''-'' @ show_int i) ids) = str_join ''-'' (x # map show_int ids)"
    for x ids
  proof (induction ids arbitrary: x)
    case (Cons i ids)
    from Cons.IH [of "show_int i"] show ?case by simp
  qed simp
  from this [of "show_int (nid_id n)"] show ?thesis
    by (auto simp: node_id_show_def split: option.splits)
qed

lemma node_id_from_str_show:
  assumes "node_id_plain n"
  shows "node_id_from_str (node_id_show n) = Inr n"
proof -
  let ?ids = "nid_id n # (case nid_root_instance_id n of None \<Rightarrow> [] | Some ids \<Rightarrow> ids)"
  have ok: "\<forall>i\<in>set ?ids. i32_ok i \<and> 0 \<le> i"
    using assms by (auto simp: node_id_plain_def split: option.splits)
  have split: "split_on (CHR ''-'') (node_id_show n) = map show_int ?ids"
    unfolding node_id_show_join by (rule i32_dash.split_print_join) (use ok in auto)
  have parse: "collect_res (\<lambda>p. ok_or e (parse_i32 p)) (map show_int (tl ?ids)) = Inr (tl ?ids)"
    for e :: string
    by (rule i32_dash.parse_print_all) (use ok in auto)
  have "parse_i32 (show_int (nid_id n)) = Some (nid_id n)"
    by (rule i32_dash.parse_print) (use ok in auto)
  with split parse show ?thesis
    using assms
    by (cases n; cases "nid_root_instance_id n") (auto simp: node_id_from_str_def node_id_plain_def)
qed

interpretation node_id_codec:
  codec node_id_show "\<lambda>s. get_ok (node_id_from_str s)" node_id_plain
  by unfold_locales (simp add: node_id_from_str_show)

lemma node_id_from_str_negative:
  assumes "nid_id n < 0"
  shows "\<exists>e. node_id_from_str (node_id_show n) = Inl e"
proof -
  obtain r where "node_id_show n = CHR ''-'' # r"
    using assms by (simp add: node_id_show_def show_int_def)
  then have "split_on (CHR ''-'') (node_id_show n) = [] # split_on (CHR ''-'') r" by simp
  then show ?thesis
    by (simp add: node_id_from_str_def parse_i32_def parse_signed_def parse_digits_def)
qed

section \<open>Scenes\<close>

record ordered_property =
  prop_value :: string
  prop_order :: int

datatype type_or_instance = Type string | Instance string

fun type_or_instance_show :: "type_or_instance \<Rightarrow> string" where
  "type_or_instance_show (Type type_name) = type_name"
| "type_or_instance_show (Instance instance_id) = instance_id"

record godot_node =
  gn_id :: node_id
  gn_name :: string
  gn_type_or_instance :: "type_or_instance option"
  gn_instance_placeholder :: "string option"
  gn_parent_id :: "node_id option"
  gn_parent_path_fallback :: "string option"
  gn_parent_id_path :: "int list option"
  gn_owner :: "string option"
  gn_owner_uid_path :: "int list option"
  gn_index :: "int option"
  gn_groups :: "string option"
  gn_node_paths :: "string option"
  gn_properties :: "(string, ordered_property) hmap"
  gn_child_node_ids :: "node_id list"

record godot_connection =
  gc_signal :: string
  gc_from_node_id :: node_id
  gc_to_node_id :: node_id
  gc_method :: string
  gc_flags :: "int option"
  gc_from_uid_path :: "int list option"
  gc_to_uid_path :: "int list option"
  gc_unbinds :: "int option"
  gc_binds :: "string option"

record external_resource_node =
  er_resource_type :: string
  er_uid :: "string option"
  er_path :: string
  er_id :: string
  er_idx :: int

record sub_resource_node =
  sr_id :: string
  sr_resource_type :: string
  sr_properties :: "(string, ordered_property) hmap"
  sr_idx :: int

record godot_scene =
  gs_load_steps :: int
  gs_format :: int
  gs_uid :: string
  gs_script_class :: "string option"
  gs_resource_type :: string
  gs_root_node_id :: "node_id option"
  gs_ext_resources :: "(string, external_resource_node) hmap"
  gs_sub_resources :: "(string, sub_resource_node) hmap"
  gs_nodes :: "(node_id, godot_node) hmap"
  gs_connections :: "(string, godot_connection) hmap"
  gs_editable_instances :: "string list"
  gs_main_resource :: "sub_resource_node option"

text \<open>\<open>GodotConnection::id\<close>, the key under which a connection is stored.\<close>

definition connection_id :: "godot_connection \<Rightarrow> string" where
  "connection_id c =
     str_join ''-''
       [gc_signal c, node_id_show (gc_from_node_id c), node_id_show (gc_to_node_id c), gc_method c,
        (case gc_flags c of None \<Rightarrow> [] | Some f \<Rightarrow> show_int f),
        (case gc_unbinds c of None \<Rightarrow> [] | Some u \<Rightarrow> show_int u),
        (case gc_binds c of None \<Rightarrow> ''[]'' | Some b \<Rightarrow> b)]"

section \<open>Accessors\<close>

definition get_node :: "godot_scene \<Rightarrow> node_id \<Rightarrow> godot_node option" where
  "get_node sc i = hm_get (gs_nodes sc) i"

definition get_ext_resource_path :: "godot_scene \<Rightarrow> string \<Rightarrow> string option" where
  "get_ext_resource_path sc ext_resource_id =
     (let i = trim_end_matches [CHR 0x22, CHR '')'']
                (trim_start_matches (''ExtResource('' @ [CHR 0x22]) ext_resource_id)
      in map_option er_path (hm_get (gs_ext_resources sc) i))"

definition get_root_node_type :: "godot_scene \<Rightarrow> type_or_instance option" where
  "get_root_node_type sc =
     (case gs_root_node_id sc of
        None \<Rightarrow> None
      | Some r \<Rightarrow> (case get_node sc r of None \<Rightarrow> None | Some n \<Rightarrow> gn_type_or_instance n))"

definition root_or_unassigned :: "godot_scene \<Rightarrow> node_id" where
  "root_or_unassigned sc =
     (case gs_root_node_id sc of None \<Rightarrow> unique_scene_id_unassigned | Some r \<Rightarrow> r)"

text \<open>The loop of \<open>get_node_path\<close>; \<open>None\<close> is a loop that never ends.\<close>

partial_function (option) node_path_loop ::
  "godot_scene \<Rightarrow> node_id \<Rightarrow> string \<Rightarrow> (unit, string) outcome option" where
  "node_path_loop sc current_id path =
     (case get_node sc current_id of
        None \<Rightarrow> Some (Inl Panic)
      | Some node \<Rightarrow>
          let path = (if path = [] then gn_name node else gn_name node @ ''/'' @ path)
          in case gn_parent_path_fallback node of
               Some parent_path \<Rightarrow>
                 Some (Inr (if parent_path = ''.'' then path else parent_path @ ''/'' @ path))
             | None \<Rightarrow>
                 (case gn_parent_id node of
                    Some parent_id \<Rightarrow>
                      if parent_id = root_or_unassigned sc then Some (Inr path)
                      else node_path_loop sc parent_id path
                  | None \<Rightarrow> Some (Inr path)))"

declare node_path_loop.simps [code]

definition get_node_path :: "godot_scene \<Rightarrow> node_id \<Rightarrow> (unit, string) outcome" where
  "get_node_path sc node_id =
     (if node_id = root_or_unassigned sc then Inr ''.''
      else rbind (returned (node_path_loop sc node_id [])) id)"

section \<open>Arrays and quoting\<close>

definition parse_int32_array :: "string \<Rightarrow> ('e, int list) outcome" where
  "parse_int32_array s =
     rbind (unwrap (strip_prefix s ''PackedInt32Array('')) (\<lambda>s.
     rbind (unwrap (strip_suffix s '')'')) (\<lambda>s.
     Inr (map (\<lambda>p. case parse_i32 (trim p) of None \<Rightarrow> 0 | Some i \<Rightarrow> i)
            (split_on (CHR '','') (trim s)))))"

definition serialize_int32_array :: "int list \<Rightarrow> string" where
  "serialize_int32_array xs = ''PackedInt32Array('' @ str_join '', '' (map show_int xs) @ '')''"

definition quote_char :: char where
  "quote_char = CHR 0x22"

definition quoted :: "string \<Rightarrow> string" where
  "quoted s = quote_char # s @ [quote_char]"

definition unquote :: "string \<Rightarrow> ('e, string) outcome" where
  "unquote s =
     (if starts_with s [quote_char] \<and> ends_with s [quote_char] then slice s 1 (length s - 1)
      else Inr s)"

lemma unquote_quoted: "str_start_ok s \<Longrightarrow> unquote (quoted s) = Inr s"
proof -
  assume s: "str_start_ok s"
  have "\<not> continuation_byte quote_char" by (simp add: quote_char_def continuation_byte_def)
  with s have "str_start_ok (s @ [quote_char])"
    by (cases s) (auto simp: is_char_boundary_def)
  moreover have "str_start_ok [quote_char]"
    by (simp add: quote_char_def continuation_byte_def)
  moreover have "ends_with (quoted s) [quote_char]"
    unfolding ends_with_iff quoted_def by (metis append_Cons)
  ultimately show ?thesis
    using slice_middle [of s "[quote_char]" "[quote_char]"] by (simp add: unquote_def quoted_def)
qed

lemma unquote_plain: "\<not> starts_with s [quote_char] \<Longrightarrow> unquote s = Inr s"
  by (simp add: unquote_def)

lemma unquote_panics_iff: "str_start_ok (tl s) \<Longrightarrow> unquote s = Inl Panic \<longleftrightarrow> s = [quote_char]"
proof (cases "starts_with s [quote_char] \<and> ends_with s [quote_char]")
  case True
  assume tl: "str_start_ok (tl s)"
  from True obtain r where s: "s = quote_char # r" by (auto simp: starts_with_iff)
  show ?thesis
  proof (cases "r = []")
    case True
    with s show ?thesis by (simp add: unquote_def slice_def ends_with_def)
  next
    case False
    with s True obtain m where "s = quoted m"
      by (metis append_butlast_last_id ends_with_iff last.simps last_snoc quoted_def)
    with tl s have "str_start_ok m"
      by (cases m) (auto simp: quoted_def is_char_boundary_def)
    moreover have "s \<noteq> [quote_char]" using s False by simp
    ultimately show ?thesis using \<open>s = quoted m\<close> by (simp add: unquote_quoted)
  qed
next
  case False
  then show ?thesis by (auto simp: unquote_def ends_with_def)
qed

lemma show_int_hd_last_black: "hd (show_int i) \<notin> white_bytes" "last (show_int i) \<notin> white_bytes"
  using show_int_not_white [of i] show_int_not_Nil [of i] hd_in_set last_in_set
  by (metis disjoint_iff)+

lemma parse_serialize_int32_array:
  assumes "xs \<noteq> []" and "\<forall>i\<in>set xs. i32_ok i"
  shows "parse_int32_array (serialize_int32_array xs) = Inr xs"
proof -
  let ?j = "str_join '', '' (map show_int xs)"
  obtain y ys where xs: "xs = y # ys" using assms(1) by (cases xs) auto
  have "trim ?j = ?j"
  proof (rule trim_black_ends)
    show "?j \<noteq> []" using xs str_join_not_Nil [of "show_int y"] by simp
    show "hd ?j \<notin> white_bytes" using xs by (simp add: hd_str_join show_int_hd_last_black)
    have "last ?j = last (last (map show_int xs))"
      using last_str_join [of "show_int y" "map show_int ys" "'', ''"] xs by simp
    then show "last ?j \<notin> white_bytes"
      using assms(1) by (simp add: last_map show_int_hd_last_black)
  qed
  moreover have "split_on (CHR '','') ?j = show_int y # map ((#) (CHR '' '')) (map show_int ys)"
    using split_on_join_space [of "show_int y" "map show_int ys" "CHR '',''" "CHR '' ''"]
      i32_comma.sep_free show_int_no_sep [of "CHR '',''"] xs by (auto simp: is_digit_def)
  moreover have "trim (show_int i) = show_int i" "trim (CHR '' '' # show_int i) = show_int i" for i
    by (simp_all add: trim_black trim_space_black show_int_not_white)
  ultimately show ?thesis
    using assms(2) xs i32_comma.parse_print
    by (auto simp: parse_int32_array_def serialize_int32_array_def comp_def intro!: map_idI)
qed

lemma parse_serialize_int32_array_Nil: "parse_int32_array (serialize_int32_array []) = Inr [0]"
  by (simp add: parse_int32_array_def serialize_int32_array_def parse_i32_def parse_signed_def
      parse_digits_def strip_suffix_def ends_with_def)

section \<open>Paths of nodes\<close>

text \<open>
  The specification of \<open>get_node_path\<close>: the chain of parents from a node up to a direct child of
  the root, a node whose parent is not part of the scene file (it keeps a path), or a node
  without parent; \<open>names\<close> collects what is printed, topmost first.
\<close>

inductive path_names :: "godot_scene \<Rightarrow> node_id \<Rightarrow> string list \<Rightarrow> bool" for sc where
  kept: "get_node sc i = Some n \<Longrightarrow> gn_parent_path_fallback n = Some p \<Longrightarrow>
     path_names sc i (if p = ''.'' then [gn_name n] else [p, gn_name n])"
| top: "get_node sc i = Some n \<Longrightarrow> gn_parent_path_fallback n = None \<Longrightarrow>
     gn_parent_id n = None \<or> gn_parent_id n = Some (root_or_unassigned sc) \<Longrightarrow>
     path_names sc i [gn_name n]"
| child: "get_node sc i = Some n \<Longrightarrow> gn_parent_path_fallback n = None \<Longrightarrow>
     gn_parent_id n = Some j \<Longrightarrow> j \<noteq> root_or_unassigned sc \<Longrightarrow> path_names sc j ns \<Longrightarrow>
     path_names sc i (ns @ [gn_name n])"

lemma path_names_not_Nil: "path_names sc i ns \<Longrightarrow> ns \<noteq> []"
  by (induction rule: path_names.induct) auto

lemma node_path_loop_path_names:
  assumes "path_names sc i ns" and "\<forall>(k, n)\<in>set (gs_nodes sc). gn_name n \<noteq> []"
  shows "node_path_loop sc i path =
     Some (Inr (str_join ''/'' (if path = [] then ns else ns @ [path])))"
  using assms(1)
proof (induction arbitrary: path rule: path_names.induct)
  case (kept i n p)
  then show ?case by (subst node_path_loop.simps) auto
next
  case (top i n)
  then show ?case by (subst node_path_loop.simps) (auto split: option.splits)
next
  case (child i n j ns)
  from child.hyps(1) assms(2) have "gn_name n \<noteq> []"
    by (auto simp: get_node_def dest: map_of_SomeD)
  with child path_names_not_Nil [OF child.hyps(5)] show ?case
    by (subst node_path_loop.simps)
      (auto simp: Let_def str_join_merge_last [of "''/''", simplified])
qed

text \<open>
  Where the parent links decrease some rank and lead to nodes of the scene, every node has such a
  chain, so the loop returns.
\<close>

definition parents_ranked :: "godot_scene \<Rightarrow> (node_id \<Rightarrow> nat) \<Rightarrow> bool" where
  "parents_ranked sc rank \<longleftrightarrow>
     (\<forall>(i, n)\<in>set (gs_nodes sc). \<forall>j. gn_parent_path_fallback n = None \<and> gn_parent_id n = Some j \<and>
        j \<noteq> root_or_unassigned sc \<longrightarrow> get_node sc j \<noteq> None \<and> rank j < rank i)"

lemma path_names_exists:
  assumes "parents_ranked sc rank" and "get_node sc i \<noteq> None"
  shows "\<exists>ns. path_names sc i ns"
  using assms(2)
proof (induction "rank i" arbitrary: i rule: less_induct)
  case less
  then obtain n where n: "get_node sc i = Some n" by auto
  then have mem: "(i, n) \<in> set (gs_nodes sc)" by (simp add: get_node_def map_of_SomeD)
  consider (kept) p where "gn_parent_path_fallback n = Some p"
    | (top) "gn_parent_path_fallback n = None"
        "gn_parent_id n = None \<or> gn_parent_id n = Some (root_or_unassigned sc)"
    | (child) j where "gn_parent_path_fallback n = None" "gn_parent_id n = Some j"
        "j \<noteq> root_or_unassigned sc"
    by (cases "gn_parent_path_fallback n"; cases "gn_parent_id n") auto
  then show ?case
  proof cases
    case child
    with assms(1) mem have "get_node sc j \<noteq> None" "rank j < rank i"
      by (auto simp: parents_ranked_def)
    with less.hyps obtain ns where "path_names sc j ns" by blast
    with n child show ?thesis by (blast intro: path_names.child)
  qed (use n in \<open>blast intro: path_names.intros\<close>)+
qed

lemma node_path_loop_returns:
  assumes "parents_ranked sc rank" and "get_node sc i \<noteq> None"
  shows "\<exists>s. node_path_loop sc i path = Some (Inr s)"
  using assms(2)
proof (induction "rank i" arbitrary: i path rule: less_induct)
  case less
  then obtain n where n: "get_node sc i = Some n" by auto
  then have mem: "(i, n) \<in> set (gs_nodes sc)" by (simp add: get_node_def map_of_SomeD)
  show ?case
  proof (cases "\<exists>j. gn_parent_path_fallback n = None \<and> gn_parent_id n = Some j \<and>
      j \<noteq> root_or_unassigned sc")
    case True
    then obtain j where j: "gn_parent_path_fallback n = None" "gn_parent_id n = Some j"
      "j \<noteq> root_or_unassigned sc" by blast
    with assms(1) mem have "get_node sc j \<noteq> None" "rank j < rank i"
      by (auto simp: parents_ranked_def)
    with less.hyps j n show ?thesis by (subst node_path_loop.simps) (simp add: Let_def)
  next
    case False
    with n show ?thesis
      by (subst node_path_loop.simps) (auto simp: Let_def split: option.splits)
  qed
qed

text \<open>A set of nodes whose parents stay in the set, such as a cycle, is never left.\<close>

lemma node_path_loop_closed:
  assumes closed: "\<And>i. i \<in> C \<Longrightarrow> \<exists>n j. get_node sc i = Some n \<and> gn_parent_path_fallback n = None \<and>
      gn_parent_id n = Some j \<and> j \<in> C"
    and root: "root_or_unassigned sc \<notin> C" and "i \<in> C"
  shows "node_path_loop sc i path = None"
proof (rule ccontr)
  assume "node_path_loop sc i path \<noteq> None"
  then obtain r where r: "node_path_loop sc i path = Some r" by blast
  have "i \<notin> C"
  proof (rule node_path_loop.raw_induct [where P = "\<lambda>sc' i path r. sc' = sc \<longrightarrow> i \<notin> C",
        OF _ r, THEN mp, OF _ refl], rule impI)
    fix f sc' i path r
    assume IH: "\<And>sc' i path r. f sc' i path = Some r \<Longrightarrow> sc' = sc \<longrightarrow> i \<notin> C"
      and eq: "(case get_node sc' i of None \<Rightarrow> Some (Inl Panic)
        | Some node \<Rightarrow>
          let path = (if path = [] then gn_name node else gn_name node @ ''/'' @ path)
          in case gn_parent_path_fallback node of
               None \<Rightarrow> (case gn_parent_id node of
                  None \<Rightarrow> Some (Inr path)
                | Some parent_id \<Rightarrow> if parent_id = root_or_unassigned sc' then Some (Inr path)
                    else f sc' parent_id path)
             | Some parent_path \<Rightarrow>
                 Some (Inr (if parent_path = ''.'' then path else parent_path @ ''/'' @ path)))
        = Some r"
      and "sc' = sc"
    show "i \<notin> C"
    proof
      assume "i \<in> C"
      with closed obtain n j where "get_node sc i = Some n" "gn_parent_path_fallback n = None"
        "gn_parent_id n = Some j" "j \<in> C" by blast
      with eq root \<open>sc' = sc\<close> have "f sc j (if path = [] then gn_name n else gn_name n @ ''/'' @ path)
          = Some r"
        by (auto simp: Let_def split: if_splits)
      with IH \<open>j \<in> C\<close> show False by blast
    qed
  qed
  with \<open>i \<in> C\<close> show False by blast
qed

end
