(* ===== verification/Godot_Parse.thy ===== *)
theory Godot_Parse imports Godot_Scene begin

text \<open>
  \<open>parse_scene\<close> of \<open>parser/godot_parser.rs\<close>: from the sections that the tree-sitter grammar finds in
  a text to a scene. The grammar is a library: the definitions take its query matches, one list of
  captures per section (capture index and text; the text of a node of valid UTF-8 is always
  readable), or \<open>None\<close> when it yields no tree. The random generator is the list of numbers it will
  draw; if all of them are taken the redraw loop goes on, which the model reports as \<open>Diverges\<close>.

  The four passes of the code are four groups of definitions: sections to records
  (\<open>handle_section\<close>), identifiers and paths of nodes (\<open>place_node\<close>), parent links (\<open>link_node\<close>) and
  connections (\<open>resolve_connection\<close>).
\<close>

datatype parse_error =
    MissingAttribute string string   \<comment> \<open>attribute, section\<close>
  | InvalidParentPath string         \<comment> \<open>node name\<close>
  | NodeExists node_id
  | NoParentInPath string string     \<comment> \<open>path, node name\<close>
  | NoParentNode node_id node_id     \<comment> \<open>parent, node\<close>
  | NoConnectionNode string          \<comment> \<open>path\<close>
  | MissingSceneHeader
  | SceneParseFailed

section \<open>Sections\<close>

type_synonym capture = "nat \<times> string"
type_synonym section_heading = "(string, string) hmap"

record scene_section =
  sec_id :: string
  sec_heading :: section_heading
  sec_properties :: "(string \<times> ordered_property) list"

text \<open>Captures: 0 section id, 1 attribute key, 2 its value, 3 property key, 4 its value.\<close>

fun read_captures :: "capture list \<Rightarrow> scene_section \<Rightarrow> scene_section" where
  "read_captures [] sec = sec"
| "read_captures ((i, t) # rest) sec =
     read_captures rest
       (if i = 0 then sec\<lparr>sec_id := t\<rparr>
        else if i = 1 then
          (case rest of
             [] \<Rightarrow> sec
           | (_, v) # _ \<Rightarrow> sec\<lparr>sec_heading := hm_insert t v (sec_heading sec)\<rparr>)
        else if i = 3 then
          (case rest of
             [] \<Rightarrow> sec
           | (_, v) # _ \<Rightarrow> sec\<lparr>sec_properties := sec_properties sec @
               [(t, \<lparr>prop_value = v, prop_order = int (length (sec_properties sec))\<rparr>)]\<rparr>)
        else sec)"

definition read_section :: "capture list \<Rightarrow> scene_section" where
  "read_section cs = read_captures cs \<lparr>sec_id = [], sec_heading = [], sec_properties = []\<rparr>"

definition attr_opt :: "scene_section \<Rightarrow> string \<Rightarrow> (parse_error, string option) outcome" where
  "attr_opt sec k =
     (case hm_get (sec_heading sec) k of
        None \<Rightarrow> Inr None
      | Some v \<Rightarrow> rbind (unquote v) (\<lambda>s. Inr (Some s)))"

definition attr_req :: "scene_section \<Rightarrow> string \<Rightarrow> (parse_error, string) outcome" where
  "attr_req sec k =
     (case hm_get (sec_heading sec) k of
        None \<Rightarrow> Inl (Err (MissingAttribute k (sec_id sec)))
      | Some v \<Rightarrow> unquote v)"

definition attr_i64 :: "scene_section \<Rightarrow> string \<Rightarrow> int option" where
  "attr_i64 sec k = Option.bind (hm_get (sec_heading sec) k) parse_i64"

definition attr_array :: "scene_section \<Rightarrow> string \<Rightarrow> (parse_error, int list option) outcome" where
  "attr_array sec k =
     (case hm_get (sec_heading sec) k of
        None \<Rightarrow> Inr None
      | Some v \<Rightarrow> rbind (parse_int32_array v) (\<lambda>xs. Inr (Some xs)))"

record scene_metadata =
  sm_load_steps :: int
  sm_format :: int
  sm_uid :: string
  sm_script_class :: "string option"
  sm_resource_type :: string

record parse_state =
  ps_metadata :: "scene_metadata option"
  ps_node_arr :: "(godot_node \<times> string option) list"
  ps_parsed_node_ids :: "node_id list"
  ps_ext_resources :: "(string, external_resource_node) hmap"
  ps_sub_resources :: "(string, sub_resource_node) hmap"
  ps_connections_arr :: "(string \<times> string \<times> godot_connection) list"
  ps_main_resource :: "sub_resource_node option"
  ps_editable_instances :: "string list"
  ps_ext_resource_idx :: int
  ps_sub_resource_idx :: int

definition parse_state_init :: parse_state where
  "parse_state_init =
     \<lparr>ps_metadata = None, ps_node_arr = [], ps_parsed_node_ids = [], ps_ext_resources = [],
      ps_sub_resources = [], ps_connections_arr = [], ps_main_resource = None,
      ps_editable_instances = [], ps_ext_resource_idx = 0, ps_sub_resource_idx = 0\<rparr>"

definition handle_gd_resource ::
  "scene_section \<Rightarrow> parse_state \<Rightarrow> (parse_error, parse_state) outcome" where
  "handle_gd_resource sec st =
     (let load_steps = (case attr_i64 sec ''load_steps'' of None \<Rightarrow> 0 | Some n \<Rightarrow> n)
      in rbind (ok_or (Err (MissingAttribute ''format'' ''gd_resource'')) (attr_i64 sec ''format'')) (\<lambda>format.
         rbind (attr_opt sec ''script_class'') (\<lambda>script_class.
         rbind (attr_req sec ''uid'') (\<lambda>uid.
         rbind (attr_req sec ''type'') (\<lambda>resource_type.
         Inr (st\<lparr>ps_metadata := Some \<lparr>sm_load_steps = load_steps, sm_format = format, sm_uid = uid,
           sm_script_class = script_class, sm_resource_type = resource_type\<rparr>\<rparr>))))))"

definition handle_resource :: "scene_section \<Rightarrow> parse_state \<Rightarrow> parse_state" where
  "handle_resource sec st =
     st\<lparr>ps_main_resource := Some
       \<lparr>sr_id = [],
        sr_resource_type = (case ps_metadata st of None \<Rightarrow> [] | Some s \<Rightarrow> sm_resource_type s),
        sr_properties = hm_collect (sec_properties sec), sr_idx = 0\<rparr>\<rparr>"

definition handle_gd_scene ::
  "scene_section \<Rightarrow> parse_state \<Rightarrow> (parse_error, parse_state) outcome" where
  "handle_gd_scene sec st =
     (let load_steps = (case attr_i64 sec ''load_steps'' of None \<Rightarrow> 0 | Some n \<Rightarrow> n)
      in rbind (ok_or (Err (MissingAttribute ''format'' ''gd_scene'')) (attr_i64 sec ''format'')) (\<lambda>format.
         rbind (attr_req sec ''uid'') (\<lambda>uid.
         Inr (st\<lparr>ps_metadata := Some \<lparr>sm_load_steps = load_steps, sm_format = format, sm_uid = uid,
           sm_script_class = None, sm_resource_type = ''PackedScene''\<rparr>\<rparr>))))"

definition section_unique_id :: "scene_section \<Rightarrow> node_id" where
  "section_unique_id sec =
     (case hm_get (sec_heading sec) ''unique_id'' of
        Some unique_id \<Rightarrow>
          mk_node_id (case parse_i32 unique_id of None \<Rightarrow> 0 | Some i \<Rightarrow> i) None
      | None \<Rightarrow> unique_scene_id_unassigned)"

definition section_type :: "scene_section \<Rightarrow> (parse_error, type_or_instance option) outcome" where
  "section_type sec =
     rbind (attr_opt sec ''type'') (\<lambda>t.
     case t of
       Some type_value \<Rightarrow> Inr (Some (Type type_value))
     | None \<Rightarrow> rbind (attr_opt sec ''instance'') (\<lambda>i. Inr (map_option Instance i)))"

definition handle_node :: "scene_section \<Rightarrow> parse_state \<Rightarrow> (parse_error, parse_state) outcome" where
  "handle_node sec st =
     (let unique_id = section_unique_id sec
      in rbind (attr_req sec ''name'') (\<lambda>name.
         rbind (attr_opt sec ''instance_placeholder'') (\<lambda>instance_placeholder.
         rbind (attr_array sec ''parent_id_path'') (\<lambda>parent_id_path.
         rbind (attr_array sec ''owner_uid_path'') (\<lambda>owner_uid_path.
         rbind (section_type sec) (\<lambda>type_or_instance.
         let duplicate = unique_id \<in> set (ps_parsed_node_ids st);
             node_id_num = (if duplicate \<and> type_or_instance \<noteq> None
                            then unique_scene_id_unassigned else unique_id)
         in rbind (attr_opt sec ''node_paths'') (\<lambda>node_paths.
            rbind (attr_opt sec ''parent'') (\<lambda>parent_path.
            rbind (attr_opt sec ''owner'') (\<lambda>owner.
            rbind (attr_opt sec ''index'') (\<lambda>index.
            Inr (st\<lparr>
              ps_parsed_node_ids := hs_insert unique_id (ps_parsed_node_ids st),
              ps_node_arr := ps_node_arr st @
                [(\<lparr>gn_id = node_id_num, gn_name = name, gn_type_or_instance = type_or_instance,
                   gn_instance_placeholder = instance_placeholder, gn_parent_id = None,
                   gn_parent_path_fallback = parent_path, gn_parent_id_path = parent_id_path,
                   gn_owner = owner, gn_owner_uid_path = owner_uid_path,
                   gn_index = Option.bind index parse_i64,
                   gn_groups = hm_get (sec_heading sec) ''groups'', gn_node_paths = node_paths,
                   gn_properties = hm_collect (sec_properties sec), gn_child_node_ids = []\<rparr>,
                  parent_path)]\<rparr>)))))))))))"

definition handle_ext_resource ::
  "scene_section \<Rightarrow> parse_state \<Rightarrow> (parse_error, parse_state) outcome" where
  "handle_ext_resource sec st =
     rbind (attr_req sec ''type'') (\<lambda>ext_resource_type.
     rbind (attr_opt sec ''uid'') (\<lambda>uid.
     rbind (attr_req sec ''path'') (\<lambda>path.
     rbind (attr_req sec ''id'') (\<lambda>i.
     Inr (st\<lparr>
       ps_ext_resources := hm_insert i
         \<lparr>er_resource_type = ext_resource_type, er_uid = uid, er_path = path, er_id = i,
          er_idx = ps_ext_resource_idx st\<rparr> (ps_ext_resources st),
       ps_ext_resource_idx := ps_ext_resource_idx st + 1\<rparr>)))))"

definition handle_sub_resource ::
  "scene_section \<Rightarrow> parse_state \<Rightarrow> (parse_error, parse_state) outcome" where
  "handle_sub_resource sec st =
     rbind (attr_req sec ''id'') (\<lambda>i.
     rbind (attr_req sec ''type'') (\<lambda>subresource_type.
     Inr (st\<lparr>
       ps_sub_resources := hm_insert i
         \<lparr>sr_id = i, sr_resource_type = subresource_type,
          sr_properties = hm_collect (sec_properties sec), sr_idx = ps_sub_resource_idx st\<rparr>
         (ps_sub_resources st),
       ps_sub_resource_idx := ps_sub_resource_idx st + 1\<rparr>)))"

definition handle_connection ::
  "scene_section \<Rightarrow> parse_state \<Rightarrow> (parse_error, parse_state) outcome" where
  "handle_connection sec st =
     rbind (attr_req sec ''signal'') (\<lambda>signal.
     rbind (attr_req sec ''from'') (\<lambda>from_path.
     rbind (attr_req sec ''to'') (\<lambda>to_path.
     rbind (attr_req sec ''method'') (\<lambda>method.
     rbind (attr_array sec ''from_uid_path'') (\<lambda>from_uid_path.
     rbind (attr_array sec ''to_uid_path'') (\<lambda>to_uid_path.
     rbind (attr_opt sec ''binds'') (\<lambda>binds.
     Inr (st\<lparr>ps_connections_arr := ps_connections_arr st @
       [(from_path, to_path,
         \<lparr>gc_signal = signal, gc_from_node_id = unique_scene_id_unassigned,
          gc_to_node_id = unique_scene_id_unassigned, gc_method = method,
          gc_flags = attr_i64 sec ''flags'', gc_from_uid_path = from_uid_path,
          gc_to_uid_path = to_uid_path, gc_unbinds = attr_i64 sec ''unbinds'',
          gc_binds = binds\<rparr>)]\<rparr>))))))))"

definition handle_editable ::
  "scene_section \<Rightarrow> parse_state \<Rightarrow> (parse_error, parse_state) outcome" where
  "handle_editable sec st =
     rbind (attr_req sec ''path'') (\<lambda>path.
     Inr (st\<lparr>ps_editable_instances := ps_editable_instances st @ [path]\<rparr>))"

definition handle_section ::
  "scene_section \<Rightarrow> parse_state \<Rightarrow> (parse_error, parse_state) outcome" where
  "handle_section sec st =
     (if sec_id sec = ''gd_resource'' then handle_gd_resource sec st
      else if sec_id sec = ''resource'' then Inr (handle_resource sec st)
      else if sec_id sec = ''gd_scene'' then handle_gd_scene sec st
      else if sec_id sec = ''node'' then handle_node sec st
      else if sec_id sec = ''ext_resource'' then handle_ext_resource sec st
      else if sec_id sec = ''sub_resource'' then handle_sub_resource sec st
      else if sec_id sec = ''connection'' then handle_connection sec st
      else if sec_id sec = ''editable'' then handle_editable sec st
      else Inr st)"

section \<open>Identifiers and paths of nodes\<close>

record link_state =
  ls_nodes :: "(node_id, godot_node) hmap"
  ls_keys :: "node_id list"
  ls_root_node_id :: "node_id option"
  ls_by_path :: "(string, node_id) hmap"   \<comment> \<open>\<open>node_id_by_node_path\<close>\<close>
  ls_parsed_node_ids :: "node_id list"
  ls_draws :: "int list"

fun draw_node_id :: "node_id list \<Rightarrow> int list \<Rightarrow> (node_id \<times> int list) option" where
  "draw_node_id parsed [] = None"
| "draw_node_id parsed (r # rs) =
     (if mk_node_id r None \<in> set parsed then draw_node_id parsed rs
      else Some (mk_node_id r None, rs))"

text \<open>The path without its last component: what the loops do at their end.\<close>

definition path_up :: "string \<Rightarrow> string" where
  "path_up path = (case rfind_char path (CHR ''/'') of None \<Rightarrow> [] | Some i \<Rightarrow> take i path)"

text \<open>
  The loop that collects the instances above an edited node. As in the code, a path that is not
  in the index leaves the loop variable as it is.
\<close>

partial_function (option) instance_path_loop ::
  "(node_id, godot_node) hmap \<Rightarrow> (string, node_id) hmap \<Rightarrow> string \<Rightarrow> node_id option \<Rightarrow> int list \<Rightarrow>
   (node_id option \<times> int list) option" where
  "instance_path_loop nodes by_path path parent_id ids =
     (if path = [] then Some (parent_id, ids)
      else (case hm_get by_path path of
          None \<Rightarrow> instance_path_loop nodes by_path path parent_id ids
        | Some node_id \<Rightarrow>
            (case hm_get nodes node_id of
               None \<Rightarrow> instance_path_loop nodes by_path (path_up path) parent_id ids
             | Some parent \<Rightarrow>
                 let parent_id = (if parent_id = None then Some node_id else parent_id)
                 in case nid_root_instance_id (gn_id parent) of
                      Some pid \<Rightarrow>
                        Some (parent_id,
                          fold (\<lambda>i ids. if i \<in> set ids then ids else i # ids) (rev pid)
                            (nid_id node_id # ids))
                    | None \<Rightarrow>
                        instance_path_loop nodes by_path (path_up path) parent_id
                          (case gn_type_or_instance parent of
                             Some (Instance _) \<Rightarrow> nid_id node_id # ids
                           | _ \<Rightarrow> ids))))"

declare instance_path_loop.simps [code]

definition assign_id :: "godot_node \<Rightarrow> link_state \<Rightarrow> (parse_error, godot_node \<times> link_state) outcome" where
  "assign_id node st =
     (if gn_id node = unique_scene_id_unassigned
      then rbind (returned (draw_node_id (ls_parsed_node_ids st) (ls_draws st))) (\<lambda>(i, draws).
           Inr (node\<lparr>gn_id := i\<rparr>,
                st\<lparr>ls_parsed_node_ids := hs_insert i (ls_parsed_node_ids st), ls_draws := draws\<rparr>))
      else Inr (node, st))"

text \<open>The instance path, the parent and the kept path of a node that edits an instanced one.\<close>

definition place_edited :: "godot_node \<Rightarrow> link_state \<Rightarrow> (parse_error, godot_node) outcome" where
  "place_edited node st =
     (let parent_path = (case gn_parent_path_fallback node of None \<Rightarrow> [] | Some p \<Rightarrow> p);
          root = (case ls_root_node_id st of None \<Rightarrow> unique_scene_id_unassigned | Some r \<Rightarrow> r);
          finish = (\<lambda>node root_instance_id parent_id.
            node\<lparr>gn_id := mk_node_id (nid_id (gn_id node)) root_instance_id, gn_parent_id := parent_id\<rparr>)
      in if parent_path = ''.'' then Inr (finish node (Some [nid_id root]) (Some root))
         else if gn_parent_id_path node \<noteq> None \<and> gn_parent_id_path node \<noteq> Some []
         then Inr (finish node (gn_parent_id_path node) None)
         else if parent_path \<noteq> [] then
           rbind (returned (instance_path_loop (ls_nodes st) (ls_by_path st) parent_path None []))
             (\<lambda>(parent_id, ids).
           Inr (finish
             (if hm_contains (ls_by_path st) parent_path
              then node\<lparr>gn_parent_path_fallback := None\<rparr> else node) (Some ids) parent_id))
         else Inl (Err (InvalidParentPath (gn_name node))))"

definition index_path ::
  "string option \<Rightarrow> godot_node \<Rightarrow> link_state \<Rightarrow> link_state" where
  "index_path parent_path node st =
     (case parent_path of
        Some parent_path \<Rightarrow>
          st\<lparr>ls_by_path := hm_insert
               (if parent_path = ''.'' then gn_name node else parent_path @ ''/'' @ gn_name node)
               (gn_id node) (ls_by_path st)\<rparr>
      | None \<Rightarrow>
          st\<lparr>ls_root_node_id := Some (gn_id node),
             ls_by_path := hm_insert ''.'' (gn_id node) (ls_by_path st)\<rparr>)"

definition place_node ::
  "godot_node \<times> string option \<Rightarrow> link_state \<Rightarrow> (parse_error, link_state) outcome" where
  "place_node np st =
     (case np of (node, parent_path) \<Rightarrow>
        rbind (assign_id node st) (\<lambda>(node, st).
        rbind (if gn_type_or_instance node = None then place_edited node st else Inr node) (\<lambda>node.
        let st = index_path parent_path node st
        in if hm_contains (ls_nodes st) (gn_id node) then Inl (Err (NodeExists (gn_id node)))
           else Inr (st\<lparr>ls_nodes := hm_insert (gn_id node) node (ls_nodes st),
                       ls_keys := ls_keys st @ [gn_id node]\<rparr>))))"

section \<open>Parents and connections\<close>

function closest_parent :: "(string, node_id) hmap \<Rightarrow> string \<Rightarrow> node_id option" where
  "closest_parent by_path path =
     (if path = [] then None
      else (case hm_get by_path path of
              Some node_id \<Rightarrow> Some node_id
            | None \<Rightarrow> closest_parent by_path (path_up path)))"
  by pat_completeness auto
termination
proof (relation "measure (\<lambda>(by_path, path). length path)")
  fix by_path :: "(string, node_id) hmap" and path :: string
  assume "path \<noteq> []"
  then show "((by_path, path_up path), by_path, path) \<in> measure (\<lambda>(by_path, path). length path)"
    using rfind_char_bound [of path "CHR ''/''"]
    by (auto simp: path_up_def split: option.splits)
qed simp

declare closest_parent.simps [simp del]

definition find_parent ::
  "(string, node_id) hmap \<Rightarrow> godot_node \<Rightarrow> (parse_error, godot_node) outcome" where
  "find_parent by_path node =
     (case (gn_parent_id node, gn_parent_path_fallback node) of
        (None, Some parent_path) \<Rightarrow>
          (case hm_get by_path parent_path of
             Some parent_id \<Rightarrow>
               Inr (node\<lparr>gn_parent_path_fallback := None, gn_parent_id := Some parent_id\<rparr>)
           | None \<Rightarrow>
               (case closest_parent by_path parent_path of
                  Some parent_id \<Rightarrow> Inr (node\<lparr>gn_parent_id := Some parent_id\<rparr>)
                | None \<Rightarrow> Inl (Err (NoParentInPath [] (gn_name node)))))
      | _ \<Rightarrow> Inr node)"

definition link_node ::
  "(string, node_id) hmap \<Rightarrow> node_id \<Rightarrow> (node_id, godot_node) hmap \<Rightarrow>
   (parse_error, (node_id, godot_node) hmap) outcome" where
  "link_node by_path uid nodes =
     rbind (unwrap (hm_get nodes uid)) (\<lambda>node.
     rbind (find_parent by_path node) (\<lambda>node.
     let nodes = hm_insert uid node nodes
     in case gn_parent_id node of
          None \<Rightarrow> Inr nodes
        | Some parent_id \<Rightarrow>
            (case hm_get nodes parent_id of
               None \<Rightarrow> Inl (Err (NoParentNode parent_id uid))
             | Some parent_node \<Rightarrow>
                 Inr (hm_insert parent_id
                   (parent_node\<lparr>gn_child_node_ids := gn_child_node_ids parent_node @ [uid]\<rparr>) nodes))))"

definition temporary_node :: "string \<Rightarrow> bool" where
  "temporary_node path \<longleftrightarrow> starts_with path ''@'' \<or> contains_str path ''/@''"

definition resolve_connection ::
  "(string, node_id) hmap \<Rightarrow> string \<times> string \<times> godot_connection \<Rightarrow>
   (string, godot_connection) hmap \<Rightarrow> (parse_error, (string, godot_connection) hmap) outcome" where
  "resolve_connection by_path c connections =
     (case c of (from_path, to_path, connection) \<Rightarrow>
        (case hm_get by_path from_path of
           None \<Rightarrow>
             if temporary_node from_path then Inr connections
             else Inl (Err (NoConnectionNode from_path))
         | Some from_node_id \<Rightarrow>
             (case hm_get by_path to_path of
                None \<Rightarrow>
                  if temporary_node to_path then Inr connections
                  else Inl (Err (NoConnectionNode from_path))
              | Some to_node_id \<Rightarrow>
                  let connection = connection\<lparr>gc_from_node_id := from_node_id, gc_to_node_id := to_node_id\<rparr>
                  in Inr (hm_insert (connection_id connection) connection connections))))"

section \<open>The whole parser\<close>

definition link_state_init :: "parse_state \<Rightarrow> int list \<Rightarrow> link_state" where
  "link_state_init st draws =
     \<lparr>ls_nodes = [], ls_keys = [], ls_root_node_id = None, ls_by_path = [],
      ls_parsed_node_ids = ps_parsed_node_ids st, ls_draws = draws\<rparr>"

definition parse_scene ::
  "int list \<Rightarrow> capture list list option \<Rightarrow> (parse_error, godot_scene) outcome" where
  "parse_scene draws result =
     (case result of
        None \<Rightarrow> Inl (Err SceneParseFailed)
      | Some matches \<Rightarrow>
          rbind (fold_res (\<lambda>m. handle_section (read_section m)) matches parse_state_init) (\<lambda>ps.
          rbind (fold_res place_node (ps_node_arr ps) (link_state_init ps draws)) (\<lambda>ls.
          rbind (fold_res (link_node (ls_by_path ls)) (ls_keys ls) (ls_nodes ls)) (\<lambda>nodes.
          rbind (fold_res (resolve_connection (ls_by_path ls)) (ps_connections_arr ps) []) (\<lambda>connections.
          rbind (ok_or (Err MissingSceneHeader) (ps_metadata ps)) (\<lambda>m.
          Inr \<lparr>gs_load_steps = sm_load_steps m, gs_format = sm_format m, gs_uid = sm_uid m,
               gs_script_class = sm_script_class m, gs_resource_type = sm_resource_type m,
               gs_root_node_id = ls_root_node_id ls, gs_ext_resources = ps_ext_resources ps,
               gs_sub_resources = ps_sub_resources ps, gs_nodes = nodes,
               gs_connections = connections,
               gs_editable_instances = ps_editable_instances ps,
               gs_main_resource = ps_main_resource ps\<rparr>))))))"

end
