(* ===== verification/History_Ref.thy ===== *)
theory History_Ref imports Rust_Strings begin

text \<open>
  \<open>helpers/history_ref.rs\<close> and \<open>helpers/history_path.rs\<close>: a location in the history (a branch and
  the heads on it), its text form, and the URL of a file at such a location.

  \<open>DocumentId\<close> and \<open>ChangeHash\<close> belong to the libraries samod and automerge: they are the type
  parameters \<open>'d\<close> and \<open>'h\<close>, and their \<open>Display\<close> and \<open>FromStr\<close> are the record \<open>id_io\<close> that the
  definitions take. \<open>id_laws\<close> is what the code relies on (the comments of \<open>HistoryRef\<close> name it): the
  text of an identifier parses back and holds none of the dividers \<open>+\<close>, \<open>.\<close> and \<open>-\<close>, and the
  text of a hash is not empty.
\<close>

record ('d, 'h) id_io =
  show_doc :: "'d \<Rightarrow> string"
  parse_doc :: "string \<Rightarrow> 'd option"
  show_hash :: "'h \<Rightarrow> string"
  parse_hash :: "string \<Rightarrow> 'h option"

definition id_laws :: "('d, 'h) id_io \<Rightarrow> bool" where
  "id_laws io \<longleftrightarrow>
     (\<forall>d. parse_doc io (show_doc io d) = Some d \<and>
          set (show_doc io d) \<inter> {CHR ''+'', CHR ''.'', CHR ''-''} = {}) \<and>
     (\<forall>h. parse_hash io (show_hash io h) = Some h \<and> show_hash io h \<noteq> [] \<and>
          set (show_hash io h) \<inter> {CHR ''+'', CHR ''.'', CHR ''-''} = {})"

section \<open>History references\<close>

record ('d, 'h) history_ref =
  hr_branch :: 'd
  hr_heads :: "'h list"

definition history_ref_new :: "'d \<Rightarrow> 'h::linorder list \<Rightarrow> ('d, 'h) history_ref" where
  "history_ref_new branch heads = \<lparr>hr_branch = branch, hr_heads = sort heads\<rparr>"

definition hr_is_valid :: "('d, 'h) history_ref \<Rightarrow> bool" where
  "hr_is_valid r \<longleftrightarrow> hr_heads r \<noteq> []"

text \<open>\<open>Display\<close>: \<open>Inl ()\<close> is \<open>std::fmt::Error\<close>.\<close>

definition history_ref_fmt :: "('d, 'h) id_io \<Rightarrow> ('d, 'h) history_ref \<Rightarrow> unit + string" where
  "history_ref_fmt io r =
     (if \<not> hr_is_valid r then Inl ()
      else Inr (show_doc io (hr_branch r) @ ''+'' @
                str_join ''.'' (map (show_hash io) (hr_heads r))))"

definition history_ref_from_str ::
  "('d, 'h) id_io \<Rightarrow> string \<Rightarrow> string + ('d, 'h) history_ref" where
  "history_ref_from_str io s =
     rbind (ok_or ''Invalid history ref string'' (split_once s (CHR ''+''))) (\<lambda>(doc_id, heads_part).
     rbind (ok_or ''Invalid DocumentId in history ref string'' (parse_doc io doc_id)) (\<lambda>branch.
     rbind (if heads_part = [] then Inr []
            else collect_res (\<lambda>h. ok_or ''Invalid ChangeHash'' (parse_hash io h))
                   (split_on (CHR ''.'') heads_part)) (\<lambda>heads.
     let result = \<lparr>hr_branch = branch, hr_heads = heads\<rparr>
     in if \<not> hr_is_valid result then Inl ''Invalid history ref'' else Inr result)))"

text \<open>\<open>format!\<close> of a \<open>Display\<close> that fails panics.\<close>

definition to_uri_scheme_prefix ::
  "('d, 'h) id_io \<Rightarrow> ('d, 'h) history_ref \<Rightarrow> ('e, string) outcome" where
  "to_uri_scheme_prefix io r =
     (case history_ref_fmt io r of Inl _ \<Rightarrow> Inl Panic | Inr s \<Rightarrow> Inr (''backstitch-'' @ s))"

definition short_heads :: "('d, 'h) id_io \<Rightarrow> ('d, 'h) history_ref \<Rightarrow> string" where
  "short_heads io r =
     ''['' @ str_join '', '' (map (\<lambda>h. take 7 (show_hash io h)) (hr_heads r)) @ '']''"

text \<open>The text of the heads, as a list codec: any identifiers that satisfy the laws.\<close>

lemma heads_codec:
  assumes "id_laws io"
  shows "sep_codec (show_hash io) (parse_hash io) (\<lambda>_. True) (CHR ''.'')"
  using assms by unfold_locales (auto simp: id_laws_def)

lemma heads_text_free:
  "id_laws io \<Longrightarrow> CHR ''-'' \<notin> set (str_join ''.'' (map (show_hash io) hs))"
  using set_str_join [of "''.''" "map (show_hash io) hs"] by (auto simp: id_laws_def)

lemma history_ref_from_str_fmt:
  assumes "id_laws io" and "hr_is_valid r"
  shows "\<exists>s. history_ref_fmt io r = Inr s \<and> history_ref_from_str io s = Inr r \<and> CHR ''-'' \<notin> set s"
proof -
  let ?b = "show_doc io (hr_branch r)" and ?hs = "str_join ''.'' (map (show_hash io) (hr_heads r))"
  have "CHR ''+'' \<notin> set ?b" using assms(1) by (auto simp: id_laws_def)
  then have split: "split_once (?b @ ''+'' @ ?hs) (CHR ''+'') = Some (?b, ?hs)"
    by (simp add: split_once_append)
  have valid: "hr_heads r \<noteq> []" using assms(2) by (simp add: hr_is_valid_def)
  have "?hs \<noteq> []"
    using assms(1) valid str_join_not_Nil [of "show_hash io (hd (hr_heads r))"]
    by (simp add: id_laws_def)
  then have heads: "rbind (if ?hs = [] then Inr []
      else collect_res (\<lambda>h. ok_or ''Invalid ChangeHash'' (parse_hash io h))
             (split_on (CHR ''.'') ?hs)) k = k (hr_heads r)"
      for k :: "'b list \<Rightarrow> string + ('a, 'b) history_ref"
    using sep_codec.parse_print_list
      [OF heads_codec [OF assms(1)] valid, where e = "''Invalid ChangeHash''"] by simp
  show ?thesis
    using assms split heads_text_free [OF assms(1)]
    by (auto simp: history_ref_fmt_def history_ref_from_str_def heads Let_def id_laws_def
        hr_is_valid_def)
qed

section \<open>Paths at a history reference\<close>

record ('d, 'h) history_ref_path =
  hp_ref :: "('d, 'h) history_ref"
  hp_path :: string

definition make_path_string ::
  "('d, 'h) id_io \<Rightarrow> ('d, 'h) history_ref \<Rightarrow> string \<Rightarrow> (unit, string) outcome" where
  "make_path_string io r path =
     (if \<not> hr_is_valid r then Inl (Err ())
      else rbind (to_uri_scheme_prefix io r) (\<lambda>p. Inr (p @ ''-'' @ path)))"

definition is_ascii_alphabetic :: "char \<Rightarrow> bool" where
  "is_ascii_alphabetic c \<longleftrightarrow>
     (let n = (of_char c :: nat) in 65 \<le> n \<and> n \<le> 90 \<or> 97 \<le> n \<and> n \<le> 122)"

definition is_valid_uri_scheme_char :: "char \<Rightarrow> bool" where
  "is_valid_uri_scheme_char c \<longleftrightarrow>
     is_ascii_alphabetic c \<or> is_digit c \<or> c \<in> {CHR ''-'', CHR ''.'', CHR ''+''}"

fun is_valid_uri_scheme :: "string \<Rightarrow> bool" where
  "is_valid_uri_scheme [] = False"
| "is_valid_uri_scheme (first # chars) =
     (is_ascii_alphabetic first \<and> list_all is_valid_uri_scheme_char chars)"

text \<open>
  Undoes what Godot's \<open>simplify_path\<close> does to a URL (\<open>res://foo.gd\<close> becomes \<open>res:/foo.gd\<close>).
  The length test of the code admits a path that ends right after \<open>:/\<close>, where the slice panics.
\<close>

definition fix_simplified_path :: "string \<Rightarrow> (string, string) outcome" where
  "fix_simplified_path path =
     (case find_str path '':/'' of
        None \<Rightarrow> Inr path
      | Some pos \<Rightarrow>
          let uri_scheme = take pos path
          in if is_valid_uri_scheme uri_scheme \<and> pos + 2 \<le> length path
             then rbind (slice path (pos + 2) (pos + 3)) (\<lambda>c.
                    if c \<noteq> ''/'' then Inr (uri_scheme @ ''://'' @ drop (pos + 2) path)
                    else Inr path)
             else Inr path)"

definition map_err :: "'e + 'a \<Rightarrow> ('e, 'a) outcome" where
  "map_err r = (case r of Inl e \<Rightarrow> Inl (Err e) | Inr x \<Rightarrow> Inr x)"

definition history_ref_path_from_str ::
  "('d, 'h) id_io \<Rightarrow> string \<Rightarrow> (string, ('d, 'h) history_ref_path) outcome" where
  "history_ref_path_from_str io path =
     rbind (ok_or (Err ''Invalid path'') (strip_prefix path ''backstitch-'')) (\<lambda>path.
     rbind (ok_or (Err ''Invalid path'') (split_once path (CHR ''-''))) (\<lambda>(history_ref_part, path).
     rbind (fix_simplified_path path) (\<lambda>path.
     rbind (map_err (history_ref_from_str io history_ref_part)) (\<lambda>ref.
     Inr \<lparr>hp_ref = ref, hp_path = path\<rparr>))))"

definition recognize_path :: "('d, 'h) id_io \<Rightarrow> string \<Rightarrow> ('e, bool) outcome" where
  "recognize_path io path =
     (case history_ref_path_from_str io path of
        Inl (Err _) \<Rightarrow> Inr False | Inl Panic \<Rightarrow> Inl Panic | Inl Diverges \<Rightarrow> Inl Diverges
      | Inr _ \<Rightarrow> Inr True)"

text \<open>Parsing the URL of a valid reference leaves the repair of the path.\<close>

lemma history_ref_path_parse:
  assumes "id_laws io" and "hr_is_valid r"
  shows "\<exists>url. make_path_string io r path = Inr url \<and>
     history_ref_path_from_str io url =
       rbind (fix_simplified_path path) (\<lambda>p. Inr \<lparr>hp_ref = r, hp_path = p\<rparr>)"
proof -
  obtain s where s: "history_ref_fmt io r = Inr s" "history_ref_from_str io s = Inr r"
    "CHR ''-'' \<notin> set s"
    using history_ref_from_str_fmt [OF assms] by blast
  have "make_path_string io r path = Inr (''backstitch-'' @ s @ CHR ''-'' # path)"
    using assms(2) s(1) by (simp add: make_path_string_def to_uri_scheme_prefix_def)
  moreover have "history_ref_path_from_str io (''backstitch-'' @ s @ CHR ''-'' # path) =
      rbind (fix_simplified_path path) (\<lambda>p. Inr \<lparr>hp_ref = r, hp_path = p\<rparr>)"
    using s(2) split_once_append [OF s(3), of path]
    by (simp add: history_ref_path_from_str_def map_err_def del: append.simps)
  ultimately show ?thesis by blast
qed

lemma find_colon_slash:
  "CHR '':'' \<notin> set a \<Longrightarrow> find_str (a @ '':/'' @ b) '':/'' = Some (length a)"
  by (induction a) auto

lemma valid_scheme_no_colon: "is_valid_uri_scheme a \<Longrightarrow> CHR '':'' \<notin> set a"
  by (cases a) (auto simp: is_valid_uri_scheme_char_def is_ascii_alphabetic_def is_digit_def
      list_all_iff)

lemma fix_simplified_path_plain:
  "find_str path '':/'' = None \<Longrightarrow> fix_simplified_path path = Inr path"
  by (simp add: fix_simplified_path_def)

lemma fix_simplified_path_at:
  assumes "is_valid_uri_scheme a"
  shows "fix_simplified_path (a @ '':/'' @ b) =
     rbind (slice (a @ '':/'' @ b) (length a + 2) (length a + 3)) (\<lambda>c.
       if c \<noteq> ''/'' then Inr (a @ ''://'' @ b) else Inr (a @ '':/'' @ b))"
  using assms find_colon_slash [OF valid_scheme_no_colon [OF assms], of b]
  by (simp add: fix_simplified_path_def cong: if_cong)

lemma slice_after_colon_slash:
  "str_start_ok (c # b) \<Longrightarrow> str_start_ok b \<Longrightarrow>
     slice (a @ '':/'' @ c # b) (length a + 2) (length a + 3) = (Inr [c] :: (string, string) outcome)"
  using slice_middle [of "[c]" b "a @ '':/''"] by (simp add: numeral_3_eq_3)

lemma fix_simplified_path_url:
  assumes "is_valid_uri_scheme a" and "str_start_ok b"
  shows "fix_simplified_path (a @ ''://'' @ b) = Inr (a @ ''://'' @ b)"
  using fix_simplified_path_at [OF assms(1), of "''/'' @ b"]
    slice_after_colon_slash [of "CHR ''/''" b a] assms(2)
  by (simp add: continuation_byte_def del: append_Cons) simp

lemma fix_simplified_path_mangled:
  assumes "is_valid_uri_scheme a" and "c \<noteq> CHR ''/''"
    and "str_start_ok (c # b)" and "str_start_ok b"
  shows "fix_simplified_path (a @ '':/'' @ c # b) = Inr (a @ ''://'' @ c # b)"
  using fix_simplified_path_at [OF assms(1), of "c # b"]
    slice_after_colon_slash [OF assms(3,4), of a] assms(2)
  by simp

text \<open>The two panics: nothing after \<open>:/\<close>, or a character of more than one byte.\<close>

lemma fix_simplified_path_panics:
  assumes "is_valid_uri_scheme a" and "b = [] \<or> (\<exists>c d r. b = c # d # r \<and> continuation_byte d)"
  shows "fix_simplified_path (a @ '':/'' @ b) = Inl Panic"
proof -
  have "\<not> is_char_boundary (a @ '':/'' @ b) (length a + 3)"
    using assms(2) by (auto simp: is_char_boundary_def nth_append)
  then show ?thesis
    using fix_simplified_path_at [OF assms(1), of b] by (simp add: slice_def)
qed

section \<open>Properties\<close>

text \<open>Identifiers that satisfy the laws, for the witnesses.\<close>

definition demo_io :: "(bool, bool) id_io" where
  "demo_io = \<lparr>show_doc = (\<lambda>d. if d then ''doc1'' else ''doc0''),
     parse_doc = (\<lambda>s. if s = ''doc1'' then Some True else if s = ''doc0'' then Some False else None),
     show_hash = (\<lambda>h. if h then ''b1'' else ''a0''),
     parse_hash = (\<lambda>s. if s = ''b1'' then Some True else if s = ''a0'' then Some False else None)\<rparr>"

lemma demo_io_laws: "id_laws demo_io"
  by (auto simp: id_laws_def demo_io_def)

text \<open>C14: the text of a valid history reference parses back to the same branch and heads, and
  creating a reference sorts its heads, so references to one set of heads have one text.\<close>

theorem history_ref_roundtrip:
  assumes "id_laws io" and "hs \<noteq> []" and "mset hs' = mset hs"
  shows "history_ref_fmt io (history_ref_new b hs') = history_ref_fmt io (history_ref_new b hs) \<and>
    rbind (history_ref_fmt io (history_ref_new b hs)) (\<lambda>s. map_sum (\<lambda>_. ()) id (history_ref_from_str io s)) =
      Inr (history_ref_new b hs)"
proof
  have "sort hs' = sort hs" using assms(3) by (metis mset_sort properties_for_sort sorted_sort)
  then show "history_ref_fmt io (history_ref_new b hs') = history_ref_fmt io (history_ref_new b hs)"
    by (simp add: history_ref_new_def)
  have "hr_is_valid (history_ref_new b hs)"
    using assms(2) by (simp add: hr_is_valid_def history_ref_new_def) (metis mset_sort mset_zero_iff)
  from history_ref_from_str_fmt [OF assms(1) this]
  show "rbind (history_ref_fmt io (history_ref_new b hs)) (\<lambda>s. map_sum (\<lambda>_. ()) id (history_ref_from_str io s)) =
      Inr (history_ref_new b hs)" by auto
qed

theorem history_ref_roundtrip_witness:
  "history_ref_fmt demo_io (history_ref_new True [True, False]) =
     history_ref_fmt demo_io (history_ref_new True [False, True]) \<and>
   history_ref_fmt demo_io (history_ref_new True [True, False]) = Inr ''doc1+a0.b1''"
  using history_ref_roundtrip [OF demo_io_laws, of "[False, True]" "[True, False]" True]
  by (simp add: history_ref_fmt_def history_ref_new_def hr_is_valid_def demo_io_def)

text \<open>The URL of a file at a history reference parses back to the reference and the file's
  path, also when Godot has simplified the \<open>://\<close> of the path to \<open>:/\<close>.\<close>

theorem history_ref_path_roundtrip:
  assumes "id_laws io" and "hr_is_valid r" and "is_valid_uri_scheme a" and "str_start_ok b"
    and "c \<noteq> CHR ''/''" and "str_start_ok (c # b)"
  shows "\<exists>url mangled. make_path_string io r (a @ ''://'' @ c # b) = Inr url \<and>
    make_path_string io r (a @ '':/'' @ c # b) = Inr mangled \<and>
    history_ref_path_from_str io url = Inr \<lparr>hp_ref = r, hp_path = a @ ''://'' @ c # b\<rparr> \<and>
    history_ref_path_from_str io mangled = Inr \<lparr>hp_ref = r, hp_path = a @ ''://'' @ c # b\<rparr>"
  using history_ref_path_parse [OF assms(1,2), of "a @ ''://'' @ c # b"]
    history_ref_path_parse [OF assms(1,2), of "a @ '':/'' @ c # b"]
    fix_simplified_path_url [OF assms(3,6)] fix_simplified_path_mangled [OF assms(3,5,6,4)]
  by auto

theorem history_ref_path_roundtrip_witness:
  "\<exists>url. make_path_string demo_io \<lparr>hr_branch = True, hr_heads = [False]\<rparr> ''res://a.gd'' = Inr url \<and>
    history_ref_path_from_str demo_io url =
      Inr \<lparr>hp_ref = \<lparr>hr_branch = True, hr_heads = [False]\<rparr>, hp_path = ''res://a.gd''\<rparr>"
  using history_ref_path_roundtrip
    [OF demo_io_laws, of "\<lparr>hr_branch = True, hr_heads = [False]\<rparr>" "''res''" "''.gd''" "CHR ''a''"]
  by (auto simp: hr_is_valid_def is_ascii_alphabetic_def is_valid_uri_scheme_char_def continuation_byte_def)

text \<open>Parsing the URL of a file panics when the path ends right after a scheme's \<open>:/\<close>, or goes
  on with a character of more than one byte: the length test before the slice is off by one.\<close>

theorem history_ref_path_panics:
  assumes "id_laws io" and "hr_is_valid r" and "is_valid_uri_scheme a"
    and "b = [] \<or> (\<exists>c d s. b = c # d # s \<and> continuation_byte d)"
  shows "\<exists>url. make_path_string io r (a @ '':/'' @ b) = Inr url \<and>
    history_ref_path_from_str io url = Inl Panic"
  using history_ref_path_parse [OF assms(1,2), of "a @ '':/'' @ b"]
    fix_simplified_path_panics [OF assms(3,4)] by auto

theorem history_ref_path_panics_witness:
  "\<exists>url. make_path_string demo_io \<lparr>hr_branch = True, hr_heads = [False]\<rparr> ''res:/'' = Inr url \<and>
    history_ref_path_from_str demo_io url = Inl Panic"
  using history_ref_path_panics
    [OF demo_io_laws, of "\<lparr>hr_branch = True, hr_heads = [False]\<rparr>" "''res''" "[]"]
  by (auto simp: hr_is_valid_def is_ascii_alphabetic_def is_valid_uri_scheme_char_def)

end
