(* ===== verification/Godot_Serialize.thy ===== *)
theory Godot_Serialize
  imports Godot_Scene History_Ref "HOL-Library.Product_Lexorder" "HOL-Library.List_Lexorder"
    "HOL-Library.Char_ord"
begin

text \<open>
  Writing a scene back to text: \<open>GodotScene::serialize\<close> and \<open>serialize_node\<close> of
  \<open>parser/godot_parser.rs\<close>, and \<open>recognize_scene\<close>, which decides whether a text is such a scene.

  The code appends to one string; here each part is a function from the scene to its text, and
  \<open>serialize_node\<close> passes the output and the visited-node map through its recursion. The recursion
  over children is bounded by the number of nodes plus one: an acyclic child relation has no longer
  chain, and on a longer chain the code recurses forever (\<open>Diverges\<close>).
\<close>

section \<open>Pieces of text\<close>

definition nl :: char where
  "nl = CHR 0x0A"

definition opt_attr :: "string \<Rightarrow> ('a \<Rightarrow> string) \<Rightarrow> 'a option \<Rightarrow> string" where
  "opt_attr name f v = (case v of None \<Rightarrow> [] | Some x \<Rightarrow> '' '' @ name @ ''='' @ f x)"

definition properties_text :: "(string, ordered_property) hmap \<Rightarrow> string" where
  "properties_text props =
     concat (map (\<lambda>(key, p). key @ '' = '' @ prop_value p @ [nl])
       (sort_key (\<lambda>(_, p). prop_order p) props))"

definition header_text :: "godot_scene \<Rightarrow> string" where
  "header_text sc =
     (if gs_resource_type sc \<noteq> ''PackedScene''
      then ''[gd_resource type='' @ quoted (gs_resource_type sc) @
           opt_attr ''script_class'' quoted (gs_script_class sc)
      else ''[gd_scene'') @
     (if gs_load_steps sc \<noteq> 0 then '' load_steps='' @ show_int (gs_load_steps sc) else []) @
     '' format='' @ show_int (gs_format sc) @ '' uid='' @ quoted (gs_uid sc) @ '']'' @ [nl, nl]"

definition resource_path ::
  "('d, 'h) id_io \<Rightarrow> ('d, 'h) history_ref option \<Rightarrow> external_resource_node \<Rightarrow> string" where
  "resource_path io history_ref r =
     (case history_ref of
        None \<Rightarrow> er_path r
      | Some h \<Rightarrow>
          if \<not> hr_is_valid h then er_path r
          else (case make_path_string io h (er_path r) of Inr p \<Rightarrow> p | Inl _ \<Rightarrow> er_path r))"

definition ext_resource_text ::
  "('d, 'h) id_io \<Rightarrow> ('d, 'h) history_ref option \<Rightarrow> bool \<Rightarrow> external_resource_node \<Rightarrow> string" where
  "ext_resource_text io history_ref remove_uid r =
     ''[ext_resource type='' @ quoted (er_resource_type r) @
     (if remove_uid then [] else opt_attr ''uid'' quoted (er_uid r)) @
     '' path='' @ quoted (resource_path io history_ref r) @ '' id='' @ quoted (er_id r) @ '']'' @ [nl]"

definition ext_resources_text ::
  "('d, 'h) id_io \<Rightarrow> ('d, 'h) history_ref option \<Rightarrow> bool \<Rightarrow> godot_scene \<Rightarrow> string" where
  "ext_resources_text io history_ref remove_uid sc =
     concat (map (ext_resource_text io history_ref remove_uid \<circ> snd)
       (sort_key (\<lambda>(_, r). er_idx r) (gs_ext_resources sc))) @
     (if gs_ext_resources sc \<noteq> [] then [nl] else [])"

definition sub_resource_text :: "sub_resource_node \<Rightarrow> string" where
  "sub_resource_text r =
     ''[sub_resource type='' @ quoted (sr_resource_type r) @ '' id='' @ quoted (sr_id r) @ '']'' @ [nl] @
     properties_text (sr_properties r) @ [nl]"

definition sub_resources_text :: "godot_scene \<Rightarrow> string" where
  "sub_resources_text sc =
     concat (map (sub_resource_text \<circ> snd)
       (sort_key (\<lambda>(_, r). sr_idx r) (gs_sub_resources sc)))"

definition main_resource_text :: "sub_resource_node \<Rightarrow> string" where
  "main_resource_text r = ''[resource]'' @ [nl] @ properties_text (sr_properties r)"

section \<open>Nodes\<close>

type_synonym node_out = "string \<times> (node_id, int) hmap"

definition parent_attr :: "godot_scene \<Rightarrow> godot_node \<Rightarrow> (unit, string) outcome" where
  "parent_attr sc node =
     (case gn_parent_id node of
        None \<Rightarrow> Inr []
      | Some parent_id \<Rightarrow>
          rbind (if gs_root_node_id sc = Some parent_id then Inr ''.''
                 else (case gn_parent_path_fallback node of
                         Some parent_path \<Rightarrow> Inr parent_path
                       | None \<Rightarrow> get_node_path sc parent_id)) (\<lambda>parent_name.
          Inr ('' parent='' @ quoted parent_name @
               opt_attr ''parent_id_path'' serialize_int32_array (gn_parent_id_path node))))"

definition owner_attr :: "godot_node \<Rightarrow> string" where
  "owner_attr node =
     (case gn_owner node of
        None \<Rightarrow> []
      | Some owner \<Rightarrow>
          '' owner='' @ quoted owner @
          opt_attr ''owner_uid_path'' serialize_int32_array (gn_owner_uid_path node))"

definition node_text :: "godot_scene \<Rightarrow> godot_node \<Rightarrow> (unit, string) outcome" where
  "node_text sc node =
     rbind (parent_attr sc node) (\<lambda>parent.
     Inr (''[node name='' @ quoted (gn_name node) @
       (case gn_type_or_instance node of Some (Type t) \<Rightarrow> '' type='' @ quoted t | _ \<Rightarrow> []) @
       parent @ owner_attr node @
       opt_attr ''index'' (\<lambda>i. quoted (show_int i)) (gn_index node) @
       '' unique_id='' @ show_int (nid_id (gn_id node)) @
       opt_attr ''node_paths'' (\<lambda>s. s) (gn_node_paths node) @
       opt_attr ''groups'' (\<lambda>s. s) (gn_groups node) @
       opt_attr ''instance_placeholder'' (\<lambda>s. s) (gn_instance_placeholder node) @
       (case gn_type_or_instance node of Some (Instance i) \<Rightarrow> '' instance='' @ i | _ \<Rightarrow> []) @
       '']'' @ [nl] @ properties_text (gn_properties node) @ [nl]))"

definition emit_node :: "godot_scene \<Rightarrow> godot_node \<Rightarrow> node_out \<Rightarrow> (unit, node_out) outcome" where
  "emit_node sc node st =
     (case st of (output, visited) \<Rightarrow>
        rbind (node_text sc node) (\<lambda>t.
        Inr (output @ t, hm_insert (gn_id node) (int (length visited)) visited)))"

fun serialize_node ::
  "nat \<Rightarrow> godot_scene \<Rightarrow> godot_node \<Rightarrow> node_out \<Rightarrow> (unit, node_out) outcome" where
  "serialize_node 0 sc node st = Inl Diverges"
| "serialize_node (Suc fuel) sc node st =
     rbind (emit_node sc node st)
       (fold_res (\<lambda>child_id st.
          case get_node sc child_id of
            None \<Rightarrow> Inr st
          | Some child_node \<Rightarrow> serialize_node fuel sc child_node st) (gn_child_node_ids node))"

definition node_fuel :: "godot_scene \<Rightarrow> nat" where
  "node_fuel sc = Suc (length (gs_nodes sc))"

definition serialize_nodes :: "godot_scene \<Rightarrow> string \<Rightarrow> (unit, node_out) outcome" where
  "serialize_nodes sc output =
     (case gs_root_node_id sc of
        None \<Rightarrow> Inr (output, [])
      | Some root_node_id \<Rightarrow>
          (case get_node sc root_node_id of
             None \<Rightarrow> Inr (output, [])
           | Some root_node \<Rightarrow>
               rbind (serialize_node (node_fuel sc) sc root_node (output, [])) (\<lambda>(output, visited).
               Inr (if gs_connections sc = [] \<and> gs_editable_instances sc = [] then butlast output
                    else output, visited))))"

section \<open>Connections\<close>

definition visited_index :: "(node_id, int) hmap \<Rightarrow> node_id \<Rightarrow> int" where
  "visited_index visited i = (case hm_get visited i of None \<Rightarrow> -1 | Some n \<Rightarrow> n)"

definition connection_key ::
  "(node_id, int) hmap \<Rightarrow> godot_connection \<Rightarrow> int \<times> string \<times> int \<times> string" where
  "connection_key visited c =
     (visited_index visited (gc_from_node_id c), gc_signal c,
      visited_index visited (gc_to_node_id c), gc_method c)"

definition connection_text :: "godot_scene \<Rightarrow> godot_connection \<Rightarrow> (unit, string) outcome" where
  "connection_text sc c =
     rbind (get_node_path sc (gc_from_node_id c)) (\<lambda>from_path.
     rbind (get_node_path sc (gc_to_node_id c)) (\<lambda>to_path.
     Inr (''[connection signal='' @ quoted (gc_signal c) @ '' from='' @ quoted from_path @
       '' to='' @ quoted to_path @ '' method='' @ quoted (gc_method c) @
       opt_attr ''flags'' show_int (gc_flags c) @
       opt_attr ''from_uid_path'' serialize_int32_array (gc_from_uid_path c) @
       opt_attr ''to_uid_path'' serialize_int32_array (gc_to_uid_path c) @
       opt_attr ''unbinds'' show_int (gc_unbinds c) @
       opt_attr ''binds'' (\<lambda>b. '' '' @ b) (gc_binds c) @
       '']'' @ [nl])))"

definition connections_text ::
  "godot_scene \<Rightarrow> (node_id, int) hmap \<Rightarrow> (unit, string) outcome" where
  "connections_text sc visited =
     rbind (collect_res (\<lambda>(_, c). connection_text sc c)
              (sort_key (\<lambda>(_, c). connection_key visited c) (gs_connections sc)))
       (\<lambda>ts. Inr (concat ts))"

definition editable_text :: "godot_scene \<Rightarrow> string" where
  "editable_text sc =
     (if gs_connections sc \<noteq> [] \<and> gs_editable_instances sc \<noteq> [] then [nl] else []) @
     concat (map (\<lambda>path. ''[editable path='' @ quoted path @ '']'' @ [nl]) (gs_editable_instances sc))"

section \<open>The whole scene\<close>

definition serialize_with_ext_resource_override ::
  "('d, 'h) id_io \<Rightarrow> godot_scene \<Rightarrow> ('d, 'h) history_ref option \<Rightarrow> bool \<Rightarrow> (unit, string) outcome" where
  "serialize_with_ext_resource_override io sc history_ref remove_uid =
     (let output = header_text sc @ ext_resources_text io history_ref remove_uid sc @ sub_resources_text sc
      in case gs_main_resource sc of
           Some main_resource \<Rightarrow> Inr (output @ main_resource_text main_resource)
         | None \<Rightarrow>
             rbind (serialize_nodes sc output) (\<lambda>(output, visited).
             rbind (connections_text sc visited) (\<lambda>connections.
             Inr (output @ connections @ editable_text sc))))"

definition serialize :: "godot_scene \<Rightarrow> (unit, string) outcome" where
  "serialize sc =
     serialize_with_ext_resource_override
       (\<lparr>show_doc = id, parse_doc = Some, show_hash = id, parse_hash = Some\<rparr> :: (string, string) id_io)
       sc None False"

section \<open>Recognising a scene\<close>

fun recognize_lines :: "string list \<Rightarrow> bool" where
  "recognize_lines [] = False"
| "recognize_lines (line # rest) =
     (let trimmed = trim line
      in if \<not> starts_with trimmed '';'' \<and> trimmed \<noteq> []
         then (case strip_prefix trimmed ''['' of
                 None \<Rightarrow> False
               | Some line_after_bracket \<Rightarrow>
                   let l = trim line_after_bracket
                   in starts_with l ''gd_resource'' \<or> starts_with l ''gd_scene'')
         else recognize_lines rest)"

definition recognize_scene :: "string \<Rightarrow> bool" where
  "recognize_scene source = recognize_lines (lines source)"

lemma recognize_scene_header:
  assumes "p \<in> {''gd_resource'', ''gd_scene''}"
  shows "recognize_scene (''['' @ p @ s)"
proof -
  let ?h = "''['' @ p"
  have black: "set ?h \<inter> white_bytes = {}" and nl: "CHR 0x0A \<notin> set ?h" "CHR 0x0D \<notin> set ?h"
    using assms by (auto simp: white_bytes_def white_spaces_def)
  from nl have "last ?h \<noteq> CHR 0x0D" by (metis append_is_Nil_conv last_in_set not_Cons_self2)
  with nl(1) obtain q rest where "lines (?h @ s) = (?h @ q) # rest"
    using lines_prefix [of ?h s] by blast
  moreover obtain r where "trim (?h @ q) = ?h @ r"
    using trim_black_prefix [of ?h q] black last_in_set [of ?h] by auto
  moreover obtain r' where "trim (p @ r) = p @ r'"
    using trim_black_prefix [of p r] assms by (auto simp: white_bytes_def white_spaces_def)
  ultimately show ?thesis
    using assms by (auto simp: recognize_scene_def Let_def)
qed

lemma header_text_recognized: "recognize_scene (header_text sc @ s)"
  using recognize_scene_header [of "''gd_resource''"] recognize_scene_header [of "''gd_scene''"]
  by (auto simp: header_text_def)

section \<open>The recursion over children ends\<close>

definition child_rel :: "godot_scene \<Rightarrow> (node_id \<times> node_id) set" where
  "child_rel sc =
     {(i, j). \<exists>n. get_node sc i = Some n \<and> j \<in> set (gn_child_node_ids n) \<and> get_node sc j \<noteq> None}"

lemma fold_res_fails:
  assumes "\<nexists>t. fold_res f xs s = Inr t"
  shows "\<exists>x\<in>set xs. \<exists>u. \<nexists>v. f x u = Inr v"
proof (rule ccontr)
  assume "\<not> (\<exists>x\<in>set xs. \<exists>u. \<nexists>v. f x u = Inr v)"
  then have "\<exists>t. fold_res f xs s = Inr t \<and> True"
    by (intro fold_res_total) auto
  with assms show False by blast
qed

text \<open>Running out of fuel exhibits a chain of children as long as the fuel.\<close>

lemma serialize_node_chain:
  assumes emit: "\<And>i n st. get_node sc i = Some n \<Longrightarrow> \<exists>st'. emit_node sc n st = Inr st'"
    and "get_node sc i = Some n" and "\<nexists>st'. serialize_node fuel sc n st = Inr st'"
  shows "\<exists>xs. length xs = fuel \<and> (fuel > 0 \<longrightarrow> hd xs = i) \<and>
     sorted_wrt (\<lambda>x y. (x, y) \<in> (child_rel sc)\<^sup>+) xs \<and> (\<forall>x\<in>set xs. get_node sc x \<noteq> None)"
  using assms(2,3)
proof (induction fuel arbitrary: i n st)
  case 0
  then show ?case by simp
next
  case (Suc fuel)
  from emit [OF Suc.prems(1), of st] obtain st1 where "emit_node sc n st = Inr st1" by blast
  with Suc.prems(2) have "\<nexists>t. fold_res (\<lambda>child_id st. case get_node sc child_id of
      None \<Rightarrow> Inr st | Some c \<Rightarrow> serialize_node fuel sc c st) (gn_child_node_ids n) st1 = Inr t"
    by simp
  then obtain j u where j: "j \<in> set (gn_child_node_ids n)"
    and fails: "\<nexists>v. (case get_node sc j of None \<Rightarrow> Inr u | Some c \<Rightarrow> serialize_node fuel sc c u) = Inr v"
    by (blast dest: fold_res_fails)
  then obtain c where c: "get_node sc j = Some c" "\<nexists>v. serialize_node fuel sc c u = Inr v"
    by (cases "get_node sc j") auto
  from Suc.IH [OF this] obtain xs where xs: "length xs = fuel" "fuel > 0 \<longrightarrow> hd xs = j"
    "sorted_wrt (\<lambda>x y. (x, y) \<in> (child_rel sc)\<^sup>+) xs" "\<forall>x\<in>set xs. get_node sc x \<noteq> None"
    by blast
  have ij: "(i, j) \<in> child_rel sc" using Suc.prems(1) j c(1) by (auto simp: child_rel_def)
  have "(i, x) \<in> (child_rel sc)\<^sup>+" if "x \<in> set xs" for x
  proof (cases xs)
    case (Cons y ys)
    with xs(1,2) have "y = j" by auto
    with that Cons xs(3) ij show ?thesis
      by (auto intro: trancl_into_trancl2)
  qed (use that in simp)
  with xs Suc.prems(1) show ?case by (intro exI [of _ "i # xs"]) auto
qed

text \<open>An acyclic chain has no node twice, so it is not longer than the node map.\<close>

lemma acyclic_chain_length:
  assumes "acyclic (child_rel sc)" and "sorted_wrt (\<lambda>x y. (x, y) \<in> (child_rel sc)\<^sup>+) xs"
    and "\<forall>x\<in>set xs. get_node sc x \<noteq> None"
  shows "length xs \<le> length (gs_nodes sc)"
proof -
  have "distinct xs"
    using assms(2,1) by (induction xs) (auto simp: acyclic_def)
  then have "length xs = card (set xs)" by (simp add: distinct_card)
  also have "set xs \<subseteq> set (hm_keys (gs_nodes sc))"
    using assms(3) by (auto simp: get_node_def map_of_eq_None_iff)
  then have "card (set xs) \<le> card (set (hm_keys (gs_nodes sc)))" by (simp add: card_mono)
  also have "\<dots> \<le> length (gs_nodes sc)" by (metis card_length length_map)
  finally show ?thesis .
qed

definition scene_returns :: "godot_scene \<Rightarrow> bool" where
  "scene_returns sc \<longleftrightarrow>
     acyclic (child_rel sc) \<and> (\<exists>rank. parents_ranked sc rank) \<and>
     (\<forall>c\<in>snd ` set (gs_connections sc).
        \<forall>i\<in>{gc_from_node_id c, gc_to_node_id c}. i = root_or_unassigned sc \<or> get_node sc i \<noteq> None)"

lemma get_node_path_returns:
  "parents_ranked sc rank \<Longrightarrow> i = root_or_unassigned sc \<or> get_node sc i \<noteq> None \<Longrightarrow>
     \<exists>s. get_node_path sc i = Inr s"
  using node_path_loop_returns [of sc rank i "[]"] by (auto simp: get_node_path_def)

lemma emit_node_returns:
  assumes "parents_ranked sc rank" and "gs_root_node_id sc \<noteq> None" and "get_node sc i = Some n"
  shows "\<exists>st'. emit_node sc n st = Inr st'"
proof -
  from assms(3) have mem: "(i, n) \<in> set (gs_nodes sc)" by (simp add: get_node_def map_of_SomeD)
  have "\<exists>s. parent_attr sc n = Inr s"
  proof (cases "\<exists>j. gn_parent_id n = Some j \<and> gs_root_node_id sc \<noteq> Some j \<and>
      gn_parent_path_fallback n = None")
    case True
    then obtain j where j: "gn_parent_id n = Some j" "gs_root_node_id sc \<noteq> Some j"
      "gn_parent_path_fallback n = None" by blast
    with assms(1,2) mem have "get_node sc j \<noteq> None"
      by (fastforce simp: parents_ranked_def root_or_unassigned_def split: option.splits)
    then obtain s where "get_node_path sc j = Inr s"
      using get_node_path_returns [OF assms(1)] by blast
    with j show ?thesis by (simp add: parent_attr_def)
  next
    case False
    then show ?thesis by (auto simp: parent_attr_def split: option.splits)
  qed
  then show ?thesis by (cases st) (auto simp: emit_node_def node_text_def)
qed

lemma serialize_nodes_returns:
  assumes "scene_returns sc"
  shows "\<exists>r. serialize_nodes sc output = Inr r"
proof -
  obtain rank where rank: "parents_ranked sc rank" and acyclic: "acyclic (child_rel sc)"
    using assms by (auto simp: scene_returns_def)
  have "\<exists>st. serialize_node (node_fuel sc) sc n (output, []) = Inr st"
    if root: "gs_root_node_id sc = Some i" and node: "get_node sc i = Some n" for i n
  proof (rule ccontr)
    assume "\<nexists>st. serialize_node (node_fuel sc) sc n (output, []) = Inr st"
    moreover have "\<exists>st'. emit_node sc n' st = Inr st'" if "get_node sc i' = Some n'" for i' n' st
      using emit_node_returns [OF rank _ that] root by simp
    ultimately obtain xs where "length xs = node_fuel sc"
      "sorted_wrt (\<lambda>x y. (x, y) \<in> (child_rel sc)\<^sup>+) xs" "\<forall>x\<in>set xs. get_node sc x \<noteq> None"
      using serialize_node_chain [OF _ node, of "node_fuel sc"] by metis
    with acyclic_chain_length [OF acyclic] show False by (fastforce simp: node_fuel_def)
  qed
  then show ?thesis
    by (fastforce simp: serialize_nodes_def split: option.splits)
qed

lemma collect_res_total:
  "(\<And>x. x \<in> set xs \<Longrightarrow> \<exists>y. f x = Inr y) \<Longrightarrow> \<exists>ys. collect_res f xs = Inr ys"
  by (induction xs) (auto, metis list.set_intros rbind_Inr)

lemma connections_text_returns:
  assumes "scene_returns sc"
  shows "\<exists>s. connections_text sc visited = Inr s"
proof -
  obtain rank where rank: "parents_ranked sc rank" using assms by (auto simp: scene_returns_def)
  have "\<exists>s. connection_text sc c = Inr s" if "(k, c) \<in> set (gs_connections sc)" for k c
  proof -
    have "c \<in> snd ` set (gs_connections sc)" using that by force
    with assms have ends: "\<forall>i\<in>{gc_from_node_id c, gc_to_node_id c}.
        i = root_or_unassigned sc \<or> get_node sc i \<noteq> None"
      unfolding scene_returns_def by blast
    obtain a b where "get_node_path sc (gc_from_node_id c) = Inr a"
      "get_node_path sc (gc_to_node_id c) = Inr b"
      using get_node_path_returns [OF rank] ends by (metis insert_iff)
    then show ?thesis by (simp add: connection_text_def)
  qed
  then obtain ts where "collect_res (\<lambda>(_, c). connection_text sc c)
      (sort_key (\<lambda>(_, c). connection_key visited c) (gs_connections sc)) = Inr ts"
    using collect_res_total [of "sort_key (\<lambda>(_, c). connection_key visited c) (gs_connections sc)"
        "\<lambda>(_, c). connection_text sc c"] by auto
  then show ?thesis by (simp add: connections_text_def)
qed

end
