(* ===== verification/Parse_Linked.thy ===== *)
theory Parse_Linked imports Godot_Parse Godot_Serialize begin

text \<open>
  What \<open>parse_scene\<close> guarantees about the scenes it returns: the node map is linked (keys are the
  nodes' own identifiers, parents exist, the children of a node are exactly the nodes that name it
  as parent, in file order), the connections' endpoints exist, and the parents of nodes are ranked
  by their node paths, so that serializing a parsed scene ends. The last section shows when the
  parser does not return.
\<close>

section \<open>Linked node maps\<close>

definition parent_of :: "(node_id, godot_node) hmap \<Rightarrow> node_id \<Rightarrow> node_id option" where
  "parent_of m i = Option.bind (hm_get m i) gn_parent_id"

definition linked_nodes :: "(node_id, godot_node) hmap \<Rightarrow> bool" where
  "linked_nodes m \<longleftrightarrow>
     hm_wf m \<and>
     (\<forall>(i, n)\<in>set m. gn_id n = i \<and>
        gn_child_node_ids n = filter (\<lambda>j. parent_of m j = Some i) (hm_keys m) \<and>
        (\<forall>p\<in>set_option (gn_parent_id n). hm_contains m p))"

section \<open>The linking pass\<close>

abbreviation no_children :: "godot_node \<Rightarrow> godot_node" where
  "no_children n \<equiv> n\<lparr>gn_child_node_ids := []\<rparr>"

lemma find_parent_children:
  "find_parent bp n = Inr n' \<Longrightarrow>
     find_parent bp (n\<lparr>gn_child_node_ids := cs\<rparr>) = Inr (n'\<lparr>gn_child_node_ids := cs\<rparr>) \<and>
     gn_child_node_ids n' = gn_child_node_ids n \<and> gn_id n' = gn_id n \<and> gn_name n' = gn_name n"
  by (cases n) (auto simp: find_parent_def split: option.splits prod.splits)

lemma keys_update_present [simp]:
  "k \<in> fst ` set m \<Longrightarrow> hm_keys (hm_insert k v m) = hm_keys m"
  by (simp add: update_keys)

lemma link_node_cases:
  assumes "link_node bp uid m = Inr m'"
  obtains n n' where "hm_get m uid = Some n" and "find_parent bp n = Inr n'"
    and "gn_parent_id n' = None" and "m' = hm_insert uid n' m"
  | n n' p pn where "hm_get m uid = Some n" and "find_parent bp n = Inr n'"
    and "gn_parent_id n' = Some p" and "hm_get (hm_insert uid n' m) p = Some pn"
    and "m' = hm_insert p (pn\<lparr>gn_child_node_ids := gn_child_node_ids pn @ [uid]\<rparr>)
      (hm_insert uid n' m)"
proof -
  from assms obtain n n' where n: "hm_get m uid = Some n" "find_parent bp n = Inr n'"
    and r: "(case gn_parent_id n' of None \<Rightarrow> Inr (hm_insert uid n' m)
      | Some p \<Rightarrow> (case hm_get (hm_insert uid n' m) p of
          None \<Rightarrow> Inl (Err (NoParentNode p uid))
        | Some pn \<Rightarrow> Inr (hm_insert p (pn\<lparr>gn_child_node_ids := gn_child_node_ids pn @ [uid]\<rparr>)
            (hm_insert uid n' m)))) = Inr m'"
    by (auto simp: link_node_def rbind_eq_Inr_iff Let_def)
  show ?thesis
  proof (cases "gn_parent_id n'")
    case None
    with n r show ?thesis by (intro that(1)) auto
  next
    case (Some p)
    with r obtain pn where "hm_get (hm_insert uid n' m) p = Some pn"
      "m' = hm_insert p (pn\<lparr>gn_child_node_ids := gn_child_node_ids pn @ [uid]\<rparr>) (hm_insert uid n' m)"
      by (auto split: option.splits)
    with n Some show ?thesis by (intro that(2))
  qed
qed

definition link_inv ::
  "(string, node_id) hmap \<Rightarrow> (node_id, godot_node) hmap \<Rightarrow> node_id list \<Rightarrow>
   (node_id, godot_node) hmap \<Rightarrow> bool" where
  "link_inv bp m0 visited m \<longleftrightarrow>
     hm_keys m = hm_keys m0 \<and>
     (\<forall>i n. hm_get m i = Some n \<longrightarrow>
        gn_child_node_ids n = filter (\<lambda>j. parent_of m j = Some i) visited \<and>
        (if i \<in> set visited
         then rbind (ok_or (Err SceneParseFailed) (hm_get m0 i)) (find_parent bp) = Inr (no_children n) \<and>
           (\<forall>p\<in>set_option (gn_parent_id n). p \<in> set (hm_keys m0))
         else hm_get m0 i = Some (no_children n)))"

lemma link_inv_step:
  assumes inv: "link_inv bp m0 visited m" and fresh: "uid \<notin> set visited"
    and step: "link_node bp uid m = Inr m'"
  shows "link_inv bp m0 (visited @ [uid]) m'"
  using step
proof (cases rule: link_node_cases)
  case (1 n n')
  have "uid \<in> set (hm_keys m)" using 1 by (metis hm_get_None_iff option.distinct(1))
  then have keys: "hm_keys m' = hm_keys m0" using inv 1 by (simp add: link_inv_def)
  have get: "hm_get m' i = (if i = uid then Some n' else hm_get m i)" for i
    using 1 by (simp add: hm_get_insert)
  have par: "parent_of m' j = (if j = uid then None else parent_of m j)" for j
    using 1(3) by (simp add: parent_of_def get)
  show ?thesis
    unfolding link_inv_def
  proof (intro conjI keys allI impI)
    fix i x
    assume x: "hm_get m' i = Some x"
    have same: "filter (\<lambda>j. parent_of m' j = Some i) visited = filter (\<lambda>j. parent_of m j = Some i) visited"
      using fresh by (intro filter_cong) (auto simp: par)
    show "gn_child_node_ids x = filter (\<lambda>j. parent_of m' j = Some i) (visited @ [uid])"
      using x 1(1,2) inv same find_parent_children [OF 1(2)]
      by (auto simp: link_inv_def get par split: if_splits)
    show "if i \<in> set (visited @ [uid])
      then rbind (ok_or (Err SceneParseFailed) (hm_get m0 i)) (find_parent bp) = Inr (no_children x) \<and>
        (\<forall>p\<in>set_option (gn_parent_id x). p \<in> set (hm_keys m0))
      else hm_get m0 i = Some (no_children x)"
      using x 1(1,2,3) inv fresh find_parent_children [OF 1(2), of "[]"]
      by (auto simp: link_inv_def get split: if_splits)
  qed
next
  case (2 n n' p pn)
  have uid: "uid \<in> set (hm_keys m)" using 2 by (metis hm_get_None_iff option.distinct(1))
  moreover have "p \<in> set (hm_keys (hm_insert uid n' m))"
    using 2 by (metis hm_get_None_iff option.distinct(1))
  ultimately have dom: "uid \<in> set (hm_keys m)" "p \<in> set (hm_keys m)" by simp_all
  then have keys: "hm_keys m' = hm_keys m0" using inv 2 by (simp add: link_inv_def dom_update)
  have p_old: "p \<in> set (hm_keys m0)" using dom inv unfolding link_inv_def by metis
  have get: "hm_get m' i = (if i = p then Some (pn\<lparr>gn_child_node_ids := gn_child_node_ids pn @ [uid]\<rparr>)
      else if i = uid then Some n' else hm_get m i)" for i
    using 2 by (simp add: hm_get_insert)
  have pn: "p = uid \<longrightarrow> pn = n'" "p \<noteq> uid \<longrightarrow> hm_get m p = Some pn"
    using 2 by (auto simp: hm_get_insert split: if_splits)
  have par: "parent_of m' j = (if j = uid then Some p else parent_of m j)" for j
    using 2(3) pn by (auto simp: parent_of_def get)
  show ?thesis
    unfolding link_inv_def
  proof (intro conjI keys allI impI)
    fix i x
    assume x: "hm_get m' i = Some x"
    have same: "filter (\<lambda>j. parent_of m' j = Some i) visited = filter (\<lambda>j. parent_of m j = Some i) visited"
      using fresh by (intro filter_cong) (auto simp: par)
    have old: "gn_child_node_ids y = filter (\<lambda>j. parent_of m j = Some i) visited"
      if "hm_get m i = Some y" for y
      using that inv by (simp add: link_inv_def)
    have app: "filter (\<lambda>j. parent_of m' j = Some i) (visited @ [uid]) =
        filter (\<lambda>j. parent_of m j = Some i) visited @ (if i = p then [uid] else [])"
      by (simp only: filter_append same) (simp add: par)
    consider (parent) "i = p" | (self) "i \<noteq> p" "i = uid" | (other) "i \<noteq> p" "i \<noteq> uid" by blast
    then show "gn_child_node_ids x = filter (\<lambda>j. parent_of m' j = Some i) (visited @ [uid])"
    proof cases
      case parent
      have "gn_child_node_ids pn = filter (\<lambda>j. parent_of m j = Some i) visited"
      proof (cases "p = uid")
        case True
        with parent pn have "gn_child_node_ids pn = gn_child_node_ids n"
          using find_parent_children [OF 2(2)] by metis
        then show ?thesis using old [of n] 2(1) True parent by metis
      next
        case False
        with parent pn show ?thesis using old by metis
      qed
      with parent get x show ?thesis unfolding app by auto
    next
      case self
      then have "x = n'" using x get by auto
      then have "gn_child_node_ids x = gn_child_node_ids n"
        using find_parent_children [OF 2(2)] by metis
      with self show ?thesis unfolding app using old [of n] 2(1) by simp
    next
      case other
      with x get have "hm_get m i = Some x" by auto
      with other show ?thesis unfolding app using old [of x] by simp
    qed
    have old: "if i \<in> set visited
      then rbind (ok_or (Err SceneParseFailed) (hm_get m0 i)) (find_parent bp) = Inr (no_children y) \<and>
        (\<forall>p\<in>set_option (gn_parent_id y). p \<in> set (hm_keys m0))
      else hm_get m0 i = Some (no_children y)" if "hm_get m i = Some y" for y
      using that inv unfolding link_inv_def by blast
    show "if i \<in> set (visited @ [uid])
      then rbind (ok_or (Err SceneParseFailed) (hm_get m0 i)) (find_parent bp) = Inr (no_children x) \<and>
        (\<forall>p\<in>set_option (gn_parent_id x). p \<in> set (hm_keys m0))
      else hm_get m0 i = Some (no_children x)"
    proof (cases "i = uid")
      case True
      then have "no_children x = no_children n'" "gn_parent_id x = Some p"
        using x pn 2(3) by (auto simp: get split: if_splits)
      moreover have "hm_get m0 i = Some (no_children n)" using old [of n] 2(1) True fresh by simp
      ultimately show ?thesis
        using True p_old find_parent_children [OF 2(2), of "[]"] by simp
    next
      case False
      then obtain y where "hm_get m i = Some y" "no_children x = no_children y"
        "gn_parent_id x = gn_parent_id y"
        using x pn by (auto simp: get split: if_splits)
      with old [of y] False show ?thesis by (cases "i \<in> set visited") auto
    qed
  qed
qed

lemma link_inv_fold:
  assumes "fold_res (link_node bp) uids m = Inr m'" and "link_inv bp m0 visited m"
    and "distinct (visited @ uids)"
  shows "link_inv bp m0 (visited @ uids) m'"
  using assms
proof (induction uids arbitrary: visited m)
  case (Cons uid uids)
  from Cons.prems(1) obtain m1 where m1: "link_node bp uid m = Inr m1"
    "fold_res (link_node bp) uids m1 = Inr m'" by (auto simp: rbind_eq_Inr_iff)
  moreover from Cons.prems m1(1) have "link_inv bp m0 (visited @ [uid]) m1"
    by (intro link_inv_step) auto
  ultimately show ?case using Cons.IH [of m1 "visited @ [uid]"] Cons.prems(3) by simp
qed simp


section \<open>The placing pass\<close>

definition child_path :: "string \<Rightarrow> string \<Rightarrow> string" where
  "child_path q name = (if q = ''.'' then name else q @ ''/'' @ name)"

text \<open>The rank of a node path: the root is below every other path, longer paths are higher.\<close>

definition path_rank :: "string \<Rightarrow> nat" where
  "path_rank q = (if q = ''.'' then 0 else Suc (length q))"

lemma path_rank_child:
  "path_rank q < path_rank (child_path q name) \<longleftrightarrow> \<not> (q = ''.'' \<and> name = ''.'')"
  by (auto simp: path_rank_def child_path_def append_eq_Cons_conv)

lemma path_rank_shorter:
  "q \<noteq> ''.'' \<Longrightarrow> length q' \<le> length q \<Longrightarrow> path_rank q' < path_rank (child_path q name)"
  by (auto simp: path_rank_def child_path_def append_eq_Cons_conv)

lemma path_up_length: "path \<noteq> [] \<Longrightarrow> length (path_up path) < length path"
  using rfind_char_bound [of path "CHR ''/''"] by (auto simp: path_up_def split: option.splits)

definition indexed_parent ::
  "(node_id, godot_node) hmap \<Rightarrow> (string, node_id) hmap \<Rightarrow> nat \<Rightarrow> node_id \<Rightarrow> bool" where
  "indexed_parent nodes by_path l p \<longleftrightarrow>
     hm_get nodes p \<noteq> None \<and> (\<exists>q. hm_get by_path q = Some p \<and> length q \<le> l)"

lemma instance_path_loop_parent:
  assumes "instance_path_loop nodes by_path path parent_id ids = Some (p', ids')"
    and "length path \<le> l" and "\<forall>p\<in>set_option parent_id. indexed_parent nodes by_path l p"
  shows "\<forall>p\<in>set_option p'. indexed_parent nodes by_path l p"
proof -
  have "length path \<le> l \<longrightarrow> (\<forall>p\<in>set_option parent_id. indexed_parent nodes by_path l p) \<longrightarrow>
    (\<forall>p\<in>set_option (fst (p', ids')). indexed_parent nodes by_path l p)"
  proof (rule instance_path_loop.raw_induct [where
        P = "\<lambda>nodes by_path path parent_id ids r. length path \<le> l \<longrightarrow>
          (\<forall>p\<in>set_option parent_id. indexed_parent nodes by_path l p) \<longrightarrow>
          (\<forall>p\<in>set_option (fst r). indexed_parent nodes by_path l p)", OF _ assms(1)])
    fix f nodes by_path path parent_id ids r
    assume IH: "\<And>nodes by_path path parent_id ids r. f nodes by_path path parent_id ids = Some r \<Longrightarrow>
        length path \<le> l \<longrightarrow> (\<forall>p\<in>set_option parent_id. indexed_parent nodes by_path l p) \<longrightarrow>
        (\<forall>p\<in>set_option (fst r). indexed_parent nodes by_path l p)"
      and eq: "(if path = [] then Some (parent_id, ids)
        else (case hm_get by_path path of
            None \<Rightarrow> f nodes by_path path parent_id ids
          | Some node_id \<Rightarrow>
              (case hm_get nodes node_id of
                 None \<Rightarrow> f nodes by_path (path_up path) parent_id ids
               | Some parent \<Rightarrow>
                   let parent_id = (if parent_id = None then Some node_id else parent_id)
                   in case nid_root_instance_id (gn_id parent) of
                        Some pid \<Rightarrow>
                          Some (parent_id,
                            fold (\<lambda>i ids. if i \<in> set ids then ids else i # ids) (rev pid)
                              (nid_id node_id # ids))
                      | None \<Rightarrow>
                          f nodes by_path (path_up path) parent_id
                            (case gn_type_or_instance parent of
                               Some (Instance _) \<Rightarrow> nid_id node_id # ids
                             | _ \<Rightarrow> ids)))) = Some r"
    show "length path \<le> l \<longrightarrow> (\<forall>p\<in>set_option parent_id. indexed_parent nodes by_path l p) \<longrightarrow>
      (\<forall>p\<in>set_option (fst r). indexed_parent nodes by_path l p)"
    proof (intro impI)
      assume l: "length path \<le> l" and par: "\<forall>p\<in>set_option parent_id. indexed_parent nodes by_path l p"
      show "\<forall>p\<in>set_option (fst r). indexed_parent nodes by_path l p"
      proof (cases "path = []")
        case True
        with eq par show ?thesis by auto
      next
        case False
        then have up: "length (path_up path) \<le> l" using l path_up_length [of path] by simp
        show ?thesis
        proof (cases "hm_get by_path path")
          case None
          with False eq have "f nodes by_path path parent_id ids = Some r" by simp
          from IH [OF this] l par show ?thesis by blast
        next
          case (Some node_id)
          show ?thesis
          proof (cases "hm_get nodes node_id")
            case None
            with False Some eq have "f nodes by_path (path_up path) parent_id ids = Some r" by simp
            from IH [OF this] up par show ?thesis by blast
          next
            case parent: (Some parent)
            let ?p = "if parent_id = None then Some node_id else parent_id"
            have new: "\<forall>p\<in>set_option ?p. indexed_parent nodes by_path l p"
              using par Some parent l by (auto simp: indexed_parent_def)
            show ?thesis
            proof (cases "nid_root_instance_id (gn_id parent)")
              case None
              then have "f nodes by_path (path_up path) ?p
                  (case gn_type_or_instance parent of
                     Some (Instance _) \<Rightarrow> nid_id node_id # ids | _ \<Rightarrow> ids) = Some r"
                using eq by (simp only: False Some parent Let_def option.case if_False)
              from IH [OF this] up new show ?thesis by blast
            next
              case pid: (Some pid)
              from eq have "fst r = ?p"
                by (simp only: False Some parent pid Let_def option.case if_False option.inject)
                  (auto simp only: fst_conv)
              with new show ?thesis by simp
            qed
          qed
        qed
      qed
    qed
  qed
  then show ?thesis using assms(2,3) unfolding fst_conv by blast
qed

definition placed ::
  "int list \<Rightarrow> (node_id \<Rightarrow> string) \<Rightarrow> (node_id, godot_node) hmap \<Rightarrow> node_id \<Rightarrow> godot_node \<Rightarrow> bool" where
  "placed draws path nodes i n \<longleftrightarrow>
     gn_id n = i \<and> gn_child_node_ids n = [] \<and>
     (0 \<notin> set draws \<longrightarrow> i \<noteq> unique_scene_id_unassigned) \<and>
     (\<forall>q\<in>set_option (gn_parent_path_fallback n). path i = child_path q (gn_name n)) \<and>
     (\<forall>p\<in>set_option (gn_parent_id n). p = unique_scene_id_unassigned \<or>
        (p \<in> fst ` set nodes \<and> (gn_name n = ''.'' \<or> path_rank (path p) < path_rank (path i))))"

definition place_inv :: "int list \<Rightarrow> (node_id \<Rightarrow> string) \<Rightarrow> link_state \<Rightarrow> bool" where
  "place_inv draws path st \<longleftrightarrow>
     hm_keys (ls_nodes st) = ls_keys st \<and> hm_wf (ls_nodes st) \<and> set (ls_draws st) \<subseteq> set draws \<and>
     (\<forall>i n. hm_get (ls_nodes st) i = Some n \<longrightarrow> placed draws path (ls_nodes st) i n) \<and>
     (\<forall>q i. hm_get (ls_by_path st) q = Some i \<longrightarrow> i \<in> fst ` set (ls_nodes st) \<and> path i = q) \<and>
     (\<forall>r. ls_root_node_id st = Some r \<longrightarrow> r \<in> fst ` set (ls_nodes st) \<and> path r = ''.'')"

lemma draw_node_id_drawn:
  "draw_node_id parsed rs = Some (i, rs') \<Longrightarrow> \<exists>r\<in>set rs. i = mk_node_id r None \<and> set rs' \<subseteq> set rs"
  by (induction parsed rs rule: draw_node_id.induct) (auto split: if_splits)

text \<open>The nodes that \<open>place_edited\<close> returns.\<close>

lemma assign_id_result:
  assumes "assign_id n st = Inr (n', st')"
  shows "ls_nodes st' = ls_nodes st \<and> ls_keys st' = ls_keys st \<and>
    ls_root_node_id st' = ls_root_node_id st \<and> ls_by_path st' = ls_by_path st \<and>
    set (ls_draws st') \<subseteq> set (ls_draws st) \<and> (\<exists>i. n' = n\<lparr>gn_id := i\<rparr>) \<and>
    (0 \<notin> set (ls_draws st) \<longrightarrow> gn_id n' \<noteq> unique_scene_id_unassigned)"
proof (cases "gn_id n = unique_scene_id_unassigned")
  case True
  with assms obtain i draws where d: "draw_node_id (ls_parsed_node_ids st) (ls_draws st) = Some (i, draws)"
    and eqs: "n' = n\<lparr>gn_id := i\<rparr>"
      "st' = st\<lparr>ls_parsed_node_ids := hs_insert i (ls_parsed_node_ids st), ls_draws := draws\<rparr>"
    by (auto simp: assign_id_def rbind_eq_Inr_iff)
  from draw_node_id_drawn [OF d] eqs show ?thesis
    by (auto simp: unique_scene_id_unassigned_def)
next
  case False
  with assms have "n' = n" "st' = st" by (auto simp: assign_id_def)
  moreover have "n = n\<lparr>gn_id := gn_id n\<rparr>" by simp
  ultimately show ?thesis using False by blast
qed

lemma place_edited_result:
  assumes "place_edited n st = Inr n'"
  shows "\<exists>i p fb. n' = n\<lparr>gn_id := i, gn_parent_id := p, gn_parent_path_fallback := fb\<rparr> \<and>
    nid_root_instance_id i \<noteq> None \<and> (fb = gn_parent_path_fallback n \<or> fb = None) \<and>
    (\<forall>j\<in>set_option p. j = unique_scene_id_unassigned \<or>
       (ls_root_node_id st = Some j \<and> gn_parent_path_fallback n = Some ''.'') \<or>
       (\<exists>q. gn_parent_path_fallback n = Some q \<and> q \<noteq> ''.'' \<and>
          indexed_parent (ls_nodes st) (ls_by_path st) (length q) j))"
proof -
  define q where "q = (case gn_parent_path_fallback n of None \<Rightarrow> [] | Some p \<Rightarrow> p)"
  have fb: "gn_parent_path_fallback n = Some q" if "q \<noteq> []"
    using that by (auto simp: q_def split: option.splits)
  consider (dot) "q = ''.''"
    | (path) "q \<noteq> ''.''" "gn_parent_id_path n \<noteq> None \<and> gn_parent_id_path n \<noteq> Some []"
    | (walk) "q \<noteq> ''.''" "\<not> (gn_parent_id_path n \<noteq> None \<and> gn_parent_id_path n \<noteq> Some [])" "q \<noteq> []"
    | (bad) "q = []" "\<not> (gn_parent_id_path n \<noteq> None \<and> gn_parent_id_path n \<noteq> Some [])"
    by blast
  then show ?thesis
  proof cases
    case dot
    define r where "r = (case ls_root_node_id st of None \<Rightarrow> unique_scene_id_unassigned | Some r \<Rightarrow> r)"
    have "n' = n\<lparr>gn_id := mk_node_id (nid_id (gn_id n)) (Some [nid_id r]), gn_parent_id := Some r\<rparr>"
      using dot assms by (simp add: place_edited_def Let_def q_def [symmetric] r_def)
    also have "\<dots> = n\<lparr>gn_id := mk_node_id (nid_id (gn_id n)) (Some [nid_id r]), gn_parent_id := Some r,
        gn_parent_path_fallback := gn_parent_path_fallback n\<rparr>" by (cases n) simp
    finally have "n' = \<dots>" .
    moreover have "r = unique_scene_id_unassigned \<or> ls_root_node_id st = Some r"
      by (simp add: r_def split: option.splits)
    ultimately show ?thesis using dot fb by fastforce
  next
    case path
    then have "n' = n\<lparr>gn_id := mk_node_id (nid_id (gn_id n)) (gn_parent_id_path n), gn_parent_id := None\<rparr>"
      using assms by (simp add: place_edited_def Let_def q_def [symmetric])
    also have "\<dots> = n\<lparr>gn_id := mk_node_id (nid_id (gn_id n)) (gn_parent_id_path n), gn_parent_id := None,
        gn_parent_path_fallback := gn_parent_path_fallback n\<rparr>" by (cases n) simp
    finally have "n' = \<dots>" .
    with path show ?thesis by fastforce
  next
    case walk
    then obtain p ids where loop: "instance_path_loop (ls_nodes st) (ls_by_path st) q None [] = Some (p, ids)"
      and n': "n' = n\<lparr>gn_id := mk_node_id (nid_id (gn_id n)) (Some ids), gn_parent_id := p,
        gn_parent_path_fallback := (if hm_contains (ls_by_path st) q then None
          else gn_parent_path_fallback n)\<rparr>"
      using assms by (auto simp: place_edited_def Let_def q_def [symmetric] rbind_eq_Inr_iff)
    from instance_path_loop_parent [OF loop, of "length q"]
    have "\<forall>j\<in>set_option p. indexed_parent (ls_nodes st) (ls_by_path st) (length q) j" by simp
    with n' walk fb show ?thesis by fastforce
  next
    case bad
    then have "place_edited n st = Inl (Err (InvalidParentPath (gn_name n)))"
      by (auto simp: place_edited_def Let_def q_def [symmetric])
    then show ?thesis using assms by simp
  qed
qed

lemma if_Inl_eq_Inr: "(if c then Inl e else Inr x) = Inr y \<longleftrightarrow> \<not> c \<and> y = x"
  by auto

lemma place_node_inv:
  assumes inv: "place_inv draws path st" and step: "place_node (n, fb) st = Inr st'"
    and n: "gn_parent_path_fallback n = fb" "gn_parent_id n = None" "gn_child_node_ids n = []"
  shows "\<exists>path. place_inv draws path st'"
proof -
  from step obtain n1 st1 n2 where n1: "assign_id n st = Inr (n1, st1)"
    and n2: "(if gn_type_or_instance n1 = None then place_edited n1 st1 else Inr n1) = Inr n2"
    and fresh: "\<not> hm_contains (ls_nodes (index_path fb n2 st1)) (gn_id n2)"
    and st': "st' = (index_path fb n2 st1)\<lparr>ls_nodes := hm_insert (gn_id n2) n2
        (ls_nodes (index_path fb n2 st1)), ls_keys := ls_keys (index_path fb n2 st1) @ [gn_id n2]\<rparr>"
    unfolding place_node_def rbind_eq_Inr_iff Let_def prod.case split_paired_Ex if_Inl_eq_Inr by blast
  note st1 = assign_id_result [OF n1]
  obtain i where i: "n1 = n\<lparr>gn_id := i\<rparr>" using st1 by blast
  define j where "j = gn_id n2"
  define q where "q = (case fb of Some q \<Rightarrow> child_path q (gn_name n) | None \<Rightarrow> ''.'')"
  define path' where "path' = path(j := q)"
  have n2_eq: "gn_name n2 = gn_name n" "gn_child_node_ids n2 = []"
    "\<forall>q\<in>set_option (gn_parent_path_fallback n2). fb = Some q"
    and unassigned: "0 \<notin> set (ls_draws st) \<longrightarrow> j \<noteq> unique_scene_id_unassigned"
    and parent: "\<forall>p\<in>set_option (gn_parent_id n2). p = unique_scene_id_unassigned \<or>
       (ls_root_node_id st = Some p \<and> fb = Some ''.'') \<or>
       (\<exists>q. fb = Some q \<and> q \<noteq> ''.'' \<and> indexed_parent (ls_nodes st) (ls_by_path st) (length q) p)"
  proof -
    have "gn_name n2 = gn_name n \<and> gn_child_node_ids n2 = [] \<and>
      (\<forall>q\<in>set_option (gn_parent_path_fallback n2). fb = Some q) \<and>
      (0 \<notin> set (ls_draws st) \<longrightarrow> j \<noteq> unique_scene_id_unassigned) \<and>
      (\<forall>p\<in>set_option (gn_parent_id n2). p = unique_scene_id_unassigned \<or>
       (ls_root_node_id st = Some p \<and> fb = Some ''.'') \<or>
       (\<exists>q. fb = Some q \<and> q \<noteq> ''.'' \<and> indexed_parent (ls_nodes st) (ls_by_path st) (length q) p))"
    proof (cases "gn_type_or_instance n1 = None")
      case True
      with n2 have "place_edited n1 st1 = Inr n2" by simp
      from place_edited_result [OF this] show ?thesis
        using st1 n unfolding i j_def by (auto simp: unique_scene_id_unassigned_def)
    next
      case False
      with n2 have "n2 = n1" by simp
      then show ?thesis using st1 n unfolding j_def i by auto
    qed
    then show "gn_name n2 = gn_name n" "gn_child_node_ids n2 = []"
      "\<forall>q\<in>set_option (gn_parent_path_fallback n2). fb = Some q"
      "0 \<notin> set (ls_draws st) \<longrightarrow> j \<noteq> unique_scene_id_unassigned"
      "\<forall>p\<in>set_option (gn_parent_id n2). p = unique_scene_id_unassigned \<or>
       (ls_root_node_id st = Some p \<and> fb = Some ''.'') \<or>
       (\<exists>q. fb = Some q \<and> q \<noteq> ''.'' \<and> indexed_parent (ls_nodes st) (ls_by_path st) (length q) p)"
      by blast+
  qed
  have fields: "ls_nodes st' = hm_insert j n2 (ls_nodes st)" "ls_keys st' = ls_keys st @ [j]"
    "ls_by_path st' = hm_insert q j (ls_by_path st)" "set (ls_draws st') \<subseteq> set (ls_draws st)"
    "ls_root_node_id st' = (if fb = None then Some j else ls_root_node_id st)"
    using st1 by (auto simp: st' index_path_def j_def q_def child_path_def n2_eq split: option.splits)
  have j: "j \<notin> fst ` set (ls_nodes st)"
    using fresh st1 by (auto simp: index_path_def hm_contains_iff j_def split: option.splits)
  then have path': "path' i = path i" if "i \<in> fst ` set (ls_nodes st)" for i
    using that by (auto simp: path'_def)
  have j_path: "path' j = q" by (simp add: path'_def)
  have old: "placed draws path' (ls_nodes st') k m" if "hm_get (ls_nodes st) k = Some m" for k m
  proof -
    have "k \<in> fst ` set (ls_nodes st)" using that by (metis hm_get_None_iff list.set_map option.distinct(1))
    then have "path' k = path k" by (rule path')
    moreover have "placed draws path (ls_nodes st) k m" using inv that by (auto simp: place_inv_def)
    ultimately show ?thesis by (auto simp: placed_def fields dom_update path')
  qed
  have new: "placed draws path' (ls_nodes st') j n2"
  proof -
    have "p = unique_scene_id_unassigned \<or> p \<in> fst ` set (ls_nodes st') \<and>
        (gn_name n2 = ''.'' \<or> path_rank (path' p) < path_rank (path' j))"
      if p: "gn_parent_id n2 = Some p" for p
    proof -
      consider (unassigned) "p = unique_scene_id_unassigned"
        | (root) "ls_root_node_id st = Some p" "fb = Some ''.''"
        | (walk) q' where "fb = Some q'" "q' \<noteq> ''.''"
            "indexed_parent (ls_nodes st) (ls_by_path st) (length q') p"
        using parent p by auto
      then show ?thesis
      proof cases
        case root
        then have "p \<in> fst ` set (ls_nodes st)" "path p = ''.''" using inv by (auto simp: place_inv_def)
        with root show ?thesis
          using path_rank_child [of "''.''" "gn_name n"]
          by (auto simp: fields dom_update path' n2_eq(1)) (auto simp: path'_def q_def)
      next
        case walk
        then obtain q'' where "hm_get (ls_by_path st) q'' = Some p" "length q'' \<le> length q'"
          by (auto simp: indexed_parent_def)
        then have "p \<in> fst ` set (ls_nodes st)" "path_rank (path p) < path_rank (child_path q' (gn_name n))"
          using inv walk path_rank_shorter by (auto simp: place_inv_def)
        with walk show ?thesis
          by (auto simp: fields dom_update path') (auto simp: path'_def q_def)
      qed simp
    qed
    moreover have "0 \<notin> set draws \<longrightarrow> j \<noteq> unique_scene_id_unassigned"
      using unassigned inv by (auto simp: place_inv_def)
    ultimately show ?thesis
      using n2_eq by (auto simp: placed_def j_def path'_def q_def n2_eq(1))
  qed
  have "place_inv draws path' st'"
    unfolding place_inv_def
  proof (intro conjI allI impI)
    show "hm_keys (ls_nodes st') = ls_keys st'"
      using inv j by (metis fields(1,2) list.set_map place_inv_def update_keys)
    show "hm_wf (ls_nodes st')" "set (ls_draws st') \<subseteq> set draws"
      using inv fields(4) by (auto simp: fields(1) place_inv_def)
    show "placed draws path' (ls_nodes st') k m" if "hm_get (ls_nodes st') k = Some m" for k m
      using that old new by (auto simp: fields hm_get_insert split: if_splits)
    show "k \<in> fst ` set (ls_nodes st')" "path' k = q'" if "hm_get (ls_by_path st') q' = Some k" for q' k
    proof -
      have "(q' = q \<and> k = j) \<or> (k \<in> fst ` set (ls_nodes st) \<and> path k = q')"
        using that inv by (auto simp: fields hm_get_insert place_inv_def split: if_splits)
      then show "k \<in> fst ` set (ls_nodes st')" "path' k = q'"
        by (elim disjE conjE; simp add: fields dom_update path' j_path)+
    qed
    show "r \<in> fst ` set (ls_nodes st')" "path' r = ''.''" if "ls_root_node_id st' = Some r" for r
    proof -
      have "(fb = None \<and> r = j) \<or> (r \<in> fst ` set (ls_nodes st) \<and> path r = ''.'')"
        using that inv by (auto simp: fields place_inv_def split: if_splits)
      then show "r \<in> fst ` set (ls_nodes st')" "path' r = ''.''"
        by (elim disjE conjE; simp add: fields dom_update path' j_path q_def)+
    qed
  qed
  then show ?thesis by blast
qed

section \<open>Parsed scenes\<close>

definition fresh_node :: "godot_node \<times> string option \<Rightarrow> bool" where
  "fresh_node np \<longleftrightarrow> gn_parent_path_fallback (fst np) = snd np \<and> gn_parent_id (fst np) = None \<and>
     gn_child_node_ids (fst np) = []"

lemma handle_section_fresh:
  assumes "handle_section sec st = Inr st'" and "\<forall>np\<in>set (ps_node_arr st). fresh_node np"
  shows "\<forall>np\<in>set (ps_node_arr st'). fresh_node np"
  using assms
  by (auto simp: handle_section_def handle_gd_resource_def handle_resource_def handle_gd_scene_def
      handle_ext_resource_def handle_sub_resource_def handle_connection_def handle_editable_def
      handle_node_def rbind_eq_Inr_iff Let_def fresh_node_def split: if_split_asm)

lemma place_inv_fold:
  assumes "fold_res place_node ns st = Inr st'" and "\<forall>np\<in>set ns. fresh_node np"
    and "\<exists>path. place_inv draws path st"
  shows "\<exists>path. place_inv draws path st'"
proof (rule fold_res_invariant [where P = "\<lambda>st. \<exists>path. place_inv draws path st", OF assms(1,3)])
  fix np u v
  assume np: "np \<in> set ns" and u: "\<exists>path. place_inv draws path u" and step: "place_node np u = Inr v"
  obtain n fb where nfb: "np = (n, fb)" by (cases np)
  with np assms(2) have n: "gn_parent_path_fallback n = fb" "gn_parent_id n = None" "gn_child_node_ids n = []"
    by (auto simp: fresh_node_def)
  from u obtain path where "place_inv draws path u" by blast
  then show "\<exists>path. place_inv draws path v"
    using place_node_inv [OF _ step [unfolded nfb] n] by blast
qed

lemma resolve_connection_cases:
  assumes "resolve_connection by_path c u = Inr v"
  obtains "v = u"
  | k x f t where "v = hm_insert k x u" and "hm_get by_path f = Some (gc_from_node_id x)"
      and "hm_get by_path t = Some (gc_to_node_id x)"
proof -
  obtain f t x where c: "c = (f, t, x)" by (cases c)
  show ?thesis
  proof (cases "hm_get by_path f = None \<or> hm_get by_path t = None")
    case True
    with assms c have "v = u" by (auto simp: resolve_connection_def split: option.splits if_splits)
    then show ?thesis by (rule that(1))
  next
    case False
    then obtain i j where ij: "hm_get by_path f = Some i" "hm_get by_path t = Some j" by auto
    define x' where "x' = x\<lparr>gc_from_node_id := i, gc_to_node_id := j\<rparr>"
    have "v = hm_insert (connection_id x') x' u"
      using assms ij by (simp add: c resolve_connection_def x'_def Let_def)
    then show ?thesis using that(2) [of "connection_id x'" x' f t] ij by (simp add: x'_def)
  qed
qed

text \<open>What the passes leave behind, for the properties of the parser.\<close>

lemma parse_scene_passes:
  assumes "parse_scene draws result = Inr sc"
  shows "\<exists>ls path. place_inv draws path ls \<and>
    link_inv (ls_by_path ls) (ls_nodes ls) (ls_keys ls) (gs_nodes sc) \<and>
    gs_root_node_id sc = ls_root_node_id ls \<and>
    (\<forall>c\<in>snd ` set (gs_connections sc).
      gc_from_node_id c \<in> fst ` set (ls_nodes ls) \<and> gc_to_node_id c \<in> fst ` set (ls_nodes ls))"
proof -
  from assms obtain matches ps ls nodes connections m where
    ps: "fold_res (\<lambda>m. handle_section (read_section m)) matches parse_state_init = Inr ps"
    and ls: "fold_res place_node (ps_node_arr ps) (link_state_init ps draws) = Inr ls"
    and nodes: "fold_res (link_node (ls_by_path ls)) (ls_keys ls) (ls_nodes ls) = Inr nodes"
    and conns: "fold_res (resolve_connection (ls_by_path ls)) (ps_connections_arr ps) [] = Inr connections"
    and sc: "gs_nodes sc = nodes" "gs_connections sc = connections" "gs_root_node_id sc = ls_root_node_id ls"
    by (auto simp: parse_scene_def rbind_eq_Inr_iff split: option.splits)
  have "\<forall>np\<in>set (ps_node_arr ps). fresh_node np"
    by (rule fold_res_invariant [OF ps]) (auto simp: parse_state_init_def dest: handle_section_fresh)
  moreover have "\<exists>path. place_inv draws path (link_state_init ps draws)"
    by (simp add: place_inv_def link_state_init_def)
  ultimately obtain path where inv: "place_inv draws path ls" using place_inv_fold [OF ls] by blast
  have "link_inv (ls_by_path ls) (ls_nodes ls) [] (ls_nodes ls)"
    using inv by (auto simp: link_inv_def place_inv_def placed_def)
  moreover have "distinct (ls_keys ls)" using inv by (auto simp: place_inv_def hm_wf_def)
  ultimately have link: "link_inv (ls_by_path ls) (ls_nodes ls) (ls_keys ls) (gs_nodes sc)"
    using link_inv_fold [OF nodes, of "ls_nodes ls" "[]"] sc by simp
  have "\<forall>c\<in>snd ` set connections.
      gc_from_node_id c \<in> fst ` set (ls_nodes ls) \<and> gc_to_node_id c \<in> fst ` set (ls_nodes ls)"
  proof (rule fold_res_invariant [OF conns])
    fix c u v
    assume u: "\<forall>c\<in>snd ` set u. gc_from_node_id c \<in> fst ` set (ls_nodes ls) \<and>
        gc_to_node_id c \<in> fst ` set (ls_nodes ls)"
      and step: "resolve_connection (ls_by_path ls) c u = Inr v"
    have by_path: "hm_get (ls_by_path ls) q = Some i \<Longrightarrow> i \<in> fst ` set (ls_nodes ls)" for q i
      using inv by (auto simp: place_inv_def)
    from resolve_connection_cases [OF step] show "\<forall>c\<in>snd ` set v. gc_from_node_id c \<in> fst ` set (ls_nodes ls) \<and>
        gc_to_node_id c \<in> fst ` set (ls_nodes ls)"
    proof cases
      case 1
      with u show ?thesis by simp
    next
      case (2 k x f t)
      have "snd ` set (hm_insert k x u) \<subseteq> insert x (snd ` set u)" by (induction u) auto
      then have "y = x \<or> y \<in> snd ` set u" if "y \<in> snd ` set v" for y
        using that 2(1) by blast
      with u by_path [OF 2(2)] by_path [OF 2(3)] show ?thesis by blast
    qed
  qed simp
  with inv link sc show ?thesis by metis
qed

lemma parsed_scene_linked:
  assumes "parse_scene draws result = Inr sc"
  shows "linked_nodes (gs_nodes sc)"
    and "\<And>c. c \<in> snd ` set (gs_connections sc) \<Longrightarrow>
      get_node sc (gc_from_node_id c) \<noteq> None \<and> get_node sc (gc_to_node_id c) \<noteq> None"
    and "\<And>r. gs_root_node_id sc = Some r \<Longrightarrow> get_node sc r \<noteq> None"
proof -
  obtain ls path where inv: "place_inv draws path ls"
    and link: "link_inv (ls_by_path ls) (ls_nodes ls) (ls_keys ls) (gs_nodes sc)"
    and root: "gs_root_node_id sc = ls_root_node_id ls"
    and conns: "\<forall>c\<in>snd ` set (gs_connections sc).
      gc_from_node_id c \<in> fst ` set (ls_nodes ls) \<and> gc_to_node_id c \<in> fst ` set (ls_nodes ls)"
    using parse_scene_passes [OF assms] by (elim exE conjE) metis
  from link have keys: "hm_keys (gs_nodes sc) = hm_keys (ls_nodes ls)" by (simp add: link_inv_def)
  then have dom: "fst ` set (gs_nodes sc) = fst ` set (ls_nodes ls)" by (metis list.set_map)
  then have get: "get_node sc i \<noteq> None \<longleftrightarrow> i \<in> fst ` set (ls_nodes ls)" for i
    by (simp add: get_node_def map_of_eq_None_iff)
  show "get_node sc (gc_from_node_id c) \<noteq> None \<and> get_node sc (gc_to_node_id c) \<noteq> None"
    if "c \<in> snd ` set (gs_connections sc)" for c
    using conns that get by blast
  show "get_node sc r \<noteq> None" if "gs_root_node_id sc = Some r" for r
    using that root inv get by (simp add: place_inv_def)
  have wf: "hm_wf (gs_nodes sc)" using inv keys by (metis hm_wf_def place_inv_def)
  show "linked_nodes (gs_nodes sc)"
    unfolding linked_nodes_def
  proof (intro conjI wf ballI, clarify, intro conjI ballI)
    fix i n
    assume mem: "(i, n) \<in> set (gs_nodes sc)"
    with wf have n: "hm_get (gs_nodes sc) i = Some n" by (simp add: hm_get_eq_Some_iff)
    have "i \<in> set (hm_keys (gs_nodes sc))" using mem by force
    with keys inv have visited: "i \<in> set (ls_keys ls)" by (simp only: place_inv_def)
    from n link visited have ch: "gn_child_node_ids n =
        filter (\<lambda>j. parent_of (gs_nodes sc) j = Some i) (ls_keys ls)"
      and found: "rbind (ok_or (Err SceneParseFailed) (hm_get (ls_nodes ls) i))
        (find_parent (ls_by_path ls)) = Inr (no_children n)"
      by (simp_all add: link_inv_def)
    have par: "\<forall>p\<in>set_option (gn_parent_id n). p \<in> set (hm_keys (ls_nodes ls))"
      using n link visited unfolding link_inv_def by metis
    have all_keys: "hm_keys (gs_nodes sc) = ls_keys ls" using keys inv by (simp only: place_inv_def)
    from ch show "gn_child_node_ids n =
        filter (\<lambda>j. parent_of (gs_nodes sc) j = Some i) (hm_keys (gs_nodes sc))"
      by (simp only: all_keys)
    from found obtain n0 where n0: "hm_get (ls_nodes ls) i = Some n0"
      "find_parent (ls_by_path ls) n0 = Inr (no_children n)" by (auto simp: rbind_eq_Inr_iff)
    with inv have "gn_id n0 = i" by (simp add: place_inv_def placed_def)
    with find_parent_children [OF n0(2)] show "gn_id n = i" by simp
    show "hm_contains (gs_nodes sc) p" if "p \<in> set_option (gn_parent_id n)" for p
      using par that keys by (simp add: hm_contains_iff)
  qed
qed

text \<open>A node found through the index is ranked below the nodes under the path.\<close>

lemma closest_parent_indexed:
  "closest_parent by_path path = Some p \<Longrightarrow>
     \<exists>q. hm_get by_path q = Some p \<and> q \<noteq> [] \<and> (q = path \<or> length q < length path)"
proof (induction by_path path rule: closest_parent.induct)
  case (1 by_path path)
  show ?case
  proof (cases "path = [] \<or> hm_get by_path path \<noteq> None")
    case True
    with 1(2) show ?thesis
      by (auto simp: closest_parent.simps [of by_path path] split: if_splits)
  next
    case False
    then have "closest_parent by_path (path_up path) = Some p"
      using 1(2) by (simp add: closest_parent.simps [of by_path path])
    with False 1(1) obtain q where "hm_get by_path q = Some p" "q \<noteq> []"
      "q = path_up path \<or> length q < length (path_up path)" by auto
    moreover have "length (path_up path) < length path" using False by (simp add: path_up_length)
    ultimately show ?thesis by auto
  qed
qed

lemma find_parent_indexed:
  assumes "find_parent by_path n = Inr n'" and "gn_parent_id n' = Some p"
  shows "gn_parent_id n = Some p \<or>
    (\<exists>fb q. gn_parent_path_fallback n = Some fb \<and> hm_get by_path q = Some p \<and>
       (q = fb \<or> q \<noteq> [] \<and> length q < length fb))"
proof (cases "gn_parent_id n = None \<and> gn_parent_path_fallback n \<noteq> None")
  case True
  then obtain fb where fb: "gn_parent_path_fallback n = Some fb" by blast
  show ?thesis
  proof (cases "hm_get by_path fb")
    case None
    with True fb assms have "closest_parent by_path fb = Some p"
      by (auto simp: find_parent_def split: option.splits)
    with closest_parent_indexed fb show ?thesis by blast
  next
    case (Some i)
    with True fb assms have "i = p" by (auto simp: find_parent_def)
    with Some fb show ?thesis by blast
  qed
next
  case False
  with assms have "n' = n" by (auto simp: find_parent_def split: option.splits)
  with assms show ?thesis by simp
qed

lemma parsed_parents_ranked:
  assumes parsed: "parse_scene draws result = Inr sc" and unused: "get_node sc unique_scene_id_unassigned = None"
    and names: "\<forall>i n. get_node sc i = Some n \<longrightarrow> gn_name n = ''.'' \<longrightarrow> gn_parent_id n = None"
  shows "\<exists>rank :: node_id \<Rightarrow> nat.
    \<forall>i n p. get_node sc i = Some n \<longrightarrow> gn_parent_id n = Some p \<longrightarrow> rank p < rank i"
proof -
  obtain path ls where inv: "place_inv draws path ls"
    and link: "link_inv (ls_by_path ls) (ls_nodes ls) (ls_keys ls) (gs_nodes sc)"
    using parse_scene_passes [OF parsed] by (elim exE conjE) metis
  have "path_rank (path p) < path_rank (path i)"
    if n: "get_node sc i = Some n" and p: "gn_parent_id n = Some p" for i n p
  proof -
    from names n p have name: "gn_name n \<noteq> ''.''" by fastforce
    have "i \<in> set (hm_keys (gs_nodes sc))" using n unfolding get_node_def
      by (metis hm_get_None_iff option.distinct(1))
    with link inv have visited: "i \<in> set (ls_keys ls)" by (simp only: link_inv_def place_inv_def)
    with n link have
      found: "rbind (ok_or (Err SceneParseFailed) (hm_get (ls_nodes ls) i))
        (find_parent (ls_by_path ls)) = Inr (no_children n)"
      by (simp add: link_inv_def get_node_def)
    have dom: "p \<in> set (hm_keys (ls_nodes ls))"
      using p n link visited unfolding link_inv_def get_node_def by (metis option.set_intros)
    from found obtain n0 where n0: "hm_get (ls_nodes ls) i = Some n0"
      "find_parent (ls_by_path ls) n0 = Inr (no_children n)" by (auto simp: rbind_eq_Inr_iff)
    with inv have placed0: "placed draws path (ls_nodes ls) i n0" by (simp add: place_inv_def)
    have name0: "gn_name n0 \<noteq> ''.''" using find_parent_children [OF n0(2), of "[]"] name by simp
    from n have "(i, n) \<in> set (gs_nodes sc)" by (simp add: get_node_def map_of_SomeD)
    with p parsed_scene_linked(1) [OF parsed] have "get_node sc p \<noteq> None"
      by (auto simp: linked_nodes_def get_node_def hm_contains_def)
    with unused have assigned: "p \<noteq> unique_scene_id_unassigned" by auto
    from find_parent_indexed [OF n0(2)] p consider "gn_parent_id n0 = Some p"
      | fb q where "gn_parent_path_fallback n0 = Some fb" "hm_get (ls_by_path ls) q = Some p"
          "q = fb \<or> q \<noteq> [] \<and> length q < length fb" by auto
    then show ?thesis
    proof cases
      case 1
      with placed0 assigned name0 show ?thesis by (auto simp: placed_def)
    next
      case 2
      then have "path i = child_path fb (gn_name n0)" "path p = q"
        using placed0 inv by (auto simp: placed_def place_inv_def)
      moreover have "path_rank q < path_rank (child_path fb (gn_name n0))"
      proof (cases "fb = ''.''")
        case True
        with 2(3) have "q = ''.''" by auto
        with True name0 show ?thesis by (simp add: path_rank_child)
      next
        case False
        with 2(3) show ?thesis by (auto intro: path_rank_shorter)
      qed
      ultimately show ?thesis by simp
    qed
  qed
  then show ?thesis by (intro exI [of _ "\<lambda>i. path_rank (path i)"]) blast
qed

lemma parsed_scene_returns:
  assumes parsed: "parse_scene draws result = Inr sc" and unused: "get_node sc unique_scene_id_unassigned = None"
    and names: "\<forall>i n. get_node sc i = Some n \<longrightarrow> gn_name n = ''.'' \<longrightarrow> gn_parent_id n = None"
  shows "scene_returns sc"
proof -
  obtain rank :: "node_id \<Rightarrow> nat" where
    rank: "\<forall>i n p. get_node sc i = Some n \<longrightarrow> gn_parent_id n = Some p \<longrightarrow> rank p < rank i"
    using parsed_parents_ranked [OF assms] by blast
  note linked = parsed_scene_linked [OF parsed]
  then have get: "get_node sc i = Some n" if "(i, n) \<in> set (gs_nodes sc)" for i n
    using that by (simp add: linked_nodes_def get_node_def hm_get_eq_Some_iff)
  have "child_rel sc \<subseteq> measure rank"
  proof clarify
    fix i j
    assume "(i, j) \<in> child_rel sc"
    then obtain n where n: "get_node sc i = Some n" "j \<in> set (gn_child_node_ids n)"
      by (auto simp: child_rel_def)
    then have "(i, n) \<in> set (gs_nodes sc)" by (simp add: get_node_def map_of_SomeD)
    with linked(1) n(2) have "parent_of (gs_nodes sc) j = Some i" by (auto simp: linked_nodes_def)
    then obtain m where "get_node sc j = Some m" "gn_parent_id m = Some i"
      by (auto simp: parent_of_def get_node_def bind_eq_Some_conv)
    with rank show "(i, j) \<in> measure rank" by simp
  qed
  then have "acyclic (child_rel sc)"
    by (rule acyclic_subset [rotated]) (simp add: wf_acyclic)
  moreover have "parents_ranked sc rank"
  proof -
    have "get_node sc p \<noteq> None \<and> rank p < rank i"
      if "(i, n) \<in> set (gs_nodes sc)" "gn_parent_id n = Some p" for i n p
      using that linked(1) rank get [OF that(1)]
      by (auto simp: linked_nodes_def hm_contains_def get_node_def)
    then show ?thesis unfolding parents_ranked_def by blast
  qed
  ultimately show ?thesis using linked(2) unfolding scene_returns_def by blast
qed

end
