(* ===== verification/Serialize_Order.thy ===== *)
theory Serialize_Order imports Godot_Serialize begin

text \<open>
  The text of a scene does not depend on the iteration order of its hash maps: two scenes with the
  same entries serialize to the same text, as long as the keys the code sorts by are distinct
  (\<open>order_determined\<close>). The content hash of a scene is a hash of this text, so this is what makes
  change detection stable.
\<close>

section \<open>Scenes with the same entries\<close>

definition same_sub_resource :: "sub_resource_node \<Rightarrow> sub_resource_node \<Rightarrow> bool" where
  "same_sub_resource r s \<longleftrightarrow>
     s = r\<lparr>sr_properties := sr_properties s\<rparr> \<and> mset (sr_properties r) = mset (sr_properties s)"

definition same_node :: "godot_node \<Rightarrow> godot_node \<Rightarrow> bool" where
  "same_node n m \<longleftrightarrow>
     m = n\<lparr>gn_properties := gn_properties m\<rparr> \<and> mset (gn_properties n) = mset (gn_properties m)"

definition same_scene :: "godot_scene \<Rightarrow> godot_scene \<Rightarrow> bool" where
  "same_scene sc tc \<longleftrightarrow>
     gs_load_steps tc = gs_load_steps sc \<and> gs_format tc = gs_format sc \<and> gs_uid tc = gs_uid sc \<and>
     gs_script_class tc = gs_script_class sc \<and> gs_resource_type tc = gs_resource_type sc \<and>
     gs_root_node_id tc = gs_root_node_id sc \<and>
     gs_editable_instances tc = gs_editable_instances sc \<and>
     mset (gs_ext_resources sc) = mset (gs_ext_resources tc) \<and>
     mset (gs_connections sc) = mset (gs_connections tc) \<and>
     rel_mset (rel_prod (=) same_sub_resource)
       (mset (gs_sub_resources sc)) (mset (gs_sub_resources tc)) \<and>
     rel_mset (rel_prod (=) same_node) (mset (gs_nodes sc)) (mset (gs_nodes tc)) \<and>
     rel_option same_sub_resource (gs_main_resource sc) (gs_main_resource tc)"

definition orders_distinct :: "(string, ordered_property) hmap \<Rightarrow> bool" where
  "orders_distinct ps \<longleftrightarrow> distinct (map (\<lambda>(_, p). prop_order p) ps)"

definition order_determined :: "godot_scene \<Rightarrow> bool" where
  "order_determined sc \<longleftrightarrow>
     hm_wf (gs_nodes sc) \<and>
     distinct (map (\<lambda>(_, r). er_idx r) (gs_ext_resources sc)) \<and>
     distinct (map (\<lambda>(_, r). sr_idx r) (gs_sub_resources sc)) \<and>
     (\<forall>r\<in>snd ` set (gs_sub_resources sc). orders_distinct (sr_properties r)) \<and>
     (\<forall>n\<in>snd ` set (gs_nodes sc). orders_distinct (gn_properties n)) \<and>
     (\<forall>r\<in>set_option (gs_main_resource sc). orders_distinct (sr_properties r)) \<and>
     (\<forall>output text visited. serialize_nodes sc output = Inr (text, visited) \<longrightarrow>
        distinct (map (\<lambda>(_, c). connection_key visited c) (gs_connections sc)))"

lemma sort_key_perm_distinct:
  "mset xs = mset ys \<Longrightarrow> distinct (map f xs) \<Longrightarrow> sort_key f xs = sort_key f ys"
  by (simp add: sort_key_perm distinct_map)

lemma properties_text_perm:
  "mset ps = mset qs \<Longrightarrow> orders_distinct ps \<Longrightarrow> properties_text ps = properties_text qs"
  using sort_key_perm_distinct [of ps qs "\<lambda>(_, p). prop_order p"]
  by (simp add: properties_text_def orders_distinct_def)

lemma sub_resource_text_same:
  "same_sub_resource r s \<Longrightarrow> orders_distinct (sr_properties r) \<Longrightarrow>
     sub_resource_text r = sub_resource_text s \<and> main_resource_text r = main_resource_text s"
  using properties_text_perm [of "sr_properties r" "sr_properties s"]
  by (cases r; cases s) (auto simp: same_sub_resource_def sub_resource_text_def main_resource_text_def)

section \<open>Sorting related lists\<close>

lemma insort_key_rel:
  "R x y \<Longrightarrow> list_all2 R xs ys \<Longrightarrow> (\<And>x y. R x y \<Longrightarrow> f x = g y) \<Longrightarrow>
     list_all2 R (insort_key f x xs) (insort_key g y ys)"
proof (induction xs arbitrary: ys)
  case (Cons z zs)
  then obtain w ws where "ys = w # ws" "R z w" "list_all2 R zs ws"
    by (auto simp: list_all2_Cons1)
  moreover from this Cons.prems have "f z = g w" "f x = g y" by blast+
  ultimately show ?case using Cons by auto
qed simp

lemma sort_key_rel:
  "list_all2 R xs ys \<Longrightarrow> (\<And>x y. R x y \<Longrightarrow> f x = g y) \<Longrightarrow>
     list_all2 R (sort_key f xs) (sort_key g ys)"
proof (induction xs arbitrary: ys)
  case (Cons x xs)
  then obtain y zs where "ys = y # zs" "R x y" "list_all2 R xs zs"
    by (auto simp: list_all2_Cons1)
  with Cons show ?case by (simp add: insort_key_rel)
qed simp

lemma list_all2_map_eq:
  "list_all2 R xs ys \<Longrightarrow> (\<And>x y. x \<in> set xs \<Longrightarrow> R x y \<Longrightarrow> f x = g y) \<Longrightarrow> map f xs = map g ys"
proof (induction xs arbitrary: ys)
  case (Cons x xs)
  then show ?case by (auto simp: list_all2_Cons1)
qed simp

lemma sub_resources_text_same:
  assumes "same_scene sc tc" and "order_determined sc"
  shows "sub_resources_text sc = sub_resources_text tc"
proof -
  let ?R = "rel_prod (=) same_sub_resource" and ?f = "\<lambda>(_ :: string, r). sr_idx r"
  from assms(1) obtain xs ys where xs: "mset xs = mset (gs_sub_resources sc)"
    and ys: "mset ys = mset (gs_sub_resources tc)" and rel: "list_all2 ?R xs ys"
    by (auto simp: same_scene_def rel_mset_def)
  have dist: "distinct (map ?f xs)"
    using assms(2) xs unfolding order_determined_def
    by (metis (no_types, lifting) mset_eq_imp_distinct_iff mset_map)
  have idx: "?f x = ?f y" if "?R x y" for x y
    using that by (auto simp: same_sub_resource_def rel_prod_sel split: prod.splits)
      (metis sub_resource_node.select_convs(4) sub_resource_node.surjective
        sub_resource_node.update_convs(3))
  have "map ?f xs = map ?f ys" using rel idx by (rule list_all2_map_eq) auto
  with dist have "distinct (map ?f ys)" by simp
  with dist xs ys have sorted: "sort_key ?f (gs_sub_resources sc) = sort_key ?f xs"
    "sort_key ?f (gs_sub_resources tc) = sort_key ?f ys"
    using sort_key_perm_distinct by metis+
  have "map (sub_resource_text \<circ> snd) (sort_key ?f xs) = map (sub_resource_text \<circ> snd) (sort_key ?f ys)"
  proof (rule list_all2_map_eq [OF sort_key_rel [OF rel idx]])
    fix x y
    assume "x \<in> set (sort_key ?f xs)" and xy: "?R x y"
    then have "snd x \<in> snd ` set (gs_sub_resources sc)"
      using mset_eq_setD [OF xs] by auto
    with assms(2) have "orders_distinct (sr_properties (snd x))"
      unfolding order_determined_def by blast
    with xy show "(sub_resource_text \<circ> snd) x = (sub_resource_text \<circ> snd) y"
      by (cases x; cases y) (auto simp: sub_resource_text_same)
  qed auto
  with sorted show ?thesis by (simp add: sub_resources_text_def)
qed

section \<open>Nodes and paths\<close>

lemma rel_mset_map_of:
  assumes "rel_mset (rel_prod (=) R) (mset xs) (mset ys)" and "hm_wf xs"
  shows "hm_wf ys \<and> length ys = length xs \<and> rel_option R (hm_get xs k) (hm_get ys k)"
proof -
  from assms(1) obtain us vs where us: "mset us = mset xs" and vs: "mset vs = mset ys"
    and rel: "list_all2 (rel_prod (=) R) us vs"
    by (auto simp: rel_mset_def)
  have keys: "map fst us = map fst vs"
    using rel by (rule list_all2_map_eq) (auto simp: rel_prod_sel)
  have wf: "hm_wf us" using us assms(2) hm_wf_perm by blast
  with keys have "hm_wf vs" by (simp add: hm_wf_def)
  then have "hm_wf ys" using vs hm_wf_perm by blast
  moreover have "length ys = length xs"
    using us vs rel by (metis list_all2_lengthD mset_eq_length)
  moreover have "rel_option R (hm_get us k) (hm_get vs k)"
    using rel by (induction rule: list_all2_induct) (auto simp: rel_prod_sel split: prod.splits)
  then have "rel_option R (hm_get xs k) (hm_get ys k)"
    using hm_get_perm us vs wf \<open>hm_wf vs\<close> by metis
  ultimately show ?thesis by blast
qed

lemma get_node_same:
  assumes "same_scene sc tc" and "order_determined sc"
  shows "rel_option same_node (get_node sc i) (get_node tc i)"
    and "node_fuel tc = node_fuel sc"
  using rel_mset_map_of [of same_node "gs_nodes sc" "gs_nodes tc" i] assms
  by (auto simp: same_scene_def order_determined_def get_node_def node_fuel_def)

lemma node_path_loop_transfer:
  assumes rel: "\<And>i. rel_option same_node (get_node sc i) (get_node tc i)"
    and root: "gs_root_node_id tc = gs_root_node_id sc"
    and r: "node_path_loop sc i path = Some r"
  shows "node_path_loop tc i path = Some r"
proof (rule node_path_loop.raw_induct [where P = "\<lambda>sc' i path r. sc' = sc \<longrightarrow>
      node_path_loop tc i path = Some r", OF _ r, THEN mp, OF _ refl], rule impI)
  fix f sc' i path r
  assume IH: "\<And>sc' i path r. f sc' i path = Some r \<Longrightarrow> sc' = sc \<longrightarrow> node_path_loop tc i path = Some r"
    and eq: "(case get_node sc' i of None \<Rightarrow> Some (Inl Panic)
      | Some node \<Rightarrow>
        let path = (if path = [] then gn_name node else gn_name node @ ''/'' @ path)
        in case gn_parent_path_fallback node of
             None \<Rightarrow> (case gn_parent_id node of
                None \<Rightarrow> Some (Inr path)
              | Some parent_id \<Rightarrow> if parent_id = root_or_unassigned sc' then Some (Inr path)
                  else f sc' parent_id path)
           | Some parent_path \<Rightarrow>
               Some (Inr (if parent_path = ''.'' then path else parent_path @ ''/'' @ path)))
      = Some r"
    and "sc' = sc"
  have root': "root_or_unassigned tc = root_or_unassigned sc"
    using root by (simp add: root_or_unassigned_def)
  show "node_path_loop tc i path = Some r"
  proof (cases "get_node sc i")
    case None
    with rel [of i] eq \<open>sc' = sc\<close> show ?thesis by (subst node_path_loop.simps) auto
  next
    case (Some n)
    with rel [of i] obtain m where m: "get_node tc i = Some m" and "same_node n m"
      by (auto simp: option_rel_Some1)
    then have "gn_name m = gn_name n" "gn_parent_id m = gn_parent_id n"
      "gn_parent_path_fallback m = gn_parent_path_fallback n"
      by (cases n; cases m; auto simp: same_node_def)+
    with Some m eq \<open>sc' = sc\<close> root' IH show ?thesis
      by (subst node_path_loop.simps) (auto simp: Let_def split: option.splits if_splits)
  qed
qed

lemma same_node_sym: "same_node n m \<Longrightarrow> same_node m n"
  by (cases n; cases m) (auto simp: same_node_def)

lemma get_node_path_same:
  assumes rel: "\<And>i. rel_option same_node (get_node sc i) (get_node tc i)"
    and root: "gs_root_node_id tc = gs_root_node_id sc"
  shows "get_node_path tc i = get_node_path sc i"
proof -
  have rel': "rel_option same_node (get_node tc i) (get_node sc i)" for i
    using rel [of i] by (cases "get_node sc i"; cases "get_node tc i") (auto simp: same_node_sym)
  have "node_path_loop tc i path = node_path_loop sc i path" for path
  proof (cases "node_path_loop sc i path")
    case (Some r)
    from node_path_loop_transfer [OF rel root this] this show ?thesis by simp
  next
    case None
    then show ?thesis
      using node_path_loop_transfer [OF rel' root [symmetric], of i path]
      by (cases "node_path_loop tc i path") (simp, metis option.distinct(1))
  qed
  with root show ?thesis by (simp add: get_node_path_def root_or_unassigned_def)
qed

lemma same_node_fields:
  assumes "same_node n m"
  shows "gn_id m = gn_id n" "gn_name m = gn_name n"
    "gn_type_or_instance m = gn_type_or_instance n"
    "gn_instance_placeholder m = gn_instance_placeholder n" "gn_parent_id m = gn_parent_id n"
    "gn_parent_path_fallback m = gn_parent_path_fallback n"
    "gn_parent_id_path m = gn_parent_id_path n" "gn_owner m = gn_owner n"
    "gn_owner_uid_path m = gn_owner_uid_path n" "gn_index m = gn_index n"
    "gn_groups m = gn_groups n" "gn_node_paths m = gn_node_paths n"
    "gn_child_node_ids m = gn_child_node_ids n" "mset (gn_properties n) = mset (gn_properties m)"
  using assms by (cases n; cases m; simp add: same_node_def)+

lemma node_text_same:
  assumes "\<And>i. get_node_path tc i = get_node_path sc i"
    and "gs_root_node_id tc = gs_root_node_id sc"
    and "same_node n m" and "orders_distinct (gn_properties n)"
  shows "node_text tc m = node_text sc n"
proof -
  note fields = same_node_fields [OF assms(3)]
  have "properties_text (gn_properties m) = properties_text (gn_properties n)"
    using properties_text_perm [OF fields(14) assms(4)] by simp
  moreover have "parent_attr tc m = parent_attr sc n"
    unfolding parent_attr_def fields assms(1,2) by (rule refl)
  moreover have "owner_attr m = owner_attr n"
    unfolding owner_attr_def fields by (rule refl)
  ultimately show ?thesis unfolding node_text_def fields(1-13) by simp
qed

lemma emit_node_same:
  assumes "node_text tc m = node_text sc n" and "same_node n m"
  shows "emit_node tc m st = emit_node sc n st"
  using assms by (cases n; cases m) (auto simp: emit_node_def same_node_def split: prod.splits)

lemma serialize_node_same:
  assumes rel: "\<And>i. rel_option same_node (get_node sc i) (get_node tc i)"
    and node_eq: "\<And>i n m. get_node sc i = Some n \<Longrightarrow> same_node n m \<Longrightarrow> node_text tc m = node_text sc n"
    and "get_node sc i = Some n" and "same_node n m"
  shows "serialize_node fuel tc m st = serialize_node fuel sc n st"
  using assms(3,4)
proof (induction fuel arbitrary: i n m st)
  case (Suc fuel)
  have "gn_child_node_ids m = gn_child_node_ids n"
    using Suc.prems(2) by (cases n; cases m) (auto simp: same_node_def)
  moreover have "(case get_node tc j of None \<Rightarrow> Inr st | Some c \<Rightarrow> serialize_node fuel tc c st) =
      (case get_node sc j of None \<Rightarrow> Inr st | Some c \<Rightarrow> serialize_node fuel sc c st)" for j st
    using rel [of j] Suc.IH [of j]
    by (cases "get_node sc j"; cases "get_node tc j") auto
  ultimately show ?case
    using emit_node_same [OF node_eq [OF Suc.prems] Suc.prems(2)] by simp
qed simp

lemma serialize_nodes_same:
  assumes "same_scene sc tc" and "order_determined sc"
  shows "serialize_nodes tc output = serialize_nodes sc output"
proof -
  have rel: "rel_option same_node (get_node sc i) (get_node tc i)" for i
    using get_node_same [OF assms] by blast
  have root: "gs_root_node_id tc = gs_root_node_id sc"
    and conns: "mset (gs_connections tc) = mset (gs_connections sc)"
    and edit: "gs_editable_instances tc = gs_editable_instances sc"
    using assms(1) by (auto simp: same_scene_def)
  have node_eq: "node_text tc m = node_text sc n" if "get_node sc i = Some n" "same_node n m" for i n m
  proof (rule node_text_same [OF get_node_path_same [OF rel root] root that(2)])
    have "n \<in> snd ` set (gs_nodes sc)" using that(1) by (force simp: get_node_def dest: map_of_SomeD)
    with assms(2) show "orders_distinct (gn_properties n)"
      unfolding order_determined_def by blast
  qed
  have conns_Nil: "gs_connections tc = [] \<longleftrightarrow> gs_connections sc = []"
    using conns by (metis mset_zero_iff)
  show ?thesis
  proof (cases "\<exists>i n. gs_root_node_id sc = Some i \<and> get_node sc i = Some n")
    case True
    then obtain i n where i: "gs_root_node_id sc = Some i" "get_node sc i = Some n" by blast
    with rel [of i] obtain m where m: "get_node tc i = Some m" "same_node n m"
      by (auto simp: option_rel_Some1)
    show ?thesis
      unfolding serialize_nodes_def root edit conns_Nil get_node_same(2) [OF assms]
      by (simp add: i m(1) serialize_node_same [OF rel node_eq i(2) m(2)])
  next
    case False
    have "get_node tc i = None" if "gs_root_node_id sc = Some i" for i
      using rel [of i] False that by (cases "get_node sc i") auto
    with False root show ?thesis
      by (auto simp: serialize_nodes_def split: option.splits)
  qed
qed

lemma connections_text_same:
  assumes "\<And>i. get_node_path tc i = get_node_path sc i"
    and "mset (gs_connections sc) = mset (gs_connections tc)"
    and "distinct (map (\<lambda>(_, c). connection_key visited c) (gs_connections sc))"
  shows "connections_text tc visited = connections_text sc visited"
  using assms sort_key_perm_distinct [OF assms(2,3)]
  by (simp add: connections_text_def connection_text_def)

lemma serialize_same:
  assumes "same_scene sc tc" and "order_determined sc"
  shows "serialize_with_ext_resource_override io tc href remove_uid =
     serialize_with_ext_resource_override io sc href remove_uid"
proof -
  have rel: "rel_option same_node (get_node sc i) (get_node tc i)" for i
    using get_node_same [OF assms] by blast
  have root: "gs_root_node_id tc = gs_root_node_id sc"
    and ext: "mset (gs_ext_resources sc) = mset (gs_ext_resources tc)"
    and conns: "mset (gs_connections sc) = mset (gs_connections tc)"
    and edit: "gs_editable_instances tc = gs_editable_instances sc"
    and main: "rel_option same_sub_resource (gs_main_resource sc) (gs_main_resource tc)"
    using assms(1) by (auto simp: same_scene_def)
  have heads: "header_text tc = header_text sc"
      "ext_resources_text io href remove_uid tc = ext_resources_text io href remove_uid sc"
      "sub_resources_text tc = sub_resources_text sc"
    using assms(1) sub_resources_text_same [OF assms]
      sort_key_perm_distinct [OF ext, of "\<lambda>(_, r). er_idx r"] assms(2)
      mset_zero_iff [of "gs_ext_resources sc"] mset_zero_iff [of "gs_ext_resources tc"] ext
    by (simp_all add: same_scene_def header_text_def ext_resources_text_def order_determined_def)
  have "gs_connections tc = [] \<longleftrightarrow> gs_connections sc = []"
    using conns by (metis mset_zero_iff)
  then have "editable_text tc = editable_text sc"
    using edit by (simp add: editable_text_def)
  moreover have "connections_text tc visited = connections_text sc visited"
    if "serialize_nodes sc out = Inr (body, visited)" for out body visited
    using connections_text_same [OF get_node_path_same [OF rel root] conns] that assms(2)
    unfolding order_determined_def by blast
  ultimately have rest: "rbind (serialize_nodes tc out) (\<lambda>(output, visited).
      rbind (connections_text tc visited) (\<lambda>connections. Inr (output @ connections @ editable_text tc))) =
    rbind (serialize_nodes sc out) (\<lambda>(output, visited).
      rbind (connections_text sc visited) (\<lambda>connections. Inr (output @ connections @ editable_text sc)))"
    for out
    using serialize_nodes_same [OF assms] by (cases "serialize_nodes sc out") auto
  have before: "header_text tc @ ext_resources_text io href remove_uid tc @ sub_resources_text tc =
      header_text sc @ ext_resources_text io href remove_uid sc @ sub_resources_text sc"
    using heads by simp
  show ?thesis
  proof (cases "gs_main_resource sc")
    case None
    with main have "gs_main_resource tc = None" by simp
    with None show ?thesis
      unfolding serialize_with_ext_resource_override_def before by (simp add: rest)
  next
    case (Some r)
    with main obtain r' where r': "gs_main_resource tc = Some r'" "same_sub_resource r r'"
      by (auto simp: option_rel_Some1)
    then have "main_resource_text r' = main_resource_text r"
      using sub_resource_text_same assms(2) Some by (auto simp: order_determined_def)
    with Some r' show ?thesis
      unfolding serialize_with_ext_resource_override_def before by simp
  qed
qed

end
