(* ===== verification/Scene_Properties.thy ===== *)
theory Scene_Properties imports Parse_Linked Serialize_Order begin

text \<open>
  The properties of the scene model, parser and serializer, with their witnesses: concrete scenes
  on which every hypothesis is evaluated.
\<close>

section \<open>The parser does not return\<close>

lemma instance_path_loop_stuck:
  assumes "path \<noteq> []" and "hm_get by_path path = None"
  shows "instance_path_loop nodes by_path path parent_id ids = None"
proof (rule ccontr)
  assume "instance_path_loop nodes by_path path parent_id ids \<noteq> None"
  then obtain r where r: "instance_path_loop nodes by_path path parent_id ids = Some r" by blast
  have "\<not> (path \<noteq> [] \<and> hm_get by_path path = None)"
    by (rule instance_path_loop.raw_induct [where
        P = "\<lambda>nodes by_path path parent_id ids r. \<not> (path \<noteq> [] \<and> hm_get by_path path = None)",
        OF _ r]) (metis (mono_tags, lifting) option.simps(4))
  with assms show False by blast
qed

lemma place_node_diverges:
  assumes "gn_type_or_instance n = None" and "gn_parent_path_fallback n = Some path"
    and "gn_parent_id_path n = None" and "path \<noteq> ''.''" and "path \<noteq> []"
    and "hm_get (ls_by_path st) path = None" and "gn_id n \<noteq> unique_scene_id_unassigned"
  shows "place_node (n, fb) st = Inl Diverges"
proof -
  have "place_edited n st = Inl Diverges"
    using assms instance_path_loop_stuck [OF assms(5,6), of "ls_nodes st" None "[]"]
    by (simp add: place_edited_def Let_def)
  then show ?thesis using assms(1,7) by (simp add: place_node_def assign_id_def)
qed

lemma fold_res_prefix_fails:
  "fold_res f xs s = Inr t \<Longrightarrow> f x t = Inl e \<Longrightarrow> fold_res f (xs @ x # ys) s = Inl e"
  by (simp add: fold_res_append)

section \<open>Serialization extends its output\<close>

lemma emit_node_extends:
  assumes "emit_node sc n (out, v) = Inr (out', v')"
  shows "\<exists>more. out' = out @ more \<and> more \<noteq> []"
proof -
  from assms obtain t where t: "node_text sc n = Inr t" "out' = out @ t"
    by (auto simp: emit_node_def rbind_eq_Inr_iff)
  then have "t \<noteq> []" by (auto simp: node_text_def rbind_eq_Inr_iff)
  with t show ?thesis by blast
qed

lemma serialize_node_extends:
  assumes "serialize_node fuel sc n (out, v) = Inr (out', v')"
  shows "\<exists>more. out' = out @ more \<and> more \<noteq> []"
  using assms
proof (induction fuel arbitrary: n out v out' v')
  case (Suc fuel)
  then obtain out1 v1 where e: "emit_node sc n (out, v) = Inr (out1, v1)"
    and f: "fold_res (\<lambda>child_id st. case get_node sc child_id of None \<Rightarrow> Inr st
      | Some child_node \<Rightarrow> serialize_node fuel sc child_node st) (gn_child_node_ids n) (out1, v1) =
        Inr (out', v')"
    by (auto simp: rbind_eq_Inr_iff)
  have "\<exists>more. fst (out', v') = out @ more \<and> more \<noteq> []"
  proof (rule fold_res_invariant [where P = "\<lambda>st. \<exists>more. fst st = out @ more \<and> more \<noteq> []", OF f])
    show "\<exists>more. fst (out1, v1) = out @ more \<and> more \<noteq> []" using emit_node_extends [OF e] by simp
    fix child u w
    assume u: "\<exists>more. fst u = out @ more \<and> more \<noteq> []"
      and step: "(case get_node sc child of None \<Rightarrow> Inr u
        | Some child_node \<Rightarrow> serialize_node fuel sc child_node u) = Inr w"
    show "\<exists>more. fst w = out @ more \<and> more \<noteq> []"
    proof (cases "get_node sc child")
      case None
      with u step show ?thesis by auto
    next
      case (Some m)
      with step Suc.IH [of m "fst u" "snd u" "fst w" "snd w"]
      obtain more where "fst w = fst u @ more" "more \<noteq> []" by auto
      with u show ?thesis by auto
    qed
  qed
  then show ?case by simp
qed simp

lemma serialize_nodes_prefix:
  assumes "serialize_nodes sc out = Inr (out', v)"
  shows "\<exists>more. out' = out @ more"
proof (cases "\<exists>r n. gs_root_node_id sc = Some r \<and> get_node sc r = Some n")
  case True
  then obtain r n out1 where "serialize_node (node_fuel sc) sc n (out, []) = Inr (out1, v)"
    and out': "out' = (if gs_connections sc = [] \<and> gs_editable_instances sc = [] then butlast out1 else out1)"
    using assms by (auto simp: serialize_nodes_def rbind_eq_Inr_iff)
  from serialize_node_extends [OF this(1)] out' show ?thesis by (auto simp: butlast_append)
next
  case False
  with assms have "out' = out" by (auto simp: serialize_nodes_def split: option.splits)
  then show ?thesis by simp
qed

section \<open>Properties\<close>

text \<open>C10: every scene that the parser returns is linked: the node map has one entry per identifier,
  filed under the node's own identifier, every parent is a node of the scene, the children of a
  node are exactly the nodes whose parent it is, in file order, and root and connection endpoints
  are nodes of the scene.\<close>

theorem parse_scene_linked:
  assumes "parse_scene draws matches = Inr sc"
  shows "linked_nodes (gs_nodes sc) \<and>
    (\<forall>c\<in>snd ` set (gs_connections sc).
       get_node sc (gc_from_node_id c) \<noteq> None \<and> get_node sc (gc_to_node_id c) \<noteq> None) \<and>
    (\<forall>r. gs_root_node_id sc = Some r \<longrightarrow> get_node sc r \<noteq> None)"
  using parsed_scene_linked [OF assms] by blast

definition demo_sections :: "capture list list" where
  "demo_sections =
    [[(0, ''gd_scene''), (1, ''format''), (2, ''3''), (1, ''uid''), (2, quoted ''uid://a'')],
     [(0, ''node''), (1, ''name''), (2, quoted ''Main''), (1, ''type''), (2, quoted ''Node2D'')],
     [(0, ''node''), (1, ''name''), (2, quoted ''A''), (1, ''type''), (2, quoted ''Node''),
        (1, ''parent''), (2, quoted ''.''), (3, ''x''), (4, ''1'')],
     [(0, ''node''), (1, ''name''), (2, quoted ''B''), (1, ''type''), (2, quoted ''Node''),
        (1, ''parent''), (2, quoted ''A''), (1, ''unique_id''), (2, ''5'')],
     [(0, ''connection''), (1, ''signal''), (2, quoted ''s''), (1, ''from''), (2, quoted ''.''),
        (1, ''to''), (2, quoted ''A/B''), (1, ''method''), (2, quoted ''m'')]]"

definition demo_scene :: godot_scene where
  "demo_scene = the (get_ok (parse_scene [7, 8] (Some demo_sections)))"

lemma demo_parsed: "parse_scene [7, 8] (Some demo_sections) = Inr demo_scene"
  by code_simp

theorem parse_scene_linked_witness: "linked_nodes (gs_nodes demo_scene) \<and> gs_nodes demo_scene \<noteq> []"
  by (rule conjI [OF conjunct1 [OF parse_scene_linked [OF demo_parsed]]]) code_simp

text \<open>C11: a parsed scene can be serialized: neither the loop that computes a node's path nor the recursion over
  children runs forever or meets a missing node, unless a node has the reserved identifier 0 or a node
  below the root is called \<open>.\<close>, as the nodes of \<open>dot_node_diverges\<close> are.\<close>

theorem parse_scene_serializes:
  assumes "parse_scene draws matches = Inr sc" and "get_node sc unique_scene_id_unassigned = None"
    and "\<forall>i n. get_node sc i = Some n \<longrightarrow> gn_name n = ''.'' \<longrightarrow> gn_parent_id n = None"
  shows "\<exists>s. serialize_with_ext_resource_override io sc href remove_uid = Inr s"
proof (cases "gs_main_resource sc")
  case None
  note returns = parsed_scene_returns [OF assms]
  obtain out visited where "serialize_nodes sc (header_text sc @ ext_resources_text io href remove_uid sc @
      sub_resources_text sc) = Inr (out, visited)"
    using serialize_nodes_returns [OF returns] by fastforce
  moreover obtain s where "connections_text sc visited = Inr s"
    using connections_text_returns [OF returns] by blast
  ultimately show ?thesis
    using None by (simp add: serialize_with_ext_resource_override_def)
qed (simp add: serialize_with_ext_resource_override_def)

lemma demo_names:
  "\<forall>i n. get_node demo_scene i = Some n \<longrightarrow> gn_name n = ''.'' \<longrightarrow> gn_parent_id n = None"
proof -
  have "list_all (\<lambda>(i, n). gn_name n = ''.'' \<longrightarrow> gn_parent_id n = None) (gs_nodes demo_scene)"
    by code_simp
  then show ?thesis by (auto simp: get_node_def list_all_iff dest: map_of_SomeD)
qed

theorem parse_scene_serializes_witness:
  "\<exists>s. serialize_with_ext_resource_override
     (\<lparr>show_doc = id, parse_doc = Some, show_hash = id, parse_hash = Some\<rparr> :: (string, string) id_io)
     demo_scene None False = Inr s"
  by (rule parse_scene_serializes [OF demo_parsed _ demo_names]) code_simp

text \<open>A node called \<open>.\<close> takes the path of the root in the index, so a node below \<open>.\<close> with this name is its own
  parent. The file below parses, and when the connection from this node is serialized, \<open>get_node_path\<close> never
  returns.\<close>

definition demo_dot_sections :: "capture list list" where
  "demo_dot_sections =
    [[(0, ''gd_scene''), (1, ''format''), (2, ''3''), (1, ''uid''), (2, quoted ''uid://a'')],
     [(0, ''node''), (1, ''name''), (2, quoted ''Main''), (1, ''type''), (2, quoted ''Node2D'')],
     [(0, ''node''), (1, ''name''), (2, quoted ''.''), (1, ''type''), (2, quoted ''Node''),
        (1, ''parent''), (2, quoted ''.''), (1, ''unique_id''), (2, ''5'')],
     [(0, ''connection''), (1, ''signal''), (2, quoted ''s''), (1, ''from''), (2, quoted ''.''),
        (1, ''to''), (2, quoted ''.''), (1, ''method''), (2, quoted ''m'')]]"

definition demo_dot_scene :: godot_scene where
  "demo_dot_scene = the (get_ok (parse_scene [7] (Some demo_dot_sections)))"

lemma own_parent_diverges:
  assumes "get_node sc i = Some n" and "gn_parent_path_fallback n = None" and "gn_parent_id n = Some i"
    and "root_or_unassigned sc \<noteq> i"
  shows "get_node_path sc i = Inl Diverges"
  using node_path_loop_closed [of "{i}" sc i "[]"] assms by (auto simp: get_node_path_def)

theorem dot_node_diverges:
  "parse_scene [7] (Some demo_dot_sections) = Inr demo_dot_scene \<and>
   get_node_path demo_dot_scene (mk_node_id 5 None) = Inl Diverges \<and>
   serialize demo_dot_scene = Inl Diverges"
proof -
  define n where "n = the (get_node demo_dot_scene (mk_node_id 5 None))"
  have n: "get_node demo_dot_scene (mk_node_id 5 None) = Some n" "gn_parent_path_fallback n = None"
    "gn_parent_id n = Some (mk_node_id 5 None)" unfolding n_def by code_simp+
  have "root_or_unassigned demo_dot_scene \<noteq> mk_node_id 5 None" by code_simp
  from own_parent_diverges [OF n this] have path: "get_node_path demo_dot_scene (mk_node_id 5 None) = Inl Diverges" .
  let ?io = "\<lparr>show_doc = id, parse_doc = Some, show_hash = id, parse_hash = Some\<rparr> :: (string, string) id_io"
  let ?out = "header_text demo_dot_scene @ ext_resources_text ?io None False demo_dot_scene @ sub_resources_text demo_dot_scene"
  have "get_ok (serialize_nodes demo_dot_scene ?out) \<noteq> None" by code_simp
  then obtain out visited where nodes: "serialize_nodes demo_dot_scene ?out = Inr (out, visited)"
    by (cases "serialize_nodes demo_dot_scene ?out") auto
  have "map (\<lambda>(_, c). gc_from_node_id c) (gs_connections demo_dot_scene) = [mk_node_id 5 None]" by code_simp
  then obtain k c where c: "gs_connections demo_dot_scene = [(k, c)]" "gc_from_node_id c = mk_node_id 5 None" by auto
  with path have "connections_text demo_dot_scene visited = Inl Diverges"
    by (simp add: connections_text_def connection_text_def)
  moreover have "gs_main_resource demo_dot_scene = None" by code_simp
  ultimately have "serialize demo_dot_scene = Inl Diverges"
    using nodes by (simp add: serialize_def serialize_with_ext_resource_override_def)
  moreover have "parse_scene [7] (Some demo_dot_sections) = Inr demo_dot_scene" by code_simp
  ultimately show ?thesis using path by simp
qed

text \<open>C12: where the keys that the code sorts by are distinct, the text of a scene does not depend on the iteration
  order of its hash maps: two scenes with the same entries serialize to the same text. Connections with the
  same ends, signal and method keep the order of the map (\<open>tied_connections_thrash\<close>), as the comment of the
  code says.\<close>

theorem serialize_order_independent:
  assumes "same_scene sc tc" and "order_determined sc"
  shows "serialize_with_ext_resource_override io tc href remove_uid =
    serialize_with_ext_resource_override io sc href remove_uid"
  using assms by (rule serialize_same)

definition demo_scene_reordered :: godot_scene where
  "demo_scene_reordered = demo_scene\<lparr>gs_nodes := rev (gs_nodes demo_scene)\<rparr>"

lemma demo_reordered: "same_scene demo_scene demo_scene_reordered"
proof -
  have "rel_mset (rel_prod (=) same_node) M M" for M :: "(node_id \<times> godot_node) multiset"
    by (rule multiset.rel_refl_strong) (auto simp: same_node_def rel_prod_sel)
  moreover have "rel_mset (rel_prod (=) same_sub_resource) M M"
    for M :: "(string \<times> sub_resource_node) multiset"
    by (rule multiset.rel_refl_strong) (auto simp: same_sub_resource_def rel_prod_sel)
  moreover have "rel_option same_sub_resource x x" for x
    by (rule option.rel_refl_strong) (auto simp: same_sub_resource_def)
  ultimately show ?thesis by (simp add: same_scene_def demo_scene_reordered_def)
qed

lemma demo_order_determined: "order_determined demo_scene"
proof -
  have "distinct (map fst (gs_nodes demo_scene)) \<and>
      distinct (map (\<lambda>(_, r). er_idx r) (gs_ext_resources demo_scene)) \<and>
      distinct (map (\<lambda>(_, r). sr_idx r) (gs_sub_resources demo_scene)) \<and>
      list_all (\<lambda>(_, r). distinct (map (\<lambda>(_, p). prop_order p) (sr_properties r)))
        (gs_sub_resources demo_scene) \<and>
      list_all (\<lambda>(_, n). distinct (map (\<lambda>(_, p). prop_order p) (gn_properties n)))
        (gs_nodes demo_scene) \<and>
      Option.is_none (gs_main_resource demo_scene)"
    by code_simp
  moreover obtain kc where "gs_connections demo_scene = [kc]"
  proof -
    have "length (gs_connections demo_scene) = 1" by code_simp
    with that show thesis by (auto simp: length_Suc_conv)
  qed
  ultimately show ?thesis
    by (auto simp: order_determined_def hm_wf_def orders_distinct_def list_all_iff Option.is_none_def
        split: prod.splits)
qed

theorem serialize_order_independent_witness:
  "serialize demo_scene_reordered = serialize demo_scene \<and> demo_scene_reordered \<noteq> demo_scene"
proof
  show "serialize demo_scene_reordered = serialize demo_scene"
    unfolding serialize_def
    by (rule serialize_order_independent [OF demo_reordered demo_order_determined])
  have "hm_keys (gs_nodes demo_scene_reordered) \<noteq> hm_keys (gs_nodes demo_scene)" by code_simp
  then show "demo_scene_reordered \<noteq> demo_scene" by metis
qed

text \<open>Two connections of the demo scene that differ only in their flags, in both orders.\<close>

definition demo_tied :: "int list \<Rightarrow> godot_scene" where
  "demo_tied flags = demo_scene\<lparr>gs_connections := concat (map (\<lambda>f. map (\<lambda>(k, c).
     (k @ show_int f, c\<lparr>gc_flags := Some f\<rparr>)) (gs_connections demo_scene)) flags)\<rparr>"

theorem tied_connections_thrash:
  "mset (gs_connections (demo_tied [1, 2])) = mset (gs_connections (demo_tied [2, 1])) \<and>
   serialize (demo_tied [1, 2]) \<noteq> serialize (demo_tied [2, 1])"
proof
  show "mset (gs_connections (demo_tied [1, 2])) = mset (gs_connections (demo_tied [2, 1]))"
    by (simp add: demo_tied_def add.commute)
  have "get_ok (serialize (demo_tied [1, 2])) \<noteq> get_ok (serialize (demo_tied [2, 1]))" by code_simp
  then show "serialize (demo_tied [1, 2]) \<noteq> serialize (demo_tied [2, 1])" by metis
qed

text \<open>A serialized scene or resource is recognised as one (\<open>recognize_scene\<close> is how the rest
  of the program decides to parse a text).\<close>

theorem serialize_recognized:
  assumes "serialize_with_ext_resource_override io sc href remove_uid = Inr out"
  shows "recognize_scene out"
proof -
  obtain rest where "out = header_text sc @ rest"
  proof (cases "gs_main_resource sc")
    case None
    with assms obtain out1 visited rest where
      nodes: "serialize_nodes sc (header_text sc @ ext_resources_text io href remove_uid sc @
        sub_resources_text sc) = Inr (out1, visited)" and "out = out1 @ rest"
      by (auto simp: serialize_with_ext_resource_override_def rbind_eq_Inr_iff)
    moreover from serialize_nodes_prefix [OF nodes] obtain more where "out1 = header_text sc @ more"
      by auto
    ultimately show thesis using that by simp
  next
    case (Some r)
    with assms that show thesis by (auto simp: serialize_with_ext_resource_override_def)
  qed
  then show ?thesis by (simp add: header_text_recognized)
qed

theorem serialize_recognized_witness: "recognize_scene (the (get_ok (serialize demo_scene)))"
proof -
  obtain out where "serialize demo_scene = Inr out"
    using parse_scene_serializes_witness unfolding serialize_def by blast
  with serialize_recognized show ?thesis unfolding serialize_def by fastforce
qed

text \<open>\<open>get_node_path\<close> prints the names on the chain of parents, topmost first and joined by
  \<open>/\<close>, stopping below the root, at a node without parent or at one that keeps a path of its own;
  it always returns on such a node.\<close>

theorem get_node_path_names:
  assumes "path_names sc i ns" and "i \<noteq> root_or_unassigned sc"
    and "\<forall>(k, n)\<in>set (gs_nodes sc). gn_name n \<noteq> []"
  shows "get_node_path sc i = Inr (str_join ''/'' ns)"
  using node_path_loop_path_names [OF assms(1,3), of "[]"] assms(2) by (simp add: get_node_path_def)

theorem get_node_path_names_witness: "get_node_path demo_scene (mk_node_id 5 None) = Inr ''A/B''"
proof -
  define a where "a = the (get_node demo_scene (mk_node_id 8 None))"
  define b where "b = the (get_node demo_scene (mk_node_id 5 None))"
  have a: "get_node demo_scene (mk_node_id 8 None) = Some a" "gn_parent_path_fallback a = None"
      "gn_parent_id a = Some (root_or_unassigned demo_scene)" "gn_name a = ''A''"
    unfolding a_def by code_simp+
  have b: "get_node demo_scene (mk_node_id 5 None) = Some b" "gn_parent_path_fallback b = None"
      "gn_parent_id b = Some (mk_node_id 8 None)" "gn_name b = ''B''"
    unfolding b_def by code_simp+
  have roots: "mk_node_id 8 None \<noteq> root_or_unassigned demo_scene"
    "mk_node_id 5 None \<noteq> root_or_unassigned demo_scene"
    by code_simp+
  have "path_names demo_scene (mk_node_id 5 None) ([''A''] @ [''B''])"
    using path_names.child [OF b(1-3) roots(1) path_names.top [OF a(1,2)]] a(3,4) b(4) by simp
  moreover have "list_all (\<lambda>(k, n). gn_name n \<noteq> []) (gs_nodes demo_scene)" by code_simp
  ultimately show ?thesis
    using get_node_path_names [of demo_scene "mk_node_id 5 None" "[''A''] @ [''B'']"] roots(2)
    by (simp add: list_all_iff)
qed

text \<open>On a set of nodes whose parents all stay in the set and avoid the root, such as two nodes
  that two merged edits made each other's parent, \<open>get_node_path\<close> never returns.\<close>

theorem get_node_path_cycle:
  assumes "\<forall>j\<in>C. \<exists>n k. get_node sc j = Some n \<and> gn_parent_path_fallback n = None \<and>
      gn_parent_id n = Some k \<and> k \<in> C"
    and "root_or_unassigned sc \<notin> C" and "i \<in> C"
  shows "get_node_path sc i = Inl Diverges"
  using node_path_loop_closed [of C sc i "[]"] assms by (auto simp: get_node_path_def)

definition demo_cycle :: godot_scene where
  "demo_cycle = demo_scene\<lparr>gs_nodes := map (\<lambda>(i, n). (i,
     if i = mk_node_id 8 None then n\<lparr>gn_parent_id := Some (mk_node_id 5 None)\<rparr> else n))
     (gs_nodes demo_scene)\<rparr>"

theorem get_node_path_cycle_witness: "get_node_path demo_cycle (mk_node_id 5 None) = Inl Diverges"
proof (rule get_node_path_cycle [of "{mk_node_id 5 None, mk_node_id 8 None}"])
  have "list_all (\<lambda>(i, k). case get_node demo_cycle i of None \<Rightarrow> False | Some n \<Rightarrow>
      gn_parent_path_fallback n = None \<and> gn_parent_id n = Some k)
      [(mk_node_id 5 None, mk_node_id 8 None), (mk_node_id 8 None, mk_node_id 5 None)]"
    by code_simp
  then show "\<forall>j\<in>{mk_node_id 5 None, mk_node_id 8 None}. \<exists>n k. get_node demo_cycle j = Some n \<and>
      gn_parent_path_fallback n = None \<and> gn_parent_id n = Some k \<and>
      k \<in> {mk_node_id 5 None, mk_node_id 8 None}"
    by (auto split: option.splits)
  show "root_or_unassigned demo_cycle \<notin> {mk_node_id 5 None, mk_node_id 8 None}"
    by (simp; intro conjI; code_simp)
qed simp

text \<open>The parser never returns on a file with a node that edits an instanced node below a path
  that no earlier node has: the loop meant to pop components off the path keeps the same path.\<close>

theorem parse_scene_diverges:
  assumes "fold_res (\<lambda>m. handle_section (read_section m)) matches parse_state_init = Inr ps"
    and "ps_node_arr ps = before @ (n, fb) # after"
    and "fold_res place_node before (link_state_init ps draws) = Inr st"
    and "gn_type_or_instance n = None" and "gn_parent_path_fallback n = Some path"
    and "gn_parent_id_path n = None" and "path \<noteq> ''.''" and "path \<noteq> []"
    and "hm_get (ls_by_path st) path = None" and "gn_id n \<noteq> unique_scene_id_unassigned"
  shows "parse_scene draws (Some matches) = Inl Diverges"
proof -
  have "fold_res place_node (ps_node_arr ps) (link_state_init ps draws) = Inl Diverges"
    unfolding assms(2)
    by (rule fold_res_prefix_fails [OF assms(3) place_node_diverges [OF assms(4-10)]])
  with assms(1) show ?thesis by (simp add: parse_scene_def)
qed

definition demo_edited :: "capture list list" where
  "demo_edited =
    [[(0, ''gd_scene''), (1, ''format''), (2, ''3''), (1, ''uid''), (2, quoted ''uid://a'')],
     [(0, ''node''), (1, ''name''), (2, quoted ''Main''), (1, ''type''), (2, quoted ''Node2D'')],
     [(0, ''node''), (1, ''name''), (2, quoted ''Sprite''), (1, ''parent''), (2, quoted ''Enemy/Body''),
        (1, ''unique_id''), (2, ''5'')]]"

theorem parse_scene_diverges_witness: "parse_scene [7] (Some demo_edited) = Inl Diverges"
proof -
  define ps where "ps = the (get_ok
    (fold_res (\<lambda>m. handle_section (read_section m)) demo_edited parse_state_init))"
  define st where "st = the (get_ok (fold_res place_node [ps_node_arr ps ! 0] (link_state_init ps [7])))"
  define n where "n = fst (ps_node_arr ps ! 1)"
  note defs = n_def st_def ps_def
  have ps: "fold_res (\<lambda>m. handle_section (read_section m)) demo_edited parse_state_init = Inr ps"
    unfolding defs by code_simp
  have arr: "ps_node_arr ps = [ps_node_arr ps ! 0] @ (n, Some ''Enemy/Body'') # []"
    unfolding defs by code_simp
  have st: "fold_res place_node [ps_node_arr ps ! 0] (link_state_init ps [7]) = Inr st"
    unfolding defs by code_simp
  have n: "gn_type_or_instance n = None" "gn_parent_path_fallback n = Some ''Enemy/Body''"
    "gn_parent_id_path n = None" "hm_get (ls_by_path st) ''Enemy/Body'' = None"
    "gn_id n \<noteq> unique_scene_id_unassigned"
    unfolding defs by code_simp+
  show ?thesis
    by (rule parse_scene_diverges [OF ps arr st n(1,2,3) _ _ n(4,5)]) simp_all
qed

text \<open>The text of a node identifier with no negative number parses back to it.\<close>

theorem node_id_roundtrip:
  assumes "node_id_plain i"
  shows "node_id_from_str (node_id_show i) = Inr i"
  using assms by (rule node_id_from_str_show)

theorem node_id_roundtrip_witness:
  "node_id_from_str (node_id_show (mk_node_id 12 (Some [3, 2147483647]))) =
     Inr (mk_node_id 12 (Some [3, 2147483647]))"
  by (rule node_id_roundtrip) code_simp

text \<open>A node identifier with a negative number (Godot's own identifiers are 32-bit signed) has a
  text that is refused when it is read back.\<close>

theorem node_id_negative:
  assumes "nid_id i < 0"
  shows "\<exists>e. node_id_from_str (node_id_show i) = Inl e"
  using assms by (rule node_id_from_str_negative)

theorem node_id_negative_witness: "\<exists>e. node_id_from_str (node_id_show (mk_node_id (-5) None)) = Inl e"
  by (rule node_id_negative) simp

text \<open>Packed integer arrays survive serializing and parsing, unless they are empty.\<close>

theorem int32_array_roundtrip:
  assumes "\<forall>i\<in>set xs. i32_ok i"
  shows "parse_int32_array (serialize_int32_array xs) = Inr (if xs = [] then [0] else xs)"
  using assms
  by (cases "xs = []") (simp_all add: parse_serialize_int32_array parse_serialize_int32_array_Nil)

theorem int32_array_roundtrip_witness:
  "parse_int32_array (serialize_int32_array [1, -2, 2147483647]) = Inr [1, -2, 2147483647]"
  by (rule trans [OF int32_array_roundtrip]) (simp_all add: i32_ok_def)

end
