(* ===== verification/Main_Thread.thy ===== *)
theory Main_Thread imports Prelude begin

text \<open>
  \<open>project/main_thread_block.rs\<close>: the lock that lets worker tasks run only while the main thread is
  inside \<open>checkpoint\<close>, as a transition system. A state holds the two semaphores' permits, the
  registration counter, where the main thread is, and how many workers wait for a permit or hold a
  guard. One step is one atomic operation of the code. A worker whose \<open>wait\<close> is dropped before it got
  its permit (the driver does so when it is cancelled) leaves by the step \<open>cancel\<close>. The safety
  invariant holds for all runs; that a checkpoint returns holds for the runs without \<open>cancel\<close>
  (\<open>calm_step\<close>), and the last property shows what \<open>cancel\<close> does to the main thread.
\<close>

datatype main_state =
    Outside          \<comment> \<open>not in \<open>checkpoint\<close>\<close>
  | Swapped nat      \<comment> \<open>has taken the registrations\<close>
  | Acquiring nat    \<comment> \<open>has opened the gate, waits on \<open>done\<close>\<close>

record block_state =
  start_permits :: nat
  done_permits :: nat
  registered :: nat
  waiting :: nat      \<comment> \<open>workers in \<open>start.acquire_owned\<close>\<close>
  running :: nat      \<comment> \<open>live guards\<close>
  main_thread :: main_state

definition block_new :: block_state where
  "block_new = \<lparr>start_permits = 0, done_permits = 0, registered = 0, waiting = 0, running = 0,
     main_thread = Outside\<rparr>"

text \<open>\<open>wait\<close>, up to the permit, and with it.\<close>

definition wait_register :: "block_state \<Rightarrow> block_state" where
  "wait_register st = st\<lparr>registered := registered st + 1, waiting := waiting st + 1\<rparr>"

definition wait_acquire :: "block_state \<Rightarrow> block_state option" where
  "wait_acquire st =
     (if waiting st > 0 \<and> start_permits st > 0
      then Some (st\<lparr>start_permits := start_permits st - 1, waiting := waiting st - 1,
                    running := running st + 1\<rparr>)
      else None)"

text \<open>Dropping a guard forgets its permit and frees the main thread by one.\<close>

definition guard_drop :: "block_state \<Rightarrow> block_state option" where
  "guard_drop st =
     (if running st > 0
      then Some (st\<lparr>running := running st - 1, done_permits := done_permits st + 1\<rparr>)
      else None)"

text \<open>\<open>checkpoint\<close>: the swap, the opened gate, and the end of the wait.\<close>

definition checkpoint_swap :: "block_state \<Rightarrow> block_state option" where
  "checkpoint_swap st =
     (if main_thread st = Outside
      then Some (st\<lparr>registered := 0, main_thread := Swapped (registered st)\<rparr>)
      else None)"

definition checkpoint_open :: "block_state \<Rightarrow> block_state option" where
  "checkpoint_open st =
     (case main_thread st of
        Swapped n \<Rightarrow> Some (st\<lparr>start_permits := start_permits st + n, main_thread := Acquiring n\<rparr>)
      | _ \<Rightarrow> None)"

definition checkpoint_return :: "block_state \<Rightarrow> block_state option" where
  "checkpoint_return st =
     (case main_thread st of
        Acquiring n \<Rightarrow>
          if done_permits st \<ge> n
          then Some (st\<lparr>done_permits := done_permits st - n, main_thread := Outside\<rparr>)
          else None
      | _ \<Rightarrow> None)"

inductive worker_step :: "block_state \<Rightarrow> block_state \<Rightarrow> bool" where
  acquire: "wait_acquire st = Some st' \<Longrightarrow> worker_step st st'"
| drop: "guard_drop st = Some st' \<Longrightarrow> worker_step st st'"

inductive calm_step :: "block_state \<Rightarrow> block_state \<Rightarrow> bool" where
  register: "calm_step st (wait_register st)"
| worker: "worker_step st st' \<Longrightarrow> calm_step st st'"
| swap: "checkpoint_swap st = Some st' \<Longrightarrow> calm_step st st'"
| open_gate: "checkpoint_open st = Some st' \<Longrightarrow> calm_step st st'"
| return: "checkpoint_return st = Some st' \<Longrightarrow> calm_step st st'"

text \<open>A \<open>wait\<close> that is dropped while it waits: its registration stays.\<close>

definition wait_cancel :: "block_state \<Rightarrow> block_state option" where
  "wait_cancel st = (if waiting st > 0 then Some (st\<lparr>waiting := waiting st - 1\<rparr>) else None)"

inductive block_step :: "block_state \<Rightarrow> block_state \<Rightarrow> bool" where
  calm: "calm_step st st' \<Longrightarrow> block_step st st'"
| cancel: "wait_cancel st = Some st' \<Longrightarrow> block_step st st'"

inductive_cases worker_step_E: "worker_step st st'"
inductive_cases calm_step_E: "calm_step st st'"
inductive_cases block_step_E: "block_step st st'"

lemmas block_ops = wait_register_def wait_acquire_def guard_drop_def checkpoint_swap_def
  checkpoint_open_def checkpoint_return_def wait_cancel_def

section \<open>Invariants\<close>

definition block_inv :: "block_state \<Rightarrow> bool" where
  "block_inv st \<longleftrightarrow>
     (case main_thread st of
        Outside \<Rightarrow> start_permits st = 0 \<and> running st = 0 \<and> done_permits st = 0 \<and>
          waiting st \<le> registered st
      | Swapped n \<Rightarrow> start_permits st = 0 \<and> running st = 0 \<and> done_permits st = 0 \<and>
          waiting st \<le> registered st + n
      | Acquiring n \<Rightarrow> start_permits st + running st + done_permits st = n \<and>
          waiting st \<le> registered st + start_permits st)"

definition opened :: "main_state \<Rightarrow> nat" where
  "opened m = (case m of Swapped n \<Rightarrow> n | _ \<Rightarrow> 0)"

text \<open>Without \<open>cancel\<close>, every registration and every permit of the gate belongs to a waiting worker.\<close>

definition calm_inv :: "block_state \<Rightarrow> bool" where
  "calm_inv st \<longleftrightarrow> block_inv st \<and>
     waiting st = registered st + start_permits st + opened (main_thread st)"

lemma calm_step_inv: "block_inv st \<Longrightarrow> calm_step st st' \<Longrightarrow> block_inv st'"
  by (erule calm_step_E, erule_tac [2] worker_step_E)
    (auto simp: block_ops block_inv_def split: if_splits main_state.splits)

lemma block_step_inv: "block_inv st \<Longrightarrow> block_step st st' \<Longrightarrow> block_inv st'"
  by (erule block_step_E)
    (auto simp: calm_step_inv, auto simp: block_ops block_inv_def split: if_splits main_state.splits)

lemma calm_inv_step: "calm_inv st \<Longrightarrow> calm_step st st' \<Longrightarrow> calm_inv st'"
  by (erule calm_step_E, erule_tac [2] worker_step_E)
    (auto simp: block_ops calm_inv_def block_inv_def opened_def split: if_splits main_state.splits)

interpretation main_block: step_system "\<lambda>st. st = block_new" block_step block_inv
  by unfold_locales (simp add: block_inv_def block_new_def, rule block_step_inv)

interpretation calm_block: step_system "\<lambda>st. st = block_new" calm_step calm_inv
  by unfold_locales (simp add: calm_inv_def block_inv_def block_new_def opened_def, rule calm_inv_step)

section \<open>Progress\<close>

definition block_work :: "block_state \<Rightarrow> nat" where
  "block_work st = 2 * start_permits st + running st"

lemma worker_step_work: "worker_step st st' \<Longrightarrow> block_work st' < block_work st"
  by (erule worker_step_E) (auto simp: block_ops block_work_def split: if_splits)

lemma worker_step_main: "worker_step st st' \<Longrightarrow> main_thread st' = main_thread st"
  by (erule worker_step_E) (auto simp: block_ops split: if_splits)

text \<open>While the main thread waits, it can return or a worker can go on.\<close>

lemma acquiring_progress:
  assumes "calm_inv st" and "main_thread st = Acquiring n"
  shows "(\<exists>st'. checkpoint_return st = Some st') \<or> (\<exists>st'. worker_step st st')"
proof (cases "start_permits st > 0")
  case True
  then have "waiting st > 0" using assms by (simp add: calm_inv_def opened_def)
  with True have "\<exists>st'. wait_acquire st = Some st'" by (simp add: block_ops)
  then show ?thesis by (blast intro: worker_step.acquire)
next
  case no_start: False
  show ?thesis
  proof (cases "running st > 0")
    case True
    then have "\<exists>st'. guard_drop st = Some st'" by (simp add: block_ops)
    then show ?thesis by (blast intro: worker_step.drop)
  next
    case False
    with no_start assms have "\<exists>st'. checkpoint_return st = Some st'"
      by (simp add: block_ops calm_inv_def block_inv_def)
    then show ?thesis ..
  qed
qed

lemma acquiring_returns:
  assumes "calm_inv st" and "main_thread st = Acquiring n"
  shows "\<exists>st' st''. worker_step\<^sup>*\<^sup>* st st' \<and> checkpoint_return st' = Some st''"
  using assms
proof (induction "block_work st" arbitrary: st rule: less_induct)
  case less
  from acquiring_progress [OF less.prems] show ?case
  proof
    assume "\<exists>st'. checkpoint_return st = Some st'"
    then show ?thesis by blast
  next
    assume "\<exists>st'. worker_step st st'"
    then obtain st' where st': "worker_step st st'" by blast
    from less.hyps [OF worker_step_work [OF st'] calm_inv_step [OF less.prems(1) calm_step.worker [OF st']]]
      worker_step_main [OF st'] less.prems(2)
    obtain u v where "worker_step\<^sup>*\<^sup>* st' u" "checkpoint_return u = Some v" by auto
    with st' show ?thesis by (meson converse_rtranclp_into_rtranclp)
  qed
qed

lemma calm_registered_reachable: "reachable (\<lambda>st. st = block_new) calm_step (wait_register block_new)"
proof (rule reachable_step)
  show "reachable (\<lambda>st. st = block_new) calm_step block_new" by (rule reachable_init) (rule refl)
qed (rule calm_step.register)

lemma block_registered_reachable: "reachable (\<lambda>st. st = block_new) block_step (wait_register block_new)"
proof (rule reachable_step)
  show "reachable (\<lambda>st. st = block_new) block_step block_new" by (rule reachable_init) (rule refl)
qed (rule block_step.calm, rule calm_step.register)

section \<open>Properties\<close>

text \<open>C23: worker tasks hold a guard only while the main thread waits inside \<open>checkpoint\<close>: outside of
  it no guard is alive and no permit of either semaphore is left over, so no worker can start
  before the next checkpoint, also when waits were dropped.\<close>

theorem workers_only_in_checkpoint:
  assumes "reachable (\<lambda>st. st = block_new) block_step st" and "\<forall>n. main_thread st \<noteq> Acquiring n"
  shows "running st = 0 \<and> start_permits st = 0 \<and> done_permits st = 0 \<and> wait_acquire st = None"
  using main_block.inv_reachable [OF assms(1)] assms(2)
  by (auto simp: block_inv_def block_ops split: main_state.splits)

theorem workers_only_in_checkpoint_witness:
  "running (wait_register block_new) = 0 \<and> wait_acquire (wait_register block_new) = None"
  using workers_only_in_checkpoint [OF block_registered_reachable]
  by (simp add: block_new_def wait_register_def)

text \<open>A checkpoint returns when no \<open>wait\<close> is dropped: from every reachable state in which the main
  thread waits, worker steps lead to a state in which it can return, it can return or a worker step
  is possible in each of them, and worker steps cannot go on forever.\<close>

theorem checkpoint_returns:
  assumes "reachable (\<lambda>st. st = block_new) calm_step st" and "main_thread st = Acquiring n"
  shows "(\<exists>st' st''. worker_step\<^sup>*\<^sup>* st st' \<and> checkpoint_return st' = Some st'') \<and>
    ((\<exists>st'. checkpoint_return st = Some st') \<or> (\<exists>st'. worker_step st st')) \<and>
    wfP (\<lambda>st' st. worker_step st st')"
proof -
  have "wfP (\<lambda>st' st. worker_step st st')"
    by (rule wfp_if_convertible_to_nat [where f = block_work]) (rule worker_step_work)
  with calm_block.inv_reachable [OF assms(1)] assms(2) show ?thesis
    using acquiring_returns acquiring_progress by blast
qed

definition demo_block :: block_state where
  "demo_block = (wait_register block_new)\<lparr>start_permits := 1, registered := 0,
     main_thread := Acquiring 1\<rparr>"

theorem checkpoint_returns_witness:
  "\<exists>st' st''. worker_step\<^sup>*\<^sup>* demo_block st' \<and> checkpoint_return st' = Some st''"
proof -
  define st2 where "st2 = (wait_register block_new)\<lparr>registered := 0, main_thread := Swapped 1\<rparr>"
  have "calm_step (wait_register block_new) st2"
    by (rule calm_step.swap) (simp add: st2_def block_ops block_new_def)
  moreover have "calm_step st2 demo_block"
    by (rule calm_step.open_gate) (simp add: demo_block_def st2_def block_ops block_new_def)
  ultimately have "reachable (\<lambda>st. st = block_new) calm_step demo_block"
    using calm_registered_reachable reachable_step by metis
  from checkpoint_returns [OF this] show ?thesis by (simp add: demo_block_def)
qed

text \<open>A \<open>wait\<close> dropped after its registration blocks the main thread for good: when it was the only
  one, the next checkpoint waits for a guard that nobody holds, and no step of the main thread or
  of a worker is possible until some new worker comes along.\<close>

theorem cancelled_wait_blocks:
  assumes "reachable (\<lambda>st. st = block_new) block_step st" and "main_thread st = Outside"
    and "registered st = 1" and "wait_cancel st = Some st1"
    and "checkpoint_swap st1 = Some st2" and "checkpoint_open st2 = Some st3"
  shows "checkpoint_swap st3 = None \<and> checkpoint_open st3 = None \<and> checkpoint_return st3 = None \<and>
    wait_acquire st3 = None \<and> guard_drop st3 = None"
  using main_block.inv_reachable [OF assms(1)] assms(2-)
  by (auto simp: block_inv_def block_ops split: if_splits)

theorem cancelled_wait_blocks_witness:
  "checkpoint_return \<lparr>start_permits = 1, done_permits = 0, registered = 0, waiting = 0, running = 0,
     main_thread = Acquiring 1\<rparr> = None"
  using cancelled_wait_blocks [OF block_registered_reachable]
  by (simp add: block_ops block_new_def)

end
