(* ===== verification/Commit_Info.thy ===== *)
theory Commit_Info imports History_Ref begin

text \<open>
  The commit data of \<open>helpers/utils.rs\<close>: change types, commit metadata and info records, and the
  one-line summary of a commit's files. \<open>Path::file_name\<close> is that of Unix paths.
\<close>

datatype change_type = Created | Deleted | Modified

fun change_type_show :: "change_type \<Rightarrow> string" where
  "change_type_show Created = ''created''"
| "change_type_show Deleted = ''deleted''"
| "change_type_show Modified = ''modified''"

record changed_file =
  cf_change_type :: change_type
  cf_path :: string

record ('d, 'h) merge_metadata =
  mm_merged_branch_id :: 'd
  mm_forked_at_heads :: "'h list"

record ('d, 'h) commit_metadata =
  cm_username :: "string option"
  cm_branch_id :: "'d option"
  cm_merge_metadata :: "('d, 'h) merge_metadata option"
  cm_reverted_to :: "'h list option"
  cm_changed_files :: "changed_file list option"
  cm_is_setup :: "bool option"

record ('d, 'h) commit_info =
  ci_hash :: 'h
  ci_timestamp :: int
  ci_metadata :: "('d, 'h) commit_metadata option"
  ci_synced :: bool
  ci_summary :: string

definition parse_automerge_url :: "('d, 'h) id_io \<Rightarrow> string \<Rightarrow> 'd option" where
  "parse_automerge_url io url =
     (if \<not> starts_with url ''automerge:'' then None else parse_doc io (drop 10 url))"

section \<open>Summaries\<close>

text \<open>The last component of a path, without \<open>.\<close> components and trailing slashes.\<close>

definition path_file_name :: "string \<Rightarrow> string option" where
  "path_file_name p =
     (let cs = filter (\<lambda>c. c \<noteq> [] \<and> c \<noteq> ''.'') (split_on (CHR ''/'') p)
      in if cs = [] \<or> last cs = ''..'' then None else Some (last cs))"

definition get_summary_text :: "changed_file list \<Rightarrow> change_type \<Rightarrow> string option \<Rightarrow> string" where
  "get_summary_text changes operation display_operation =
     (let display = (case display_operation of
            Some d \<Rightarrow> d
          | None \<Rightarrow> (case operation of
              Created \<Rightarrow> ''added'' | Deleted \<Rightarrow> ''removed'' | Modified \<Rightarrow> ''modified''));
          filtered = filter (\<lambda>c. cf_change_type c = operation) changes
      in case filtered of
           [] \<Rightarrow> []
         | [c] \<Rightarrow> display @ '' '' @
             (case path_file_name (cf_path c) of Some f \<Rightarrow> f | None \<Rightarrow> cf_path c)
         | _ \<Rightarrow> display @ '' '' @ show_nat (length filtered) @ '' files'')"

definition summarize_changes :: "string \<Rightarrow> changed_file list \<Rightarrow> string" where
  "summarize_changes author changes =
     (let added = get_summary_text changes Created None;
          removed = get_summary_text changes Deleted None;
          modified = get_summary_text changes Modified (Some ''edited'');
          strings = filter (\<lambda>s. s \<noteq> []) [added, removed, modified]
      in case strings of
           [a, b] \<Rightarrow> author @ '' '' @ a @ '' and '' @ b
         | [a] \<Rightarrow> author @ '' '' @ a
         | _ \<Rightarrow> author @ '' made some changes'')"

lemma get_summary_text_empty_iff:
  "get_summary_text changes operation d = [] \<longleftrightarrow> (\<forall>c\<in>set changes. cf_change_type c \<noteq> operation)"
proof (cases "filter (\<lambda>c. cf_change_type c = operation) changes")
  case Nil
  then show ?thesis by (auto simp: get_summary_text_def filter_empty_conv)
next
  case (Cons c cs)
  then have "get_summary_text changes operation d \<noteq> []"
    by (cases cs) (simp_all add: get_summary_text_def Let_def)
  moreover have "c \<in> set (filter (\<lambda>c. cf_change_type c = operation) changes)"
    unfolding Cons by simp
  ultimately show ?thesis by auto
qed

text \<open>The summary names the kinds of change that occur, unless none or all three do.\<close>

lemma summarize_changes_kinds:
  "summarize_changes author changes =
     (let kinds = filter (\<lambda>(k, d). \<exists>c\<in>set changes. cf_change_type c = k)
            [(Created, None), (Deleted, None), (Modified, Some ''edited'')];
          texts = map (\<lambda>(k, d). get_summary_text changes k d) kinds
      in if length texts = 1 \<or> length texts = 2
         then author @ '' '' @ str_join '' and '' texts
         else author @ '' made some changes'')"
proof -
  have ne: "get_summary_text changes k d \<noteq> [] \<longleftrightarrow> (\<exists>c\<in>set changes. cf_change_type c = k)" for k d
    using get_summary_text_empty_iff by blast
  show ?thesis
    by (cases "\<exists>c\<in>set changes. cf_change_type c = Created";
        cases "\<exists>c\<in>set changes. cf_change_type c = Deleted";
        cases "\<exists>c\<in>set changes. cf_change_type c = Modified")
      (simp_all only: summarize_changes_def Let_def filter.simps ne split if_True if_False
        list.case list.map list.size str_join.simps, simp_all)
qed

end
