(* ===== verification/Change_Ingester.thy ===== *)
theory Change_Ingester imports Commit_Info begin

text \<open>
  \<open>project/peer_watcher.rs\<close> (what the server has acknowledged) and \<open>project/change_ingester.rs\<close> (the list
  of commits shown for the checked-out branch). The documents' changes, the parser of commit
  messages and the names of branches come from automerge, serde and the branch database and are
  arguments. Times are nanoseconds.
\<close>

section \<open>What the server has acknowledged\<close>

text \<open>The fields of samod's \<open>ConnectionInfo\<close> that the code reads; \<open>'s\<close> and \<open>'c\<close> stand for the others.\<close>

record ('h, 's) peer_doc_state =
  last_acked_heads :: "'h list option"
  pd_other :: 's

record ('d, 'h, 's, 'c) connection_info =
  ci_last_received :: "nat option"
  ci_last_sent :: "nat option"
  ci_docs :: "('d, ('h, 's) peer_doc_state) hmap"
  ci_other :: 'c

definition beheaded :: "('h, 's) peer_doc_state option \<Rightarrow> ('h, 's) peer_doc_state \<Rightarrow> bool" where
  "beheaded old_doc_state new_doc_state \<longleftrightarrow>
     (case old_doc_state of
        None \<Rightarrow> False
      | Some old \<Rightarrow>
          (case last_acked_heads new_doc_state of None \<Rightarrow> False | Some h \<Rightarrow> h = []) \<and>
          (case last_acked_heads old of None \<Rightarrow> False | Some h \<Rightarrow> h \<noteq> []))"

definition update_server_info ::
  "('d, 'h, 's, 'c) connection_info option \<Rightarrow> ('d, 'h, 's, 'c) connection_info option \<Rightarrow>
   ('d, 'h, 's, 'c) connection_info option" where
  "update_server_info old_info new_info =
     (case new_info of
        None \<Rightarrow> None
      | Some new_info \<Rightarrow>
          (case old_info of
             None \<Rightarrow> Some new_info
           | Some info \<Rightarrow>
               Some (info\<lparr>ci_last_received := ci_last_received new_info,
                 ci_last_sent := ci_last_sent new_info,
                 ci_docs := fold (\<lambda>(doc_id, new_doc_state) docs.
                   if beheaded (hm_get docs doc_id) new_doc_state then docs
                   else hm_insert doc_id new_doc_state docs) (ci_docs new_info) (ci_docs info)\<rparr>)))"

text \<open>One message of the peer stream: \<open>send_if_modified\<close> with its notification flag.\<close>

definition watch_peers ::
  "('d, 'h, 's, 'c) connection_info list \<Rightarrow> ('d, 'h, 's, 'c) connection_info option \<Rightarrow>
   bool \<times> ('d, 'h, 's, 'c) connection_info option" where
  "watch_peers peers old_info =
     (let new_info = update_server_info old_info (case peers of [] \<Rightarrow> None | p # _ \<Rightarrow> Some p)
      in (new_info \<noteq> old_info, new_info))"

lemma update_docs_get:
  assumes "hm_wf news"
  shows "hm_get (fold (\<lambda>(doc_id, new_doc_state) docs.
      if beheaded (hm_get docs doc_id) new_doc_state then docs
      else hm_insert doc_id new_doc_state docs) news olds) d =
    (case hm_get news d of
       None \<Rightarrow> hm_get olds d
     | Some s \<Rightarrow> if beheaded (hm_get olds d) s then hm_get olds d else Some s)"
  using assms
proof (induction news arbitrary: olds)
  case (Cons ks news)
  obtain k s where ks: "ks = (k, s)" by (cases ks)
  with Cons.prems have k: "hm_get news k = None" and wf: "hm_wf news"
    by (auto simp: hm_wf_def map_of_eq_None_iff)
  show ?case
    using k by (simp add: ks Cons.IH [OF wf] hm_get_insert split: option.splits)
qed simp

section \<open>The commit list\<close>

record 'h change_meta =
  ch_hash :: 'h
  ch_timestamp :: int
  ch_message :: "string option"

definition merge_changes :: "'h change_meta list \<Rightarrow> 'h change_meta list \<Rightarrow> 'h change_meta list" where
  "merge_changes shadow canonical =
     shadow @ filter (\<lambda>c. ch_hash c \<notin> ch_hash ` set shadow) canonical"

definition commit_info_of ::
  "(string \<Rightarrow> ('d, 'h) commit_metadata option) \<Rightarrow> 'h change_meta \<Rightarrow> ('d, 'h) commit_info" where
  "commit_info_of parse_meta c =
     \<lparr>ci_hash = ch_hash c, ci_timestamp = ch_timestamp c,
      ci_metadata = Option.bind (ch_message c) parse_meta, ci_synced = False, ci_summary = []\<rparr>"

fun synced_until :: "'h list option \<Rightarrow> int \<Rightarrow> ('d, 'h) commit_info list \<Rightarrow> int \<Rightarrow> int" where
  "synced_until acked i [] until_index = until_index"
| "synced_until acked i (c # cs) until_index =
     synced_until acked (i + 1) cs
       (case acked of None \<Rightarrow> until_index | Some f \<Rightarrow> if ci_hash c \<in> set f then i else until_index)"

definition merge_arrow :: string where
  "merge_arrow = [CHR 0xE2, CHR 0x86, CHR 0xAA]"

definition revert_arrow :: string where
  "revert_arrow = [CHR 0xE2, CHR 0x86, CHR 0xA9]"

definition get_change_summary ::
  "('d, 'h) id_io \<Rightarrow> ('d \<Rightarrow> string option) \<Rightarrow> ('d, 'h) commit_info \<Rightarrow> (unit, string option) outcome" where
  "get_change_summary io branch_name change =
     (case ci_metadata change of
        None \<Rightarrow> Inr None
      | Some meta \<Rightarrow>
          let author = (case cm_username meta of None \<Rightarrow> ''Anonymous'' | Some u \<Rightarrow> u)
          in case cm_merge_metadata meta of
               Some merge_info \<Rightarrow>
                 let i = mm_merged_branch_id merge_info;
                     merged_branch = (case branch_name i of None \<Rightarrow> show_doc io i | Some n \<Rightarrow> n)
                 in Inr (Some (merge_arrow @ '' '' @ author @ '' merged '' @ merged_branch))
             | None \<Rightarrow>
                 (case cm_reverted_to meta of
                    Some revert_info \<Rightarrow>
                      rbind (collect_res (\<lambda>h. slice (show_hash io h) 0 7) revert_info) (\<lambda>heads.
                      Inr (Some (revert_arrow @ '' '' @ author @ '' reverted to '' @ str_join '', '' heads)))
                  | None \<Rightarrow>
                      if cm_is_setup meta = Some True
                      then Inr (Some (case cm_changed_files meta of
                             None \<Rightarrow> ''Initialized repository''
                           | Some files \<Rightarrow> ''Checked-in '' @ show_nat (length files) @ '' files''))
                      else Inr (map_option (summarize_changes author) (cm_changed_files meta))))"

text \<open>
  The list for the checked-out branch, from the acknowledged heads, the shadow document's changes
  and the canonical document's. What the code calls intersecting hashes is the symmetric
  difference.
\<close>

definition get_changes ::
  "('d, 'h) id_io \<Rightarrow> ('d \<Rightarrow> string option) \<Rightarrow> (string \<Rightarrow> ('d, 'h) commit_metadata option) \<Rightarrow>
   ('d, 'h) history_ref option \<Rightarrow> ('d, 'h, 's, 'c) connection_info option \<Rightarrow>
   'h change_meta list option \<Rightarrow> 'h change_meta list option \<Rightarrow>
   (unit, ('d, 'h) commit_info list) outcome" where
  "get_changes io branch_name parse_meta checked_out server_info shadow canonical =
     (case checked_out of
        None \<Rightarrow> Inr []
      | Some checked_out \<Rightarrow>
          let acked = Option.bind (Option.bind server_info (\<lambda>info. hm_get (ci_docs info) (hr_branch checked_out)))
                        last_acked_heads;
              shadow = (case shadow of None \<Rightarrow> [] | Some cs \<Rightarrow> cs);
              canonical = (case canonical of None \<Rightarrow> [] | Some cs \<Rightarrow> cs);
              shadow_hashes = ch_hash ` set shadow;
              canon_hashes = ch_hash ` set canonical;
              intersecting_hashes = (shadow_hashes - canon_hashes) \<union> (canon_hashes - shadow_hashes);
              changes = map (commit_info_of parse_meta) (merge_changes shadow canonical);
              synced_until_index = synced_until acked 0 changes (-1)
          in collect_res (\<lambda>(i, change).
               rbind (get_change_summary io branch_name change) (\<lambda>summary.
               Inr (change\<lparr>
                 ci_synced := int i \<le> synced_until_index \<and> ci_hash change \<notin> intersecting_hashes,
                 ci_summary := (case summary of None \<Rightarrow> ''Invalid data'' | Some s \<Rightarrow> s)\<rparr>)))
               (filter (\<lambda>(i, change).
                  case ci_metadata change of
                    None \<Rightarrow> False
                  | Some m \<Rightarrow> cm_branch_id m = Some (hr_branch checked_out))
                (enumerate 0 changes)))"

section \<open>Debouncing\<close>

record ingest_state =
  ing_time :: nat   \<comment> \<open>\<open>last_ingest.0\<close>\<close>
  ing_count :: nat  \<comment> \<open>\<open>last_ingest.1\<close>\<close>

definition max_requests :: nat where "max_requests = 3"
definition debounce_ms :: nat where "debounce_ms = 100"
definition ns_per_ms :: nat where "ns_per_ms = 1000000"

text \<open>
  One run of \<open>ingest_changes\<close> at a time: how many milliseconds it sleeps before it reads the changes,
  and the state after it. A clock that went back counts as no time.
\<close>

definition ingest_request :: "nat \<Rightarrow> ingest_state \<Rightarrow> nat \<times> ingest_state" where
  "ingest_request now st =
     (let last_diff = (now - ing_time st) div ns_per_ms
      in if last_diff < debounce_ms
         then ((if ing_count st \<ge> max_requests then debounce_ms - last_diff else 0),
               st\<lparr>ing_count := ing_count st + 1\<rparr>)
         else (0, \<lparr>ing_time = now, ing_count = 1\<rparr>))"

definition send_changes :: "('d, 'h) commit_info list \<Rightarrow> ('d, 'h) commit_info list \<Rightarrow>
    bool \<times> ('d, 'h) commit_info list" where
  "send_changes new_changes old_changes =
     (if old_changes = new_changes then (False, old_changes) else (True, new_changes))"

text \<open>A sequence of runs, the mutex serializing them: each starts when the one before has slept.\<close>

inductive ingest_runs :: "ingest_state \<Rightarrow> nat \<Rightarrow> bool" where
  start: "ingest_runs \<lparr>ing_time = 0, ing_count = 0\<rparr> 0"
| run: "ingest_runs st t \<Longrightarrow> t \<le> now \<Longrightarrow> ingest_request now st = (ms, st') \<Longrightarrow>
     ingest_runs st' (now + ms * ns_per_ms)"

lemma ingest_runs_inv:
  "ingest_runs st t \<Longrightarrow> ing_time st \<le> t \<and> ing_count st \<le> max_requests + 1 \<and>
     (ing_count st > max_requests \<longrightarrow> ing_time st + debounce_ms * ns_per_ms \<le> t)"
proof (induction rule: ingest_runs.induct)
  case (run st t now ms st')
  define last_diff where "last_diff = (now - ing_time st) div ns_per_ms"
  have pos: "ns_per_ms > 0" by (simp add: ns_per_ms_def)
  show ?case
  proof (cases "last_diff < debounce_ms")
    case True
    then have st': "ms = (if ing_count st \<ge> max_requests then debounce_ms - last_diff else 0)"
      "st' = st\<lparr>ing_count := ing_count st + 1\<rparr>"
      using run.hyps(3) by (auto simp: ingest_request_def Let_def last_diff_def [symmetric])
    have "ing_count st \<le> max_requests"
    proof (rule ccontr)
      assume "\<not> ing_count st \<le> max_requests"
      then have "ing_time st + debounce_ms * ns_per_ms \<le> now" using run by simp
      then have "debounce_ms * ns_per_ms \<le> now - ing_time st" by linarith
      then have "debounce_ms \<le> last_diff"
        unfolding last_diff_def by (metis div_le_mono nonzero_mult_div_cancel_right pos neq0_conv)
      with True show False by simp
    qed
    moreover have "ing_time st + debounce_ms * ns_per_ms \<le> now + (debounce_ms - last_diff) * ns_per_ms"
    proof -
      have "last_diff * ns_per_ms \<le> now - ing_time st"
        unfolding last_diff_def by (simp add: div_times_less_eq_dividend)
      moreover have "debounce_ms * ns_per_ms = last_diff * ns_per_ms + (debounce_ms - last_diff) * ns_per_ms"
        using True by (metis add_mult_distrib le_add_diff_inverse less_imp_le)
      moreover have "ing_time st \<le> now" using run by simp
      ultimately show ?thesis by linarith
    qed
    ultimately show ?thesis using run st' by auto
  next
    case False
    then have "ms = 0" "st' = \<lparr>ing_time = now, ing_count = 1\<rparr>"
      using run.hyps(3) by (auto simp: ingest_request_def Let_def last_diff_def [symmetric])
    then show ?thesis by (simp add: max_requests_def)
  qed
qed simp

section \<open>Properties\<close>

lemma synced_until_ge:
  assumes "u \<le> base"
  shows "i \<le> synced_until acked base cs u \<longleftrightarrow> i \<le> u \<or>
    (\<exists>j<length cs. i \<le> base + int j \<and> (\<exists>f. acked = Some f \<and> ci_hash (cs ! j) \<in> set f))"
  using assms
proof (induction cs arbitrary: base u)
  case (Cons c cs)
  define u' where "u' = (case acked of None \<Rightarrow> u | Some f \<Rightarrow> if ci_hash c \<in> set f then base else u)"
  have "u' \<le> base + 1" using Cons.prems by (auto simp: u'_def split: option.splits)
  note IH = Cons.IH [OF this]
  have "i \<le> u' \<longleftrightarrow> i \<le> u \<or> (i \<le> base \<and> (\<exists>f. acked = Some f \<and> ci_hash c \<in> set f))"
    using Cons.prems by (auto simp: u'_def split: option.splits)
  then show ?case
    by (simp add: IH u'_def [symmetric] Ex_less_Suc2 add.assoc)
qed simp

text \<open>The commit list holds the commits of the shadow document and then those only in the canonical
  document, in order, without the ones that carry no metadata for the checked-out branch; a
  commit counts as synced exactly if it is in both documents and the server has acknowledged it
  or a later commit of the merged list.\<close>

theorem get_changes_spec:
  assumes "get_changes io branch_name parse_meta (Some r) server_info (Some shadow) (Some canonical) = Inr infos"
    and "acked = Option.bind (Option.bind server_info (\<lambda>info. hm_get (ci_docs info) (hr_branch r))) last_acked_heads"
    and "merged = shadow @ filter (\<lambda>c. ch_hash c \<notin> ch_hash ` set shadow) canonical"
  shows "map (\<lambda>ci. (ci_hash ci, ci_timestamp ci, ci_metadata ci, ci_synced ci)) infos =
    map (\<lambda>(i, c). (ch_hash c, ch_timestamp c, Option.bind (ch_message c) parse_meta,
        ch_hash c \<in> ch_hash ` set shadow \<and> ch_hash c \<in> ch_hash ` set canonical \<and>
        (\<exists>j<length merged. i \<le> j \<and> (\<exists>f. acked = Some f \<and> ch_hash (merged ! j) \<in> set f))))
      (filter (\<lambda>(i, c). \<exists>m. Option.bind (ch_message c) parse_meta = Some m \<and>
          cm_branch_id m = Some (hr_branch r)) (enumerate 0 merged))"
proof -
  define shs where "shs = ch_hash ` set shadow"
  define chs where "chs = ch_hash ` set canonical"
  have merged: "merged = merge_changes shadow canonical" by (simp add: assms(3) merge_changes_def)
  define until where "until = synced_until acked 0 (map (commit_info_of parse_meta) merged) (-1)"
  have run: "collect_res (\<lambda>(i, change).
       rbind (get_change_summary io branch_name change) (\<lambda>summary.
       Inr (change\<lparr>ci_synced := int i \<le> until \<and> ci_hash change \<notin> (shs - chs) \<union> (chs - shs),
         ci_summary := (case summary of None \<Rightarrow> ''Invalid data'' | Some s \<Rightarrow> s)\<rparr>)))
     (filter (\<lambda>(i, change). case ci_metadata change of None \<Rightarrow> False
        | Some m \<Rightarrow> cm_branch_id m = Some (hr_branch r))
       (enumerate 0 (map (commit_info_of parse_meta) merged))) = Inr infos"
    using assms(1) unfolding get_changes_def assms(2) merged shs_def chs_def until_def
    by (simp add: Let_def)
  have synced: "int i \<le> until \<longleftrightarrow>
      (\<exists>j<length merged. i \<le> j \<and> (\<exists>f. acked = Some f \<and> ch_hash (merged ! j) \<in> set f))" for i
    unfolding until_def by (subst synced_until_ge) (auto simp: commit_info_of_def)
  have members: "ch_hash c \<in> shs \<union> chs" if "c \<in> set merged" for c
    using that by (auto simp: assms(3) shs_def chs_def)
  have enum: "enumerate 0 (map (commit_info_of parse_meta) merged) =
      map (\<lambda>(i, c). (i, commit_info_of parse_meta c)) (enumerate 0 merged)"
    by (simp add: enumerate_eq_zip zip_map2)
  have on_branch: "(case ci_metadata (commit_info_of parse_meta c) of None \<Rightarrow> False
      | Some m \<Rightarrow> cm_branch_id m = Some b) \<longleftrightarrow>
    (\<exists>m. Option.bind (ch_message c) parse_meta = Some m \<and> cm_branch_id m = Some b)" for c b
    by (simp add: commit_info_of_def split: option.splits)
  have "map (\<lambda>ci. (ci_hash ci, ci_timestamp ci, ci_metadata ci, ci_synced ci)) infos =
    map (\<lambda>(i, ci). (ci_hash ci, ci_timestamp ci, ci_metadata ci,
        ci_hash ci \<in> shs \<inter> chs \<and> int i \<le> until))
     (filter (\<lambda>(i, change). case ci_metadata change of None \<Rightarrow> False
        | Some m \<Rightarrow> cm_branch_id m = Some (hr_branch r))
       (enumerate 0 (map (commit_info_of parse_meta) merged)))"
  proof (rule collect_res_map_eq [OF run])
    fix x y
    assume "x \<in> set (filter (\<lambda>(i, change). case ci_metadata change of None \<Rightarrow> False
        | Some m \<Rightarrow> cm_branch_id m = Some (hr_branch r))
       (enumerate 0 (map (commit_info_of parse_meta) merged)))"
      and y: "(case x of (i, change) \<Rightarrow>
       rbind (get_change_summary io branch_name change) (\<lambda>summary.
       Inr (change\<lparr>ci_synced := int i \<le> until \<and> ci_hash change \<notin> (shs - chs) \<union> (chs - shs),
         ci_summary := (case summary of None \<Rightarrow> ''Invalid data'' | Some s \<Rightarrow> s)\<rparr>))) = Inr y"
    moreover obtain i c where x: "x = (i, commit_info_of parse_meta c)" "c \<in> set merged"
      using calculation(1) by (auto simp: enum in_set_enumerate_eq)
    ultimately show "(ci_hash y, ci_timestamp y, ci_metadata y, ci_synced y) =
      (case x of (i, ci) \<Rightarrow> (ci_hash ci, ci_timestamp ci, ci_metadata ci,
        ci_hash ci \<in> shs \<inter> chs \<and> int i \<le> until))"
      using members [OF x(2)] by (auto simp: rbind_eq_Inr_iff commit_info_of_def)
  qed
  also have "\<dots> = map (\<lambda>(i, c). (ch_hash c, ch_timestamp c, Option.bind (ch_message c) parse_meta,
        ch_hash c \<in> shs \<and> ch_hash c \<in> chs \<and> int i \<le> until))
      (filter (\<lambda>(i, c). \<exists>m. Option.bind (ch_message c) parse_meta = Some m \<and>
          cm_branch_id m = Some (hr_branch r)) (enumerate 0 merged))"
    by (simp add: enum filter_map comp_def case_prod_unfold on_branch) (simp add: commit_info_of_def)
  finally show ?thesis unfolding shs_def chs_def synced by (simp add: case_prod_unfold)
qed

definition demo_meta :: "bool option \<Rightarrow> (bool, bool) commit_metadata" where
  "demo_meta b = \<lparr>cm_username = Some ''ann'', cm_branch_id = b, cm_merge_metadata = None,
     cm_reverted_to = None, cm_changed_files = Some [], cm_is_setup = None\<rparr>"

definition demo_parse_meta :: "string \<Rightarrow> (bool, bool) commit_metadata option" where
  "demo_parse_meta s = (if s = ''m'' then Some (demo_meta (Some True)) else None)"

definition demo_shadow :: "bool change_meta list" where
  "demo_shadow = [\<lparr>ch_hash = False, ch_timestamp = 1, ch_message = Some ''m''\<rparr>,
     \<lparr>ch_hash = True, ch_timestamp = 2, ch_message = Some ''m''\<rparr>]"

definition demo_info :: "(bool, bool, unit, unit) connection_info" where
  "demo_info = \<lparr>ci_last_received = None, ci_last_sent = None,
     ci_docs = [(True, \<lparr>last_acked_heads = Some [False], pd_other = ()\<rparr>)], ci_other = ()\<rparr>"

theorem get_changes_spec_witness:
  "map ci_synced (the (get_ok (get_changes demo_io (\<lambda>_. None) demo_parse_meta
     (Some \<lparr>hr_branch = True, hr_heads = [True]\<rparr>) (Some demo_info) (Some demo_shadow) (Some demo_shadow)))) =
   [True, False]"
proof -
  define infos where "infos = the (get_ok (get_changes demo_io (\<lambda>_. None) demo_parse_meta
     (Some \<lparr>hr_branch = True, hr_heads = [True]\<rparr>) (Some demo_info) (Some demo_shadow) (Some demo_shadow)))"
  have "get_changes demo_io (\<lambda>_. None) demo_parse_meta (Some \<lparr>hr_branch = True, hr_heads = [True]\<rparr>)
      (Some demo_info) (Some demo_shadow) (Some demo_shadow) = Inr infos"
    unfolding infos_def by code_simp
  from get_changes_spec [OF this refl refl]
  have "map (\<lambda>ci. (ci_hash ci, ci_timestamp ci, ci_metadata ci, ci_synced ci)) infos =
    [(False, 1, Some (demo_meta (Some True)), True), (True, 2, Some (demo_meta (Some True)), False)]"
    by (simp add: demo_info_def demo_shadow_def demo_parse_meta_def demo_meta_def Ex_less_Suc2)
  then have "map (\<lambda>(_, _, _, b). b) (map (\<lambda>ci. (ci_hash ci, ci_timestamp ci, ci_metadata ci, ci_synced ci)) infos) =
    [True, False]" by simp
  then show ?thesis unfolding infos_def by (simp add: comp_def)
qed

text \<open>An update from the server takes over the new state of every document it names, except that a
  document with acknowledged heads never loses them to an empty list; documents it does not name
  keep their state.\<close>

theorem update_server_info_docs:
  assumes "hm_wf (ci_docs new)"
  shows "\<exists>info. update_server_info (Some old) (Some new) = Some info \<and>
    (\<forall>d. hm_get (ci_docs info) d =
       (case hm_get (ci_docs new) d of
          None \<Rightarrow> hm_get (ci_docs old) d
        | Some s \<Rightarrow> if beheaded (hm_get (ci_docs old) d) s then hm_get (ci_docs old) d else Some s)) \<and>
    (\<forall>d s h. hm_get (ci_docs old) d = Some s \<and> last_acked_heads s = Some h \<and> h \<noteq> [] \<longrightarrow>
       (\<exists>s'. hm_get (ci_docs info) d = Some s' \<and> last_acked_heads s' \<noteq> Some []))"
proof -
  obtain info where info: "update_server_info (Some old) (Some new) = Some info"
    by (simp add: update_server_info_def)
  then have get: "hm_get (ci_docs info) d =
      (case hm_get (ci_docs new) d of None \<Rightarrow> hm_get (ci_docs old) d
        | Some s \<Rightarrow> if beheaded (hm_get (ci_docs old) d) s then hm_get (ci_docs old) d else Some s)" for d
    by (auto simp: update_server_info_def update_docs_get [OF assms])
  have "\<exists>s'. hm_get (ci_docs info) d = Some s' \<and> last_acked_heads s' \<noteq> Some []"
    if "hm_get (ci_docs old) d = Some s" "last_acked_heads s = Some h" "h \<noteq> []" for d s h
    using that by (auto simp: get beheaded_def split: option.splits)
  with info get show ?thesis by blast
qed

theorem update_server_info_docs_witness:
  "\<exists>info. update_server_info (Some demo_info)
      (Some (demo_info\<lparr>ci_docs := [(True, \<lparr>last_acked_heads = Some [], pd_other = ()\<rparr>)]\<rparr>)) = Some info \<and>
    hm_get (ci_docs info) True = Some \<lparr>last_acked_heads = Some [False], pd_other = ()\<rparr>"
proof -
  have "hm_wf (ci_docs (demo_info\<lparr>ci_docs := [(True, \<lparr>last_acked_heads = Some [], pd_other = ()\<rparr>)]\<rparr>))"
    by (simp add: hm_wf_def)
  from update_server_info_docs [OF this, of demo_info] show ?thesis
    by (auto simp: beheaded_def demo_info_def)
qed

text \<open>However often the list is requested, at most four runs share one window of 100 ms, and when
  there are four the last one has waited for the window's end.\<close>

theorem ingest_rate_limited:
  assumes "ingest_runs st t"
  shows "ing_count st \<le> 4 \<and> ing_time st \<le> t \<and>
    (ing_count st = 4 \<longrightarrow> ing_time st + 100 * 1000000 \<le> t)"
  using ingest_runs_inv [OF assms] by (simp add: max_requests_def debounce_ms_def ns_per_ms_def)

theorem ingest_rate_limited_witness:
  "ing_count (snd (ingest_request 5 \<lparr>ing_time = 0, ing_count = 0\<rparr>)) \<le> 4"
proof -
  have r: "ingest_request 5 \<lparr>ing_time = 0, ing_count = 0\<rparr> = (0, \<lparr>ing_time = 0, ing_count = 1\<rparr>)"
    by (simp add: ingest_request_def ns_per_ms_def debounce_ms_def max_requests_def)
  from ingest_rate_limited [OF ingest_runs.run [OF ingest_runs.start _ r]] show ?thesis
    by (simp add: r)
qed

end
