(* ===== verification/File_Content.thy ===== *)
theory File_Content imports Godot_Parse Godot_Serialize begin

text \<open>
  \<open>fs/file_utils.rs\<close>: the content of a file as text, bytes or a scene, how it is recognised from bytes,
  its bytes and its hash. \<open>blake3\<close> is the argument \<open>hash\<close>; the tree-sitter grammar and the random
  numbers that \<open>parse_scene\<close> needs are the arguments \<open>grammar\<close> and \<open>draws\<close>. A disk is a map from paths to
  bytes; \<open>can_write\<close> says which paths the operating system lets us write.
\<close>

datatype file_content = CString string | CBinary string | CScene godot_scene

datatype file_system_event =
    FCreated string file_content
  | FModified string file_content
  | FDeleted string

definition as_bytes :: "file_content \<Rightarrow> (unit, string) outcome" where
  "as_bytes content =
     (case content of CString t \<Rightarrow> Inr t | CBinary d \<Rightarrow> Inr d | CScene sc \<Rightarrow> serialize sc)"

section \<open>UTF-8\<close>

definition in_range :: "nat \<Rightarrow> nat \<Rightarrow> char \<Rightarrow> bool" where
  "in_range lo hi c \<longleftrightarrow> (let n = (of_char c :: nat) in lo \<le> n \<and> n \<le> hi)"

text \<open>\<open>str::from_utf8\<close> succeeds on exactly these byte sequences.\<close>

function utf8_valid :: "string \<Rightarrow> bool" where
  "utf8_valid s =
     (case s of
        [] \<Rightarrow> True
      | a # r \<Rightarrow>
          if in_range 0x00 0x7F a then utf8_valid r
          else (case r of
              [] \<Rightarrow> False
            | b # r2 \<Rightarrow>
                if in_range 0xC2 0xDF a then in_range 0x80 0xBF b \<and> utf8_valid r2
                else (case r2 of
                    [] \<Rightarrow> False
                  | c # r3 \<Rightarrow>
                      if in_range 0xE0 0xE0 a \<and> in_range 0xA0 0xBF b \<or>
                         in_range 0xE1 0xEC a \<and> in_range 0x80 0xBF b \<or>
                         in_range 0xED 0xED a \<and> in_range 0x80 0x9F b \<or>
                         in_range 0xEE 0xEF a \<and> in_range 0x80 0xBF b
                      then in_range 0x80 0xBF c \<and> utf8_valid r3
                      else (case r3 of
                          [] \<Rightarrow> False
                        | d # r4 \<Rightarrow>
                            (in_range 0xF0 0xF0 a \<and> in_range 0x90 0xBF b \<or>
                             in_range 0xF1 0xF3 a \<and> in_range 0x80 0xBF b \<or>
                             in_range 0xF4 0xF4 a \<and> in_range 0x80 0x8F b) \<and>
                            in_range 0x80 0xBF c \<and> in_range 0x80 0xBF d \<and> utf8_valid r4))))"
  by pat_completeness auto
termination by (relation "measure length") auto

declare utf8_valid.simps [simp del]

text \<open>\<open>as_str\<close> unwraps the conversion of binary data.\<close>

definition as_str :: "file_content \<Rightarrow> (unit, string) outcome" where
  "as_str content =
     (case content of
        CString t \<Rightarrow> Inr t
      | CBinary d \<Rightarrow> if utf8_valid d then Inr d else Inl Panic
      | CScene sc \<Rightarrow> serialize sc)"

section \<open>From bytes\<close>

definition is_buf_binary :: "string \<Rightarrow> bool" where
  "is_buf_binary buf \<longleftrightarrow> length (filter (\<lambda>b. b = CHR 0x00) (take 8000 buf)) > 0"

text \<open>A text that is recognised and does not parse stays a text; a parser that panics or runs forever
  does so here.\<close>

definition from_string ::
  "(string \<Rightarrow> capture list list option) \<Rightarrow> int list \<Rightarrow> string \<Rightarrow> (unit, file_content) outcome" where
  "from_string grammar draws s =
     (if recognize_scene s
      then (case parse_scene draws (grammar s) of
              Inr scene \<Rightarrow> Inr (CScene scene)
            | Inl (Err _) \<Rightarrow> Inr (CString s)
            | Inl Panic \<Rightarrow> Inl Panic
            | Inl Diverges \<Rightarrow> Inl Diverges)
      else Inr (CString s))"

definition from_buf ::
  "(string \<Rightarrow> capture list list option) \<Rightarrow> int list \<Rightarrow> string \<Rightarrow> (unit, file_content) outcome" where
  "from_buf grammar draws buf =
     (if is_buf_binary buf then Inr (CBinary buf)
      else if \<not> utf8_valid buf then Inr (CBinary buf)
      else from_string grammar draws buf)"

definition to_hash :: "(string \<Rightarrow> 'x) \<Rightarrow> file_content \<Rightarrow> (unit, 'x) outcome" where
  "to_hash hash content = rbind (as_bytes content) (\<lambda>b. Inr (hash b))"

datatype io_error = NotFound | OtherIo

definition write_file_content ::
  "(string \<Rightarrow> 'x) \<Rightarrow> (string \<Rightarrow> bool) \<Rightarrow> string \<Rightarrow> file_content \<Rightarrow> (string, string) hmap \<Rightarrow>
   (io_error, 'x \<times> (string, string) hmap) outcome" where
  "write_file_content hash can_write path content disk =
     (case as_bytes content of
        Inl Panic \<Rightarrow> Inl Panic
      | Inl _ \<Rightarrow> Inl Diverges
      | Inr buf \<Rightarrow>
          if can_write path then Inr (hash buf, hm_insert path buf disk) else Inl (Err OtherIo))"

lemma from_buf_unparsed:
  assumes "from_buf grammar draws buf = Inr content" and "\<forall>sc. content \<noteq> CScene sc"
  shows "as_bytes content = Inr buf"
proof -
  have "content = CBinary buf \<or> content = CString buf"
    using assms by (auto simp: from_buf_def from_string_def split: if_splits sum.splits fault.splits)
  then show ?thesis by (auto simp: as_bytes_def)
qed

lemma from_buf_scene:
  assumes "from_buf grammar draws buf = Inr (CScene sc)"
  shows "recognize_scene buf \<and> utf8_valid buf \<and> parse_scene draws (grammar buf) = Inr sc"
  using assms by (auto simp: from_buf_def from_string_def split: if_splits sum.splits fault.splits)

end
