(* ===== verification/File_Index.thy ===== *)
theory File_Index imports File_Content Commit_Info begin

text \<open>
  \<open>project/fs/fs_index.rs\<close> and \<open>project/fs/fs_traversal.rs\<close>: the cache of file hashes, the hashes of all
  files of a project and the changes between two sets of files.

  The operating system is the record \<open>fs_env\<close> (metadata, directory walk and read results), \<open>blake3\<close>
  the record \<open>hasher\<close>, and the Fjall database a map from paths to stored entries: an entry that does
  not deserialize is \<open>None\<close>, and \<open>db_ok\<close> says whether the database answers.
\<close>

section \<open>The hash cache\<close>

record file_meta =
  fm_modified :: "nat option"   \<comment> \<open>\<open>modified()\<close> may fail\<close>
  fm_len :: nat

record 'x file_entry =
  fe_last_modified :: nat
  fe_size :: nat
  fe_hash :: 'x

datatype index_error = DatabaseError | FilesystemError | FileNotFound

record 'x index_state =
  ix_keyspace :: "(string, 'x file_entry option) hmap option"
  ix_db_ok :: bool

record ('s, 'x) hasher =
  h_new :: 's
  h_update :: "'s \<Rightarrow> string \<Rightarrow> 's"
  h_finalize :: "'s \<Rightarrow> 'x"

definition hasher_law :: "('s, 'x) hasher \<Rightarrow> (string \<Rightarrow> 'x) \<Rightarrow> bool" where
  "hasher_law H hash \<longleftrightarrow>
     (\<forall>chunks. h_finalize H (foldl (h_update H) (h_new H) chunks) = hash (concat chunks))"

text \<open>\<open>fs_open\<close> gives the results of the successive reads of a file; after the last comes the empty one.\<close>

record fs_env =
  fs_metadata :: "string \<Rightarrow> io_error + file_meta"
  fs_open :: "string \<Rightarrow> io_error + (io_error + string) list"

fun hash_reads :: "('s, 'x) hasher \<Rightarrow> 's \<Rightarrow> (io_error + string) list \<Rightarrow> io_error + 'x" where
  "hash_reads H h [] = Inr (h_finalize H h)"
| "hash_reads H h (Inl e # reads) = Inl e"
| "hash_reads H h (Inr buffer # reads) =
     (if buffer = [] then Inr (h_finalize H h) else hash_reads H (h_update H h buffer) reads)"

definition compute_hash :: "('s, 'x) hasher \<Rightarrow> fs_env \<Rightarrow> string \<Rightarrow> io_error + 'x" where
  "compute_hash H env path = rbind (fs_open env path) (hash_reads H (h_new H))"

definition entry_from_metadata :: "file_meta \<Rightarrow> 'x \<Rightarrow> io_error + 'x file_entry" where
  "entry_from_metadata metadata hash =
     rbind (ok_or OtherIo (fm_modified metadata)) (\<lambda>modified.
     Inr \<lparr>fe_last_modified = modified, fe_size = fm_len metadata, fe_hash = hash\<rparr>)"

definition entry_matches :: "'x file_entry \<Rightarrow> file_meta \<Rightarrow> io_error + bool" where
  "entry_matches e metadata =
     rbind (ok_or OtherIo (fm_modified metadata)) (\<lambda>modified.
     Inr (fe_last_modified e = modified \<and> fe_size e = fm_len metadata))"

definition fs_error :: "io_error + 'a \<Rightarrow> index_error + 'a" where
  "fs_error r = (case r of Inl _ \<Rightarrow> Inl FilesystemError | Inr x \<Rightarrow> Inr x)"

definition insert_hash_into_db ::
  "'x index_state \<Rightarrow> string \<Rightarrow> 'x \<Rightarrow> file_meta \<Rightarrow> index_error + 'x index_state" where
  "insert_hash_into_db ix path hash metadata =
     rbind (fs_error (entry_from_metadata metadata hash)) (\<lambda>entry.
     rbind (ok_or DatabaseError (ix_keyspace ix)) (\<lambda>keyspace.
     if ix_db_ok ix then Inr (ix\<lparr>ix_keyspace := Some (hm_insert path (Some entry) keyspace)\<rparr>)
     else Inl DatabaseError))"

definition get_hash_from_db ::
  "'x index_state \<Rightarrow> string \<Rightarrow> file_meta \<Rightarrow> index_error + 'x option" where
  "get_hash_from_db ix path metadata =
     rbind (ok_or DatabaseError (ix_keyspace ix)) (\<lambda>keyspace.
     if \<not> ix_db_ok ix then Inl DatabaseError
     else case hm_get keyspace path of
            None \<Rightarrow> Inr None
          | Some stored \<Rightarrow>
              rbind (ok_or DatabaseError stored) (\<lambda>entry.
              rbind (fs_error (entry_matches entry metadata)) (\<lambda>ok.
              Inr (if ok then Some (fe_hash entry) else None))))"

definition get_hash ::
  "('s, 'x) hasher \<Rightarrow> fs_env \<Rightarrow> string \<Rightarrow> 'x index_state \<Rightarrow> (index_error + 'x) \<times> 'x index_state" where
  "get_hash H env path ix =
     (case fs_metadata env path of
        Inl NotFound \<Rightarrow> (Inl FileNotFound, ix)
      | Inl _ \<Rightarrow> (Inl FilesystemError, ix)
      | Inr metadata \<Rightarrow>
          (case (case get_hash_from_db ix path metadata of Inl _ \<Rightarrow> None | Inr h \<Rightarrow> h) of
             Some hash \<Rightarrow> (Inr hash, ix)
           | None \<Rightarrow>
               (case fs_error (compute_hash H env path) of
                  Inl e \<Rightarrow> (Inl e, ix)
                | Inr hash \<Rightarrow>
                    (Inr hash,
                     case insert_hash_into_db ix path hash metadata of
                       Inl _ \<Rightarrow> ix | Inr ix' \<Rightarrow> ix'))))"

definition clear_cache :: "'x index_state \<Rightarrow> index_error + 'x index_state" where
  "clear_cache ix =
     (if ix_db_ok ix then Inr (ix\<lparr>ix_keyspace := Some []\<rparr>) else Inl DatabaseError)"

section \<open>All files of a project\<close>

datatype dir_tree = FileNode string | DirNode string "dir_tree list" | ErrorNode

fun walk_files :: "(string \<Rightarrow> bool \<Rightarrow> bool) \<Rightarrow> dir_tree \<Rightarrow> string list" where
  "walk_files ignored (FileNode path) = (if ignored path False then [] else [path])"
| "walk_files ignored (DirNode path children) =
     (if ignored path True then [] else concat (map (walk_files ignored) children))"
| "walk_files ignored ErrorNode = []"

fun hash_files ::
  "('s, 'x) hasher \<Rightarrow> fs_env \<Rightarrow> string list \<Rightarrow> 'x index_state \<Rightarrow> (string \<times> 'x) list \<times> 'x index_state" where
  "hash_files H env [] ix = ([], ix)"
| "hash_files H env (file # files) ix =
     (case get_hash H env file ix of (r, ix) \<Rightarrow>
        (case hash_files H env files ix of (hs, ix) \<Rightarrow>
           ((case r of Inr h \<Rightarrow> (file, h) # hs | Inl _ \<Rightarrow> hs), ix)))"

definition get_all_files ::
  "('s, 'x) hasher \<Rightarrow> fs_env \<Rightarrow> (string \<Rightarrow> bool \<Rightarrow> bool) \<Rightarrow> dir_tree list \<Rightarrow> 'x index_state \<Rightarrow>
   (string, 'x) hmap \<times> 'x index_state" where
  "get_all_files H env ignored roots ix =
     (case hash_files H env (concat (map (walk_files ignored) roots)) ix of
        (hs, ix) \<Rightarrow> (hm_collect hs, ix))"

section \<open>Changes between two sets of files\<close>

definition get_file_changes :: "('k, 'x) hmap \<Rightarrow> ('k, 'x) hmap \<Rightarrow> ('k, change_type) hmap" where
  "get_file_changes before after =
     (let changes = fold (\<lambda>(path, after_hash) changes.
            case hm_get before path of
              None \<Rightarrow> hm_insert path Created changes
            | Some before_hash \<Rightarrow>
                if before_hash \<noteq> after_hash then hm_insert path Modified changes else changes) after []
      in fold (\<lambda>path. hm_insert path Deleted)
           (filter (\<lambda>path. path \<notin> set (hm_keys after)) (hm_keys before)) changes)"

section \<open>Lemmas\<close>

lemma fold_insert_const:
  "hm_get (fold (\<lambda>path. hm_insert path v) ps m) p = (if p \<in> set ps then Some v else hm_get m p)"
  by (induction ps arbitrary: m) (auto simp: hm_get_insert)

lemma fold_insert_const_wf: "hm_wf m \<Longrightarrow> hm_wf (fold (\<lambda>path. hm_insert path v) ps m)"
  by (induction ps arbitrary: m) auto

definition change_of :: "'x option \<Rightarrow> 'x option \<Rightarrow> change_type option" where
  "change_of b a =
     (case (b, a) of
        (None, None) \<Rightarrow> None
      | (None, Some _) \<Rightarrow> Some Created
      | (Some _, None) \<Rightarrow> Some Deleted
      | (Some x, Some y) \<Rightarrow> if x \<noteq> y then Some Modified else None)"

lemma created_or_modified:
  assumes "hm_wf after"
  shows "hm_get (fold (\<lambda>(path, after_hash) changes.
      case hm_get before path of
        None \<Rightarrow> hm_insert path Created changes
      | Some before_hash \<Rightarrow>
          if before_hash \<noteq> after_hash then hm_insert path Modified changes else changes) after m) p =
    (case hm_get after p of
       None \<Rightarrow> hm_get m p
     | Some a \<Rightarrow> (case change_of (hm_get before p) (Some a) of None \<Rightarrow> hm_get m p | Some c \<Rightarrow> Some c))"
  using assms
proof (induction after arbitrary: m)
  case (Cons kv after)
  obtain k v where kv: "kv = (k, v)" by (cases kv)
  from Cons.prems have wf: "hm_wf after" and k: "hm_get after k = None"
    by (auto simp: hm_wf_def kv map_of_eq_None_iff)
  show ?case
    using k by (auto simp: kv Cons.IH [OF wf] hm_get_insert change_of_def split: option.splits)
qed simp

lemma get_file_changes_get:
  assumes "hm_wf after"
  shows "hm_get (get_file_changes before after) p = change_of (hm_get before p) (hm_get after p)"
proof -
  have "p \<in> set (filter (\<lambda>path. path \<notin> set (hm_keys after)) (hm_keys before)) \<longleftrightarrow>
      hm_get before p \<noteq> None \<and> hm_get after p = None"
    by (auto simp: map_of_eq_None_iff)
  then show ?thesis
    unfolding get_file_changes_def Let_def fold_insert_const created_or_modified [OF assms]
    by (auto simp: change_of_def split: option.splits)
qed

lemma get_file_changes_wf: "hm_wf (get_file_changes before after)"
proof -
  have "hm_wf (fold (\<lambda>(path, after_hash) changes.
      case hm_get before path of
        None \<Rightarrow> hm_insert path Created changes
      | Some before_hash \<Rightarrow>
          if before_hash \<noteq> after_hash then hm_insert path Modified changes else changes) after m)"
    if "hm_wf m" for m
    using that by (induction after arbitrary: m) (auto split: option.split)
  then show ?thesis unfolding get_file_changes_def Let_def by (intro fold_insert_const_wf) simp
qed

lemma change_of_None_iff: "change_of b a = None \<longleftrightarrow> b = a"
  by (auto simp: change_of_def split: option.splits)

text \<open>A cache whose matching entries hold the hash of the file's present content.\<close>

definition index_coherent :: "('s, 'x) hasher \<Rightarrow> fs_env \<Rightarrow> 'x index_state \<Rightarrow> bool" where
  "index_coherent H env ix \<longleftrightarrow>
     (\<forall>ks path e m. ix_keyspace ix = Some ks \<and> hm_get ks path = Some (Some e) \<and>
        fs_metadata env path = Inr m \<and> entry_matches e m = Inr True \<longrightarrow>
        compute_hash H env path = Inr (fe_hash e))"

lemma get_hash_from_db_coherent:
  assumes "index_coherent H env ix" and "fs_metadata env path = Inr m"
    and "get_hash_from_db ix path m = Inr (Some h)"
  shows "compute_hash H env path = Inr h"
proof -
  from assms(3) obtain ks e where "ix_keyspace ix = Some ks" "hm_get ks path = Some (Some e)"
    "entry_matches e m = Inr True" "h = fe_hash e"
    by (auto simp: get_hash_from_db_def rbind_eq_Inr_iff fs_error_def split: if_splits option.splits sum.splits)
  with assms(1,2) show ?thesis unfolding index_coherent_def by blast
qed

lemma insert_hash_coherent:
  assumes "index_coherent H env ix" and "fs_metadata env path = Inr m"
    and "compute_hash H env path = Inr h" and "insert_hash_into_db ix path h m = Inr ix'"
  shows "index_coherent H env ix'"
proof -
  from assms(4) obtain ks e where ks: "ix_keyspace ix = Some ks"
    and ix': "ix' = ix\<lparr>ix_keyspace := Some (hm_insert path (Some e) ks)\<rparr>" and e: "fe_hash e = h"
    by (auto simp: insert_hash_into_db_def rbind_eq_Inr_iff entry_from_metadata_def fs_error_def
        split: if_splits sum.splits)
  show ?thesis
    unfolding index_coherent_def
  proof (intro allI impI, elim conjE)
    fix ks' q e' m'
    assume "ix_keyspace ix' = Some ks'" "hm_get ks' q = Some (Some e')" "fs_metadata env q = Inr m'"
      "entry_matches e' m' = Inr True"
    then show "compute_hash H env q = Inr (fe_hash e')"
      using assms(1,3) ks e unfolding ix' index_coherent_def
      by (cases "q = path") (auto simp: hm_get_insert)
  qed
qed

lemma get_hash_coherent:
  assumes "index_coherent H env ix"
  shows "(\<forall>h. fst (get_hash H env path ix) = Inr h \<longleftrightarrow>
      (\<exists>m. fs_metadata env path = Inr m) \<and> compute_hash H env path = Inr h) \<and>
    index_coherent H env (snd (get_hash H env path ix))"
proof (cases "fs_metadata env path")
  case (Inl e)
  then show ?thesis using assms by (cases e) (simp_all add: get_hash_def)
next
  case (Inr m)
  show ?thesis
  proof (cases "get_hash_from_db ix path m")
    case (Inl e)
    with Inr insert_hash_coherent [OF assms Inr] assms show ?thesis
      by (auto simp: get_hash_def fs_error_def split: sum.splits)
  next
    case db: (Inr r)
    show ?thesis
    proof (cases r)
      case None
      with db Inr insert_hash_coherent [OF assms Inr] assms show ?thesis
        by (auto simp: get_hash_def fs_error_def split: sum.splits)
    next
      case (Some h)
      with db Inr get_hash_from_db_coherent [OF assms Inr] assms show ?thesis
        by (auto simp: get_hash_def)
    qed
  qed
qed

definition file_hash :: "('s, 'x) hasher \<Rightarrow> fs_env \<Rightarrow> string \<Rightarrow> 'x option" where
  "file_hash H env path =
     (case fs_metadata env path of Inl _ \<Rightarrow> None | Inr _ \<Rightarrow> get_ok (compute_hash H env path))"

lemma hash_files_coherent:
  assumes "index_coherent H env ix"
  shows "fst (hash_files H env files ix) =
      concat (map (\<lambda>f. case file_hash H env f of None \<Rightarrow> [] | Some h \<Rightarrow> [(f, h)]) files) \<and>
    index_coherent H env (snd (hash_files H env files ix))"
  using assms
proof (induction files arbitrary: ix)
  case (Cons f files)
  obtain r ix1 where g: "get_hash H env f ix = (r, ix1)" by (cases "get_hash H env f ix")
  from get_hash_coherent [OF Cons.prems, of f] g have ix1: "index_coherent H env ix1"
    and r: "\<And>h. r = Inr h \<longleftrightarrow> (\<exists>m. fs_metadata env f = Inr m) \<and> compute_hash H env f = Inr h"
    by auto
  have "file_hash H env f = get_ok r"
  proof (cases r)
    case (Inl e)
    then have "file_hash H env f = None"
      using r by (auto simp: file_hash_def split: sum.splits) (metis get_ok.elims)
    with Inl show ?thesis by simp
  next
    case (Inr h)
    with r [of h] show ?thesis by (auto simp: file_hash_def)
  qed
  with Cons.IH [OF ix1] g show ?case by (auto split: prod.splits sum.splits)
qed simp

lemma hash_reads_chunks:
  "\<forall>c\<in>set chunks. c \<noteq> [] \<Longrightarrow>
     hash_reads H h (map Inr chunks @ [Inr []]) = Inr (h_finalize H (foldl (h_update H) h chunks))"
  by (induction chunks arbitrary: h) auto

lemma map_of_function:
  assumes "\<And>k v. (k, v) \<in> set ps \<longleftrightarrow> k \<in> F \<and> f k = Some v"
  shows "map_of ps k = (if k \<in> F then f k else None)"
proof (cases "map_of ps k")
  case None
  then have "k \<notin> fst ` set ps" by (simp add: map_of_eq_None_iff)
  then have "\<And>v. (k, v) \<notin> set ps" by force
  with None assms show ?thesis by (cases "f k") auto
next
  case (Some v)
  then have "(k, v) \<in> set ps" by (rule map_of_SomeD)
  with Some assms show ?thesis by auto
qed

fun unignored :: "(string \<Rightarrow> bool \<Rightarrow> bool) \<Rightarrow> dir_tree \<Rightarrow> string \<Rightarrow> bool" where
  "unignored ignored (FileNode path) p \<longleftrightarrow> p = path \<and> \<not> ignored path False"
| "unignored ignored (DirNode path children) p \<longleftrightarrow>
     \<not> ignored path True \<and> (\<exists>t\<in>set children. unignored ignored t p)"
| "unignored ignored ErrorNode p \<longleftrightarrow> False"

lemma walk_files_unignored: "p \<in> set (walk_files ignored t) \<longleftrightarrow> unignored ignored t p"
  by (induction ignored t arbitrary: p rule: walk_files.induct) auto

lemma get_all_files_get:
  assumes "index_coherent H env ix"
  shows "hm_wf (fst (get_all_files H env ignored roots ix)) \<and>
    (\<forall>p. hm_get (fst (get_all_files H env ignored roots ix)) p =
      (if \<exists>t\<in>set roots. unignored ignored t p then file_hash H env p else None)) \<and>
    index_coherent H env (snd (get_all_files H env ignored roots ix))"
proof -
  define files where "files = concat (map (walk_files ignored) roots)"
  have set_files: "q \<in> set files \<longleftrightarrow> (\<exists>t\<in>set roots. unignored ignored t q)" for q
    by (simp add: files_def walk_files_unignored)
  define hs where "hs = concat (map (\<lambda>f. case file_hash H env f of None \<Rightarrow> [] | Some h \<Rightarrow> [(f, h)]) files)"
  have "hm_get (hm_collect hs) p = (if p \<in> set files then file_hash H env p else None)" for p
    unfolding hm_get_collect
    by (rule map_of_function) (auto simp: hs_def split: option.splits)
  with hash_files_coherent [OF assms, of files] show ?thesis
    by (cases "hash_files H env files ix")
      (simp add: get_all_files_def files_def [symmetric] hs_def [symmetric] set_files)
qed

section \<open>Properties\<close>

text \<open>C15: the changes between two sets of file hashes are exact: a path is created, deleted or modified
  precisely when it is only in the second, only in the first, or in both with different hashes, and
  there are no changes precisely when the two sets are the same.\<close>

theorem get_file_changes_exact:
  assumes "hm_wf after"
  shows "hm_get (get_file_changes before after) p =
      (case (hm_get before p, hm_get after p) of
         (None, None) \<Rightarrow> None | (None, Some _) \<Rightarrow> Some Created | (Some _, None) \<Rightarrow> Some Deleted
       | (Some x, Some y) \<Rightarrow> if x \<noteq> y then Some Modified else None) \<and>
    (get_file_changes before after = [] \<longleftrightarrow> hm_get before = hm_get after)"
proof
  show "hm_get (get_file_changes before after) p =
      (case (hm_get before p, hm_get after p) of
         (None, None) \<Rightarrow> None | (None, Some _) \<Rightarrow> Some Created | (Some _, None) \<Rightarrow> Some Deleted
       | (Some x, Some y) \<Rightarrow> if x \<noteq> y then Some Modified else None)"
    unfolding get_file_changes_get [OF assms] change_of_def ..
  have "get_file_changes before after = [] \<longleftrightarrow> (\<forall>q. hm_get (get_file_changes before after) q = None)"
    by (rule hm_empty_iff)
  then show "get_file_changes before after = [] \<longleftrightarrow> hm_get before = hm_get after"
    by (simp add: get_file_changes_get [OF assms] change_of_None_iff fun_eq_iff)
qed

theorem get_file_changes_exact_witness:
  "hm_get (get_file_changes [(''a'', 1), (''b'', 2)] [(''b'', 3), (''c'', 4::nat)]) ''a'' = Some Deleted"
  using get_file_changes_exact [of "[(''b'', 3), (''c'', 4::nat)]" "[(''a'', 1), (''b'', 2)]" "''a''"]
  by (simp add: hm_wf_def)

text \<open>With a cache that is coherent with the disk, collecting the hashes of a project gives every
  readable file that neither is ignored nor lies in an ignored directory, with the hash computed
  from its content, as if there were no cache, and leaves the cache coherent.\<close>

theorem get_all_files_hashes:
  assumes "index_coherent H env ix"
  shows "hm_get (fst (get_all_files H env ignored roots ix)) p =
      (if \<exists>t\<in>set roots. unignored ignored t p then file_hash H env p else None) \<and>
    index_coherent H env (snd (get_all_files H env ignored roots ix))"
  using get_all_files_get [OF assms, of ignored roots] by blast

definition demo_hasher :: "(string, string) hasher" where
  "demo_hasher = \<lparr>h_new = [], h_update = (@), h_finalize = id\<rparr>"

definition demo_env :: fs_env where
  "demo_env = \<lparr>fs_metadata = (\<lambda>p. if p = ''/p/a'' then Inr \<lparr>fm_modified = Some 1, fm_len = 3\<rparr> else Inl NotFound),
     fs_open = (\<lambda>p. if p = ''/p/a'' then Inr [Inr ''x'', Inr ''yz'', Inr []] else Inl NotFound)\<rparr>"

theorem get_all_files_hashes_witness:
  "hm_get (fst (get_all_files demo_hasher demo_env (\<lambda>p d. p = ''/p/b'')
     [DirNode ''/p/b'' [FileNode ''/p/b/c''], FileNode ''/p/a'']
     \<lparr>ix_keyspace = Some [], ix_db_ok = True\<rparr>)) ''/p/a'' = Some ''xyz''"
proof -
  have "index_coherent demo_hasher demo_env \<lparr>ix_keyspace = Some [], ix_db_ok = True\<rparr>"
    by (simp add: index_coherent_def)
  from get_all_files_hashes [OF this] show ?thesis
    by (simp add: file_hash_def demo_env_def compute_hash_def demo_hasher_def)
qed

text \<open>The hash of a file is the hash of its content, however the operating system cuts it into
  reads.\<close>

theorem compute_hash_content:
  assumes "hasher_law H hash" and "fs_open env path = Inr (map Inr chunks @ [Inr []])"
    and "\<forall>c\<in>set chunks. c \<noteq> []"
  shows "compute_hash H env path = Inr (hash (concat chunks))"
  using hash_reads_chunks [OF assms(3), of H "h_new H"] assms(1,2)
  by (simp add: compute_hash_def hasher_law_def)

lemma demo_hasher_law: "hasher_law demo_hasher id"
proof -
  have "foldl (@) acc chunks = acc @ concat chunks" for acc and chunks :: "string list"
    by (induction chunks arbitrary: acc) auto
  then show ?thesis by (simp add: hasher_law_def demo_hasher_def)
qed

theorem compute_hash_content_witness: "compute_hash demo_hasher demo_env ''/p/a'' = Inr ''xyz''"
  using compute_hash_content [OF demo_hasher_law, of demo_env "''/p/a''" "[''x'', ''yz'']"]
  by (simp add: demo_env_def)

end
