(* ===== verification/Scene_Diff.thy ===== *)
theory Scene_Diff imports Godot_Serialize Commit_Info begin

text \<open>
  \<open>diff/scene_differ.rs\<close>: the differences between two versions of a scene or text resource. The code
  iterates over hash sets of identifiers and property names; the model iterates over the keys of the
  old version and then the new ones, and the theorems speak about membership.

  Comparing two sub resources compares the resources their properties refer to. The recursion is
  unguarded, so the definitions carry fuel: \<open>diff_fuel\<close> is more than the number of pairs of
  an old and a new sub resource, so a comparison that exceeds it meets a pair within itself and
  never ends in the code.
\<close>

section \<open>Data\<close>

datatype variant_str_value =
    VSVariant string
  | VSResourcePath string
  | VSSubResourceID string
  | VSExtResourceID string
  | VSDefaultValue "type_or_instance option" string

datatype variant_value =
    VVariant string
  | VDefaultValue "type_or_instance option" string
  | VLazyLoadData string string   \<comment> \<open>original path, load path\<close>
  | VScript string

record property_diff =
  pd_name :: string
  pd_change_type :: change_type
  pd_old_value :: "variant_value option"
  pd_new_value :: "variant_value option"

record node_diff =
  nd_change_type :: change_type
  nd_node_path :: string
  nd_node_type :: "type_or_instance option"
  nd_changed_properties :: "(string, property_diff) hmap"

record sub_resource_diff =
  sd_change_type :: change_type
  sd_sub_resource_id :: string
  sd_resource_type :: string
  sd_script_class :: "string option"
  sd_changed_properties :: "(string, property_diff) hmap"

record scene_diff =
  scd_path :: string
  scd_change_type :: change_type
  scd_changed_nodes :: "node_diff list"

record text_resource_diff =
  trd_path :: string
  trd_resource_type :: string
  trd_change_type :: change_type
  trd_changed_sub_resources :: "sub_resource_diff list"
  trd_changed_main_resource :: "sub_resource_diff option"

text \<open>\<open>PropertyGetter\<close>: what a node and a sub resource have in common.\<close>

record property_getter =
  pg_properties :: "(string, ordered_property) hmap"
  pg_type_or_instance :: "type_or_instance option"

definition node_getter :: "godot_node \<Rightarrow> property_getter" where
  "node_getter n = \<lparr>pg_properties = gn_properties n, pg_type_or_instance = gn_type_or_instance n\<rparr>"

definition sub_resource_getter :: "sub_resource_node \<Rightarrow> property_getter" where
  "sub_resource_getter r =
     \<lparr>pg_properties = sr_properties r, pg_type_or_instance = Some (Type (sr_resource_type r))\<rparr>"

section \<open>Property values\<close>

definition str_nth :: "string list \<Rightarrow> nat \<Rightarrow> (unit, string) outcome" where
  "str_nth xs i = unwrap (if i < length xs then Some (xs ! i) else None)"

definition get_varstr_value :: "string \<Rightarrow> (unit, variant_str_value) outcome" where
  "get_varstr_value value_str =
     (if starts_with value_str ''Resource('' \<or> starts_with value_str ''SubResource('' \<or>
         starts_with value_str ''ExtResource(''
      then rbind (str_nth (split_str [CHR ''('', quote_char] value_str) 1) (\<lambda>s.
           rbind (str_nth (split_str [quote_char, CHR '')''] s) 0) (\<lambda>s.
           let i = trim s
           in if contains_str value_str ''SubResource('' then Inr (VSSubResourceID i)
              else if contains_str value_str ''ExtResource('' then Inr (VSExtResourceID i)
              else if contains_str i ([quote_char] @ '', '' @ [quote_char])
              then rbind (str_nth (split_str ([quote_char] @ '', '' @ [quote_char]) i) 1) (\<lambda>p.
                   Inr (VSResourcePath (trim p)))
              else Inr (VSResourcePath i)))
      else Inr (VSVariant value_str))"

definition get_varstr_or_default ::
  "string \<Rightarrow> property_getter option \<Rightarrow> (unit, variant_str_value option) outcome" where
  "get_varstr_or_default prop node =
     (case node of
        None \<Rightarrow> Inr None
      | Some node \<Rightarrow>
          (case hm_get (pg_properties node) prop of
             Some val \<Rightarrow> rbind (get_varstr_value (prop_value val)) (\<lambda>v. Inr (Some v))
           | None \<Rightarrow> Inr (Some (VSDefaultValue (pg_type_or_instance node) prop))))"

section \<open>Did a property change?\<close>

definition did_ext_resource_reference_change ::
  "external_resource_node option \<Rightarrow> external_resource_node option \<Rightarrow> bool" where
  "did_ext_resource_reference_change old_resource new_resource =
     (case (old_resource, new_resource) of
        (None, None) \<Rightarrow> False
      | (None, Some _) \<Rightarrow> True
      | (Some _, None) \<Rightarrow> True
      | (Some old, Some new) \<Rightarrow>
          er_resource_type old \<noteq> er_resource_type new \<or> er_path old \<noteq> er_path new \<or> er_uid old \<noteq> er_uid new)"

text \<open>The loop over the new properties; as in the code, an added property ends it with \<open>False\<close>.\<close>

fun props_changed ::
  "(variant_str_value \<Rightarrow> variant_str_value \<Rightarrow> (unit, bool) outcome) \<Rightarrow>
   (string, ordered_property) hmap \<Rightarrow> (string \<times> ordered_property) list \<Rightarrow> (unit, bool) outcome" where
  "props_changed did_change olds [] = Inr False"
| "props_changed did_change olds ((path, new_prop) # news) =
     (case hm_get olds path of
        None \<Rightarrow> Inr False
      | Some old_prop \<Rightarrow>
          rbind (get_varstr_value (prop_value old_prop)) (\<lambda>old_value.
          rbind (get_varstr_value (prop_value new_prop)) (\<lambda>new_value.
          rbind (did_change old_value new_value) (\<lambda>b.
          if b then Inr True else props_changed did_change olds news))))"

definition did_sub_resource_change ::
  "(variant_str_value \<Rightarrow> variant_str_value \<Rightarrow> (unit, bool) outcome) \<Rightarrow>
   sub_resource_node option \<Rightarrow> sub_resource_node option \<Rightarrow> (unit, bool) outcome" where
  "did_sub_resource_change did_change old_resource new_resource =
     (case (old_resource, new_resource) of
        (None, None) \<Rightarrow> Inr False
      | (None, Some _) \<Rightarrow> Inr True
      | (Some _, None) \<Rightarrow> Inr True
      | (Some old, Some new) \<Rightarrow>
          if sr_resource_type old \<noteq> sr_resource_type new then Inr True
          else if \<exists>path\<in>set (hm_keys (sr_properties old)). \<not> hm_contains (sr_properties new) path
          then Inr True
          else props_changed did_change (sr_properties old) (sr_properties new))"

text \<open>\<open>did_prop_change\<close> where both values and both scenes are there.\<close>

fun did_value_change ::
  "nat \<Rightarrow> godot_scene \<Rightarrow> godot_scene \<Rightarrow> variant_str_value \<Rightarrow> variant_str_value \<Rightarrow>
   (unit, bool) outcome" where
  "did_value_change 0 old_scene new_scene old_value new_value = Inl Diverges"
| "did_value_change (Suc fuel) old_scene new_scene old_value new_value =
     (case (old_value, new_value) of
        (VSSubResourceID old_id, VSSubResourceID new_id) \<Rightarrow>
          did_sub_resource_change (\<lambda>a b. did_value_change fuel old_scene new_scene a b)
            (hm_get (gs_sub_resources old_scene) old_id) (hm_get (gs_sub_resources new_scene) new_id)
      | (VSExtResourceID old_id, VSExtResourceID new_id) \<Rightarrow>
          Inr (did_ext_resource_reference_change
            (hm_get (gs_ext_resources old_scene) old_id) (hm_get (gs_ext_resources new_scene) new_id))
      | (VSResourcePath old_path, VSResourcePath new_path) \<Rightarrow> Inr (old_path \<noteq> new_path)
      | (VSVariant old_var, VSVariant new_var) \<Rightarrow> Inr (old_var \<noteq> new_var)
      | _ \<Rightarrow> Inr True)"

definition did_prop_change ::
  "nat \<Rightarrow> variant_str_value option \<Rightarrow> variant_str_value option \<Rightarrow> godot_scene option \<Rightarrow>
   godot_scene option \<Rightarrow> (unit, bool) outcome" where
  "did_prop_change fuel old_value new_value old_scene new_scene =
     (case (old_value, new_value) of
        (None, None) \<Rightarrow> Inr False
      | (None, Some _) \<Rightarrow> Inr True
      | (Some _, None) \<Rightarrow> Inr True
      | (Some old_value, Some new_value) \<Rightarrow>
          (case (old_scene, new_scene) of
             (Some old_scene, Some new_scene) \<Rightarrow> did_value_change fuel old_scene new_scene old_value new_value
           | _ \<Rightarrow> Inr True))"

definition diff_fuel :: "godot_scene option \<Rightarrow> godot_scene option \<Rightarrow> nat" where
  "diff_fuel old_scene new_scene =
     (case (old_scene, new_scene) of
        (Some old, Some new) \<Rightarrow> Suc (Suc (length (gs_sub_resources old) * length (gs_sub_resources new)))
      | _ \<Rightarrow> 1)"

section \<open>Diffs\<close>

definition diff_change_type :: "'a option \<Rightarrow> 'a option \<Rightarrow> change_type" where
  "diff_change_type old_x new_x =
     (case (old_x, new_x) of (None, Some _) \<Rightarrow> Created | (Some _, None) \<Rightarrow> Deleted | _ \<Rightarrow> Modified)"

definition start_load_ext_resource ::
  "('d, 'h) id_io \<Rightarrow> string \<Rightarrow> ('d, 'h) history_ref \<Rightarrow> (unit, string + string) outcome" where
  "start_load_ext_resource io path r =
     (case make_path_string io r path of
        Inr s \<Rightarrow> Inr (Inr s)
      | Inl (Err _) \<Rightarrow> Inr (Inl ''Invalid history ref path'')
      | Inl f \<Rightarrow> Inl f)"

definition load_value :: "('d, 'h) id_io \<Rightarrow> string \<Rightarrow> ('d, 'h) history_ref \<Rightarrow> (unit, variant_value) outcome" where
  "load_value io path r =
     rbind (start_load_ext_resource io path r) (\<lambda>l.
     Inr (case l of
            Inr load_path \<Rightarrow> VLazyLoadData path load_path
          | Inl e \<Rightarrow> VVariant (quoted (''<ExtResource '' @ path @ '' load failed ('' @ e @ '')>''))))"

definition get_prop_value ::
  "('d, 'h) id_io \<Rightarrow> variant_str_value \<Rightarrow> godot_scene option \<Rightarrow> ('d, 'h) history_ref \<Rightarrow>
   (unit, variant_value) outcome" where
  "get_prop_value io value scene r =
     (case value of
        VSVariant variant \<Rightarrow> Inr (VVariant variant)
      | VSSubResourceID i \<Rightarrow> Inr (VVariant (quoted (''<SubResource '' @ i @ '' changed>'')))
      | VSResourcePath path \<Rightarrow> load_value io path r
      | VSExtResourceID i \<Rightarrow>
          (case Option.bind scene (\<lambda>sc. map_option er_path (hm_get (gs_ext_resources sc) i)) of
             None \<Rightarrow> Inr (VVariant (quoted (''<ExtResource '' @ i @ '' not found>'')))
           | Some p \<Rightarrow>
               if ends_with p ''.gd'' \<or> ends_with p ''.cs'' then Inr (VScript p) else load_value io p r)
      | VSDefaultValue t prop \<Rightarrow> Inr (VDefaultValue t prop))"

definition opt_prop_value ::
  "('d, 'h) id_io \<Rightarrow> variant_str_value option \<Rightarrow> godot_scene option \<Rightarrow> ('d, 'h) history_ref \<Rightarrow>
   (unit, variant_value option) outcome" where
  "opt_prop_value io value scene r =
     (case value of
        None \<Rightarrow> Inr None
      | Some v \<Rightarrow> rbind (get_prop_value io v scene r) (\<lambda>x. Inr (Some x)))"

text \<open>The two scenes and references that every diff function passes on.\<close>

record ('d, 'h) diff_scope =
  ds_old_scene :: "godot_scene option"
  ds_new_scene :: "godot_scene option"
  ds_before :: "('d, 'h) history_ref"
  ds_after :: "('d, 'h) history_ref"

definition get_property_diff ::
  "('d, 'h) id_io \<Rightarrow> ('d, 'h) diff_scope \<Rightarrow> string \<Rightarrow> property_getter option \<Rightarrow> property_getter option \<Rightarrow>
   (unit, property_diff option) outcome" where
  "get_property_diff io scope prop old_node new_node =
     (if new_node = None \<and> old_node = None then Inr None
      else rbind (get_varstr_or_default prop old_node) (\<lambda>old_value.
           rbind (get_varstr_or_default prop new_node) (\<lambda>new_value.
           rbind (did_prop_change (diff_fuel (ds_old_scene scope) (ds_new_scene scope)) old_value new_value
                    (ds_old_scene scope) (ds_new_scene scope)) (\<lambda>changed.
           if \<not> changed then Inr None
           else rbind (opt_prop_value io old_value (ds_old_scene scope) (ds_before scope)) (\<lambda>old.
                rbind (opt_prop_value io new_value (ds_new_scene scope) (ds_after scope)) (\<lambda>new.
                Inr (Some \<lparr>pd_name = prop, pd_change_type = diff_change_type old_node new_node,
                       pd_old_value = old, pd_new_value = new\<rparr>)))))))"

definition all_props :: "property_getter option \<Rightarrow> property_getter option \<Rightarrow> string list" where
  "all_props old_node new_node =
     fold hs_insert (case new_node of None \<Rightarrow> [] | Some n \<Rightarrow> hm_keys (pg_properties n))
       (fold hs_insert (case old_node of None \<Rightarrow> [] | Some n \<Rightarrow> hm_keys (pg_properties n)) [])"

definition changed_properties ::
  "('d, 'h) id_io \<Rightarrow> ('d, 'h) diff_scope \<Rightarrow> property_getter option \<Rightarrow> property_getter option \<Rightarrow>
   (unit, (string, property_diff) hmap) outcome" where
  "changed_properties io scope old_node new_node =
     fold_res (\<lambda>prop changed.
       rbind (get_property_diff io scope prop old_node new_node) (\<lambda>d.
       Inr (case d of None \<Rightarrow> changed | Some d \<Rightarrow> hm_insert prop d changed)))
       (all_props old_node new_node) []"

definition get_node_path_res :: "godot_scene option \<Rightarrow> node_id \<Rightarrow> (unit, string option) outcome" where
  "get_node_path_res scene i =
     (case scene of None \<Rightarrow> Inr None | Some sc \<Rightarrow> rbind (get_node_path sc i) (\<lambda>p. Inr (Some p)))"

definition get_node_diff ::
  "('d, 'h) id_io \<Rightarrow> ('d, 'h) diff_scope \<Rightarrow> node_id \<Rightarrow> property_getter option \<Rightarrow> property_getter option \<Rightarrow>
   (unit, node_diff option) outcome" where
  "get_node_diff io scope i old_node new_node =
     (if old_node = None \<and> new_node = None then Inr None
      else
        let old_class_name = Option.bind old_node pg_type_or_instance;
            new_class_name = Option.bind new_node pg_type_or_instance
        in rbind (changed_properties io scope old_node new_node) (\<lambda>props.
           if old_node \<noteq> None \<and> new_node \<noteq> None \<and> props = [] \<and> old_class_name = new_class_name
           then Inr None
           else rbind (case (old_node, new_node) of
                  (Some _, None) \<Rightarrow> get_node_path_res (ds_old_scene scope) i
                | _ \<Rightarrow> get_node_path_res (ds_new_scene scope) i) (\<lambda>path.
                Inr (map_option (\<lambda>path.
                  \<lparr>nd_change_type = diff_change_type old_node new_node, nd_node_path = path,
                   nd_node_type = (if new_class_name = None then old_class_name else new_class_name),
                   nd_changed_properties = props\<rparr>) path))))"

definition get_sub_resource_diff ::
  "('d, 'h) id_io \<Rightarrow> ('d, 'h) diff_scope \<Rightarrow> string \<Rightarrow> sub_resource_node option \<Rightarrow> sub_resource_node option \<Rightarrow>
   (unit, sub_resource_diff option) outcome" where
  "get_sub_resource_diff io scope i old_node new_node =
     (if old_node = None \<and> new_node = None then Inr None
      else rbind (changed_properties io scope (map_option sub_resource_getter old_node)
                    (map_option sub_resource_getter new_node)) (\<lambda>props.
           Inr (Some \<lparr>sd_change_type = diff_change_type old_node new_node, sd_sub_resource_id = i,
             sd_resource_type =
               (case (old_node, new_node) of
                  (Some n, _) \<Rightarrow> sr_resource_type n | (None, Some n) \<Rightarrow> sr_resource_type n | _ \<Rightarrow> []),
             sd_script_class = None, sd_changed_properties = props\<rparr>)))"

definition ids_of :: "(godot_scene \<Rightarrow> 'i list) \<Rightarrow> godot_scene option \<Rightarrow> godot_scene option \<Rightarrow> 'i list" where
  "ids_of keys old_scene new_scene =
     fold hs_insert (case new_scene of None \<Rightarrow> [] | Some sc \<Rightarrow> keys sc)
       (fold hs_insert (case old_scene of None \<Rightarrow> [] | Some sc \<Rightarrow> keys sc) [])"

definition get_scene_diff ::
  "('d, 'h) id_io \<Rightarrow> ('d, 'h) diff_scope \<Rightarrow> string \<Rightarrow> (unit, scene_diff) outcome" where
  "get_scene_diff io scope path =
     (let node_of = (\<lambda>scene i. map_option node_getter (Option.bind scene (\<lambda>s. get_node s i)))
      in rbind (collect_res (\<lambda>i. get_node_diff io scope i
                  (node_of (ds_old_scene scope) i) (node_of (ds_new_scene scope) i))
                (ids_of (\<lambda>s. hm_keys (gs_nodes s)) (ds_old_scene scope) (ds_new_scene scope))) (\<lambda>diffs.
         Inr \<lparr>scd_path = path,
              scd_change_type = diff_change_type (ds_old_scene scope) (ds_new_scene scope),
              scd_changed_nodes = concat (map (case_option [] (\<lambda>d. [d])) diffs)\<rparr>))"

definition get_text_resource_diff ::
  "('d, 'h) id_io \<Rightarrow> ('d, 'h) diff_scope \<Rightarrow> string \<Rightarrow> (unit, text_resource_diff) outcome" where
  "get_text_resource_diff io scope path =
     (let old_scene = ds_old_scene scope;
          new_scene = ds_new_scene scope;
          latest = (case new_scene of Some s \<Rightarrow> Some s | None \<Rightarrow> old_scene);
          resource_type = (case latest of None \<Rightarrow> [] | Some s \<Rightarrow> gs_resource_type s);
          script_class = (case latest of None \<Rightarrow> None | Some s \<Rightarrow> gs_script_class s);
          sub_of = (\<lambda>scene i. Option.bind scene (\<lambda>s. hm_get (gs_sub_resources s) i));
          main_of = (\<lambda>scene. Option.bind scene gs_main_resource)
      in rbind (collect_res (\<lambda>i. get_sub_resource_diff io scope i (sub_of old_scene i) (sub_of new_scene i))
                  (ids_of (\<lambda>s. hm_keys (gs_sub_resources s)) old_scene new_scene)) (\<lambda>subs.
         rbind (get_sub_resource_diff io scope [] (main_of old_scene) (main_of new_scene)) (\<lambda>main.
         Inr \<lparr>trd_path = path, trd_resource_type = resource_type,
              trd_change_type = diff_change_type old_scene new_scene,
              trd_changed_sub_resources = concat (map (case_option [] (\<lambda>d. [d])) subs),
              trd_changed_main_resource =
                map_option (\<lambda>d. d\<lparr>sd_script_class := script_class\<rparr>) main\<rparr>)))"

end
