(* ===== verification/Scene_Diff_Properties.thy ===== *)
theory Scene_Diff_Properties imports Scene_Diff begin

text \<open>
  What a scene diff says: nothing for a scene and itself; for nodes with plain values, exactly the
  properties that differ. Then what it misses or lists too much, and where it panics.
\<close>

section \<open>Property lists\<close>

lemma fold_hs_insert_set [simp]: "set (fold hs_insert xs ys) = set xs \<union> set ys"
  by (induction xs arbitrary: ys) auto

lemma fold_hs_insert_distinct [simp]: "distinct (fold hs_insert xs ys) \<longleftrightarrow> distinct ys"
  by (induction xs arbitrary: ys) auto

lemma all_props_set:
  "set (all_props old_node new_node) =
     (case old_node of None \<Rightarrow> {} | Some n \<Rightarrow> set (hm_keys (pg_properties n))) \<union>
     (case new_node of None \<Rightarrow> {} | Some n \<Rightarrow> set (hm_keys (pg_properties n)))"
  by (auto simp: all_props_def split: option.splits)

lemma ids_of_set:
  "set (ids_of keys old_scene new_scene) =
     (case old_scene of None \<Rightarrow> {} | Some s \<Rightarrow> set (keys s)) \<union>
     (case new_scene of None \<Rightarrow> {} | Some s \<Rightarrow> set (keys s))"
  by (auto simp: ids_of_def split: option.splits)

lemma collect_diffs_get:
  assumes "fold_res (\<lambda>pk changed. rbind (f pk) (\<lambda>d.
      Inr (case d of None \<Rightarrow> changed | Some d \<Rightarrow> hm_insert pk d changed))) props m = Inr m'"
  shows "(\<forall>p\<in>set props. \<exists>d. f p = Inr d) \<and>
    (\<forall>p. hm_get m' p = (if p \<in> set props then
       (case f p of Inr (Some d) \<Rightarrow> Some d | _ \<Rightarrow> hm_get m p) else hm_get m p))"
  using assms
proof (induction props arbitrary: m)
  case (Cons q props)
  from Cons.prems obtain d where d: "f q = Inr d"
    and rest: "fold_res (\<lambda>pk changed. rbind (f pk) (\<lambda>d.
      Inr (case d of None \<Rightarrow> changed | Some d \<Rightarrow> hm_insert pk d changed))) props
        (case d of None \<Rightarrow> m | Some d \<Rightarrow> hm_insert q d m) = Inr m'"
    by (auto simp: rbind_eq_Inr_iff)
  from Cons.IH [OF rest] have all: "\<forall>p\<in>set props. \<exists>d. f p = Inr d"
    and get: "hm_get m' p = (if p \<in> set props then (case f p of Inr (Some d) \<Rightarrow> Some d
        | _ \<Rightarrow> hm_get (case d of None \<Rightarrow> m | Some d \<Rightarrow> hm_insert q d m) p)
      else hm_get (case d of None \<Rightarrow> m | Some d \<Rightarrow> hm_insert q d m) p)" for p
    by blast+
  have "hm_get m' p = (if p \<in> set (q # props) then (case f p of Inr (Some d) \<Rightarrow> Some d
      | _ \<Rightarrow> hm_get m p) else hm_get m p)" for p
    using d by (cases d; cases "p = q") (auto simp: get hm_get_insert split: option.splits sum.splits)
  with all d show ?case by auto
qed simp

lemma changed_properties_get:
  assumes "changed_properties io scope old_node new_node = Inr props"
  shows "\<forall>p. hm_get props p =
    (if p \<in> set (all_props old_node new_node)
     then (case get_property_diff io scope p old_node new_node of Inr d \<Rightarrow> d | Inl _ \<Rightarrow> None) else None)"
    and "\<forall>p\<in>set (all_props old_node new_node). \<exists>d. get_property_diff io scope p old_node new_node = Inr d"
  using collect_diffs_get [OF assms [unfolded changed_properties_def]]
  by (auto split: option.splits sum.splits)

section \<open>Plain values\<close>

definition plain_value :: "string \<Rightarrow> bool" where
  "plain_value v \<longleftrightarrow> \<not> starts_with v ''Resource('' \<and> \<not> starts_with v ''SubResource('' \<and>
     \<not> starts_with v ''ExtResource(''"

lemma plain_varstr: "plain_value v \<Longrightarrow> get_varstr_value v = Inr (VSVariant v)"
  by (simp add: plain_value_def get_varstr_value_def)

definition plain_node :: "property_getter \<Rightarrow> bool" where
  "plain_node n \<longleftrightarrow> (\<forall>p\<in>snd ` set (pg_properties n). plain_value (prop_value p))"

definition value_of :: "property_getter \<Rightarrow> string \<Rightarrow> string option" where
  "value_of n pk = map_option prop_value (hm_get (pg_properties n) pk)"

lemma plain_varstr_or_default:
  "plain_node n \<Longrightarrow> get_varstr_or_default pk (Some n) =
     Inr (Some (case value_of n pk of
       Some v \<Rightarrow> VSVariant v | None \<Rightarrow> VSDefaultValue (pg_type_or_instance n) pk))"
  by (auto simp: get_varstr_or_default_def value_of_def plain_node_def plain_varstr
      dest!: map_of_SomeD split: option.splits)

lemma diff_fuel_Suc: "\<exists>f. diff_fuel sa sb = Suc f"
  by (auto simp: diff_fuel_def split: option.splits)

lemma plain_property_diff:
  assumes "plain_node a" and "plain_node b" and "ds_old_scene scope = Some sa"
    and "ds_new_scene scope = Some sb" and "value_of a pk \<noteq> None \<or> value_of b pk \<noteq> None"
  shows "\<exists>d. get_property_diff io scope pk (Some a) (Some b) = Inr d \<and>
    (d = None \<longleftrightarrow> value_of a pk = value_of b pk)"
proof -
  obtain f where "diff_fuel (Some sa) (Some sb) = Suc f" using diff_fuel_Suc by blast
  then show ?thesis
    using assms
    by (cases "value_of a pk"; cases "value_of b pk")
      (auto simp: get_property_diff_def plain_varstr_or_default did_prop_change_def
        opt_prop_value_def get_prop_value_def)
qed

lemma get_node_diff_both:
  "get_node_diff io scope i (Some a) (Some b) =
     rbind (changed_properties io scope (Some a) (Some b)) (\<lambda>props.
       if props = [] \<and> pg_type_or_instance a = pg_type_or_instance b then Inr None
       else rbind (get_node_path_res (ds_new_scene scope) i) (\<lambda>path.
         Inr (map_option (\<lambda>path.
           \<lparr>nd_change_type = Modified, nd_node_path = path,
            nd_node_type = (if pg_type_or_instance b = None then pg_type_or_instance a
              else pg_type_or_instance b), nd_changed_properties = props\<rparr>) path)))"
  by (simp add: get_node_diff_def Let_def diff_change_type_def cong: if_cong)

lemma node_diff_plain:
  assumes diff: "get_node_diff io scope i (Some a) (Some b) = Inr r" and plain: "plain_node a" "plain_node b"
    and scenes: "ds_old_scene scope = Some sa" "ds_new_scene scope = Some sb"
  shows "(r = None \<longleftrightarrow> pg_type_or_instance a = pg_type_or_instance b \<and> value_of a = value_of b) \<and>
    (\<forall>d pk. r = Some d \<longrightarrow>
       (hm_get (nd_changed_properties d) pk \<noteq> None \<longleftrightarrow> value_of a pk \<noteq> value_of b pk))"
proof -
  obtain props where props: "changed_properties io scope (Some a) (Some b) = Inr props"
    using diff by (auto simp: get_node_diff_both rbind_eq_Inr_iff)
  have in_props: "pk \<in> set (all_props (Some a) (Some b)) \<longleftrightarrow>
      value_of a pk \<noteq> None \<or> value_of b pk \<noteq> None" for pk
    by (auto simp: all_props_set value_of_def map_of_eq_None_iff)
  have get: "hm_get props pk = None \<longleftrightarrow> value_of a pk = value_of b pk" for pk
  proof (cases "value_of a pk \<noteq> None \<or> value_of b pk \<noteq> None")
    case True
    then show ?thesis
      using changed_properties_get(1) [OF props] in_props plain_property_diff [OF plain scenes True, of io]
      by (fastforce split: sum.splits)
  next
    case False
    then show ?thesis using changed_properties_get(1) [OF props] in_props by auto
  qed
  then have empty: "props = [] \<longleftrightarrow> value_of a = value_of b"
    unfolding hm_empty_iff [of props] fun_eq_iff by simp
  have path: "get_node_path_res (ds_new_scene scope) i = Inr p \<Longrightarrow> p \<noteq> None" for p
    using scenes by (auto simp: get_node_path_res_def rbind_eq_Inr_iff)
  have "r = None \<longleftrightarrow> props = [] \<and> pg_type_or_instance a = pg_type_or_instance b"
    using diff props path by (auto simp: get_node_diff_both rbind_eq_Inr_iff split: if_splits)
  moreover have "nd_changed_properties d = props" if "r = Some d" for d
    using diff props that by (auto simp: get_node_diff_both rbind_eq_Inr_iff split: if_splits)
  ultimately show ?thesis using get empty by auto
qed

section \<open>A scene and itself\<close>

definition sub_refs_ranked :: "godot_scene \<Rightarrow> (string \<Rightarrow> nat) \<Rightarrow> bool" where
  "sub_refs_ranked sc rank \<longleftrightarrow>
     (\<forall>i r. hm_get (gs_sub_resources sc) i = Some r \<longrightarrow>
        hm_wf (sr_properties r) \<and> rank i \<le> length (gs_sub_resources sc) \<and>
        (\<forall>p\<in>snd ` set (sr_properties r). \<exists>v. get_varstr_value (prop_value p) = Inr v \<and>
           (\<forall>j. v = VSSubResourceID j \<and> hm_get (gs_sub_resources sc) j \<noteq> None \<longrightarrow> rank j < rank i)))"

text \<open>A scene whose property values are well formed and whose sub resources refer to each other without
  a cycle.\<close>

definition diffable :: "godot_scene \<Rightarrow> bool" where
  "diffable sc \<longleftrightarrow> (\<exists>rank. sub_refs_ranked sc rank) \<and>
     (\<forall>(i, n)\<in>set (gs_nodes sc). hm_wf (gn_properties n) \<and>
        (\<forall>p\<in>snd ` set (gn_properties n). \<exists>v. get_varstr_value (prop_value p) = Inr v))"

lemma get_varstr_value_not_default: "get_varstr_value s = Inr v \<Longrightarrow> v \<noteq> VSDefaultValue t p"
  by (auto simp: get_varstr_value_def rbind_eq_Inr_iff Let_def split: if_splits)

lemma props_changed_refl:
  assumes "\<forall>(k, p)\<in>set news. hm_get olds k = Some p \<and>
      (\<exists>v. get_varstr_value (prop_value p) = Inr v \<and> did_change v v = Inr False)"
  shows "props_changed did_change olds news = Inr False"
  using assms by (induction news) auto

definition value_need :: "godot_scene \<Rightarrow> (string \<Rightarrow> nat) \<Rightarrow> variant_str_value \<Rightarrow> nat" where
  "value_need sc rank v =
     (case v of
        VSSubResourceID j \<Rightarrow> if hm_get (gs_sub_resources sc) j = None then 0 else Suc (rank j)
      | _ \<Rightarrow> 0)"

lemma did_value_change_refl:
  assumes "sub_refs_ranked sc rank" and "\<forall>t p. v \<noteq> VSDefaultValue t p" and "value_need sc rank v < fuel"
  shows "did_value_change fuel sc sc v v = Inr False"
  using assms(2,3)
proof (induction fuel arbitrary: v)
  case (Suc fuel)
  show ?case
  proof (cases v)
    case (VSSubResourceID j)
    show ?thesis
    proof (cases "hm_get (gs_sub_resources sc) j")
      case None
      with VSSubResourceID show ?thesis by (simp add: did_sub_resource_change_def)
    next
      case (Some r)
      have wf: "hm_wf (sr_properties r)"
        and refs: "\<forall>p\<in>snd ` set (sr_properties r). \<exists>v. get_varstr_value (prop_value p) = Inr v \<and>
           (\<forall>k. v = VSSubResourceID k \<and> hm_get (gs_sub_resources sc) k \<noteq> None \<longrightarrow> rank k < rank j)"
        using assms(1) Some unfolding sub_refs_ranked_def by blast+
      have enough: "rank j < fuel" using Suc.prems(2) VSSubResourceID Some by (simp add: value_need_def)
      have "props_changed (\<lambda>a b. did_value_change fuel sc sc a b) (sr_properties r) (sr_properties r) = Inr False"
      proof (rule props_changed_refl, clarify)
        fix k p
        assume mem: "(k, p) \<in> set (sr_properties r)"
        then have "p \<in> snd ` set (sr_properties r)" by force
        with refs obtain w where w: "get_varstr_value (prop_value p) = Inr w"
          and lower: "\<forall>k. w = VSSubResourceID k \<and> hm_get (gs_sub_resources sc) k \<noteq> None \<longrightarrow> rank k < rank j"
          by blast
        have "value_need sc rank w < fuel"
          using lower enough by (auto simp: value_need_def split: variant_str_value.splits)
        with w have "did_value_change fuel sc sc w w = Inr False"
          by (intro Suc.IH) (auto dest: get_varstr_value_not_default)
        with w wf mem show "hm_get (sr_properties r) k = Some p \<and>
            (\<exists>v. get_varstr_value (prop_value p) = Inr v \<and> did_value_change fuel sc sc v v = Inr False)"
          by (auto simp: hm_get_eq_Some_iff)
      qed
      moreover have "\<forall>path\<in>set (hm_keys (sr_properties r)). hm_contains (sr_properties r) path"
        by (simp add: hm_contains_iff)
      ultimately show ?thesis using VSSubResourceID Some by (simp add: did_sub_resource_change_def)
    qed
  next
    case (VSExtResourceID j)
    then show ?thesis by (auto simp: did_ext_resource_reference_change_def split: option.splits)
  qed (use Suc.prems in auto)
qed simp

lemma property_diff_refl:
  assumes sc: "diffable sc" and n: "get_node sc i = Some n" and pk: "pk \<in> set (hm_keys (gn_properties n))"
    and scope: "ds_old_scene scope = Some sc" "ds_new_scene scope = Some sc"
  shows "get_property_diff io scope pk (Some (node_getter n)) (Some (node_getter n)) = Inr None"
proof -
  obtain rank where rank: "sub_refs_ranked sc rank" using sc by (auto simp: diffable_def)
  from pk obtain p where p: "hm_get (gn_properties n) pk = Some p"
    by (metis hm_get_None_iff not_None_eq)
  have "(i, n) \<in> set (gs_nodes sc)" using n by (simp add: get_node_def map_of_SomeD)
  moreover have "p \<in> snd ` set (gn_properties n)" using map_of_SomeD [OF p] by force
  ultimately obtain v where v: "get_varstr_value (prop_value p) = Inr v"
    using sc by (fastforce simp: diffable_def)
  have "value_need sc rank v < diff_fuel (Some sc) (Some sc)"
  proof (cases "\<exists>j. v = VSSubResourceID j \<and> hm_get (gs_sub_resources sc) j \<noteq> None")
    case True
    then obtain j where j: "v = VSSubResourceID j" "hm_get (gs_sub_resources sc) j \<noteq> None" by blast
    then have "rank j \<le> length (gs_sub_resources sc)"
      using rank unfolding sub_refs_ranked_def by blast
    also have "\<dots> \<le> length (gs_sub_resources sc) * length (gs_sub_resources sc)" by (rule le_square)
    finally show ?thesis using j by (auto simp: value_need_def diff_fuel_def)
  next
    case False
    then show ?thesis by (auto simp: value_need_def diff_fuel_def split: variant_str_value.splits)
  qed
  then have "did_value_change (diff_fuel (Some sc) (Some sc)) sc sc v v = Inr False"
    using get_varstr_value_not_default [OF v] by (intro did_value_change_refl [OF rank]) auto
  then show ?thesis
    using p v scope by (simp add: get_property_diff_def get_varstr_or_default_def node_getter_def
        did_prop_change_def)
qed

lemma fold_res_const: "(\<And>x. x \<in> set xs \<Longrightarrow> f x s = Inr s) \<Longrightarrow> fold_res f xs s = Inr s"
  by (induction xs) auto

lemma node_diff_refl:
  assumes sc: "diffable sc" and scope: "ds_old_scene scope = Some sc" "ds_new_scene scope = Some sc"
  shows "get_node_diff io scope i (map_option node_getter (get_node sc i))
    (map_option node_getter (get_node sc i)) = Inr None"
proof (cases "get_node sc i")
  case None
  then show ?thesis by (simp add: get_node_diff_def)
next
  case (Some n)
  have "changed_properties io scope (Some (node_getter n)) (Some (node_getter n)) = Inr []"
    unfolding changed_properties_def
  proof (rule fold_res_const)
    fix q
    assume "q \<in> set (all_props (Some (node_getter n)) (Some (node_getter n)))"
    then have "q \<in> set (hm_keys (gn_properties n))" by (simp add: all_props_set node_getter_def)
    from property_diff_refl [OF sc Some this scope]
    show "rbind (get_property_diff io scope q (Some (node_getter n)) (Some (node_getter n)))
        (\<lambda>d. Inr (case d of None \<Rightarrow> [] | Some d \<Rightarrow> hm_insert q d [])) = Inr []" by simp
  qed
  then show ?thesis using Some by (simp add: get_node_diff_both)
qed

section \<open>Panics\<close>

lemma split_str_from_none:
  "\<not> contains_str s p \<Longrightarrow> p \<noteq> [] \<Longrightarrow> split_str_from p cur s = [rev cur @ s]"
proof (induction s arbitrary: cur)
  case Nil
  then show ?case by (simp add: split_str_from.simps)
next
  case (Cons x s)
  then have "\<not> starts_with (x # s) p" "\<not> contains_str s p"
    by (auto simp: contains_str_def split: if_splits option.splits)
  with Cons show ?case by (subst split_str_from.simps) simp
qed

lemma get_varstr_value_panics:
  assumes "starts_with s ''Resource('' \<or> starts_with s ''SubResource('' \<or> starts_with s ''ExtResource(''"
    and "\<not> contains_str s [CHR ''('', quote_char]"
  shows "get_varstr_value s = Inl Panic"
  using assms split_str_from_none [OF assms(2)]
  by (simp add: get_varstr_value_def split_str_def str_nth_def)

lemma concat_some:
  "map (map_option f) xs = map Some ys \<Longrightarrow> map f (concat (map (case_option [] (\<lambda>d. [d])) xs)) = ys"
proof (induction xs arbitrary: ys)
  case (Cons x xs)
  then show ?case by (cases ys; cases x) auto
qed simp

section \<open>Properties\<close>

text \<open>The diff of a scene and itself lists no node, and computing it ends, for every scene whose
  property values are well formed and whose sub resources do not refer to each other in a circle.\<close>

theorem scene_diff_refl:
  assumes "diffable sc" and "ds_old_scene scope = Some sc" and "ds_new_scene scope = Some sc"
  shows "get_scene_diff io scope path =
    Inr \<lparr>scd_path = path, scd_change_type = Modified, scd_changed_nodes = []\<rparr>"
proof -
  have "collect_res (\<lambda>i. get_node_diff io scope i
      (map_option node_getter (Option.bind (ds_old_scene scope) (\<lambda>s. get_node s i)))
      (map_option node_getter (Option.bind (ds_new_scene scope) (\<lambda>s. get_node s i)))) ids =
    Inr (map (\<lambda>_. None) ids)" for ids
    by (rule collect_res_map_Inr) (simp add: assms(2,3) node_diff_refl [OF assms])
  then show ?thesis
    by (simp add: get_scene_diff_def diff_change_type_def assms(2,3) comp_def)
qed

definition demo_sub :: "string \<Rightarrow> (string \<times> string) list \<Rightarrow> sub_resource_node" where
  "demo_sub i ps = \<lparr>sr_id = i, sr_resource_type = ''Mat'',
     sr_properties = map (\<lambda>(k, v). (k, \<lparr>prop_value = v, prop_order = 0\<rparr>)) ps, sr_idx = 0\<rparr>"

definition demo_diff_node :: "(string \<times> string) list \<Rightarrow> godot_node" where
  "demo_diff_node ps = \<lparr>gn_id = mk_node_id 7 None, gn_name = ''N'', gn_type_or_instance = Some (Type ''Node''),
     gn_instance_placeholder = None, gn_parent_id = None, gn_parent_path_fallback = None,
     gn_parent_id_path = None, gn_owner = None, gn_owner_uid_path = None, gn_index = None,
     gn_groups = None, gn_node_paths = None,
     gn_properties = map (\<lambda>(k, v). (k, \<lparr>prop_value = v, prop_order = 0\<rparr>)) ps, gn_child_node_ids = []\<rparr>"

definition demo_diff_scene ::
  "(string \<times> string) list \<Rightarrow> (string \<times> string) list \<Rightarrow> godot_scene" where
  "demo_diff_scene ps subs = \<lparr>gs_load_steps = 0, gs_format = 3, gs_uid = ''u'', gs_script_class = None,
     gs_resource_type = ''PackedScene'', gs_root_node_id = Some (mk_node_id 7 None), gs_ext_resources = [],
     gs_sub_resources = [(''m'', demo_sub ''m'' subs)],
     gs_nodes = [(mk_node_id 7 None, demo_diff_node ps)], gs_connections = [],
     gs_editable_instances = [], gs_main_resource = None\<rparr>"

definition demo_ref :: "(bool, bool) history_ref" where
  "demo_ref = \<lparr>hr_branch = True, hr_heads = [False]\<rparr>"

definition demo_scope :: "godot_scene \<Rightarrow> godot_scene \<Rightarrow> (bool, bool) diff_scope" where
  "demo_scope old_scene new_scene = \<lparr>ds_old_scene = Some old_scene, ds_new_scene = Some new_scene,
     ds_before = demo_ref, ds_after = demo_ref\<rparr>"

definition sub_ref :: string where
  "sub_ref = ''SubResource('' @ quoted ''m'' @ '')''"

lemma sub_ref_value: "get_varstr_value sub_ref = Inr (VSSubResourceID ''m'')"
  by code_simp

lemma one_varstr: "get_varstr_value ''1'' = Inr (VSVariant ''1'')"
  by code_simp

lemma demo_diffable: "diffable (demo_diff_scene [(''mat'', sub_ref), (''x'', ''1'')] [(''c'', ''1'')])"
proof -
  have "sub_refs_ranked (demo_diff_scene [(''mat'', sub_ref), (''x'', ''1'')] [(''c'', ''1'')]) (\<lambda>_. 0)"
    by (auto simp: sub_refs_ranked_def demo_diff_scene_def demo_sub_def hm_wf_def one_varstr split: if_splits)
  then show ?thesis
    by (auto simp: diffable_def demo_diff_scene_def demo_diff_node_def hm_wf_def one_varstr sub_ref_value)
qed

theorem scene_diff_refl_witness:
  "get_scene_diff demo_io (demo_scope (demo_diff_scene [(''mat'', sub_ref), (''x'', ''1'')] [(''c'', ''1'')])
      (demo_diff_scene [(''mat'', sub_ref), (''x'', ''1'')] [(''c'', ''1'')])) ''a.tscn'' =
    Inr \<lparr>scd_path = ''a.tscn'', scd_change_type = Modified, scd_changed_nodes = []\<rparr>"
  by (rule scene_diff_refl [OF demo_diffable]) (simp_all add: demo_scope_def)

text \<open>For a node in both scenes whose property values are plain, the diff is exact: the node is left
  out precisely if its type and all its property values are the same, and a property is listed
  precisely if its value changed, appeared or disappeared.\<close>

theorem node_diff_exact:
  assumes "get_node_diff io scope i (Some a) (Some b) = Inr r" and "plain_node a" and "plain_node b"
    and "ds_old_scene scope = Some sa" and "ds_new_scene scope = Some sb"
  shows "(r = None \<longleftrightarrow> pg_type_or_instance a = pg_type_or_instance b \<and> value_of a = value_of b) \<and>
    (\<forall>d pk. r = Some d \<longrightarrow>
       (hm_get (nd_changed_properties d) pk \<noteq> None \<longleftrightarrow> value_of a pk \<noteq> value_of b pk))"
  using assms by (rule node_diff_plain)

theorem node_diff_exact_witness:
  "\<exists>r. get_node_diff demo_io (demo_scope (demo_diff_scene [(''x'', ''1'')] []) (demo_diff_scene [(''y'', ''1'')] []))
      (mk_node_id 7 None) (Some (node_getter (demo_diff_node [(''x'', ''1'')])))
      (Some (node_getter (demo_diff_node [(''y'', ''1'')]))) = Inr r \<and> r \<noteq> None"
proof -
  define r where "r = the (get_ok (get_node_diff demo_io (demo_scope (demo_diff_scene [(''x'', ''1'')] [])
      (demo_diff_scene [(''y'', ''1'')] [])) (mk_node_id 7 None)
      (Some (node_getter (demo_diff_node [(''x'', ''1'')]))) (Some (node_getter (demo_diff_node [(''y'', ''1'')])))))"
  have run: "get_node_diff demo_io (demo_scope (demo_diff_scene [(''x'', ''1'')] [])
      (demo_diff_scene [(''y'', ''1'')] [])) (mk_node_id 7 None)
      (Some (node_getter (demo_diff_node [(''x'', ''1'')]))) (Some (node_getter (demo_diff_node [(''y'', ''1'')]))) = Inr r"
    unfolding r_def by code_simp
  have plain: "plain_node (node_getter (demo_diff_node [(''x'', ''1'')]))"
    "plain_node (node_getter (demo_diff_node [(''y'', ''1'')]))"
    by (simp_all add: plain_node_def node_getter_def demo_diff_node_def plain_value_def starts_with_def)
  have "value_of (node_getter (demo_diff_node [(''x'', ''1'')])) ''x'' \<noteq>
      value_of (node_getter (demo_diff_node [(''y'', ''1'')])) ''x''"
    by (simp add: value_of_def node_getter_def demo_diff_node_def)
  then have "r \<noteq> None"
    using node_diff_exact [OF run plain] by (auto simp: demo_scope_def)
  with run show ?thesis by blast
qed

text \<open>A property that refers to a sub resource is reported as unchanged when a property was added to
  the sub resource, even if values of others changed as well: the loop ends at the first added
  property with the answer no.\<close>

theorem added_sub_property_hidden:
  assumes "ds_old_scene scope = Some sa" and "ds_new_scene scope = Some sb"
    and "hm_get (pg_properties a) pk = Some pa" and "get_varstr_value (prop_value pa) = Inr (VSSubResourceID i)"
    and "hm_get (pg_properties b) pk = Some pb" and "get_varstr_value (prop_value pb) = Inr (VSSubResourceID j)"
    and "hm_get (gs_sub_resources sa) i = Some ra" and "hm_get (gs_sub_resources sb) j = Some rb"
    and "sr_resource_type ra = sr_resource_type rb"
    and "set (hm_keys (sr_properties ra)) \<subseteq> set (hm_keys (sr_properties rb))"
    and "sr_properties rb = (added, v) # rest" and "hm_get (sr_properties ra) added = None"
  shows "get_property_diff io scope pk (Some a) (Some b) = Inr None"
proof -
  have kept: "\<forall>path\<in>set (hm_keys (sr_properties ra)). hm_contains (sr_properties rb) path"
    using assms(10) unfolding hm_contains_iff by blast
  have "did_sub_resource_change chk (Some ra) (Some rb) = Inr False" for chk
    using assms(9,11,12) kept by (auto simp: did_sub_resource_change_def)
  then show ?thesis
    using assms(1-8) diff_fuel_Suc [of "Some sa" "Some sb"]
    by (auto simp: get_property_diff_def get_varstr_or_default_def did_prop_change_def)
qed

theorem added_sub_property_hidden_witness:
  "get_property_diff demo_io (demo_scope (demo_diff_scene [(''mat'', sub_ref)] [(''c'', ''1'')])
      (demo_diff_scene [(''mat'', sub_ref)] [(''d'', ''5''), (''c'', ''2'')])) ''mat''
    (Some (node_getter (demo_diff_node [(''mat'', sub_ref)])))
    (Some (node_getter (demo_diff_node [(''mat'', sub_ref)]))) = Inr None"
proof (rule added_sub_property_hidden)
  let ?old = "demo_diff_scene [(''mat'', sub_ref)] [(''c'', ''1'')]"
  let ?new = "demo_diff_scene [(''mat'', sub_ref)] [(''d'', ''5''), (''c'', ''2'')]"
  let ?n = "node_getter (demo_diff_node [(''mat'', sub_ref)])"
  let ?p = "\<lparr>prop_value = sub_ref, prop_order = 0\<rparr>"
  show "ds_old_scene (demo_scope ?old ?new) = Some ?old" "ds_new_scene (demo_scope ?old ?new) = Some ?new"
    by (simp_all add: demo_scope_def)
  show "hm_get (pg_properties ?n) ''mat'' = Some ?p" "hm_get (pg_properties ?n) ''mat'' = Some ?p"
    by (simp_all add: node_getter_def demo_diff_node_def)
  show "get_varstr_value (prop_value ?p) = Inr (VSSubResourceID ''m'')"
    "get_varstr_value (prop_value ?p) = Inr (VSSubResourceID ''m'')" by (simp_all add: sub_ref_value)
  show "hm_get (gs_sub_resources ?old) ''m'' = Some (demo_sub ''m'' [(''c'', ''1'')])"
    "hm_get (gs_sub_resources ?new) ''m'' = Some (demo_sub ''m'' [(''d'', ''5''), (''c'', ''2'')])"
    by (simp_all add: demo_diff_scene_def)
  show "sr_properties (demo_sub ''m'' [(''d'', ''5''), (''c'', ''2'')]) =
      (''d'', \<lparr>prop_value = ''5'', prop_order = 0\<rparr>) # [(''c'', \<lparr>prop_value = ''2'', prop_order = 0\<rparr>)]"
    by (simp add: demo_sub_def)
qed (simp_all add: demo_sub_def)

text \<open>The diff of a text resource lists every sub resource of either version, changed or not (the
  code's comment says that unchanged ones are skipped).\<close>

theorem text_resource_diff_lists_all:
  assumes "get_text_resource_diff io scope path = Inr d"
  shows "sd_sub_resource_id ` set (trd_changed_sub_resources d) =
    (case ds_old_scene scope of None \<Rightarrow> {} | Some s \<Rightarrow> set (hm_keys (gs_sub_resources s))) \<union>
    (case ds_new_scene scope of None \<Rightarrow> {} | Some s \<Rightarrow> set (hm_keys (gs_sub_resources s)))"
proof -
  let ?sub = "\<lambda>scene i. Option.bind scene (\<lambda>s. hm_get (gs_sub_resources s) i)"
  let ?ids = "ids_of (\<lambda>s. hm_keys (gs_sub_resources s)) (ds_old_scene scope) (ds_new_scene scope)"
  obtain subs where subs: "collect_res (\<lambda>i. get_sub_resource_diff io scope i (?sub (ds_old_scene scope) i)
      (?sub (ds_new_scene scope) i)) ?ids = Inr subs"
    and d: "trd_changed_sub_resources d = concat (map (case_option [] (\<lambda>d. [d])) subs)"
    using assms by (auto simp: get_text_resource_diff_def rbind_eq_Inr_iff Let_def)
  have "map (map_option sd_sub_resource_id) subs = map Some ?ids"
  proof (rule collect_res_map_eq [OF subs])
    fix i y
    assume "i \<in> set ?ids"
    then have "?sub (ds_old_scene scope) i \<noteq> None \<or> ?sub (ds_new_scene scope) i \<noteq> None"
      unfolding ids_of_set
      by (cases "ds_old_scene scope"; cases "ds_new_scene scope")
        (auto simp del: not_None_eq list.set_map simp: hm_get_None_iff)
    moreover assume "get_sub_resource_diff io scope i (?sub (ds_old_scene scope) i)
      (?sub (ds_new_scene scope) i) = Inr y"
    ultimately show "map_option sd_sub_resource_id y = Some i"
      by (auto simp: get_sub_resource_diff_def rbind_eq_Inr_iff split: if_splits)
  qed
  then have "map sd_sub_resource_id (concat (map (case_option [] (\<lambda>d. [d])) subs)) = ?ids"
    by (rule concat_some)
  then show ?thesis unfolding d by (metis ids_of_set list.set_map)
qed

theorem text_resource_diff_lists_all_witness:
  "\<exists>d. get_text_resource_diff demo_io (demo_scope (demo_diff_scene [] [(''c'', ''1'')])
      (demo_diff_scene [] [(''c'', ''1'')])) ''a.tres'' = Inr d \<and>
    sd_sub_resource_id ` set (trd_changed_sub_resources d) = {''m''}"
proof -
  define d where "d = the (get_ok (get_text_resource_diff demo_io (demo_scope (demo_diff_scene [] [(''c'', ''1'')])
      (demo_diff_scene [] [(''c'', ''1'')])) ''a.tres''))"
  have run: "get_text_resource_diff demo_io (demo_scope (demo_diff_scene [] [(''c'', ''1'')])
      (demo_diff_scene [] [(''c'', ''1'')])) ''a.tres'' = Inr d"
    unfolding d_def by code_simp
  from text_resource_diff_lists_all [OF run] run show ?thesis
    by (auto simp: demo_scope_def demo_diff_scene_def)
qed

end
