(* ===== verification/Project_Diff.thy ===== *)
theory Project_Diff imports Scene_Diff_Properties File_Content begin

text \<open>
  \<open>diff/differ.rs\<close>, \<open>diff/text_differ.rs\<close> and \<open>diff/resource_differ.rs\<close>: the diff of a project between two
  history references. The line diff is the library \<open>similar\<close>: the argument \<open>hunks_of\<close> gives its hunks.
  The two reads of the branch database are the record \<open>diff_db\<close>; a failed read is \<open>None\<close>.
\<close>

section \<open>Text files\<close>

datatype change_tag = TagEqual | TagDelete | TagInsert

record similar_change =
  sim_old_index :: "nat option"
  sim_new_index :: "nat option"
  sim_text :: string
  sim_tag :: change_tag

text \<open>The operations of a hunk, as old and new ranges, and its changes.\<close>

record similar_hunk =
  sim_ops :: "((nat \<times> nat) \<times> (nat \<times> nat)) list"
  sim_changes :: "similar_change list"

record text_diff_line =
  tl_new_line_no :: int
  tl_old_line_no :: int
  tl_content :: string
  tl_status :: string

record text_diff_hunk =
  th_new_start :: int
  th_old_start :: int
  th_new_lines :: int
  th_old_lines :: int
  th_diff_lines :: "text_diff_line list"

record text_diff =
  td_path :: string
  td_diff_hunks :: "text_diff_hunk list"
  td_change_type :: change_type

definition get_range :: "((nat \<times> nat) \<times> (nat \<times> nat)) list \<Rightarrow> (unit, int \<times> int \<times> int \<times> int) outcome" where
  "get_range ops =
     (if ops = [] then Inl Panic
      else let ((old_start, _), (new_start, _)) = hd ops;
               ((_, old_end), (_, new_end)) = last ops
           in Inr (int old_start + 1, int new_start + 1,
                int old_end - int old_start, int new_end - int new_start))"

definition line_no :: "nat option \<Rightarrow> int" where
  "line_no i = (case i of None \<Rightarrow> -1 | Some i \<Rightarrow> int i + 1)"

definition tag_status :: "change_tag \<Rightarrow> string" where
  "tag_status t = (case t of TagEqual \<Rightarrow> '' '' | TagDelete \<Rightarrow> ''-'' | TagInsert \<Rightarrow> ''+'')"

definition text_hunk :: "similar_hunk \<Rightarrow> (unit, text_diff_hunk) outcome" where
  "text_hunk h =
     rbind (get_range (sim_ops h)) (\<lambda>(old_start, new_start, old_lines, new_lines).
     Inr \<lparr>th_new_start = new_start, th_old_start = old_start, th_new_lines = new_lines,
          th_old_lines = old_lines,
          th_diff_lines = map (\<lambda>c. \<lparr>tl_new_line_no = line_no (sim_new_index c),
            tl_old_line_no = line_no (sim_old_index c), tl_content = sim_text c,
            tl_status = tag_status (sim_tag c)\<rparr>) (sim_changes h)\<rparr>)"

definition text_diff_create ::
  "(string \<Rightarrow> string \<Rightarrow> similar_hunk list) \<Rightarrow> string \<Rightarrow> string \<Rightarrow> string \<Rightarrow> change_type \<Rightarrow>
   (unit, text_diff) outcome" where
  "text_diff_create hunks_of path old_text new_text change_type =
     rbind (collect_res text_hunk (hunks_of old_text new_text)) (\<lambda>hunks.
     Inr \<lparr>td_path = path, td_diff_hunks = hunks, td_change_type = change_type\<rparr>)"

definition unified_line :: "text_diff_line \<Rightarrow> string" where
  "unified_line l = tl_status l @ tl_content l @ (if ends_with (tl_content l) [nl] then [] else [nl])"

definition unified_hunk :: "text_diff_hunk \<Rightarrow> string" where
  "unified_hunk h =
     ''@@ -'' @ show_int (th_old_start h) @ '','' @ show_int (th_old_lines h) @ '' +'' @
     show_int (th_new_start h) @ '','' @ show_int (th_new_lines h) @ '' @@'' @ [nl] @
     concat (map unified_line (th_diff_lines h))"

definition to_unified :: "text_diff \<Rightarrow> string" where
  "to_unified d =
     ''--- '' @ td_path d @ [nl] @ ''+++ '' @ td_path d @ [nl] @ concat (map unified_hunk (td_diff_hunks d))"

definition td_is_empty :: "text_diff \<Rightarrow> bool" where
  "td_is_empty d \<longleftrightarrow> td_diff_hunks d = [] \<and> td_path d = []"

definition content_to_cow :: "file_content option \<Rightarrow> (unit, string) outcome" where
  "content_to_cow content =
     (case content of
        Some (CBinary _) \<Rightarrow> Inr ''<BINARY DATA>''
      | Some content \<Rightarrow> as_str content
      | None \<Rightarrow> Inr [])"

definition get_text_diff ::
  "(string \<Rightarrow> string \<Rightarrow> similar_hunk list) \<Rightarrow> string \<Rightarrow> change_type \<Rightarrow> file_content option \<Rightarrow>
   file_content option \<Rightarrow> (unit, text_diff) outcome" where
  "get_text_diff hunks_of path change_type old_content new_content =
     rbind (content_to_cow old_content) (\<lambda>old_text.
     rbind (content_to_cow new_content) (\<lambda>new_text.
     text_diff_create hunks_of path old_text new_text change_type))"

section \<open>Binary resources\<close>

record binary_resource_diff =
  brd_path :: string
  brd_change_type :: change_type
  brd_old_resource :: "variant_value option"
  brd_new_resource :: "variant_value option"

definition get_resource ::
  "('d, 'h) id_io \<Rightarrow> string \<Rightarrow> file_content option \<Rightarrow> ('d, 'h) history_ref \<Rightarrow>
   (unit, variant_value option) outcome" where
  "get_resource io path content r =
     (if content = None then Inr None else rbind (load_value io path r) (\<lambda>v. Inr (Some v)))"

definition get_binary_resource_diff ::
  "('d, 'h) id_io \<Rightarrow> string \<Rightarrow> change_type \<Rightarrow> file_content option \<Rightarrow> file_content option \<Rightarrow>
   ('d, 'h) history_ref \<Rightarrow> ('d, 'h) history_ref \<Rightarrow> (unit, binary_resource_diff) outcome" where
  "get_binary_resource_diff io path change_type old_content new_content before after =
     rbind (get_resource io path old_content before) (\<lambda>old_resource.
     rbind (get_resource io path new_content after) (\<lambda>new_resource.
     Inr \<lparr>brd_path = path, brd_change_type = change_type, brd_old_resource = old_resource,
          brd_new_resource = new_resource\<rparr>))"

section \<open>The project\<close>

datatype diff =
    DScene scene_diff
  | DTextResource text_resource_diff
  | DBinaryResource binary_resource_diff
  | DText text_diff

fun get_diff_file_path :: "diff \<Rightarrow> string" where
  "get_diff_file_path (DScene d) = scd_path d"
| "get_diff_file_path (DTextResource d) = trd_path d"
| "get_diff_file_path (DBinaryResource d) = brd_path d"
| "get_diff_file_path (DText d) = td_path d"

record ('d, 'h) diff_db =
  db_changed_files :: "('d, 'h) history_ref \<Rightarrow> ('d, 'h) history_ref \<Rightarrow> (string, change_type) hmap option"
  db_files_at :: "('d, 'h) history_ref \<Rightarrow> string list \<Rightarrow> (string, file_content) hmap option"

text \<open>\<open>is_new\<close> and the path of an instanced scene that a node's type waits for.\<close>

type_synonym needed_scene = "nat \<times> bool \<times> string"

record diff_state =
  dst_diffs :: "diff list"
  dst_old_scenes_to_load :: "string list"
  dst_new_scenes_to_load :: "string list"
  dst_needed :: "(nat \<times> needed_scene list) list"

fun scene_root_type :: "file_content option \<Rightarrow> type_or_instance option option" where
  "scene_root_type (Some (CScene sc)) = Some (get_root_node_type sc)"
| "scene_root_type _ = None"

text \<open>
  What the loop over the changed nodes decides for one node: nothing, the type found in the files at
  hand, or the scene to load. The unwrap of the scene is a panic.
\<close>

datatype node_type_result = KeepType | FoundType "type_or_instance option" | NeedScene bool string

definition instance_type ::
  "godot_scene option \<Rightarrow> godot_scene option \<Rightarrow> (string, file_content) hmap \<Rightarrow>
   (string, file_content) hmap \<Rightarrow> node_diff \<Rightarrow> (unit, node_type_result) outcome" where
  "instance_type old_scene new_scene old_contents new_contents d =
     (case nd_node_type d of
        Some (Instance instance_id) \<Rightarrow>
          let is_new = (nd_change_type d = Modified \<or> nd_change_type d = Created)
          in rbind (unwrap (if is_new then new_scene else old_scene)) (\<lambda>scene.
             Inr (case get_ext_resource_path scene instance_id of
                    None \<Rightarrow> KeepType
                  | Some instance_path \<Rightarrow>
                      (case scene_root_type (hm_get (if is_new then new_contents else old_contents) instance_path) of
                         Some t \<Rightarrow> FoundType t
                       | None \<Rightarrow> NeedScene is_new instance_path)))
      | _ \<Rightarrow> Inr KeepType)"

fun apply_type :: "node_diff \<Rightarrow> node_type_result \<Rightarrow> node_diff" where
  "apply_type d (FoundType t) = d\<lparr>nd_node_type := t\<rparr>"
| "apply_type d _ = d"

definition needed_of :: "node_type_result list \<Rightarrow> needed_scene list" where
  "needed_of rs = concat (map (\<lambda>(i, r). case r of NeedScene is_new p \<Rightarrow> [(i, is_new, p)] | _ \<Rightarrow> [])
     (enumerate 0 rs))"

definition add_scene_diff ::
  "godot_scene option \<Rightarrow> godot_scene option \<Rightarrow> (string, file_content) hmap \<Rightarrow>
   (string, file_content) hmap \<Rightarrow> scene_diff \<Rightarrow> diff_state \<Rightarrow> (unit, diff_state) outcome" where
  "add_scene_diff old_scene new_scene old_contents new_contents d st =
     rbind (collect_res (instance_type old_scene new_scene old_contents new_contents)
              (scd_changed_nodes d)) (\<lambda>rs.
     let needed = needed_of rs
     in Inr (st\<lparr>
       dst_diffs := dst_diffs st @
         [DScene (d\<lparr>scd_changed_nodes := map2 apply_type (scd_changed_nodes d) rs\<rparr>)],
       dst_old_scenes_to_load := fold hs_insert
         (map (\<lambda>(_, _, p). p) (filter (\<lambda>(_, is_new, _). \<not> is_new) needed)) (dst_old_scenes_to_load st),
       dst_new_scenes_to_load := fold hs_insert
         (map (\<lambda>(_, _, p). p) (filter (\<lambda>(_, is_new, _). is_new) needed)) (dst_new_scenes_to_load st),
       dst_needed := (if needed = [] then dst_needed st
         else dst_needed st @ [(length (dst_diffs st), needed)])\<rparr>))"

fun is_scene :: "file_content option \<Rightarrow> bool" where
  "is_scene (Some (CScene _)) = True"
| "is_scene _ = False"

fun is_text :: "file_content option \<Rightarrow> bool" where
  "is_text (Some (CString _)) = True"
| "is_text _ = False"

fun is_binary :: "file_content option \<Rightarrow> bool" where
  "is_binary (Some (CBinary _)) = True"
| "is_binary _ = False"

fun scene_of :: "file_content option \<Rightarrow> godot_scene option" where
  "scene_of (Some (CScene sc)) = Some sc"
| "scene_of _ = None"

definition diff_resource_type :: "godot_scene option \<Rightarrow> godot_scene option \<Rightarrow> string" where
  "diff_resource_type old_scene new_scene =
     (case (old_scene, new_scene) of
        (None, Some s) \<Rightarrow> gs_resource_type s | (Some s, None) \<Rightarrow> gs_resource_type s
      | (_, Some s) \<Rightarrow> gs_resource_type s | _ \<Rightarrow> [])"

definition diff_file ::
  "('d, 'h) id_io \<Rightarrow> (string \<Rightarrow> string \<Rightarrow> similar_hunk list) \<Rightarrow> ('d, 'h) history_ref \<Rightarrow>
   ('d, 'h) history_ref \<Rightarrow> (string, file_content) hmap \<Rightarrow> (string, file_content) hmap \<Rightarrow>
   string \<times> change_type \<Rightarrow> diff_state \<Rightarrow> (unit, diff_state) outcome" where
  "diff_file io hunks_of before after old_contents new_contents pc st =
     (let path = fst pc; change_type = snd pc;
          old = hm_get old_contents path; new = hm_get new_contents path;
          push = (\<lambda>d. st\<lparr>dst_diffs := dst_diffs st @ [d]\<rparr>);
          scope = \<lparr>ds_old_scene = scene_of old, ds_new_scene = scene_of new, ds_before = before, ds_after = after\<rparr>
      in if is_scene old \<or> is_scene new
         then (if is_text old \<or> is_text new
               then rbind (get_text_diff hunks_of path change_type old new) (\<lambda>d. Inr (push (DText d)))
               else if diff_resource_type (scene_of old) (scene_of new) = ''PackedScene''
               then rbind (get_scene_diff io scope path)
                      (\<lambda>d. add_scene_diff (scene_of old) (scene_of new) old_contents new_contents d st)
               else rbind (get_text_resource_diff io scope path) (\<lambda>d. Inr (push (DTextResource d))))
         else if is_binary old \<or> is_binary new
         then rbind (get_binary_resource_diff io path change_type old new before after)
                (\<lambda>d. Inr (push (DBinaryResource d)))
         else if is_text old \<or> is_text new
         then rbind (get_text_diff hunks_of path change_type old new) (\<lambda>d. Inr (push (DText d)))
         else Inr st)"

text \<open>The types of instanced nodes from the scenes loaded afterwards; as in the code, \<open>is_new\<close> selects
  the scenes of the old reference.\<close>

definition set_needed_type ::
  "(string, file_content) hmap \<Rightarrow> (string, file_content) hmap \<Rightarrow> needed_scene \<Rightarrow> node_diff list \<Rightarrow> node_diff list" where
  "set_needed_type old_needed new_needed n nodes =
     (case n of (i, is_new, path) \<Rightarrow>
        (case scene_root_type (hm_get (if is_new then old_needed else new_needed) path) of
           None \<Rightarrow> nodes
         | Some t \<Rightarrow> nodes[i := (nodes ! i)\<lparr>nd_node_type := t\<rparr>]))"

definition set_needed_types ::
  "(string, file_content) hmap \<Rightarrow> (string, file_content) hmap \<Rightarrow> (nat \<times> needed_scene list) list \<Rightarrow>
   diff list \<Rightarrow> diff list" where
  "set_needed_types old_needed new_needed needed diffs =
     fold (\<lambda>(i, ns) diffs. diffs[i := (case diffs ! i of
         DScene d \<Rightarrow> DScene (d\<lparr>scd_changed_nodes :=
           fold (set_needed_type old_needed new_needed) ns (scd_changed_nodes d)\<rparr>)
       | d \<Rightarrow> d)]) needed diffs"

definition get_diff ::
  "('d, 'h) id_io \<Rightarrow> (string \<Rightarrow> string \<Rightarrow> similar_hunk list) \<Rightarrow> ('d, 'h) diff_db \<Rightarrow>
   ('d, 'h) history_ref \<Rightarrow> ('d, 'h) history_ref \<Rightarrow> (unit, diff list option) outcome" where
  "get_diff io hunks_of db before after =
     (if before = after then Inr None
      else case db_changed_files db before after of
             None \<Rightarrow> Inr None
           | Some changed \<Rightarrow>
               if changed = [] then Inr None
               else case (db_files_at db after (hm_keys changed), db_files_at db before (hm_keys changed)) of
                      (Some new_contents, Some old_contents) \<Rightarrow>
                        rbind (fold_res (diff_file io hunks_of before after old_contents new_contents) changed
                            \<lparr>dst_diffs = [], dst_old_scenes_to_load = [], dst_new_scenes_to_load = [],
                             dst_needed = []\<rparr>) (\<lambda>st.
                        let old_needed = (case db_files_at db before (dst_old_scenes_to_load st) of
                              None \<Rightarrow> [] | Some m \<Rightarrow> m);
                            new_needed = (case db_files_at db after (dst_new_scenes_to_load st) of
                              None \<Rightarrow> [] | Some m \<Rightarrow> m)
                        in Inr (Some (sort_key get_diff_file_path
                             (set_needed_types old_needed new_needed (dst_needed st) (dst_diffs st)))))
                    | _ \<Rightarrow> Inr None)"

section \<open>Lemmas\<close>

lemma map_update_same: "f y = f (xs ! i) \<Longrightarrow> map f (xs[i := y]) = map f xs"
  by (cases "i < length xs") (metis list_update_id map_update, simp add: list_update_beyond)

lemma set_needed_types_paths:
  "map get_diff_file_path (set_needed_types old_needed new_needed needed diffs) = map get_diff_file_path diffs"
proof (induction needed arbitrary: diffs)
  case Nil
  then show ?case by (simp add: set_needed_types_def)
next
  case (Cons n needed)
  obtain i ns where n: "n = (i, ns)" by (cases n)
  let ?d = "case diffs ! i of
      DScene d \<Rightarrow> DScene (d\<lparr>scd_changed_nodes :=
        fold (set_needed_type old_needed new_needed) ns (scd_changed_nodes d)\<rparr>)
    | d \<Rightarrow> d"
  have "get_diff_file_path ?d = get_diff_file_path (diffs ! i)" by (cases "diffs ! i") simp_all
  then have "map get_diff_file_path (diffs[i := ?d]) = map get_diff_file_path diffs"
    by (rule map_update_same)
  with Cons.IH [of "diffs[i := ?d]"] show ?case by (simp add: set_needed_types_def n)
qed

lemma set_needed_type_new_missing:
  "is_new \<Longrightarrow> set_needed_type [] new_needed (i, is_new, path) nodes = nodes"
  by (simp add: set_needed_type_def)

lemma fold_id: "(\<And>x. x \<in> set xs \<Longrightarrow> f x s = s) \<Longrightarrow> fold f xs s = s"
  by (induction xs) auto

definition has_diff :: "(string, file_content) hmap \<Rightarrow> (string, file_content) hmap \<Rightarrow> string \<Rightarrow> bool" where
  "has_diff old_contents new_contents path \<longleftrightarrow>
     hm_get old_contents path \<noteq> None \<or> hm_get new_contents path \<noteq> None"

lemma content_kind:
  "c \<noteq> None \<longleftrightarrow> is_scene c \<or> is_binary c \<or> is_text c"
  by (cases c rule: is_scene.cases) auto

lemma diff_file_path:
  assumes "diff_file io hunks_of before after old_contents new_contents pc st = Inr st'"
  shows "map get_diff_file_path (dst_diffs st') = map get_diff_file_path (dst_diffs st) @
    (if has_diff old_contents new_contents (fst pc) then [fst pc] else [])"
proof -
  let ?old = "hm_get old_contents (fst pc)" and ?new = "hm_get new_contents (fst pc)"
  have has: "has_diff old_contents new_contents (fst pc) \<longleftrightarrow>
      is_scene ?old \<or> is_scene ?new \<or> is_binary ?old \<or> is_binary ?new \<or> is_text ?old \<or> is_text ?new"
    by (auto simp: has_diff_def content_kind simp del: not_None_eq)
  show ?thesis
    using assms unfolding has
    by (auto simp: diff_file_def Let_def rbind_eq_Inr_iff get_text_diff_def text_diff_create_def
        get_scene_diff_def add_scene_diff_def get_text_resource_diff_def get_binary_resource_diff_def
        split: if_split_asm)
qed

lemma diff_files_paths:
  "fold_res (diff_file io hunks_of before after old_contents new_contents) changed st = Inr st' \<Longrightarrow>
     map get_diff_file_path (dst_diffs st') = map get_diff_file_path (dst_diffs st) @
       filter (has_diff old_contents new_contents) (map fst changed)"
proof (induction changed arbitrary: st)
  case (Cons pc changed)
  then obtain st1 where st1: "diff_file io hunks_of before after old_contents new_contents pc st = Inr st1"
    and rest: "fold_res (diff_file io hunks_of before after old_contents new_contents) changed st1 = Inr st'"
    by (auto simp: rbind_eq_Inr_iff)
  from Cons.IH [OF rest] diff_file_path [OF st1] show ?case by simp
qed simp

section \<open>Properties\<close>

text \<open>C16: the diff of a project has exactly one entry for every changed file that has a content at one of
  the references, sorted by path.\<close>

theorem get_diff_files:
  assumes "get_diff io hunks_of db before after = Inr (Some ds)"
    and "db_changed_files db before after = Some changed"
    and "db_files_at db before (hm_keys changed) = Some old_contents"
    and "db_files_at db after (hm_keys changed) = Some new_contents"
  shows "map get_diff_file_path ds = sort (filter (\<lambda>path.
    hm_get old_contents path \<noteq> None \<or> hm_get new_contents path \<noteq> None) (hm_keys changed))"
proof -
  obtain st needed1 needed2 where
    st: "fold_res (diff_file io hunks_of before after old_contents new_contents) changed
      \<lparr>dst_diffs = [], dst_old_scenes_to_load = [], dst_new_scenes_to_load = [], dst_needed = []\<rparr> = Inr st"
    and ds: "ds = sort_key get_diff_file_path (set_needed_types needed1 needed2 (dst_needed st) (dst_diffs st))"
    using assms by (auto simp: get_diff_def rbind_eq_Inr_iff Let_def split: if_split_asm)
  have "mset (map get_diff_file_path ds) =
      mset (map get_diff_file_path (set_needed_types needed1 needed2 (dst_needed st) (dst_diffs st)))"
    by (simp add: ds)
  also have "map get_diff_file_path (set_needed_types needed1 needed2 (dst_needed st) (dst_diffs st)) =
      filter (has_diff old_contents new_contents) (hm_keys changed)"
    using diff_files_paths [OF st] set_needed_types_paths [of needed1 needed2 "dst_needed st" "dst_diffs st"]
    by simp
  finally have "mset (map get_diff_file_path ds) =
      mset (filter (has_diff old_contents new_contents) (hm_keys changed))" .
  moreover have "sorted (map get_diff_file_path ds)" by (simp add: ds)
  ultimately have "sort (filter (has_diff old_contents new_contents) (hm_keys changed)) =
      map get_diff_file_path ds"
    by (rule properties_for_sort)
  then show ?thesis by (simp add: has_diff_def [abs_def])
qed

text \<open>Two references of a small project: one scene loses its instance of another, a text file changes.\<close>

definition demo_after :: "(bool, bool) history_ref" where
  "demo_after = \<lparr>hr_branch = True, hr_heads = [True]\<rparr>"

definition demo_before :: "(bool, bool) history_ref" where
  "demo_before = \<lparr>hr_branch = True, hr_heads = [False]\<rparr>"

definition demo_db :: "(bool, bool) diff_db" where
  "demo_db = \<lparr>db_changed_files = (\<lambda>_ _. Some [(''b.txt'', Modified), (''a.bin'', Created), (''c'', Deleted)]),
     db_files_at = (\<lambda>r _. if r = demo_after
       then Some [(''a.bin'', CBinary ''x''), (''b.txt'', CString ''y'')]
       else Some [(''b.txt'', CString ''z'')])\<rparr>"

theorem get_diff_files_witness:
  "map get_diff_file_path (the (the (get_ok
     (get_diff demo_io (\<lambda>_ _. []) demo_db demo_before demo_after)))) = [''a.bin'', ''b.txt'']"
proof -
  define ds where "ds = the (the (get_ok (get_diff demo_io (\<lambda>_ _. []) demo_db demo_before demo_after)))"
  have run: "get_diff demo_io (\<lambda>_ _. []) demo_db demo_before demo_after = Inr (Some ds)"
    unfolding ds_def by code_simp
  have "db_files_at demo_db demo_before k = Some [(''b.txt'', CString ''z'')]"
    "db_files_at demo_db demo_after k = Some [(''a.bin'', CBinary ''x''), (''b.txt'', CString ''y'')]" for k
    by (simp_all add: demo_db_def demo_before_def demo_after_def)
  from get_diff_files [OF run _ this, of "[(''b.txt'', Modified), (''a.bin'', Created), (''c'', Deleted)]"]
  have "map get_diff_file_path ds = sort [''b.txt'', ''a.bin'']"
    by (simp add: demo_db_def)
  also have "\<dots> = [''a.bin'', ''b.txt'']" by code_simp
  finally show ?thesis unfolding ds_def .
qed

text \<open>When all instanced scenes left to load belong to created or modified nodes, none of the nodes
  gets its type from them: the loop looks them up among the scenes of the old reference, of which
  none was requested.\<close>

theorem needed_types_swapped:
  assumes "\<forall>(i, ns)\<in>set needed. \<forall>(k, is_new, path)\<in>set ns. is_new"
  shows "set_needed_types [] new_needed needed diffs = diffs"
proof -
  have "diffs[i := (case diffs ! i of
      DScene d \<Rightarrow> DScene (d\<lparr>scd_changed_nodes :=
        fold (set_needed_type [] new_needed) ns (scd_changed_nodes d)\<rparr>)
    | d \<Rightarrow> d)] = diffs" if "(i, ns) \<in> set needed" for i ns
  proof -
    have "fold (set_needed_type [] new_needed) ns nodes = nodes" for nodes
      using assms that by (intro fold_id) (fastforce simp: set_needed_type_def)
    then have "(case diffs ! i of
      DScene d \<Rightarrow> DScene (d\<lparr>scd_changed_nodes :=
        fold (set_needed_type [] new_needed) ns (scd_changed_nodes d)\<rparr>)
    | d \<Rightarrow> d) = diffs ! i" by (cases "diffs ! i") simp_all
    then show ?thesis by (simp only: list_update_id)
  qed
  then show ?thesis
    unfolding set_needed_types_def by (intro fold_id) auto
qed

definition demo_instanced :: diff where
  "demo_instanced = DScene \<lparr>scd_path = ''a.tscn'', scd_change_type = Modified,
     scd_changed_nodes = [\<lparr>nd_change_type = Created, nd_node_path = ''E'',
       nd_node_type = Some (Instance ''1''), nd_changed_properties = []\<rparr>]\<rparr>"

theorem needed_types_swapped_witness:
  "set_needed_types [] [(''e.tscn'', CScene (demo_diff_scene [] []))] [(0, [(0, True, ''e.tscn'')])]
     [demo_instanced] = [demo_instanced] \<and>
   set_needed_types [(''e.tscn'', CScene (demo_diff_scene [] []))] [] [(0, [(0, True, ''e.tscn'')])]
     [demo_instanced] \<noteq> [demo_instanced]"
proof
  show "set_needed_types [] [(''e.tscn'', CScene (demo_diff_scene [] []))] [(0, [(0, True, ''e.tscn'')])]
      [demo_instanced] = [demo_instanced]"
    by (rule needed_types_swapped) simp
  show "set_needed_types [(''e.tscn'', CScene (demo_diff_scene [] []))] [] [(0, [(0, True, ''e.tscn'')])]
      [demo_instanced] \<noteq> [demo_instanced]"
    by code_simp
qed

end
