(* ===== verification/Godot_Hydrate.thy ===== *)
theory Godot_Hydrate imports Godot_Scene begin

text \<open>
  \<open>hydrate_nodes\<close> and \<open>reconcile_nodes\<close> of \<open>parser/godot_parser.rs\<close>: how the nodes of a scene leave
  and enter a document. \<open>HashMap::<String, GodotNode>::hydrate\<close> is code of the library autosurgeon;
  its result is an argument. The regular expression of the code comes from the library regex and is
  the argument \<open>captures\<close>, the two groups of its match; \<open>regex_law\<close> says what it finds in a text of
  ASCII characters on one line. An overflowing number wraps around, as it does in a release build.
\<close>

definition reconcile_nodes :: "(node_id, godot_node) hmap \<Rightarrow> (string, godot_node) hmap" where
  "reconcile_nodes outer = hm_collect (map (\<lambda>(k, v). (node_id_show k, v)) outer)"

definition bump_name :: "(string \<Rightarrow> (string \<times> string) option) \<Rightarrow> string \<Rightarrow> ('e, string) outcome" where
  "bump_name captures name =
     (case captures name of
        Some (pre, digits) \<Rightarrow>
          rbind (unwrap (parse_u64 digits)) (\<lambda>number.
          Inr (pre @ show_nat ((number + 1) mod 2 ^ 64)))
      | None \<Rightarrow> Inr (name @ ''1''))"

definition name_clash ::
  "(node_id, godot_node) hmap \<Rightarrow> node_id list \<Rightarrow> node_id \<Rightarrow> string option \<Rightarrow> string \<Rightarrow> bool" where
  "name_clash nodes child_ids i fallback name \<longleftrightarrow>
     (\<exists>child_id\<in>set child_ids. child_id \<noteq> i \<and>
        (case hm_get nodes child_id of
           None \<Rightarrow> False
         | Some child \<Rightarrow> gn_name child = name \<and> gn_parent_path_fallback child = fallback))"

partial_function (option) dedupe_loop ::
  "(string \<Rightarrow> (string \<times> string) option) \<Rightarrow> (string \<Rightarrow> bool) \<Rightarrow> string \<Rightarrow> ('e, string) outcome option" where
  "dedupe_loop captures clash name =
     (if clash name
      then (case bump_name captures name of
              Inl e \<Rightarrow> Some (Inl e)
            | Inr name \<Rightarrow> dedupe_loop captures clash name)
      else Some (Inr name))"

definition dedupe_node ::
  "(string \<Rightarrow> (string \<times> string) option) \<Rightarrow> node_id \<Rightarrow> (node_id, godot_node) hmap \<Rightarrow>
   ('e, (node_id, godot_node) hmap) outcome" where
  "dedupe_node captures i nodes =
     (case hm_get nodes i of
        None \<Rightarrow> Inr nodes
      | Some node \<Rightarrow>
          (case gn_parent_id node of
             None \<Rightarrow> Inr nodes
           | Some parent_id \<Rightarrow>
               (case hm_get nodes parent_id of
                  None \<Rightarrow> Inr nodes
                | Some parent \<Rightarrow>
                    rbind (rbind (returned (dedupe_loop captures
                        (name_clash nodes (gn_child_node_ids parent) i (gn_parent_path_fallback node))
                        (gn_name node))) id) (\<lambda>name.
                    Inr (hm_insert i (node\<lparr>gn_name := name\<rparr>) nodes)))))"

definition decode_key :: "string \<times> 'v \<Rightarrow> ('e, node_id \<times> 'v) outcome" where
  "decode_key kv = (case node_id_from_str (fst kv) of Inl _ \<Rightarrow> Inl Panic | Inr i \<Rightarrow> Inr (i, snd kv))"

definition hydrate_nodes ::
  "(string \<Rightarrow> (string \<times> string) option) \<Rightarrow> 'e + (string, godot_node) hmap \<Rightarrow>
   ('e, (node_id, godot_node) hmap) outcome" where
  "hydrate_nodes captures res =
     (case res of
        Inl e \<Rightarrow> Inl (Err e)
      | Inr raw \<Rightarrow>
          rbind (collect_res decode_key raw) (\<lambda>pairs.
          let nodes = hm_collect pairs
          in fold_res (dedupe_node captures) (hm_keys nodes) nodes))"

section \<open>The regular expression\<close>

definition plain_char :: "char \<Rightarrow> bool" where
  "plain_char c \<longleftrightarrow> (of_char c :: nat) < 128 \<and> c \<noteq> CHR 0x0A"

definition name_digits :: "string \<Rightarrow> string" where
  "name_digits s = rev (takeWhile is_digit (rev s))"

definition name_base :: "string \<Rightarrow> string" where
  "name_base s = rev (dropWhile is_digit (rev s))"

definition regex_law :: "(string \<Rightarrow> (string \<times> string) option) \<Rightarrow> bool" where
  "regex_law captures \<longleftrightarrow>
     (\<forall>s. list_all plain_char s \<longrightarrow>
        captures s = (if name_digits s = [] then None else Some (name_base s, name_digits s)))"

definition name_number :: "string \<Rightarrow> nat" where
  "name_number s = digits_val (name_digits s)"

lemma name_split: "name_base s @ name_digits s = s"
  by (simp add: name_base_def name_digits_def flip: rev_append)

lemma name_digits_digits: "list_all is_digit (name_digits s)"
  by (auto simp: name_digits_def list_all_iff dest: set_takeWhileD)

lemma digits_split:
  assumes "list_all is_digit d" and "b = [] \<or> \<not> is_digit (last b)"
  shows "name_digits (b @ d) = d \<and> name_base (b @ d) = b"
proof -
  have "takeWhile is_digit (rev b) = []" "dropWhile is_digit (rev b) = rev b"
    using assms(2) by (cases b rule: rev_cases; simp)+
  moreover have "takeWhile is_digit (rev d @ rev b) = rev d @ takeWhile is_digit (rev b)"
    by (rule takeWhile_append2) (use assms(1) in \<open>simp add: list_all_iff\<close>)
  moreover have "dropWhile is_digit (rev d @ rev b) = dropWhile is_digit (rev b)"
    by (rule dropWhile_append2) (use assms(1) in \<open>simp add: list_all_iff\<close>)
  ultimately show ?thesis by (simp add: name_digits_def name_base_def)
qed

lemma name_base_end: "name_base s = [] \<or> \<not> is_digit (last (name_base s))"
  using hd_dropWhile [of is_digit "rev s"] by (auto simp: name_base_def last_rev)

definition numbered :: "string \<Rightarrow> nat \<Rightarrow> string" where
  "numbered s k = name_base s @ show_nat (name_number s + k)"

lemma numbered_parts:
  "name_digits (numbered s k) = show_nat (name_number s + k) \<and> name_base (numbered s k) = name_base s"
  unfolding numbered_def by (rule digits_split) (simp_all add: show_nat_digits name_base_end)

lemma digit_plain: "is_digit c \<Longrightarrow> plain_char c"
  by (auto simp: is_digit_def plain_char_def)

lemma numbered_plain:
  assumes "list_all plain_char s"
  shows "list_all plain_char (numbered s k)"
proof -
  have "set (name_base s) \<subseteq> set s" by (metis name_split set_append sup_ge1)
  with assms show ?thesis
    by (auto simp: numbered_def list_all_iff dest: set_show_nat digit_plain)
qed

lemma numbered_inj: "numbered s j = numbered s k \<Longrightarrow> j = k"
  by (simp add: numbered_def)

lemma digits_val_bound: "digits_val [] = 0"
  by (simp add: digits_val_def)

lemma bump_first:
  assumes law: "regex_law captures" and plain: "list_all plain_char s" and "name_number s + 1 < 2 ^ 64"
  shows "bump_name captures s = Inr (numbered s 1)"
proof (cases "name_digits s = []")
  case True
  have "captures s = None" using law plain True by (simp add: regex_law_def)
  moreover have "name_base s = s" using name_split [of s] True by simp
  moreover have "show_nat 1 = ''1''" by code_simp
  ultimately show ?thesis
    by (simp add: bump_name_def numbered_def name_number_def True digits_val_bound)
next
  case False
  then have "captures s = Some (name_base s, name_digits s)"
    using law plain by (simp add: regex_law_def)
  moreover have "parse_u64 (name_digits s) = Some (name_number s)"
  proof -
    obtain c r where c: "name_digits s = c # r" using False by (cases "name_digits s") auto
    then have "is_digit c" using name_digits_digits [of s] by simp
    then show ?thesis
      using assms(3) name_digits_digits [of s] c digit_not_sign [of c]
      by (simp add: parse_u64_def parse_digits_def name_number_def)
  qed
  ultimately show ?thesis using assms(3) by (simp add: bump_name_def numbered_def)
qed

lemma bump_numbered:
  assumes "regex_law captures" and "list_all plain_char s" and "name_number s + k + 1 < 2 ^ 64"
  shows "bump_name captures (numbered s k) = Inr (numbered s (k + 1))"
proof -
  have num: "name_number (numbered s k) = name_number s + k"
    by (simp add: name_number_def numbered_parts)
  have "bump_name captures (numbered s k) = Inr (numbered (numbered s k) 1)"
    using assms numbered_plain num by (intro bump_first) auto
  then show ?thesis by (simp add: numbered_def [of "numbered s k"] num numbered_parts) (simp add: numbered_def)
qed

section \<open>The loop ends\<close>

lemma loop_from_numbered:
  assumes law: "regex_law captures" and plain: "list_all plain_char s"
    and fin: "finite {j. clash (numbered s j)}"
    and "card {j. k \<le> j \<and> clash (numbered s j)} \<le> m" and "name_number s + k + m < 2 ^ 64"
  shows "\<exists>name. dedupe_loop captures clash (numbered s k) = (Some (Inr name) :: ('e, string) outcome option) \<and> \<not> clash name"
  using assms(4,5)
proof (induction m arbitrary: k)
  case 0
  have "finite {j. k \<le> j \<and> clash (numbered s j)}" by (rule finite_subset [OF _ fin]) auto
  with 0 have "\<not> clash (numbered s k)" by auto
  then show ?case by (subst dedupe_loop.simps) simp
next
  case (Suc m)
  show ?case
  proof (cases "clash (numbered s k)")
    case True
    have fk: "finite {j. k \<le> j \<and> clash (numbered s j)}" by (rule finite_subset [OF _ fin]) auto
    have "{j. k \<le> j \<and> clash (numbered s j)} = insert k {j. k + 1 \<le> j \<and> clash (numbered s j)}"
      using True by (auto simp: le_eq_less_or_eq)
    then have "card {j. k + 1 \<le> j \<and> clash (numbered s j)} \<le> m"
      using Suc.prems(1) fk by (simp add: card_insert_if)
    moreover have "name_number s + (k + 1) + m < 2 ^ 64" using Suc.prems(2) by simp
    ultimately have "\<exists>name. dedupe_loop captures clash (numbered s (k + 1)) = (Some (Inr name) :: ('e, string) outcome option) \<and> \<not> clash name"
      by (rule Suc.IH)
    moreover have "bump_name captures (numbered s k) = (Inr (numbered s (k + 1)) :: ('e, string) outcome)"
      by (rule bump_numbered [OF law plain]) (use Suc.prems(2) in simp)
    ultimately show ?thesis using True by (subst dedupe_loop.simps) (simp del: One_nat_def)
  next
    case False
    then show ?thesis by (subst dedupe_loop.simps) simp
  qed
qed

lemma clash_numbers:
  "finite {j. name_clash nodes child_ids i fallback (numbered s j)} \<and>
   card {j. name_clash nodes child_ids i fallback (numbered s j)} \<le> length child_ids"
proof -
  let ?names = "(\<lambda>c. gn_name (the (hm_get nodes c))) ` set child_ids"
  let ?js = "{j. name_clash nodes child_ids i fallback (numbered s j)}"
  have sub: "numbered s ` ?js \<subseteq> ?names"
    by (force simp: name_clash_def split: option.splits)
  have inj: "inj_on (numbered s) ?js" by (auto intro: inj_onI dest: numbered_inj)
  have "finite ?js" by (rule inj_on_finite [OF inj sub]) simp
  moreover have "card ?js \<le> card ?names" by (rule card_inj_on_le [OF inj sub]) simp
  moreover have "card ?names \<le> length child_ids"
    using card_image_le [of "set child_ids"] card_length [of child_ids] by (meson finite_set le_trans)
  ultimately show ?thesis by linarith
qed

lemma dedupe_loop_returns:
  assumes law: "regex_law captures" and plain: "list_all plain_char s"
    and bound: "name_number s + length child_ids + 1 < 2 ^ 64"
  shows "\<exists>name. dedupe_loop captures (name_clash nodes child_ids i fallback) s = (Some (Inr name) :: ('e, string) outcome option)"
proof (cases "name_clash nodes child_ids i fallback s")
  case True
  let ?clash = "name_clash nodes child_ids i fallback"
  note numbers = clash_numbers [of nodes child_ids i fallback s]
  have "card {j. 1 \<le> j \<and> ?clash (numbered s j)} \<le> card {j. ?clash (numbered s j)}"
    by (rule card_mono) (use numbers in auto)
  then have "card {j. 1 \<le> j \<and> ?clash (numbered s j)} \<le> length child_ids" using numbers by linarith
  moreover have "name_number s + 1 + length child_ids < 2 ^ 64" using bound by linarith
  ultimately obtain name where name: "dedupe_loop captures ?clash (numbered s 1) = (Some (Inr name) :: ('e, string) outcome option)"
    using loop_from_numbered [OF law plain] numbers by blast
  have "bump_name captures s = (Inr (numbered s 1) :: ('e, string) outcome)"
    by (rule bump_first [OF law plain]) (use bound in linarith)
  with True name show ?thesis by (subst dedupe_loop.simps) (simp del: One_nat_def)
next
  case False
  then show ?thesis by (subst dedupe_loop.simps) simp
qed

lemma dedupe_loop_no_clash:
  assumes "dedupe_loop captures clash s = (Some (Inr name) :: ('e, string) outcome option)"
  shows "\<not> clash name"
proof -
  have "(Inr name :: ('e, string) outcome) = Inr name \<longrightarrow> \<not> clash name"
  proof (rule dedupe_loop.raw_induct [where
        P = "\<lambda>captures clash s r. r = Inr name \<longrightarrow> \<not> clash name", OF _ assms])
    fix f captures clash s r
    assume IH: "\<And>captures clash s r. f captures clash s = Some r \<Longrightarrow> r = Inr name \<longrightarrow> \<not> clash name"
      and eq: "(if clash s then (case bump_name captures s of
          Inl e \<Rightarrow> Some (Inl e) | Inr name \<Rightarrow> f captures clash name) else Some (Inr s)) = Some r"
    show "r = Inr name \<longrightarrow> \<not> clash name"
      using eq IH by (auto split: if_splits sum.splits)
  qed
  then show ?thesis by simp
qed

section \<open>All nodes\<close>

definition unnamed :: "godot_node \<Rightarrow> godot_node" where
  "unnamed n = n\<lparr>gn_name := []\<rparr>"

text \<open>Two node maps that differ at most in the names.\<close>

definition same_but_names :: "(node_id, godot_node) hmap \<Rightarrow> (node_id, godot_node) hmap \<Rightarrow> bool" where
  "same_but_names m m' \<longleftrightarrow> (\<forall>j. map_option unnamed (hm_get m j) = map_option unnamed (hm_get m' j))"

lemma unnamed_fields:
  "unnamed n = unnamed n' \<Longrightarrow> gn_parent_id n = gn_parent_id n' \<and>
     gn_child_node_ids n = gn_child_node_ids n' \<and> gn_parent_path_fallback n = gn_parent_path_fallback n'"
  by (cases n; cases n') (simp add: unnamed_def)

lemma unnamed_name [simp]: "unnamed (n\<lparr>gn_name := x\<rparr>) = unnamed n"
  by (simp add: unnamed_def)

lemma dedupe_node_get:
  assumes "dedupe_node captures i nodes = Inr nodes'"
  shows "(\<forall>j. j \<noteq> i \<longrightarrow> hm_get nodes' j = hm_get nodes j) \<and> same_but_names nodes nodes'"
  using assms
  by (auto simp: dedupe_node_def same_but_names_def rbind_eq_Inr_iff hm_get_insert
      split: option.splits)

lemma dedupe_node_no_clash:
  assumes "dedupe_node captures i nodes = (Inr nodes' :: ('e, _) outcome)" and "hm_get nodes i = Some n"
    and "gn_parent_id n = Some p" and "hm_get nodes p = Some pn" and "hm_get nodes' i = Some n'"
  shows "\<not> name_clash nodes (gn_child_node_ids pn) i (gn_parent_path_fallback n) (gn_name n')"
proof -
  obtain x where "dedupe_loop captures (name_clash nodes (gn_child_node_ids pn) i (gn_parent_path_fallback n))
      (gn_name n) = (Some (Inr x) :: ('e, _) outcome option)" and "nodes' = hm_insert i (n\<lparr>gn_name := x\<rparr>) nodes"
    using assms(1-4) by (auto simp: dedupe_node_def rbind_eq_Inr_iff)
  with assms(5) dedupe_loop_no_clash show ?thesis by (fastforce simp: hm_get_insert)
qed

definition siblings :: "(node_id, godot_node) hmap \<Rightarrow> node_id \<Rightarrow> node_id \<Rightarrow> bool" where
  "siblings m a b \<longleftrightarrow> a \<noteq> b \<and>
     (\<exists>na nb p pn. hm_get m a = Some na \<and> hm_get m b = Some nb \<and>
        gn_parent_id na = Some p \<and> gn_parent_id nb = Some p \<and> hm_get m p = Some pn \<and>
        {a, b} \<subseteq> set (gn_child_node_ids pn) \<and>
        gn_parent_path_fallback na = gn_parent_path_fallback nb)"

lemma siblings_sym: "siblings m a b \<longleftrightarrow> siblings m b a"
  unfolding siblings_def by (simp only: insert_commute [of a b]) metis

lemma same_but_names_get:
  assumes "same_but_names m m'" and "hm_get m j = Some n"
  obtains n' where "hm_get m' j = Some n'" and "unnamed n' = unnamed n"
  using assms unfolding same_but_names_def by (metis map_option_eq_Some)

lemma siblings_same:
  assumes "same_but_names m m'" and "siblings m a b"
  shows "siblings m' a b"
proof -
  obtain na nb p pn where ab: "a \<noteq> b" "hm_get m a = Some na" "hm_get m b = Some nb"
      "gn_parent_id na = Some p" "gn_parent_id nb = Some p" "hm_get m p = Some pn"
      "{a, b} \<subseteq> set (gn_child_node_ids pn)" "gn_parent_path_fallback na = gn_parent_path_fallback nb"
    using assms(2) unfolding siblings_def by blast
  obtain na' where na': "hm_get m' a = Some na'" "unnamed na' = unnamed na"
    by (rule same_but_names_get [OF assms(1) ab(2)])
  obtain nb' where nb': "hm_get m' b = Some nb'" "unnamed nb' = unnamed nb"
    by (rule same_but_names_get [OF assms(1) ab(3)])
  obtain pn' where pn': "hm_get m' p = Some pn'" "unnamed pn' = unnamed pn"
    by (rule same_but_names_get [OF assms(1) ab(6)])
  show ?thesis
    unfolding siblings_def
    using ab na'(1) nb'(1) pn'(1) unnamed_fields [OF na'(2)] unnamed_fields [OF nb'(2)]
      unnamed_fields [OF pn'(2)]
    by metis
qed

lemma same_but_names_sym: "same_but_names m m' \<Longrightarrow> same_but_names m' m"
  by (simp add: same_but_names_def)

lemma same_but_names_trans: "same_but_names m m' \<Longrightarrow> same_but_names m' m'' \<Longrightarrow> same_but_names m m''"
  by (simp add: same_but_names_def)

definition name_of :: "(node_id, godot_node) hmap \<Rightarrow> node_id \<Rightarrow> string option" where
  "name_of m i = map_option gn_name (hm_get m i)"

lemma dedupe_node_separates:
  assumes run: "dedupe_node captures i nodes = Inr nodes'" and sib: "siblings nodes' i b"
  shows "name_of nodes' i \<noteq> name_of nodes' b"
proof -
  note step = dedupe_node_get [OF run]
  have "siblings nodes i b" using siblings_same [OF same_but_names_sym sib] step by blast
  then obtain na nb p pn where ab: "i \<noteq> b" "hm_get nodes i = Some na" "hm_get nodes b = Some nb"
      "gn_parent_id na = Some p" "hm_get nodes p = Some pn" "b \<in> set (gn_child_node_ids pn)"
      "gn_parent_path_fallback na = gn_parent_path_fallback nb"
    unfolding siblings_def by blast
  obtain na' where na': "hm_get nodes' i = Some na'" using same_but_names_get step ab(2) by metis
  from dedupe_node_no_clash [OF run ab(2,4,5) na'] ab
  have "gn_name nb \<noteq> gn_name na'" by (auto simp: name_clash_def)
  with na' ab step show ?thesis by (simp add: name_of_def)
qed

lemma dedupe_fold:
  assumes "fold_res (dedupe_node captures) ids nodes = (Inr nodes' :: ('e, _) outcome)"
    and "\<forall>a\<in>visited. \<forall>b. siblings nodes a b \<longrightarrow> name_of nodes a \<noteq> name_of nodes b"
  shows "same_but_names nodes nodes' \<and>
    (\<forall>a\<in>visited \<union> set ids. \<forall>b. siblings nodes' a b \<longrightarrow> name_of nodes' a \<noteq> name_of nodes' b)"
  using assms
proof (induction ids arbitrary: nodes visited)
  case Nil
  then show ?case by (simp add: same_but_names_def)
next
  case (Cons i ids)
  from Cons.prems(1) obtain m where m: "dedupe_node captures i nodes = (Inr m :: ('e, _) outcome)"
    and rest: "fold_res (dedupe_node captures) ids m = (Inr nodes' :: ('e, _) outcome)"
    by (auto simp: rbind_eq_Inr_iff)
  note step = dedupe_node_get [OF m]
  have sep: "\<forall>b. siblings m i b \<longrightarrow> name_of m i \<noteq> name_of m b"
    using dedupe_node_separates [OF m] by blast
  have "\<forall>a\<in>insert i visited. \<forall>b. siblings m a b \<longrightarrow> name_of m a \<noteq> name_of m b"
  proof (intro ballI allI impI)
    fix a b
    assume a: "a \<in> insert i visited" and ab: "siblings m a b"
    show "name_of m a \<noteq> name_of m b"
    proof (cases "a = i \<or> b = i")
      case True
      with sep ab siblings_sym [of m a b] show ?thesis by metis
    next
      case False
      moreover have "siblings nodes a b" using siblings_same [OF same_but_names_sym ab] step by blast
      ultimately show ?thesis using a Cons.prems(2) step by (simp add: name_of_def)
    qed
  qed
  from Cons.IH [OF rest this] step same_but_names_trans show ?case by auto
qed

lemma dedupe_node_returns:
  assumes law: "regex_law captures" and n: "hm_get nodes i = Some n" and plain: "list_all plain_char (gn_name n)"
    and bound: "\<forall>p pn. hm_get nodes p = Some pn \<longrightarrow>
      name_number (gn_name n) + length (gn_child_node_ids pn) + 1 < 2 ^ 64"
  shows "\<exists>nodes'. dedupe_node captures i nodes = (Inr nodes' :: ('e, _) outcome)"
proof -
  have "\<exists>name. dedupe_loop captures (name_clash nodes (gn_child_node_ids pn) i (gn_parent_path_fallback n))
      (gn_name n) = (Some (Inr name) :: ('e, _) outcome option)" if "hm_get nodes p = Some pn" for p pn
    using bound that by (intro dedupe_loop_returns [OF law plain]) blast
  then show ?thesis
    using n by (auto simp: dedupe_node_def rbind_eq_Inr_iff split: option.splits)
qed

lemma dedupe_fold_returns:
  assumes law: "regex_law captures" and "distinct ids"
    and "\<forall>i\<in>set ids. \<exists>n. hm_get nodes i = Some n \<and> list_all plain_char (gn_name n) \<and>
      (\<forall>p pn. hm_get nodes p = Some pn \<longrightarrow>
         name_number (gn_name n) + length (gn_child_node_ids pn) + 1 < 2 ^ 64)"
  shows "\<exists>nodes'. fold_res (dedupe_node captures) ids nodes = (Inr nodes' :: ('e, _) outcome)"
  using assms(2,3)
proof (induction ids arbitrary: nodes)
  case (Cons i ids)
  from Cons.prems(2) obtain n where n: "hm_get nodes i = Some n" "list_all plain_char (gn_name n)"
      "\<forall>p pn. hm_get nodes p = Some pn \<longrightarrow>
         name_number (gn_name n) + length (gn_child_node_ids pn) + 1 < 2 ^ 64" by auto
  obtain m where m: "dedupe_node captures i nodes = (Inr m :: ('e, _) outcome)"
    using dedupe_node_returns [OF law n] by blast
  note step = dedupe_node_get [OF m]
  have same: "hm_get m j = hm_get nodes j" if "j \<in> set ids" for j
    using step that Cons.prems(1) by auto
  have children: "\<exists>qn. hm_get nodes p = Some qn \<and> gn_child_node_ids qn = gn_child_node_ids pn"
    if pn: "hm_get m p = Some pn" for p pn
  proof -
    obtain qn where "hm_get nodes p = Some qn" "unnamed qn = unnamed pn"
      using same_but_names_get [OF same_but_names_sym pn] step by blast
    then show ?thesis using unnamed_fields by blast
  qed
  have "\<forall>j\<in>set ids. \<exists>n. hm_get m j = Some n \<and> list_all plain_char (gn_name n) \<and>
      (\<forall>p pn. hm_get m p = Some pn \<longrightarrow>
         name_number (gn_name n) + length (gn_child_node_ids pn) + 1 < 2 ^ 64)"
  proof
    fix j
    assume j: "j \<in> set ids"
    with Cons.prems(2) obtain k where "hm_get nodes j = Some k" "list_all plain_char (gn_name k)"
      "\<forall>p pn. hm_get nodes p = Some pn \<longrightarrow>
         name_number (gn_name k) + length (gn_child_node_ids pn) + 1 < 2 ^ 64" by auto
    with same [OF j] children show "\<exists>n. hm_get m j = Some n \<and> list_all plain_char (gn_name n) \<and>
      (\<forall>p pn. hm_get m p = Some pn \<longrightarrow>
         name_number (gn_name n) + length (gn_child_node_ids pn) + 1 < 2 ^ 64)" by metis
  qed
  with Cons.IH Cons.prems(1) m show ?case by simp
qed simp

text \<open>Every child is in the list of its parent and in no other.\<close>

definition mutual_children :: "(node_id, godot_node) hmap \<Rightarrow> bool" where
  "mutual_children m \<longleftrightarrow> (\<forall>p pn c cn. hm_get m p = Some pn \<and> hm_get m c = Some cn \<longrightarrow>
     (c \<in> set (gn_child_node_ids pn) \<longleftrightarrow> gn_parent_id cn = Some p))"

lemma mutual_same:
  assumes "mutual_children m" and same: "same_but_names m m'"
  shows "mutual_children m'"
  unfolding mutual_children_def
proof (intro allI impI, elim conjE)
  fix p pn' c cn'
  assume "hm_get m' p = Some pn'" "hm_get m' c = Some cn'"
  then obtain pn cn where m: "hm_get m p = Some pn" "unnamed pn = unnamed pn'" "hm_get m c = Some cn" "unnamed cn = unnamed cn'"
    using same_but_names_get [OF same_but_names_sym [OF same]] by metis
  have "c \<in> set (gn_child_node_ids pn) \<longleftrightarrow> gn_parent_id cn = Some p"
    using assms(1) m(1,3) unfolding mutual_children_def by blast
  with unnamed_fields [OF m(2)] unnamed_fields [OF m(4)] show
    "c \<in> set (gn_child_node_ids pn') \<longleftrightarrow> gn_parent_id cn' = Some p" by simp
qed

text \<open>A node whose name no sibling has keeps it, also while its siblings are renamed.\<close>

definition own_name :: "(node_id, godot_node) hmap \<Rightarrow> node_id \<Rightarrow> bool" where
  "own_name m j \<longleftrightarrow> (\<forall>b. siblings m j b \<longrightarrow> name_of m j \<noteq> name_of m b)"

lemma insert_same: "hm_get m k = Some v \<Longrightarrow> hm_insert k v m = m"
  by (induction m) auto

lemma own_name_kept:
  assumes mutual: "mutual_children m" and own: "own_name m i"
    and run: "dedupe_node captures i m = (Inr m' :: ('e, _) outcome)"
  shows "m' = m"
proof (cases "\<exists>n p pn. hm_get m i = Some n \<and> gn_parent_id n = Some p \<and> hm_get m p = Some pn")
  case True
  then obtain n p pn where n: "hm_get m i = Some n" "gn_parent_id n = Some p" "hm_get m p = Some pn" by blast
  let ?clash = "name_clash m (gn_child_node_ids pn) i (gn_parent_path_fallback n)"
  have "\<not> ?clash (gn_name n)"
  proof
    assume "?clash (gn_name n)"
    then obtain c cn where c: "c \<in> set (gn_child_node_ids pn)" "c \<noteq> i" "hm_get m c = Some cn" "gn_name cn = gn_name n"
      "gn_parent_path_fallback cn = gn_parent_path_fallback n"
      by (auto simp: name_clash_def split: option.splits)
    with mutual n have "gn_parent_id cn = Some p" "i \<in> set (gn_child_node_ids pn)"
      by (auto simp: mutual_children_def)
    with c n have "siblings m i c"
      unfolding siblings_def by (intro conjI exI [of _ n] exI [of _ cn] exI [of _ p] exI [of _ pn]) simp_all
    with own c n show False by (auto simp: own_name_def name_of_def)
  qed
  then have "dedupe_loop captures ?clash (gn_name n) = (Some (Inr (gn_name n)) :: ('e, _) outcome option)"
    by (subst dedupe_loop.simps) simp
  moreover have "n\<lparr>gn_name := gn_name n\<rparr> = n" by simp
  ultimately show ?thesis using run n by (simp add: dedupe_node_def insert_same)
next
  case False
  with run show ?thesis by (auto simp: dedupe_node_def split: option.splits)
qed

lemma own_name_step:
  assumes mutual: "mutual_children m" and own: "own_name m j"
    and run: "dedupe_node captures i m = (Inr m' :: ('e, _) outcome)"
  shows "hm_get m' j = hm_get m j \<and> own_name m' j"
proof (cases "j = i")
  case True
  with own_name_kept [OF mutual _ run] own show ?thesis by auto
next
  case False
  note step = dedupe_node_get [OF run]
  have j: "hm_get m' j = hm_get m j" using step False by blast
  have "name_of m' j \<noteq> name_of m' b" if sib: "siblings m' j b" for b
  proof (cases "b = i")
    case True
    then have "siblings m' i j" using sib siblings_sym [of m' j b] by blast
    from dedupe_node_separates [OF run this] True show ?thesis by simp
  next
    case False
    moreover have "siblings m j b" using siblings_same [OF same_but_names_sym sib] step by blast
    ultimately show ?thesis using own step j by (simp add: own_name_def name_of_def)
  qed
  with j show ?thesis by (simp add: own_name_def)
qed

lemma own_name_fold:
  assumes "fold_res (dedupe_node captures) ids m = (Inr m' :: ('e, _) outcome)" and "mutual_children m" and "own_name m j"
  shows "hm_get m' j = hm_get m j"
  using assms
proof (induction ids arbitrary: m)
  case (Cons i ids)
  then obtain m1 where m1: "dedupe_node captures i m = (Inr m1 :: ('e, _) outcome)"
    "fold_res (dedupe_node captures) ids m1 = (Inr m' :: ('e, _) outcome)" by (auto simp: rbind_eq_Inr_iff)
  have "mutual_children m1" by (rule mutual_same [OF Cons.prems(2)]) (use dedupe_node_get [OF m1(1)] in blast)
  with Cons.IH [OF m1(2)] own_name_step [OF Cons.prems(2,3) m1(1)] show ?case by simp
qed simp

text \<open>What reading nodes back from a document gives: the nodes with some names changed, so that siblings have
  different names; a node whose name no sibling had is as it was.\<close>

definition renamed_apart :: "(node_id, godot_node) hmap \<Rightarrow> (node_id, godot_node) hmap \<Rightarrow> bool" where
  "renamed_apart m m' \<longleftrightarrow> same_but_names m m' \<and> (\<forall>a b. siblings m' a b \<longrightarrow> name_of m' a \<noteq> name_of m' b) \<and>
     (mutual_children m \<longrightarrow> (\<forall>j. own_name m j \<longrightarrow> hm_get m' j = hm_get m j))"

lemma renamed_apart_cong:
  assumes get: "\<And>i. hm_get m i = hm_get l i"
  shows "renamed_apart m m' \<longleftrightarrow> renamed_apart l m'"
proof -
  have "siblings m = siblings l" "name_of m = name_of l" "mutual_children m = mutual_children l"
    "same_but_names m = same_but_names l"
    by (simp_all add: fun_eq_iff siblings_def name_of_def mutual_children_def same_but_names_def get)
  then show ?thesis by (simp add: renamed_apart_def own_name_def get)
qed

text \<open>Nodes that are read back: the ids are not negative, the names are ASCII lines whose trailing numbers are
  not close to the end of \<open>u64\<close>.\<close>

definition storable_nodes :: "(node_id, godot_node) hmap \<Rightarrow> bool" where
  "storable_nodes m \<longleftrightarrow> hm_wf m \<and> (\<forall>(i, n)\<in>set m. node_id_plain i \<and> list_all plain_char (gn_name n) \<and>
     (\<forall>(p, pn)\<in>set m. name_number (gn_name n) + length (gn_child_node_ids pn) + 1 < 2 ^ 64))"

lemma reconcile_nodes_get:
  assumes "hm_wf m" and "\<forall>i\<in>fst ` set m. node_id_plain i"
  shows "hm_get (reconcile_nodes m) k = Some v \<longleftrightarrow> (\<exists>i. node_id_plain i \<and> k = node_id_show i \<and> hm_get m i = Some v)"
proof -
  have "inj_on node_id_show (set (hm_keys m))"
    by (rule inj_onI) (use assms(2) node_id_codec.print_inj in auto)
  from hm_get_collect_map [OF assms(1) this, of "\<lambda>v. v" k v]
  have "hm_get (reconcile_nodes m) k = Some v \<longleftrightarrow> (\<exists>i. hm_get m i = Some v \<and> k = node_id_show i)"
    by (auto simp: reconcile_nodes_def)
  moreover have "node_id_plain i" if "hm_get m i = Some v" for i
    using assms(2) map_of_SomeD [OF that] by force
  ultimately show ?thesis by blast
qed

lemma decode_reconciled:
  assumes nodes: "storable_nodes m" and raw: "hm_wf raw" "\<And>k. hm_get raw k = hm_get (reconcile_nodes m) k"
  shows "\<exists>pairs. collect_res decode_key raw = (Inr pairs :: ('e, _) outcome) \<and> set pairs \<subseteq> set m \<and>
    (\<forall>i. hm_get (hm_collect pairs) i = hm_get m i)"
proof -
  have wf: "hm_wf m" and plain: "\<forall>i\<in>fst ` set m. node_id_plain i" using nodes by (auto simp: storable_nodes_def)
  have mem: "(k, v) \<in> set raw \<longleftrightarrow> (\<exists>i. node_id_plain i \<and> k = node_id_show i \<and> hm_get m i = Some v)" for k v
    using reconcile_nodes_get [OF wf plain] raw hm_get_eq_Some_iff [OF raw(1)] by metis
  define dec where "dec = (\<lambda>(k, v :: godot_node). (get_ok (node_id_from_str k), v))"
  have dec: "\<exists>i. decode_key kv = (Inr (i, snd kv) :: ('e, _) outcome) \<and> node_id_plain i \<and> fst kv = node_id_show i \<and>
      hm_get m i = Some (snd kv)" if "kv \<in> set raw" for kv
    using that mem [of "fst kv" "snd kv"] by (auto simp: decode_key_def node_id_from_str_show)
  have "\<exists>pairs. collect_res decode_key kvs = (Inr pairs :: ('e, _) outcome) \<and>
      (\<forall>i v. (i, v) \<in> set pairs \<longleftrightarrow> node_id_plain i \<and> (node_id_show i, v) \<in> set kvs)"
    if "set kvs \<subseteq> set raw" for kvs
    using that
  proof (induction kvs)
    case (Cons kv kvs)
    then obtain pairs where pairs: "collect_res decode_key kvs = (Inr pairs :: ('e, _) outcome)"
      "\<And>i v. (i, v) \<in> set pairs \<longleftrightarrow> node_id_plain i \<and> (node_id_show i, v) \<in> set kvs" by auto
    from dec [of kv] Cons.prems obtain i where i: "decode_key kv = (Inr (i, snd kv) :: ('e, _) outcome)"
      "node_id_plain i" "fst kv = node_id_show i" by auto
    have "(j, v) = (i, snd kv) \<or> node_id_plain j \<and> (node_id_show j, v) \<in> set kvs \<longleftrightarrow>
        node_id_plain j \<and> (node_id_show j, v) \<in> set (kv # kvs)" for j v
      using i(2,3) node_id_codec.print_inj [of j i] by (cases kv) auto
    with pairs i(1) show ?case by (auto simp: rbind_eq_Inr_iff)
  qed simp
  from this [OF order_refl] obtain pairs where
    run: "collect_res decode_key raw = (Inr pairs :: ('e, _) outcome)"
    and pairs: "\<And>i v. (i, v) \<in> set pairs \<longleftrightarrow> node_id_plain i \<and> (node_id_show i, v) \<in> set raw" by blast
  have set: "(i, v) \<in> set pairs \<longleftrightarrow> hm_get m i = Some v" for i v
    unfolding pairs mem using plain node_id_codec.print_inj by (metis fst_conv image_eqI map_of_SomeD)
  have "hm_get (hm_collect pairs) i = hm_get m i" for i
  proof (cases "hm_get (rev pairs) i")
    case None
    then have "i \<notin> fst ` set pairs" by (simp add: map_of_eq_None_iff)
    then have "hm_get m i = None" using set [of i] by (cases "hm_get m i") force+
    with None show ?thesis by (simp add: hm_get_collect)
  next
    case (Some v)
    then have "(i, v) \<in> set pairs" by (force dest: map_of_SomeD)
    with Some set show ?thesis by (simp add: hm_get_collect)
  qed
  with run set hm_get_eq_Some_iff [OF wf] show ?thesis by (auto simp: subset_iff)
qed

section \<open>Properties\<close>

text \<open>Loading the nodes of a scene from a document returns, when the keys are identifiers and the
  names are ASCII lines whose trailing numbers are not close to the end of \<open>u64\<close>; the nodes keep
  everything but their names, two children of the same parent, with the same fallback path, never have the
  same name, and a name that was not shared is kept.\<close>

theorem hydrate_nodes_unique:
  assumes "regex_law captures" and "collect_res decode_key raw = (Inr pairs :: ('e, _) outcome)"
    and "\<forall>(i, n)\<in>set pairs. list_all plain_char (gn_name n) \<and>
      (\<forall>(p, pn)\<in>set pairs. name_number (gn_name n) + length (gn_child_node_ids pn) + 1 < 2 ^ 64)"
  shows "\<exists>nodes. hydrate_nodes captures (Inr raw) = (Inr nodes :: ('e, _) outcome) \<and>
    renamed_apart (hm_collect pairs) nodes"
proof -
  let ?m = "hm_collect pairs"
  have mem: "(i, n) \<in> set pairs" if "hm_get ?m i = Some n" for i n
    using that by (auto simp: hm_get_collect dest: map_of_SomeD)
  have wf: "hm_wf ?m" by simp
  have "\<exists>n. hm_get ?m i = Some n \<and> list_all plain_char (gn_name n) \<and>
      (\<forall>p pn. hm_get ?m p = Some pn \<longrightarrow>
         name_number (gn_name n) + length (gn_child_node_ids pn) + 1 < 2 ^ 64)"
    if i: "i \<in> set (hm_keys ?m)" for i
  proof -
    obtain n where n: "hm_get ?m i = Some n" using i by (metis hm_get_None_iff not_None_eq)
    with mem assms(3) show ?thesis by blast
  qed
  then obtain nodes where nodes: "fold_res (dedupe_node captures) (hm_keys ?m) ?m = (Inr nodes :: ('e, _) outcome)"
    using dedupe_fold_returns [OF assms(1), of "hm_keys ?m" ?m] wf unfolding hm_wf_def by blast
  from dedupe_fold [OF nodes, of "{}"] have same: "same_but_names ?m nodes"
    and sep: "\<forall>a\<in>set (hm_keys ?m). \<forall>b. siblings nodes a b \<longrightarrow> name_of nodes a \<noteq> name_of nodes b"
    by auto
  have "name_of nodes a \<noteq> name_of nodes b" if sib: "siblings nodes a b" for a b
  proof -
    obtain n where "hm_get nodes a = Some n" using sib unfolding siblings_def by blast
    then have "hm_get ?m a \<noteq> None"
      using same unfolding same_but_names_def by (metis map_option_is_None option.discI)
    then have "a \<in> set (hm_keys ?m)" using hm_get_None_iff by metis
    with sep sib show ?thesis by blast
  qed
  moreover have "hm_get nodes j = hm_get ?m j" if "mutual_children ?m" "own_name ?m j" for j
    by (rule own_name_fold [OF nodes that])
  ultimately show ?thesis using nodes same assms(2) by (auto simp: hydrate_nodes_def Let_def renamed_apart_def)
qed

definition demo_captures :: "string \<Rightarrow> (string \<times> string) option" where
  "demo_captures s = (if name_digits s = [] then None else Some (name_base s, name_digits s))"

definition demo_child :: "int \<Rightarrow> string \<Rightarrow> node_id option \<Rightarrow> node_id list \<Rightarrow> godot_node" where
  "demo_child i name parent children =
     \<lparr>gn_id = mk_node_id i None, gn_name = name, gn_type_or_instance = Some (Type ''Node''),
      gn_instance_placeholder = None, gn_parent_id = parent, gn_parent_path_fallback = None,
      gn_parent_id_path = None, gn_owner = None, gn_owner_uid_path = None, gn_index = None,
      gn_groups = None, gn_node_paths = None, gn_properties = [], gn_child_node_ids = children\<rparr>"

definition demo_family :: "string \<Rightarrow> string \<Rightarrow> (node_id, godot_node) hmap" where
  "demo_family a b =
     [(mk_node_id 1 None, demo_child 1 ''Root'' None [mk_node_id 2 None, mk_node_id 3 None]),
      (mk_node_id 2 None, demo_child 2 a (Some (mk_node_id 1 None)) []),
      (mk_node_id 3 None, demo_child 3 b (Some (mk_node_id 1 None)) [])]"

theorem hydrate_nodes_unique_witness:
  "\<exists>nodes. hydrate_nodes demo_captures (Inr (reconcile_nodes (demo_family ''N7'' ''N7''))) =
     (Inr nodes :: (unit, _) outcome) \<and> name_of nodes (mk_node_id 2 None) \<noteq> name_of nodes (mk_node_id 3 None)"
proof -
  have law: "regex_law demo_captures" by (simp add: regex_law_def demo_captures_def)
  have dec: "collect_res decode_key (reconcile_nodes (demo_family ''N7'' ''N7'')) =
      (Inr (demo_family ''N7'' ''N7'') :: (unit, _) outcome)" by code_simp
  have nums: "name_number ''N7'' = 7" "name_number ''Root'' = 0" by code_simp+
  have "\<forall>(i, n)\<in>set (demo_family ''N7'' ''N7''). list_all plain_char (gn_name n) \<and>
      (\<forall>(p, pn)\<in>set (demo_family ''N7'' ''N7''). name_number (gn_name n) + length (gn_child_node_ids pn) + 1 < 2 ^ 64)"
    by (simp add: demo_family_def demo_child_def plain_char_def nums)
  from hydrate_nodes_unique [OF law dec this] obtain nodes where
    nodes: "hydrate_nodes demo_captures (Inr (reconcile_nodes (demo_family ''N7'' ''N7''))) =
      (Inr nodes :: (unit, _) outcome)"
    and same: "same_but_names (hm_collect (demo_family ''N7'' ''N7'')) nodes"
    and sep: "\<forall>a b. siblings nodes a b \<longrightarrow> name_of nodes a \<noteq> name_of nodes b" by (auto simp: renamed_apart_def)
  have "siblings (hm_collect (demo_family ''N7'' ''N7'')) (mk_node_id 2 None) (mk_node_id 3 None)"
    by (simp add: siblings_def demo_family_def demo_child_def hm_collect_def)
  from siblings_same [OF same this] sep nodes show ?thesis by blast
qed

lemma hydrate_reconciled:
  assumes law: "regex_law captures" and nodes: "storable_nodes m"
    and raw: "hm_wf raw" "\<And>k. hm_get raw k = hm_get (reconcile_nodes m) k"
  shows "\<exists>nodes. hydrate_nodes captures (Inr raw) = (Inr nodes :: ('e, _) outcome) \<and> renamed_apart m nodes"
proof -
  obtain pairs where pairs: "collect_res decode_key raw = (Inr pairs :: ('e, _) outcome)" "set pairs \<subseteq> set m"
    "\<And>i. hm_get (hm_collect pairs) i = hm_get m i" using decode_reconciled [OF nodes raw] by blast
  have "\<forall>(i, n)\<in>set pairs. list_all plain_char (gn_name n) \<and>
      (\<forall>(p, pn)\<in>set pairs. name_number (gn_name n) + length (gn_child_node_ids pn) + 1 < 2 ^ 64)"
    using nodes pairs(2) unfolding storable_nodes_def by blast
  from hydrate_nodes_unique [OF law pairs(1) this] renamed_apart_cong [OF pairs(3)] show ?thesis by blast
qed

lemma demo_law: "regex_law demo_captures"
  by (simp add: regex_law_def demo_captures_def)

lemma demo_storable: "storable_nodes (demo_family ''N7'' ''N7'')"
proof -
  have "name_number ''N7'' = 7" "name_number ''Root'' = 0" by code_simp+
  then show ?thesis
    by (simp add: storable_nodes_def demo_family_def demo_child_def plain_char_def hm_wf_def node_id_plain_def i32_ok_def)
qed

text \<open>C13: what \<open>reconcile_nodes\<close> writes into a document, in whatever order the map is read, \<open>hydrate_nodes\<close>
  reads back without an error: all nodes with everything but their names; siblings, with the same fallback
  path, then have different names; and a node whose name no sibling had keeps it, where children lists and
  parents agree. The ids are not negative (the text of a negative one makes the reader panic), the names are
  ASCII lines whose trailing numbers are not close to the end of \<open>u64\<close>.\<close>

theorem reconcile_hydrate_roundtrip:
  assumes "regex_law captures" and "storable_nodes nodes"
    and "hm_wf raw" and "\<forall>k. hm_get raw k = hm_get (reconcile_nodes nodes) k"
  shows "\<exists>nodes'. hydrate_nodes captures (Inr raw) = (Inr nodes' :: ('e, _) outcome) \<and>
    same_but_names nodes nodes' \<and>
    (\<forall>a b. siblings nodes' a b \<longrightarrow> name_of nodes' a \<noteq> name_of nodes' b) \<and>
    (mutual_children nodes \<longrightarrow> (\<forall>j. (\<forall>b. siblings nodes j b \<longrightarrow> name_of nodes j \<noteq> name_of nodes b) \<longrightarrow>
       hm_get nodes' j = hm_get nodes j))"
  using hydrate_reconciled [OF assms(1-3)] assms(4) unfolding renamed_apart_def own_name_def by blast

theorem reconcile_hydrate_roundtrip_witness:
  "\<exists>nodes. hydrate_nodes demo_captures (Inr (rev (reconcile_nodes (demo_family ''N7'' ''N7'')))) =
     (Inr nodes :: (unit, _) outcome) \<and>
   name_of nodes (mk_node_id 2 None) \<noteq> name_of nodes (mk_node_id 3 None) \<and>
   name_of nodes (mk_node_id 1 None) = Some ''Root''"
proof -
  let ?m = "demo_family ''N7'' ''N7''"
  have raw: "hm_wf (rev (reconcile_nodes ?m))" "\<forall>k. hm_get (rev (reconcile_nodes ?m)) k = hm_get (reconcile_nodes ?m) k"
  proof -
    have wf: "hm_wf (reconcile_nodes ?m)" by (simp add: reconcile_nodes_def)
    then show "hm_wf (rev (reconcile_nodes ?m))" by (simp add: hm_wf_def rev_map [symmetric])
    with wf hm_get_perm [OF wf, of "rev (reconcile_nodes ?m)"] show
      "\<forall>k. hm_get (rev (reconcile_nodes ?m)) k = hm_get (reconcile_nodes ?m) k" by simp
  qed
  have mutual: "mutual_children ?m"
    by (auto simp: mutual_children_def demo_family_def demo_child_def split: if_splits)
  from reconcile_hydrate_roundtrip [OF demo_law demo_storable raw] obtain nodes where
    nodes: "hydrate_nodes demo_captures (Inr (rev (reconcile_nodes ?m))) = (Inr nodes :: (unit, _) outcome)"
    and same: "same_but_names ?m nodes" and sep: "\<forall>a b. siblings nodes a b \<longrightarrow> name_of nodes a \<noteq> name_of nodes b"
    and own: "\<forall>j. (\<forall>b. siblings ?m j b \<longrightarrow> name_of ?m j \<noteq> name_of ?m b) \<longrightarrow> hm_get nodes j = hm_get ?m j"
    using mutual by blast
  have "siblings ?m (mk_node_id 2 None) (mk_node_id 3 None)" by (simp add: siblings_def demo_family_def demo_child_def)
  from siblings_same [OF same this] sep have "name_of nodes (mk_node_id 2 None) \<noteq> name_of nodes (mk_node_id 3 None)" by blast
  moreover have "\<not> siblings ?m (mk_node_id 1 None) b" for b by (simp add: siblings_def demo_family_def demo_child_def)
  with own have "hm_get nodes (mk_node_id 1 None) = hm_get ?m (mk_node_id 1 None)" by blast
  then have "name_of nodes (mk_node_id 1 None) = Some ''Root''" by (simp add: name_of_def demo_family_def demo_child_def)
  ultimately show ?thesis using nodes by blast
qed

end
