(* ===== verification/Server_Manager.thy ===== *)
theory Server_Manager imports Prelude "HOL-Library.Word" begin

text \<open>
  \<open>auth/server_manager.rs\<close> with the parts of \<open>auth/handshake.rs\<close>, \<open>auth/none.rs\<close> and \<open>auth/oidc.rs\<close> that it
  works with: which servers are known, who may handshake and who may ask the user to log in.

  Every task that calls the manager is at one of the places where it can wait, and a step takes one task
  to its next place. The mutex of the server table is never held across a place. The lock of the
  authentication token is a queue: tokio's \<open>RwLock\<close> serves its tasks in the order in which they asked for
  it, readers and writers alike. URLs and versions are parameters.
\<close>

section \<open>Servers and users\<close>

record oidc_config =
  oc_issuer :: string
  oc_redirect_port :: "16 word"
  oc_client_id :: string
  oc_resource :: "string option"

datatype auth_config = OidcConfig oidc_config | NoAuth

record 'r server_info =
  si_url :: 'r
  si_sync_url :: 'r
  si_auth :: auth_config
  si_webviewer_url :: "'r option"

record stored_session =
  ss_refresh_token :: "string option"
  ss_id_token :: string
  ss_subject :: string
  ss_name :: string
  ss_email :: "string option"

record oidc_user =
  ou_access_token :: string
  ou_access_token_expiry :: nat            \<comment> \<open>in nanoseconds\<close>
  ou_session :: stored_session

datatype user_info = NoneUser | OidcUser oidc_user

fun username :: "user_info \<Rightarrow> string option" where
  "username NoneUser = None"
| "username (OidcUser u) = Some (ss_name (ou_session u))"

fun subject :: "user_info \<Rightarrow> string option" where
  "subject NoneUser = None"
| "subject (OidcUser u) = Some (ss_subject (ou_session u))"

fun email :: "user_info \<Rightarrow> string option" where
  "email NoneUser = None"
| "email (OidcUser u) = ss_email (ou_session u)"

fun bearer_token :: "user_info \<Rightarrow> string option" where
  "bearer_token NoneUser = None"
| "bearer_token (OidcUser u) = Some (ou_access_token u)"

text \<open>A token that runs out within 20 seconds is not valid any more.\<close>

fun is_valid :: "nat \<Rightarrow> user_info \<Rightarrow> bool" where
  "is_valid now NoneUser \<longleftrightarrow> True"
| "is_valid now (OidcUser u) \<longleftrightarrow> ou_access_token_expiry u > now + 20000000000"

section \<open>The handshake with a server\<close>

record 'v handshake_response =
  rs_version :: 'v
  rs_minimum_backstitch_version :: 'v
  rs_auth :: string
  rs_sync :: string
  rs_webviewer :: "string option"
  rs_oidc_issuer :: "string option"
  rs_oidc_client_id :: "string option"
  rs_oidc_redirect_port :: "16 word option"
  rs_oidc_resource :: "string option"

datatype handshake_error =
    Reqwest
  | MalformedResponse string
  | UnsupportedClient string string
  | UnsupportedServer string string

text \<open>The functions of the \<open>url\<close> and \<open>semver\<close> crates, and the two versions of the program.\<close>

record ('r, 'v) handshake_ops =
  hp_parse :: "string \<Rightarrow> 'r option"
  hp_has_authority :: "'r \<Rightarrow> bool"
  hp_join :: "'r \<Rightarrow> string \<Rightarrow> 'r option"
  hp_show_version :: "'v \<Rightarrow> string"
  hp_minimum_server :: 'v
  hp_client :: 'v

definition parse_or_append :: "('r, 'v) handshake_ops \<Rightarrow> string \<Rightarrow> 'r \<Rightarrow> (handshake_error, 'r) outcome" where
  "parse_or_append H path base_url =
     (let joined = ok_or (Err (MalformedResponse (''invalid path '' @ path))) (hp_join H base_url path)
      in case hp_parse H path of
           Some url \<Rightarrow> if hp_has_authority H url then Inr url else joined
         | None \<Rightarrow> joined)"

definition response_auth :: "'v handshake_response \<Rightarrow> (handshake_error, auth_config) outcome" where
  "response_auth response =
     (if rs_auth response = ''none'' then Inr NoAuth
      else if rs_auth response = ''oidc'' then
        rbind (ok_or (Err (MalformedResponse ''expected oidc_client_id to exist'')) (rs_oidc_client_id response)) (\<lambda>client_id.
        rbind (ok_or (Err (MalformedResponse ''expected oidc_issuer to exist'')) (rs_oidc_issuer response)) (\<lambda>issuer.
        rbind (ok_or (Err (MalformedResponse ''expected oidc_redirect_port to exist'')) (rs_oidc_redirect_port response)) (\<lambda>port.
        Inr (OidcConfig \<lparr>oc_issuer = issuer, oc_redirect_port = port, oc_client_id = client_id,
               oc_resource = rs_oidc_resource response\<rparr>))))
      else Inl (Err (MalformedResponse (''unsupported auth_type '' @ rs_auth response))))"

text \<open>\<open>reply\<close> is what the request at \<open>describe\<close> gives. It panics when the URL cannot be a base.\<close>

definition server_handshake ::
  "('r, 'v::linorder) handshake_ops \<Rightarrow> 'r \<Rightarrow> handshake_error + 'v handshake_response \<Rightarrow>
   (handshake_error, 'r server_info) outcome" where
  "server_handshake H url reply =
     rbind (unwrap (hp_join H url ''describe'')) (\<lambda>_.
     rbind (case reply of Inl e \<Rightarrow> Inl (Err e) | Inr r \<Rightarrow> Inr r) (\<lambda>response.
     if rs_version response < hp_minimum_server H
     then Inl (Err (UnsupportedServer (hp_show_version H (rs_version response)) (hp_show_version H (hp_minimum_server H))))
     else if rs_minimum_backstitch_version response > hp_client H
     then Inl (Err (UnsupportedClient (hp_show_version H (hp_client H)) (hp_show_version H (rs_minimum_backstitch_version response))))
     else rbind (response_auth response) (\<lambda>auth.
          rbind (parse_or_append H (rs_sync response) url) (\<lambda>sync_url.
          rbind (case rs_webviewer response of
                   Some path \<Rightarrow> rbind (parse_or_append H path url) (\<lambda>u. Inr (Some u))
                 | None \<Rightarrow> Inr None) (\<lambda>webviewer_url.
          Inr \<lparr>si_url = url, si_sync_url = sync_url, si_auth = auth, si_webviewer_url = webviewer_url\<rparr>)))))"

lemma server_handshake_url: "server_handshake H url reply = Inr info \<Longrightarrow> si_url info = url"
  by (auto simp: server_handshake_def rbind_eq_Inr_iff split: if_splits option.splits)

lemma parse_or_append_no_panic: "parse_or_append H path url \<noteq> Inl Panic"
  by (simp add: parse_or_append_def Let_def ok_or_def split: option.split)

lemma response_auth_no_panic: "response_auth response \<noteq> Inl Panic"
  by (simp add: response_auth_def rbind_def ok_or_def split: option.split)

lemma rbind_eq_Inl: "rbind r k = Inl e \<longleftrightarrow> r = Inl e \<or> (\<exists>x. r = Inr x \<and> k x = Inl e)"
  by (cases r) auto

lemma server_handshake_panic: "server_handshake H url reply = Inl Panic \<longleftrightarrow> hp_join H url ''describe'' = None"
  by (auto simp: server_handshake_def rbind_eq_Inl parse_or_append_no_panic response_auth_no_panic
      split: sum.splits option.splits if_splits)

lemma server_handshake_no_divergence: "server_handshake H url reply \<noteq> Inl Diverges"
  by (auto simp: server_handshake_def rbind_eq_Inl parse_or_append_def response_auth_def Let_def
      split: sum.splits option.splits if_splits)

section \<open>State\<close>

datatype 'r authenticator = OidcAuthenticator oidc_config "'r server_info" | NoneAuthenticator

fun provider :: "'r authenticator \<Rightarrow> string" where
  "provider (OidcAuthenticator config _) = oc_issuer config"
| "provider NoneAuthenticator = ''none''"

definition authenticator_for :: "'r server_info \<Rightarrow> 'r authenticator" where
  "authenticator_for info = (case si_auth info of OidcConfig c \<Rightarrow> OidcAuthenticator c info | NoAuth \<Rightarrow> NoneAuthenticator)"

text \<open>What \<open>immediate_authenticate\<close> of an authenticator can give; its errors are logged and count as no user.\<close>

fun gives_user :: "'r authenticator \<Rightarrow> user_info option \<Rightarrow> bool" where
  "gives_user NoneAuthenticator u \<longleftrightarrow> u = Some NoneUser"
| "gives_user (OidcAuthenticator _ _) u \<longleftrightarrow> u \<noteq> Some NoneUser"

datatype 'r server_state =
    Handshaking
  | HandshakeFailed
  | AuthNeeded "'r server_info" "'r authenticator"
  | Ready "'r server_info" "'r authenticator" user_info

datatype 'r server_status =
    StatusNone
  | StatusHandshaking
  | StatusHandshakeFailed
  | StatusAuthNeeded string
  | StatusReady string user_info "'r server_info"

fun state_to_status :: "'r server_state \<Rightarrow> 'r server_status" where
  "state_to_status Handshaking = StatusHandshaking"
| "state_to_status HandshakeFailed = StatusHandshakeFailed"
| "state_to_status (AuthNeeded _ authenticator) = StatusAuthNeeded (provider authenticator)"
| "state_to_status (Ready server_info authenticator user) = StatusReady (provider authenticator) user server_info"

datatype 'r auth_status = NeedsUserLogin 'r | NeedsUserLogout 'r | AuthIdle

record 'r server =
  sv_lock :: "nat option"                    \<comment> \<open>\<open>handshake_lock\<close>: the task that holds it\<close>
  sv_state :: "'r server_state"

datatype 'r task_end =
    GotInfo "'r server_info"
  | HandshakeError
  | GotUser user_info
  | LoggedOut
  | AuthFailed
  | UserCancelled
  | CancelSent
  | Panicked 'r

text \<open>Where a task waits in \<open>handshake\<close>, \<open>authenticate\<close>, \<open>deauthenticate\<close> or \<open>cancel_wait\<close>.\<close>

datatype 'r auth_task =
    HandshakeWait 'r                                     \<comment> \<open>for the lock of the server\<close>
  | HandshakeLocked 'r
  | HandshakeRequest 'r                                  \<comment> \<open>for the answer of the server\<close>
  | HandshakeImmediate 'r "'r server_info"               \<comment> \<open>for \<open>immediate_authenticate\<close>\<close>
  | AuthWait bool "'r server_info"                       \<comment> \<open>for the token; true for a login, false for a logout\<close>
  | AuthLocked bool "'r server_info"
  | AuthRunning bool "'r server_info" "'r authenticator"  \<comment> \<open>for the user\<close>
  | AuthStoring bool "'r server_info" "'r authenticator" "user_info option"
  | CancelWait                                           \<comment> \<open>for the token\<close>
  | Ended "'r task_end"

record 'r server_manager =
  sm_servers :: "('r, 'r server) hmap"
  sm_tasks :: "nat \<Rightarrow> 'r auth_task option"
  sm_holder :: "nat option"                  \<comment> \<open>the task that holds the token's lock for reading\<close>
  sm_queue :: "nat list"                     \<comment> \<open>the tasks that wait for the token's lock\<close>
  sm_token :: "bool option"                  \<comment> \<open>\<open>auth_token\<close>: whether it is cancelled\<close>
  sm_auth_status :: "'r auth_status"
  sm_sent :: "('r \<times> 'r server_status) list"
  sm_infos :: "'r server_info list"          \<comment> \<open>what \<open>handshake\<close> has returned\<close>

definition server_manager_new :: "'r server_manager" where
  "server_manager_new = \<lparr>sm_servers = [], sm_tasks = (\<lambda>_. None), sm_holder = None, sm_queue = [], sm_token = None,
     sm_auth_status = AuthIdle, sm_sent = [], sm_infos = []\<rparr>"

definition server_status :: "'r \<Rightarrow> 'r server_manager \<Rightarrow> 'r server_status" where
  "server_status url s =
     (case hm_get (sm_servers s) url of None \<Rightarrow> StatusNone | Some server \<Rightarrow> state_to_status (sv_state server))"

section \<open>Operations\<close>

definition set_task :: "nat \<Rightarrow> 'r auth_task \<Rightarrow> 'r server_manager \<Rightarrow> 'r server_manager" where
  "set_task t p s = s\<lparr>sm_tasks := (sm_tasks s)(t \<mapsto> p)\<rparr>"

text \<open>The end of a task drops the guards that it holds.\<close>

definition end_task :: "nat \<Rightarrow> 'r task_end \<Rightarrow> 'r server_manager \<Rightarrow> 'r server_manager" where
  "end_task t e s =
     s\<lparr>sm_tasks := (sm_tasks s)(t \<mapsto> Ended e),
       sm_holder := (if sm_holder s = Some t then None else sm_holder s),
       sm_servers := map (\<lambda>(url, server). (url, if sv_lock server = Some t then server\<lparr>sv_lock := None\<rparr> else server)) (sm_servers s)\<rparr>"

text \<open>\<open>key\<close> is the entry of the table that \<open>server\<close> is borrowed from.\<close>

definition set_server_state ::
  "'r \<Rightarrow> 'r \<Rightarrow> 'r server \<Rightarrow> 'r server_state \<Rightarrow> 'r server_manager \<Rightarrow> 'r server_manager" where
  "set_server_state key url server state s =
     s\<lparr>sm_servers := hm_insert key (server\<lparr>sv_state := state\<rparr>) (sm_servers s),
       sm_sent := sm_sent s @ [(url, state_to_status state)]\<rparr>"

text \<open>\<open>servers.get_mut(url).expect(\<dots>)\<close>\<close>

definition with_server ::
  "nat \<Rightarrow> 'r \<Rightarrow> ('r server \<Rightarrow> 'r server_manager) \<Rightarrow> 'r server_manager \<Rightarrow> 'r server_manager" where
  "with_server t url f s = (case hm_get (sm_servers s) url of None \<Rightarrow> end_task t (Panicked url) s | Some server \<Rightarrow> f server)"

definition handshake_begin :: "nat \<Rightarrow> 'r \<Rightarrow> 'r server_manager \<Rightarrow> 'r server_manager" where
  "handshake_begin t url s =
     set_task t (HandshakeWait url)
       (if hm_contains (sm_servers s) url then s
        else s\<lparr>sm_servers := hm_insert url \<lparr>sv_lock = None, sv_state = Handshaking\<rparr> (sm_servers s)\<rparr>)"

definition handshake_lock :: "nat \<Rightarrow> 'r \<Rightarrow> 'r server_manager \<Rightarrow> 'r server_manager option" where
  "handshake_lock t url s =
     (case hm_get (sm_servers s) url of
        Some server \<Rightarrow>
          if sv_lock server = None
          then Some (set_task t (HandshakeLocked url)
                 (s\<lparr>sm_servers := hm_insert url (server\<lparr>sv_lock := Some t\<rparr>) (sm_servers s)\<rparr>))
          else None
      | None \<Rightarrow> None)"

definition give_info :: "nat \<Rightarrow> 'r server_info \<Rightarrow> 'r server_manager \<Rightarrow> 'r server_manager" where
  "give_info t info s = end_task t (GotInfo info) (s\<lparr>sm_infos := info # sm_infos s\<rparr>)"

definition handshake_check :: "nat \<Rightarrow> 'r \<Rightarrow> 'r server_manager \<Rightarrow> 'r server_manager" where
  "handshake_check t url s = with_server t url (\<lambda>server.
     let request = set_task t (HandshakeRequest url) (set_server_state url url server Handshaking s)
     in case sv_state server of
          Handshaking \<Rightarrow> request
        | HandshakeFailed \<Rightarrow> request
        | AuthNeeded info _ \<Rightarrow> give_info t info s
        | Ready info _ _ \<Rightarrow> give_info t info s) s"

definition handshake_reply ::
  "('r, 'v::linorder) handshake_ops \<Rightarrow> nat \<Rightarrow> 'r \<Rightarrow> handshake_error + 'v handshake_response \<Rightarrow>
   'r server_manager \<Rightarrow> 'r server_manager" where
  "handshake_reply H t url reply s =
     (case server_handshake H url reply of
        Inl (Err _) \<Rightarrow> with_server t url (\<lambda>server. end_task t HandshakeError (set_server_state url url server HandshakeFailed s)) s
      | Inl _ \<Rightarrow> end_task t (Panicked url) s
      | Inr info \<Rightarrow> set_task t (HandshakeImmediate url info) s)"

definition handshake_immediate ::
  "nat \<Rightarrow> 'r \<Rightarrow> 'r server_info \<Rightarrow> user_info option \<Rightarrow> 'r server_manager \<Rightarrow> 'r server_manager" where
  "handshake_immediate t url info user s = with_server t url (\<lambda>server.
     give_info t info (set_server_state url url server
       (case user of
          Some u \<Rightarrow> Ready info (authenticator_for info) u
        | None \<Rightarrow> AuthNeeded info (authenticator_for info)) s)) s"

text \<open>A call of \<open>authenticate\<close>, \<open>deauthenticate\<close> or \<open>cancel_wait\<close> asks for the token.\<close>

definition auth_call :: "nat \<Rightarrow> bool \<Rightarrow> 'r server_info \<Rightarrow> 'r server_manager \<Rightarrow> 'r server_manager" where
  "auth_call t login info s =
     (if \<not> login \<and> si_auth info = NoAuth then set_task t (Ended LoggedOut) s
      else set_task t (AuthWait login info) (s\<lparr>sm_queue := sm_queue s @ [t]\<rparr>))"

definition cancel_call :: "nat \<Rightarrow> 'r server_manager \<Rightarrow> 'r server_manager" where
  "cancel_call t s = set_task t CancelWait (s\<lparr>sm_queue := sm_queue s @ [t]\<rparr>)"

text \<open>The front of the queue. A writer waits until no task reads, makes a new token (the old one, cancelled here,
  has no listener left) and goes on as a reader; a cancellation only reads.\<close>

definition token_next :: "'r server_manager \<Rightarrow> 'r server_manager option" where
  "token_next s =
     (case sm_queue s of
        [] \<Rightarrow> None
      | t # q \<Rightarrow>
          (case sm_tasks s t of
             Some (AuthWait login info) \<Rightarrow>
               if sm_holder s = None
               then Some (set_task t (AuthLocked login info) (s\<lparr>sm_queue := q, sm_holder := Some t, sm_token := Some False\<rparr>))
               else None
           | Some CancelWait \<Rightarrow>
               Some (end_task t CancelSent (s\<lparr>sm_queue := q, sm_token := map_option (\<lambda>_. True) (sm_token s)\<rparr>))
           | _ \<Rightarrow> None))"

definition auth_check :: "nat \<Rightarrow> nat \<Rightarrow> bool \<Rightarrow> 'r server_info \<Rightarrow> 'r server_manager \<Rightarrow> 'r server_manager" where
  "auth_check now t login info s = with_server t (si_url info) (\<lambda>server.
     case sv_state server of
       Handshaking \<Rightarrow> end_task t (Panicked (si_url info)) s
     | HandshakeFailed \<Rightarrow> end_task t (Panicked (si_url info)) s
     | AuthNeeded _ authenticator \<Rightarrow> set_task t (AuthRunning login info authenticator) s
     | Ready _ authenticator user \<Rightarrow>
         if \<not> login then set_task t (AuthRunning login info authenticator) s
         else if is_valid now user then end_task t (GotUser user) s
         else set_task t (AuthRunning login info authenticator)
                (set_server_state (si_url info) (si_url info) server (AuthNeeded info authenticator) s)) s"

definition auth_cancelled :: "nat \<Rightarrow> 'r server_manager \<Rightarrow> 'r server_manager" where
  "auth_cancelled t s = end_task t UserCancelled (s\<lparr>sm_auth_status := AuthIdle\<rparr>)"

text \<open>The result of the interaction: a user for a login. A logout is stored even when it failed.\<close>

definition auth_result ::
  "nat \<Rightarrow> bool \<Rightarrow> 'r server_info \<Rightarrow> 'r authenticator \<Rightarrow> user_info option \<Rightarrow> 'r server_manager \<Rightarrow> 'r server_manager" where
  "auth_result t login info authenticator user s =
     (if login \<and> user = None then end_task t AuthFailed (s\<lparr>sm_auth_status := AuthIdle\<rparr>)
      else set_task t (AuthStoring login info authenticator user) (s\<lparr>sm_auth_status := AuthIdle\<rparr>))"

definition auth_store ::
  "bool \<Rightarrow> nat \<Rightarrow> 'r server_info \<Rightarrow> 'r authenticator \<Rightarrow> user_info option \<Rightarrow> 'r server_manager \<Rightarrow> 'r server_manager" where
  "auth_store ok t info authenticator user s = with_server t (si_url info) (\<lambda>server.
     case user of
       Some u \<Rightarrow> end_task t (GotUser u) (set_server_state (si_url info) (si_url info) server (Ready info authenticator u) s)
     | None \<Rightarrow> end_task t (if ok then LoggedOut else AuthFailed)
                (set_server_state (si_url info) (si_url info) server (AuthNeeded info authenticator) s)) s"

text \<open>\<open>user\<close> is what \<open>immediate_authenticate\<close> gives if it is asked. The table is locked all along.\<close>

definition try_reauthenticate ::
  "nat \<Rightarrow> user_info option \<Rightarrow> 'r server_info \<Rightarrow> 'r server_manager \<Rightarrow> user_info option \<times> 'r server_manager" where
  "try_reauthenticate now user info s =
     (case hm_get (sm_servers s) (si_url info) of
        None \<Rightarrow> (None, s)
      | Some server \<Rightarrow>
          (case sv_state server of
             Ready server_info authenticator user_info \<Rightarrow>
               let new_user_info = (if is_valid now user_info then None else user);
                   state = (case new_user_info of
                              Some u \<Rightarrow> Ready server_info authenticator u
                            | None \<Rightarrow> AuthNeeded server_info authenticator)
               in (new_user_info, set_server_state (si_url info) (si_url server_info) server state s)
           | _ \<Rightarrow> (None, s)))"

definition try_authenticate :: "nat \<Rightarrow> 'r server_info \<Rightarrow> 'r server_manager \<Rightarrow> user_info option" where
  "try_authenticate now info s =
     (case hm_get (sm_servers s) (si_url info) of
        None \<Rightarrow> None
      | Some server \<Rightarrow>
          (case sv_state server of Ready _ _ user \<Rightarrow> if is_valid now user then Some user else None | _ \<Rightarrow> None))"

section \<open>Steps\<close>

inductive sm_step :: "('r, 'v::linorder) handshake_ops \<Rightarrow> 'r server_manager \<Rightarrow> 'r server_manager \<Rightarrow> bool" for H where
  step_handshake: "sm_tasks s t = None \<Longrightarrow> sm_step H s (handshake_begin t url s)"
| step_lock: "sm_tasks s t = Some (HandshakeWait url) \<Longrightarrow> handshake_lock t url s = Some s' \<Longrightarrow> sm_step H s s'"
| step_check: "sm_tasks s t = Some (HandshakeLocked url) \<Longrightarrow> sm_step H s (handshake_check t url s)"
| step_reply: "sm_tasks s t = Some (HandshakeRequest url) \<Longrightarrow> sm_step H s (handshake_reply H t url reply s)"
| step_immediate: "sm_tasks s t = Some (HandshakeImmediate url info) \<Longrightarrow> gives_user (authenticator_for info) user \<Longrightarrow>
    sm_step H s (handshake_immediate t url info user s)"
| step_auth_call: "sm_tasks s t = None \<Longrightarrow> info \<in> set (sm_infos s) \<Longrightarrow> sm_step H s (auth_call t login info s)"
| step_cancel_call: "sm_tasks s t = None \<Longrightarrow> sm_step H s (cancel_call t s)"
| step_token: "token_next s = Some s' \<Longrightarrow> sm_step H s s'"
| step_auth_check: "sm_tasks s t = Some (AuthLocked login info) \<Longrightarrow> sm_step H s (auth_check now t login info s)"
| step_cancelled: "sm_tasks s t = Some (AuthRunning login info a) \<Longrightarrow> sm_token s = Some True \<Longrightarrow> sm_step H s (auth_cancelled t s)"
| step_status: "sm_tasks s t = Some (AuthRunning login info (OidcAuthenticator c i)) \<Longrightarrow> sm_step H s (s\<lparr>sm_auth_status := status\<rparr>)"
| step_result: "sm_tasks s t = Some (AuthRunning login info a) \<Longrightarrow> (if login then gives_user a user else user = None) \<Longrightarrow>
    sm_step H s (auth_result t login info a user s)"
| step_store: "sm_tasks s t = Some (AuthStoring login info a user) \<Longrightarrow> sm_step H s (auth_store ok t info a user s)"
| step_reauthenticate: "info \<in> set (sm_infos s) \<Longrightarrow> sm_step H s (snd (try_reauthenticate now user info s))"

abbreviation sm_reachable :: "('r, 'v::linorder) handshake_ops \<Rightarrow> 'r server_manager \<Rightarrow> bool" where
  "sm_reachable H \<equiv> reachable (\<lambda>s. s = server_manager_new) (sm_step H)"

section \<open>The invariant\<close>

definition state_of :: "'r server_manager \<Rightarrow> 'r \<Rightarrow> 'r server_state option" where
  "state_of s url = map_option sv_state (hm_get (sm_servers s) url)"

definition lock_of :: "'r server_manager \<Rightarrow> 'r \<Rightarrow> nat option" where
  "lock_of s url = Option.bind (hm_get (sm_servers s) url) sv_lock"

fun info_of :: "'r server_state \<Rightarrow> 'r server_info option" where
  "info_of (AuthNeeded info _) = Some info"
| "info_of (Ready info _ _) = Some info"
| "info_of _ = None"

text \<open>What holds of a task at its place.\<close>

fun place_ok :: "('r, 'v) handshake_ops \<Rightarrow> 'r server_manager \<Rightarrow> nat \<Rightarrow> 'r auth_task \<Rightarrow> bool" where
  "place_ok H s t (HandshakeWait url) \<longleftrightarrow> state_of s url \<noteq> None"
| "place_ok H s t (HandshakeLocked url) \<longleftrightarrow> lock_of s url = Some t"
| "place_ok H s t (HandshakeRequest url) \<longleftrightarrow> lock_of s url = Some t \<and> state_of s url = Some Handshaking"
| "place_ok H s t (HandshakeImmediate url info) \<longleftrightarrow>
     lock_of s url = Some t \<and> state_of s url = Some Handshaking \<and> si_url info = url"
| "place_ok H s t (AuthWait login info) \<longleftrightarrow> info \<in> set (sm_infos s)"
| "place_ok H s t (AuthLocked login info) \<longleftrightarrow> info \<in> set (sm_infos s) \<and> sm_holder s = Some t"
| "place_ok H s t (AuthRunning login info a) \<longleftrightarrow> info \<in> set (sm_infos s) \<and> sm_holder s = Some t"
| "place_ok H s t (AuthStoring login info a user) \<longleftrightarrow> info \<in> set (sm_infos s) \<and> sm_holder s = Some t"
| "place_ok H s t (Ended (Panicked url)) \<longleftrightarrow> hp_join H url ''describe'' = None"
| "place_ok H s t _ \<longleftrightarrow> True"

abbreviation info_at :: "'r server_manager \<Rightarrow> 'r \<Rightarrow> 'r server_info option" where
  "info_at s url \<equiv> Option.bind (state_of s url) info_of"

definition infos_known :: "'r server_manager \<Rightarrow> bool" where
  "infos_known s \<longleftrightarrow>
     (\<forall>info\<in>set (sm_infos s). info_at s (si_url info) \<noteq> None) \<and>
     (\<forall>url info. info_at s url = Some info \<longrightarrow> si_url info = url)"

definition tasks_ok :: "('r, 'v) handshake_ops \<Rightarrow> 'r server_manager \<Rightarrow> bool" where
  "tasks_ok H s \<longleftrightarrow> (\<forall>t p. sm_tasks s t = Some p \<longrightarrow> place_ok H s t p)"

definition sm_inv :: "('r, 'v) handshake_ops \<Rightarrow> 'r server_manager \<Rightarrow> bool" where
  "sm_inv H s \<longleftrightarrow> infos_known s \<and> tasks_ok H s \<and> (sm_holder s \<noteq> None \<longrightarrow> sm_token s \<noteq> None)"

lemma set_task_simps [simp]:
  "sm_servers (set_task t p s) = sm_servers s" "sm_holder (set_task t p s) = sm_holder s"
  "sm_token (set_task t p s) = sm_token s" "sm_infos (set_task t p s) = sm_infos s"
  "sm_queue (set_task t p s) = sm_queue s"
  "sm_tasks (set_task t p s) = (sm_tasks s)(t \<mapsto> p)" "state_of (set_task t p s) = state_of s"
  "lock_of (set_task t p s) = lock_of s"
  by (simp_all add: set_task_def state_of_def [abs_def] lock_of_def [abs_def])

lemma set_server_state_simps [simp]:
  "sm_holder (set_server_state k url sv st s) = sm_holder s" "sm_token (set_server_state k url sv st s) = sm_token s"
  "sm_infos (set_server_state k url sv st s) = sm_infos s" "sm_tasks (set_server_state k url sv st s) = sm_tasks s"
  "sm_queue (set_server_state k url sv st s) = sm_queue s"
  "state_of (set_server_state k url sv st s) = (state_of s)(k \<mapsto> st)"
  "lock_of (set_server_state k url sv st s) = (lock_of s)(k := sv_lock sv)"
  by (auto simp: set_server_state_def state_of_def lock_of_def hm_get_insert fun_eq_iff)

lemma end_task_simps [simp]:
  "sm_tasks (end_task t e s) = (sm_tasks s)(t \<mapsto> Ended e)" "sm_infos (end_task t e s) = sm_infos s"
  "sm_holder (end_task t e s) = (if sm_holder s = Some t then None else sm_holder s)"
  "sm_token (end_task t e s) = sm_token s" "sm_queue (end_task t e s) = sm_queue s"
  "state_of (end_task t e s) = state_of s"
  "lock_of (end_task t e s) = (\<lambda>url. if lock_of s url = Some t then None else lock_of s url)"
  by (auto simp: end_task_def state_of_def lock_of_def hm_get_map_values fun_eq_iff option.map_comp comp_def
      split: option.splits Option.bind_splits intro!: option.map_cong)

lemma field_update_simps [simp]:
  "state_of (s\<lparr>sm_infos := i\<rparr>) = state_of s" "lock_of (s\<lparr>sm_infos := i\<rparr>) = lock_of s"
  "state_of (s\<lparr>sm_auth_status := a\<rparr>) = state_of s" "lock_of (s\<lparr>sm_auth_status := a\<rparr>) = lock_of s"
  "state_of (s\<lparr>sm_queue := q\<rparr>) = state_of s" "lock_of (s\<lparr>sm_queue := q\<rparr>) = lock_of s"
  "state_of (s\<lparr>sm_holder := h\<rparr>) = state_of s" "lock_of (s\<lparr>sm_holder := h\<rparr>) = lock_of s"
  "state_of (s\<lparr>sm_token := k\<rparr>) = state_of s" "lock_of (s\<lparr>sm_token := k\<rparr>) = lock_of s"
  by (auto simp: state_of_def lock_of_def fun_eq_iff)

text \<open>A task that does not move keeps its place when the others leave its locks and its server alone.\<close>

lemma place_ok_other:
  assumes "place_ok H s t p" "set (sm_infos s) \<subseteq> set (sm_infos s')"
    and "sm_holder s = Some t \<Longrightarrow> sm_holder s' = Some t"
    and "\<And>url. state_of s url \<noteq> None \<Longrightarrow> state_of s' url \<noteq> None"
    and "\<And>url. lock_of s url = Some t \<Longrightarrow> lock_of s' url = Some t"
    and "\<And>url. lock_of s url = Some t \<Longrightarrow> state_of s url = Some Handshaking \<Longrightarrow> state_of s' url = Some Handshaking"
  shows "place_ok H s' t p"
  using assms by (induction H s t p rule: place_ok.induct) auto

lemma tasks_ok_step:
  assumes "tasks_ok H s" "\<And>u. u \<noteq> t \<Longrightarrow> sm_tasks s' u = sm_tasks s u"
    and "\<And>p. sm_tasks s' t = Some p \<Longrightarrow> place_ok H s' t p"
    and "set (sm_infos s) \<subseteq> set (sm_infos s')"
    and "\<And>u. u \<noteq> t \<Longrightarrow> sm_holder s = Some u \<Longrightarrow> sm_holder s' = Some u"
    and "\<And>url. state_of s url \<noteq> None \<Longrightarrow> state_of s' url \<noteq> None"
    and "\<And>u url. u \<noteq> t \<Longrightarrow> lock_of s url = Some u \<Longrightarrow> lock_of s' url = Some u"
    and "\<And>u url. u \<noteq> t \<Longrightarrow> lock_of s url = Some u \<Longrightarrow> state_of s url = Some Handshaking \<Longrightarrow> state_of s' url = Some Handshaking"
  shows "tasks_ok H s'"
  unfolding tasks_ok_def
proof (intro allI impI)
  fix u p
  assume p: "sm_tasks s' u = Some p"
  show "place_ok H s' u p"
  proof (cases "u = t")
    case False
    with p assms(1,2) have "place_ok H s u p" by (simp add: tasks_ok_def)
    then show ?thesis by (rule place_ok_other) (use assms False in auto)
  qed (use p assms(3) in simp)
qed

section \<open>Every step keeps the invariant\<close>

lemma sm_inv_new: "sm_inv H server_manager_new"
  by (auto simp: sm_inv_def infos_known_def tasks_ok_def server_manager_new_def state_of_def Option.bind_eq_Some_conv)

lemma sm_invD:
  assumes "sm_inv H s" "sm_tasks s t = Some p"
  shows "infos_known s" "tasks_ok H s" "place_ok H s t p" "sm_holder s \<noteq> None \<Longrightarrow> sm_token s \<noteq> None"
  using assms by (auto simp: sm_inv_def tasks_ok_def)

lemma known_server:
  assumes "infos_known s" "info \<in> set (sm_infos s)"
  obtains server i where "hm_get (sm_servers s) (si_url info) = Some server" "info_of (sv_state server) = Some i" "si_url i = si_url info"
proof -
  from assms have "info_at s (si_url info) \<noteq> None" by (simp add: infos_known_def)
  then obtain server i where sv: "hm_get (sm_servers s) (si_url info) = Some server" "info_of (sv_state server) = Some i"
    by (auto simp: state_of_def Option.bind_eq_Some_conv)
  with assms(1) have "si_url i = si_url info" by (auto simp: infos_known_def state_of_def Option.bind_eq_Some_conv)
  with sv show ?thesis by (rule that)
qed

lemma state_of_get: "hm_get (sm_servers s) url = Some sv \<Longrightarrow> state_of s url = Some (sv_state sv)"
  by (simp add: state_of_def)

lemma lock_of_get: "hm_get (sm_servers s) url = Some sv \<Longrightarrow> lock_of s url = sv_lock sv"
  by (simp add: lock_of_def)

text \<open>A server that changes its state: from what, and into what.\<close>

lemma infos_known_set:
  assumes "infos_known s" "case info_of st of Some info \<Rightarrow> si_url info = k | None \<Rightarrow> info_at s k = None"
    and "state_of s' = (state_of s)(k \<mapsto> st)" "set (sm_infos s') \<subseteq> set (sm_infos s) \<union> {i. info_of st \<noteq> None \<and> si_url i = k}"
  shows "infos_known s'"
proof -
  have at: "info_at s' u = (if u = k then info_of st else info_at s u)" for u using assms(3) by simp
  have "info_at s' (si_url i) \<noteq> None" if "i \<in> set (sm_infos s')" for i
    using that assms(1,2,4) unfolding at infos_known_def by (fastforce split: option.splits)
  moreover have "si_url i = url" if "info_at s' url = Some i" for url i
    using that assms(1,2) unfolding at infos_known_def by (auto split: option.splits if_splits)
  ultimately show ?thesis by (simp add: infos_known_def)
qed

lemma infos_known_same:
  assumes "infos_known s" "state_of s' = state_of s"
    and "\<And>info. info \<in> set (sm_infos s') \<Longrightarrow> info \<in> set (sm_infos s) \<or> info_at s (si_url info) \<noteq> None"
  shows "infos_known s'"
  using assms unfolding infos_known_def by auto

lemma handshake_begin_inv:
  assumes "sm_inv H s" "sm_tasks s t = None"
  shows "sm_inv H (handshake_begin t url s)"
proof -
  let ?s = "handshake_begin t url s"
  have st: "state_of ?s = (if state_of s url = None then (state_of s)(url \<mapsto> Handshaking) else state_of s)"
    "lock_of ?s = lock_of s"
    by (auto simp: handshake_begin_def state_of_def lock_of_def hm_contains_def hm_get_insert fun_eq_iff)
  have frame: "sm_tasks ?s = (sm_tasks s)(t \<mapsto> HandshakeWait url)" "sm_infos ?s = sm_infos s" "sm_holder ?s = sm_holder s" "sm_token ?s = sm_token s"
    by (simp_all add: handshake_begin_def)
  have "tasks_ok H ?s"
    by (rule tasks_ok_step [where s = s and t = t]) (use assms in \<open>auto simp: sm_inv_def st frame\<close>)
  moreover have "infos_known ?s" using assms by (auto simp: infos_known_def st frame sm_inv_def)
  ultimately show ?thesis using assms by (simp add: sm_inv_def frame)
qed

lemma handshake_lock_inv:
  assumes "sm_inv H s" "sm_tasks s t = Some (HandshakeWait url)" "handshake_lock t url s = Some s'"
  shows "sm_inv H s'"
proof -
  from assms(3) obtain sv where sv: "hm_get (sm_servers s) url = Some sv" "sv_lock sv = None"
    and s': "s' = set_task t (HandshakeLocked url) (s\<lparr>sm_servers := hm_insert url (sv\<lparr>sv_lock := Some t\<rparr>) (sm_servers s)\<rparr>)"
    by (auto simp: handshake_lock_def split: option.splits if_splits)
  have st: "state_of s' = state_of s" "lock_of s' = (lock_of s)(url \<mapsto> t)" "lock_of s url = None"
    using sv by (auto simp: s' set_task_def state_of_def lock_of_def hm_get_insert fun_eq_iff)
  have frame: "sm_tasks s' = (sm_tasks s)(t \<mapsto> HandshakeLocked url)" "sm_infos s' = sm_infos s" "sm_holder s' = sm_holder s" "sm_token s' = sm_token s"
    by (simp_all add: s')
  have "tasks_ok H s'"
    by (rule tasks_ok_step [where s = s and t = t]) (use assms(1) st in \<open>auto simp: sm_inv_def frame\<close>)
  moreover have "infos_known s'" using assms(1) by (auto simp: infos_known_def st frame sm_inv_def)
  ultimately show ?thesis using assms by (simp add: sm_inv_def frame)
qed

lemma give_info_inv:
  assumes "infos_known s'" "tasks_ok H s" "sm_holder s \<noteq> None \<longrightarrow> sm_token s \<noteq> None" and s': "s' = give_info t info s1"
    and "sm_tasks s1 = sm_tasks s" "sm_infos s1 = sm_infos s" "sm_holder s1 = sm_holder s" "sm_token s1 = sm_token s"
    and "\<And>url. state_of s url \<noteq> None \<Longrightarrow> state_of s1 url \<noteq> None" "lock_of s1 = lock_of s"
    and "\<And>u url. u \<noteq> t \<Longrightarrow> lock_of s url = Some u \<Longrightarrow> state_of s url = Some Handshaking \<Longrightarrow> state_of s1 url = Some Handshaking"
  shows "sm_inv H s'"
proof -
  have "tasks_ok H s'"
    by (rule tasks_ok_step [OF assms(2), where t = t]) (use assms(5-) in \<open>auto simp: s' give_info_def\<close>)
  with assms(1,3,5-) show ?thesis by (auto simp: sm_inv_def s' give_info_def)
qed

lemma sm_inv_move:
  assumes "sm_inv H s" "infos_known s'" "sm_infos s' = sm_infos s" "sm_token s' = sm_token s"
    and "sm_tasks s' = (sm_tasks s)(t \<mapsto> p)" "place_ok H s' t p"
    and "sm_holder s' = sm_holder s \<or> sm_holder s = Some t \<and> sm_holder s' = None"
    and "\<And>url. state_of s url \<noteq> None \<Longrightarrow> state_of s' url \<noteq> None"
    and "\<And>u url. u \<noteq> t \<Longrightarrow> lock_of s url = Some u \<Longrightarrow> lock_of s' url = Some u"
    and "\<And>u url. u \<noteq> t \<Longrightarrow> lock_of s url = Some u \<Longrightarrow> state_of s url = Some Handshaking \<Longrightarrow> state_of s' url = Some Handshaking"
  shows "sm_inv H s'"
proof -
  have "tasks_ok H s'"
    by (rule tasks_ok_step [where s = s and t = t]) (use assms in \<open>auto simp: sm_inv_def\<close>)
  with assms(1,2,4,7) show ?thesis by (auto simp: sm_inv_def)
qed

lemma handshake_check_inv:
  assumes inv: "sm_inv H s" and t: "sm_tasks s t = Some (HandshakeLocked url)"
  shows "sm_inv H (handshake_check t url s)"
proof -
  note ok = sm_invD [OF inv t]
  from ok(3) obtain sv where sv: "hm_get (sm_servers s) url = Some sv" "sv_lock sv = Some t"
    by (auto simp: lock_of_def Option.bind_eq_Some_conv)
  note st = state_of_get [OF sv(1)] lock_of_get [OF sv(1)] sv(2)
  show ?thesis
  proof (cases "info_of (sv_state sv)")
    case None
    then have s': "handshake_check t url s = set_task t (HandshakeRequest url) (set_server_state url url sv Handshaking s)"
      by (cases "sv_state sv") (simp_all add: handshake_check_def with_server_def sv)
    have "infos_known (handshake_check t url s)"
      by (rule infos_known_set [OF ok(1), where k = url and st = Handshaking]) (use None st in \<open>auto simp: s'\<close>)
    then show ?thesis
      by (rule sm_inv_move [OF inv]) (use st in \<open>auto simp: s'\<close>)
  next
    case (Some info)
    then have s': "handshake_check t url s = give_info t info s"
      by (cases "sv_state sv") (simp_all add: handshake_check_def with_server_def sv)
    have at: "info_at s url = Some info" using Some st by simp
    then have "si_url info = url" using ok(1) by (simp add: infos_known_def)
    with at have "infos_known (handshake_check t url s)"
      by (intro infos_known_same [OF ok(1)]) (auto simp: s' give_info_def)
    then show ?thesis
      by (rule give_info_inv [OF _ ok(2)]) (use ok(4) in \<open>auto simp: s'\<close>)
  qed
qed

lemma handshake_reply_inv:
  assumes inv: "sm_inv H s" and t: "sm_tasks s t = Some (HandshakeRequest url)"
  shows "sm_inv H (handshake_reply H t url reply s)"
proof -
  note ok = sm_invD [OF inv t]
  from ok(3) obtain sv where sv: "hm_get (sm_servers s) url = Some sv" "sv_lock sv = Some t" "sv_state sv = Handshaking"
    by (auto simp: lock_of_def state_of_def Option.bind_eq_Some_conv)
  note st = state_of_get [OF sv(1)] lock_of_get [OF sv(1)] sv(2,3)
  consider (err) e where "server_handshake H url reply = Inl (Err e)"
    | (panic) f where "server_handshake H url reply = Inl f" "\<And>e. f \<noteq> Err e"
    | (ok) info where "server_handshake H url reply = Inr info"
    by (cases "server_handshake H url reply") (metis, metis)
  then show ?thesis
  proof cases
    case err
    then have s': "handshake_reply H t url reply s = end_task t HandshakeError (set_server_state url url sv HandshakeFailed s)"
      by (simp add: handshake_reply_def with_server_def sv)
    have "infos_known (handshake_reply H t url reply s)"
      by (rule infos_known_set [OF ok(1), where k = url and st = HandshakeFailed]) (use st in \<open>auto simp: s'\<close>)
    then show ?thesis
      by (rule sm_inv_move [OF inv]) (use st in \<open>auto simp: s'\<close>)
  next
    case panic
    have "f = Panic" using panic by (cases f) (auto simp: server_handshake_no_divergence)
    with panic have s': "handshake_reply H t url reply s = end_task t (Panicked url) s"
      and "hp_join H url ''describe'' = None"
      using server_handshake_panic [of H url reply] by (simp_all add: handshake_reply_def)
    moreover have "infos_known (handshake_reply H t url reply s)"
      by (rule infos_known_same [OF ok(1)]) (auto simp: s')
    ultimately show ?thesis
      by (intro sm_inv_move [OF inv]) auto
  next
    case (ok info)
    then have s': "handshake_reply H t url reply s = set_task t (HandshakeImmediate url info) s"
      by (simp add: handshake_reply_def)
    moreover have "infos_known (handshake_reply H t url reply s)"
      by (rule infos_known_same [OF \<open>infos_known s\<close>]) (auto simp: s')
    ultimately show ?thesis
      using st server_handshake_url [OF ok] by (intro sm_inv_move [OF inv]) auto
  qed
qed

lemma handshake_immediate_inv:
  assumes inv: "sm_inv H s" and t: "sm_tasks s t = Some (HandshakeImmediate url info)"
  shows "sm_inv H (handshake_immediate t url info user s)"
proof -
  note ok = sm_invD [OF inv t]
  from ok(3) obtain sv where sv: "hm_get (sm_servers s) url = Some sv" "sv_lock sv = Some t" "sv_state sv = Handshaking"
    and url: "si_url info = url"
    by (auto simp: lock_of_def state_of_def Option.bind_eq_Some_conv)
  define st where "st = (case user of Some u \<Rightarrow> Ready info (authenticator_for info) u | None \<Rightarrow> AuthNeeded info (authenticator_for info))"
  have info: "info_of st = Some info" by (simp add: st_def split: option.split)
  have s': "handshake_immediate t url info user s = give_info t info (set_server_state url url sv st s)"
    by (simp add: handshake_immediate_def with_server_def sv st_def)
  note at = state_of_get [OF sv(1)] lock_of_get [OF sv(1)] sv(2,3)
  have "infos_known (handshake_immediate t url info user s)"
    by (rule infos_known_set [OF ok(1), where k = url and st = st]) (use at in \<open>auto simp: s' give_info_def info url\<close>)
  then show ?thesis
    by (rule give_info_inv [OF _ ok(2) _ s']) (use ok(4) at in \<open>auto simp: fun_eq_iff\<close>)
qed

lemma auth_call_inv:
  assumes inv: "sm_inv H s" and "sm_tasks s t = None" "info \<in> set (sm_infos s)"
  shows "sm_inv H (auth_call t login info s)"
proof -
  have "infos_known (auth_call t login info s)"
    by (rule infos_known_same [of s]) (use inv in \<open>auto simp: auth_call_def sm_inv_def split: if_splits\<close>)
  then show ?thesis
    by (rule sm_inv_move [OF inv, where t = t and p = "if \<not> login \<and> si_auth info = NoAuth then Ended LoggedOut else AuthWait login info"])
      (use assms in \<open>auto simp: auth_call_def\<close>)
qed

lemma cancel_call_inv:
  assumes inv: "sm_inv H s" and "sm_tasks s t = None"
  shows "sm_inv H (cancel_call t s)"
proof -
  have "infos_known (cancel_call t s)"
    by (rule infos_known_same [of s]) (use inv in \<open>auto simp: cancel_call_def sm_inv_def\<close>)
  then show ?thesis
    by (rule sm_inv_move [OF inv, where t = t and p = CancelWait]) (use assms in \<open>auto simp: cancel_call_def\<close>)
qed

lemma token_next_cases:
  assumes "token_next s = Some s'"
  obtains (login) t q login info where "sm_queue s = t # q" "sm_tasks s t = Some (AuthWait login info)" "sm_holder s = None"
      "s' = set_task t (AuthLocked login info) (s\<lparr>sm_queue := q, sm_holder := Some t, sm_token := Some False\<rparr>)"
    | (cancel) t q where "sm_queue s = t # q" "sm_tasks s t = Some CancelWait"
      "s' = end_task t CancelSent (s\<lparr>sm_queue := q, sm_token := map_option (\<lambda>_. True) (sm_token s)\<rparr>)"
  using assms by (auto simp: token_next_def split: list.splits option.splits auth_task.splits if_splits)

lemma token_next_inv:
  assumes inv: "sm_inv H s" and s': "token_next s = Some s'"
  shows "sm_inv H s'"
  using s'
proof (cases rule: token_next_cases)
  case (login t q login info)
  note ok = sm_invD [OF inv login(2)]
  have "infos_known s'" by (rule infos_known_same [OF ok(1)]) (auto simp: login(4))
  moreover have "tasks_ok H s'"
    by (rule tasks_ok_step [OF ok(2), where t = t]) (use ok(3) login(3) in \<open>auto simp: login(4)\<close>)
  ultimately show ?thesis by (simp add: sm_inv_def login(4))
next
  case (cancel t q)
  note ok = sm_invD [OF inv cancel(2)]
  have "infos_known s'" by (rule infos_known_same [OF ok(1)]) (auto simp: cancel(3))
  moreover have "tasks_ok H s'"
    by (rule tasks_ok_step [OF ok(2), where t = t]) (auto simp: cancel(3))
  ultimately show ?thesis using ok(4) by (auto simp: sm_inv_def cancel(3))
qed

text \<open>The steps of a task that holds the token.\<close>

lemma holder_inv:
  assumes inv: "sm_inv H s" and t: "sm_tasks s t = Some p" and info: "info \<in> set (sm_infos s)"
    and sv: "hm_get (sm_servers s) (si_url info) = Some sv" "info_of (sv_state sv) \<noteq> None"
    and st: "state_of s' = state_of s \<or> (\<exists>st. state_of s' = (state_of s)(si_url info \<mapsto> st) \<and> info_of st = Some info)"
    and "lock_of s' = lock_of s \<or> lock_of s' = (\<lambda>url. if lock_of s url = Some t then None else lock_of s url)"
    and "sm_infos s' = sm_infos s" "sm_token s' = sm_token s" "sm_tasks s' = (sm_tasks s)(t \<mapsto> p')" "place_ok H s' t p'"
    and "sm_holder s' = sm_holder s \<or> sm_holder s = Some t \<and> sm_holder s' = None"
  shows "sm_inv H s'"
proof -
  have known: "infos_known s" using inv by (simp add: sm_inv_def)
  have at: "state_of s (si_url info) = Some (sv_state sv)" "sv_state sv \<noteq> Handshaking"
    using sv by (auto simp: state_of_def)
  have "infos_known s'" using st
  proof
    assume "state_of s' = state_of s"
    with known assms(8) show ?thesis by (intro infos_known_same [OF known]) auto
  next
    assume "\<exists>st. state_of s' = (state_of s)(si_url info \<mapsto> st) \<and> info_of st = Some info"
    with known assms(8) show ?thesis by (elim exE conjE) (rule infos_known_set [OF known], auto)
  qed
  then show ?thesis
    by (rule sm_inv_move [OF inv _ assms(8-12)]) (use at assms(6,7) in \<open>auto split: if_splits\<close>)
qed

lemma auth_check_inv:
  assumes inv: "sm_inv H s" and t: "sm_tasks s t = Some (AuthLocked login info)"
  shows "sm_inv H (auth_check now t login info s)"
proof -
  note ok = sm_invD [OF inv t]
  from ok(3) have info: "info \<in> set (sm_infos s)" "sm_holder s = Some t" by simp_all
  obtain sv i where sv: "hm_get (sm_servers s) (si_url info) = Some sv" "info_of (sv_state sv) = Some i"
    by (rule known_server [OF ok(1) info(1)])
  note at = state_of_get [OF sv(1)] lock_of_get [OF sv(1)]
  show ?thesis
    by (cases "sv_state sv"; cases login)
      (use sv info at in \<open>auto intro!: holder_inv [OF inv t info(1) sv(1)] simp: auth_check_def with_server_def fun_eq_iff\<close>)
qed

lemma auth_cancelled_inv:
  assumes inv: "sm_inv H s" and t: "sm_tasks s t = Some (AuthRunning login info a)"
  shows "sm_inv H (auth_cancelled t s)"
proof -
  note ok = sm_invD [OF inv t]
  obtain sv i where sv: "hm_get (sm_servers s) (si_url info) = Some sv" "info_of (sv_state sv) = Some i"
    by (rule known_server [OF ok(1)]) (use ok(3) in auto)
  show ?thesis
    by (rule holder_inv [OF inv t _ sv(1)]) (use sv ok(3) in \<open>auto simp: auth_cancelled_def\<close>)
qed

lemma auth_result_inv:
  assumes inv: "sm_inv H s" and t: "sm_tasks s t = Some (AuthRunning login info a)"
  shows "sm_inv H (auth_result t login info a user s)"
proof -
  note ok = sm_invD [OF inv t]
  obtain sv i where sv: "hm_get (sm_servers s) (si_url info) = Some sv" "info_of (sv_state sv) = Some i"
    by (rule known_server [OF ok(1)]) (use ok(3) in auto)
  show ?thesis
    by (cases "login \<and> user = None"; rule holder_inv [OF inv t _ sv(1)]) (use sv ok(3) in \<open>auto simp: auth_result_def\<close>)
qed

lemma auth_store_inv:
  assumes inv: "sm_inv H s" and t: "sm_tasks s t = Some (AuthStoring login info a user)"
  shows "sm_inv H (auth_store d t info a user s)"
proof -
  note ok = sm_invD [OF inv t]
  obtain sv i where sv: "hm_get (sm_servers s) (si_url info) = Some sv" "info_of (sv_state sv) = Some i"
    by (rule known_server [OF ok(1)]) (use ok(3) in auto)
  note at = lock_of_get [OF sv(1)]
  show ?thesis
    by (cases user; cases d; rule holder_inv [OF inv t _ sv(1)])
      (use sv ok(3) at in \<open>auto simp: auth_store_def with_server_def fun_eq_iff\<close>)
qed

lemma reauthenticate_inv:
  assumes inv: "sm_inv H s" and info: "info \<in> set (sm_infos s)"
  shows "sm_inv H (snd (try_reauthenticate now user info s))"
proof -
  let ?s = "snd (try_reauthenticate now user info s)"
  have known: "infos_known s" and tasks: "tasks_ok H s" using inv by (simp_all add: sm_inv_def)
  obtain sv i where sv: "hm_get (sm_servers s) (si_url info) = Some sv" "info_of (sv_state sv) = Some i" "si_url i = si_url info"
    using info by (rule known_server [OF known])
  have frame: "sm_infos ?s = sm_infos s" "sm_tasks ?s = sm_tasks s" "sm_holder ?s = sm_holder s" "sm_token ?s = sm_token s"
    by (auto simp: try_reauthenticate_def Let_def split: option.splits server_state.splits)
  have lock: "lock_of ?s = lock_of s"
    using lock_of_get [OF sv(1)] sv(1)
    by (auto simp: try_reauthenticate_def Let_def fun_eq_iff split: option.splits server_state.splits)
  have state: "state_of ?s = state_of s \<or> (\<exists>st. state_of ?s = (state_of s)(si_url info \<mapsto> st) \<and> info_of st = Some i)"
    using sv by (cases "sv_state sv") (auto simp: try_reauthenticate_def Let_def split: option.splits)
  have "infos_known ?s" using state
  proof
    assume "state_of ?s = state_of s"
    then show ?thesis by (intro infos_known_same [OF known]) (auto simp: frame)
  next
    assume "\<exists>st. state_of ?s = (state_of s)(si_url info \<mapsto> st) \<and> info_of st = Some i"
    then show ?thesis using sv(3) by (elim exE conjE) (rule infos_known_set [OF known], auto simp: frame)
  qed
  moreover have "state_of s (si_url info) \<noteq> Some Handshaking"
    using state_of_get [OF sv(1)] sv(2) by auto
  then have "tasks_ok H ?s"
    unfolding tasks_ok_def
  proof (intro allI impI)
    fix t p
    assume "sm_tasks ?s t = Some p"
    then have "place_ok H s t p" using tasks by (simp add: tasks_ok_def frame)
    then show "place_ok H ?s t p"
      by (rule place_ok_other) (use state \<open>state_of s (si_url info) \<noteq> _\<close> in \<open>auto simp: frame lock\<close>)
  qed
  ultimately show ?thesis using inv by (simp add: sm_inv_def frame)
qed

lemma place_ok_status: "place_ok H (s\<lparr>sm_auth_status := status\<rparr>) t p \<longleftrightarrow> place_ok H s t p"
  by (induction H s t p rule: place_ok.induct) auto

lemma sm_step_inv: "sm_step H s s' \<Longrightarrow> sm_inv H s \<Longrightarrow> sm_inv H s'"
proof (induction rule: sm_step.induct)
  case (step_status s t login info c i status)
  then show ?case by (simp add: sm_inv_def infos_known_def tasks_ok_def place_ok_status)
qed (fast intro: handshake_begin_inv handshake_lock_inv handshake_check_inv handshake_reply_inv handshake_immediate_inv
    auth_call_inv cancel_call_inv token_next_inv auth_check_inv auth_cancelled_inv auth_result_inv auth_store_inv
    reauthenticate_inv)+

interpretation sm: step_system "\<lambda>s. s = server_manager_new" "sm_step H" "sm_inv H" for H
  by unfold_locales (auto simp: sm_inv_new intro: sm_step_inv)

section \<open>What the manager promises\<close>

text \<open>C28: A task of the server manager panics only where the request for the handshake cannot be built, because its
  URL is no base for \<open>describe\<close>: a server whose \<open>ServerInfo\<close> was handed out is known and past its handshake for
  ever, so no \<open>expect\<close> and neither of the panics of \<open>authenticate\<close> and \<open>deauthenticate\<close> is reached.
\<close>

theorem server_manager_no_panic:
  assumes "sm_reachable H s" and "sm_tasks s t = Some (Ended (Panicked url))"
  shows "hp_join H url ''describe'' = None"
  using sm_invD(3) [OF sm.inv_reachable [OF assms(1)] assms(2)] by simp

text \<open>The tasks that talk to a server, and those that interact with the user.\<close>

fun handshakes_with :: "'r \<Rightarrow> 'r auth_task option \<Rightarrow> bool" where
  "handshakes_with url (Some (HandshakeLocked u)) \<longleftrightarrow> u = url"
| "handshakes_with url (Some (HandshakeRequest u)) \<longleftrightarrow> u = url"
| "handshakes_with url (Some (HandshakeImmediate u _)) \<longleftrightarrow> u = url"
| "handshakes_with url _ \<longleftrightarrow> False"

fun interacts :: "'r auth_task option \<Rightarrow> bool" where
  "interacts (Some (AuthLocked _ _)) \<longleftrightarrow> True"
| "interacts (Some (AuthRunning _ _ _)) \<longleftrightarrow> True"
| "interacts (Some (AuthStoring _ _ _ _)) \<longleftrightarrow> True"
| "interacts _ \<longleftrightarrow> False"

lemma handshake_holds: "sm_inv H s \<Longrightarrow> handshakes_with url (sm_tasks s t) \<Longrightarrow> lock_of s url = Some t"
  by (cases "(url, sm_tasks s t)" rule: handshakes_with.cases) (auto dest: sm_invD(3))

lemma interaction_holds: "sm_inv H s \<Longrightarrow> interacts (sm_tasks s t) \<Longrightarrow> sm_holder s = Some t"
  by (cases "sm_tasks s t" rule: interacts.cases) (auto dest: sm_invD(3))

text \<open>C29: At most one task at a time handshakes with a server, and at most one login or logout of all servers is
  under way.
\<close>

theorem one_handshake_one_login:
  assumes "sm_reachable H s"
  shows "(\<exists>\<^sub>\<le>\<^sub>1t. handshakes_with url (sm_tasks s t)) \<and> (\<exists>\<^sub>\<le>\<^sub>1t. interacts (sm_tasks s t))"
  using handshake_holds [OF sm.inv_reachable [OF assms]] interaction_holds [OF sm.inv_reachable [OF assms]]
  by (auto simp: Uniq_def) (metis option.sel)+

section \<open>Cancelling\<close>

text \<open>A task interacts with the user, and another one waits for its turn before every cancellation.\<close>

definition queued_behind :: "nat \<Rightarrow> nat \<Rightarrow> 'r server_manager \<Rightarrow> bool" where
  "queued_behind a b s \<longleftrightarrow>
     sm_holder s = Some a \<and> sm_token s = Some False \<and> interacts (sm_tasks s a) \<and>
     (\<exists>q login info. sm_queue s = b # q \<and> sm_tasks s b = Some (AuthWait login info))"

definition ended_alone :: "nat \<Rightarrow> 'r server_manager \<Rightarrow> bool" where
  "ended_alone a s \<longleftrightarrow> (\<exists>e. sm_tasks s a = Some (Ended e) \<and> e \<noteq> UserCancelled)"

lemma ended_alone_kept: "sm_step H s s' \<Longrightarrow> ended_alone a s \<Longrightarrow> ended_alone a s'"
  by (induction rule: sm_step.induct)
    (auto simp: ended_alone_def handshake_begin_def handshake_lock_def handshake_check_def handshake_reply_def
      handshake_immediate_def auth_call_def cancel_call_def auth_check_def auth_cancelled_def auth_result_def
      auth_store_def try_reauthenticate_def with_server_def give_info_def Let_def
      split: option.splits server_state.splits sum.splits fault.splits if_splits elim!: token_next_cases)

lemma waiting_front: "queued_behind a b s \<Longrightarrow> token_next s = None"
  by (auto simp: queued_behind_def token_next_def)

lemma queued_behind_frame:
  assumes "queued_behind a b s" "sm_tasks s t = p" "\<not> interacts p" "p \<noteq> sm_tasks s b"
    and "\<And>u. u \<noteq> t \<Longrightarrow> sm_tasks s' u = sm_tasks s u" "sm_token s' = sm_token s"
    and "sm_holder s' = (if sm_holder s = Some t then None else sm_holder s) \<or> sm_holder s' = sm_holder s"
    and "sm_queue s' = sm_queue s \<or> sm_queue s' = sm_queue s @ [t]"
  shows "queued_behind a b s'"
  using assms unfolding queued_behind_def by (cases "t = a"; cases "t = b") auto

lemmas handshake_steps = handshake_begin_def handshake_lock_def handshake_check_def handshake_reply_def
  handshake_immediate_def with_server_def give_info_def Let_def

lemma handshake_keeps_queue:
  assumes "queued_behind a b s"
  shows "sm_tasks s t = None \<Longrightarrow> queued_behind a b (handshake_begin t url s)"
    and "sm_tasks s t = Some (HandshakeWait url) \<Longrightarrow> handshake_lock t url s = Some s' \<Longrightarrow> queued_behind a b s'"
    and "sm_tasks s t = Some (HandshakeLocked url) \<Longrightarrow> queued_behind a b (handshake_check t url s)"
    and "sm_tasks s t = Some (HandshakeRequest url) \<Longrightarrow> queued_behind a b (handshake_reply H t url reply s)"
    and "sm_tasks s t = Some (HandshakeImmediate url info) \<Longrightarrow> queued_behind a b (handshake_immediate t url info user s)"
proof -
  have b: "\<exists>login info. sm_tasks s b = Some (AuthWait login info)" using assms by (auto simp: queued_behind_def)
  note frame = queued_behind_frame [OF assms, where t = t]
  show "queued_behind a b (handshake_begin t url s)" if "sm_tasks s t = None"
    by (rule frame [OF that]) (use b in \<open>auto simp: handshake_begin_def\<close>)
  show "queued_behind a b s'" if "sm_tasks s t = Some (HandshakeWait url)" "handshake_lock t url s = Some s'"
    by (rule frame [OF that(1)]) (use b that(2) in \<open>auto simp: handshake_lock_def split: option.splits if_splits\<close>)
  show "queued_behind a b (handshake_check t url s)" if "sm_tasks s t = Some (HandshakeLocked url)"
    by (rule frame [OF that]) (use b in \<open>auto simp: handshake_steps split: option.splits server_state.splits\<close>)
  show "queued_behind a b (handshake_reply H t url reply s)" if "sm_tasks s t = Some (HandshakeRequest url)"
    by (rule frame [OF that]) (use b in \<open>auto simp: handshake_steps split: option.splits sum.splits fault.splits\<close>)
  show "queued_behind a b (handshake_immediate t url info user s)" if "sm_tasks s t = Some (HandshakeImmediate url info)"
    by (rule frame [OF that]) (use b in \<open>auto simp: handshake_steps split: option.splits\<close>)
qed

text \<open>The task that interacts goes on, or ends without having been cancelled.\<close>

lemma interaction_keeps_queue:
  assumes "queued_behind a b s" "interacts (sm_tasks s t)" "sm_holder s = Some t"
    and "\<And>u. u \<noteq> t \<Longrightarrow> sm_tasks s' u = sm_tasks s u" "sm_token s' = sm_token s" "sm_queue s' = sm_queue s"
    and "interacts (sm_tasks s' t) \<and> sm_holder s' = sm_holder s \<or> ended_alone t s'"
  shows "queued_behind a b s' \<or> ended_alone a s'"
  using assms unfolding queued_behind_def by (cases "t = b") auto

lemma queued_behind_step:
  assumes inv: "sm_inv H s" and step: "sm_step H s s'" and behind: "queued_behind a b s"
  shows "queued_behind a b s' \<or> ended_alone a s'"
  using step
proof cases
  case (step_auth_check t login info now)
  have i: "interacts (sm_tasks s t)" by (simp add: step_auth_check)
  show ?thesis
    by (rule interaction_keeps_queue [OF behind i interaction_holds [OF inv i]])
      (auto simp: step_auth_check(1) auth_check_def with_server_def ended_alone_def split: option.splits server_state.splits)
next
  case (step_cancelled t login info a')
  then have "interacts (sm_tasks s t)" by simp
  then have "t = a" using interaction_holds [OF inv] behind by (auto simp: queued_behind_def)
  with step_cancelled behind show ?thesis by (simp add: queued_behind_def)
next
  case (step_result t login info a' user)
  then have i: "interacts (sm_tasks s t)" by simp
  show ?thesis
    by (rule interaction_keeps_queue [OF behind i interaction_holds [OF inv i]])
      (auto simp: step_result(1) auth_result_def ended_alone_def)
next
  case (step_store t login info a' user ok)
  then have i: "interacts (sm_tasks s t)" by simp
  show ?thesis
    by (rule interaction_keeps_queue [OF behind i interaction_holds [OF inv i]])
      (auto simp: step_store(1) auth_store_def with_server_def ended_alone_def split: option.splits)
next
  case (step_token)
  then show ?thesis using waiting_front [OF behind] by simp
next
  case (step_auth_call t info login)
  have b: "\<exists>login info. sm_tasks s b = Some (AuthWait login info)" using behind by (auto simp: queued_behind_def)
  have "queued_behind a b s'"
    by (rule queued_behind_frame [OF behind step_auth_call(2)]) (use b in \<open>auto simp: step_auth_call(1) auth_call_def\<close>)
  then show ?thesis ..
next
  case (step_cancel_call t)
  have b: "\<exists>login info. sm_tasks s b = Some (AuthWait login info)" using behind by (auto simp: queued_behind_def)
  have "queued_behind a b s'"
    by (rule queued_behind_frame [OF behind step_cancel_call(2)]) (use b in \<open>auto simp: step_cancel_call(1) cancel_call_def\<close>)
  then show ?thesis ..
next
  case (step_status t login info c i status)
  then show ?thesis using behind by (simp add: queued_behind_def)
next
  case (step_reauthenticate info now user)
  then show ?thesis using behind
    by (auto simp: queued_behind_def try_reauthenticate_def Let_def split: option.splits server_state.splits)
qed (use handshake_keeps_queue [OF behind] in metis)+

text \<open>C30: While a login or logout is under way and another one waits for its turn, the user cannot cancel: whatever
  is called, the running one is not cancelled and ends only by itself. The cancellation queues behind the
  waiting task, which waits for the running one.
\<close>

theorem cancel_queues_behind_waiting:
  assumes "sm_reachable H s" and "queued_behind a b s" and "(sm_step H)\<^sup>*\<^sup>* s s'"
  shows "queued_behind a b s' \<or> ended_alone a s'"
  using assms(3)
proof (induction rule: rtranclp_induct)
  case (step u v)
  have "sm_inv H u" by (rule sm.inv_steps [OF step(1) sm.inv_reachable [OF assms(1)]])
  with step show ?case using queued_behind_step ended_alone_kept by metis
qed (use assms(2) in simp)

text \<open>A server that never answers a handshake.\<close>

definition only_handshaking :: "'r \<Rightarrow> 'r server_manager \<Rightarrow> bool" where
  "only_handshaking url s \<longleftrightarrow>
     (state_of s url = None \<or> state_of s url = Some Handshaking) \<and> (\<forall>t info. sm_tasks s t \<noteq> Some (HandshakeImmediate url info))"

lemma only_handshaking_frame:
  assumes "only_handshaking url s" "state_of s' url = state_of s url \<or> state_of s' url = Some Handshaking"
    and "\<And>u. u \<noteq> t \<Longrightarrow> sm_tasks s' u = sm_tasks s u" "\<And>info. sm_tasks s' t \<noteq> Some (HandshakeImmediate url info)"
  shows "only_handshaking url s'"
  unfolding only_handshaking_def using assms(1-2) assms(3,4) by (metis only_handshaking_def)

lemma other_server:
  assumes "sm_inv H s" "info \<in> set (sm_infos s)" "only_handshaking url s"
  shows "si_url info \<noteq> url"
proof -
  have "info_at s (si_url info) \<noteq> None" using assms(1,2) by (simp add: sm_inv_def infos_known_def)
  then show ?thesis using assms(3) by (auto simp: only_handshaking_def)
qed

lemma only_handshaking_step:
  assumes inv: "sm_inv H s" and only: "only_handshaking url s" and url: "hp_join H url ''describe'' = None" and step: "sm_step H s s'"
  shows "only_handshaking url s'"
  using step
proof cases
  case (step_handshake t u)
  then show ?thesis
    by (intro only_handshaking_frame [OF only, where t = t])
      (auto simp: handshake_begin_def state_of_def hm_contains_def hm_get_insert)
next
  case (step_lock t u)
  then show ?thesis
    by (intro only_handshaking_frame [OF only, where t = t])
      (auto simp: handshake_lock_def set_task_def state_of_def hm_get_insert split: option.splits if_splits)
next
  case (step_check t u)
  show ?thesis
    by (rule only_handshaking_frame [OF only, where t = t])
      (auto simp: step_check(1) handshake_steps split: option.splits server_state.splits)
next
  case (step_reply t u reply)
  have "server_handshake H url reply = Inl Panic" using url by (simp add: server_handshake_panic)
  then show ?thesis unfolding step_reply(1)
    by (intro only_handshaking_frame [OF only, where t = t])
      (auto simp: handshake_reply_def with_server_def split: option.splits sum.splits fault.splits)
next
  case (step_immediate t u info user)
  then have "u \<noteq> url" using only by (auto simp: only_handshaking_def)
  then show ?thesis unfolding step_immediate(1)
    by (intro only_handshaking_frame [OF only, where t = t]) (auto simp: handshake_steps split: option.splits)
next
  case (step_auth_call t info login)
  then show ?thesis
    by (intro only_handshaking_frame [OF only, where t = t]) (auto simp: auth_call_def)
next
  case (step_cancel_call t)
  then show ?thesis
    by (intro only_handshaking_frame [OF only, where t = t]) (auto simp: cancel_call_def)
next
  case step_token
  then show ?thesis
  proof (cases rule: token_next_cases)
    case (login t q login info)
    then show ?thesis by (intro only_handshaking_frame [OF only, where t = t]) auto
  next
    case (cancel t q)
    then show ?thesis by (intro only_handshaking_frame [OF only, where t = t]) auto
  qed
next
  case (step_auth_check t login info now)
  have "si_url info \<noteq> url" by (rule other_server [OF inv _ only]) (use sm_invD(3) [OF inv step_auth_check(2)] in simp)
  then show ?thesis unfolding step_auth_check(1)
    by (intro only_handshaking_frame [OF only, where t = t])
      (auto simp: auth_check_def with_server_def split: option.splits server_state.splits)
next
  case (step_cancelled t login info a)
  then show ?thesis
    by (intro only_handshaking_frame [OF only, where t = t]) (auto simp: auth_cancelled_def)
next
  case (step_status t login info c i status)
  then show ?thesis
    by (intro only_handshaking_frame [OF only, where t = t]) auto
next
  case (step_result t login info a user)
  then show ?thesis
    by (intro only_handshaking_frame [OF only, where t = t]) (auto simp: auth_result_def)
next
  case (step_store t login info a user ok)
  have "si_url info \<noteq> url" by (rule other_server [OF inv _ only]) (use sm_invD(3) [OF inv step_store(2)] in simp)
  then show ?thesis unfolding step_store(1)
    by (intro only_handshaking_frame [OF only, where t = t])
      (auto simp: auth_store_def with_server_def split: option.splits)
next
  case (step_reauthenticate info now user)
  have "si_url info \<noteq> url" by (rule other_server [OF inv _ only]) (use step_reauthenticate in simp)
  then show ?thesis unfolding step_reauthenticate(1) using only
    by (auto simp: only_handshaking_def try_reauthenticate_def Let_def split: option.splits server_state.splits)
qed

text \<open>
  A handshake whose request cannot be built leaves the server's status at handshaking for ever: nothing
  takes it to another status, so that a failure is never shown.
\<close>

theorem unjoinable_stays_handshaking:
  assumes "hp_join H url ''describe'' = None" and "sm_reachable H s"
  shows "server_status url s \<in> {StatusNone, StatusHandshaking}"
proof -
  have "only_handshaking url s"
    using assms(2)
  proof (induction rule: reachable.induct)
    case (reachable_step s s')
    then show ?case using only_handshaking_step [OF sm.inv_reachable] assms(1) by metis
  qed (simp add: server_manager_new_def only_handshaking_def state_of_def)
  then show ?thesis by (auto simp: only_handshaking_def server_status_def state_of_def split: option.splits)
qed

section \<open>Witnesses\<close>

text \<open>URLs as texts; those with a colon first cannot be a base.\<close>

definition demo_http :: "(string, nat) handshake_ops" where
  "demo_http = \<lparr>hp_parse = Some, hp_has_authority = (\<lambda>u. take 4 u = ''http''),
     hp_join = (\<lambda>u p. if take 1 u = '':'' then None else Some (u @ ''/'' @ p)), hp_show_version = (\<lambda>_. ''v''),
     hp_minimum_server = 2, hp_client = 1\<rparr>"

definition demo_info :: "string server_info" where
  "demo_info = \<lparr>si_url = ''u'', si_sync_url = ''u/s'', si_auth = OidcConfig \<lparr>oc_issuer = ''i'', oc_redirect_port = 80,
     oc_client_id = ''c'', oc_resource = None\<rparr>, si_webviewer_url = None\<rparr>"

definition demo_response :: "nat handshake_response" where
  "demo_response = \<lparr>rs_version = 2, rs_minimum_backstitch_version = 1, rs_auth = ''oidc'', rs_sync = ''s'', rs_webviewer = None,
     rs_oidc_issuer = Some ''i'', rs_oidc_client_id = Some ''c'', rs_oidc_redirect_port = Some 80, rs_oidc_resource = None\<rparr>"

lemma demo_handshake: "server_handshake demo_http ''u'' (Inr demo_response) = Inr demo_info"
  by (simp add: server_handshake_def demo_http_def demo_response_def demo_info_def response_auth_def parse_or_append_def)

abbreviation sm_reach :: "string server_manager \<Rightarrow> bool" where
  "sm_reach \<equiv> sm_reachable demo_http"

lemma sm_reach_step: "sm_reach s \<Longrightarrow> sm_step demo_http s s' \<Longrightarrow> sm_reach s'"
  by (rule reachable_step)

definition demo_asking :: "string \<Rightarrow> string server_manager" where
  "demo_asking url = handshake_check 0 url (the (handshake_lock 0 url (handshake_begin 0 url server_manager_new)))"

lemmas sm_eval = handshake_steps set_task_def end_task_def set_server_state_def server_manager_new_def

lemma demo_asking_eval: "demo_asking url =
    \<lparr>sm_servers = [(url, \<lparr>sv_lock = Some 0, sv_state = Handshaking\<rparr>)], sm_tasks = (\<lambda>_. None)(0 \<mapsto> HandshakeRequest url),
     sm_holder = None, sm_queue = [], sm_token = None, sm_auth_status = AuthIdle, sm_sent = [(url, StatusHandshaking)], sm_infos = []\<rparr>"
  by (simp add: demo_asking_def sm_eval hm_contains_def)

lemma demo_asking_reach: "sm_reach (demo_asking url)"
proof -
  let ?s = "handshake_begin 0 url (server_manager_new :: string server_manager)"
  have "sm_reach server_manager_new" by (rule reachable_init) simp
  then have "sm_reach ?s" by (rule sm_reach_step) (rule step_handshake, simp add: server_manager_new_def)
  moreover have "sm_step demo_http ?s (the (handshake_lock 0 url ?s))"
    by (rule step_lock [where t = 0 and url = url]) (simp_all add: sm_eval hm_contains_def)
  ultimately have "sm_reach (the (handshake_lock 0 url ?s))" by (rule sm_reach_step)
  then show ?thesis unfolding demo_asking_def
    by (rule sm_reach_step) (rule step_check, simp add: sm_eval hm_contains_def)
qed

definition demo_panicked :: "string server_manager" where
  "demo_panicked = handshake_reply demo_http 0 '':x'' (Inl Reqwest) (demo_asking '':x'')"

lemma demo_panicked_reach: "sm_reach demo_panicked"
  unfolding demo_panicked_def by (rule sm_reach_step [OF demo_asking_reach]) (rule step_reply, simp add: demo_asking_eval)

text \<open>A server that needs a login, one login that waits for the user and one that waits for its turn.\<close>

definition demo_login :: "string server_manager" where
  "demo_login = auth_call 2 True demo_info (auth_check 0 1 True demo_info (the (token_next (auth_call 1 True demo_info
     (handshake_immediate 0 ''u'' demo_info None (handshake_reply demo_http 0 ''u'' (Inr demo_response) (demo_asking ''u'')))))))"

lemma demo_immediate_eval: "handshake_immediate 0 ''u'' demo_info None (handshake_reply demo_http 0 ''u'' (Inr demo_response) (demo_asking ''u'')) =
    \<lparr>sm_servers = [(''u'', \<lparr>sv_lock = None, sv_state = AuthNeeded demo_info (authenticator_for demo_info)\<rparr>)],
     sm_tasks = (\<lambda>_. None)(0 \<mapsto> Ended (GotInfo demo_info)),
     sm_holder = None, sm_queue = [], sm_token = None, sm_auth_status = AuthIdle,
     sm_sent = [(''u'', StatusHandshaking), (''u'', StatusAuthNeeded ''i'')], sm_infos = [demo_info]\<rparr>"
  by (simp add: demo_asking_eval handshake_reply_def demo_handshake sm_eval)
    (simp add: authenticator_for_def demo_info_def)

lemma demo_login_eval: "demo_login =
    \<lparr>sm_servers = [(''u'', \<lparr>sv_lock = None, sv_state = AuthNeeded demo_info (authenticator_for demo_info)\<rparr>)],
     sm_tasks = (\<lambda>_. None)(0 \<mapsto> Ended (GotInfo demo_info), 1 \<mapsto> AuthRunning True demo_info (authenticator_for demo_info),
       2 \<mapsto> AuthWait True demo_info),
     sm_holder = Some 1, sm_queue = [2], sm_token = Some False, sm_auth_status = AuthIdle,
     sm_sent = [(''u'', StatusHandshaking), (''u'', StatusAuthNeeded ''i'')], sm_infos = [demo_info]\<rparr>"
  unfolding demo_login_def demo_immediate_eval
  by (simp add: auth_call_def token_next_def auth_check_def sm_eval) (simp add: demo_info_def)

lemma demo_login_reach: "sm_reach demo_login"
proof -
  let ?reply = "handshake_reply demo_http 0 ''u'' (Inr demo_response) (demo_asking ''u'')"
  let ?known = "handshake_immediate 0 ''u'' demo_info None ?reply"
  let ?called = "auth_call 1 True demo_info ?known"
  have "sm_reach ?reply" by (rule sm_reach_step [OF demo_asking_reach]) (rule step_reply, simp add: demo_asking_eval)
  then have "sm_reach ?known"
    by (rule sm_reach_step)
      (rule step_immediate, simp_all add: handshake_reply_def demo_handshake demo_asking_eval, simp add: authenticator_for_def demo_info_def)
  then have "sm_reach ?called"
    by (rule sm_reach_step) (rule step_auth_call, simp_all add: demo_immediate_eval)
  then have "sm_reach (the (token_next ?called))"
    by (rule sm_reach_step) (rule step_token, simp add: demo_immediate_eval auth_call_def set_task_def token_next_def)
  then have "sm_reach (auth_check 0 1 True demo_info (the (token_next ?called)))"
    by (rule sm_reach_step) (rule step_auth_check, simp add: demo_immediate_eval auth_call_def set_task_def token_next_def)
  then show ?thesis unfolding demo_login_def
    by (rule sm_reach_step)
      (rule step_auth_call, simp_all add: demo_immediate_eval auth_call_def set_task_def token_next_def auth_check_def
        with_server_def)
qed

theorem server_manager_no_panic_witness: "hp_join demo_http '':x'' ''describe'' = None"
  by (rule server_manager_no_panic [OF demo_panicked_reach, of 0])
    (simp add: demo_panicked_def demo_asking_eval handshake_reply_def server_handshake_def demo_http_def end_task_def)

theorem one_handshake_one_login_witness:
  "(\<exists>\<^sub>\<le>\<^sub>1t. handshakes_with ''u'' (sm_tasks demo_login t)) \<and> (\<exists>\<^sub>\<le>\<^sub>1t. interacts (sm_tasks demo_login t)) \<and> interacts (sm_tasks demo_login 1)"
  using one_handshake_one_login [OF demo_login_reach, of "''u''"] by (simp add: demo_login_eval)

lemma demo_login_behind: "queued_behind 1 2 demo_login"
  by (auto simp: demo_login_eval queued_behind_def)

lemma demo_cancel: "(sm_step demo_http)\<^sup>*\<^sup>* demo_login (cancel_call 3 demo_login)"
  by (rule r_into_rtranclp, rule step_cancel_call) (simp add: demo_login_eval)

theorem cancel_queues_behind_waiting_witness:
  "queued_behind 1 2 (cancel_call 3 demo_login) \<or> ended_alone 1 (cancel_call 3 demo_login)"
  by (rule cancel_queues_behind_waiting [OF demo_login_reach demo_login_behind demo_cancel])

theorem unjoinable_stays_handshaking_witness: "server_status '':x'' demo_panicked \<in> {StatusNone, StatusHandshaking}"
  by (rule unjoinable_stays_handshaking [OF _ demo_panicked_reach]) (simp add: demo_http_def)

end
