(* ===== verification/State_Result.thy ===== *)
theory State_Result imports Prelude begin

text \<open>
  Operations on a state that may fail at any point: an error leaves what was done before it. This is the
  form of the methods of \<open>BranchDb\<close> and of the driver, whose \<open>?\<close> returns early from a half-done change.
\<close>

type_synonym ('s, 'e, 'a) run = "'s \<Rightarrow> ('e, 'a) outcome \<times> 's"

named_theorems run_simps \<open>evaluation of operations on a state\<close>

definition sret :: "'a \<Rightarrow> ('s, 'e, 'a) run" where
  "sret x s = (Inr x, s)"

definition sfail :: "'e fault \<Rightarrow> ('s, 'e, 'a) run" where
  "sfail e s = (Inl e, s)"

definition sbind :: "('s, 'e, 'a) run \<Rightarrow> ('a \<Rightarrow> ('s, 'e, 'b) run) \<Rightarrow> ('s, 'e, 'b) run" where
  "sbind m k s = (case m s of (Inl e, t) \<Rightarrow> (Inl e, t) | (Inr x, t) \<Rightarrow> k x t)"

text \<open>Reading the state, and changing a part of it.\<close>

definition sgets :: "('s \<Rightarrow> ('e, 'a) outcome) \<Rightarrow> ('s, 'e, 'a) run" where
  "sgets f s = (f s, s)"

definition smodify :: "('s \<Rightarrow> 's) \<Rightarrow> ('s, 'e, unit) run" where
  "smodify f s = (Inr (), f s)"

text \<open>\<open>unwrap\<close> of a result; and \<open>.ok()\<close>, which drops an error but not a panic.\<close>

definition sunwrap :: "('s, 'e, 'a) run \<Rightarrow> ('s, 'f, 'a) run" where
  "sunwrap m s = (case m s of (Inr x, t) \<Rightarrow> (Inr x, t) | (Inl Diverges, t) \<Rightarrow> (Inl Diverges, t)
     | (Inl _, t) \<Rightarrow> (Inl Panic, t))"

definition stry :: "('s, 'e, 'a) run \<Rightarrow> ('s, 'f, 'e + 'a) run" where
  "stry m s = (case m s of (Inr x, t) \<Rightarrow> (Inr (Inr x), t) | (Inl (Err e), t) \<Rightarrow> (Inr (Inl e), t)
     | (Inl Panic, t) \<Rightarrow> (Inl Panic, t) | (Inl Diverges, t) \<Rightarrow> (Inl Diverges, t))"

lemma sret_run [simp, run_simps]: "sret x s = (Inr x, s)"
  by (simp add: sret_def)

lemma sfail_run [simp, run_simps]: "sfail e s = (Inl e, s)"
  by (simp add: sfail_def)

lemma sgets_run [simp, run_simps]: "sgets f s = (f s, s)"
  by (simp add: sgets_def)

lemma smodify_run [simp, run_simps]: "smodify f s = (Inr (), f s)"
  by (simp add: smodify_def)

lemma sbind_Inr [simp, run_simps]: "m s = (Inr x, t) \<Longrightarrow> sbind m k s = k x t"
  by (simp add: sbind_def)

lemma sbind_Inl [simp, run_simps]: "m s = (Inl e, t) \<Longrightarrow> sbind m k s = (Inl e, t)"
  by (simp add: sbind_def)

lemma sunwrap_Inr [simp, run_simps]: "m s = (Inr x, t) \<Longrightarrow> sunwrap m s = (Inr x, t)"
  by (simp add: sunwrap_def)

lemma stry_Inr [simp, run_simps]: "m s = (Inr x, t) \<Longrightarrow> stry m s = (Inr (Inr x), t)"
  by (simp add: stry_def)

lemma stry_Err [simp, run_simps]: "m s = (Inl (Err e), t) \<Longrightarrow> stry m s = (Inr (Inl e), t)"
  by (simp add: stry_def)

lemma sbind_assoc: "sbind (sbind m k) l = sbind m (\<lambda>x. sbind (k x) l)"
  by (rule ext) (simp add: sbind_def split: prod.split sum.split)

lemma sbind_eq_Inr_iff: "sbind m k s = (Inr y, u) \<longleftrightarrow> (\<exists>x t. m s = (Inr x, t) \<and> k x t = (Inr y, u))"
  by (auto simp: sbind_def split: prod.splits sum.splits)

text \<open>An invariant of the state, whatever the result is.\<close>

definition keeps :: "('s \<Rightarrow> bool) \<Rightarrow> ('s, 'e, 'a) run \<Rightarrow> bool" where
  "keeps P m \<longleftrightarrow> (\<forall>s. P s \<longrightarrow> P (snd (m s)))"

named_theorems keeps_intros \<open>operations keep an invariant if their parts do\<close>

lemma keeps_ret [keeps_intros]: "keeps P (sret x)" "keeps P (sfail e)" "keeps P (sgets f)"
  by (simp_all add: keeps_def)

lemma keeps_modify [keeps_intros]: "(\<And>s. P s \<Longrightarrow> P (f s)) \<Longrightarrow> keeps P (smodify f)"
  by (simp add: keeps_def)

lemma keeps_bind [keeps_intros]: "keeps P m \<Longrightarrow> (\<And>x. keeps P (k x)) \<Longrightarrow> keeps P (sbind m k)"
  by (auto simp: keeps_def sbind_def split: prod.split sum.split)

lemma unwrap_state [simp]: "snd (sunwrap m s) = snd (m s)"
  by (simp add: sunwrap_def split: prod.split sum.split fault.split)

lemma try_state [simp]: "snd (stry m s) = snd (m s)"
  by (simp add: stry_def split: prod.split sum.split fault.split)

lemma keeps_unwrap [keeps_intros]: "keeps P m \<Longrightarrow> keeps P (sunwrap m)" "keeps P m \<Longrightarrow> keeps P (stry m)"
  by (simp_all add: keeps_def)

end
