(* ===== verification/Redirect_Server.thy ===== *)
theory Redirect_Server imports Rust_Strings begin

text \<open>
  \<open>auth/redirect_server.rs\<close>: the local web server to which a provider of identities sends the user's browser back,
  and the tasks that wait for it.

  A oneshot channel is the task that receives from it: the sender in the table of pending authentications is
  the number of the task, and what was sent is kept in the task's place until it runs again. The mutex of the
  table is never held across an await point. The hash of the state, the escaping of HTML and the template of
  the pages are parameters; what axum does with a request is left out.
\<close>

section \<open>Tasks that wait\<close>

datatype browser_result = LoginResult string | LogoutResult

datatype redirect_error = RecvError | AuthFailure string | NoAuthorizationCode | RedirectIo

datatype waiter =
    Waiting bool string                            \<comment> \<open>for a login or a logout, with its state\<close>
  | Received bool string "(redirect_error + browser_result)"
  | LoginDone "(redirect_error + string)"
  | LogoutDone "(redirect_error + unit)"

record 'x redirect_server =
  rd_pending :: "'x \<Rightarrow> nat option"
  rd_waiters :: "nat \<Rightarrow> waiter option"

definition redirect_server_new :: "'x redirect_server" where
  "redirect_server_new = \<lparr>rd_pending = Map.empty, rd_waiters = Map.empty\<rparr>"

text \<open>\<open>wait_for_login\<close> and \<open>wait_for_logout\<close> up to the await point. A state that is already there is a panic; what is
  left of the server after it is not modelled.\<close>

definition wait_begin :: "(string \<Rightarrow> 'x) \<Rightarrow> nat \<Rightarrow> bool \<Rightarrow> string \<Rightarrow> 'x redirect_server \<Rightarrow> (redirect_error, 'x redirect_server) outcome" where
  "wait_begin hash w login state S =
     (if rd_pending S (hash state) \<noteq> None then Inl Panic
      else Inr (S\<lparr>rd_pending := (rd_pending S)(hash state \<mapsto> w), rd_waiters := (rd_waiters S)(w \<mapsto> Waiting login state)\<rparr>))"

text \<open>Sending to a task that has stopped waiting is not an error.\<close>

definition send :: "nat \<Rightarrow> (redirect_error + browser_result) \<Rightarrow> 'x redirect_server \<Rightarrow> 'x redirect_server" where
  "send w result S =
     (case rd_waiters S w of
        Some (Waiting login state) \<Rightarrow> S\<lparr>rd_waiters := (rd_waiters S)(w \<mapsto> Received login state result)\<rparr>
      | _ \<Rightarrow> S)"

definition take_pending :: "'x \<Rightarrow> 'x redirect_server \<Rightarrow> nat option \<times> 'x redirect_server" where
  "take_pending x S = (rd_pending S x, S\<lparr>rd_pending := (rd_pending S)(x := None)\<rparr>)"

text \<open>
  The guard that is dropped with the wait: it drops the sender that the table has for its state. That is its own, whose
  receiver is gone, or the one of another task that waits with the same state, whose channel is closed with that.
\<close>

definition drop_guard :: "(string \<Rightarrow> 'x) \<Rightarrow> string \<Rightarrow> 'x redirect_server \<Rightarrow> 'x redirect_server" where
  "drop_guard hash state S =
     (case take_pending (hash state) S of
        (None, S1) \<Rightarrow> S1
      | (Some tx, S1) \<Rightarrow> send tx (Inl RecvError) S1)"

definition wrong_type :: redirect_error where
  "wrong_type = AuthFailure ''wrong type of authorization (logout)''"

fun login_result :: "redirect_error + browser_result \<Rightarrow> redirect_error + string" where
  "login_result (Inl e) = Inl e"
| "login_result (Inr (LoginResult code)) = Inr code"
| "login_result (Inr LogoutResult) = Inl wrong_type"

fun logout_result :: "redirect_error + browser_result \<Rightarrow> redirect_error + unit" where
  "logout_result (Inl e) = Inl e"
| "logout_result (Inr LogoutResult) = Inr ()"
| "logout_result (Inr (LoginResult _)) = Inl wrong_type"

definition wait_end :: "(string \<Rightarrow> 'x) \<Rightarrow> nat \<Rightarrow> bool \<Rightarrow> string \<Rightarrow> (redirect_error + browser_result) \<Rightarrow> 'x redirect_server \<Rightarrow> 'x redirect_server" where
  "wait_end hash w login state result S =
     (let S1 = drop_guard hash state S
      in S1\<lparr>rd_waiters := (rd_waiters S1)
           (w \<mapsto> (if login then LoginDone (login_result result) else LogoutDone (logout_result result)))\<rparr>)"

definition wait_dropped :: "(string \<Rightarrow> 'x) \<Rightarrow> nat \<Rightarrow> string \<Rightarrow> 'x redirect_server \<Rightarrow> 'x redirect_server" where
  "wait_dropped hash w state S =
     (let S1 = drop_guard hash state S in S1\<lparr>rd_waiters := (rd_waiters S1)(w := None)\<rparr>)"

section \<open>Requests of the browser\<close>

record redirect_params =
  rp_code :: "string option"
  rp_state :: "string option"
  rp_error :: "string option"

record page =
  pg_header :: string
  pg_body :: string

definition html_error :: "string \<Rightarrow> string \<Rightarrow> page" where
  "html_error task message = \<lparr>pg_header = task @ '' Error:'', pg_body = message\<rparr>"

definition html :: "(string \<Rightarrow> string) \<Rightarrow> string \<Rightarrow> page \<Rightarrow> string" where
  "html encode_text template p =
     str_join (encode_text (pg_body p))
       (split_str ''{{BODY}}'' (str_join (encode_text (pg_header p)) (split_str ''{{HEADER}}'' template)))"

definition login :: "(string \<Rightarrow> 'x) \<Rightarrow> redirect_params \<Rightarrow> 'x redirect_server \<Rightarrow> page \<times> 'x redirect_server" where
  "login hash params S =
     (case rp_state params of
        None \<Rightarrow> (html_error ''Login'' ''The state query parameter is required to authenticate'', S)
      | Some state \<Rightarrow>
          (case take_pending (hash state) S of
             (None, S1) \<Rightarrow>
               (html_error ''Login'' (''Backstitch isn'' @ [CHR 0x27] @ ''t waiting for us to authenticate with the provided state!''), S1)
           | (Some tx, S1) \<Rightarrow>
               (case rp_error params of
                  Some error \<Rightarrow> (html_error ''Login'' error, send tx (Inl (AuthFailure error)) S1)
                | None \<Rightarrow>
                    (case rp_code params of
                       None \<Rightarrow> (html_error ''Login'' ''No authorization code was received!'', send tx (Inl NoAuthorizationCode) S1)
                     | Some code \<Rightarrow>
                         (\<lparr>pg_header = ''Login Successful'', pg_body = ''You may now close this tab.''\<rparr>,
                          send tx (Inr (LoginResult code)) S1)))))"

definition logged_out :: "(string \<Rightarrow> 'x) \<Rightarrow> redirect_params \<Rightarrow> 'x redirect_server \<Rightarrow> page \<times> 'x redirect_server" where
  "logged_out hash params S =
     (case rp_state params of
        None \<Rightarrow> (html_error ''Logout'' ''The state query parameter is required to logout'', S)
      | Some state \<Rightarrow>
          (case take_pending (hash state) S of
             (None, S1) \<Rightarrow>
               (html_error ''Logout'' (''Backstitch isn'' @ [CHR 0x27] @ ''t waiting for us to logout with the provided state!''), S1)
           | (Some tx, S1) \<Rightarrow>
               (case rp_error params of
                  Some error \<Rightarrow> (html_error ''Logout'' error, send tx (Inl (AuthFailure error)) S1)
                | None \<Rightarrow>
                    (\<lparr>pg_header = ''Logout Successful'', pg_body = ''You may now close this tab.''\<rparr>, send tx (Inr LogoutResult) S1))))"

section \<open>The server as a transition system\<close>

datatype 'x redirect_event =
    Begins nat bool string
  | Ends nat
  | Drops nat
  | Callback bool redirect_params           \<comment> \<open>the route of logins or of logouts\<close>

inductive redirect_step :: "(string \<Rightarrow> 'x) \<Rightarrow> 'x redirect_server \<Rightarrow> 'x redirect_event \<Rightarrow> 'x redirect_server \<Rightarrow> bool" for hash where
  step_begin: "rd_waiters S w = None \<Longrightarrow> wait_begin hash w for_login state S = Inr T \<Longrightarrow> redirect_step hash S (Begins w for_login state) T"
| step_end: "rd_waiters S w = Some (Received for_login state result) \<Longrightarrow>
    redirect_step hash S (Ends w) (wait_end hash w for_login state result S)"
| step_drop: "rd_waiters S w = Some (Waiting for_login state) \<or> rd_waiters S w = Some (Received for_login state result) \<Longrightarrow>
    redirect_step hash S (Drops w) (wait_dropped hash w state S)"
| step_login: "redirect_step hash S (Callback True params) (snd (login hash params S))"
| step_logout: "redirect_step hash S (Callback False params) (snd (logged_out hash params S))"

section \<open>Who is pending\<close>

text \<open>Whatever is pending is a task that waits with that state.\<close>

definition redirect_inv :: "(string \<Rightarrow> 'x) \<Rightarrow> 'x redirect_server \<Rightarrow> bool" where
  "redirect_inv hash S \<longleftrightarrow>
     (\<forall>x w. rd_pending S x = Some w \<longrightarrow> (\<exists>is_login state. rd_waiters S w = Some (Waiting is_login state) \<and> hash state = x))"

definition any_step :: "(string \<Rightarrow> 'x) \<Rightarrow> 'x redirect_server \<Rightarrow> 'x redirect_server \<Rightarrow> bool" where
  "any_step hash S T \<longleftrightarrow> (\<exists>e. redirect_step hash S e T)"

text \<open>The hash of the state of a task that is still there.\<close>

fun waiter_state :: "waiter \<Rightarrow> string option" where
  "waiter_state (Waiting _ state) = Some state"
| "waiter_state (Received _ state _) = Some state"
| "waiter_state _ = None"

definition state_hash :: "(string \<Rightarrow> 'x) \<Rightarrow> 'x redirect_server \<Rightarrow> nat \<Rightarrow> 'x option" where
  "state_hash hash S w = map_option hash (Option.bind (rd_waiters S w) waiter_state)"

text \<open>The server when the entry of a state is removed.\<close>

abbreviation forget :: "(string \<Rightarrow> 'x) \<Rightarrow> string \<Rightarrow> 'x redirect_server \<Rightarrow> 'x redirect_server" where
  "forget hash state S \<equiv> S\<lparr>rd_pending := (rd_pending S)(hash state := None)\<rparr>"

text \<open>What a request sends to the task that it finds.\<close>

definition answer :: "bool \<Rightarrow> redirect_params \<Rightarrow> redirect_error + browser_result" where
  "answer to_login params =
     (case rp_error params of
        Some error \<Rightarrow> Inl (AuthFailure error)
      | None \<Rightarrow> if to_login then (case rp_code params of None \<Rightarrow> Inl NoAuthorizationCode | Some code \<Rightarrow> Inr (LoginResult code))
                else Inr LogoutResult)"

definition callback_state :: "(string \<Rightarrow> 'x) \<Rightarrow> bool \<Rightarrow> redirect_params \<Rightarrow> 'x redirect_server \<Rightarrow> 'x redirect_server" where
  "callback_state hash to_login params S =
     (case rp_state params of
        None \<Rightarrow> S
      | Some state \<Rightarrow>
          (case rd_pending S (hash state) of
             None \<Rightarrow> S
           | Some w \<Rightarrow> send w (answer to_login params) (forget hash state S)))"

lemma forget_absent: "rd_pending S (hash state) = None \<Longrightarrow> forget hash state S = S"
  by (simp add: fun_upd_idem)

lemma login_state: "snd (login hash params S) = callback_state hash True params S"
  using forget_absent [of S hash]
  by (auto simp: login_def callback_state_def take_pending_def answer_def split: option.split)

lemma logged_out_state: "snd (logged_out hash params S) = callback_state hash False params S"
  using forget_absent [of S hash]
  by (auto simp: logged_out_def callback_state_def take_pending_def answer_def split: option.split)

lemma callback_step: "redirect_step hash S (Callback to_login params) (callback_state hash to_login params S)"
  using step_login [of hash S params] step_logout [of hash S params]
  by (cases to_login) (simp_all add: login_state logged_out_state)

inductive_cases redirect_stepE: "redirect_step hash S e T"

lemma redirect_invD:
  "redirect_inv hash S \<Longrightarrow> rd_pending S x = Some w \<Longrightarrow> \<exists>is_login state. rd_waiters S w = Some (Waiting is_login state) \<and> hash state = x"
  by (simp add: redirect_inv_def)

lemma forget_keeps_inv:
  assumes inv: "redirect_inv hash S"
    and other: "\<And>is_login s. rd_waiters S w = Some (Waiting is_login s) \<Longrightarrow> hash s = hash state"
  shows "redirect_inv hash ((forget hash state S)\<lparr>rd_waiters := (rd_waiters S)(w := q)\<rparr>)"
  unfolding redirect_inv_def
proof (intro allI impI)
  fix x v assume "rd_pending ((forget hash state S)\<lparr>rd_waiters := (rd_waiters S)(w := q)\<rparr>) x = Some v"
  then have x: "x \<noteq> hash state" and "rd_pending S x = Some v" by (auto split: if_splits)
  with redirect_invD [OF inv] obtain l s where v: "rd_waiters S v = Some (Waiting l s)" "hash s = x" by blast
  with other x have "v \<noteq> w" by auto
  with v show "\<exists>is_login state'. rd_waiters ((forget hash state S)\<lparr>rd_waiters := (rd_waiters S)(w := q)\<rparr>) v =
      Some (Waiting is_login state') \<and> hash state' = x"
    by auto
qed

text \<open>Dropping the guard closes the channel of the task that the table has for the state, if there is one.\<close>

lemma drop_guard_cases:
  assumes "redirect_inv hash S"
  obtains (nobody) "rd_pending S (hash state) = None" "drop_guard hash state S = S"
  | (closed) v is_login s where "rd_pending S (hash state) = Some v" "rd_waiters S v = Some (Waiting is_login s)" "hash s = hash state"
      "drop_guard hash state S = (forget hash state S)\<lparr>rd_waiters := (rd_waiters S)(v \<mapsto> Received is_login s (Inl RecvError))\<rparr>"
proof (cases "rd_pending S (hash state)")
  case None
  then show ?thesis by (intro nobody) (simp_all add: drop_guard_def take_pending_def forget_absent)
next
  case (Some v)
  from redirect_invD [OF assms Some] obtain l s where "rd_waiters S v = Some (Waiting l s)" "hash s = hash state" by blast
  with Some show ?thesis by (intro closed) (auto simp: drop_guard_def take_pending_def send_def)
qed

lemma drop_keeps_inv:
  assumes inv: "redirect_inv hash S"
    and other: "\<And>is_login s. rd_waiters S w = Some (Waiting is_login s) \<Longrightarrow> hash s = hash state"
  shows "redirect_inv hash ((drop_guard hash state S)\<lparr>rd_waiters := (rd_waiters (drop_guard hash state S))(w := q)\<rparr>)"
  using inv
proof (cases rule: drop_guard_cases [of hash S state])
  case nobody
  with forget_keeps_inv [OF assms, where q = q] show ?thesis by (simp add: forget_absent)
next
  case (closed v l s)
  have "redirect_inv hash (drop_guard hash state S)"
    unfolding closed(4) using closed(2,3) by (intro forget_keeps_inv [OF inv]) auto
  moreover have "hash s' = hash state" if "rd_waiters (drop_guard hash state S) w = Some (Waiting l' s')" for l' s'
    using that other by (auto simp: closed(4) split: if_splits)
  moreover have "forget hash state (drop_guard hash state S) = drop_guard hash state S" by (simp add: closed(4))
  ultimately show ?thesis using forget_keeps_inv [of hash "drop_guard hash state S" w state q] by simp
qed

lemma callback_cases:
  assumes "redirect_inv hash S"
  obtains (nobody) "callback_state hash to_login params S = S"
  | (found) shown w is_login state where "rp_state params = Some shown" "rd_pending S (hash shown) = Some w"
      "rd_waiters S w = Some (Waiting is_login state)" "hash state = hash shown"
      "callback_state hash to_login params S =
         (forget hash shown S)\<lparr>rd_waiters := (rd_waiters S)(w \<mapsto> Received is_login state (answer to_login params))\<rparr>"
proof (cases "rp_state params")
  case None
  then show ?thesis by (intro nobody) (simp add: callback_state_def)
next
  case (Some shown)
  show ?thesis
  proof (cases "rd_pending S (hash shown)")
    case None
    with Some show ?thesis by (intro nobody) (simp add: callback_state_def)
  next
    case (Some w)
    from redirect_invD [OF assms Some] obtain l s where "rd_waiters S w = Some (Waiting l s)" "hash s = hash shown" by blast
    with Some \<open>rp_state params = Some shown\<close> show ?thesis
      by (intro found) (auto simp: callback_state_def send_def)
  qed
qed

lemma callback_inv:
  assumes inv: "redirect_inv hash S"
  shows "redirect_inv hash (callback_state hash to_login params S)"
  using inv by (cases rule: callback_cases [of hash S to_login params]) (auto simp: inv intro!: forget_keeps_inv [OF inv])

lemma redirect_step_inv:
  assumes "redirect_step hash S e T" and inv: "redirect_inv hash S"
  shows "redirect_inv hash T"
  using assms(1)
proof cases
  case (step_begin w for_login state)
  have "v \<noteq> w" if "rd_pending S x = Some v" for x v
    using redirect_invD [OF inv that] step_begin by auto
  with step_begin inv show ?thesis by (auto simp: redirect_inv_def wait_begin_def split: if_splits)
next
  case (step_end w for_login state result)
  then show ?thesis by (auto simp: wait_end_def Let_def intro!: drop_keeps_inv [OF inv])
next
  case (step_drop w for_login state result)
  then show ?thesis by (auto simp: wait_dropped_def Let_def intro!: drop_keeps_inv [OF inv])
qed (simp_all add: login_state logged_out_state callback_inv [OF inv])

interpretation redirects: step_system "\<lambda>S. S = redirect_server_new" "any_step hash" "redirect_inv hash" for hash
  by unfold_locales (auto simp: any_step_def redirect_server_new_def redirect_inv_def [of _ "\<lparr>rd_pending = _, rd_waiters = _\<rparr>"] intro: redirect_step_inv)

text \<open>The end of another task reaches a task that waits only when both have the same state, up to the hash.\<close>

lemma drop_guard_reaches:
  assumes inv: "redirect_inv hash S" and "rd_waiters S w = Some (Waiting is_login state)"
    and "rd_waiters (drop_guard hash other S) w = Some (Received is_login' state' result)"
  shows "hash state = hash other \<and> is_login' = is_login \<and> state' = state \<and> result = Inl RecvError"
  using inv
proof (cases rule: drop_guard_cases [of hash S other])
  case nobody
  with assms(2,3) show ?thesis by simp
next
  case (closed v l s)
  with assms(2,3) show ?thesis by (auto split: if_splits)
qed

text \<open>C31: A task that waits for the browser gets an answer only from a request that carries its own state, up to
  the hash, and the answer is what that request says. The only other thing it can get is the error that its channel is closed, when
  another task that had the same state, up to the hash, ends or is dropped.\<close>

theorem answer_has_own_state:
  assumes "reachable (\<lambda>S. S = redirect_server_new) (any_step hash) S"
    and "redirect_step hash S e T"
    and "rd_waiters S w = Some (Waiting is_login state)" and "rd_waiters T w = Some (Received is_login' state' result)"
  shows "is_login' = is_login \<and> state' = state \<and>
    ((\<exists>to_login params shown. e = Callback to_login params \<and> rp_state params = Some shown \<and> hash shown = hash state \<and>
        result = answer to_login params) \<or>
     (\<exists>v. e \<in> {Ends v, Drops v} \<and> v \<noteq> w \<and> state_hash hash S v = Some (hash state) \<and> result = Inl RecvError))"
proof -
  have inv: "redirect_inv hash S" by (rule redirects.inv_reachable [OF assms(1)])
  have callback: ?thesis if T: "T = callback_state hash to_login params S" and e: "e = Callback to_login params" for to_login params
    using inv
  proof (cases rule: callback_cases [of hash S to_login params])
    case nobody
    with T assms(3,4) show ?thesis by simp
  next
    case (found shown v l s)
    with T assms(3,4) have "v = w" by (auto split: if_splits)
    with found T e assms(3,4) show ?thesis by auto
  qed
  from assms(2) show ?thesis
  proof cases
    case (step_begin v for_login s)
    with assms(3,4) show ?thesis by (auto simp: wait_begin_def split: if_splits)
  next
    case (step_end v for_login s r)
    with assms(3,4) have "v \<noteq> w" "rd_waiters (drop_guard hash s S) w = Some (Received is_login' state' result)"
      by (auto simp: wait_end_def Let_def split: if_splits)
    with drop_guard_reaches [OF inv assms(3) this(2)] step_end show ?thesis by (auto simp: state_hash_def)
  next
    case (step_drop v for_login s r)
    with assms(3,4) have "v \<noteq> w" "rd_waiters (drop_guard hash s S) w = Some (Received is_login' state' result)"
      by (auto simp: wait_dropped_def Let_def split: if_splits)
    with drop_guard_reaches [OF inv assms(3) this(2)] step_drop show ?thesis by (auto simp: state_hash_def)
  next
    case (step_login params)
    then show ?thesis by (intro callback [of True params]) (simp_all add: login_state)
  next
    case (step_logout params)
    then show ?thesis by (intro callback [of False params]) (simp_all add: logged_out_state)
  qed
qed

section \<open>Fresh states\<close>

text \<open>The code draws the states at random. They are fresh if no task that is still there has one with the same hash.\<close>

definition fresh_step :: "(string \<Rightarrow> 'x) \<Rightarrow> 'x redirect_server \<Rightarrow> 'x redirect_server \<Rightarrow> bool" where
  "fresh_step hash S T \<longleftrightarrow>
     (\<exists>e. redirect_step hash S e T \<and>
       (case e of Begins _ _ state \<Rightarrow> (\<forall>w. state_hash hash S w \<noteq> Some (hash state)) | _ \<Rightarrow> True))"

definition fresh_inv :: "(string \<Rightarrow> 'x) \<Rightarrow> 'x redirect_server \<Rightarrow> bool" where
  "fresh_inv hash S \<longleftrightarrow> redirect_inv hash S \<and>
     (\<forall>v w x. state_hash hash S v = Some x \<longrightarrow> state_hash hash S w = Some x \<longrightarrow> v = w) \<and>
     (\<forall>w is_login state. rd_waiters S w = Some (Waiting is_login state) \<longrightarrow> rd_pending S (hash state) = Some w)"

lemma fresh_dropI:
  assumes fresh: "fresh_inv hash S" and w: "state_hash hash S w = Some (hash state)"
    and q: "\<And>l s. q \<noteq> Some (Waiting l s)" "map_option hash (Option.bind q waiter_state) \<in> {None, Some (hash state)}"
  shows "fresh_inv hash ((forget hash state S)\<lparr>rd_waiters := (rd_waiters S)(w := q)\<rparr>)"
    (is "fresh_inv hash ?T")
proof -
  have hashes: "state_hash hash ?T v = (if v = w then map_option hash (Option.bind q waiter_state) else state_hash hash S v)" for v
    by (simp add: state_hash_def)
  have one: "v = u" if "state_hash hash S v = Some x" "state_hash hash S u = Some x" for v u x
    using fresh that by (auto simp: fresh_inv_def)
  have "rd_pending ?T (hash s) = Some v" if v: "rd_waiters ?T v = Some (Waiting l s)" for v l s
  proof -
    have "v \<noteq> w" and S: "rd_waiters S v = Some (Waiting l s)" using v q(1) by (auto split: if_splits)
    then have "hash s \<noteq> hash state" using one [of v "hash s" w] w by (auto simp: state_hash_def)
    with S fresh show ?thesis by (simp add: fresh_inv_def)
  qed
  moreover have "redirect_inv hash ?T"
    using fresh w by (intro forget_keeps_inv) (auto simp: fresh_inv_def state_hash_def)
  moreover have "v = u" if "state_hash hash ?T v = Some x" "state_hash hash ?T u = Some x" for v u x
    using that q(2) w one by (auto simp: hashes split: if_splits)
  ultimately show ?thesis by (simp add: fresh_inv_def)
qed

lemma fresh_drop_guard:
  assumes "fresh_inv hash S" and "state_hash hash S w = Some (hash state)"
  shows "(drop_guard hash state S)\<lparr>rd_waiters := (rd_waiters (drop_guard hash state S))(w := q)\<rparr> =
    (forget hash state S)\<lparr>rd_waiters := (rd_waiters S)(w := q)\<rparr>"
proof -
  have "redirect_inv hash S" using assms(1) by (simp add: fresh_inv_def)
  then show ?thesis
  proof (cases rule: drop_guard_cases [of hash S state])
    case nobody
    then show ?thesis by (simp add: forget_absent)
  next
    case (closed v l s)
    then have "state_hash hash S v = Some (hash state)" by (simp add: state_hash_def)
    with assms have "v = w" by (simp add: fresh_inv_def)
    with closed show ?thesis by simp
  qed
qed

lemma fresh_callback:
  assumes "fresh_inv hash S"
  shows "fresh_inv hash (callback_state hash to_login params S)"
proof -
  have "redirect_inv hash S" using assms by (simp add: fresh_inv_def)
  then show ?thesis
  proof (cases rule: callback_cases [of hash S to_login params])
    case (found shown w l s)
    with assms show ?thesis by (auto simp: state_hash_def intro!: fresh_dropI)
  qed (simp add: assms)
qed

lemma fresh_begin:
  assumes fresh: "fresh_inv hash S" and "rd_waiters S w = None" and T: "wait_begin hash w for_login state S = Inr T"
    and new: "\<And>v. state_hash hash S v \<noteq> Some (hash state)"
  shows "fresh_inv hash T"
proof -
  have hashes: "state_hash hash T v = (if v = w then Some (hash state) else state_hash hash S v)" for v
    using T by (auto simp: wait_begin_def state_hash_def split: if_splits)
  have "redirect_inv hash T"
    using redirect_step_inv [OF step_begin [OF assms(2) T]] fresh by (simp add: fresh_inv_def)
  moreover have "rd_pending T (hash s) = Some v" if "rd_waiters T v = Some (Waiting l s)" for v l s
    using that T fresh new [of v] by (auto simp: wait_begin_def fresh_inv_def state_hash_def split: if_splits)
  moreover have "v = u" if "state_hash hash T v = Some x" "state_hash hash T u = Some x" for v u x
    using that new fresh by (auto simp: hashes fresh_inv_def split: if_splits)
  ultimately show ?thesis by (simp add: fresh_inv_def)
qed

lemma fresh_step_inv:
  assumes "fresh_step hash S T" and fresh: "fresh_inv hash S"
  shows "fresh_inv hash T"
proof -
  from assms(1) obtain e where "redirect_step hash S e T"
    and new: "case e of Begins _ _ state \<Rightarrow> (\<forall>w. state_hash hash S w \<noteq> Some (hash state)) | _ \<Rightarrow> True"
    by (auto simp: fresh_step_def)
  then show ?thesis
  proof cases
    case (step_begin w for_login state)
    with new show ?thesis by (intro fresh_begin [OF fresh]) auto
  next
    case (step_end w for_login state result)
    then show ?thesis
      using fresh_drop_guard [OF fresh, of w state] by (auto simp: wait_end_def Let_def state_hash_def intro!: fresh_dropI [OF fresh])
  next
    case (step_drop w for_login state result)
    then show ?thesis
      using fresh_drop_guard [OF fresh, of w state] by (auto simp: wait_dropped_def Let_def state_hash_def intro!: fresh_dropI [OF fresh])
  qed (simp_all add: login_state logged_out_state fresh_callback [OF fresh])
qed

lemma fresh_inv_new: "fresh_inv hash redirect_server_new"
  by (simp add: fresh_inv_def redirect_inv_def redirect_server_new_def state_hash_def)

interpretation fresh_redirects: step_system "\<lambda>S. S = redirect_server_new" "fresh_step hash" "fresh_inv hash" for hash
  by unfold_locales (auto intro: fresh_inv_new fresh_step_inv)

text \<open>C32: While states are fresh, a request reaches the task that waits with its state: the task that waits is
  answered with what the request says, and the table forgets the state, so that a second request finds nobody.\<close>

theorem request_reaches_waiter:
  assumes "reachable (\<lambda>S. S = redirect_server_new) (fresh_step hash) S"
    and "rd_waiters S w = Some (Waiting is_login state)" and "rp_state params = Some state"
  shows "rd_waiters (snd (login hash params S)) w = Some (Received is_login state (answer True params)) \<and>
    rd_waiters (snd (logged_out hash params S)) w = Some (Received is_login state (answer False params)) \<and>
    rd_pending (snd (login hash params S)) (hash state) = None \<and> rd_pending (snd (logged_out hash params S)) (hash state) = None"
proof -
  have "rd_pending S (hash state) = Some w"
    using fresh_redirects.inv_reachable [OF assms(1)] assms(2) by (simp add: fresh_inv_def)
  with assms(2,3) show ?thesis
    by (simp add: login_state logged_out_state callback_state_def send_def)
qed

section \<open>Cases to know of\<close>

text \<open>A request that comes before the task waits is lost: nothing is kept for it.\<close>

theorem early_request_lost:
  assumes "rp_state params = Some state" and "rd_pending S (hash state) = None"
  shows "snd (login hash params S) = S \<and> snd (logged_out hash params S) = S \<and>
    wait_begin hash w is_login state S = Inr (S\<lparr>rd_pending := (rd_pending S)(hash state \<mapsto> w),
      rd_waiters := (rd_waiters S)(w \<mapsto> Waiting is_login state)\<rparr>)"
  using assms by (simp add: login_state logged_out_state callback_state_def wait_begin_def)

text \<open>A login that the browser answers on the route of logouts fails, and so does a logout on the route of logins,
  with the message of the other case.\<close>

theorem wrong_route_message:
  "login_result (Inr LogoutResult) = Inl (AuthFailure ''wrong type of authorization (logout)'') \<and>
   logout_result (Inr (LoginResult code)) = Inl (AuthFailure ''wrong type of authorization (logout)'')"
  by (simp add: wrong_type_def)

section \<open>An example\<close>

definition demo_redirect :: "string redirect_server" where
  "demo_redirect = \<lparr>rd_pending = [''s'' \<mapsto> 0], rd_waiters = [0 \<mapsto> Waiting True ''s'']\<rparr>"

definition demo_request :: redirect_params where
  "demo_request = \<lparr>rp_code = Some ''c'', rp_state = Some ''s'', rp_error = None\<rparr>"

lemma demo_redirect_begins: "redirect_step id redirect_server_new (Begins 0 True ''s'') demo_redirect"
  by (rule step_begin) (simp_all add: redirect_server_new_def wait_begin_def demo_redirect_def)

lemma demo_redirect_fresh: "fresh_step id redirect_server_new demo_redirect"
  unfolding fresh_step_def
  by (rule exI [of _ "Begins 0 True ''s''"]) (simp add: demo_redirect_begins, simp add: redirect_server_new_def state_hash_def)

lemma demo_redirect_reachable:
  "reachable (\<lambda>S. S = redirect_server_new) (any_step id) demo_redirect"
  "reachable (\<lambda>S. S = redirect_server_new) (fresh_step id) demo_redirect"
  by (auto intro!: reachable_step [OF reachable_init] demo_redirect_fresh demo_redirect_begins simp: any_step_def
      intro: exI [of _ "Begins 0 True ''s''"])

theorem answer_has_own_state_witness:
  "\<exists>to_login params shown. Callback True demo_request = Callback to_login params \<and> rp_state params = Some shown \<and>
     Inr (LoginResult ''c'') = answer to_login params"
  using answer_has_own_state [OF demo_redirect_reachable(1) step_login [of id demo_redirect demo_request], of 0 True "''s''" True "''s''"
      "Inr (LoginResult ''c'')"]
  by (simp add: login_state callback_state_def demo_redirect_def demo_request_def send_def answer_def)

theorem request_reaches_waiter_witness:
  "rd_waiters (snd (login id demo_request demo_redirect)) 0 = Some (Received True ''s'' (Inr (LoginResult ''c'')))"
  using request_reaches_waiter [OF demo_redirect_reachable(2), of 0 True "''s''" demo_request]
  by (simp add: demo_redirect_def demo_request_def answer_def)

end
