(* ===== verification/Oidc.thy ===== *)
theory Oidc imports Server_Manager State_Result Redirect_Server begin

text \<open>
  \<open>auth/oidc.rs\<close>: how a user logs in to a server by OpenID Connect, how a stored session is refreshed, and how
  the user logs out.

  An operation changes the key ring of the operating system and sends statuses. What the HTTP client, the
  provider of identities, the browser behind \<open>Redirect_Server\<close>, the clock and the key ring answer is in the
  records \<open>oidc_world\<close> and \<open>keyring_io\<close>; a browser that never answers is \<open>Diverges\<close>. URLs are a parameter. The
  redirect URL, which the code builds from a port, is taken to parse. What is only logged is left out.
\<close>

section \<open>Errors, sessions and the key ring\<close>

datatype oidc_error =
    Reqwest
  | InvalidIssuer string
  | Discovery
  | Configuration
  | CodeExchange
  | OidcIo
  | Redirect redirect_error
  | NoIdToken
  | NoAccessTokenExpiry
  | NoRefreshToken
  | TokenTypeNotSupported string
  | ClaimsVerification
  | SignatureVerification
  | Signing
  | TokenMismatch

datatype persist_error = PersistWrite | PersistRead | NoEntry | KeyringFails

record unsafe_session =
  us_refresh_token :: "string option"
  us_id_token :: string
  us_subject :: string
  us_name :: string
  us_email :: "string option"

definition session_of_unsafe :: "unsafe_session \<Rightarrow> stored_session" where
  "session_of_unsafe s =
     \<lparr>ss_refresh_token = us_refresh_token s, ss_id_token = us_id_token s, ss_subject = us_subject s,
      ss_name = us_name s, ss_email = us_email s\<rparr>"

definition unsafe_of_session :: "stored_session \<Rightarrow> unsafe_session" where
  "unsafe_of_session s =
     \<lparr>us_refresh_token = ss_refresh_token s, us_id_token = ss_id_token s, us_subject = ss_subject s,
      us_name = ss_name s, us_email = ss_email s\<rparr>"

lemma session_of_unsafe_inverse [simp]: "session_of_unsafe (unsafe_of_session s) = s"
  by (simp add: session_of_unsafe_def unsafe_of_session_def)

record 'b keyring_io =
  ki_hash :: "string \<Rightarrow> string"
  ki_entry :: "string \<Rightarrow> bool"                      \<comment> \<open>whether the calls work for a user name\<close>
  ki_get :: "string \<Rightarrow> bool"
  ki_set :: "string \<Rightarrow> bool"
  ki_delete :: "string \<Rightarrow> bool"
  ki_write :: "unsafe_session \<Rightarrow> 'b option"
  ki_read :: "'b \<Rightarrow> unsafe_session option"

text \<open>What was written can be read.\<close>

definition keyring_law :: "'b keyring_io \<Rightarrow> bool" where
  "keyring_law K \<longleftrightarrow> (\<forall>s b. ki_write K s = Some b \<longrightarrow> ki_read K b = Some s)"

record ('r, 'b) oidc_state =
  od_keyring :: "string \<Rightarrow> 'b option"
  od_status :: "'r auth_status list"                \<comment> \<open>everything that was sent, the last one first\<close>

section \<open>What the world answers\<close>

datatype token_type = Bearer | OtherType string

record claims =
  cl_access_token_hash :: "string option"
  cl_subject :: string
  cl_name :: "(string option \<Rightarrow> string option) option"      \<comment> \<open>by language\<close>
  cl_email :: "string option"

record id_token =
  it_text :: string
  it_claims :: "string \<Rightarrow> claims option"                  \<comment> \<open>verified for a nonce\<close>
  it_signing_alg :: bool
  it_signing_key :: bool
  it_token_hash :: "string \<Rightarrow> string option"

record token_response =
  tr_access_token :: string
  tr_refresh_token :: "string option"
  tr_id_token :: "id_token option"
  tr_type :: token_type
  tr_expires_in :: "nat option"

record 'r oidc_world =
  ow_parse :: "string \<Rightarrow> 'r option"
  ow_scheme :: "'r \<Rightarrow> string"
  ow_host :: "'r \<Rightarrow> string option"
  ow_text :: "'r \<Rightarrow> string"
  ow_client :: "bool \<Rightarrow> bool"                           \<comment> \<open>whether the HTTP client can be built\<close>
  ow_issuer :: "string \<Rightarrow> bool"                         \<comment> \<open>whether \<open>IssuerUrl::new\<close> takes it\<close>
  ow_issuer_error :: string
  ow_discovers :: bool
  ow_end_session :: "'r option"
  ow_append_pairs :: "'r \<Rightarrow> (string \<times> string) list \<Rightarrow> 'r"
  ow_csrf :: string
  ow_nonce :: string
  ow_authorize_url :: "string list \<Rightarrow> (string \<times> string) list \<Rightarrow> 'r"      \<comment> \<open>for scopes and extra parameters\<close>
  ow_binds :: bool                                      \<comment> \<open>whether the redirect server can listen\<close>
  ow_login :: "(redirect_error + string) option"
  ow_logout :: "(redirect_error + unit) option"
  ow_token_endpoint :: bool
  ow_exchange :: "string \<Rightarrow> token_response option"
  ow_refresh :: "string \<Rightarrow> token_response option"
  ow_now :: nat
  ow_last_time :: nat

section \<open>The key ring\<close>

definition keyring_username :: "'r oidc_world \<Rightarrow> 'b keyring_io \<Rightarrow> oidc_config \<Rightarrow> 'r server_info \<Rightarrow> string" where
  "keyring_username W K config info =
     ki_hash K (''backstitch/auth/oidc'' @ ow_text W (si_url info) @ oc_client_id config @ oc_issuer config)"

definition store_session :: "'b keyring_io \<Rightarrow> string \<Rightarrow> stored_session \<Rightarrow> (('r, 'b) oidc_state, persist_error, unit) run" where
  "store_session K user session s =
     (if \<not> ki_entry K user then (Inl (Err KeyringFails), s)
      else (case ki_write K (unsafe_of_session session) of
              None \<Rightarrow> (Inl (Err PersistWrite), s)
            | Some b \<Rightarrow>
                if ki_set K user then (Inr (), s\<lparr>od_keyring := (od_keyring s)(user \<mapsto> b)\<rparr>)
                else (Inl (Err KeyringFails), s)))"

definition retrieve_session :: "'b keyring_io \<Rightarrow> string \<Rightarrow> ('r, 'b) oidc_state \<Rightarrow> persist_error + stored_session" where
  "retrieve_session K user s =
     (if \<not> ki_entry K user \<or> \<not> ki_get K user then Inl KeyringFails
      else (case od_keyring s user of
              None \<Rightarrow> Inl NoEntry
            | Some b \<Rightarrow> (case ki_read K b of None \<Rightarrow> Inl PersistRead | Some stored \<Rightarrow> Inr (session_of_unsafe stored))))"

definition clear_session :: "'b keyring_io \<Rightarrow> string \<Rightarrow> (('r, 'b) oidc_state, persist_error, unit) run" where
  "clear_session K user s =
     (if \<not> ki_entry K user \<or> \<not> ki_delete K user then (Inl (Err KeyringFails), s)
      else if od_keyring s user = None then (Inl (Err NoEntry), s)
      else (Inr (), s\<lparr>od_keyring := (od_keyring s)(user := None)\<rparr>))"

section \<open>Logging in\<close>

definition send_status :: "'r auth_status \<Rightarrow> (('r, 'b) oidc_state, 'e, unit) run" where
  "send_status status = smodify (\<lambda>s. s\<lparr>od_status := status # od_status s\<rparr>)"

definition guard :: "'e \<Rightarrow> bool \<Rightarrow> ('s, 'e, unit) run" where
  "guard e ok = (if ok then sret () else sfail (Err e))"

definition need :: "'e \<Rightarrow> 'a option \<Rightarrow> ('s, 'e, 'a) run" where
  "need e x = (case x of None \<Rightarrow> sfail (Err e) | Some y \<Rightarrow> sret y)"

definition loopback :: "string option \<Rightarrow> bool" where
  "loopback host \<longleftrightarrow> host \<in> {Some ''localhost'', Some ''127.0.0.1'', Some ''::1''}"

definition should_accept_invalid_certs ::
  "'r oidc_world \<Rightarrow> oidc_config \<Rightarrow> 'r server_info \<Rightarrow> ('s, oidc_error, bool) run" where
  "should_accept_invalid_certs W config info =
     sbind (need (InvalidIssuer (oc_issuer config)) (ow_parse W (oc_issuer config)))
       (\<lambda>url. sret (ow_scheme W url = ''https'' \<and> loopback (ow_host W url) \<and> loopback (ow_host W (si_url info))))"

definition http_client :: "'r oidc_world \<Rightarrow> oidc_config \<Rightarrow> 'r server_info \<Rightarrow> ('s, oidc_error, unit) run" where
  "http_client W config info =
     sbind (should_accept_invalid_certs W config info) (\<lambda>accept. guard Reqwest (ow_client W accept))"

definition access_token_expiry :: "'r oidc_world \<Rightarrow> token_response \<Rightarrow> ('s, oidc_error, nat) run" where
  "access_token_expiry W response =
     sbind (need NoAccessTokenExpiry (tr_expires_in response))
       (\<lambda>d. if ow_now W + d \<le> ow_last_time W then sret (ow_now W + d) else sfail (Err NoAccessTokenExpiry))"

fun check_type :: "token_type \<Rightarrow> ('s, oidc_error, unit) run" where
  "check_type Bearer = sret ()"
| "check_type (OtherType t) = sfail (Err (TokenTypeNotSupported t))"

text \<open>Storing a session is tried; a failure is logged.\<close>

definition try_store :: "'b keyring_io \<Rightarrow> string \<Rightarrow> stored_session \<Rightarrow> (('r, 'b) oidc_state, oidc_error, unit) run" where
  "try_store K user session = sbind (stry (store_session K user session)) (\<lambda>_. sret ())"

definition refresh_login ::
  "'r oidc_world \<Rightarrow> 'b keyring_io \<Rightarrow> string \<Rightarrow> stored_session \<Rightarrow> (('r, 'b) oidc_state, oidc_error, oidc_user) run" where
  "refresh_login W K user session =
     sbind (need NoRefreshToken (ss_refresh_token session)) (\<lambda>token.
     sbind (guard Configuration (ow_token_endpoint W)) (\<lambda>_.
     sbind (need CodeExchange (ow_refresh W token)) (\<lambda>response.
     sbind (check_type (tr_type response)) (\<lambda>_.
       let session = (case tr_refresh_token response of None \<Rightarrow> session | Some t \<Rightarrow> session\<lparr>ss_refresh_token := Some t\<rparr>) in
       sbind (try_store K user session) (\<lambda>_.
       sbind (access_token_expiry W response) (\<lambda>expiry.
         sret \<lparr>ou_access_token = tr_access_token response, ou_access_token_expiry = expiry, ou_session = session\<rparr>))))))"

definition check_token_hash :: "id_token \<Rightarrow> string \<Rightarrow> claims \<Rightarrow> ('s, oidc_error, unit) run" where
  "check_token_hash idt access c =
     (case cl_access_token_hash c of
        None \<Rightarrow> sret ()
      | Some expected \<Rightarrow>
          sbind (guard Signing (it_signing_alg idt)) (\<lambda>_.
          sbind (guard SignatureVerification (it_signing_key idt)) (\<lambda>_.
          sbind (need Signing (it_token_hash idt access)) (\<lambda>actual. guard TokenMismatch (actual = expected)))))"

definition claims_name :: "claims \<Rightarrow> string" where
  "claims_name c =
     (case Option.bind (cl_name c) (\<lambda>n. case n (Some ''en-US'') of None \<Rightarrow> n None | Some x \<Rightarrow> Some x) of
        None \<Rightarrow> ''<anonymous>'' | Some x \<Rightarrow> x)"

text \<open>What follows the answer of the browser.\<close>

definition exchange_code ::
  "'r oidc_world \<Rightarrow> 'b keyring_io \<Rightarrow> string \<Rightarrow> string \<Rightarrow> (('r, 'b) oidc_state, oidc_error, oidc_user) run" where
  "exchange_code W K user code =
     sbind (guard Configuration (ow_token_endpoint W)) (\<lambda>_.
     sbind (need CodeExchange (ow_exchange W code)) (\<lambda>response.
     sbind (need NoIdToken (tr_id_token response)) (\<lambda>idt.
     sbind (need ClaimsVerification (it_claims idt (ow_nonce W))) (\<lambda>c.
     sbind (check_token_hash idt (tr_access_token response) c) (\<lambda>_.
     sbind (access_token_expiry W response) (\<lambda>expiry.
     sbind (check_type (tr_type response)) (\<lambda>_.
       let session = \<lparr>ss_refresh_token = tr_refresh_token response, ss_id_token = it_text idt, ss_subject = cl_subject c,
                      ss_name = claims_name c, ss_email = cl_email c\<rparr> in
       sbind (try_store K user session) (\<lambda>_.
         sret \<lparr>ou_access_token = tr_access_token response, ou_access_token_expiry = expiry, ou_session = session\<rparr>))))))))"

definition login_url :: "'r oidc_world \<Rightarrow> oidc_config \<Rightarrow> 'r" where
  "login_url W config =
     ow_authorize_url W [''email'', ''profile'', ''offline_access'']
       (case oc_resource config of None \<Rightarrow> [] | Some resource \<Rightarrow> [(''resource'', resource)])"

definition interactive_login ::
  "'r oidc_world \<Rightarrow> 'b keyring_io \<Rightarrow> oidc_config \<Rightarrow> string \<Rightarrow> (('r, 'b) oidc_state, oidc_error, oidc_user) run" where
  "interactive_login W K config user =
     sbind (guard (Redirect RedirectIo) (ow_binds W)) (\<lambda>_.
     sbind (send_status (NeedsUserLogin (login_url W config))) (\<lambda>_.
     (case ow_login W of
        None \<Rightarrow> sfail Diverges
      | Some reply \<Rightarrow>
          sbind (send_status AuthIdle) (\<lambda>_.
          (case reply of Inl e \<Rightarrow> sfail (Err (Redirect e)) | Inr code \<Rightarrow> exchange_code W K user code)))))"

definition authenticate ::
  "'r oidc_world \<Rightarrow> 'b keyring_io \<Rightarrow> oidc_config \<Rightarrow> 'r server_info \<Rightarrow> bool \<Rightarrow>
   (('r, 'b) oidc_state, oidc_error, oidc_user option) run" where
  "authenticate W K config info allow_interaction =
     sbind (http_client W config info) (\<lambda>_.
     sbind (if ow_issuer W (oc_issuer config) then sret () else sfail Panic) (\<lambda>_.
     sbind (guard Discovery (ow_discovers W)) (\<lambda>_.
       let user = keyring_username W K config info;
           interact = (if allow_interaction then sbind (interactive_login W K config user) (\<lambda>u. sret (Some u)) else sret None) in
       sbind (sgets (\<lambda>s. Inr (retrieve_session K user s))) (\<lambda>stored.
       (case stored of
          Inl _ \<Rightarrow> interact
        | Inr session \<Rightarrow>
            sbind (stry (refresh_login W K user session)) (\<lambda>refreshed.
            (case refreshed of Inr u \<Rightarrow> sret (Some u) | Inl _ \<Rightarrow> interact)))))))"

definition interactive_authenticate ::
  "'r oidc_world \<Rightarrow> 'b keyring_io \<Rightarrow> oidc_config \<Rightarrow> 'r server_info \<Rightarrow> (('r, 'b) oidc_state, oidc_error, user_info) run" where
  "interactive_authenticate W K config info =
     sbind (authenticate W K config info True) (\<lambda>u. case u of None \<Rightarrow> sfail Panic | Some u \<Rightarrow> sret (OidcUser u))"

definition immediate_authenticate ::
  "'r oidc_world \<Rightarrow> 'b keyring_io \<Rightarrow> oidc_config \<Rightarrow> 'r server_info \<Rightarrow> (('r, 'b) oidc_state, oidc_error, user_info option) run" where
  "immediate_authenticate W K config info =
     sbind (authenticate W K config info False) (\<lambda>u. sret (map_option OidcUser u))"

section \<open>Logging out\<close>

definition logout_pairs :: "'r oidc_world \<Rightarrow> oidc_config \<Rightarrow> stored_session \<Rightarrow> (string \<times> string) list" where
  "logout_pairs W config session =
     [(''id_token_hint'', ss_id_token session),
      (''post_logout_redirect_uri'',
       ''http://localhost:'' @ show_nat (unat (oc_redirect_port config)) @ ''/auth/oidc/logged_out''),
      (''client_id'', oc_client_id config),
      (''state'', ow_csrf W)]"

definition deauthenticate ::
  "'r oidc_world \<Rightarrow> 'b keyring_io \<Rightarrow> oidc_config \<Rightarrow> 'r server_info \<Rightarrow> (('r, 'b) oidc_state, oidc_error, unit) run" where
  "deauthenticate W K config info =
     sbind (sgets (\<lambda>s. Inr (retrieve_session K (keyring_username W K config info) s))) (\<lambda>stored.
     (case stored of
        Inl _ \<Rightarrow> sret ()
      | Inr session \<Rightarrow>
          sbind (http_client W config info) (\<lambda>_.
          sbind (guard (InvalidIssuer (ow_issuer_error W)) (ow_issuer W (oc_issuer config))) (\<lambda>_.
          sbind (guard Discovery (ow_discovers W)) (\<lambda>_.
          (case ow_end_session W of
             None \<Rightarrow> sret ()
           | Some url \<Rightarrow>
               sbind (send_status (NeedsUserLogout (ow_append_pairs W url (logout_pairs W config session)))) (\<lambda>_.
               sbind (guard (Redirect RedirectIo) (ow_binds W)) (\<lambda>_.
               (case ow_logout W of
                  None \<Rightarrow> sfail Diverges
                | Some reply \<Rightarrow>
                    sbind (send_status AuthIdle) (\<lambda>_.
                    (case reply of Inl e \<Rightarrow> sfail (Err (Redirect e)) | Inr _ \<Rightarrow> sret ())))))))))))"

definition interactive_deauthenticate ::
  "'r oidc_world \<Rightarrow> 'b keyring_io \<Rightarrow> oidc_config \<Rightarrow> 'r server_info \<Rightarrow> (('r, 'b) oidc_state, oidc_error, unit) run" where
  "interactive_deauthenticate W K config info =
     sbind (stry (deauthenticate W K config info)) (\<lambda>res.
     sbind (stry (clear_session K (keyring_username W K config info))) (\<lambda>_.
     (case res of Inl e \<Rightarrow> sfail (Err e) | Inr _ \<Rightarrow> sret ())))"

section \<open>Logging in gives a user\<close>

lemma send_status_run [simp, run_simps]: "send_status status s = (Inr (), s\<lparr>od_status := status # od_status s\<rparr>)"
  by (simp add: send_status_def)

lemma guard_run [run_simps]: "guard e ok s = (if ok then Inr () else Inl (Err e), s)"
  by (simp add: guard_def)

lemma need_run [run_simps]: "need e x s = (case x of None \<Rightarrow> Inl (Err e) | Some y \<Rightarrow> Inr y, s)"
  by (simp add: need_def split: option.split)

lemma check_type_run [run_simps]: "check_type t s = (case t of Bearer \<Rightarrow> Inr () | OtherType n \<Rightarrow> Inl (Err (TokenTypeNotSupported n)), s)"
  by (cases t) simp_all

definition accepts_invalid :: "'r oidc_world \<Rightarrow> 'r server_info \<Rightarrow> 'r \<Rightarrow> bool" where
  "accepts_invalid W info url \<longleftrightarrow> ow_scheme W url = ''https'' \<and> loopback (ow_host W url) \<and> loopback (ow_host W (si_url info))"

lemma http_client_run [run_simps]:
  "http_client W config info s =
     (case ow_parse W (oc_issuer config) of
        None \<Rightarrow> Inl (Err (InvalidIssuer (oc_issuer config)))
      | Some url \<Rightarrow> if ow_client W (accepts_invalid W info url) then Inr () else Inl (Err Reqwest), s)"
  by (simp add: http_client_def should_accept_invalid_certs_def sbind_def run_simps accepts_invalid_def split: option.split)

text \<open>An operation that gives an error or a value, never a panic.\<close>

definition calm :: "('s, 'e, 'a) run \<Rightarrow> bool" where
  "calm m \<longleftrightarrow> (\<forall>s. fst (m s) \<noteq> Inl Panic)"

lemma calm_simps [simp]:
  "calm (sret x)" "calm (sfail (Err e))" "calm (sfail Diverges)" "calm (guard e ok)" "calm (need e opt)" "calm (check_type t)"
  "calm (smodify f)" "calm (send_status st)" "calm (sgets (\<lambda>s. Inr (g s)))"
  by (auto simp: calm_def guard_run need_run check_type_run split: option.splits token_type.splits)

lemma calm_bind: "calm m \<Longrightarrow> (\<And>x. calm (k x)) \<Longrightarrow> calm (sbind m k)"
  by (auto simp: calm_def sbind_def split: prod.split sum.split) (metis fst_conv)

lemma calm_try: "calm m \<Longrightarrow> calm (stry m)"
  by (auto simp: calm_def stry_def split: prod.split sum.split fault.split) (metis fst_conv)

lemma calm_store: "calm (store_session K user session)"
  by (auto simp: calm_def store_session_def split: option.split)

lemmas calm_intros = calm_bind calm_try calm_store

lemma calm_refresh: "calm (refresh_login W K user session)"
  unfolding refresh_login_def try_store_def access_token_expiry_def Let_def
  by (intro calm_intros) (auto intro!: calm_intros)

lemma calm_exchange: "calm (exchange_code W K user code)"
  unfolding exchange_code_def try_store_def access_token_expiry_def check_token_hash_def Let_def
  by (intro calm_intros) (auto intro!: calm_intros split: option.split)

lemma calm_interactive: "calm (interactive_login W K config user)"
  unfolding interactive_login_def
  by (intro calm_intros) (auto intro!: calm_intros calm_exchange split: option.split sum.split)

lemma calm_authenticate:
  assumes "\<And>issuer. ow_parse W issuer \<noteq> None \<Longrightarrow> ow_issuer W issuer"
  shows "calm (authenticate W K config info allow)"
proof (cases "ow_parse W (oc_issuer config)")
  case None
  then show ?thesis
    by (simp add: calm_def authenticate_def http_client_def should_accept_invalid_certs_def sbind_def need_run)
next
  case (Some url)
  with assms have "ow_issuer W (oc_issuer config)" by blast
  then show ?thesis
    unfolding authenticate_def http_client_def should_accept_invalid_certs_def Let_def
    by (intro calm_bind) (auto intro!: calm_intros calm_interactive calm_refresh split: option.split sum.split)
qed

lemma authenticate_interacts: "fst (authenticate W K config info True s) \<noteq> Inr None"
  unfolding authenticate_def Let_def
  by (auto simp: sbind_def stry_def split: prod.splits sum.splits fault.splits if_splits)

text \<open>An interactive login that returns gives a user or an error: it does not run into the panic that the code
  has for a login without a user, nor into the one for an issuer that is no URL.\<close>

theorem interactive_login_no_panic:
  assumes "\<And>issuer. ow_parse W issuer \<noteq> None \<Longrightarrow> ow_issuer W issuer"
  shows "fst (interactive_authenticate W K config info s) \<noteq> Inl Panic"
proof -
  have "fst (authenticate W K config info True s) \<noteq> Inl Panic"
    using calm_authenticate [OF assms, of K config info True] by (simp add: calm_def)
  with authenticate_interacts [of W K config info s] show ?thesis
    by (auto simp: interactive_authenticate_def sbind_def split: prod.split sum.split option.split)
qed

section \<open>Sessions\<close>

text \<open>An operation that sends no status.\<close>

lemma quiet_store: "keeps (\<lambda>s. od_status s = st) (try_store K user session)"
  by (auto simp: keeps_def try_store_def store_session_def sbind_def stry_def split: prod.split sum.split option.split fault.split)

lemma quiet_simps [simp]: "keeps P (guard e ok)" "keeps P (need f opt)" "keeps P (check_type ty)"
  by (auto simp: keeps_def run_simps)

lemma keeps_option:
  "(x = None \<Longrightarrow> keeps P m) \<Longrightarrow> (\<And>y. x = Some y \<Longrightarrow> keeps P (k y)) \<Longrightarrow> keeps P (case x of None \<Rightarrow> m | Some y \<Rightarrow> k y)"
  by (simp split: option.split)

lemma keeps_sum:
  "(\<And>y. x = Inl y \<Longrightarrow> keeps P (m y)) \<Longrightarrow> (\<And>y. x = Inr y \<Longrightarrow> keeps P (k y)) \<Longrightarrow> keeps P (case x of Inl y \<Rightarrow> m y | Inr y \<Rightarrow> k y)"
  by (simp split: sum.split)

lemma quiet_refresh: "keeps (\<lambda>s. od_status s = st) (refresh_login W K user session)"
  unfolding refresh_login_def access_token_expiry_def Let_def
  by (intro keeps_intros quiet_simps quiet_store) (auto intro: keeps_intros)

lemma quiet_authenticate: "keeps (\<lambda>s. od_status s = st) (authenticate W K config info False)"
  unfolding authenticate_def http_client_def should_accept_invalid_certs_def Let_def
  by (intro keeps_intros quiet_simps) (auto intro!: keeps_intros quiet_refresh split: option.split sum.split)

text \<open>A login without interaction never asks the user for anything: it sends no status.\<close>

theorem immediate_login_is_silent: "od_status (snd (immediate_authenticate W K config info s)) = od_status s"
proof -
  have "keeps (\<lambda>s'. od_status s' = od_status s) (immediate_authenticate W K config info)"
    unfolding immediate_authenticate_def by (intro keeps_intros quiet_authenticate)
  then show ?thesis by (simp add: keeps_def)
qed

text \<open>A key ring that works for a user name.\<close>

definition keyring_works :: "'b keyring_io \<Rightarrow> string \<Rightarrow> bool" where
  "keyring_works K user \<longleftrightarrow> keyring_law K \<and> ki_entry K user \<and> ki_get K user \<and> ki_set K user \<and> ki_delete K user \<and>
     (\<forall>s. ki_write K s \<noteq> None)"

lemma try_store_works:
  assumes "keyring_works K user"
  shows "\<exists>t. try_store K user session s = (Inr (), t) \<and> retrieve_session K user t = Inr session"
proof -
  obtain b where b: "ki_write K (unsafe_of_session session) = Some b"
    using assms by (auto simp: keyring_works_def)
  then have "ki_read K b = Some (unsafe_of_session session)"
    using assms by (auto simp: keyring_works_def keyring_law_def)
  with b assms show ?thesis
    by (auto simp: try_store_def keyring_works_def store_session_def retrieve_session_def sbind_def stry_def)
qed

lemma try_store_retrieve:
  "keyring_works K user \<Longrightarrow> try_store K user session s = (Inr x, t) \<Longrightarrow> retrieve_session K user t = Inr session"
  using try_store_works [of K user session s] by auto

lemma refresh_is_stored:
  assumes "keyring_works K name" and "refresh_login W K name session s = (Inr user, t)"
  shows "retrieve_session K name t = Inr (ou_session user)"
  using assms(2)
  by (auto simp: refresh_login_def access_token_expiry_def Let_def sbind_eq_Inr_iff run_simps
      split: option.splits token_type.splits if_splits dest!: try_store_retrieve [OF assms(1)])

lemma exchange_is_stored:
  assumes "keyring_works K name" and "exchange_code W K name code s = (Inr user, t)"
  shows "retrieve_session K name t = Inr (ou_session user)"
  using assms(2)
  by (auto simp: exchange_code_def access_token_expiry_def Let_def sbind_eq_Inr_iff run_simps
      split: option.splits token_type.splits if_splits dest!: try_store_retrieve [OF assms(1)])

lemma interactive_is_stored:
  assumes "keyring_works K name" and "interactive_login W K config name s = (Inr user, t)"
  shows "retrieve_session K name t = Inr (ou_session user)"
  using assms(2)
  by (auto simp: interactive_login_def sbind_eq_Inr_iff run_simps intro: exchange_is_stored [OF assms(1)]
      split: option.splits sum.splits if_splits)

lemma stry_eq_Inr: "stry m s = (Inr (Inr x), t) \<longleftrightarrow> m s = (Inr x, t)"
  by (auto simp: stry_def split: prod.splits sum.splits fault.splits)

definition provider_error :: "'r oidc_world \<Rightarrow> oidc_config \<Rightarrow> 'r server_info \<Rightarrow> oidc_error fault option" where
  "provider_error W config info =
     (case ow_parse W (oc_issuer config) of
        None \<Rightarrow> Some (Err (InvalidIssuer (oc_issuer config)))
      | Some url \<Rightarrow>
          if \<not> ow_client W (accepts_invalid W info url) then Some (Err Reqwest)
          else if \<not> ow_issuer W (oc_issuer config) then Some Panic
          else if \<not> ow_discovers W then Some (Err Discovery) else None)"

definition interact ::
  "'r oidc_world \<Rightarrow> 'b keyring_io \<Rightarrow> oidc_config \<Rightarrow> string \<Rightarrow> bool \<Rightarrow> (('r, 'b) oidc_state, oidc_error, oidc_user option) run" where
  "interact W K config user allow = (if allow then sbind (interactive_login W K config user) (\<lambda>u. sret (Some u)) else sret None)"

lemma authenticate_run:
  "authenticate W K config info allow s =
     (case provider_error W config info of
        Some e \<Rightarrow> (Inl e, s)
      | None \<Rightarrow>
          (case retrieve_session K (keyring_username W K config info) s of
             Inl _ \<Rightarrow> interact W K config (keyring_username W K config info) allow s
           | Inr session \<Rightarrow>
               sbind (stry (refresh_login W K (keyring_username W K config info) session))
                 (\<lambda>refreshed. case refreshed of Inr u \<Rightarrow> sret (Some u) | Inl _ \<Rightarrow> interact W K config (keyring_username W K config info) allow) s))"
  unfolding authenticate_def Let_def interact_def [symmetric] provider_error_def
  by (auto simp: sbind_def run_simps split: option.split sum.split)

lemma authenticate_is_stored:
  assumes works: "keyring_works K (keyring_username W K config info)"
    and run: "authenticate W K config info allow s = (Inr (Some user), t)"
  shows "retrieve_session K (keyring_username W K config info) t = Inr (ou_session user)"
proof -
  let ?name = "keyring_username W K config info"
  have interact: "retrieve_session K ?name t = Inr (ou_session user)"
    if "interact W K config ?name allow s = (Inr (Some user), t)" for s
    using that by (auto simp: interact_def sbind_eq_Inr_iff intro: interactive_is_stored [OF works] split: if_splits)
  show ?thesis
  proof (cases "retrieve_session K ?name s")
    case (Inl e)
    with run interact show ?thesis by (auto simp: authenticate_run split: option.splits)
  next
    case (Inr session)
    with run obtain r u where r: "stry (refresh_login W K ?name session) s = (Inr r :: (oidc_error, oidc_error + oidc_user) outcome, u)"
      "(case r of Inr v \<Rightarrow> sret (Some v) | Inl _ \<Rightarrow> interact W K config ?name allow) u = (Inr (Some user), t)"
      by (auto simp: authenticate_run sbind_eq_Inr_iff split: option.splits)
    show ?thesis
      by (cases r) (use r interact in \<open>auto simp: stry_eq_Inr intro: refresh_is_stored [OF works]\<close>)
  qed
qed

lemma login_is_stored:
  assumes works: "keyring_works K (keyring_username W K config info)"
    and "interactive_authenticate W K config info s = (Inr u, t)"
  shows "\<exists>user. u = OidcUser user \<and> retrieve_session K (keyring_username W K config info) t = Inr (ou_session user)"
  using assms(2)
  by (auto simp: interactive_authenticate_def sbind_eq_Inr_iff intro: authenticate_is_stored [OF works] split: option.splits)

text \<open>C33: Who has logged in stays logged in: the session is in the key ring, and as long as the provider takes its
  refresh token, a later login needs no interaction and gives the same user.\<close>

theorem login_persists:
  assumes "keyring_works K (keyring_username W K config info)"
    and "interactive_authenticate W K config info s = (Inr (OidcUser user), t)"
    and "ss_refresh_token (ou_session user) = Some token"
    and "ow_text W' = ow_text W" and "ow_parse W' (oc_issuer config) = Some url" and "ow_client W' (accepts_invalid W' info url)"
    and "ow_issuer W' (oc_issuer config)" and "ow_discovers W'" and "ow_token_endpoint W'"
    and "ow_refresh W' token = Some response" and "tr_type response = Bearer"
    and "tr_expires_in response = Some d" and "ow_now W' + d \<le> ow_last_time W'"
  shows "\<exists>user' t'. immediate_authenticate W' K config info t = (Inr (Some (OidcUser user')), t') \<and>
    subject (OidcUser user') = subject (OidcUser user) \<and> username (OidcUser user') = username (OidcUser user) \<and>
    bearer_token (OidcUser user') = Some (tr_access_token response)"
proof -
  have name: "keyring_username W' K config info = keyring_username W K config info"
    using assms(4) by (simp add: keyring_username_def)
  have stored: "retrieve_session K (keyring_username W K config info) t = Inr (ou_session user)"
    using login_is_stored [OF assms(1,2)] by auto
  let ?session = "case tr_refresh_token response of None \<Rightarrow> ou_session user | Some r \<Rightarrow> (ou_session user)\<lparr>ss_refresh_token := Some r\<rparr>"
  obtain t' where "try_store K (keyring_username W K config info) ?session t = (Inr (), t')"
    using try_store_works [OF assms(1)] by blast
  with assms(3-13) name stored show ?thesis
    by (auto simp: immediate_authenticate_def authenticate_run provider_error_def refresh_login_def access_token_expiry_def
        Let_def sbind_def stry_def run_simps split: option.splits)
qed

section \<open>Logging out\<close>

lemma calm_http: "calm (http_client W config info)"
  by (auto simp: calm_def run_simps split: option.split)

lemma calm_deauthenticate: "calm (deauthenticate W K config info)"
  unfolding deauthenticate_def
  by (intro calm_intros) (auto intro!: calm_intros calm_http split: option.split sum.split)

text \<open>C34: Logging out forgets the session, also when the provider or the browser reports an error, and then a login
  without interaction finds nobody.\<close>

theorem logout_forgets:
  assumes "keyring_works K (keyring_username W K config info)" and "ow_text W' = ow_text W"
    and "interactive_deauthenticate W K config info s = (result, t)" and "result \<noteq> Inl Diverges"
  shows "od_keyring t (keyring_username W K config info) = None \<and>
    (\<forall>user. fst (immediate_authenticate W' K config info t) \<noteq> Inr (Some user))"
proof -
  let ?name = "keyring_username W K config info"
  have name: "keyring_username W' K config info = ?name"
    using assms(2) by (simp add: keyring_username_def)
  obtain r u where r: "deauthenticate W K config info s = (r, u)" by (cases "deauthenticate W K config info s")
  with calm_deauthenticate [of W K config info] assms(3,4) have "r \<noteq> Inl Panic" "r \<noteq> Inl Diverges"
    by (auto simp: calm_def interactive_deauthenticate_def sbind_def stry_def dest: spec [of _ s])
  with r assms(3) have t: "t = snd (clear_session K ?name u)"
    by (cases r; cases "clear_session K ?name u")
      (auto simp: interactive_deauthenticate_def sbind_def stry_def clear_session_def split: fault.splits sum.splits if_splits)
  with assms(1) have none: "od_keyring t ?name = None"
    by (auto simp: clear_session_def keyring_works_def split: if_splits)
  with assms(1) have "retrieve_session K ?name t = Inl NoEntry"
    by (simp add: retrieve_session_def keyring_works_def)
  with none name show ?thesis
    by (auto simp: immediate_authenticate_def authenticate_run interact_def sbind_def split: option.split)
qed

section \<open>Cases to know of\<close>

text \<open>A logout that the user cancels, or that the browser never answers, keeps the session.\<close>

theorem unanswered_logout_keeps_session:
  assumes "fst (interactive_deauthenticate W K config info s) = Inl Diverges"
  shows "od_keyring (snd (interactive_deauthenticate W K config info s)) = od_keyring s"
proof -
  have http: "keeps P (http_client W config info)" for P
    by (simp add: keeps_def run_simps)
  have send: "keeps (\<lambda>u. od_keyring u = k) (send_status status)" for k status
    unfolding send_status_def by (intro keeps_intros) simp
  have keeps: "keeps (\<lambda>u. od_keyring u = od_keyring s) (deauthenticate W K config info)"
    unfolding deauthenticate_def
    by (intro keeps_intros keeps_option keeps_sum http send quiet_simps)
  obtain r u where r: "deauthenticate W K config info s = (r, u)" by (cases "deauthenticate W K config info s")
  then have u: "od_keyring u = od_keyring s" using keeps [unfolded keeps_def, rule_format, of s] by simp
  from r calm_deauthenticate [of W K config info] have "r \<noteq> Inl Panic" unfolding calm_def by (metis fst_conv)
  with r u assms show ?thesis
    by (cases r; cases "clear_session K (keyring_username W K config info) u")
      (auto simp: interactive_deauthenticate_def sbind_def stry_def clear_session_def split: fault.splits sum.splits if_splits)
qed

text \<open>When the redirect server cannot listen, a login sends nothing; but a logout has already asked the user to log
  out at the provider, and leaves that status.\<close>

theorem logout_status_stays:
  assumes "retrieve_session K (keyring_username W K config info) s = Inr session" and "provider_error W config info = None"
    and "ow_end_session W = Some url" and "\<not> ow_binds W"
  shows "fst (deauthenticate W K config info s) = Inl (Err (Redirect RedirectIo)) \<and>
    od_status (snd (deauthenticate W K config info s)) =
      NeedsUserLogout (ow_append_pairs W url (logout_pairs W config session)) # od_status s \<and>
    interactive_login W K config user s = (Inl (Err (Redirect RedirectIo)), s)"
  using assms
  by (auto simp: deauthenticate_def provider_error_def interactive_login_def sbind_def run_simps split: option.splits if_splits)

text \<open>An IPv6 address is given by \<open>host_str\<close> in brackets, so that the loopback address of IPv6 is never recognised.\<close>

theorem ipv6_loopback_unknown:
  assumes "\<And>url a. ow_host W url = Some a \<Longrightarrow> CHR '':'' \<in> set a \<Longrightarrow> hd a = CHR ''[''"
    and "ow_parse W (oc_issuer config) = Some url" and "ow_host W url = Some a" and "CHR '':'' \<in> set a"
  shows "should_accept_invalid_certs W config info s = (Inr False, s)"
  using assms(1) [OF assms(3,4)] assms(2,3)
  by (auto simp: should_accept_invalid_certs_def loopback_def sbind_def run_simps)

section \<open>An example\<close>

definition demo_keys :: "unsafe_session keyring_io" where
  "demo_keys = \<lparr>ki_hash = id, ki_entry = (\<lambda>_. True), ki_get = (\<lambda>_. True), ki_set = (\<lambda>_. True), ki_delete = (\<lambda>_. True),
     ki_write = Some, ki_read = Some\<rparr>"

definition demo_oidc :: oidc_config where
  "demo_oidc = \<lparr>oc_issuer = ''i'', oc_redirect_port = 80, oc_client_id = ''c'', oc_resource = None\<rparr>"

definition demo_oidc_info :: "string server_info" where
  "demo_oidc_info = \<lparr>si_url = ''u'', si_sync_url = ''u'', si_auth = OidcConfig demo_oidc, si_webviewer_url = None\<rparr>"

definition demo_id :: id_token where
  "demo_id = \<lparr>it_text = ''t'',
     it_claims = (\<lambda>n. if n = ''n'' then Some \<lparr>cl_access_token_hash = Some ''a'', cl_subject = ''s'', cl_name = None, cl_email = None\<rparr> else None),
     it_signing_alg = True, it_signing_key = True, it_token_hash = Some\<rparr>"

definition demo_tokens :: "string \<Rightarrow> token_response" where
  "demo_tokens a = \<lparr>tr_access_token = a, tr_refresh_token = Some ''r'', tr_id_token = Some demo_id, tr_type = Bearer, tr_expires_in = Some 5\<rparr>"

definition demo_world :: "string oidc_world" where
  "demo_world = \<lparr>ow_parse = Some, ow_scheme = (\<lambda>_. ''https''), ow_host = (\<lambda>_. None), ow_text = id, ow_client = (\<lambda>_. True),
     ow_issuer = (\<lambda>_. True), ow_issuer_error = [], ow_discovers = True, ow_end_session = Some ''e'', ow_append_pairs = (\<lambda>u _. u),
     ow_csrf = ''x'', ow_nonce = ''n'', ow_authorize_url = (\<lambda>_ _. ''l''), ow_binds = True, ow_login = Some (Inr ''o''), ow_logout = Some (Inl RecvError),
     ow_token_endpoint = True, ow_exchange = (\<lambda>_. Some (demo_tokens ''a'')), ow_refresh = (\<lambda>_. Some (demo_tokens ''b'')),
     ow_now = 0, ow_last_time = 100\<rparr>"

definition demo_nobody :: "(string, unsafe_session) oidc_state" where
  "demo_nobody = \<lparr>od_keyring = Map.empty, od_status = []\<rparr>"

definition demo_session :: stored_session where
  "demo_session = \<lparr>ss_refresh_token = Some ''r'', ss_id_token = ''t'', ss_subject = ''s'', ss_name = ''<anonymous>'', ss_email = None\<rparr>"

lemma demo_keys_work: "keyring_works demo_keys name"
  by (simp add: keyring_works_def keyring_law_def demo_keys_def)

lemmas demo_oidc_defs = demo_world_def demo_keys_def demo_oidc_def demo_oidc_info_def demo_tokens_def demo_id_def demo_nobody_def

lemma demo_world_simps:
  "ow_parse demo_world = Some" "ow_client demo_world = (\<lambda>_. True)" "ow_issuer demo_world = (\<lambda>_. True)" "ow_discovers demo_world"
  "ow_binds demo_world" "ow_login demo_world = Some (Inr ''o'')" "ow_token_endpoint demo_world" "ow_nonce demo_world = ''n''"
  "ow_exchange demo_world = (\<lambda>_. Some (demo_tokens ''a''))" "ow_refresh demo_world = (\<lambda>_. Some (demo_tokens ''b''))"
  "ow_now demo_world = 0" "ow_last_time demo_world = 100" "oc_issuer demo_oidc = ''i''"
  by (simp_all add: demo_world_def demo_oidc_def)

lemma demo_tokens_simps:
  "tr_access_token (demo_tokens a) = a" "tr_refresh_token (demo_tokens a) = Some ''r''" "tr_id_token (demo_tokens a) = Some demo_id"
  "tr_type (demo_tokens a) = Bearer" "tr_expires_in (demo_tokens a) = Some 5"
  by (simp_all add: demo_tokens_def)

definition demo_user :: oidc_user where
  "demo_user = \<lparr>ou_access_token = ''a'', ou_access_token_expiry = 5, ou_session = demo_session\<rparr>"

lemma demo_exchange: "\<exists>t. exchange_code demo_world demo_keys name ''o'' s = (Inr demo_user, t)"
proof -
  obtain t where "try_store demo_keys name demo_session s = (Inr (), t)"
    using try_store_works [OF demo_keys_work] by blast
  then show ?thesis
    by (simp add: exchange_code_def demo_world_simps demo_tokens_simps demo_id_def check_token_hash_def access_token_expiry_def
        claims_name_def Let_def sbind_def run_simps demo_user_def demo_session_def)
qed

lemma demo_logs_in:
  "\<exists>t. interactive_authenticate demo_world demo_keys demo_oidc demo_oidc_info demo_nobody = (Inr (OidcUser demo_user), t)"
proof -
  have error: "provider_error demo_world demo_oidc demo_oidc_info = None"
    by (simp add: provider_error_def demo_world_simps)
  have nobody: "retrieve_session demo_keys name demo_nobody = Inl NoEntry" for name
    by (simp add: retrieve_session_def demo_keys_def demo_nobody_def)
  have "\<exists>t. interactive_login demo_world demo_keys demo_oidc name s = (Inr demo_user, t)" for name and s :: "(string, unsafe_session) oidc_state"
    using demo_exchange by (simp add: interactive_login_def demo_world_simps sbind_def run_simps)
  then obtain t where "interactive_login demo_world demo_keys demo_oidc (keyring_username demo_world demo_keys demo_oidc demo_oidc_info) demo_nobody =
      (Inr demo_user, t)"
    by blast
  with error nobody show ?thesis
    by (simp add: interactive_authenticate_def authenticate_run interact_def sbind_def)
qed

theorem login_persists_witness:
  "\<exists>t user' t'. fst (interactive_authenticate demo_world demo_keys demo_oidc demo_oidc_info demo_nobody) \<noteq> Inl Panic \<and>
     immediate_authenticate demo_world demo_keys demo_oidc demo_oidc_info t = (Inr (Some (OidcUser user')), t') \<and>
     subject (OidcUser user') = Some ''s'' \<and> bearer_token (OidcUser user') = Some ''b''"
proof -
  obtain t where t: "interactive_authenticate demo_world demo_keys demo_oidc demo_oidc_info demo_nobody =
      (Inr (OidcUser demo_user), t)"
    using demo_logs_in by blast
  from login_persists [OF demo_keys_work t, of "''r''" demo_world "''i''" "demo_tokens ''b''" 5]
  have "\<exists>user' t'. immediate_authenticate demo_world demo_keys demo_oidc demo_oidc_info t = (Inr (Some (OidcUser user')), t') \<and>
     subject (OidcUser user') = Some ''s'' \<and> bearer_token (OidcUser user') = Some ''b''"
    by (auto simp: demo_session_def demo_user_def demo_world_simps demo_tokens_simps)
  with t show ?thesis by auto
qed

theorem logout_forgets_witness:
  "od_keyring (snd (interactive_deauthenticate demo_world demo_keys demo_oidc demo_oidc_info
     (demo_nobody\<lparr>od_keyring := [keyring_username demo_world demo_keys demo_oidc demo_oidc_info \<mapsto> unsafe_of_session demo_session]\<rparr>)))
     (keyring_username demo_world demo_keys demo_oidc demo_oidc_info) = None"
proof -
  let ?s = "demo_nobody\<lparr>od_keyring := [keyring_username demo_world demo_keys demo_oidc demo_oidc_info \<mapsto> unsafe_of_session demo_session]\<rparr>"
  have r: "fst (interactive_deauthenticate demo_world demo_keys demo_oidc demo_oidc_info ?s) = Inl (Err (Redirect RecvError))"
    by (simp add: interactive_deauthenticate_def deauthenticate_def retrieve_session_def clear_session_def sbind_def stry_def run_simps
        demo_oidc_defs)
  obtain t where "interactive_deauthenticate demo_world demo_keys demo_oidc demo_oidc_info ?s = (Inl (Err (Redirect RecvError)), t)"
    using r by (metis prod.collapse)
  from logout_forgets [OF demo_keys_work refl this] this show ?thesis by simp
qed

theorem interactive_login_no_panic_witness:
  "fst (interactive_authenticate demo_world demo_keys demo_oidc demo_oidc_info demo_nobody) \<noteq> Inl Panic"
  by (rule interactive_login_no_panic) (simp add: demo_world_def)

end
