(* ===== verification/Doc_Files.thy ===== *)
theory Doc_Files imports File_Content Godot_Hydrate Commit_Info begin

text \<open>
  How files lie in a branch document: \<open>hydrate_content_at\<close> of \<open>fs/file_utils.rs\<close>, the readers of
  \<open>helpers/doc_utils.rs\<close>, \<open>commit_entries\<close> of \<open>project/branch_db/commit.rs\<close>.

  An Automerge document at some heads, or inside a transaction, is a view \<open>'v\<close>, whose nested maps and
  texts are objects \<open>'o\<close>. Reading and writing a view are the operations \<open>am_ops\<close>, the parameter of the
  definitions; \<open>Inl ()\<close> is an \<open>AutomergeError\<close>. \<open>am_laws\<close> says what the code relies on: writing one
  field of a file entry changes that field of that entry and nothing else.

  What autosurgeon derives for \<open>GodotScene\<close> writes and reads the fields in their order, the nodes as the
  map of the functions of \<open>Godot_Hydrate\<close>: \<open>am_hydrate_fields\<close> gives an error of the fields before the
  nodes, or the result for the map of nodes and that of the fields after it, the scene without its nodes;
  \<open>am_reconcile_fields\<close> writes a scene with a map for the nodes. \<open>am_captures\<close> is the match of the
  regular expression of \<open>hydrate_nodes\<close>.
\<close>

section \<open>Views\<close>

datatype am_scalar = SBytes string | SStr string | SInt int | SOther
datatype am_obj = AMap | AList | AText
datatype am_value = VObj am_obj | VScalar am_scalar

record ('v, 'o) am_ops =
  am_root :: 'o
  am_get :: "'v \<Rightarrow> 'o \<Rightarrow> string \<Rightarrow> unit + (am_value \<times> 'o) option"
  am_get_all :: "'v \<Rightarrow> 'o \<Rightarrow> string \<Rightarrow> unit + (am_value \<times> 'o) list"
  am_keys :: "'v \<Rightarrow> 'o \<Rightarrow> string list"
  am_text :: "'v \<Rightarrow> 'o \<Rightarrow> unit + string"
  am_hydrate_fields :: "'v \<Rightarrow> 'o \<Rightarrow> string \<Rightarrow> unit + ((unit + (string, godot_node) hmap) \<times> (unit + godot_scene))"
  am_captures :: "string \<Rightarrow> (string \<times> string) option"
  am_put :: "'v \<Rightarrow> 'o \<Rightarrow> string \<Rightarrow> am_scalar \<Rightarrow> 'v"
  am_put_object :: "'v \<Rightarrow> 'o \<Rightarrow> string \<Rightarrow> am_obj \<Rightarrow> unit + 'v \<times> 'o"
  am_delete :: "'v \<Rightarrow> 'o \<Rightarrow> string \<Rightarrow> 'v"
  am_update_text :: "'v \<Rightarrow> 'o \<Rightarrow> string \<Rightarrow> 'v"
  am_reconcile_fields :: "'v \<Rightarrow> 'o \<Rightarrow> string \<Rightarrow> godot_scene \<Rightarrow> (string, godot_node) hmap \<Rightarrow> unit + 'v"

text \<open>\<open>SimpleDocReader\<close>.\<close>

definition get_bytes :: "('v, 'o) am_ops \<Rightarrow> 'v \<Rightarrow> 'o \<Rightarrow> string \<Rightarrow> string option" where
  "get_bytes am v obj k = (case am_get am v obj k of Inr (Some (VScalar (SBytes b), _)) \<Rightarrow> Some b | _ \<Rightarrow> None)"

definition get_int :: "('v, 'o) am_ops \<Rightarrow> 'v \<Rightarrow> 'o \<Rightarrow> string \<Rightarrow> int option" where
  "get_int am v obj k = (case am_get am v obj k of Inr (Some (VScalar (SInt i), _)) \<Rightarrow> Some i | _ \<Rightarrow> None)"

definition get_string :: "('v, 'o) am_ops \<Rightarrow> 'v \<Rightarrow> 'o \<Rightarrow> string \<Rightarrow> string option" where
  "get_string am v obj k = (case am_get am v obj k of Inr (Some (VScalar (SStr s), _)) \<Rightarrow> Some s | _ \<Rightarrow> None)"

definition get_obj_id :: "('v, 'o) am_ops \<Rightarrow> 'v \<Rightarrow> 'o \<Rightarrow> string \<Rightarrow> 'o option" where
  "get_obj_id am v obj k = (case am_get am v obj k of Inr (Some (VObj _, i)) \<Rightarrow> Some i | _ \<Rightarrow> None)"

section \<open>Reading a file\<close>

text \<open>\<open>GodotScene::hydrate\<close> and \<open>GodotScene::reconcile\<close>, with the nodes through the functions of the parser.\<close>

definition hydrate_scene :: "('v, 'o) am_ops \<Rightarrow> 'v \<Rightarrow> 'o \<Rightarrow> string \<Rightarrow> (unit, godot_scene) outcome" where
  "hydrate_scene am v obj k =
     (case am_hydrate_fields am v obj k of
        Inl e \<Rightarrow> Inl (Err e)
      | Inr (raw, rest) \<Rightarrow>
          rbind (hydrate_nodes (am_captures am) raw) (\<lambda>nodes.
          (case rest of Inl e \<Rightarrow> Inl (Err e) | Inr sc \<Rightarrow> Inr (sc\<lparr>gs_nodes := nodes\<rparr>))))"

definition reconcile_scene :: "('v, 'o) am_ops \<Rightarrow> 'v \<Rightarrow> 'o \<Rightarrow> string \<Rightarrow> godot_scene \<Rightarrow> unit + 'v" where
  "reconcile_scene am v obj k sc = am_reconcile_fields am v obj k sc (reconcile_nodes (gs_nodes sc))"

definition scene_hydrate_at :: "('v, 'o) am_ops \<Rightarrow> 'v \<Rightarrow> string \<Rightarrow> (unit, godot_scene) outcome" where
  "scene_hydrate_at am v path =
     rbind (ok_or (Err ()) (get_obj_id am v (am_root am) ''files'')) (\<lambda>files.
     rbind (ok_or (Err ()) (get_obj_id am v files path)) (\<lambda>scene_file.
     hydrate_scene am v scene_file ''structured_content''))"

text \<open>The text object at a key, if there is one.\<close>

definition get_text :: "('v, 'o) am_ops \<Rightarrow> 'v \<Rightarrow> 'o \<Rightarrow> string \<Rightarrow> (unit + string) option" where
  "get_text am v obj k = (case am_get am v obj k of Inr (Some (VObj AText, t)) \<Rightarrow> Some (am_text am v t) | _ \<Rightarrow> None)"

datatype 'd file_read = Content file_content | Linked 'd | Unreadable

definition hydrate_content_at ::
  "('d, 'h) id_io \<Rightarrow> ('v, 'o) am_ops \<Rightarrow> 'v \<Rightarrow> 'o \<Rightarrow> string \<Rightarrow> (unit, 'd file_read) outcome" where
  "hydrate_content_at io am v file_entry path =
     (case am_get am v file_entry ''structured_content'' of
        Inl _ \<Rightarrow> Inl Panic
      | Inr (Some _) \<Rightarrow>
          (case scene_hydrate_at am v path of
             Inl Diverges \<Rightarrow> Inl Diverges
           | Inl _ \<Rightarrow> Inl Panic
           | Inr scene \<Rightarrow> Inr (Content (CScene scene)))
      | Inr None \<Rightarrow>
          let url = Inr (case Option.bind (get_string am v file_entry ''url'') (parse_automerge_url io) of
                       Some i \<Rightarrow> Linked i | None \<Rightarrow> Unreadable)
          in (case get_text am v file_entry ''content'' of
                Some (Inr t) \<Rightarrow> Inr (Content (CString t))
              | Some (Inl _) \<Rightarrow> Inr Unreadable
              | None \<Rightarrow>
                  (case get_string am v file_entry ''content'' of
                     Some s \<Rightarrow> Inr (Content (CString s)) | None \<Rightarrow> url)))"

section \<open>Writing files\<close>

datatype ('d, 'x) entry =
    EBinary string 'd 'x
  | EText string string 'x
  | EScene string godot_scene 'x
  | EDelete string

fun entry_path :: "('d, 'x) entry \<Rightarrow> string" where
  "entry_path (EBinary p _ _) = p"
| "entry_path (EText p _ _) = p"
| "entry_path (EScene p _ _) = p"
| "entry_path (EDelete p) = p"

definition automerge_url :: "('d, 'h) id_io \<Rightarrow> 'd \<Rightarrow> string" where
  "automerge_url io d = ''automerge:'' @ show_doc io d"

definition existing_change_type :: "('v, 'o) am_ops \<Rightarrow> 'v \<Rightarrow> 'o \<Rightarrow> string \<Rightarrow> change_type" where
  "existing_change_type am v files path =
     (case am_get am v files path of Inr (Some _) \<Rightarrow> Modified | _ \<Rightarrow> Created)"

definition put_map :: "('v, 'o) am_ops \<Rightarrow> 'v \<Rightarrow> 'o \<Rightarrow> string \<Rightarrow> am_obj \<Rightarrow> (unit, 'v \<times> 'o) outcome" where
  "put_map am v obj k t = (case am_put_object am v obj k t of Inl _ \<Rightarrow> Inl Panic | Inr r \<Rightarrow> Inr r)"

fun commit_entry ::
  "('d, 'h) id_io \<Rightarrow> ('x \<Rightarrow> string) \<Rightarrow> ('v, 'o) am_ops \<Rightarrow> 'o \<Rightarrow> ('d, 'x) entry \<Rightarrow> 'v \<times> changed_file list \<Rightarrow>
   (unit, 'v \<times> changed_file list) outcome" where
  "commit_entry io hash_bytes am files (EBinary path handle hash) (v, changes) =
     (let change_type = existing_change_type am v files path
      in rbind (put_map am v files path AMap) (\<lambda>(v, file_entry).
         let v = am_put am v file_entry ''url'' (SStr (automerge_url io handle));
             v = am_put am v file_entry ''hash'' (SBytes (hash_bytes hash))
         in Inr (v, changes @ [\<lparr>cf_change_type = change_type, cf_path = path\<rparr>])))"
| "commit_entry io hash_bytes am files (EText path content hash) (v, changes) =
     rbind (case am_get am v files path of
              Inr (Some (VObj AMap, file_entry)) \<Rightarrow> Inr ((v, file_entry), Modified)
            | _ \<Rightarrow> rbind (put_map am v files path AMap) (\<lambda>r. Inr (r, Created))) (\<lambda>((v, file_entry), change_type).
     let v = am_delete am v file_entry ''url'';
         v = am_delete am v file_entry ''structured_content''
     in rbind (case am_get am v file_entry ''content'' of
                 Inr (Some (VObj AText, content_key)) \<Rightarrow> Inr (v, content_key)
               | _ \<Rightarrow> put_map am v file_entry ''content'' AText) (\<lambda>(v, content_key).
        let v = am_update_text am v content_key content;
            v = am_put am v file_entry ''hash'' (SBytes (hash_bytes hash))
        in Inr (v, changes @ [\<lparr>cf_change_type = change_type, cf_path = path\<rparr>])))"
| "commit_entry io hash_bytes am files (EScene path scene hash) (v, changes) =
     (let change_type = existing_change_type am v files path
      in rbind (case get_obj_id am v files path of
                  Some scene_file \<Rightarrow> Inr (v, scene_file)
                | None \<Rightarrow> put_map am v files path AMap) (\<lambda>(v, scene_file).
         case reconcile_scene am v scene_file ''structured_content'' scene of
           Inl _ \<Rightarrow> Inl Panic
         | Inr v \<Rightarrow>
             let v = am_put am v scene_file ''hash'' (SBytes (hash_bytes hash))
             in Inr (v, changes @ [\<lparr>cf_change_type = change_type, cf_path = path\<rparr>])))"
| "commit_entry io hash_bytes am files (EDelete path) (v, changes) =
     Inr (am_delete am v files path, changes @ [\<lparr>cf_change_type = Deleted, cf_path = path\<rparr>])"

definition commit_entries ::
  "('d, 'h) id_io \<Rightarrow> ('x \<Rightarrow> string) \<Rightarrow> ('v, 'o) am_ops \<Rightarrow> ('d, 'x) entry list \<Rightarrow> 'v \<Rightarrow>
   (unit, 'v \<times> changed_file list) outcome" where
  "commit_entries io hash_bytes am entries v =
     rbind (unwrap (get_obj_id am v (am_root am) ''files'')) (\<lambda>files.
     fold_res (commit_entry io hash_bytes am files) entries (v, []))"

section \<open>Stored hashes\<close>

text \<open>The hash stored in a file entry; otherwise whether it may be written again after it was computed:
  not when there are several, which conflicting merges leave behind.\<close>

definition stored_hash ::
  "(string \<Rightarrow> 'x option) \<Rightarrow> ('v, 'o) am_ops \<Rightarrow> 'v \<Rightarrow> 'o \<Rightarrow> bool + 'x" where
  "stored_hash from_slice am v entry_id =
     (case am_get_all am v entry_id ''hash'' of
        Inr [(VScalar (SBytes bytes), _)] \<Rightarrow>
          (case from_slice bytes of Some hash \<Rightarrow> Inr hash | None \<Rightarrow> Inl True)
      | Inr hashes \<Rightarrow> Inl (length hashes \<le> 1)
      | Inl _ \<Rightarrow> Inl True)"

section \<open>Laws of a document\<close>

definition entry_of :: "('v, 'o) am_ops \<Rightarrow> 'o \<Rightarrow> 'v \<Rightarrow> string \<Rightarrow> 'o option" where
  "entry_of am files v p = (case am_get am v files p of Inr (Some (VObj AMap, e)) \<Rightarrow> Some e | _ \<Rightarrow> None)"

text \<open>All that can be read at one key of a file entry.\<close>

definition field ::
  "('v, 'o) am_ops \<Rightarrow> 'v \<Rightarrow> 'o \<Rightarrow> string \<Rightarrow>
   (unit + (am_value \<times> 'o) list) \<times> (unit + (am_value \<times> 'o) option) \<times> (unit + string) option \<times>
   (unit + ((unit + (string, godot_node) hmap) \<times> (unit + godot_scene)))" where
  "field am v e k =
     (am_get_all am v e k, am_get am v e k, get_text am v e k, am_hydrate_fields am v e k)"

text \<open>At most the entry of \<open>p\<close> differs; at most the field \<open>k\<close> of the entry of \<open>p\<close> differs.\<close>

definition entry_frame :: "('v, 'o) am_ops \<Rightarrow> 'o \<Rightarrow> string \<Rightarrow> 'v \<Rightarrow> 'v \<Rightarrow> bool" where
  "entry_frame am files p v v' \<longleftrightarrow>
     get_obj_id am v' (am_root am) ''files'' = get_obj_id am v (am_root am) ''files'' \<and>
     (\<forall>q. q \<noteq> p \<longrightarrow> am_get am v' files q = am_get am v files q) \<and>
     (\<forall>q e k. q \<noteq> p \<and> entry_of am files v q = Some e \<longrightarrow> field am v' e k = field am v e k)"

definition field_frame :: "('v, 'o) am_ops \<Rightarrow> 'o \<Rightarrow> string \<Rightarrow> string \<Rightarrow> 'v \<Rightarrow> 'v \<Rightarrow> bool" where
  "field_frame am files p k v v' \<longleftrightarrow>
     entry_frame am files p v v' \<and> am_get am v' files p = am_get am v files p \<and>
     (\<forall>e j. entry_of am files v p = Some e \<and> j \<noteq> k \<longrightarrow> field am v' e j = field am v e j)"

definition put_law :: "('v, 'o) am_ops \<Rightarrow> 'o \<Rightarrow> bool" where
  "put_law am files \<longleftrightarrow>
     (\<forall>v p e k s. entry_of am files v p = Some e \<longrightarrow>
        field_frame am files p k v (am_put am v e k s) \<and>
        (\<exists>x. am_get am (am_put am v e k s) e k = Inr (Some (VScalar s, x)) \<and>
             am_get_all am (am_put am v e k s) e k = Inr [(VScalar s, x)]))"

definition delete_law :: "('v, 'o) am_ops \<Rightarrow> 'o \<Rightarrow> bool" where
  "delete_law am files \<longleftrightarrow>
     (\<forall>v p e k. entry_of am files v p = Some e \<longrightarrow>
        field_frame am files p k v (am_delete am v e k) \<and> am_get am (am_delete am v e k) e k = Inr None) \<and>
     (\<forall>v p. entry_frame am files p v (am_delete am v files p) \<and>
        am_get am (am_delete am v files p) files p = Inr None)"

definition text_law :: "('v, 'o) am_ops \<Rightarrow> 'o \<Rightarrow> bool" where
  "text_law am files \<longleftrightarrow>
     (\<forall>v p e k. entry_of am files v p = Some e \<longrightarrow>
        (\<exists>v' t. am_put_object am v e k AText = Inr (v', t) \<and> field_frame am files p k v v' \<and>
           am_get am v' e k = Inr (Some (VObj AText, t)))) \<and>
     (\<forall>v p e k t s. entry_of am files v p = Some e \<and> am_get am v e k = Inr (Some (VObj AText, t)) \<longrightarrow>
        field_frame am files p k v (am_update_text am v t s) \<and>
        am_get am (am_update_text am v t s) e k = Inr (Some (VObj AText, t)) \<and>
        am_text am (am_update_text am v t s) t = Inr s)"

definition map_law :: "('v, 'o) am_ops \<Rightarrow> 'o \<Rightarrow> bool" where
  "map_law am files \<longleftrightarrow>
     (\<forall>v p. \<exists>v' e. am_put_object am v files p AMap = Inr (v', e) \<and> entry_frame am files p v v' \<and>
        entry_of am files v' p = Some e \<and> (\<forall>k. am_get am v' e k = Inr None))"

text \<open>What autosurgeon derives reads back what it wrote: the entries of the map of nodes, in whatever order, and the
  other fields of the scene.\<close>

definition scene_law :: "('v, 'o) am_ops \<Rightarrow> 'o \<Rightarrow> bool" where
  "scene_law am files \<longleftrightarrow>
     (\<forall>v p e k sc m. entry_of am files v p = Some e \<longrightarrow>
        (\<exists>v' x raw rest. am_reconcile_fields am v e k sc m = Inr v' \<and> field_frame am files p k v v' \<and>
           am_get am v' e k = Inr (Some (VObj AMap, x)) \<and>
           am_hydrate_fields am v' e k = Inr (Inr raw, Inr rest) \<and>
           (hm_wf m \<longrightarrow> hm_wf raw \<and> (\<forall>j. hm_get raw j = hm_get m j)) \<and>
           rest\<lparr>gs_nodes := []\<rparr> = sc\<lparr>gs_nodes := []\<rparr>))"

definition am_laws :: "('v, 'o) am_ops \<Rightarrow> 'o \<Rightarrow> bool" where
  "am_laws am files \<longleftrightarrow> put_law am files \<and> delete_law am files \<and> text_law am files \<and>
     map_law am files \<and> scene_law am files \<and> regex_law (am_captures am)"

definition maps_only :: "('v, 'o) am_ops \<Rightarrow> 'o \<Rightarrow> 'v \<Rightarrow> bool" where
  "maps_only am files v \<longleftrightarrow> get_obj_id am v (am_root am) ''files'' = Some files \<and>
     (\<forall>p. am_get am v files p = Inr None \<or> entry_of am files v p \<noteq> None)"

text \<open>What a reader finds after an entry was committed.\<close>

fun holds_entry ::
  "('d, 'h) id_io \<Rightarrow> (string \<Rightarrow> 'x option) \<Rightarrow> ('v, 'o) am_ops \<Rightarrow> 'o \<Rightarrow> 'v \<Rightarrow> ('d, 'x) entry \<Rightarrow> bool" where
  "holds_entry io from_slice am files v (EBinary p d h) \<longleftrightarrow>
     (\<exists>e. entry_of am files v p = Some e \<and> stored_hash from_slice am v e = Inr h \<and>
        hydrate_content_at io am v e p = Inr (Linked d))"
| "holds_entry io from_slice am files v (EText p c h) \<longleftrightarrow>
     (\<exists>e. entry_of am files v p = Some e \<and> stored_hash from_slice am v e = Inr h \<and>
        hydrate_content_at io am v e p = Inr (Content (CString c)))"
| "holds_entry io from_slice am files v (EScene p sc h) \<longleftrightarrow>
     (\<exists>e. entry_of am files v p = Some e \<and> stored_hash from_slice am v e = Inr h \<and>
        (storable_nodes (gs_nodes sc) \<longrightarrow> (\<exists>nodes. renamed_apart (gs_nodes sc) nodes \<and>
           hydrate_content_at io am v e p = Inr (Content (CScene (sc\<lparr>gs_nodes := nodes\<rparr>))))))"
| "holds_entry io from_slice am files v (EDelete p) \<longleftrightarrow> am_get am v files p = Inr None"

definition entry_change :: "('v, 'o) am_ops \<Rightarrow> 'o \<Rightarrow> 'v \<Rightarrow> ('d, 'x) entry \<Rightarrow> changed_file" where
  "entry_change am files v en =
     \<lparr>cf_change_type = (case en of EDelete _ \<Rightarrow> Deleted
        | _ \<Rightarrow> if entry_of am files v (entry_path en) = None then Created else Modified),
      cf_path = entry_path en\<rparr>"

section \<open>Frames\<close>

lemma field_get: "field am v' e k = field am v e k \<Longrightarrow> am_get am v' e k = am_get am v e k"
  by (simp add: field_def)

lemma entry_of_get: "am_get am v' files p = am_get am v files p \<Longrightarrow> entry_of am files v' p = entry_of am files v p"
  by (simp add: entry_of_def)

lemma entry_of_Some: "entry_of am files v p = Some e \<longleftrightarrow> am_get am v files p = Inr (Some (VObj AMap, e))"
  by (auto simp: entry_of_def split: sum.splits option.splits am_value.splits am_obj.splits)

lemma entry_frame_trans:
  "entry_frame am files p v v' \<Longrightarrow> entry_frame am files p v' v'' \<Longrightarrow> entry_frame am files p v v''"
  unfolding entry_frame_def using entry_of_get by metis

lemma field_frame_entry: "field_frame am files p k v v' \<Longrightarrow> entry_frame am files p v v'"
  by (simp add: field_frame_def)

lemma field_frame_of:
  "field_frame am files p k v v' \<Longrightarrow> entry_of am files v' p = entry_of am files v p"
  by (simp add: field_frame_def entry_of_def)

lemma field_frame_field:
  "field_frame am files p k v v' \<Longrightarrow> entry_of am files v p = Some e \<Longrightarrow> j \<noteq> k \<Longrightarrow>
     field am v' e j = field am v e j"
  by (simp add: field_frame_def)

lemma hydrate_frame:
  assumes "get_obj_id am v' (am_root am) ''files'' = Some files"
    and "get_obj_id am v (am_root am) ''files'' = Some files"
    and "am_get am v' files p = am_get am v files p" and e: "entry_of am files v p = Some e"
    and fields: "\<And>k. k \<noteq> ''hash'' \<Longrightarrow> field am v' e k = field am v e k"
  shows "hydrate_content_at io am v' e p = hydrate_content_at io am v e p"
proof -
  have get: "am_get am v' e ''structured_content'' = am_get am v e ''structured_content''"
    "am_get am v' e ''url'' = am_get am v e ''url''" "am_get am v' e ''content'' = am_get am v e ''content''"
    using fields by (simp_all add: field_def)
  have "get_text am v' e ''content'' = get_text am v e ''content''" using fields by (simp add: field_def)
  moreover have "get_obj_id am v' files p = Some e" "get_obj_id am v files p = Some e"
    using e assms(3) by (simp_all add: get_obj_id_def entry_of_Some)
  then have "scene_hydrate_at am v' p = scene_hydrate_at am v p"
    using assms(1,2) fields [of "''structured_content''"]
    by (simp add: scene_hydrate_at_def hydrate_scene_def field_def)
  ultimately show ?thesis by (simp only: hydrate_content_at_def get_string_def get)
qed

lemma entry_frame_holds:
  assumes frame: "entry_frame am files q v v'" and other: "entry_path en \<noteq> q"
    and files: "get_obj_id am v (am_root am) ''files'' = Some files" and holds: "holds_entry io from_slice am files v en"
  shows "holds_entry io from_slice am files v' en"
proof -
  let ?p = "entry_path en"
  have get: "am_get am v' files ?p = am_get am v files ?p"
    and files': "get_obj_id am v' (am_root am) ''files'' = Some files"
    using frame other files by (auto simp: entry_frame_def)
  have same: "entry_of am files v' ?p = entry_of am files v ?p" using get by (rule entry_of_get)
  have fields: "field am v' e k = field am v e k" if "entry_of am files v ?p = Some e" for e k
    using frame other that by (simp add: entry_frame_def)
  have "stored_hash from_slice am v' e = stored_hash from_slice am v e \<and>
      hydrate_content_at io am v' e ?p = hydrate_content_at io am v e ?p" if e: "entry_of am files v ?p = Some e" for e
    using hydrate_frame [OF files' files get e fields [OF e]] fields [OF e, of "''hash''"]
    by (simp add: stored_hash_def field_def)
  with holds same get show ?thesis by (cases en) auto
qed

section \<open>One entry\<close>

lemma law_put:
  assumes "am_laws am files" and "entry_of am files v p = Some e"
  shows "field_frame am files p k v (am_put am v e k s)"
    and "\<exists>x. am_get am (am_put am v e k s) e k = Inr (Some (VScalar s, x)) \<and>
      am_get_all am (am_put am v e k s) e k = Inr [(VScalar s, x)]"
  using assms by (simp_all add: am_laws_def put_law_def)

lemma law_delete_field:
  assumes "am_laws am files" and "entry_of am files v p = Some e"
  shows "field_frame am files p k v (am_delete am v e k)" and "am_get am (am_delete am v e k) e k = Inr None"
  using assms by (simp_all add: am_laws_def delete_law_def)

lemma law_put_text:
  assumes "am_laws am files" and "entry_of am files v p = Some e"
  shows "\<exists>v' t. am_put_object am v e k AText = Inr (v', t) \<and> field_frame am files p k v v' \<and>
    am_get am v' e k = Inr (Some (VObj AText, t))"
  using assms by (simp add: am_laws_def text_law_def)

lemma law_update_text:
  assumes "am_laws am files" and "entry_of am files v p = Some e" and "am_get am v e k = Inr (Some (VObj AText, t))"
  shows "field_frame am files p k v (am_update_text am v t s) \<and>
    am_get am (am_update_text am v t s) e k = Inr (Some (VObj AText, t)) \<and>
    am_text am (am_update_text am v t s) t = Inr s"
  using assms by (simp add: am_laws_def text_law_def)

lemma law_reconcile:
  assumes laws: "am_laws am files" and e: "entry_of am files v p = Some e"
  shows "\<exists>v' x. reconcile_scene am v e k sc = Inr v' \<and> field_frame am files p k v v' \<and>
    am_get am v' e k = Inr (Some (VObj AMap, x)) \<and>
    (storable_nodes (gs_nodes sc) \<longrightarrow> (\<exists>nodes. renamed_apart (gs_nodes sc) nodes \<and>
       hydrate_scene am v' e k = Inr (sc\<lparr>gs_nodes := nodes\<rparr>)))"
proof -
  let ?m = "reconcile_nodes (gs_nodes sc)"
  have "hm_wf ?m" by (simp add: reconcile_nodes_def)
  moreover have "scene_law am files" using laws by (simp add: am_laws_def)
  ultimately obtain v' x raw rest where
    run: "am_reconcile_fields am v e k sc ?m = Inr v'" "field_frame am files p k v v'"
      "am_get am v' e k = Inr (Some (VObj AMap, x))"
    and read: "am_hydrate_fields am v' e k = Inr (Inr raw, Inr rest)"
    and raw: "hm_wf raw" "\<And>j. hm_get raw j = hm_get ?m j" and rest: "rest\<lparr>gs_nodes := []\<rparr> = sc\<lparr>gs_nodes := []\<rparr>"
    using e unfolding scene_law_def by metis
  have "rest\<lparr>gs_nodes := nodes\<rparr> = sc\<lparr>gs_nodes := nodes\<rparr>" for nodes
    using rest by (cases rest; cases sc) simp
  moreover have "regex_law (am_captures am)" using laws by (simp add: am_laws_def)
  moreover have "hydrate_scene am v' e k = Inr (rest\<lparr>gs_nodes := nodes\<rparr>)"
    if "hydrate_nodes (am_captures am) (Inr raw) = (Inr nodes :: (unit, _) outcome)" for nodes
    using read that by (simp add: hydrate_scene_def)
  ultimately have "\<exists>nodes. renamed_apart (gs_nodes sc) nodes \<and> hydrate_scene am v' e k = Inr (sc\<lparr>gs_nodes := nodes\<rparr>)"
    if "storable_nodes (gs_nodes sc)"
    using hydrate_reconciled [OF _ that raw, of "am_captures am"] by metis
  with run show ?thesis by (auto simp: reconcile_scene_def)
qed

lemma law_put_entry:
  assumes "am_laws am files"
  shows "\<exists>v' e. am_put_object am v files p AMap = Inr (v', e) \<and> entry_frame am files p v v' \<and>
    entry_of am files v' p = Some e \<and> (\<forall>k. am_get am v' e k = Inr None)"
  using assms by (simp add: am_laws_def map_law_def)

lemma law_delete_entry:
  assumes "am_laws am files"
  shows "entry_frame am files p v (am_delete am v files p)" and "am_get am (am_delete am v files p) files p = Inr None"
  using assms by (simp_all add: am_laws_def delete_law_def)

lemma get_hash_field:
  assumes "am_get_all am v e ''hash'' = Inr [(VScalar (SBytes b), x)]" and "from_slice b = Some h"
  shows "stored_hash from_slice am v e = Inr h"
  using assms by (simp add: stored_hash_def)

lemma maps_only_frame:
  assumes "maps_only am files v" and "entry_frame am files p v v'"
    and "am_get am v' files p = Inr None \<or> entry_of am files v' p \<noteq> None"
  shows "maps_only am files v'"
  unfolding maps_only_def
proof (intro conjI allI)
  show "get_obj_id am v' (am_root am) ''files'' = Some files"
    using assms(1,2) by (simp add: maps_only_def entry_frame_def)
  fix q
  show "am_get am v' files q = Inr None \<or> entry_of am files v' q \<noteq> None"
  proof (cases "q = p")
    case False
    then have "am_get am v' files q = am_get am v files q" using assms(2) by (simp add: entry_frame_def)
    with assms(1) show ?thesis using entry_of_get by (metis maps_only_def)
  qed (use assms(3) in simp)
qed

text \<open>What one entry does: it succeeds, the entry can be read back, nothing else changes, and its change
  is recorded.\<close>

definition commits ::
  "('d, 'h) id_io \<Rightarrow> ('x \<Rightarrow> string) \<Rightarrow> (string \<Rightarrow> 'x option) \<Rightarrow> ('v, 'o) am_ops \<Rightarrow> 'o \<Rightarrow> 'v \<Rightarrow>
   ('d, 'x) entry \<Rightarrow> bool" where
  "commits io hash_bytes from_slice am files v en \<longleftrightarrow>
     (\<forall>changes. \<exists>v'. commit_entry io hash_bytes am files en (v, changes) =
          Inr (v', changes @ [entry_change am files v en]) \<and>
        entry_frame am files (entry_path en) v v' \<and> holds_entry io from_slice am files v' en \<and>
        maps_only am files v')"

lemma existing_change:
  assumes "maps_only am files v"
  shows "existing_change_type am v files p = (if entry_of am files v p = None then Created else Modified)"
proof -
  have "am_get am v files p = Inr None \<or> (\<exists>e. entry_of am files v p = Some e)"
    using assms by (auto simp: maps_only_def)
  then show ?thesis by (auto simp: existing_change_type_def entry_of_Some) (auto simp: entry_of_def)
qed

lemma commits_delete:
  assumes "am_laws am files" and "maps_only am files v"
  shows "commits io hash_bytes from_slice am files v (EDelete p)"
  using law_delete_entry [OF assms(1), where p = p and v = v] maps_only_frame [OF assms(2)]
  by (auto simp: commits_def entry_change_def)

text \<open>Storing the hash is the last write; what was written before at another key stays.\<close>

lemma put_hash_last:
  assumes laws: "am_laws am files" and e: "entry_of am files v p = Some e"
    and slice: "from_slice (hash_bytes h) = Some h"
  defines "v' \<equiv> am_put am v e ''hash'' (SBytes (hash_bytes h))"
  shows "entry_of am files v' p = Some e \<and> stored_hash from_slice am v' e = Inr h \<and>
    entry_frame am files p v v' \<and> (\<forall>k. k \<noteq> ''hash'' \<longrightarrow> field am v' e k = field am v e k)"
proof -
  note frame = law_put(1) [OF laws e, of "''hash''" "SBytes (hash_bytes h)"]
  obtain x where "am_get_all am v' e ''hash'' = Inr [(VScalar (SBytes (hash_bytes h)), x)]"
    using law_put(2) [OF laws e] unfolding v'_def by blast
  then have "stored_hash from_slice am v' e = Inr h" using slice by (rule get_hash_field)
  with frame field_frame_of [OF frame] field_frame_entry [OF frame] field_frame_field [OF frame e] e
  show ?thesis unfolding v'_def by auto
qed

lemma maps_only_files: "maps_only am files v \<Longrightarrow> get_obj_id am v (am_root am) ''files'' = Some files"
  by (simp add: maps_only_def)

lemma commits_binary:
  assumes laws: "am_laws am files" and maps: "maps_only am files v" and ids: "id_laws io"
    and slice: "from_slice (hash_bytes h) = Some h"
  shows "commits io hash_bytes from_slice am files v (EBinary p d h)"
proof -
  obtain v1 e where put: "am_put_object am v files p AMap = Inr (v1, e)"
    and frame1: "entry_frame am files p v v1" and e1: "entry_of am files v1 p = Some e"
    and empty: "\<forall>k. am_get am v1 e k = Inr None"
    using law_put_entry [OF laws] by blast
  define v2 where "v2 = am_put am v1 e ''url'' (SStr (automerge_url io d))"
  define v3 where "v3 = am_put am v2 e ''hash'' (SBytes (hash_bytes h))"
  have frame2: "field_frame am files p ''url'' v1 v2" unfolding v2_def by (rule law_put(1) [OF laws e1])
  obtain x where url: "am_get am v2 e ''url'' = Inr (Some (VScalar (SStr (automerge_url io d)), x))"
    unfolding v2_def using law_put(2) [OF laws e1] by blast
  have e2: "entry_of am files v2 p = Some e" using field_frame_of [OF frame2] e1 by simp
  note last = put_hash_last [where hash_bytes = hash_bytes and from_slice = from_slice and h = h, OF laws e2 slice, folded v3_def]
  have old: "am_get am v3 e k = Inr None" if "k \<noteq> ''url''" "k \<noteq> ''hash''" for k
  proof -
    have "field am v3 e k = field am v2 e k" using last that(2) by blast
    moreover have "field am v2 e k = field am v1 e k" by (rule field_frame_field [OF frame2 e1 that(1)])
    ultimately show ?thesis using empty by (simp add: field_def)
  qed
  have "field am v3 e ''url'' = field am v2 e ''url''" using last by simp
  then have "am_get am v3 e ''url'' = am_get am v2 e ''url''" by (rule field_get)
  then have "get_string am v3 e ''url'' = Some (automerge_url io d)" using url by (simp add: get_string_def)
  moreover have "parse_automerge_url io (automerge_url io d) = Some d"
    using ids by (simp add: automerge_url_def parse_automerge_url_def id_laws_def)
  ultimately have read: "hydrate_content_at io am v3 e p = Inr (Linked d)"
    using old [of "''structured_content''"] old [of "''content''"]
    by (simp add: hydrate_content_at_def get_text_def get_string_def Let_def)
  have frame: "entry_frame am files p v v3"
    using frame1 field_frame_entry [OF frame2] last entry_frame_trans by metis
  have "commit_entry io hash_bytes am files (EBinary p d h) (v, changes) =
      Inr (v3, changes @ [entry_change am files v (EBinary p d h)])" for changes
    using put by (simp add: put_map_def v2_def v3_def entry_change_def existing_change [OF maps] Let_def)
  moreover have "maps_only am files v3" by (rule maps_only_frame [OF maps frame]) (use last in simp)
  ultimately show ?thesis using read last frame by (auto simp: commits_def)
qed

lemma commits_scene:
  assumes laws: "am_laws am files" and maps: "maps_only am files v"
    and slice: "from_slice (hash_bytes h) = Some h"
  shows "commits io hash_bytes from_slice am files v (EScene p sc h)"
proof -
  obtain v1 e where start: "(case get_obj_id am v files p of
        Some scene_file \<Rightarrow> Inr (v, scene_file) | None \<Rightarrow> put_map am v files p AMap) = (Inr (v1, e) :: (unit, _) outcome)"
    and frame1: "entry_frame am files p v v1" and e1: "entry_of am files v1 p = Some e"
  proof (cases "entry_of am files v p")
    case None
    then have "am_get am v files p = Inr None" using maps unfolding maps_only_def by blast
    then have "get_obj_id am v files p = None" by (simp add: get_obj_id_def)
    with law_put_entry [OF laws, of v p] that show thesis by (auto simp: put_map_def)
  next
    case (Some e)
    then have "get_obj_id am v files p = Some e" by (simp add: get_obj_id_def entry_of_Some)
    with Some that show thesis by (simp add: entry_frame_def)
  qed
  obtain v2 x where rec: "reconcile_scene am v1 e ''structured_content'' sc = Inr v2"
    and frame2: "field_frame am files p ''structured_content'' v1 v2"
    and got: "am_get am v2 e ''structured_content'' = Inr (Some (VObj AMap, x))"
    and scene: "storable_nodes (gs_nodes sc) \<longrightarrow> (\<exists>nodes. renamed_apart (gs_nodes sc) nodes \<and>
      hydrate_scene am v2 e ''structured_content'' = Inr (sc\<lparr>gs_nodes := nodes\<rparr>))"
    using law_reconcile [OF laws e1] by blast
  have e2: "entry_of am files v2 p = Some e" using field_frame_of [OF frame2] e1 by simp
  define v3 where "v3 = am_put am v2 e ''hash'' (SBytes (hash_bytes h))"
  note last = put_hash_last [where hash_bytes = hash_bytes and from_slice = from_slice and h = h, OF laws e2 slice, folded v3_def]
  have frame: "entry_frame am files p v v3"
    using frame1 field_frame_entry [OF frame2] last entry_frame_trans by metis
  have m3: "maps_only am files v3" by (rule maps_only_frame [OF maps frame]) (use last in simp)
  have "field am v3 e ''structured_content'' = field am v2 e ''structured_content''" using last by simp
  then have "am_get am v3 e ''structured_content'' = Inr (Some (VObj AMap, x))"
    "hydrate_scene am v3 e ''structured_content'' = hydrate_scene am v2 e ''structured_content''"
    using got by (simp_all add: field_def hydrate_scene_def)
  moreover have "get_obj_id am v3 files p = Some e" using last by (simp add: get_obj_id_def entry_of_Some)
  ultimately have read: "storable_nodes (gs_nodes sc) \<longrightarrow> (\<exists>nodes. renamed_apart (gs_nodes sc) nodes \<and>
      hydrate_content_at io am v3 e p = Inr (Content (CScene (sc\<lparr>gs_nodes := nodes\<rparr>))))"
    using scene maps_only_files [OF m3] by (auto simp: hydrate_content_at_def scene_hydrate_at_def)
  have "commit_entry io hash_bytes am files (EScene p sc h) (v, changes) =
      Inr (v3, changes @ [entry_change am files v (EScene p sc h)])" for changes
    using start rec by (simp add: v3_def entry_change_def existing_change [OF maps] Let_def)
  then show ?thesis using read last frame m3 by (auto simp: commits_def)
qed

lemma commits_text:
  assumes laws: "am_laws am files" and maps: "maps_only am files v"
    and slice: "from_slice (hash_bytes h) = Some h"
  shows "commits io hash_bytes from_slice am files v (EText p c h)"
proof -
  let ?type = "if entry_of am files v p = None then Created else Modified"
  obtain v1 e where start: "(case am_get am v files p of
        Inr (Some (VObj AMap, file_entry)) \<Rightarrow> Inr ((v, file_entry), Modified)
      | _ \<Rightarrow> rbind (put_map am v files p AMap) (\<lambda>r. Inr (r, Created))) = (Inr ((v1, e), ?type) :: (unit, _) outcome)"
    and frame1: "entry_frame am files p v v1" and e1: "entry_of am files v1 p = Some e"
  proof (cases "entry_of am files v p")
    case None
    then have "am_get am v files p = Inr None" using maps unfolding maps_only_def by blast
    with None law_put_entry [OF laws, of v p] that show thesis by (auto simp: put_map_def)
  next
    case (Some e)
    then have "am_get am v files p = Inr (Some (VObj AMap, e))" by (simp add: entry_of_Some)
    with Some that show thesis by (simp add: entry_frame_def)
  qed
  define v2 where "v2 = am_delete am v1 e ''url''"
  have frame2: "field_frame am files p ''url'' v1 v2" unfolding v2_def by (rule law_delete_field(1) [OF laws e1])
  have e2: "entry_of am files v2 p = Some e" using field_frame_of [OF frame2] e1 by simp
  define v3 where "v3 = am_delete am v2 e ''structured_content''"
  have frame3: "field_frame am files p ''structured_content'' v2 v3"
    unfolding v3_def by (rule law_delete_field(1) [OF laws e2])
  have none: "am_get am v3 e ''structured_content'' = Inr None"
    unfolding v3_def by (rule law_delete_field(2) [OF laws e2])
  have e3: "entry_of am files v3 p = Some e" using field_frame_of [OF frame3] e2 by simp
  obtain v4 t where key: "(case am_get am v3 e ''content'' of
        Inr (Some (VObj AText, content_key)) \<Rightarrow> Inr (v3, content_key)
      | _ \<Rightarrow> put_map am v3 e ''content'' AText) = (Inr (v4, t) :: (unit, _) outcome)"
    and frame4: "field_frame am files p ''content'' v3 v4" and t: "am_get am v4 e ''content'' = Inr (Some (VObj AText, t))"
  proof (cases "\<exists>t. am_get am v3 e ''content'' = Inr (Some (VObj AText, t))")
    case True
    then show thesis using that by (auto simp: field_frame_def entry_frame_def)
  next
    case False
    obtain v' t where new: "am_put_object am v3 e ''content'' AText = Inr (v', t)"
      "field_frame am files p ''content'' v3 v'" "am_get am v' e ''content'' = Inr (Some (VObj AText, t))"
      using law_put_text [OF laws e3] by blast
    have "(case am_get am v3 e ''content'' of
        Inr (Some (VObj AText, content_key)) \<Rightarrow> Inr (v3, content_key)
      | _ \<Rightarrow> put_map am v3 e ''content'' AText) = (put_map am v3 e ''content'' AText :: (unit, _) outcome)"
      using False by (auto split: sum.splits option.splits am_value.splits am_obj.splits)
    with new that show thesis by (simp add: put_map_def)
  qed
  have e4: "entry_of am files v4 p = Some e" using field_frame_of [OF frame4] e3 by simp
  define v5 where "v5 = am_update_text am v4 t c"
  have frame5: "field_frame am files p ''content'' v4 v5" and t5: "get_text am v5 e ''content'' = Some (Inr c)"
    unfolding v5_def using law_update_text [OF laws e4 t, of c] by (simp_all add: get_text_def)
  have e5: "entry_of am files v5 p = Some e" using field_frame_of [OF frame5] e4 by simp
  define v6 where "v6 = am_put am v5 e ''hash'' (SBytes (hash_bytes h))"
  note last = put_hash_last [where hash_bytes = hash_bytes and from_slice = from_slice and h = h,
      OF laws e5 slice, folded v6_def]
  have "field am v6 e ''structured_content'' = field am v3 e ''structured_content''"
  proof -
    have "field am v6 e ''structured_content'' = field am v5 e ''structured_content''" using last by simp
    also have "\<dots> = field am v4 e ''structured_content''" by (rule field_frame_field [OF frame5 e4]) simp
    also have "\<dots> = field am v3 e ''structured_content''" by (rule field_frame_field [OF frame4 e3]) simp
    finally show ?thesis .
  qed
  then have "am_get am v6 e ''structured_content'' = Inr None" using none by (simp add: field_def)
  moreover have "field am v6 e ''content'' = field am v5 e ''content''" using last by simp
  then have "get_text am v6 e ''content'' = Some (Inr c)" using t5 by (simp add: field_def)
  ultimately have read: "hydrate_content_at io am v6 e p = Inr (Content (CString c))"
    by (simp add: hydrate_content_at_def Let_def)
  have frame: "entry_frame am files p v v6"
    using frame1 field_frame_entry [OF frame2] field_frame_entry [OF frame3] field_frame_entry [OF frame4]
      field_frame_entry [OF frame5] last entry_frame_trans by meson
  have "maps_only am files v6" by (rule maps_only_frame [OF maps frame]) (use last in simp)
  moreover have "commit_entry io hash_bytes am files (EText p c h) (v, changes) =
      Inr (v6, changes @ [entry_change am files v (EText p c h)])" for changes
    unfolding commit_entry.simps start rbind_Inr prod.case Let_def v2_def [symmetric] v3_def [symmetric] key
      v5_def [symmetric] v6_def [symmetric] by (simp add: entry_change_def)
  ultimately show ?thesis using read last frame by (auto simp: commits_def)
qed

lemma commits_any:
  assumes "am_laws am files" and "maps_only am files v" and "id_laws io"
    and "\<forall>h. from_slice (hash_bytes h) = Some h"
  shows "commits io hash_bytes from_slice am files v en"
  using assms by (cases en) (simp_all add: commits_binary commits_text commits_scene commits_delete)

section \<open>All entries\<close>

lemma entry_change_frame:
  assumes "entry_frame am files p v v'" and "entry_path en \<noteq> p"
  shows "entry_change am files v' en = entry_change am files v en"
proof -
  have "am_get am v' files (entry_path en) = am_get am v files (entry_path en)"
    using assms by (simp add: entry_frame_def)
  from entry_of_get [OF this] show ?thesis by (simp only: entry_change_def)
qed

lemma commit_fold:
  assumes laws: "am_laws am files" and ids: "id_laws io" and slice: "\<forall>h. from_slice (hash_bytes h) = Some h"
    and "maps_only am files v" and "distinct (map entry_path entries)"
    and "\<forall>en\<in>held. holds_entry io from_slice am files v en \<and> entry_path en \<notin> entry_path ` set entries"
  shows "\<exists>v'. fold_res (commit_entry io hash_bytes am files) entries (v, changes) =
      Inr (v', changes @ map (entry_change am files v) entries) \<and> maps_only am files v' \<and>
    (\<forall>en\<in>held \<union> set entries. holds_entry io from_slice am files v' en) \<and>
    (\<forall>q. q \<notin> entry_path ` set entries \<longrightarrow> am_get am v' files q = am_get am v files q \<and>
       (\<forall>e k. entry_of am files v q = Some e \<longrightarrow> field am v' e k = field am v e k))"
  using assms(4-)
proof (induction entries arbitrary: v held changes)
  case Nil
  then show ?case by simp
next
  case (Cons en entries)
  from commits_any [OF laws Cons.prems(1) ids slice, of en]
  obtain v1 where one: "commit_entry io hash_bytes am files en (v, changes) =
        Inr (v1, changes @ [entry_change am files v en])"
    and frame: "entry_frame am files (entry_path en) v v1"
    and held1: "holds_entry io from_slice am files v1 en" and maps1: "maps_only am files v1"
    unfolding commits_def by blast
  have held_all: "\<forall>x\<in>insert en held. holds_entry io from_slice am files v1 x \<and> entry_path x \<notin> entry_path ` set entries"
  proof
    fix x
    assume "x \<in> insert en held"
    then consider "x = en" | "x \<in> held" by blast
    then show "holds_entry io from_slice am files v1 x \<and> entry_path x \<notin> entry_path ` set entries"
    proof cases
      case 1
      then show ?thesis using Cons.prems(2) held1 by simp
    next
      case 2
      then have x: "entry_path x \<noteq> entry_path en" "entry_path x \<notin> entry_path ` set entries"
        "holds_entry io from_slice am files v x" using Cons.prems(3) by auto
      with entry_frame_holds [OF frame x(1) maps_only_files [OF Cons.prems(1)] x(3)] show ?thesis by simp
    qed
  qed
  have dist: "distinct (map entry_path entries)" using Cons.prems(2) by simp
  from Cons.IH [OF maps1 dist held_all, of "changes @ [entry_change am files v en]"] obtain v2 where
    run: "fold_res (commit_entry io hash_bytes am files) entries (v1, changes @ [entry_change am files v en]) =
        Inr (v2, (changes @ [entry_change am files v en]) @ map (entry_change am files v1) entries)"
    and maps2: "maps_only am files v2"
    and held2: "\<forall>x\<in>insert en held \<union> set entries. holds_entry io from_slice am files v2 x"
    and same: "\<forall>q. q \<notin> entry_path ` set entries \<longrightarrow> am_get am v2 files q = am_get am v1 files q \<and>
       (\<forall>e k. entry_of am files v1 q = Some e \<longrightarrow> field am v2 e k = field am v1 e k)" by blast
  have "map (entry_change am files v1) entries = map (entry_change am files v) entries"
  proof (rule map_cong [OF refl])
    fix x
    assume "x \<in> set entries"
    then have "entry_path x \<in> entry_path ` set entries" by (rule imageI)
    then have "entry_path x \<noteq> entry_path en" using Cons.prems(2) by auto
    then show "entry_change am files v1 x = entry_change am files v x" by (rule entry_change_frame [OF frame])
  qed
  then have "fold_res (commit_entry io hash_bytes am files) (en # entries) (v, changes) =
      Inr (v2, changes @ map (entry_change am files v) (en # entries))"
    using one run by simp
  moreover have "am_get am v2 files q = am_get am v files q \<and>
      (\<forall>e k. entry_of am files v q = Some e \<longrightarrow> field am v2 e k = field am v e k)"
    if q: "q \<notin> entry_path ` set (en # entries)" for q
  proof -
    have q': "q \<notin> entry_path ` set entries" and qe: "q \<noteq> entry_path en" using q by simp_all
    have get1: "am_get am v1 files q = am_get am v files q" using frame q by (simp add: entry_frame_def)
    have "field am v2 e k = field am v e k" if e: "entry_of am files v q = Some e" for e k
    proof -
      have "entry_of am files v1 q = Some e" using entry_of_get [OF get1] e by simp
      then have "field am v2 e k = field am v1 e k" using same q' by blast
      also have "\<dots> = field am v e k" using frame qe e unfolding entry_frame_def by blast
      finally show ?thesis .
    qed
    moreover have "am_get am v2 files q = am_get am v1 files q" using same q' by blast
    ultimately show ?thesis using get1 by simp
  qed
  ultimately show ?case using maps2 held2 by auto
qed

lemma commit_entries_holds:
  assumes "am_laws am files" and "id_laws io" and "\<forall>h. from_slice (hash_bytes h) = Some h"
    and "maps_only am files v" and "distinct (map entry_path entries)"
  shows "\<exists>v'. commit_entries io hash_bytes am entries v = Inr (v', map (entry_change am files v) entries) \<and>
    maps_only am files v' \<and> (\<forall>q. q \<notin> entry_path ` set entries \<longrightarrow> am_get am v' files q = am_get am v files q) \<and>
    (\<forall>en\<in>set entries. holds_entry io from_slice am files v' en) \<and>
    (\<forall>q e. q \<notin> entry_path ` set entries \<and> entry_of am files v q = Some e \<longrightarrow>
       entry_of am files v' q = Some e \<and> stored_hash from_slice am v' e = stored_hash from_slice am v e \<and>
       hydrate_content_at io am v' e q = hydrate_content_at io am v e q)"
proof -
  obtain v' where run: "fold_res (commit_entry io hash_bytes am files) entries (v, []) =
        Inr (v', [] @ map (entry_change am files v) entries)" and maps': "maps_only am files v'"
    and held: "\<forall>en\<in>{} \<union> set entries. holds_entry io from_slice am files v' en"
    and same: "\<forall>q. q \<notin> entry_path ` set entries \<longrightarrow> am_get am v' files q = am_get am v files q \<and>
       (\<forall>e k. entry_of am files v q = Some e \<longrightarrow> field am v' e k = field am v e k)"
    using commit_fold [OF assms, of "{}" "[]"] by auto
  have "entry_of am files v' q = Some e \<and> stored_hash from_slice am v' e = stored_hash from_slice am v e \<and>
       hydrate_content_at io am v' e q = hydrate_content_at io am v e q"
    if q: "q \<notin> entry_path ` set entries" and e: "entry_of am files v q = Some e" for q e
  proof -
    have get: "am_get am v' files q = am_get am v files q"
      and fields: "\<And>k. field am v' e k = field am v e k" using same q e by blast+
    from fields [of "''hash''"] hydrate_frame [OF maps_only_files [OF maps'] maps_only_files [OF assms(4)] get e fields]
      entry_of_get [OF get] e show ?thesis by (simp add: stored_hash_def field_def)
  qed
  with run held maps' same maps_only_files [OF assms(4)] show ?thesis by (auto simp: commit_entries_def)
qed

section \<open>Properties\<close>

text \<open>C19: committing files to a document succeeds, and a reader then finds for every committed file the
  committed hash and the committed content, also when the file was of another kind before: a text, the link to
  the binary document, or the scene, if its nodes have no negative ids and its names are ASCII lines without
  huge numbers, where nodes with equal names below one parent are renamed apart. Deleted files are gone, and
  every other file reads as before.
  The change list names every file once, in order, as created exactly if the document had no such
  file.\<close>

theorem commit_entries_roundtrip:
  assumes "am_laws am files" and "id_laws io" and "\<forall>h. from_slice (hash_bytes h) = Some h"
    and "maps_only am files v" and "distinct (map entry_path entries)"
  shows "\<exists>v'. commit_entries io hash_bytes am entries v = Inr (v', map (entry_change am files v) entries) \<and>
    (\<forall>en\<in>set entries. holds_entry io from_slice am files v' en) \<and>
    (\<forall>q e. q \<notin> entry_path ` set entries \<and> entry_of am files v q = Some e \<longrightarrow>
       entry_of am files v' q = Some e \<and> stored_hash from_slice am v' e = stored_hash from_slice am v e \<and>
       hydrate_content_at io am v' e q = hydrate_content_at io am v e q)"
  using commit_entries_holds [OF assms] by blast

text \<open>A store without history, for the witnesses: entries are maps from keys to values.\<close>

datatype demo_obj = DRoot | DFiles | DEntry string | DField string string
datatype demo_val = DScalar am_scalar | DText string | DScene godot_scene "(string, godot_node) hmap" | DTable "string list list list"
type_synonym demo_view = "string \<Rightarrow> (string \<Rightarrow> demo_val option) option"

fun demo_value :: "string \<Rightarrow> string \<Rightarrow> demo_val \<Rightarrow> am_value \<times> demo_obj" where
  "demo_value p k (DScalar s) = (VScalar s, DField p k)"
| "demo_value p k (DText _) = (VObj AText, DField p k)"
| "demo_value p k (DScene _ _) = (VObj AMap, DField p k)"
| "demo_value p k (DTable _) = (VObj AList, DField p k)"

definition demo_field :: "demo_view \<Rightarrow> string \<Rightarrow> string \<Rightarrow> demo_val option" where
  "demo_field v p k = Option.bind (v p) (\<lambda>f. f k)"

definition demo_set :: "demo_view \<Rightarrow> string \<Rightarrow> string \<Rightarrow> demo_val option \<Rightarrow> demo_view" where
  "demo_set v p k x = (case v p of None \<Rightarrow> v | Some f \<Rightarrow> v(p := Some (f(k := x))))"

fun demo_get :: "demo_view \<Rightarrow> demo_obj \<Rightarrow> string \<Rightarrow> (am_value \<times> demo_obj) option" where
  "demo_get v DRoot k = (if k = ''files'' then Some (VObj AMap, DFiles) else None)"
| "demo_get v DFiles p = (case v p of None \<Rightarrow> None | Some _ \<Rightarrow> Some (VObj AMap, DEntry p))"
| "demo_get v (DEntry p) k = map_option (demo_value p k) (demo_field v p k)"
| "demo_get v (DField p k) j = None"

fun demo_put_object :: "demo_view \<Rightarrow> demo_obj \<Rightarrow> string \<Rightarrow> am_obj \<Rightarrow> demo_view \<times> demo_obj" where
  "demo_put_object v DFiles p t = (v(p := Some (\<lambda>_. None)), DEntry p)"
| "demo_put_object v (DEntry p) k t = (demo_set v p k (Some (DText [])), DField p k)"
| "demo_put_object v obj k t = (v, obj)"

fun demo_delete :: "demo_view \<Rightarrow> demo_obj \<Rightarrow> string \<Rightarrow> demo_view" where
  "demo_delete v DFiles p = v(p := None)"
| "demo_delete v (DEntry p) k = demo_set v p k None"
| "demo_delete v obj k = v"

definition demo_doc_ops :: "(demo_view, demo_obj) am_ops" where
  "demo_doc_ops = \<lparr>am_root = DRoot, am_get = (\<lambda>v obj k. Inr (demo_get v obj k)),
     am_get_all = (\<lambda>v obj k. Inr (case demo_get v obj k of None \<Rightarrow> [] | Some x \<Rightarrow> [x])),
     am_keys = (\<lambda>v obj. if v ''res://a'' = None then [] else [''res://a'']),
     am_text = (\<lambda>v obj. case obj of DField p k \<Rightarrow>
         (case demo_field v p k of Some (DText t) \<Rightarrow> Inr t | _ \<Rightarrow> Inl ()) | _ \<Rightarrow> Inl ()),
     am_hydrate_fields = (\<lambda>v obj k. case obj of DEntry p \<Rightarrow>
         (case demo_field v p k of Some (DScene sc m) \<Rightarrow> Inr (Inr (rev m), Inr sc) | _ \<Rightarrow> Inl ()) | _ \<Rightarrow> Inl ()),
     am_captures = demo_captures,
     am_put = (\<lambda>v obj k s. case obj of DEntry p \<Rightarrow> demo_set v p k (Some (DScalar s)) | _ \<Rightarrow> v),
     am_put_object = (\<lambda>v obj k t. Inr (demo_put_object v obj k t)),
     am_delete = demo_delete,
     am_update_text = (\<lambda>v obj s. case obj of DField p k \<Rightarrow> demo_set v p k (Some (DText s)) | _ \<Rightarrow> v),
     am_reconcile_fields = (\<lambda>v obj k sc m. case obj of
         DEntry p \<Rightarrow> Inr (demo_set v p k (Some (DScene (sc\<lparr>gs_nodes := []\<rparr>) m))) | _ \<Rightarrow> Inl ())\<rparr>"

lemma demo_ops [simp]:
  "am_root demo_doc_ops = DRoot"
  "am_get demo_doc_ops v obj k = Inr (demo_get v obj k)"
  "am_get_all demo_doc_ops v obj k = Inr (case demo_get v obj k of None \<Rightarrow> [] | Some x \<Rightarrow> [x])"
  "am_keys demo_doc_ops v obj = (if v ''res://a'' = None then [] else [''res://a''])"
  "am_text demo_doc_ops v (DField p k) =
     (case demo_field v p k of Some (DText t) \<Rightarrow> Inr t | _ \<Rightarrow> Inl ())"
  "am_hydrate_fields demo_doc_ops v (DEntry p) k =
     (case demo_field v p k of Some (DScene sc m) \<Rightarrow> Inr (Inr (rev m), Inr sc) | _ \<Rightarrow> Inl ())"
  "am_captures demo_doc_ops = demo_captures"
  "am_put demo_doc_ops v (DEntry p) k s = demo_set v p k (Some (DScalar s))"
  "am_put_object demo_doc_ops v obj k t = Inr (demo_put_object v obj k t)"
  "am_delete demo_doc_ops = demo_delete"
  "am_update_text demo_doc_ops v (DField p k) s' = demo_set v p k (Some (DText s'))"
  "am_reconcile_fields demo_doc_ops v (DEntry p) k sc m =
     Inr (demo_set v p k (Some (DScene (sc\<lparr>gs_nodes := []\<rparr>) m)))"
  by (simp_all add: demo_doc_ops_def)

lemma demo_entry_of: "entry_of demo_doc_ops DFiles v p = Some e \<longleftrightarrow> e = DEntry p \<and> v p \<noteq> None"
  by (auto simp: entry_of_Some split: option.splits)

lemma demo_entry_field:
  assumes "demo_field w q j = demo_field v q j"
  shows "field demo_doc_ops w (DEntry q) j = field demo_doc_ops v (DEntry q) j"
proof (cases "demo_field v q j")
  case (Some x)
  with assms show ?thesis by (cases x) (simp_all add: field_def get_text_def)
qed (use assms in \<open>simp add: field_def get_text_def\<close>)

lemma demo_root: "get_obj_id demo_doc_ops w DRoot ''files'' = Some DFiles"
  by (simp add: get_obj_id_def)

lemma demo_set_frame:
  assumes "v p \<noteq> None"
  shows "field_frame demo_doc_ops DFiles p k v (demo_set v p k x) \<and> demo_field (demo_set v p k x) p k = x"
proof -
  obtain f where f: "v p = Some f" using assms by blast
  have other: "demo_field (demo_set v p k x) q j = demo_field v q j" if "q \<noteq> p \<or> j \<noteq> k" for q j
    using that f by (auto simp: demo_set_def demo_field_def)
  have files: "demo_get (demo_set v p k x) DFiles q = demo_get v DFiles q" for q
    using f by (simp add: demo_set_def)
  have "demo_field (demo_set v p k x) p k = x" using f by (simp add: demo_set_def demo_field_def)
  with other files show ?thesis
    by (auto simp: field_frame_def entry_frame_def demo_entry_of demo_root intro!: demo_entry_field)
qed

lemma demo_entry_frame:
  assumes "\<forall>q. q \<noteq> p \<longrightarrow> w q = v q"
  shows "entry_frame demo_doc_ops DFiles p v w"
  using assms by (auto simp: entry_frame_def demo_entry_of demo_root demo_field_def intro!: demo_entry_field)

lemma demo_doc_laws: "am_laws demo_doc_ops DFiles"
proof -
  have put: "put_law demo_doc_ops DFiles"
    using demo_set_frame by (fastforce simp: put_law_def demo_entry_of)
  have del: "delete_law demo_doc_ops DFiles"
    using demo_set_frame by (fastforce simp: delete_law_def demo_entry_of intro: demo_entry_frame)
  have "\<exists>v' t. am_put_object demo_doc_ops v e k AText = Inr (v', t) \<and>
      field_frame demo_doc_ops DFiles p k v v' \<and> am_get demo_doc_ops v' e k = Inr (Some (VObj AText, t))"
    if "entry_of demo_doc_ops DFiles v p = Some e" for v p e k
    using that demo_set_frame [of v p k "Some (DText [])"] by (auto simp: demo_entry_of)
  moreover have "field_frame demo_doc_ops DFiles p k v (am_update_text demo_doc_ops v t s) \<and>
      am_get demo_doc_ops (am_update_text demo_doc_ops v t s) e k = Inr (Some (VObj AText, t)) \<and>
      am_text demo_doc_ops (am_update_text demo_doc_ops v t s) t = Inr s"
    if "entry_of demo_doc_ops DFiles v p = Some e" "am_get demo_doc_ops v e k = Inr (Some (VObj AText, t))"
    for v p e k t s
  proof -
    have "t = DField p k" "v p \<noteq> None" "e = DEntry p"
      using that by (auto simp: demo_entry_of elim!: demo_value.elims)
    then show ?thesis using demo_set_frame [of v p k "Some (DText s)"] by simp
  qed
  ultimately have txts: "text_law demo_doc_ops DFiles" unfolding text_law_def by blast
  have maps: "map_law demo_doc_ops DFiles"
    by (auto simp: map_law_def demo_entry_of demo_field_def intro: demo_entry_frame)
  have "hm_wf (rev m) \<and> (\<forall>j. hm_get (rev m) j = hm_get m j)" if "hm_wf m" for m :: "(string, godot_node) hmap"
    using that hm_get_perm [OF that, of "rev m"] by (simp add: hm_wf_def rev_map [symmetric])
  then have scene: "scene_law demo_doc_ops DFiles"
    using demo_set_frame by (fastforce simp: scene_law_def demo_entry_of)
  show ?thesis using put del txts maps scene demo_law by (simp add: am_laws_def)
qed

definition demo_binary_view :: demo_view where
  "demo_binary_view = (\<lambda>_. None)(''a'' := Some ((\<lambda>_. None)(''url'' := Some (DScalar (SStr ''automerge:doc1'')))))"

lemma demo_maps_only: "maps_only demo_doc_ops DFiles v"
  by (auto simp: maps_only_def demo_root entry_of_def split: option.splits)

definition demo_stored_scene :: godot_scene where
  "demo_stored_scene = \<lparr>gs_load_steps = 0, gs_format = 3, gs_uid = ''uid://a'', gs_script_class = None,
     gs_resource_type = ''PackedScene'', gs_root_node_id = Some (mk_node_id 1 None), gs_ext_resources = [],
     gs_sub_resources = [], gs_nodes = demo_family ''N7'' ''N7'', gs_connections = [], gs_editable_instances = [],
     gs_main_resource = None\<rparr>"

theorem commit_entries_roundtrip_witness:
  "\<exists>v' nodes. commit_entries demo_io id demo_doc_ops
       [EText ''a'' ''x'' ''h'', EDelete ''b'', EScene ''c'' demo_stored_scene ''i''] demo_binary_view =
       Inr (v', [\<lparr>cf_change_type = Modified, cf_path = ''a''\<rparr>, \<lparr>cf_change_type = Deleted, cf_path = ''b''\<rparr>,
         \<lparr>cf_change_type = Created, cf_path = ''c''\<rparr>]) \<and>
     hydrate_content_at demo_io demo_doc_ops v' (DEntry ''a'') ''a'' = Inr (Content (CString ''x'')) \<and>
     hydrate_content_at demo_io demo_doc_ops v' (DEntry ''c'') ''c'' =
       Inr (Content (CScene (demo_stored_scene\<lparr>gs_nodes := nodes\<rparr>))) \<and>
     name_of nodes (mk_node_id 2 None) \<noteq> name_of nodes (mk_node_id 3 None)"
proof -
  let ?entries = "[EText ''a'' ''x'' ''h'', EDelete ''b'', EScene ''c'' demo_stored_scene ''i''] :: (bool, string) entry list"
  have changes: "map (entry_change demo_doc_ops DFiles demo_binary_view) ?entries =
      [\<lparr>cf_change_type = Modified, cf_path = ''a''\<rparr>, \<lparr>cf_change_type = Deleted, cf_path = ''b''\<rparr>,
       \<lparr>cf_change_type = Created, cf_path = ''c''\<rparr>]"
    by (simp add: entry_change_def entry_of_def demo_binary_view_def)
  have "\<forall>h. Some (id h) = Some h" "distinct (map entry_path ?entries)" by simp_all
  from commit_entries_roundtrip [where from_slice = Some and hash_bytes = id and v = demo_binary_view,
      OF demo_doc_laws demo_io_laws this(1) demo_maps_only this(2)]
  obtain v' where run: "commit_entries demo_io id demo_doc_ops ?entries demo_binary_view =
      Inr (v', map (entry_change demo_doc_ops DFiles demo_binary_view) ?entries)"
    and held: "holds_entry demo_io Some demo_doc_ops DFiles v' (EText ''a'' ''x'' ''h'' :: (bool, string) entry)"
    and scene: "holds_entry demo_io Some demo_doc_ops DFiles v' (EScene ''c'' demo_stored_scene ''i'' :: (bool, string) entry)"
    by auto
  have nodes: "gs_nodes demo_stored_scene = demo_family ''N7'' ''N7''" by (simp add: demo_stored_scene_def)
  from scene obtain nodes where apart: "renamed_apart (demo_family ''N7'' ''N7'') nodes"
    and read: "hydrate_content_at demo_io demo_doc_ops v' (DEntry ''c'') ''c'' =
      Inr (Content (CScene (demo_stored_scene\<lparr>gs_nodes := nodes\<rparr>)))"
    using demo_storable by (auto simp: nodes demo_entry_of)
  have "siblings (demo_family ''N7'' ''N7'') (mk_node_id 2 None) (mk_node_id 3 None)"
    by (simp add: siblings_def demo_family_def demo_child_def)
  then have "name_of nodes (mk_node_id 2 None) \<noteq> name_of nodes (mk_node_id 3 None)"
    using apart siblings_same unfolding renamed_apart_def by blast
  with run held read show ?thesis unfolding changes by (auto simp: demo_entry_of)
qed

end
