(* ===== verification/Branch_Sync.thy ===== *)
theory Branch_Sync imports Prelude begin

text \<open>
  \<open>project/branch_db/branch_sync.rs\<close>: for every branch the database keeps a shadow document, in which
  commits are made, beside the canonical document of the repository, which other peers change. The
  two are merged (reconciled) as soon as no linked binary document of the branch is still awaited.

  Automerge documents are the type parameter \<open>'doc\<close> with the operations \<open>crdt\<close>; \<open>crdt_laws\<close> says that a
  document is determined by its set of changes as far as its heads are concerned, and that a
  successful merge adds the other document's changes. A handle of the repository is the id of its
  document. Each operation holds the locks it needs until it is done and is one step here.
\<close>

section \<open>Documents\<close>

record ('doc, 'h) crdt =
  am_heads :: "'doc \<Rightarrow> 'h list"
  am_fork :: "'doc \<Rightarrow> 'doc"
  am_merge :: "'doc \<Rightarrow> 'doc \<Rightarrow> bool \<times> 'doc"   \<comment> \<open>success, and the document after it\<close>

definition crdt_laws :: "('doc, 'h) crdt \<Rightarrow> ('doc \<Rightarrow> 'c set) \<Rightarrow> bool" where
  "crdt_laws am changes \<longleftrightarrow>
     (\<forall>d. changes (am_fork am d) = changes d \<and> distinct (am_heads am d)) \<and>
     (\<forall>d e. changes d = changes e \<longleftrightarrow> set (am_heads am d) = set (am_heads am e)) \<and>
     (\<forall>d e d'. am_merge am d e = (True, d') \<longrightarrow> changes d' = changes d \<union> changes e) \<and>
     (\<forall>d e d'. am_merge am d e = (False, d') \<longrightarrow> changes d \<subseteq> changes d')"

section \<open>State\<close>

datatype binary_doc_status = Pending | Failed | DocOk

record ('d, 'doc, 'h) branch_sync_state =
  shadow_doc :: "'doc option"
  shadow_doc_init :: bool
  canonical_doc :: 'd
  last_tracked :: "'h list"
  last_reconciled :: "'h list"
  canonical_binary_docs :: "('d, binary_doc_status) hmap"

record ('d, 'doc, 'h) branch_states =
  repo_docs :: "'d \<Rightarrow> 'doc"                \<comment> \<open>the documents behind the handles\<close>
  binary_states :: "('d, 'd option) hmap"
  branch_sync_states :: "('d, ('d, 'doc, 'h) branch_sync_state) hmap"

datatype canonical_status = CPending | BranchNotIngested | BinaryDocNotFound | Healthy

definition branch_sync_state_new :: "'d \<Rightarrow> ('d, 'doc, 'h) branch_sync_state" where
  "branch_sync_state_new handle =
     \<lparr>shadow_doc = None, shadow_doc_init = False, canonical_doc = handle, last_tracked = [],
      last_reconciled = [], canonical_binary_docs = []\<rparr>"

definition is_branch_loaded :: "('doc, 'h) crdt \<Rightarrow> 'd \<Rightarrow> ('d, 'doc, 'h) branch_states \<Rightarrow> bool" where
  "is_branch_loaded am i db =
     (case hm_get (branch_sync_states db) i of
        None \<Rightarrow> False
      | Some st \<Rightarrow> (case shadow_doc st of None \<Rightarrow> False | Some d \<Rightarrow> am_heads am d \<noteq> []))"

definition clear_branch_states :: "('d, 'doc, 'h) branch_states \<Rightarrow> ('d, 'doc, 'h) branch_states" where
  "clear_branch_states db = db\<lparr>branch_sync_states := [], binary_states := []\<rparr>"

definition canonical_branch_status ::
  "'d \<Rightarrow> ('d, 'doc, 'h) branch_states \<Rightarrow> canonical_status" where
  "canonical_branch_status i db =
     (case hm_get (branch_sync_states db) i of
        None \<Rightarrow> BranchNotIngested
      | Some st \<Rightarrow>
          if \<exists>v\<in>snd ` set (canonical_binary_docs st). v = Failed then BinaryDocNotFound
          else if \<exists>v\<in>snd ` set (canonical_binary_docs st). v = Pending then CPending
          else Healthy)"

text \<open>\<open>wait_for_shadow_doc\<close>: the error, or whether it returns at once; otherwise it waits for the next
  notification of \<open>shadow_doc_init_tx\<close>.\<close>

definition wait_for_shadow_doc :: "'d \<Rightarrow> ('d, 'doc, 'h) branch_states \<Rightarrow> unit + bool" where
  "wait_for_shadow_doc branch db =
     rbind (ok_or () (hm_get (branch_sync_states db) branch)) (\<lambda>st. Inr (shadow_doc_init st))"

definition has_binary_doc :: "'d \<Rightarrow> ('d, 'doc, 'h) branch_states \<Rightarrow> bool" where
  "has_binary_doc i db = hm_contains (binary_states db) i"

section \<open>Reconciliation\<close>

definition are_heads_equivalent :: "'h::linorder list \<Rightarrow> 'h list \<Rightarrow> bool" where
  "are_heads_equivalent a b \<longleftrightarrow> sort a = sort b"

definition resolved_all_canonical_binary_docs :: "('d, binary_doc_status) hmap \<Rightarrow> bool" where
  "resolved_all_canonical_binary_docs docs \<longleftrightarrow> (\<forall>v\<in>snd ` set docs. v \<noteq> Pending)"

text \<open>
  One reconciliation of a branch with its canonical document: whether it succeeded, whether it told
  the subscribers, and the two documents after it. An error leaves what was merged before it.
\<close>

definition try_reconcile ::
  "('doc, 'h::linorder) crdt \<Rightarrow> 'doc \<Rightarrow> ('d, 'doc, 'h) branch_sync_state \<Rightarrow>
   (bool \<times> bool) \<times> 'doc \<times> ('d, 'doc, 'h) branch_sync_state" where
  "try_reconcile am d st =
     (if \<not> resolved_all_canonical_binary_docs (canonical_binary_docs st) then ((True, False), d, st)
      else if are_heads_equivalent (last_reconciled st) (last_tracked st) \<and>
           (case shadow_doc st of
              None \<Rightarrow> False
            | Some shadow \<Rightarrow> are_heads_equivalent (last_reconciled st) (am_heads am shadow))
      then ((True, False), d, st)
      else
        let shadow = (case shadow_doc st of None \<Rightarrow> am_fork am d | Some shadow \<Rightarrow> shadow);
            (ok1, shadow) = am_merge am shadow d
        in if \<not> ok1 then ((False, False), d, st\<lparr>shadow_doc := Some shadow\<rparr>)
           else let (ok2, d) = am_merge am d shadow
                in if \<not> ok2 then ((False, False), d, st\<lparr>shadow_doc := Some shadow\<rparr>)
                   else ((True, True), d,
                     st\<lparr>shadow_doc := Some shadow, last_reconciled := am_heads am d,
                        last_tracked := am_heads am d, shadow_doc_init := True\<rparr>))"

text \<open>\<open>try_reconcile_branch\<close> on the state stored for a branch.\<close>

definition try_reconcile_branch ::
  "('doc, 'h::linorder) crdt \<Rightarrow> 'd \<Rightarrow> ('d, 'doc, 'h) branch_states \<Rightarrow> bool \<times> ('d, 'doc, 'h) branch_states" where
  "try_reconcile_branch am branch db =
     (case hm_get (branch_sync_states db) branch of
        None \<Rightarrow> (False, db)
      | Some st \<Rightarrow>
          (case try_reconcile am (repo_docs db (canonical_doc st)) st of
             ((ok, _), d, st') \<Rightarrow>
               (ok, db\<lparr>repo_docs := (repo_docs db)(canonical_doc st := d),
                       branch_sync_states := hm_insert branch st' (branch_sync_states db)\<rparr>)))"

section \<open>Ingestion\<close>

definition handle_status :: "'d option option \<Rightarrow> binary_doc_status" where
  "handle_status entry =
     (case entry of None \<Rightarrow> Pending | Some None \<Rightarrow> Failed | Some (Some _) \<Rightarrow> DocOk)"

text \<open>The loop over the branches: it ends at the first reconciliation that fails.\<close>

fun ingest_into ::
  "('doc, 'h::linorder) crdt \<Rightarrow> 'd \<Rightarrow> 'd option \<Rightarrow> 'd list \<Rightarrow> ('d, 'doc, 'h) branch_states \<Rightarrow>
   bool \<times> ('d, 'doc, 'h) branch_states" where
  "ingest_into am i handle [] db = (True, db)"
| "ingest_into am i handle (branch # branches) db =
     (case hm_get (branch_sync_states db) branch of
        None \<Rightarrow> ingest_into am i handle branches db
      | Some st \<Rightarrow>
          if hm_contains (canonical_binary_docs st) i
          then (case try_reconcile_branch am branch (db\<lparr>branch_sync_states :=
                    hm_insert branch (st\<lparr>canonical_binary_docs :=
                      hm_insert i (handle_status (Some handle)) (canonical_binary_docs st)\<rparr>)
                      (branch_sync_states db)\<rparr>) of
                  (ok, db) \<Rightarrow> if ok then ingest_into am i handle branches db else (False, db))
          else ingest_into am i handle branches db)"

definition ingest_binary_doc ::
  "('doc, 'h::linorder) crdt \<Rightarrow> 'd \<Rightarrow> 'd option \<Rightarrow> ('d, 'doc, 'h) branch_states \<Rightarrow>
   bool \<times> ('d, 'doc, 'h) branch_states" where
  "ingest_binary_doc am i handle db =
     ingest_into am i handle (hm_keys (branch_sync_states db))
       (db\<lparr>binary_states := hm_insert i handle (binary_states db)\<rparr>)"

definition update_branch_sync_state ::
  "('doc, 'h::linorder) crdt \<Rightarrow> 'd \<Rightarrow> 'h list \<Rightarrow> 'd list \<Rightarrow> ('d, 'doc, 'h) branch_states \<Rightarrow>
   bool \<times> ('d, 'doc, 'h) branch_states" where
  "update_branch_sync_state am handle heads linked_docs db =
     (let st = (case hm_get (branch_sync_states db) handle of
                  None \<Rightarrow> branch_sync_state_new handle | Some st \<Rightarrow> st);
          st = st\<lparr>canonical_binary_docs :=
                    hm_collect (map (\<lambda>i. (i, handle_status (hm_get (binary_states db) i))) linked_docs),
                  last_tracked := heads\<rparr>;
          db = db\<lparr>branch_sync_states := hm_insert handle st (branch_sync_states db)\<rparr>
      in if resolved_all_canonical_binary_docs (canonical_binary_docs st)
         then try_reconcile_branch am handle db
         else (True, db))"

lemma handle_status_eq:
  "handle_status e = Failed \<longleftrightarrow> e = Some None" "handle_status e = Pending \<longleftrightarrow> e = None"
  by (auto simp: handle_status_def split: option.splits)

section \<open>What a reconciliation does\<close>

lemma crdt_fork: "crdt_laws am changes \<Longrightarrow> changes (am_fork am d) = changes d"
  by (simp add: crdt_laws_def)

lemma crdt_merge:
  "crdt_laws am changes \<Longrightarrow> am_merge am d e = (True, d') \<Longrightarrow> changes d' = changes d \<union> changes e"
  by (simp add: crdt_laws_def)

lemma crdt_merge_grows:
  "crdt_laws am changes \<Longrightarrow> am_merge am d e = (ok, d') \<Longrightarrow> changes d \<subseteq> changes d'"
  by (cases ok) (simp_all add: crdt_laws_def)

lemma crdt_heads:
  "crdt_laws am changes \<Longrightarrow> changes d = changes e \<longleftrightarrow> set (am_heads am d) = set (am_heads am e)"
  by (simp add: crdt_laws_def)

lemma crdt_heads_distinct: "crdt_laws am changes \<Longrightarrow> distinct (am_heads am d)"
  by (simp add: crdt_laws_def)

lemma are_heads_equivalent_iff:
  "distinct a \<Longrightarrow> distinct b \<Longrightarrow> are_heads_equivalent a b \<longleftrightarrow> set a = set b"
  unfolding are_heads_equivalent_def
  by (metis distinct_sort set_sort sorted_distinct_set_unique sorted_sort)

lemma are_heads_equivalent_refl [simp]: "are_heads_equivalent a a"
  by (simp add: are_heads_equivalent_def)

lemma try_reconcile_keeps:
  assumes "try_reconcile am d st = (r, d', st')"
  shows "canonical_binary_docs st' = canonical_binary_docs st \<and> canonical_doc st' = canonical_doc st \<and>
    (shadow_doc_init st' \<longrightarrow> shadow_doc st' \<noteq> None \<or> shadow_doc_init st \<and> shadow_doc st = None)"
  using assms
  by (auto simp: try_reconcile_def Let_def split: if_splits prod.splits option.splits)

definition shadow_changes :: "('doc \<Rightarrow> 'c set) \<Rightarrow> ('d, 'doc, 'h) branch_sync_state \<Rightarrow> 'c set" where
  "shadow_changes changes st = (case shadow_doc st of None \<Rightarrow> {} | Some s \<Rightarrow> changes s)"

lemma try_reconcile_merges:
  assumes laws: "crdt_laws am changes" and run: "try_reconcile am d st = ((True, True), d', st')"
  shows "\<exists>s. shadow_doc st' = Some s \<and> changes s = changes d \<union> shadow_changes changes st \<and>
    changes d' = changes s \<and> last_reconciled st' = am_heads am d' \<and> last_tracked st' = am_heads am d' \<and>
    shadow_doc_init st' \<and> resolved_all_canonical_binary_docs (canonical_binary_docs st')"
proof -
  define shadow where "shadow = (case shadow_doc st of None \<Rightarrow> am_fork am d | Some shadow \<Rightarrow> shadow)"
  have start: "changes shadow \<union> changes d = changes d \<union> shadow_changes changes st"
    by (auto simp: shadow_def shadow_changes_def crdt_fork [OF laws] split: option.splits)
  obtain ok1 s where m1: "am_merge am shadow d = (ok1, s)" by fastforce
  obtain ok2 e where m2: "am_merge am d s = (ok2, e)" by fastforce
  from run m1 m2 have ok: "ok1" "ok2" and d': "d' = e"
    and st': "st' = st\<lparr>shadow_doc := Some s, last_reconciled := am_heads am e,
        last_tracked := am_heads am e, shadow_doc_init := True\<rparr>"
    and res: "resolved_all_canonical_binary_docs (canonical_binary_docs st)"
    unfolding try_reconcile_def shadow_def [symmetric] Let_def
    by (auto split: if_splits)
  have "changes s = changes shadow \<union> changes d" using crdt_merge [OF laws] m1 ok by simp
  moreover have "changes e = changes d \<union> changes s" using crdt_merge [OF laws] m2 ok by simp
  ultimately show ?thesis using start res by (auto simp: st' d')
qed

lemma try_reconcile_grows:
  assumes laws: "crdt_laws am changes" and run: "try_reconcile am d st = (r, d', st')"
  shows "changes d \<subseteq> changes d' \<and> shadow_changes changes st \<subseteq> shadow_changes changes st'"
  using run
  by (auto simp: try_reconcile_def shadow_changes_def Let_def
      split: if_splits prod.splits option.splits dest: crdt_merge_grows [OF laws, THEN subsetD])

text \<open>Once reconciled, a branch stays as it is until one of its documents changes.\<close>

lemma try_reconcile_again:
  assumes laws: "crdt_laws am changes" and run: "try_reconcile am d st = ((True, True), d', st')"
  shows "try_reconcile am d'' st' = ((True, False), d'', st')"
proof -
  from try_reconcile_merges [OF laws run] obtain s where s: "shadow_doc st' = Some s"
    "changes d' = changes s" "last_reconciled st' = am_heads am d'" "last_tracked st' = am_heads am d'" by blast
  have "set (am_heads am d') = set (am_heads am s)" using crdt_heads [OF laws] s(2) by blast
  then have "are_heads_equivalent (am_heads am d') (am_heads am s)"
    by (simp add: are_heads_equivalent_iff crdt_heads_distinct [OF laws])
  with s show ?thesis by (simp add: try_reconcile_def)
qed

section \<open>The binary documents of a branch\<close>

text \<open>The status of a linked document agrees with the table of binary documents, except possibly that
  of \<open>i\<close> in the branches \<open>bs\<close>.\<close>

definition branch_ok ::
  "'d set \<Rightarrow> 'd \<Rightarrow> ('d, 'd option) hmap \<Rightarrow> 'd \<Rightarrow> ('d, 'doc, 'h) branch_sync_state \<Rightarrow> bool" where
  "branch_ok bs i binaries b st \<longleftrightarrow>
     canonical_doc st = b \<and> (shadow_doc_init st \<longrightarrow> shadow_doc st \<noteq> None) \<and>
     hm_wf (canonical_binary_docs st) \<and>
     (\<forall>j v. hm_get (canonical_binary_docs st) j = Some v \<longrightarrow>
        j = i \<and> b \<in> bs \<or> v = handle_status (hm_get binaries j))"

definition states_ok :: "'d set \<Rightarrow> 'd \<Rightarrow> ('d, 'doc, 'h) branch_states \<Rightarrow> bool" where
  "states_ok bs i db \<longleftrightarrow> hm_wf (branch_sync_states db) \<and>
     (\<forall>b st. hm_get (branch_sync_states db) b = Some st \<longrightarrow> branch_ok bs i (binary_states db) b st)"

abbreviation db_inv :: "('d, 'doc, 'h) branch_states \<Rightarrow> bool" where
  "db_inv db \<equiv> states_ok {} undefined db"

lemma states_ok_empty: "states_ok {} i db \<longleftrightarrow> states_ok {} j db"
  by (simp add: states_ok_def branch_ok_def)

lemma states_ok_insert:
  assumes "states_ok (insert b bs) i db" and "branch_ok bs i (binary_states db) b st"
  shows "states_ok bs i (db\<lparr>branch_sync_states := hm_insert b st (branch_sync_states db)\<rparr>)"
  using assms by (auto simp: states_ok_def branch_ok_def hm_get_insert)

lemma states_ok_skip:
  assumes "states_ok (insert b bs) i db"
    and "\<forall>st. hm_get (branch_sync_states db) b = Some st \<longrightarrow> hm_get (canonical_binary_docs st) i = None"
  shows "states_ok bs i db"
  using assms by (fastforce simp: states_ok_def branch_ok_def)

lemma try_reconcile_branch_ok:
  assumes ok: "states_ok bs i db" and run: "try_reconcile_branch am b db = (r, db')"
  shows "states_ok bs i db' \<and> binary_states db' = binary_states db \<and>
    hm_keys (branch_sync_states db') = hm_keys (branch_sync_states db)"
proof (cases "hm_get (branch_sync_states db) b")
  case None
  with assms show ?thesis by (simp add: try_reconcile_branch_def)
next
  case (Some st)
  obtain r' d st' where t: "try_reconcile am (repo_docs db (canonical_doc st)) st = (r', d, st')"
    by (cases "try_reconcile am (repo_docs db (canonical_doc st)) st")
  note keeps = try_reconcile_keeps [OF t]
  have "branch_ok bs i (binary_states db) b st" using ok Some unfolding states_ok_def by blast
  then have "branch_ok bs i (binary_states db) b st'" using keeps unfolding branch_ok_def by auto
  moreover have db': "db' = db\<lparr>repo_docs := (repo_docs db)(canonical_doc st := d),
      branch_sync_states := hm_insert b st' (branch_sync_states db)\<rparr>" and r: "r = fst r'"
    using run Some t by (simp_all add: try_reconcile_branch_def case_prod_unfold)
  ultimately have "states_ok bs i db'"
    using ok by (simp add: states_ok_def hm_get_insert)
  moreover have "b \<in> set (hm_keys (branch_sync_states db))" using Some by (metis hm_get_None_iff option.discI)
  then have "hm_keys (branch_sync_states db') = hm_keys (branch_sync_states db)"
    by (simp add: db' update_keys)
  ultimately show ?thesis using keeps by (simp add: db' r)
qed

lemma ingest_into_ok:
  assumes "states_ok (set bs) i db" and "handle_status (Some handle) = handle_status (hm_get (binary_states db) i)"
    and "ingest_into am i handle bs db = (True, db')"
  shows "states_ok {} i db' \<and> binary_states db' = binary_states db \<and>
    hm_keys (branch_sync_states db') = hm_keys (branch_sync_states db)"
  using assms
proof (induction bs arbitrary: db)
  case (Cons b bs)
  show ?case
  proof (cases "\<exists>st. hm_get (branch_sync_states db) b = Some st \<and> hm_contains (canonical_binary_docs st) i")
    case True
    then obtain st where st: "hm_get (branch_sync_states db) b = Some st"
      and i: "hm_contains (canonical_binary_docs st) i" by blast
    let ?st = "st\<lparr>canonical_binary_docs :=
      hm_insert i (handle_status (Some handle)) (canonical_binary_docs st)\<rparr>"
    let ?db = "db\<lparr>branch_sync_states := hm_insert b ?st (branch_sync_states db)\<rparr>"
    obtain ok db1 where rec: "try_reconcile_branch am b ?db = (ok, db1)" by fastforce
    have "branch_ok (set bs) i (binary_states db) b ?st"
      using Cons.prems(1,2) st by (auto simp: states_ok_def branch_ok_def hm_get_insert)
    then have "states_ok (set bs) i ?db" using Cons.prems(1) states_ok_insert by fastforce
    from try_reconcile_branch_ok [OF this rec]
    have one: "states_ok (set bs) i db1" "binary_states db1 = binary_states db"
      "hm_keys (branch_sync_states db1) = hm_keys (branch_sync_states ?db)"
      by (auto simp: hm_get_insert)
    have "b \<in> set (hm_keys (branch_sync_states db))" using st by (metis hm_get_None_iff option.discI)
    then have "hm_keys (branch_sync_states ?db) = hm_keys (branch_sync_states db)" by (simp add: update_keys)
    moreover have "ingest_into am i handle bs db1 = (True, db')"
      using Cons.prems(3) st i rec by (simp split: if_splits)
    ultimately show ?thesis using Cons.IH [of db1] Cons.prems(2) one by simp
  next
    case False
    then have "states_ok (set bs) i db"
      using Cons.prems(1) states_ok_skip [of b "set bs" i db] by (auto simp: hm_contains_def)
    moreover have "ingest_into am i handle bs db = (True, db')"
      using Cons.prems(3) False by (auto split: option.splits)
    ultimately show ?thesis using Cons.IH Cons.prems(2) by blast
  qed
qed simp

lemma states_ok_binary:
  assumes "states_ok {} i db"
  shows "states_ok (set (hm_keys (branch_sync_states db))) i
    (db\<lparr>binary_states := hm_insert i handle (binary_states db)\<rparr>)"
proof -
  have "branch_ok (set (hm_keys (branch_sync_states db))) i (hm_insert i handle (binary_states db)) b st"
    if st: "hm_get (branch_sync_states db) b = Some st" for b st
  proof -
    have "branch_ok {} i (binary_states db) b st" using assms st unfolding states_ok_def by blast
    moreover have "b \<in> set (hm_keys (branch_sync_states db))" using st by (metis hm_get_None_iff option.discI)
    ultimately show ?thesis unfolding branch_ok_def by (simp only: hm_get_insert) auto
  qed
  with assms show ?thesis unfolding states_ok_def by simp
qed

lemma ingest_binary_doc_ok:
  assumes "states_ok {} i db" and "ingest_binary_doc am i handle db = (True, db')"
  shows "states_ok {} i db' \<and> binary_states db' = hm_insert i handle (binary_states db) \<and>
    hm_keys (branch_sync_states db') = hm_keys (branch_sync_states db)"
proof -
  let ?db = "db\<lparr>binary_states := hm_insert i handle (binary_states db)\<rparr>"
  have run: "ingest_into am i handle (hm_keys (branch_sync_states db)) ?db = (True, db')"
    using assms(2) by (simp only: ingest_binary_doc_def)
  have "handle_status (Some handle) = handle_status (hm_get (binary_states ?db) i)"
    by (simp add: hm_get_insert)
  from ingest_into_ok [OF states_ok_binary [OF assms(1)] this run] show ?thesis
    by (elim conjE) (intro conjI; simp)
qed

lemma linked_docs_status:
  "hm_get (hm_collect (map (\<lambda>i. (i, f i)) xs)) j = (if j \<in> set xs then Some (f j) else None)"
proof -
  have "hm_get (map (\<lambda>i. (i, f i)) (rev xs)) j = (if j \<in> set xs then Some (f j) else None)"
    by (simp only: map_of_map_restrict restrict_map_def set_rev) simp
  then show ?thesis by (simp add: hm_get_collect rev_map)
qed

lemma update_branch_ok:
  assumes "states_ok {} i db" and "update_branch_sync_state am handle heads linked db = (r, db')"
  shows "states_ok {} i db' \<and> binary_states db' = binary_states db"
proof -
  let ?old = "case hm_get (branch_sync_states db) handle of
    None \<Rightarrow> branch_sync_state_new handle | Some st \<Rightarrow> st"
  let ?st = "?old\<lparr>canonical_binary_docs :=
      hm_collect (map (\<lambda>i. (i, handle_status (hm_get (binary_states db) i))) linked),
    last_tracked := heads\<rparr>"
  let ?db = "db\<lparr>branch_sync_states := hm_insert handle ?st (branch_sync_states db)\<rparr>"
  have "branch_ok {} i (binary_states db) handle ?st"
    using assms(1)
    by (auto simp: branch_ok_def states_ok_def branch_sync_state_new_def linked_docs_status
        split: option.splits if_splits)
  then have ok: "states_ok {} i ?db"
    using assms(1) by (simp add: states_ok_def hm_get_insert)
  show ?thesis
  proof (cases "resolved_all_canonical_binary_docs (canonical_binary_docs ?st)")
    case True
    then have "try_reconcile_branch am handle ?db = (r, db')"
      using assms(2) by (simp add: update_branch_sync_state_def Let_def)
    from try_reconcile_branch_ok [OF ok this] show ?thesis by (simp add: hm_get_insert)
  next
    case False
    then have "(r, db') = (True, ?db)"
      using assms(2) by (simp add: update_branch_sync_state_def Let_def)
    with ok show ?thesis by simp
  qed
qed

section \<open>Runs\<close>

text \<open>
  The steps of the database in which no merge failed. Other tasks commit to a shadow document, other
  peers change a document of the repository; which document it becomes is left open.
\<close>

inductive db_step ::
  "('doc, 'h::linorder) crdt \<Rightarrow> ('d, 'doc, 'h) branch_states \<Rightarrow> ('d, 'doc, 'h) branch_states \<Rightarrow> bool"
  for am :: "('doc, 'h) crdt" where
  ingest: "ingest_binary_doc am i handle db = (True, db') \<Longrightarrow> db_step am db db'"
| update: "update_branch_sync_state am handle heads linked db = (True, db') \<Longrightarrow> db_step am db db'"
| reconcile: "try_reconcile_branch am b db = (True, db') \<Longrightarrow> db_step am db db'"
| clear: "db_step am db (clear_branch_states db)"
| remote: "db_step am db (db\<lparr>repo_docs := (repo_docs db)(i := d)\<rparr>)"
| commit: "hm_get (branch_sync_states db) b = Some st \<Longrightarrow> shadow_doc st = Some s \<Longrightarrow>
    db_step am db (db\<lparr>branch_sync_states :=
      hm_insert b (st\<lparr>shadow_doc := Some s'\<rparr>) (branch_sync_states db)\<rparr>)"

inductive_cases db_step_E: "db_step am db db'"

definition db_init :: "('d, 'doc, 'h) branch_states \<Rightarrow> bool" where
  "db_init db \<longleftrightarrow> binary_states db = [] \<and> branch_sync_states db = []"

lemma db_step_inv:
  assumes inv: "db_inv db" and step: "db_step am db db'"
  shows "db_inv db'"
  using step
proof cases
  case (ingest i handle)
  from ingest_binary_doc_ok [OF states_ok_empty [THEN iffD1, OF inv] ingest] have "states_ok {} i db'" by simp
  then show ?thesis by (rule states_ok_empty [THEN iffD1])
next
  case (update handle heads linked)
  from update_branch_ok [OF inv update] show ?thesis by simp
next
  case (reconcile b)
  from try_reconcile_branch_ok [OF inv reconcile] show ?thesis by simp
next
  case clear
  then show ?thesis by (simp add: states_ok_def clear_branch_states_def)
next
  case (remote i d)
  with inv show ?thesis by (simp add: states_ok_def)
next
  case (commit b st s s')
  then have "branch_ok {} undefined (binary_states db) b st" using inv unfolding states_ok_def by blast
  then have "branch_ok {} undefined (binary_states db) b (st\<lparr>shadow_doc := Some s'\<rparr>)"
    by (simp add: branch_ok_def)
  with commit(1) inv show ?thesis by (simp add: states_ok_def hm_get_insert)
qed

interpretation branch_runs: step_system db_init "db_step am" db_inv for am
  by unfold_locales (simp add: db_init_def states_ok_def, rule db_step_inv)

section \<open>Properties\<close>

text \<open>C17: a reconciliation that goes through makes the shadow and the canonical document hold the same
  changes, those of both before, and records the new heads, so that doing it again does nothing
  until a document changes. It is not tried while a linked document is awaited. In no case, errors
  included, does either document lose a change.\<close>

theorem reconcile_converges:
  assumes "crdt_laws am changes" and "try_reconcile am d st = ((ok, notified), d', st')"
  shows "(notified \<longrightarrow> ok \<and> resolved_all_canonical_binary_docs (canonical_binary_docs st) \<and>
      (\<exists>s. shadow_doc st' = Some s \<and> changes s = changes d' \<and>
        changes d' = changes d \<union> shadow_changes changes st) \<and>
      last_reconciled st' = am_heads am d' \<and> last_tracked st' = am_heads am d' \<and>
      (\<forall>e. try_reconcile am e st' = ((True, False), e, st'))) \<and>
    (ok \<and> \<not> notified \<longrightarrow> d' = d \<and> st' = st) \<and>
    changes d \<subseteq> changes d' \<and> shadow_changes changes st \<subseteq> shadow_changes changes st'"
proof -
  have "ok" "resolved_all_canonical_binary_docs (canonical_binary_docs st)" if "notified"
    using assms(2) that by (auto simp: try_reconcile_def Let_def split: if_splits prod.splits)
  moreover have "d' = d \<and> st' = st" if "ok" "\<not> notified"
    using assms(2) that by (auto simp: try_reconcile_def Let_def split: if_splits prod.splits)
  moreover have "\<exists>s. shadow_doc st' = Some s \<and> changes s = changes d' \<and>
        changes d' = changes d \<union> shadow_changes changes st \<and>
      last_reconciled st' = am_heads am d' \<and> last_tracked st' = am_heads am d'" if "notified"
    using try_reconcile_merges [OF assms(1)] assms(2) that calculation(1) by fastforce
  moreover have "try_reconcile am e st' = ((True, False), e, st')" if "notified" for e
    using try_reconcile_again [OF assms(1)] assms(2) that calculation(1) by simp
  ultimately show ?thesis using try_reconcile_grows [OF assms] by blast
qed

text \<open>Documents as lists of changes without a causal order, for the witnesses; merges fail with \<open>bad\<close>.\<close>

definition demo_crdt :: "nat \<Rightarrow> (nat list, nat) crdt" where
  "demo_crdt bad = \<lparr>am_heads = remdups, am_fork = id,
     am_merge = (\<lambda>d e. (bad \<notin> set e, d @ filter (\<lambda>c. c \<notin> set d) e))\<rparr>"

lemma demo_crdt_laws: "crdt_laws (demo_crdt bad) set"
  by (auto simp: crdt_laws_def demo_crdt_def)

definition demo_sync_state :: "(nat, nat list, nat) branch_sync_state" where
  "demo_sync_state = (branch_sync_state_new 7)\<lparr>shadow_doc := Some [1, 2], last_tracked := [3]\<rparr>"

theorem reconcile_converges_witness:
  "set (fst (snd (try_reconcile (demo_crdt 9) [1, 3] demo_sync_state))) = {1, 2, 3}"
proof -
  obtain d' st' where run: "try_reconcile (demo_crdt 9) [1, 3] demo_sync_state = ((True, True), d', st')"
    by (simp add: try_reconcile_def demo_crdt_def demo_sync_state_def branch_sync_state_new_def
        resolved_all_canonical_binary_docs_def are_heads_equivalent_def)
  from reconcile_converges [OF demo_crdt_laws run] run show ?thesis
    by (auto simp: shadow_changes_def demo_sync_state_def)
qed

text \<open>C18: in every run without a failed merge, the status of a branch is exact: it is healthy when every
  linked document was found, missing one when some linked document could not be fetched, and
  pending when some was not looked up yet and none failed.\<close>

theorem branch_status_exact:
  assumes "reachable db_init (db_step am) db" and "hm_get (branch_sync_states db) b = Some st"
  shows "canonical_branch_status b db =
    (if \<exists>i\<in>set (hm_keys (canonical_binary_docs st)). hm_get (binary_states db) i = Some None
     then BinaryDocNotFound
     else if \<forall>i\<in>set (hm_keys (canonical_binary_docs st)). has_binary_doc i db then Healthy
     else CPending)"
proof -
  have "branch_ok {} undefined (binary_states db) b st"
    using branch_runs.inv_reachable [OF assms(1)] assms(2) unfolding states_ok_def by blast
  then have wf: "hm_wf (canonical_binary_docs st)"
    and status: "\<And>j v. hm_get (canonical_binary_docs st) j = Some v \<Longrightarrow> v = handle_status (hm_get (binary_states db) j)"
    unfolding branch_ok_def by blast+
  have some: "(\<exists>v\<in>snd ` set (canonical_binary_docs st). v = w) \<longleftrightarrow>
      (\<exists>i\<in>set (hm_keys (canonical_binary_docs st)). handle_status (hm_get (binary_states db) i) = w)" for w
  proof
    assume "\<exists>v\<in>snd ` set (canonical_binary_docs st). v = w"
    then obtain j where j: "(j, w) \<in> set (canonical_binary_docs st)" by auto
    then have "w = handle_status (hm_get (binary_states db) j)"
      using status hm_get_eq_Some_iff [OF wf] by blast
    moreover have "j \<in> set (hm_keys (canonical_binary_docs st))" using j by force
    ultimately show "\<exists>i\<in>set (hm_keys (canonical_binary_docs st)). handle_status (hm_get (binary_states db) i) = w"
      by blast
  next
    assume "\<exists>i\<in>set (hm_keys (canonical_binary_docs st)). handle_status (hm_get (binary_states db) i) = w"
    then obtain i v where "handle_status (hm_get (binary_states db) i) = w"
        "hm_get (canonical_binary_docs st) i = Some v"
      by (metis hm_get_None_iff not_None_eq)
    then have "(i, w) \<in> set (canonical_binary_docs st)" using status by (metis map_of_SomeD)
    then show "\<exists>v\<in>snd ` set (canonical_binary_docs st). v = w" by force
  qed
  have "canonical_branch_status b db =
      (if \<exists>v\<in>snd ` set (canonical_binary_docs st). v = Failed then BinaryDocNotFound
       else if \<exists>v\<in>snd ` set (canonical_binary_docs st). v = Pending then CPending
       else Healthy)"
    by (simp only: canonical_branch_status_def assms(2) option.case)
  then show ?thesis
    unfolding some handle_status_eq has_binary_doc_def hm_contains_def by auto
qed

definition demo_db :: "(nat, nat list, nat) branch_states" where
  "demo_db = \<lparr>repo_docs = (\<lambda>_. [1]), binary_states = [], branch_sync_states = []\<rparr>"

theorem branch_status_exact_witness:
  "canonical_branch_status 7 (snd (update_branch_sync_state (demo_crdt 9) 7 [1] [8, 5] demo_db)) = CPending"
proof -
  let ?db = "snd (update_branch_sync_state (demo_crdt 9) 7 [1] [8, 5] demo_db)"
  have run: "update_branch_sync_state (demo_crdt 9) 7 [1] [8, 5] demo_db = (True, ?db)"
  proof (rule prod_eqI)
    show "fst (update_branch_sync_state (demo_crdt 9) 7 [1] [8, 5] demo_db) = fst (True, ?db)"
      by (simp add: update_branch_sync_state_def demo_db_def branch_sync_state_new_def handle_status_def
          hm_collect_def resolved_all_canonical_binary_docs_def)
  qed simp
  have start: "reachable db_init (db_step (demo_crdt 9)) demo_db"
    by (rule reachable_init) (simp add: db_init_def demo_db_def)
  have reach: "reachable db_init (db_step (demo_crdt 9)) ?db"
    by (rule reachable_step [OF start]) (rule db_step.update [OF run])
  obtain st where st: "hm_get (branch_sync_states ?db) 7 = Some st"
      "hm_keys (canonical_binary_docs st) = [8, 5]" "binary_states ?db = []"
    by (simp add: update_branch_sync_state_def demo_db_def branch_sync_state_new_def handle_status_def
        hm_collect_def resolved_all_canonical_binary_docs_def)
  from branch_status_exact [OF reach st(1)] show ?thesis
    unfolding st(2,3) has_binary_doc_def hm_contains_def by auto
qed

text \<open>When the reconciliation of one branch fails while a binary document is ingested, the branches
  after it are not told: the document counts as looked up, and they go on waiting for it.\<close>

theorem ingest_error_keeps_waiting:
  assumes "branch_sync_states db = (b, st) # rest" and "hm_contains (canonical_binary_docs st) i"
    and "try_reconcile am (repo_docs db (canonical_doc st)) (st\<lparr>canonical_binary_docs :=
      hm_insert i (handle_status (Some handle)) (canonical_binary_docs st)\<rparr>) = ((False, n), d, st')"
    and "hm_get rest c = Some sc" and "b \<noteq> c"
    and "hm_get (canonical_binary_docs sc) i = Some Pending" and "Failed \<notin> snd ` set (canonical_binary_docs sc)"
    and "ingest_binary_doc am i handle db = (r, db')"
  shows "\<not> r \<and> has_binary_doc i db' \<and> canonical_branch_status c db' = CPending"
proof -
  have pend: "\<exists>v\<in>snd ` set (canonical_binary_docs sc). v = Pending"
    using map_of_SomeD [OF assms(6)] by force
  have "\<not> r" "binary_states db' = hm_insert i handle (binary_states db)"
    "hm_get (branch_sync_states db') c = Some sc"
    using assms(1,2,3,4,5,8)
    by (auto simp: ingest_binary_doc_def try_reconcile_branch_def hm_get_insert)
  then show ?thesis
    using pend assms(7)
    by (auto simp: canonical_branch_status_def has_binary_doc_def hm_contains_def hm_get_insert)
qed

definition demo_waiting :: "nat \<Rightarrow> (nat, nat list, nat) branch_sync_state" where
  "demo_waiting b = (branch_sync_state_new b)\<lparr>last_tracked := [1], canonical_binary_docs := [(8, Pending)]\<rparr>"

definition demo_two :: "(nat, nat list, nat) branch_states" where
  "demo_two = \<lparr>repo_docs = (\<lambda>b. if b = 6 then [1, 9] else [1]), binary_states = [],
     branch_sync_states = [(6, demo_waiting 6), (7, demo_waiting 7)]\<rparr>"

theorem ingest_error_keeps_waiting_witness:
  "canonical_branch_status 7 (snd (ingest_binary_doc (demo_crdt 9) 8 (Some 8) demo_two)) = CPending"
proof -
  have "\<exists>d st'. try_reconcile (demo_crdt 9) (repo_docs demo_two (canonical_doc (demo_waiting 6)))
      ((demo_waiting 6)\<lparr>canonical_binary_docs := hm_insert 8 (handle_status (Some (Some (8::nat))))
        (canonical_binary_docs (demo_waiting 6))\<rparr>) = ((False, False), d, st')"
    by (simp add: try_reconcile_def demo_crdt_def demo_two_def demo_waiting_def branch_sync_state_new_def
        resolved_all_canonical_binary_docs_def are_heads_equivalent_def handle_status_def Let_def)
  then obtain d st' where bad: "try_reconcile (demo_crdt 9) (repo_docs demo_two (canonical_doc (demo_waiting 6)))
      ((demo_waiting 6)\<lparr>canonical_binary_docs := hm_insert 8 (handle_status (Some (Some (8::nat))))
        (canonical_binary_docs (demo_waiting 6))\<rparr>) = ((False, False), d, st')" by blast
  have two: "branch_sync_states demo_two = (6, demo_waiting 6) # [(7, demo_waiting 7)]"
    by (simp add: demo_two_def)
  obtain r db' where run: "ingest_binary_doc (demo_crdt 9) 8 (Some 8) demo_two = (r, db')" by fastforce
  have "canonical_branch_status 7 db' = CPending"
    using ingest_error_keeps_waiting [OF two _ bad, where c = 7, OF _ _ _ _ _ run]
    by (simp add: demo_waiting_def hm_contains_def)
  with run show ?thesis by simp
qed

end
