(* ===== verification/Project_Paths.thy ===== *)
theory Project_Paths imports Rust_Strings begin

text \<open>
  The path functions of \<open>project/branch_db/util.rs\<close>: between paths of the file system and the
  \<open>res://\<close> paths of documents, and which paths are ignored. The functions of \<open>std::path\<close> that the
  code uses are those of Unix. The library ignore's answer for a path is the argument \<open>gitignore\<close>.
\<close>

section \<open>Paths\<close>

definition sep :: char where "sep = CHR ''/''"

text \<open>\<open>Path::components\<close>: the root, then the names without empty ones and dots; a dot that leads a
  relative path stays.\<close>

definition path_components :: "string \<Rightarrow> string list" where
  "path_components s =
     (if starts_with s [sep] then [[sep]] else if hd (split_on sep s) = ''.'' then [''.''] else []) @
     filter (\<lambda>c. c \<noteq> [] \<and> c \<noteq> ''.'') (split_on sep s)"

definition path_starts_with :: "string \<Rightarrow> string \<Rightarrow> bool" where
  "path_starts_with path base \<longleftrightarrow>
     take (length (path_components base)) (path_components path) = path_components base"

definition path_join :: "string \<Rightarrow> string \<Rightarrow> string" where
  "path_join base p =
     (if starts_with p [sep] then p
      else if base = [] \<or> last base = sep then base @ p else base @ [sep] @ p)"

definition slashes :: "string \<Rightarrow> string" where
  "slashes = map (\<lambda>c. if c = CHR 0x5C then sep else c)"

definition res_prefix :: string where "res_prefix = ''res://''"

section \<open>Operations\<close>

definition localize_path :: "string \<Rightarrow> string \<Rightarrow> string" where
  "localize_path project_dir path =
     (let path = slashes path; project_dir = slashes project_dir
      in if starts_with path project_dir then path_join res_prefix (drop (length project_dir) path)
         else path)"

definition globalize_path :: "string \<Rightarrow> string \<Rightarrow> string" where
  "globalize_path project_dir path =
     (case strip_prefix path res_prefix of
        Some path \<Rightarrow> path_join project_dir path
      | None \<Rightarrow> path)"

definition should_ignore :: "string \<Rightarrow> (string \<Rightarrow> bool \<Rightarrow> bool) \<Rightarrow> string \<Rightarrow> bool \<Rightarrow> bool" where
  "should_ignore project_dir gitignore path is_dir \<longleftrightarrow>
     (if \<not> path_starts_with path project_dir then True
      else if is_dir \<and> path_components path = path_components project_dir then False
      else gitignore path is_dir)"

section \<open>Lemmas\<close>

definition unix_text :: "string \<Rightarrow> bool" where
  "unix_text s \<longleftrightarrow> CHR 0x5C \<notin> set s"

lemma slashes_unix: "unix_text s \<Longrightarrow> slashes s = s"
  by (induction s) (auto simp: slashes_def unix_text_def)

text \<open>The directory of a project as Godot gives it, and a path below it.\<close>

definition project_dir_ok :: "string \<Rightarrow> bool" where
  "project_dir_ok d \<longleftrightarrow> unix_text d \<and> d \<noteq> [] \<and> last d = sep"

definition relative_ok :: "string \<Rightarrow> bool" where
  "relative_ok p \<longleftrightarrow> unix_text p \<and> \<not> starts_with p [sep]"

lemma res_prefix_last: "last res_prefix = sep"
  by (simp add: res_prefix_def sep_def)

lemma localize_below:
  assumes "project_dir_ok d" and "relative_ok p"
  shows "localize_path d (d @ p) = res_prefix @ p"
proof -
  have "unix_text (d @ p)" using assms by (auto simp: project_dir_ok_def relative_ok_def unix_text_def)
  then show ?thesis
    using assms by (auto simp: localize_path_def slashes_unix project_dir_ok_def relative_ok_def
        path_join_def res_prefix_last)
qed

lemma globalize_res:
  assumes "project_dir_ok d" and "relative_ok p"
  shows "globalize_path d (res_prefix @ p) = d @ p"
  using assms by (simp add: globalize_path_def project_dir_ok_def relative_ok_def path_join_def)

lemma localize_inj_on: "inj_on (localize_path d) {d @ p |p. relative_ok p}" if "project_dir_ok d"
  by (rule inj_onI) (auto simp: localize_below [OF that])

text \<open>Of a project directory without a slash at its end, \<open>PathBuf::join\<close> replaces the prefix \<open>res://\<close> by
  the absolute rest of the path.\<close>

lemma localize_no_slash:
  assumes "unix_text (d @ p)" and "starts_with p [sep]"
  shows "localize_path d (d @ p) = p"
  using assms by (auto simp: localize_path_def slashes_unix unix_text_def path_join_def)

section \<open>Properties\<close>

text \<open>With a project directory that ends in a slash, as Godot gives it, the paths of the files below it
  and their \<open>res://\<close> paths correspond one to one: converting there and back gives the path, in both
  directions.\<close>

theorem localize_globalize_roundtrip:
  assumes "project_dir_ok d" and "relative_ok p"
  shows "globalize_path d (localize_path d (d @ p)) = d @ p \<and>
    localize_path d (globalize_path d (res_prefix @ p)) = res_prefix @ p"
  using localize_below [OF assms] globalize_res [OF assms] by simp

theorem localize_globalize_roundtrip_witness:
  "globalize_path ''/p/'' (localize_path ''/p/'' ''/p/a.tscn'') = ''/p/a.tscn''"
  using localize_globalize_roundtrip [of "''/p/''" "''a.tscn''"]
  by (simp add: project_dir_ok_def relative_ok_def unix_text_def sep_def starts_with_def)

end
