(* ===== verification/Doc_Index.thy ===== *)
theory Doc_Index imports Doc_Files Branch_Sync File_Index Project_Paths begin

text \<open>
  \<open>project/branch_db/file.rs\<close> and the document access of \<open>project/branch_db/util.rs\<close>: the hashes and the
  contents of the files of a branch at a history reference, and the changes between two references.

  A document has views (\<open>Doc_Files\<close>): one at any heads, and the current one, on which a transaction
  works. Committing a transaction gives a new document. These are the operations \<open>am_doc\<close>.
\<close>

record ('doc, 'h, 'v, 'm) am_doc =
  ad_new :: 'doc
  ad_at :: "'doc \<Rightarrow> 'h list \<Rightarrow> 'v"
  ad_current :: "'doc \<Rightarrow> 'v"
  ad_commit :: "'doc \<Rightarrow> 'v \<Rightarrow> 'm \<Rightarrow> 'doc"

datatype ('d, 'h) db_error =
    NoMetadataState
  | NoBranch 'd
  | BadBranchState 'd string
  | BadBranchDocument "('d, 'h) history_ref" string
  | ShadowDocNotInitialized
  | ThreadError
  | RepoStopped
  | AutomergeError
  | HydrateError
  | ReconcileError
  | InvalidRef "('d, 'h) history_ref"
  | NoFilters

text \<open>What the operations of a database need besides its state.\<close>

record ('doc, 'h, 'v, 'o, 'd, 'x) db_env =
  de_io :: "('d, 'h) id_io"
  de_hash :: "string \<Rightarrow> 'x"                 \<comment> \<open>\<open>blake3::hash\<close>\<close>
  de_from_slice :: "string \<Rightarrow> 'x option"
  de_hash_bytes :: "'x \<Rightarrow> string"
  de_am :: "('v, 'o) am_ops"
  de_crdt :: "('doc, 'h) crdt"
  de_doc :: "('doc, 'h, 'v, ('d, 'h) commit_metadata) am_doc"
  de_project_dir :: string
  de_gitignore :: "string \<Rightarrow> bool \<Rightarrow> bool"

section \<open>Shadow documents\<close>

definition with_shadow_document ::
  "'d \<Rightarrow> ('doc \<Rightarrow> 'r \<times> 'doc) \<Rightarrow> ('d, 'doc, 'h) branch_states \<Rightarrow>
   ('d, 'h) db_error + 'r \<times> ('d, 'doc, 'h) branch_states" where
  "with_shadow_document branch f db =
     (case hm_get (branch_sync_states db) branch of
        None \<Rightarrow> Inl (NoBranch branch)
      | Some st \<Rightarrow>
          (case shadow_doc st of
             None \<Rightarrow> Inl ShadowDocNotInitialized
           | Some d \<Rightarrow> (case f d of (r, d) \<Rightarrow>
               Inr (r, db\<lparr>branch_sync_states :=
                 hm_insert branch (st\<lparr>shadow_doc := Some d\<rparr>) (branch_sync_states db)\<rparr>))))"

text \<open>Reading leaves the database as it is.\<close>

definition read_shadow ::
  "'d \<Rightarrow> ('doc \<Rightarrow> 'r) \<Rightarrow> ('d, 'doc, 'h) branch_states \<Rightarrow> ('d, 'h) db_error + 'r" where
  "read_shadow branch f db = rbind (with_shadow_document branch (\<lambda>d. (f d, d)) db) (\<lambda>(r, _). Inr r)"

definition get_latest_ref_on_branch ::
  "('doc, 'h::linorder, 'v, 'o, 'd, 'x) db_env \<Rightarrow> 'd \<Rightarrow> ('d, 'doc, 'h) branch_states \<Rightarrow>
   ('d, 'h) db_error + ('d, 'h) history_ref" where
  "get_latest_ref_on_branch env branch db =
     rbind (read_shadow branch (am_heads (de_crdt env)) db) (\<lambda>heads. Inr (history_ref_new branch heads))"

definition get_latest_canonical_ref_on_branch ::
  "('doc, 'h::linorder, 'v, 'o, 'd, 'x) db_env \<Rightarrow> 'd \<Rightarrow> ('d, 'doc, 'h) branch_states \<Rightarrow>
   ('d, 'h) db_error + ('d, 'h) history_ref" where
  "get_latest_canonical_ref_on_branch env branch db =
     rbind (ok_or (NoBranch branch) (hm_get (branch_sync_states db) branch)) (\<lambda>st.
     Inr (history_ref_new branch (am_heads (de_crdt env) (repo_docs db (canonical_doc st)))))"

text \<open>Results of the inner operations as results of a database operation.\<close>

definition lift_unit :: "'e \<Rightarrow> (unit, 'a) outcome \<Rightarrow> ('e, 'a) outcome" where
  "lift_unit e r = (case r of Inr x \<Rightarrow> Inr x | Inl Panic \<Rightarrow> Inl Panic | Inl Diverges \<Rightarrow> Inl Diverges
     | Inl (Err _) \<Rightarrow> Inl (Err e))"

definition lift_err :: "'e + 'a \<Rightarrow> ('e, 'a) outcome" where
  "lift_err r = (case r of Inr x \<Rightarrow> Inr x | Inl e \<Rightarrow> Inl (Err e))"

section \<open>Hashes\<close>

datatype ('d, 'x) pending_hash = PHash 'x | PLinked 'd

definition file_entries :: "('v, 'o) am_ops \<Rightarrow> 'v \<Rightarrow> 'o \<Rightarrow> (string \<times> 'o) list" where
  "file_entries am v files =
     concat (map (\<lambda>key. case am_get am v files key of
         Inr (Some (VObj _, i)) \<Rightarrow> [(key, i)] | _ \<Rightarrow> []) (am_keys am v files))"

definition pending_hash_of ::
  "('doc, 'h, 'v, 'o, 'd, 'x) db_env \<Rightarrow> 'v \<Rightarrow> string \<times> 'o \<Rightarrow>
   (unit, (string \<times> ('d, 'x) pending_hash \<times> bool) option) outcome" where
  "pending_hash_of env v = (\<lambda>(path, entry_id).
     case stored_hash (de_from_slice env) (de_am env) v entry_id of
       Inr hash \<Rightarrow> Inr (Some (path, PHash hash, False))
     | Inl should_reinsert \<Rightarrow>
         rbind (hydrate_content_at (de_io env) (de_am env) v entry_id path) (\<lambda>r.
         case r of
           Content content \<Rightarrow>
             rbind (to_hash (de_hash env) content) (\<lambda>h. Inr (Some (path, PHash h, should_reinsert)))
         | Linked i \<Rightarrow> Inr (Some (path, PLinked i, should_reinsert))
         | Unreadable \<Rightarrow> Inr None))"

definition get_linked_file ::
  "('doc, 'h, 'v, 'o, 'd, 'x) db_env \<Rightarrow> 'd \<Rightarrow> ('d, 'doc, 'h) branch_states \<Rightarrow> file_content option" where
  "get_linked_file env doc_id db =
     (case hm_get (binary_states db) doc_id of
        Some (Some handle) \<Rightarrow>
          (case am_get (de_am env) (ad_current (de_doc env) (repo_docs db handle)) (am_root (de_am env)) ''content'' of
             Inr (Some (VScalar (SBytes b), _)) \<Rightarrow> Some (CBinary b)
           | Inr (Some (VScalar (SStr s), _)) \<Rightarrow> Some (CString s)
           | _ \<Rightarrow> None)
      | _ \<Rightarrow> None)"

definition ignored_path :: "('doc, 'h, 'v, 'o, 'd, 'x) db_env \<Rightarrow> string \<Rightarrow> bool" where
  "ignored_path env path \<longleftrightarrow>
     should_ignore (de_project_dir env) (de_gitignore env) (globalize_path (de_project_dir env) path) False"

definition resolve_hash ::
  "('doc, 'h, 'v, 'o, 'd, 'x) db_env \<Rightarrow> ('d, 'doc, 'h) branch_states \<Rightarrow>
   string \<times> ('d, 'x) pending_hash \<times> bool \<Rightarrow> (unit, (string \<times> 'x \<times> bool) option) outcome" where
  "resolve_hash env db = (\<lambda>(path, pending, should_reinsert).
     if ignored_path env path then Inr None
     else case pending of
            PHash hash \<Rightarrow> Inr (Some (path, hash, should_reinsert))
          | PLinked i \<Rightarrow>
              (case get_linked_file env i db of
                 None \<Rightarrow> Inr None
               | Some content \<Rightarrow>
                   rbind (to_hash (de_hash env) content) (\<lambda>h. Inr (Some (path, h, should_reinsert)))))"

definition needs_reinsert ::
  "('doc, 'h, 'v, 'o, 'd, 'x) db_env \<Rightarrow> string \<times> ('d, 'x) pending_hash \<times> bool \<Rightarrow> bool" where
  "needs_reinsert env = (\<lambda>(path, _, should_reinsert). \<not> ignored_path env path \<and> should_reinsert)"

definition reinsert_metadata :: "string option \<Rightarrow> 'd \<Rightarrow> ('d, 'h) commit_metadata" where
  "reinsert_metadata username branch =
     \<lparr>cm_username = username, cm_branch_id = Some branch, cm_merge_metadata = None, cm_reverted_to = None,
      cm_changed_files = None, cm_is_setup = Some False\<rparr>"

text \<open>Hashes that were missing are written into the current version of the document.\<close>

definition reinsert_hashes ::
  "('doc, 'h, 'v, 'o, 'd, 'x) db_env \<Rightarrow> string option \<Rightarrow> ('d, 'h) history_ref \<Rightarrow> (string, 'x \<times> bool) hmap \<Rightarrow>
   'doc \<Rightarrow> 'doc" where
  "reinsert_hashes env username at_ref new_hashes d =
     (let am = de_am env; v = ad_at (de_doc env) d (hr_heads at_ref)
      in case get_obj_id am v (am_root am) ''files'' of
           None \<Rightarrow> d
         | Some files \<Rightarrow>
             ad_commit (de_doc env) d
               (fold (\<lambda>(path, i) v.
                  case hm_get new_hashes path of
                    Some (hash, True) \<Rightarrow> am_put am v i ''hash'' (SBytes (de_hash_bytes env hash))
                  | _ \<Rightarrow> v) (file_entries am v files) (ad_current (de_doc env) d))
               (reinsert_metadata username (hr_branch at_ref)))"

definition somes :: "'a option list \<Rightarrow> 'a list" where
  "somes xs = concat (map (case_option [] (\<lambda>x. [x])) xs)"

definition get_hash_index ::
  "('doc, 'h, 'v, 'o, 'd, 'x) db_env \<Rightarrow> string option \<Rightarrow> ('d, 'h) history_ref \<Rightarrow>
   ('d, 'doc, 'h) branch_states \<Rightarrow>
   (('d, 'h) db_error, (string, 'x) hmap \<times> ('d, 'doc, 'h) branch_states) outcome" where
  "get_hash_index env username at_ref db =
     rbind (lift_err (read_shadow (hr_branch at_ref) (\<lambda>d. ad_at (de_doc env) d (hr_heads at_ref)) db)) (\<lambda>v.
     rbind (ok_or (Err (BadBranchDocument at_ref ''files not found''))
              (get_obj_id (de_am env) v (am_root (de_am env)) ''files'')) (\<lambda>files.
     rbind (lift_unit AutomergeError (collect_res (pending_hash_of env v) (file_entries (de_am env) v files))) (\<lambda>pending.
     rbind (lift_unit AutomergeError (collect_res (resolve_hash env db) (somes pending))) (\<lambda>resolved.
     let reinserting = list_ex (needs_reinsert env) (somes pending);
         new_hashes = hm_collect (somes resolved);
         result = map (\<lambda>(path, hash, _). (path, hash)) new_hashes
     in if \<not> reinserting then Inr (result, db)
        else (case with_shadow_document (hr_branch at_ref)
                (\<lambda>d. ((), reinsert_hashes env username at_ref new_hashes d)) db of
                Inl _ \<Rightarrow> Inl Panic
              | Inr (_, db) \<Rightarrow> Inr (result, db))))))"

definition get_changed_files_between_refs ::
  "('doc, 'h, 'v, 'o, 'd, 'x) db_env \<Rightarrow> string option \<Rightarrow> ('d, 'h) history_ref option \<Rightarrow> ('d, 'h) history_ref \<Rightarrow>
   ('d, 'doc, 'h) branch_states \<Rightarrow>
   (('d, 'h) db_error, (string, change_type) hmap \<times> ('d, 'doc, 'h) branch_states) outcome" where
  "get_changed_files_between_refs env username old_ref new_ref db =
     (if \<not> hr_is_valid new_ref then Inl (Err (InvalidRef new_ref))
      else rbind (get_hash_index env username new_ref db) (\<lambda>(new_index, db).
           case old_ref of
             Some old_ref \<Rightarrow>
               if hr_is_valid old_ref
               then rbind (get_hash_index env username old_ref db) (\<lambda>(old_index, db).
                    Inr (get_file_changes old_index new_index, db))
               else Inr (map (\<lambda>(path, _). (path, Created)) new_index, db)
           | None \<Rightarrow> Inr (map (\<lambda>(path, _). (path, Created)) new_index, db)))"

section \<open>Contents\<close>

definition file_at ::
  "('doc, 'h, 'v, 'o, 'd, 'x) db_env \<Rightarrow> 'v \<Rightarrow> 'o \<Rightarrow> string \<Rightarrow> (unit, (string \<times> 'd file_read) option) outcome" where
  "file_at env v files path =
     (case am_get (de_am env) v files path of
        Inr (Some (VObj AMap, file_entry)) \<Rightarrow>
          rbind (hydrate_content_at (de_io env) (de_am env) v file_entry path) (\<lambda>r. Inr (Some (path, r)))
      | _ \<Rightarrow> Inr None)"

definition get_files_at_ref ::
  "('doc, 'h, 'v, 'o, 'd, 'x) db_env \<Rightarrow> ('d, 'h) history_ref \<Rightarrow> string list \<Rightarrow> ('d, 'doc, 'h) branch_states \<Rightarrow>
   (('d, 'h) db_error, (string, file_content) hmap) outcome" where
  "get_files_at_ref env desired_ref filters db =
     (if filters = [] then Inl (Err NoFilters)
      else rbind (lift_err (read_shadow (hr_branch desired_ref)
                    (\<lambda>d. ad_at (de_doc env) d (hr_heads desired_ref)) db)) (\<lambda>v.
           rbind (case am_get (de_am env) v (am_root (de_am env)) ''files'' of
                    Inl _ \<Rightarrow> Inl (Err AutomergeError)
                  | Inr None \<Rightarrow> Inl (Err (BadBranchDocument desired_ref ''no files''))
                  | Inr (Some (_, files)) \<Rightarrow> Inr files) (\<lambda>files.
           rbind (lift_unit AutomergeError (collect_res (file_at env v files)
                    (filter (\<lambda>path. path \<in> set filters) (am_keys (de_am env) v files)))) (\<lambda>reads.
           let files = concat (map (\<lambda>(path, r). case r of Content c \<Rightarrow> [(path, c)] | _ \<Rightarrow> []) (somes reads));
               linked = concat (map (\<lambda>(path, r). case r of
                   Linked i \<Rightarrow> (case get_linked_file env i db of Some c \<Rightarrow> [(path, c)] | None \<Rightarrow> [])
                 | _ \<Rightarrow> []) (somes reads))
           in Inr (hm_collect (files @ linked))))))"

end
