(* ===== verification/Content_Source.thy ===== *)
theory Content_Source imports File_Index begin

text \<open>
  What the checkout of files relies on: a source of hash indexes and file contents for references of
  the history. The branch database provides it (\<open>Doc_Index_Properties\<close>), the file synchronisation and
  the driver are its clients.
\<close>

text \<open>What is to be done on disk: a change and, unless the file goes, its new content
  (the map \<open>joined\<close> of \<open>checkout_ref\<close>).\<close>

definition joined_content :: "('p, 'c) hmap \<Rightarrow> 'p \<Rightarrow> change_type \<Rightarrow> (change_type \<times> 'c option) option" where
  "joined_content contents path change_type =
     (case change_type of
        Deleted \<Rightarrow> Some (change_type, None)
      | _ \<Rightarrow> map_option (\<lambda>c. (change_type, Some c)) (hm_get contents path))"

definition joined_changes ::
  "('p \<Rightarrow> 'q) \<Rightarrow> ('p, change_type) hmap \<Rightarrow> ('p, 'c) hmap \<Rightarrow> ('q, change_type \<times> 'c option) hmap" where
  "joined_changes globalize changes contents =
     hm_collect (List.map_filter (\<lambda>(path, change_type).
       map_option (Pair (globalize path)) (joined_content contents path change_type)) changes)"

lemma joined_changes_get:
  assumes wf: "hm_wf changes" and inj: "inj_on globalize (set (hm_keys changes))"
  shows "hm_get (joined_changes globalize changes contents) q = Some x \<longleftrightarrow>
    (\<exists>p c. hm_get changes p = Some c \<and> q = globalize p \<and> joined_content contents p c = Some x)"
proof -
  let ?f = "\<lambda>(path, change_type). map_option (Pair (globalize path)) (joined_content contents path change_type)"
  have keys: "map fst (List.map_filter ?f xs) = map (globalize \<circ> fst) (filter (\<lambda>x. ?f x \<noteq> None) xs)" for xs
    by (induction xs) (auto simp: List.map_filter_def)
  have "distinct (map fst (List.map_filter ?f changes))"
    unfolding keys distinct_map
  proof
    show "distinct (filter (\<lambda>x. ?f x \<noteq> None) changes)"
      using wf by (simp add: hm_wf_def distinct_map)
    show "inj_on (globalize \<circ> fst) (set (filter (\<lambda>x. ?f x \<noteq> None) changes))"
      by (rule inj_on_subset [of _ "set changes"])
        (use wf inj in \<open>auto simp: hm_wf_def distinct_map intro: comp_inj_on\<close>)
  qed
  then have "hm_get (joined_changes globalize changes contents) q = Some x \<longleftrightarrow>
      (q, x) \<in> set (List.map_filter ?f changes)"
    by (simp add: joined_changes_def hm_get_collect_distinct)
  also have "\<dots> \<longleftrightarrow> (\<exists>p c. (p, c) \<in> set changes \<and> q = globalize p \<and> joined_content contents p c = Some x)"
    by (fastforce simp: List.map_filter_def image_iff)
  finally show ?thesis by (simp add: hm_get_eq_Some_iff [OF wf])
qed

section \<open>The contract\<close>

text \<open>
  In a state \<open>s\<close> that is \<open>good\<close> for a reference \<open>r\<close>, an index has the hashes of the contents of all files
  that are not ignored, and reading an index changes no content.
\<close>

locale content_source =
  fixes index :: "'s \<Rightarrow> 'r \<Rightarrow> ('e, ('p, 'x) hmap \<times> 's) outcome"
    and contents :: "'s \<Rightarrow> 'r \<Rightarrow> 'p list \<Rightarrow> ('e, ('p, 'c) hmap) outcome"
    and good :: "'s \<Rightarrow> 'r \<Rightarrow> bool"
    and ignored :: "'s \<Rightarrow> 'p \<Rightarrow> bool"
    and content :: "'s \<Rightarrow> 'r \<Rightarrow> 'p \<Rightarrow> 'c option"
    and hash :: "'s \<Rightarrow> 'c \<Rightarrow> 'x option"
  assumes index_good: "good s r \<Longrightarrow> \<exists>idx s'. index s r = Inr (idx, s') \<and> good s' r \<and>
      hm_wf idx \<and> hash s' = hash s \<and> ignored s' = ignored s \<and> content s' r = content s r \<and>
      (\<forall>p. hm_get idx p = (if ignored s p then None else Option.bind (content s r p) (hash s)))"
    and contents_good: "good s r \<Longrightarrow> paths \<noteq> [] \<Longrightarrow> \<exists>cs. contents s r paths = Inr cs \<and>
      (\<forall>p. hm_get cs p = (if p \<in> set paths then content s r p else None))"
begin

lemma index_and_contents:
  assumes "good s r" and "paths \<noteq> []"
  shows "\<exists>idx s' cs. index s r = Inr (idx, s') \<and> contents s' r paths = Inr cs \<and>
    (\<forall>p\<in>set paths. \<not> ignored s p \<longrightarrow> hm_get idx p = Option.bind (hm_get cs p) (hash s)) \<and>
    (\<forall>p\<in>set paths. hm_get cs p = None \<longrightarrow> hm_get idx p = None)"
proof -
  obtain idx s' where s': "index s r = Inr (idx, s')" "good s' r" "content s' r = content s r"
    and idx: "\<And>p. hm_get idx p = (if ignored s p then None else Option.bind (content s r p) (hash s))"
    using index_good [OF assms(1)] by blast
  obtain cs where "contents s' r paths = Inr cs"
    "\<And>p. hm_get cs p = (if p \<in> set paths then content s' r p else None)"
    using contents_good [OF s'(2) assms(2)] by blast
  with s' idx show ?thesis by auto
qed

text \<open>The changes from the files on disk to those of a reference, joined with their contents, are
  exact: applied to the disk they give the reference.\<close>

lemma plan_exact:
  assumes "good s r" and index: "index s r = Inr (goal, s')" and changes: "get_file_changes current goal \<noteq> []"
  shows "\<exists>cs. contents s' r (hm_keys (get_file_changes current goal)) = Inr cs \<and>
    (\<forall>p. case hm_get (get_file_changes current goal) p of
        None \<Rightarrow> hm_get current p = hm_get goal p
      | Some c \<Rightarrow> (\<exists>x. joined_content cs p c = Some x \<and> fst x = c \<and>
            hm_get goal p = Option.bind (snd x) (hash s)))"
proof -
  obtain idx t where t: "index s r = Inr (idx, t)" "good t r" "content t r = content s r"
    and wf_idx: "hm_wf idx"
    and idx: "\<And>p. hm_get idx p = (if ignored s p then None else Option.bind (content s r p) (hash s))"
    using index_good [OF assms(1)] by blast
  with index have [simp]: "idx = goal" "t = s'" by auto
  let ?changes = "get_file_changes current goal"
  obtain cs where cs: "contents s' r (hm_keys ?changes) = Inr cs"
    "\<And>p. hm_get cs p = (if p \<in> set (hm_keys ?changes) then content s' r p else None)"
    using contents_good [of s' r "hm_keys ?changes"] t(2) changes by auto
  have get: "hm_get ?changes p = change_of (hm_get current p) (hm_get goal p)" for p
    using get_file_changes_get wf_idx by simp
  have "\<exists>x. joined_content cs p c = Some x \<and> fst x = c \<and> hm_get goal p = Option.bind (snd x) (hash s)"
    if "hm_get ?changes p = Some c" for p c
  proof (cases "hm_get goal p")
    case None
    with that get [of p] have "c = Deleted" by (auto simp: change_of_def split: option.splits)
    with None show ?thesis by (simp add: joined_content_def)
  next
    case (Some h)
    with that get [of p] have "c \<noteq> Deleted" by (auto simp: change_of_def split: option.splits if_splits)
    moreover from that have "p \<in> set (hm_keys ?changes)" by (force dest: map_of_SomeD)
    moreover from Some idx [of p] obtain y where "content s r p = Some y" "hash s y = Some h"
      by (cases "content s r p") (auto split: if_splits)
    ultimately show ?thesis using Some cs(2) [of p] t(3) by (cases c) (simp_all add: joined_content_def)
  qed
  moreover have "hm_get current p = hm_get goal p" if "hm_get ?changes p = None" for p
    using that by (simp add: get change_of_None_iff)
  ultimately show ?thesis using cs(1) by (auto split: option.split)
qed

end

end
