(* ===== verification/Doc_Index_Properties.thy ===== *)
theory Doc_Index_Properties imports Doc_Index Content_Source begin

text \<open>
  The hash index of a history reference against the contents of its files: for every file that is not ignored
  the index has the hash stored in the document, or else the hash of the content that \<open>get_files_at_ref\<close>
  returns. And what happens to hashes that are written back.
\<close>

section \<open>A document whose hashes are right\<close>

definition files_ok :: "('v, 'o) am_ops \<Rightarrow> 'v \<Rightarrow> 'o \<Rightarrow> bool" where
  "files_ok am v files \<longleftrightarrow> maps_only am files v \<and> distinct (am_keys am v files) \<and>
     (\<forall>p. p \<in> set (am_keys am v files) \<longleftrightarrow> am_get am v files p \<noteq> Inr None)"

definition content_at ::
  "('doc, 'h, 'v, 'o, 'd, 'x) db_env \<Rightarrow> ('d, 'doc, 'h) branch_states \<Rightarrow> 'v \<Rightarrow> 'o \<Rightarrow> string \<Rightarrow>
   (unit, file_content option) outcome" where
  "content_at env db v e p =
     rbind (hydrate_content_at (de_io env) (de_am env) v e p) (\<lambda>r.
     Inr (case r of Content c \<Rightarrow> Some c | Linked i \<Rightarrow> get_linked_file env i db | Unreadable \<Rightarrow> None))"

definition slow_hash ::
  "('doc, 'h, 'v, 'o, 'd, 'x) db_env \<Rightarrow> ('d, 'doc, 'h) branch_states \<Rightarrow> 'v \<Rightarrow> 'o \<Rightarrow> string \<Rightarrow>
   (unit, 'x option) outcome" where
  "slow_hash env db v e p =
     rbind (content_at env db v e p) (\<lambda>c.
     case c of None \<Rightarrow> Inr None | Some c \<Rightarrow> rbind (to_hash (de_hash env) c) (\<lambda>h. Inr (Some h)))"

text \<open>No file makes the code panic, and a stored hash is the hash of the content.\<close>

definition files_readable ::
  "('doc, 'h, 'v, 'o, 'd, 'x) db_env \<Rightarrow> ('d, 'doc, 'h) branch_states \<Rightarrow> 'v \<Rightarrow> 'o \<Rightarrow> bool" where
  "files_readable env db v files \<longleftrightarrow>
     (\<forall>p e. entry_of (de_am env) files v p = Some e \<longrightarrow> (\<exists>h. slow_hash env db v e p = Inr h))"

definition hashes_true ::
  "('doc, 'h, 'v, 'o, 'd, 'x) db_env \<Rightarrow> ('d, 'doc, 'h) branch_states \<Rightarrow> 'v \<Rightarrow> 'o \<Rightarrow> bool" where
  "hashes_true env db v files \<longleftrightarrow>
     (\<forall>p e h. entry_of (de_am env) files v p = Some e \<and>
        stored_hash (de_from_slice env) (de_am env) v e = Inr h \<longrightarrow> slow_hash env db v e p = Inr (Some h))"

definition view_at ::
  "('doc, 'h, 'v, 'o, 'd, 'x) db_env \<Rightarrow> ('d, 'h) history_ref \<Rightarrow> ('d, 'doc, 'h) branch_states \<Rightarrow> 'v \<Rightarrow> bool" where
  "view_at env r db v \<longleftrightarrow> read_shadow (hr_branch r) (\<lambda>d. ad_at (de_doc env) d (hr_heads r)) db = Inr v"

text \<open>The content of a file at a reference, and the hash that an index should have for it.\<close>

definition content_of ::
  "('doc, 'h, 'v, 'o, 'd, 'x) db_env \<Rightarrow> ('d, 'doc, 'h) branch_states \<Rightarrow> 'v \<Rightarrow> 'o \<Rightarrow> string \<Rightarrow>
   file_content option" where
  "content_of env db v files p =
     (case entry_of (de_am env) files v p of None \<Rightarrow> None
      | Some e \<Rightarrow> (case content_at env db v e p of Inr c \<Rightarrow> c | Inl _ \<Rightarrow> None))"

definition hash_of ::
  "('doc, 'h, 'v, 'o, 'd, 'x) db_env \<Rightarrow> ('d, 'doc, 'h) branch_states \<Rightarrow> 'v \<Rightarrow> 'o \<Rightarrow> string \<Rightarrow> 'x option" where
  "hash_of env db v files p =
     Option.bind (content_of env db v files p) (\<lambda>c. get_ok (to_hash (de_hash env) c))"

lemma hash_of_slow:
  assumes "entry_of (de_am env) files v p = Some e" and "slow_hash env db v e p = Inr h"
  shows "hash_of env db v files p = h"
  using assms
  by (auto simp: hash_of_def content_of_def slow_hash_def rbind_eq_Inr_iff split: option.splits)

lemma files_ok_entry:
  assumes "files_ok am v files"
  shows "am_get am v files p = (case entry_of am files v p of None \<Rightarrow> Inr None | Some e \<Rightarrow> Inr (Some (VObj AMap, e)))"
    and "p \<in> set (am_keys am v files) \<longleftrightarrow> entry_of am files v p \<noteq> None"
proof -
  have "am_get am v files p = Inr None \<or> entry_of am files v p \<noteq> None"
    using assms by (simp add: files_ok_def maps_only_def)
  then show get: "am_get am v files p =
      (case entry_of am files v p of None \<Rightarrow> Inr None | Some e \<Rightarrow> Inr (Some (VObj AMap, e)))"
    using entry_of_Some [of am files v p] by (cases "entry_of am files v p") auto
  show "p \<in> set (am_keys am v files) \<longleftrightarrow> entry_of am files v p \<noteq> None"
    using assms get by (auto simp: files_ok_def split: option.splits)
qed

lemma file_entries_set:
  assumes "files_ok am v files"
  shows "(p, e) \<in> set (file_entries am v files) \<longleftrightarrow> entry_of am files v p = Some e"
  using files_ok_entry [OF assms]
  by (fastforce simp: file_entries_def split: option.splits)

lemma file_entries_distinct:
  assumes "files_ok am v files"
  shows "distinct (map fst (file_entries am v files))"
proof -
  have "map fst (concat (map (\<lambda>key. case am_get am v files key of
         Inr (Some (VObj _, i)) \<Rightarrow> [(key, i)] | _ \<Rightarrow> []) keys)) =
      filter (\<lambda>key. entry_of am files v key \<noteq> None) keys" for keys
    using files_ok_entry(1) [OF assms] by (induction keys) (auto split: option.splits)
  then show ?thesis using assms by (simp add: file_entries_def files_ok_def)
qed

lemma somes_set [simp]: "x \<in> set (somes xs) \<longleftrightarrow> Some x \<in> set xs"
  by (force simp: somes_def split: option.splits)

lemma collect_res_got:
  "(\<And>x. x \<in> set xs \<Longrightarrow> \<exists>y. f x = Inr y) \<Longrightarrow> collect_res f xs = Inr (map (\<lambda>x. the (get_ok (f x))) xs)"
  by (rule collect_res_map_Inr) force

lemma collect_res_set:
  "collect_res f xs = Inr ys \<Longrightarrow> y \<in> set ys \<longleftrightarrow> (\<exists>x\<in>set xs. f x = Inr y)"
  by (induction xs arbitrary: ys) (auto simp: rbind_eq_Inr_iff)

section \<open>The index\<close>

text \<open>A hash that is missing or cannot be read, other than for a conflict.\<close>

definition missing_hash :: "('doc, 'h, 'v, 'o, 'd, 'x) db_env \<Rightarrow> 'v \<Rightarrow> 'o \<Rightarrow> bool" where
  "missing_hash env v e \<longleftrightarrow> stored_hash (de_from_slice env) (de_am env) v e = Inl True"

text \<open>What the two passes do with one file: its path, and the hash \<open>h\<close> that the index gets, if any.\<close>

definition resolves_to ::
  "('doc, 'h, 'v, 'o, 'd, 'x) db_env \<Rightarrow> ('d, 'doc, 'h) branch_states \<Rightarrow> 'v \<Rightarrow> string \<times> 'o \<Rightarrow> 'x option \<Rightarrow> bool" where
  "resolves_to env db v = (\<lambda>(p, e) h. \<exists>r. pending_hash_of env v (p, e) = Inr r \<and>
    (case r of None \<Rightarrow> h = None
     | Some (q, pending, should_reinsert) \<Rightarrow> q = p \<and> should_reinsert = missing_hash env v e \<and>
         resolve_hash env db (q, pending, should_reinsert) =
           Inr (if ignored_path env p then None else map_option (\<lambda>h. (p, h, should_reinsert)) h)))"

text \<open>The hash that an index has for a file: the one stored, if there is exactly one that can be read, otherwise
  that of the content.\<close>

definition index_hash ::
  "('doc, 'h, 'v, 'o, 'd, 'x) db_env \<Rightarrow> ('d, 'doc, 'h) branch_states \<Rightarrow> 'v \<Rightarrow> 'o \<Rightarrow> string \<Rightarrow> 'x option" where
  "index_hash env db v files p =
     (case entry_of (de_am env) files v p of None \<Rightarrow> None
      | Some e \<Rightarrow>
          (case stored_hash (de_from_slice env) (de_am env) v e of
             Inr h \<Rightarrow> Some h | Inl _ \<Rightarrow> hash_of env db v files p))"

lemma resolves_to_index:
  assumes "entry_of (de_am env) files v p = Some e" and "files_readable env db v files"
  shows "resolves_to env db v (p, e) (index_hash env db v files p)"
proof (cases "stored_hash (de_from_slice env) (de_am env) v e")
  case (Inr s)
  with assms(1) show ?thesis
    by (auto simp: resolves_to_def pending_hash_of_def resolve_hash_def missing_hash_def index_hash_def)
next
  case (Inl b)
  then have [simp]: "missing_hash env v e = b" "index_hash env db v files p = hash_of env db v files p"
    using assms(1) by (simp_all add: missing_hash_def index_hash_def)
  from assms obtain h where h: "slow_hash env db v e p = Inr h" unfolding files_readable_def by blast
  note [simp] = hash_of_slow [OF assms(1) h]
  from h obtain x where x: "hydrate_content_at (de_io env) (de_am env) v e p = Inr x"
    by (auto simp: slow_hash_def content_at_def rbind_eq_Inr_iff)
  show ?thesis
  proof (cases x)
    case (Content c)
    with x h obtain s where "to_hash (de_hash env) c = Inr s" "h = Some s"
      by (auto simp: slow_hash_def content_at_def rbind_eq_Inr_iff)
    moreover from this Inl x Content have "pending_hash_of env v (p, e) = Inr (Some (p, PHash s, b))"
      by (simp add: pending_hash_of_def)
    ultimately show ?thesis by (simp add: resolves_to_def resolve_hash_def)
  next
    case (Linked i)
    with Inl x have "pending_hash_of env v (p, e) = Inr (Some (p, PLinked i, b))"
      by (simp add: pending_hash_of_def)
    with x h Linked show ?thesis
      by (auto simp: resolves_to_def resolve_hash_def slow_hash_def content_at_def rbind_eq_Inr_iff split: option.splits)
  next
    case Unreadable
    with Inl x h show ?thesis by (auto simp: resolves_to_def pending_hash_of_def slow_hash_def content_at_def)
  qed
qed

lemma resolves_to_hash_of:
  assumes "entry_of (de_am env) files v p = Some e" and "files_readable env db v files" and "hashes_true env db v files"
  shows "resolves_to env db v (p, e) (hash_of env db v files p)"
proof -
  have "index_hash env db v files p = hash_of env db v files p"
  proof (cases "stored_hash (de_from_slice env) (de_am env) v e")
    case (Inr s)
    with assms(1,3) have "slow_hash env db v e p = Inr (Some s)" unfolding hashes_true_def by blast
    from hash_of_slow [OF assms(1) this] Inr assms(1) show ?thesis by (simp add: index_hash_def)
  qed (use assms(1) in \<open>simp add: index_hash_def\<close>)
  with resolves_to_index [OF assms(1,2)] show ?thesis by simp
qed

lemma map_fst_pairs: "hm_get (map (\<lambda>(path, hash, _). (path, hash)) m) p = map_option fst (hm_get m p)"
  by (induction m) auto

lemma view_shadow:
  assumes "view_at env r db v"
  shows "\<exists>st d. hm_get (branch_sync_states db) (hr_branch r) = Some st \<and> shadow_doc st = Some d \<and>
    v = ad_at (de_doc env) d (hr_heads r)"
  using assms
  by (auto simp: view_at_def read_shadow_def with_shadow_document_def split: option.splits)

lemma with_shadow_ok:
  "hm_get (branch_sync_states db) branch = Some st \<Longrightarrow> shadow_doc st = Some d \<Longrightarrow>
   with_shadow_document branch f db = Inr (fst (f d), db\<lparr>branch_sync_states :=
     hm_insert branch (st\<lparr>shadow_doc := Some (snd (f d))\<rparr>) (branch_sync_states db)\<rparr>)"
  by (simp add: with_shadow_document_def split: prod.split)

text \<open>All files: the pairs that both passes collect, when the file at \<open>p\<close> resolves to \<open>hash p\<close>.\<close>

definition all_resolve ::
  "('doc, 'h, 'v, 'o, 'd, 'x) db_env \<Rightarrow> ('d, 'doc, 'h) branch_states \<Rightarrow> 'v \<Rightarrow> 'o \<Rightarrow> (string \<Rightarrow> 'x option) \<Rightarrow> bool" where
  "all_resolve env db v files hash \<longleftrightarrow> files_ok (de_am env) v files \<and>
     (\<forall>p. case entry_of (de_am env) files v p of
        None \<Rightarrow> hash p = None | Some e \<Rightarrow> resolves_to env db v (p, e) (hash p))"

lemma all_resolve_entry:
  assumes "all_resolve env db v files hash" and "entry_of (de_am env) files v p = Some e"
  shows "resolves_to env db v (p, e) (hash p)"
  using assms unfolding all_resolve_def by (metis option.simps(5))

lemma resolved_pairs:
  assumes all: "all_resolve env db v files hash"
  shows "\<exists>pending resolved.
    collect_res (pending_hash_of env v) (file_entries (de_am env) v files) = Inr pending \<and>
    collect_res (resolve_hash env db) (somes pending) = Inr resolved \<and>
    (\<forall>p h b. (p, h, b) \<in> set (somes resolved) \<longrightarrow> \<not> ignored_path env p \<and> hash p = Some h) \<and>
    (\<forall>p h. \<not> ignored_path env p \<and> hash p = Some h \<longrightarrow> (\<exists>b. (p, h, b) \<in> set (somes resolved))) \<and>
    (\<forall>p h b. (p, h, b) \<in> set (somes resolved) \<longrightarrow> (\<exists>x. (p, x, b) \<in> set (somes pending))) \<and>
    (\<forall>p x b. (p, x, b) \<in> set (somes pending) \<longrightarrow>
       (\<exists>e. entry_of (de_am env) files v p = Some e \<and> b = missing_hash env v e))"
proof -
  let ?es = "file_entries (de_am env) v files"
  have entries: "(p, e) \<in> set ?es \<longleftrightarrow> entry_of (de_am env) files v p = Some e" for p e
    using all by (simp add: all_resolve_def file_entries_set)
  have to: "resolves_to env db v (p, e) (hash p)" if "(p, e) \<in> set ?es" for p e
    using all_resolve_entry [OF all] that entries by blast
  obtain pending where 1: "collect_res (pending_hash_of env v) ?es = Inr pending"
    using collect_res_got [of ?es "pending_hash_of env v"] to by (fastforce simp: resolves_to_def)
  have pd: "\<exists>e. (p, e) \<in> set ?es \<and> pending_hash_of env v (p, e) = Inr (Some (p, x, b)) \<and> b = missing_hash env v e \<and>
      resolve_hash env db (p, x, b) = Inr (if ignored_path env p then None else map_option (\<lambda>h. (p, h, b)) (hash p))"
    if "Some (p, x, b) \<in> set pending" for p x b
  proof -
    from that obtain q e where "(q, e) \<in> set ?es" "pending_hash_of env v (q, e) = Inr (Some (p, x, b))"
      unfolding collect_res_set [OF 1] by auto
    with to [OF this(1)] show ?thesis by (auto simp: resolves_to_def)
  qed
  obtain resolved where 2: "collect_res (resolve_hash env db) (somes pending) = Inr resolved"
    using collect_res_got [of "somes pending" "resolve_hash env db"] pd by fastforce
  have from_pending: "\<exists>x. Some (p, x, b) \<in> set pending \<and> \<not> ignored_path env p \<and> hash p = Some h"
    if "(p, h, b) \<in> set (somes resolved)" for p h b
  proof -
    from that obtain q x c where "Some (q, x, c) \<in> set pending" "resolve_hash env db (q, x, c) = Inr (Some (p, h, b))"
      by (auto simp: collect_res_set [OF 2])
    with pd [OF this(1)] show ?thesis by (cases "hash q") (auto split: if_splits)
  qed
  have "\<exists>b. (p, h, b) \<in> set (somes resolved)" if "\<not> ignored_path env p" "hash p = Some h" for p h
  proof -
    from all that obtain e where e: "(p, e) \<in> set ?es"
      using entries by (fastforce simp: all_resolve_def split: option.splits)
    with to [OF e] that obtain x b where x: "pending_hash_of env v (p, e) = Inr (Some (p, x, b))"
      by (auto simp: resolves_to_def split: option.splits)
    with e have in_pending: "Some (p, x, b) \<in> set pending" by (auto simp: collect_res_set [OF 1])
    with pd [OF in_pending] that have "resolve_hash env db (p, x, b) = Inr (Some (p, h, b))" by auto
    with in_pending show ?thesis by (force simp: collect_res_set [OF 2])
  qed
  moreover have "\<forall>p x b. (p, x, b) \<in> set (somes pending) \<longrightarrow>
       (\<exists>e. entry_of (de_am env) files v p = Some e \<and> b = missing_hash env v e)"
    using pd entries by (metis somes_set)
  moreover have "\<forall>p h b. (p, h, b) \<in> set (somes resolved) \<longrightarrow> (\<exists>x. (p, x, b) \<in> set (somes pending))"
    using from_pending by (metis somes_set)
  ultimately show ?thesis using 1 2 from_pending by blast
qed

lemma collect_pairs:
  assumes "\<forall>p h b. (p, h, b) \<in> set xs \<longrightarrow> \<not> P p \<and> f p = Some h"
    and "\<forall>p h. \<not> P p \<and> f p = Some h \<longrightarrow> (\<exists>b. (p, h, b) \<in> set xs)"
  shows "map_option fst (hm_get (hm_collect xs) p) = (if \<not> P p then f p else None)"
proof (cases "hm_get (hm_collect xs) p")
  case None
  then have "\<forall>h b. (p, h, b) \<notin> set xs" by (force simp: hm_get_collect map_of_eq_None_iff)
  with None assms(2) show ?thesis by (cases "f p") auto
next
  case (Some hb)
  then have "(p, fst hb, snd hb) \<in> set xs" unfolding hm_get_collect by (auto dest: map_of_SomeD)
  then have "\<not> P p \<and> f p = Some (fst hb)" using assms(1) by blast
  with Some show ?thesis by simp
qed

definition reinserted ::
  "('doc, 'h, 'v, 'o, 'd, 'x) db_env \<Rightarrow> string option \<Rightarrow> ('d, 'h) history_ref \<Rightarrow>
   ('d, 'doc, 'h) branch_states \<Rightarrow> ('d, 'doc, 'h) branch_states \<Rightarrow> bool" where
  "reinserted env username r db db' \<longleftrightarrow> db' = db \<or>
     (\<exists>new_hashes st d. hm_get (branch_sync_states db) (hr_branch r) = Some st \<and>
       shadow_doc st = Some d \<and> db' = db\<lparr>branch_sync_states := hm_insert (hr_branch r)
         (st\<lparr>shadow_doc := Some (reinsert_hashes env username r new_hashes d)\<rparr>) (branch_sync_states db)\<rparr>)"

lemma get_hash_index_by:
  assumes view: "view_at env r db v" and all: "all_resolve env db v files hash"
  shows "\<exists>idx db'. get_hash_index env username r db = Inr (idx, db') \<and> hm_wf idx \<and>
    (\<forall>p. hm_get idx p = (if \<not> ignored_path env p then hash p else None)) \<and>
    reinserted env username r db db' \<and>
    ((\<forall>p e. entry_of (de_am env) files v p = Some e \<longrightarrow> \<not> missing_hash env v e) \<longrightarrow> db' = db)"
proof -
  let ?am = "de_am env"
  have obj: "get_obj_id ?am v (am_root ?am) ''files'' = Some files"
    using all by (simp add: all_resolve_def files_ok_def maps_only_def)
  from resolved_pairs [OF all] obtain pending resolved where
    passes: "collect_res (pending_hash_of env v) (file_entries ?am v files) = Inr pending"
      "collect_res (resolve_hash env db) (somes pending) = Inr resolved"
    and pairs: "\<forall>p h b. (p, h, b) \<in> set (somes resolved) \<longrightarrow> \<not> ignored_path env p \<and> hash p = Some h"
      "\<forall>p h. \<not> ignored_path env p \<and> hash p = Some h \<longrightarrow> (\<exists>b. (p, h, b) \<in> set (somes resolved))"
    and missing: "\<forall>p x b. (p, x, b) \<in> set (somes pending) \<longrightarrow>
       (\<exists>e. entry_of (de_am env) files v p = Some e \<and> b = missing_hash env v e)" by blast
  from view_shadow [OF view] obtain st d where st: "hm_get (branch_sync_states db) (hr_branch r) = Some st"
      "shadow_doc st = Some d" by blast
  let ?idx = "map (\<lambda>(path, hash, _). (path, hash)) (hm_collect (somes resolved))"
  have "\<exists>db'. get_hash_index env username r db = Inr (?idx, db') \<and>
    (\<not> list_ex (needs_reinsert env) (somes pending) \<and> db' = db \<or>
     list_ex (needs_reinsert env) (somes pending) \<and> db' = db\<lparr>branch_sync_states := hm_insert (hr_branch r)
         (st\<lparr>shadow_doc := Some (reinsert_hashes env username r (hm_collect (somes resolved)) d)\<rparr>)
         (branch_sync_states db)\<rparr>)"
    unfolding get_hash_index_def using view
    by (simp add: view_at_def lift_err_def lift_unit_def obj passes Let_def with_shadow_ok [OF st])
  moreover have "hm_wf ?idx"
    using hm_wf_map_values [of "hm_collect (somes resolved)" "\<lambda>_. fst"] by (simp add: case_prod_unfold)
  moreover have "\<not> list_ex (needs_reinsert env) (somes pending)"
    if "\<forall>p e. entry_of (de_am env) files v p = Some e \<longrightarrow> \<not> missing_hash env v e"
    using missing that by (fastforce simp: list_ex_iff needs_reinsert_def)
  ultimately show ?thesis
    using st collect_pairs [OF pairs] unfolding reinserted_def by (auto simp: map_fst_pairs)
qed

lemma get_hash_index_of:
  assumes "view_at env r db v" and "files_ok (de_am env) v files"
    and "files_readable env db v files" and "hashes_true env db v files"
  shows "\<exists>idx db'. get_hash_index env username r db = Inr (idx, db') \<and> hm_wf idx \<and>
    (\<forall>p. hm_get idx p = (if \<not> ignored_path env p then hash_of env db v files p else None)) \<and>
    reinserted env username r db db'"
proof -
  have "all_resolve env db v files (hash_of env db v files)"
    using assms(2) resolves_to_hash_of [OF _ assms(3,4)]
    by (auto simp: all_resolve_def hash_of_def content_of_def split: option.split)
  from get_hash_index_by [OF assms(1) this] show ?thesis by blast
qed

text \<open>Where every hash is stored, nothing is computed or written back.\<close>

definition all_stored :: "('doc, 'h, 'v, 'o, 'd, 'x) db_env \<Rightarrow> 'v \<Rightarrow> 'o \<Rightarrow> bool" where
  "all_stored env v files \<longleftrightarrow> (\<forall>p e. entry_of (de_am env) files v p = Some e \<longrightarrow>
     (\<exists>h. stored_hash (de_from_slice env) (de_am env) v e = Inr h))"

definition stored_at :: "('doc, 'h, 'v, 'o, 'd, 'x) db_env \<Rightarrow> 'v \<Rightarrow> 'o \<Rightarrow> string \<Rightarrow> 'x option" where
  "stored_at env v files p = Option.bind (entry_of (de_am env) files v p)
     (\<lambda>e. get_ok (stored_hash (de_from_slice env) (de_am env) v e))"

lemma get_hash_index_stored:
  assumes "view_at env r db v" and "files_ok (de_am env) v files" and "all_stored env v files"
  shows "\<exists>idx. get_hash_index env username r db = Inr (idx, db) \<and> hm_wf idx \<and>
    (\<forall>p. hm_get idx p = (if \<not> ignored_path env p then stored_at env v files p else None))"
proof -
  have "\<exists>h. stored_hash (de_from_slice env) (de_am env) v e = Inr h"
    if "entry_of (de_am env) files v p = Some e" for p e using assms(3) that by (simp add: all_stored_def)
  then have "all_resolve env db v files (stored_at env v files)"
    and "\<forall>p e. entry_of (de_am env) files v p = Some e \<longrightarrow> \<not> missing_hash env v e"
    using assms(2)
    by (fastforce simp: all_resolve_def stored_at_def resolves_to_def pending_hash_of_def resolve_hash_def
        missing_hash_def split: option.split)+
  with get_hash_index_by [OF assms(1) this(1), of username] show ?thesis by blast
qed

section \<open>The contents\<close>

lemma files_readable_content:
  assumes "files_readable env db v files" and "entry_of (de_am env) files v p = Some e"
  shows "\<exists>r. hydrate_content_at (de_io env) (de_am env) v e p = Inr r"
proof -
  from assms obtain h where "slow_hash env db v e p = Inr h" unfolding files_readable_def by blast
  then show ?thesis by (auto simp: slow_hash_def content_at_def rbind_eq_Inr_iff)
qed

lemma get_files_at_ref_of:
  assumes view: "view_at env r db v" and files: "files_ok (de_am env) v files"
    and readable: "files_readable env db v files" and filters: "filters \<noteq> []"
  shows "\<exists>cs. get_files_at_ref env r filters db = Inr cs \<and>
    (\<forall>p. hm_get cs p = (if p \<in> set filters then content_of env db v files p else None))"
proof -
  let ?am = "de_am env"
  let ?paths = "filter (\<lambda>path. path \<in> set filters) (am_keys ?am v files)"
  have path: "p \<in> set ?paths \<longleftrightarrow> p \<in> set filters \<and> (\<exists>e. entry_of ?am files v p = Some e)" for p
    using files_ok_entry(2) [OF files, of p] by auto
  have "get_obj_id ?am v (am_root ?am) ''files'' = Some files" using files by (simp add: files_ok_def maps_only_def)
  then obtain t where root: "am_get ?am v (am_root ?am) ''files'' = Inr (Some (VObj t, files))"
    by (auto simp: get_obj_id_def split: sum.splits option.splits am_value.splits)
  define rd where "rd = (\<lambda>p. the (get_ok (hydrate_content_at (de_io env) ?am v (the (entry_of ?am files v p)) p)))"
  have hydrated: "hydrate_content_at (de_io env) ?am v e p = Inr (rd p)" if "entry_of ?am files v p = Some e" for p e
    using files_readable_content [OF readable that] that by (auto simp: rd_def)
  have "file_at env v files p = Inr (Some (p, rd p))" if "p \<in> set ?paths" for p
    using that path hydrated files_ok_entry(1) [OF files, of p] by (force simp: file_at_def)
  then have reads: "collect_res (file_at env v files) ?paths = Inr (map (\<lambda>p. Some (p, rd p)) ?paths)"
    by (rule collect_res_map_Inr)
  have somes_map: "somes (map (\<lambda>p. Some (p, rd p)) xs) = map (\<lambda>p. (p, rd p)) xs" for xs
    by (induction xs) (auto simp: somes_def)
  have content: "content_of env db v files p =
      (case rd p of Content c \<Rightarrow> Some c | Linked i \<Rightarrow> get_linked_file env i db | Unreadable \<Rightarrow> None)"
    if "p \<in> set ?paths" for p
    using that path hydrated by (force simp: content_of_def content_at_def)
  have none: "content_of env db v files p = None" if "entry_of ?am files v p = None" for p
    using that by (simp add: content_of_def)
  define pairs where "pairs = concat (map (\<lambda>(path, r). case r of Content c \<Rightarrow> [(path, c)] | _ \<Rightarrow> [])
        (map (\<lambda>p. (p, rd p)) ?paths)) @
      concat (map (\<lambda>(path, r). case r of
           Linked i \<Rightarrow> (case get_linked_file env i db of Some c \<Rightarrow> [(path, c)] | None \<Rightarrow> []) | _ \<Rightarrow> [])
        (map (\<lambda>p. (p, rd p)) ?paths))"
  have "(p, c) \<in> set pairs \<longleftrightarrow> p \<in> set ?paths \<and> content_of env db v files p = Some c" for p c
    using content by (fastforce simp: pairs_def split: file_read.splits option.splits)
  then have "hm_get (hm_collect pairs) p = (if p \<in> set ?paths then content_of env db v files p else None)" for p
    unfolding hm_get_collect by (intro map_of_function) simp
  moreover have "get_files_at_ref env r filters db = Inr (hm_collect pairs)"
    using view filters reads
    by (simp add: get_files_at_ref_def view_at_def lift_err_def lift_unit_def root somes_map pairs_def)
  moreover have "content_of env db v files p = None" if "p \<notin> set ?paths" "p \<in> set filters" for p
    using that path [of p] none [of p] by (cases "entry_of ?am files v p") auto
  ultimately show ?thesis by auto
qed

section \<open>The database as a source of contents\<close>

text \<open>What happens to a document: commits and merges. They leave the view at older \<open>heads\<close> as it is.\<close>

inductive doc_grows :: "('doc, 'h) crdt \<Rightarrow> ('doc, 'h, 'v, 'm) am_doc \<Rightarrow> 'doc \<Rightarrow> 'doc \<Rightarrow> bool"
  for am :: "('doc, 'h) crdt" and ad :: "('doc, 'h, 'v, 'm) am_doc" and d :: 'doc where
  grows_refl: "doc_grows am ad d d"
| grows_commit: "doc_grows am ad d e \<Longrightarrow> doc_grows am ad d (ad_commit ad e v m)"
| grows_merge: "doc_grows am ad d e \<Longrightarrow> doc_grows am ad d (snd (am_merge am e e'))"

lemma doc_grows_trans: "doc_grows am ad e f \<Longrightarrow> doc_grows am ad d e \<Longrightarrow> doc_grows am ad d f"
  by (induction rule: doc_grows.induct) (auto intro: doc_grows.intros)

definition history_kept :: "('doc, 'h) crdt \<Rightarrow> ('doc, 'h, 'v, 'm) am_doc \<Rightarrow> 'doc \<Rightarrow> 'h list \<Rightarrow> bool" where
  "history_kept am ad d heads \<longleftrightarrow> (\<forall>e. doc_grows am ad d e \<longrightarrow> ad_at ad e heads = ad_at ad d heads)"

lemma history_kept_grows:
  assumes "history_kept am ad d heads" and "doc_grows am ad d e"
  shows "ad_at ad e heads = ad_at ad d heads \<and> history_kept am ad e heads"
  using assms unfolding history_kept_def by (metis doc_grows_trans)

lemma reinsert_hashes_grows: "doc_grows (de_crdt env) (de_doc env) d (reinsert_hashes env username r new_hashes d)"
  by (auto simp: reinsert_hashes_def Let_def intro: doc_grows.intros split: option.split)

definition shadow_kept ::
  "('doc, 'h, 'v, 'o, 'd, 'x) db_env \<Rightarrow> ('d, 'h) history_ref \<Rightarrow> ('d, 'doc, 'h) branch_states \<Rightarrow> bool" where
  "shadow_kept env r db \<longleftrightarrow>
     (\<forall>st d. hm_get (branch_sync_states db) (hr_branch r) = Some st \<and> shadow_doc st = Some d \<longrightarrow>
        history_kept (de_crdt env) (de_doc env) d (hr_heads r))"

definition good_ref ::
  "('doc, 'h, 'v, 'o, 'd, 'x) db_env \<Rightarrow> ('d, 'h) history_ref \<Rightarrow> 'v \<Rightarrow> 'o \<Rightarrow> ('d, 'doc, 'h) branch_states \<Rightarrow> bool" where
  "good_ref env r v files db \<longleftrightarrow>
     view_at env r db v \<and> files_ok (de_am env) v files \<and> files_readable env db v files \<and>
     hashes_true env db v files \<and> shadow_kept env r db"

text \<open>Only shadow documents differ.\<close>

definition same_binaries :: "('d, 'doc, 'h) branch_states \<Rightarrow> ('d, 'doc, 'h) branch_states \<Rightarrow> bool" where
  "same_binaries db db' \<longleftrightarrow> repo_docs db' = repo_docs db \<and> binary_states db' = binary_states db"

lemma same_linked_content:
  assumes linked: "\<And>i. get_linked_file env i db' = get_linked_file env i db"
  shows "content_at env db' = content_at env db" and "content_of env db' = content_of env db"
    and "hash_of env db' = hash_of env db" and "slow_hash env db' = slow_hash env db"
proof -
  show content: "content_at env db' = content_at env db"
    by (intro ext) (simp only: content_at_def linked)
  show of_content: "content_of env db' = content_of env db"
    by (intro ext) (simp only: content_of_def content)
  show "hash_of env db' = hash_of env db"
    by (intro ext) (simp only: hash_of_def of_content)
  show "slow_hash env db' = slow_hash env db"
    by (intro ext) (simp only: slow_hash_def content)
qed

lemma same_binaries_content:
  assumes "same_binaries db db'"
  shows "content_at env db' = content_at env db" and "content_of env db' = content_of env db"
    and "hash_of env db' = hash_of env db" and "slow_hash env db' = slow_hash env db"
proof -
  have "get_linked_file env i db' = get_linked_file env i db" for i
    using assms unfolding same_binaries_def by (elim conjE) (simp only: get_linked_file_def)
  note same_linked_content [OF this]
  then show "content_at env db' = content_at env db" "content_of env db' = content_of env db"
    "hash_of env db' = hash_of env db" "slow_hash env db' = slow_hash env db" by blast+
qed

lemma reinserted_view:
  assumes view: "view_at env r db v" and kept: "shadow_kept env r db" and db': "reinserted env username r db db'"
  shows "view_at env r db' v \<and> shadow_kept env r db'"
  using db' unfolding reinserted_def
proof
  assume "\<exists>new_hashes st d. hm_get (branch_sync_states db) (hr_branch r) = Some st \<and>
     shadow_doc st = Some d \<and> db' = db\<lparr>branch_sync_states := hm_insert (hr_branch r)
       (st\<lparr>shadow_doc := Some (reinsert_hashes env username r new_hashes d)\<rparr>) (branch_sync_states db)\<rparr>"
  then obtain new_hashes st d where st: "hm_get (branch_sync_states db) (hr_branch r) = Some st"
    "shadow_doc st = Some d" and db'_eq: "db' = db\<lparr>branch_sync_states := hm_insert (hr_branch r)
       (st\<lparr>shadow_doc := Some (reinsert_hashes env username r new_hashes d)\<rparr>) (branch_sync_states db)\<rparr>"
    by blast
  let ?d = "reinsert_hashes env username r new_hashes d"
  have kept_d: "history_kept (de_crdt env) (de_doc env) d (hr_heads r)" using kept st by (simp add: shadow_kept_def)
  have "ad_at (de_doc env) ?d (hr_heads r) = ad_at (de_doc env) d (hr_heads r) \<and>
      history_kept (de_crdt env) (de_doc env) ?d (hr_heads r)"
    by (rule history_kept_grows [OF kept_d reinsert_hashes_grows])
  moreover have "v = ad_at (de_doc env) d (hr_heads r)" using view_shadow [OF view] st by auto
  ultimately show ?thesis
    by (simp add: db'_eq view_at_def read_shadow_def with_shadow_document_def shadow_kept_def hm_get_insert)
qed (use view kept in simp)

lemma get_hash_index_good:
  assumes good: "good_ref env r v files db"
  shows "\<exists>idx db'. get_hash_index env username r db = Inr (idx, db') \<and> hm_wf idx \<and>
    (\<forall>p. hm_get idx p = (if \<not> ignored_path env p then hash_of env db v files p else None)) \<and>
    good_ref env r v files db' \<and> same_binaries db db'"
proof -
  from good have view: "view_at env r db v" and kept: "shadow_kept env r db" by (simp_all add: good_ref_def)
  obtain idx db' where run: "get_hash_index env username r db = Inr (idx, db')"
    and idx: "\<forall>p. hm_get idx p = (if \<not> ignored_path env p then hash_of env db v files p else None)"
    and wf: "hm_wf idx" and db': "reinserted env username r db db'"
    using get_hash_index_of [of env r db v files username] good unfolding good_ref_def by blast
  have same: "same_binaries db db'" using db' by (auto simp: same_binaries_def reinserted_def)
  have "view_at env r db' v \<and> shadow_kept env r db'" by (rule reinserted_view [OF view kept db'])
  with good same have "good_ref env r v files db'"
    by (simp add: good_ref_def files_readable_def hashes_true_def same_binaries_content)
  with run wf idx same show ?thesis by blast
qed

interpretation db_files: content_source
  "\<lambda>(env, username, db) (r, v, files). rbind (get_hash_index env username r db) (\<lambda>(idx, db). Inr (idx, env, username, db))"
  "\<lambda>(env, username, db) (r, v, files) paths. get_files_at_ref env r paths db"
  "\<lambda>(env, username, db) (r, v, files). good_ref env r v files db"
  "\<lambda>(env, username, db). ignored_path env"
  "\<lambda>(env, username, db) (r, v, files). content_of env db v files"
  "\<lambda>(env, username, db) c. get_ok (to_hash (de_hash env) c)"
proof (unfold_locales, goal_cases)
  case (1 s r)
  obtain env username db where s: "s = (env, username, db)" by (cases s)
  obtain h v files where r: "r = (h, v, files)" by (cases r)
  from 1 have "good_ref env h v files db" by (simp add: s r)
  from get_hash_index_good [OF this, of username] obtain idx db' where
    run: "get_hash_index env username h db = Inr (idx, db')" and wf: "hm_wf idx"
    and idx: "\<forall>p. hm_get idx p = (if \<not> ignored_path env p then hash_of env db v files p else None)"
    and good: "good_ref env h v files db'" and same: "same_binaries db db'" by blast
  show ?case
    by (intro exI [of _ idx] exI [of _ "(env, username, db')"])
      (simp add: s r run wf idx good same_binaries_content [OF same] hash_of_def)
next
  case (2 s r paths)
  obtain env username db where s: "s = (env, username, db)" by (cases s)
  obtain h v files where r: "r = (h, v, files)" by (cases r)
  from 2 have "view_at env h db v" "files_ok (de_am env) v files" "files_readable env db v files"
    by (simp_all add: s r good_ref_def)
  from get_files_at_ref_of [OF this 2(2)] show ?case by (simp only: s r prod.case)
qed

text \<open>C20: the hash index of a reference and the contents read at it afterwards, for files that can be read and
  whether the stored hashes are right or not. For every path asked for that is not ignored, the index has
  nothing and no content is returned when the reference has no such file; it has the stored hash when exactly
  one is stored; and otherwise, when it had to be computed, it has the hash of the content that is returned.
  When the stored hashes are right, so is the whole index. Ignored paths are not in it.\<close>

theorem index_agrees_with_contents:
  assumes "view_at env r db v" and "files_ok (de_am env) v files" and "files_readable env db v files"
    and "shadow_kept env r db" and "filters \<noteq> []"
  shows "\<exists>idx db' cs. get_hash_index env username r db = Inr (idx, db') \<and>
    get_files_at_ref env r filters db' = Inr cs \<and>
    (\<forall>p\<in>set filters. \<not> ignored_path env p \<longrightarrow>
       (case entry_of (de_am env) files v p of
          None \<Rightarrow> hm_get idx p = None \<and> hm_get cs p = None
        | Some e \<Rightarrow>
            (case stored_hash (de_from_slice env) (de_am env) v e of
               Inr h \<Rightarrow> hm_get idx p = Some h
             | Inl _ \<Rightarrow> hm_get idx p = Option.bind (hm_get cs p) (\<lambda>c. get_ok (to_hash (de_hash env) c))) \<and>
            (hashes_true env db v files \<longrightarrow>
               hm_get idx p = Option.bind (hm_get cs p) (\<lambda>c. get_ok (to_hash (de_hash env) c))))) \<and>
    (\<forall>p. ignored_path env p \<longrightarrow> hm_get idx p = None)"
proof -
  let ?hash = "\<lambda>c. get_ok (to_hash (de_hash env) c)"
  have "all_resolve env db v files (index_hash env db v files)"
    using assms(2) resolves_to_index [OF _ assms(3)]
    by (auto simp: all_resolve_def index_hash_def split: option.split)
  from get_hash_index_by [OF assms(1) this, of username] obtain idx db' where
    run: "get_hash_index env username r db = Inr (idx, db')"
    and idx: "\<And>p. hm_get idx p = (if \<not> ignored_path env p then index_hash env db v files p else None)"
    and db': "reinserted env username r db db'" by blast
  have same: "same_binaries db db'" using db' by (auto simp: same_binaries_def reinserted_def)
  have "files_readable env db' v files"
    using assms(3) by (simp add: files_readable_def same_binaries_content [OF same])
  from get_files_at_ref_of [OF conjunct1 [OF reinserted_view [OF assms(1,4) db']] assms(2) this assms(5)] obtain cs where
    cs: "get_files_at_ref env r filters db' = Inr cs"
      "\<And>p. p \<in> set filters \<Longrightarrow> hm_get cs p = content_of env db v files p"
    by (auto simp: same_binaries_content [OF same])
  have entry: "case entry_of (de_am env) files v p of
      None \<Rightarrow> hm_get idx p = None \<and> hm_get cs p = None
    | Some e \<Rightarrow>
        (case stored_hash (de_from_slice env) (de_am env) v e of
           Inr h \<Rightarrow> hm_get idx p = Some h | Inl _ \<Rightarrow> hm_get idx p = Option.bind (hm_get cs p) ?hash) \<and>
        (hashes_true env db v files \<longrightarrow> hm_get idx p = Option.bind (hm_get cs p) ?hash)"
    if p: "p \<in> set filters" "\<not> ignored_path env p" for p
  proof (cases "entry_of (de_am env) files v p")
    case None
    with p show ?thesis by (simp add: idx cs(2) index_hash_def content_of_def)
  next
    case (Some e)
    have "hm_get idx p = hash_of env db v files p" if "hashes_true env db v files"
    proof (cases "stored_hash (de_from_slice env) (de_am env) v e")
      case (Inr h)
      with that Some have "slow_hash env db v e p = Inr (Some h)" unfolding hashes_true_def by blast
      from hash_of_slow [OF Some this] Inr Some p show ?thesis by (simp add: idx index_hash_def)
    qed (use Some p in \<open>simp add: idx index_hash_def\<close>)
    with Some p show ?thesis by (simp add: idx cs(2) index_hash_def hash_of_def split: sum.split)
  qed
  have "hm_get idx p = None" if "ignored_path env p" for p using that by (simp add: idx)
  with run cs(1) entry show ?thesis by blast
qed

section \<open>Hashes that are written back\<close>

abbreviation put_missing ::
  "('v, 'o) am_ops \<Rightarrow> ('x \<Rightarrow> string) \<Rightarrow> (string, 'x \<times> bool) hmap \<Rightarrow> string \<times> 'o \<Rightarrow> 'v \<Rightarrow> 'v" where
  "put_missing am hash_bytes new_hashes \<equiv> \<lambda>(path, i) v.
     case hm_get new_hashes path of
       Some (hash, True) \<Rightarrow> am_put am v i ''hash'' (SBytes (hash_bytes hash)) | _ \<Rightarrow> v"

lemma put_missing_frame:
  assumes "put_law am files" and "entry_of am files w q = Some i"
  shows "get_obj_id am (put_missing am hb new (q, i) w) (am_root am) ''files'' = get_obj_id am w (am_root am) ''files'' \<and>
    am_get am (put_missing am hb new (q, i) w) files p = am_get am w files p \<and>
    (entry_of am files w p = Some j \<and> (k \<noteq> ''hash'' \<or> p \<noteq> q) \<longrightarrow>
       field am (put_missing am hb new (q, i) w) j k = field am w j k) \<and>
    (hm_get new q = Some (h, True) \<longrightarrow>
       (\<exists>x. am_get_all am (put_missing am hb new (q, i) w) i ''hash'' = Inr [(VScalar (SBytes (hb h)), x)]))"
proof -
  have frame: "field_frame am files q ''hash'' w (am_put am w i ''hash'' s)"
    and got: "\<exists>x. am_get_all am (am_put am w i ''hash'' s) i ''hash'' = Inr [(VScalar s, x)]" for s
    using assms unfolding put_law_def by blast+
  have same: "get_obj_id am (am_put am w i ''hash'' s) (am_root am) ''files'' = get_obj_id am w (am_root am) ''files'' \<and>
      am_get am (am_put am w i ''hash'' s) files p = am_get am w files p \<and>
      (entry_of am files w p = Some j \<and> (k \<noteq> ''hash'' \<or> p \<noteq> q) \<longrightarrow>
         field am (am_put am w i ''hash'' s) j k = field am w j k)" for s
    using frame [of s] by (cases "p = q") (auto simp: field_frame_def entry_frame_def)
  consider h' where "hm_get new q = Some (h', True)"
    | "put_missing am hb new (q, i) w = w" "\<forall>h. hm_get new q \<noteq> Some (h, True)"
    by (cases "hm_get new q"; cases "snd (the (hm_get new q))") force+
  then show ?thesis
  proof cases
    case 1
    with same got show ?thesis by simp
  next
    case 2
    then show ?thesis by simp
  qed
qed

lemma put_missing_fold:
  assumes law: "put_law am files" and "distinct (map fst es)"
    and "\<forall>(q, i)\<in>set es. entry_of am files w q = Some i"
  shows "get_obj_id am (fold (put_missing am hb new) es w) (am_root am) ''files'' = get_obj_id am w (am_root am) ''files'' \<and>
    (\<forall>p. am_get am (fold (put_missing am hb new) es w) files p = am_get am w files p) \<and>
    (\<forall>p j k. entry_of am files w p = Some j \<and> (k \<noteq> ''hash'' \<or> p \<notin> fst ` set es) \<longrightarrow>
       field am (fold (put_missing am hb new) es w) j k = field am w j k) \<and>
    (\<forall>q i h. (q, i) \<in> set es \<and> hm_get new q = Some (h, True) \<longrightarrow>
       (\<exists>x. am_get_all am (fold (put_missing am hb new) es w) i ''hash'' = Inr [(VScalar (SBytes (hb h)), x)]))"
  using assms(2,3)
proof (induction es arbitrary: w)
  case (Cons qi es)
  obtain q i where qi: "qi = (q, i)" by (cases qi)
  let ?w = "put_missing am hb new (q, i) w"
  have i: "entry_of am files w q = Some i" using Cons.prems(2) qi by auto
  note one = put_missing_frame [OF law i]
  have same: "entry_of am files ?w p = entry_of am files w p" for p
    by (rule entry_of_get) (use one [THEN conjunct2, THEN conjunct1] in blast)
  from Cons.prems same have "\<forall>(q, i)\<in>set es. entry_of am files ?w q = Some i" by auto
  note IH = Cons.IH [OF _ this]
  have q: "q \<notin> fst ` set es" "distinct (map fst es)" using Cons.prems(1) qi by auto
  note IH_fields = IH [OF q(2), THEN conjunct2, THEN conjunct2, THEN conjunct1, rule_format]
    and IH_hash = IH [OF q(2), THEN conjunct2, THEN conjunct2, THEN conjunct2, rule_format]
  have hash: "\<exists>x. am_get_all am (fold (put_missing am hb new) es ?w) j ''hash'' = Inr [(VScalar (SBytes (hb h)), x)]"
    if j: "(p, j) \<in> set (qi # es)" "hm_get new p = Some (h, True)" for p j h
  proof (cases "(p, j) \<in> set es")
    case True
    with IH_hash j show ?thesis by blast
  next
    case False
    with j qi have [simp]: "p = q" "j = i" by auto
    have "field am (fold (put_missing am hb new) es ?w) i ''hash'' = field am ?w i ''hash''"
      by (rule IH_fields [of q]) (use q(1) i same in simp)
    with one [of hb new] j(2) show ?thesis by (simp add: field_def)
  qed
  have fields: "field am (fold (put_missing am hb new) es ?w) j k = field am w j k"
    if "entry_of am files w p = Some j" "k \<noteq> ''hash'' \<or> p \<notin> fst ` set (qi # es)" for p j k
  proof -
    have "field am (fold (put_missing am hb new) es ?w) j k = field am ?w j k"
      by (rule IH_fields [of p]) (use same that in auto)
    moreover have "field am ?w j k = field am w j k" using one [of hb new p j k] that qi by auto
    ultimately show ?thesis by simp
  qed
  from IH [OF q(2)] one have
    "get_obj_id am (fold (put_missing am hb new) es ?w) (am_root am) ''files'' = get_obj_id am w (am_root am) ''files''"
    "am_get am (fold (put_missing am hb new) es ?w) files p = am_get am w files p" for p
    by metis+
  with hash fields show ?case unfolding qi fold_simps by blast
qed simp

text \<open>A reference may be older than the branch. Reading its index when an entry has no stored hash
  writes the hash of the old content into the current version of the entry: content stays as it is,
  but the hash stored beside it is from then on that of the content at the reference.\<close>

theorem reinserted_hash:
  assumes good: "good_ref env r v files db" and law: "put_law (de_am env) files"
    and bytes: "\<forall>h. de_from_slice env (de_hash_bytes env h) = Some h"
    and current: "\<forall>d v m. ad_current (de_doc env) (ad_commit (de_doc env) d v m) = v"
    and st: "hm_get (branch_sync_states db) (hr_branch r) = Some st" "shadow_doc st = Some d"
    and here: "get_obj_id (de_am env) (ad_current (de_doc env) d) (am_root (de_am env)) ''files'' = Some files"
      "\<forall>q i. entry_of (de_am env) files v q = Some i \<longrightarrow>
         entry_of (de_am env) files (ad_current (de_doc env) d) q = Some i"
    and p: "entry_of (de_am env) files v p = Some e" "missing_hash env v e" "\<not> ignored_path env p"
      "hash_of env db v files p = Some h"
  shows "\<exists>idx db' st' d'. get_hash_index env username r db = Inr (idx, db') \<and>
    hm_get (branch_sync_states db') (hr_branch r) = Some st' \<and> shadow_doc st' = Some d' \<and>
    stored_hash (de_from_slice env) (de_am env) (ad_current (de_doc env) d') e = Inr h \<and>
    hydrate_content_at (de_io env) (de_am env) (ad_current (de_doc env) d') e p =
      hydrate_content_at (de_io env) (de_am env) (ad_current (de_doc env) d) e p"
proof -
  let ?am = "de_am env" and ?cur = "ad_current (de_doc env) d"
  from good have files: "files_ok ?am v files" and view: "view_at env r db v"
    and readable: "files_readable env db v files" "hashes_true env db v files" by (simp_all add: good_ref_def)
  have obj: "get_obj_id ?am v (am_root ?am) ''files'' = Some files"
    using files by (simp add: files_ok_def maps_only_def)
  have all: "all_resolve env db v files (hash_of env db v files)"
    using files resolves_to_hash_of [OF _ readable]
    by (auto simp: all_resolve_def hash_of_def content_of_def split: option.split)
  from resolved_pairs [OF this] obtain pending resolved where
    passes: "collect_res (pending_hash_of env v) (file_entries ?am v files) = Inr pending"
      "collect_res (resolve_hash env db) (somes pending) = Inr resolved"
    and pairs: "\<forall>p h b. (p, h, b) \<in> set (somes resolved) \<longrightarrow>
         \<not> ignored_path env p \<and> hash_of env db v files p = Some h"
      "\<forall>p h. \<not> ignored_path env p \<and> hash_of env db v files p = Some h \<longrightarrow> (\<exists>b. (p, h, b) \<in> set (somes resolved))"
    and flags: "\<forall>p h b. (p, h, b) \<in> set (somes resolved) \<longrightarrow> (\<exists>x. (p, x, b) \<in> set (somes pending))"
      "\<forall>p x b. (p, x, b) \<in> set (somes pending) \<longrightarrow>
       (\<exists>e. entry_of ?am files v p = Some e \<and> b = missing_hash env v e)" by blast
  from pairs(2) p obtain b where b: "(p, h, b) \<in> set (somes resolved)" by blast
  have flag: "c = True \<and> (\<exists>x. (p, x, True) \<in> set (somes pending))" if "(p, x, c) \<in> set (somes resolved)" for x c
    using flags that p(1,2) by fastforce
  with b have pending: "\<exists>x. (p, x, True) \<in> set (somes pending)" by blast
  let ?new = "hm_collect (somes resolved)"
  let ?d = "reinsert_hashes env username r ?new d"
  from view_shadow [OF view] st have v: "ad_at (de_doc env) d (hr_heads r) = v" by auto
  have reinserting: "list_ex (needs_reinsert env) (somes pending)"
    using pending p(3) by (fastforce simp: list_ex_iff needs_reinsert_def)
  have run: "get_hash_index env username r db = Inr (map (\<lambda>(path, hash, _). (path, hash)) ?new,
      db\<lparr>branch_sync_states := hm_insert (hr_branch r) (st\<lparr>shadow_doc := Some ?d\<rparr>) (branch_sync_states db)\<rparr>)"
    unfolding get_hash_index_def using view
    by (simp add: view_at_def lift_err_def lift_unit_def obj passes Let_def with_shadow_ok [OF st] reinserting)
  have new: "hm_get ?new p = Some (h, True)"
  proof -
    have "map_option fst (hm_get ?new p) = Some h" using collect_pairs [OF pairs] p by simp
    then obtain c where c: "hm_get ?new p = Some (h, c)" by auto
    then have "(p, h, c) \<in> set (somes resolved)" unfolding hm_get_collect by (auto dest: map_of_SomeD)
    with flag c show ?thesis by auto
  qed
  have "\<forall>(q, i)\<in>set (file_entries ?am v files). entry_of ?am files ?cur q = Some i"
    using here(2) file_entries_set [OF files] by blast
  note fold = put_missing_fold [OF law file_entries_distinct [OF files] this, where hb = "de_hash_bytes env" and new = ?new]
  have cur': "ad_current (de_doc env) ?d = fold (put_missing ?am (de_hash_bytes env) ?new) (file_entries ?am v files) ?cur"
    by (simp add: reinsert_hashes_def v obj current Let_def)
  have e: "entry_of ?am files ?cur p = Some e" "(p, e) \<in> set (file_entries ?am v files)"
    using here(2) p(1) file_entries_set [OF files] by blast+
  have "stored_hash (de_from_slice env) ?am (ad_current (de_doc env) ?d) e = Inr h"
    using fold [THEN conjunct2, THEN conjunct2, THEN conjunct2, rule_format, of p e h] e(2) new bytes
    by (auto simp: cur' stored_hash_def)
  moreover have "hydrate_content_at (de_io env) ?am (ad_current (de_doc env) ?d) e p =
      hydrate_content_at (de_io env) ?am ?cur e p"
    unfolding cur'
  proof (rule hydrate_frame [OF _ here(1) _ e(1)])
    show "get_obj_id ?am (fold (put_missing ?am (de_hash_bytes env) ?new) (file_entries ?am v files) ?cur)
        (am_root ?am) ''files'' = Some files" using fold here(1) by simp
    show "am_get ?am (fold (put_missing ?am (de_hash_bytes env) ?new) (file_entries ?am v files) ?cur) files p =
        am_get ?am ?cur files p" using fold by blast
  qed (use fold [THEN conjunct2, THEN conjunct2, THEN conjunct1, rule_format, of p e] e(1) in blast)
  ultimately show ?thesis using run by (simp add: hm_get_insert)
qed

section \<open>Witnesses\<close>

text \<open>Documents as lists of views, newest first; heads are the number of commits.\<close>

definition demo_ad :: "(demo_view list, nat, demo_view, 'm) am_doc" where
  "demo_ad = \<lparr>ad_new = [], ad_at = (\<lambda>d heads. rev d ! (hd heads - 1)),
     ad_current = hd, ad_commit = (\<lambda>d v m. v # d)\<rparr>"

text \<open>Merging takes what the other document has more, if it continues this one, and fails otherwise.\<close>

definition demo_doc_crdt :: "(demo_view list, nat) crdt" where
  "demo_doc_crdt = \<lparr>am_heads = (\<lambda>d. [length d]), am_fork = id,
     am_merge = (\<lambda>d e. if \<exists>xs. e = xs @ d then (True, e) else if \<exists>xs. d = xs @ e then (True, d) else (False, d))\<rparr>"

definition demo_db_io :: "(bool, nat) id_io" where
  "demo_db_io = \<lparr>show_doc = show_doc demo_io, parse_doc = parse_doc demo_io,
     show_hash = (\<lambda>n. replicate (Suc n) (CHR ''a'')), parse_hash = (\<lambda>s. Some (length s - 1))\<rparr>"

definition demo_db_env :: "(demo_view list, nat, demo_view, demo_obj, bool, string) db_env" where
  "demo_db_env = \<lparr>de_io = demo_db_io, de_hash = id, de_from_slice = Some, de_hash_bytes = id,
     de_am = demo_doc_ops, de_crdt = demo_doc_crdt, de_doc = demo_ad, de_project_dir = ''/p/'', de_gitignore = (\<lambda>_ _. False)\<rparr>"

definition demo_file :: "(string \<Rightarrow> demo_val option) \<Rightarrow> demo_view" where
  "demo_file f = (\<lambda>_. None)(''res://a'' := Some f)"

definition demo_old :: demo_view where
  "demo_old = demo_file ((\<lambda>_. None)(''content'' := Some (DText ''x'')))"

definition demo_new :: demo_view where
  "demo_new = demo_file ((\<lambda>_. None)(''content'' := Some (DText ''y''), ''hash'' := Some (DScalar (SBytes ''y''))))"

definition demo_shadow_db :: "demo_view list \<Rightarrow> (bool, demo_view list, nat) branch_states" where
  "demo_shadow_db d = \<lparr>repo_docs = (\<lambda>_. d), binary_states = [],
     branch_sync_states = [(True, (branch_sync_state_new True)\<lparr>shadow_doc := Some d\<rparr>)]\<rparr>"

lemma demo_env_simps [simp]:
  "de_am demo_db_env = demo_doc_ops" "de_doc demo_db_env = demo_ad" "de_crdt demo_db_env = demo_doc_crdt" "de_hash demo_db_env = id"
  "de_from_slice demo_db_env = Some" "de_hash_bytes demo_db_env = id" "de_io demo_db_env = demo_db_io"
  "ad_current demo_ad = hd" "ad_commit demo_ad d v m = v # d"
  by (simp_all add: demo_db_env_def demo_ad_def)

lemma demo_grows: "doc_grows demo_doc_crdt (demo_ad :: (_, _, _, 'm) am_doc) d e \<Longrightarrow> \<exists>xs. e = xs @ d"
proof (induction rule: doc_grows.induct)
  case (grows_merge e e')
  then show ?case by (auto simp: demo_doc_crdt_def)
qed (auto simp: demo_ad_def)

lemma demo_kept:
  assumes "0 < hd heads" and "hd heads \<le> length d"
  shows "history_kept demo_doc_crdt (demo_ad :: (_, _, _, 'm) am_doc) d heads"
proof -
  have "hd heads - 1 < length d" using assms by linarith
  then show ?thesis
    unfolding history_kept_def using demo_grows by (fastforce simp: demo_ad_def nth_append)
qed

lemma demo_unignored: "\<not> ignored_path demo_db_env ''res://a''"
proof -
  have "\<not> should_ignore ''/p/'' (\<lambda>_ _. False) (globalize_path ''/p/'' ''res://a'') False" by code_simp
  then show ?thesis by (simp add: ignored_path_def demo_db_env_def)
qed

lemma demo_old_entry: "entry_of demo_doc_ops DFiles demo_old p = Some e \<longleftrightarrow> p = ''res://a'' \<and> e = DEntry ''res://a''"
  by (auto simp: demo_entry_of demo_old_def demo_file_def)

lemma demo_new_entry: "entry_of demo_doc_ops DFiles demo_new p = Some e \<longleftrightarrow> p = ''res://a'' \<and> e = DEntry ''res://a''"
  by (auto simp: demo_entry_of demo_new_def demo_file_def)

lemma demo_content:
  "hydrate_content_at io demo_doc_ops demo_old (DEntry ''res://a'') ''res://a'' = Inr (Content (CString ''x''))"
  "hydrate_content_at io demo_doc_ops demo_new (DEntry ''res://a'') ''res://a'' = Inr (Content (CString ''y''))"
  by (simp_all add: hydrate_content_at_def demo_old_def demo_new_def demo_file_def demo_field_def get_text_def)

lemma demo_stored: "stored_hash Some demo_doc_ops demo_old (DEntry ''res://a'') = Inl True"
  by (simp add: stored_hash_def demo_old_def demo_file_def demo_field_def)

lemma demo_good: "good_ref demo_db_env (history_ref_new True [1]) demo_old DFiles (demo_shadow_db [demo_new, demo_old])"
proof -
  have files: "files_ok demo_doc_ops demo_old DFiles"
    by (auto simp: files_ok_def demo_maps_only demo_old_def demo_file_def split: option.splits)
  have view: "view_at demo_db_env (history_ref_new True [1]) (demo_shadow_db [demo_new, demo_old]) demo_old"
    by (simp add: view_at_def read_shadow_def with_shadow_document_def demo_shadow_db_def demo_ad_def history_ref_new_def)
  have "shadow_kept demo_db_env (history_ref_new True [1]) (demo_shadow_db [demo_new, demo_old])"
    by (auto simp: shadow_kept_def demo_shadow_db_def history_ref_new_def intro: demo_kept)
  moreover have "files_readable demo_db_env (demo_shadow_db [demo_new, demo_old]) demo_old DFiles"
    by (simp add: files_readable_def demo_old_entry slow_hash_def content_at_def demo_content to_hash_def as_bytes_def)
  moreover have "hashes_true demo_db_env (demo_shadow_db [demo_new, demo_old]) demo_old DFiles"
    by (auto simp: hashes_true_def demo_old_entry demo_stored)
  ultimately show ?thesis using files view by (simp add: good_ref_def)
qed

lemma demo_hash: "hash_of demo_db_env (demo_shadow_db [demo_new, demo_old]) demo_old DFiles ''res://a'' = Some ''x''"
  by (simp add: hash_of_def content_of_def content_at_def demo_old_entry [THEN iffD2] demo_content
      to_hash_def as_bytes_def)

text \<open>The index of the first version, \<open>x\<close>, leaves its hash in the second, \<open>y\<close>.\<close>

theorem reinserted_hash_witness:
  "\<exists>idx db' st' d'. get_hash_index demo_db_env None (history_ref_new True [1]) (demo_shadow_db [demo_new, demo_old]) =
       Inr (idx, db') \<and> hm_get (branch_sync_states db') True = Some st' \<and> shadow_doc st' = Some d' \<and>
     stored_hash Some demo_doc_ops (ad_current demo_ad d') (DEntry ''res://a'') = Inr ''x'' \<and>
     hydrate_content_at demo_db_io demo_doc_ops (ad_current demo_ad d') (DEntry ''res://a'') ''res://a'' =
       Inr (Content (CString ''y''))"
proof -
  have law: "put_law demo_doc_ops DFiles" using demo_doc_laws by (simp add: am_laws_def)
  have missing: "missing_hash demo_db_env demo_old (DEntry ''res://a'')"
    by (simp add: missing_hash_def demo_stored)
  from reinserted_hash [OF demo_good, where p = "''res://a''" and e = "DEntry ''res://a''" and h = "''x''"
      and username = None and d = "[demo_new, demo_old]" and st = "(branch_sync_state_new True)\<lparr>shadow_doc := Some [demo_new, demo_old]\<rparr>"]
  show ?thesis
    using law demo_hash missing demo_unignored
    by (auto simp: demo_old_entry demo_new_entry demo_content demo_shadow_db_def history_ref_new_def demo_root)
qed

theorem index_agrees_with_contents_witness:
  "\<exists>idx db' cs. get_hash_index demo_db_env None (history_ref_new True [1]) (demo_shadow_db [demo_new, demo_old]) =
       Inr (idx, db') \<and>
     get_files_at_ref demo_db_env (history_ref_new True [1]) [''res://a''] db' = Inr cs \<and>
     hm_get idx ''res://a'' = Option.bind (hm_get cs ''res://a'') (\<lambda>c. get_ok (to_hash id c))"
proof -
  have "view_at demo_db_env (history_ref_new True [1]) (demo_shadow_db [demo_new, demo_old]) demo_old"
    "files_ok (de_am demo_db_env) demo_old DFiles"
    "files_readable demo_db_env (demo_shadow_db [demo_new, demo_old]) demo_old DFiles"
    "shadow_kept demo_db_env (history_ref_new True [1]) (demo_shadow_db [demo_new, demo_old])"
    using demo_good by (simp_all add: good_ref_def)
  from index_agrees_with_contents [OF this, of "[''res://a'']" None] demo_unignored show ?thesis
    by (fastforce simp: demo_old_entry [THEN iffD2] demo_stored)
qed

end
