(* ===== verification/Doc_Commit.thy ===== *)
theory Doc_Commit imports Doc_Index_Properties begin

text \<open>
  \<open>commit_fs_changes\<close> and \<open>create_new_binary_doc\<close> of \<open>project/branch_db/commit.rs\<close>. The ids that the repository
  gives to new documents are the argument \<open>ids\<close>; a repository that has stopped gives none. The
  transaction that fills a new document runs in the background and is taken as done at once.
\<close>

section \<open>Operations\<close>

definition create_new_binary_doc ::
  "('doc, 'h, 'v, 'o, 'd, 'x) db_env \<Rightarrow> string option \<Rightarrow> string \<Rightarrow> 'd list \<Rightarrow> ('d, 'doc, 'h) branch_states \<Rightarrow>
   (unit, 'd \<times> 'd list \<times> ('d, 'doc, 'h) branch_states) outcome" where
  "create_new_binary_doc env username content ids db =
     (case ids of
        [] \<Rightarrow> Inl Panic
      | handle # ids \<Rightarrow>
          let ad = de_doc env; am = de_am env;
              v = am_put am (ad_current ad (ad_new ad)) (am_root am) ''content'' (SBytes content);
              d = ad_commit ad (ad_new ad) v
                \<lparr>cm_username = username, cm_branch_id = None, cm_merge_metadata = None, cm_reverted_to = None,
                 cm_changed_files = None, cm_is_setup = Some False\<rparr>
          in Inr (handle, ids, db\<lparr>repo_docs := (repo_docs db)(handle := d)\<rparr>))"

text \<open>One file: its hash, and its entry.\<close>

type_synonym ('d, 'doc, 'h, 'x) commit_state =
  "('d, 'x) entry list \<times> (string, 'x option) hmap \<times> 'd list \<times> ('d, 'doc, 'h) branch_states"

definition hash_content :: "(string \<Rightarrow> 'x) \<Rightarrow> file_content option \<Rightarrow> (unit, 'x option) outcome" where
  "hash_content hash content =
     (case content of None \<Rightarrow> Inr None | Some c \<Rightarrow> rbind (to_hash hash c) (\<lambda>h. Inr (Some h)))"

definition collect_entry ::
  "('doc, 'h, 'v, 'o, 'd, 'x) db_env \<Rightarrow> string option \<Rightarrow> string \<times> file_content option \<Rightarrow>
   ('d, 'doc, 'h, 'x) commit_state \<Rightarrow> (unit, ('d, 'doc, 'h, 'x) commit_state) outcome" where
  "collect_entry env username = (\<lambda>(path, content) (entries, ret, ids, db).
     rbind (hash_content (de_hash env) content) (\<lambda>hash.
     let ret = hm_insert path hash ret
     in case content of
          Some (CBinary content) \<Rightarrow>
            rbind (create_new_binary_doc env username content ids db) (\<lambda>(handle, ids, db).
            rbind (unwrap hash) (\<lambda>hash. Inr (entries @ [EBinary path handle hash], ret, ids, db)))
        | Some (CString content) \<Rightarrow>
            rbind (unwrap hash) (\<lambda>hash. Inr (entries @ [EText path content hash], ret, ids, db))
        | Some (CScene scene) \<Rightarrow>
            rbind (unwrap hash) (\<lambda>hash. Inr (entries @ [EScene path scene hash], ret, ids, db))
        | None \<Rightarrow> Inr (entries @ [EDelete path], ret, ids, db)))"

definition commit_fs_metadata ::
  "string option \<Rightarrow> ('d, 'h) history_ref \<Rightarrow> ('d, 'h) history_ref option \<Rightarrow> bool \<Rightarrow> changed_file list \<Rightarrow>
   ('d, 'h) commit_metadata" where
  "commit_fs_metadata username at_ref revert is_checking_in changes =
     \<lparr>cm_username = username,
      cm_branch_id = Some (case revert of Some revert \<Rightarrow> hr_branch revert | None \<Rightarrow> hr_branch at_ref),
      cm_merge_metadata = None, cm_reverted_to = map_option hr_heads revert,
      cm_changed_files = Some changes, cm_is_setup = Some is_checking_in\<rparr>"

text \<open>The commit to the shadow document: nothing when the branch has none.\<close>

definition commit_fs_changes ::
  "('doc, 'h::linorder, 'v, 'o, 'd, 'x) db_env \<Rightarrow> string option \<Rightarrow> 'd list \<Rightarrow>
   (string \<times> file_content option) list \<Rightarrow> ('d, 'h) history_ref \<Rightarrow> ('d, 'h) history_ref option \<Rightarrow> bool \<Rightarrow>
   ('d, 'doc, 'h) branch_states \<Rightarrow>
   (unit, (('d, 'h) history_ref \<times> (string, 'x option) hmap) option \<times> 'd list \<times> ('d, 'doc, 'h) branch_states) outcome" where
  "commit_fs_changes env username ids files at_ref revert is_checking_in db =
     rbind (fold_res (collect_entry env username) files ([], [], ids, db)) (\<lambda>(entries, ret, ids, db).
     case hm_get (branch_sync_states db) (hr_branch at_ref) of
       None \<Rightarrow> Inr (None, ids, db)
     | Some st \<Rightarrow>
         (case shadow_doc st of
            None \<Rightarrow> Inr (None, ids, db)
          | Some d \<Rightarrow>
              rbind (commit_entries (de_io env) (de_hash_bytes env) (de_am env) entries (ad_current (de_doc env) d))
                (\<lambda>(v, changes).
              let d = ad_commit (de_doc env) d v (commit_fs_metadata username at_ref revert is_checking_in changes);
                  new_heads = am_heads (de_crdt env) d;
                  db = db\<lparr>branch_sync_states :=
                    hm_insert (hr_branch at_ref) (st\<lparr>shadow_doc := Some d\<rparr>) (branch_sync_states db)\<rparr>;
                  (_, db) = try_reconcile_branch (de_crdt env) (hr_branch at_ref) db
              in Inr (Some (history_ref_new (hr_branch at_ref) new_heads, ret), ids, db))))"

section \<open>The entries of a commit\<close>

definition entry_for :: "(string \<Rightarrow> 'x) \<Rightarrow> string \<times> file_content option \<Rightarrow> ('d, 'x) entry \<Rightarrow> bool" where
  "entry_for hash file en \<longleftrightarrow>
     (case file of
        (path, None) \<Rightarrow> en = EDelete path
      | (path, Some c) \<Rightarrow> \<exists>h. to_hash hash c = Inr h \<and>
          (case c of CString t \<Rightarrow> en = EText path t h | CScene sc \<Rightarrow> en = EScene path sc h
           | CBinary b \<Rightarrow> \<exists>i. en = EBinary path i h))"

definition hashable :: "(string \<Rightarrow> 'x) \<Rightarrow> (string \<times> file_content option) list \<Rightarrow> bool" where
  "hashable hash files \<longleftrightarrow> (\<forall>(path, content)\<in>set files. \<exists>h. hash_content hash content = Inr h)"

definition content_hash :: "(string \<Rightarrow> 'x) \<Rightarrow> file_content option \<Rightarrow> 'x option" where
  "content_hash hash content = Option.bind content (\<lambda>c. get_ok (to_hash hash c))"

text \<open>New documents only, under the ids that are used up.\<close>

definition only_created ::
  "'d list \<Rightarrow> ('d, 'doc, 'h) branch_states \<Rightarrow> 'd list \<Rightarrow> ('d, 'doc, 'h) branch_states \<Rightarrow> bool" where
  "only_created ids db ids' db' \<longleftrightarrow> branch_sync_states db' = branch_sync_states db \<and>
     binary_states db' = binary_states db \<and> set ids' \<subseteq> set ids \<and>
     (\<forall>i. i \<notin> set ids \<longrightarrow> repo_docs db' i = repo_docs db i)"

lemma only_created_trans:
  "only_created ids db ids1 db1 \<Longrightarrow> only_created ids1 db1 ids2 db2 \<Longrightarrow> only_created ids db ids2 db2"
  unfolding only_created_def by (metis subset_iff)

lemma collect_entry_ok:
  assumes "hash_content (de_hash env) content = Inr h" and "ids \<noteq> []"
  shows "\<exists>en ids' db'. collect_entry env username (path, content) (entries, ret, ids, db) =
      Inr (entries @ [en], hm_insert path (content_hash (de_hash env) content) ret, ids', db') \<and>
    entry_for (de_hash env) (path, content) en \<and> length ids \<le> length ids' + 1 \<and> only_created ids db ids' db'"
proof (cases content)
  case None
  with assms show ?thesis
    by (simp add: collect_entry_def hash_content_def entry_for_def content_hash_def only_created_def)
next
  case (Some c)
  with assms(1) obtain x where x: "to_hash (de_hash env) c = Inr x" "h = Some x"
    by (auto simp: hash_content_def rbind_eq_Inr_iff)
  obtain i ids' where "ids = i # ids'" using assms(2) by (cases ids) auto
  with x Some show ?thesis
    by (cases c) (simp_all add: collect_entry_def hash_content_def entry_for_def content_hash_def
        create_new_binary_doc_def only_created_def Let_def subset_insertI)
qed

lemma collect_entries_ok:
  assumes "hashable (de_hash env) files" and "length files \<le> length ids"
  shows "\<exists>ens ids' db'. fold_res (collect_entry env username) files (entries, ret, ids, db) =
      Inr (entries @ ens, fold (\<lambda>(path, c). hm_insert path (content_hash (de_hash env) c)) files ret, ids', db') \<and>
    list_all2 (entry_for (de_hash env)) files ens \<and> only_created ids db ids' db'"
  using assms
proof (induction files arbitrary: entries ret ids db)
  case Nil
  then show ?case by (simp add: only_created_def)
next
  case (Cons f files)
  obtain path content where f: "f = (path, content)" by (cases f)
  with Cons.prems obtain h where h: "hash_content (de_hash env) content = Inr h" 
    by (auto simp: hashable_def)
  have ids: "ids \<noteq> []" using Cons.prems(2) by auto
  obtain en ids1 db1 where one: "collect_entry env username (path, content) (entries, ret, ids, db) =
      Inr (entries @ [en], hm_insert path (content_hash (de_hash env) content) ret, ids1, db1)"
    "entry_for (de_hash env) (path, content) en" "length ids \<le> length ids1 + 1" "only_created ids db ids1 db1"
    using collect_entry_ok [OF h ids] by blast
  have "hashable (de_hash env) files" "length files \<le> length ids1"
    using Cons.prems one(3) by (auto simp: hashable_def)
  from Cons.IH [OF this, of "entries @ [en]" "hm_insert path (content_hash (de_hash env) content) ret" db1]
  obtain ens ids2 db2 where "fold_res (collect_entry env username) files
      (entries @ [en], hm_insert path (content_hash (de_hash env) content) ret, ids1, db1) =
      Inr (entries @ en # ens, fold (\<lambda>(path, c). hm_insert path (content_hash (de_hash env) c)) files
        (hm_insert path (content_hash (de_hash env) content) ret), ids2, db2)"
    "list_all2 (entry_for (de_hash env)) files ens" "only_created ids1 db1 ids2 db2" by auto
  with one only_created_trans show ?case by (auto simp: f)
qed

lemma entry_for_path: "entry_for hash (path, content) en \<Longrightarrow> entry_path en = path"
  by (cases content; cases "the content") (auto simp: entry_for_def)

lemma entries_for_paths: "list_all2 (entry_for hash) files ens \<Longrightarrow> map entry_path ens = map fst files"
  by (induction rule: list_all2_induct) (auto dest: entry_for_path)

section \<open>The commit\<close>

text \<open>What the code relies on: right after a commit the document reads, at its heads, as the transaction
  left it, and it stays so.\<close>

definition commit_law :: "('doc, 'h::linorder) crdt \<Rightarrow> ('doc, 'h, 'v, 'm) am_doc \<Rightarrow> bool" where
  "commit_law am ad \<longleftrightarrow> (\<forall>d v m. let d' = ad_commit ad d v m; heads = sort (am_heads am d')
     in ad_at ad d' heads = v \<and> history_kept am ad d' heads)"

lemma try_reconcile_grows_doc:
  assumes "try_reconcile am d st = (r, d', st')" and "shadow_doc st = Some s"
  shows "\<exists>s'. shadow_doc st' = Some s' \<and> doc_grows am ad s s'"
proof -
  have "doc_grows am ad s (snd (am_merge am s d))" by (rule grows_merge [OF grows_refl])
  then show ?thesis
    using assms by (auto simp: try_reconcile_def Let_def intro: grows_refl split: if_splits prod.splits)
qed

lemma try_reconcile_branch_shadow:
  assumes "hm_get (branch_sync_states db) b = Some st" and "shadow_doc st = Some s"
    and "try_reconcile_branch am b db = (ok, db')"
  shows "\<exists>st' s'. hm_get (branch_sync_states db') b = Some st' \<and> shadow_doc st' = Some s' \<and> doc_grows am ad s s' \<and>
    binary_states db' = binary_states db"
proof -
  obtain r d st' where run: "try_reconcile am (repo_docs db (canonical_doc st)) st = (r, d, st')"
    by (cases "try_reconcile am (repo_docs db (canonical_doc st)) st")
  obtain o1 o2 where r: "r = (o1, o2)" by (cases r)
  from try_reconcile_grows_doc [OF run assms(2)] obtain s' where "shadow_doc st' = Some s'" "doc_grows am ad s s'"
    by blast
  with assms(1,3) run show ?thesis by (auto simp: try_reconcile_branch_def r hm_get_insert)
qed

text \<open>What the index should have for a path after \<open>changes\<close> were committed over a view.\<close>

definition committed_hash ::
  "('doc, 'h, 'v, 'o, 'd, 'x) db_env \<Rightarrow> 'v \<Rightarrow> 'o \<Rightarrow> (string \<times> file_content option) list \<Rightarrow> string \<Rightarrow> 'x option" where
  "committed_hash env v files changes p =
     (case hm_get changes p of None \<Rightarrow> stored_at env v files p | Some content \<Rightarrow> content_hash (de_hash env) content)"

lemma holds_stored:
  assumes "holds_entry (de_io env) (de_from_slice env) (de_am env) files v en"
    and "entry_for (de_hash env) (p, content) en" and "hm_get changes p = Some content"
  shows "stored_at env v files p = committed_hash env w files changes p \<and>
    (\<forall>e. entry_of (de_am env) files v p = Some e \<longrightarrow>
       (\<exists>h. stored_hash (de_from_slice env) (de_am env) v e = Inr h))"
proof (cases content)
  case None
  with assms have "am_get (de_am env) v files p = Inr None" by (simp add: entry_for_def)
  with None assms(3) show ?thesis by (simp add: stored_at_def committed_hash_def content_hash_def entry_of_def)
next
  case (Some c)
  with assms(1,2) show ?thesis
    by (cases c) (auto simp: entry_for_def stored_at_def committed_hash_def content_hash_def assms(3))
qed

lemma committed_view:
  assumes "am_laws (de_am env) files" and "id_laws (de_io env)"
    and "\<forall>h. de_from_slice env (de_hash_bytes env h) = Some h"
    and "maps_only (de_am env) files v" and stored: "all_stored env v files"
    and entries: "list_all2 (entry_for (de_hash env)) changes entries" and dist: "distinct (map fst changes)"
  shows "\<exists>v' cs. commit_entries (de_io env) (de_hash_bytes env) (de_am env) entries v = Inr (v', cs) \<and>
    maps_only (de_am env) files v' \<and> all_stored env v' files \<and>
    (\<forall>q. q \<notin> fst ` set changes \<longrightarrow> am_get (de_am env) v' files q = am_get (de_am env) v files q) \<and>
    stored_at env v' files = committed_hash env v files changes"
proof -
  let ?am = "de_am env"
  have paths: "map entry_path entries = map fst changes" using entries by (rule entries_for_paths)
  from commit_entries_holds [OF assms(1-4), of entries] dist obtain v' where
    run: "commit_entries (de_io env) (de_hash_bytes env) ?am entries v = Inr (v', map (entry_change ?am files v) entries)"
    and maps: "maps_only ?am files v'"
    and other: "\<forall>q. q \<notin> entry_path ` set entries \<longrightarrow> am_get ?am v' files q = am_get ?am v files q"
    and held: "\<forall>en\<in>set entries. holds_entry (de_io env) (de_from_slice env) ?am files v' en"
    and kept: "\<forall>q e. q \<notin> entry_path ` set entries \<and> entry_of ?am files v q = Some e \<longrightarrow>
       entry_of ?am files v' q = Some e \<and>
       stored_hash (de_from_slice env) ?am v' e = stored_hash (de_from_slice env) ?am v e"
    by (auto simp: paths)
  have set_paths: "entry_path ` set entries = fst ` set changes" using paths by (metis list.set_map)
  have at: "stored_at env v' files p = committed_hash env v files changes p \<and>
      (\<forall>e. entry_of ?am files v' p = Some e \<longrightarrow> (\<exists>h. stored_hash (de_from_slice env) ?am v' e = Inr h))" for p
  proof (cases "hm_get changes p")
    case None
    then have p: "p \<notin> entry_path ` set entries" unfolding set_paths by (simp add: map_of_eq_None_iff)
    with other have same: "entry_of ?am files v' p = entry_of ?am files v p" by (simp add: entry_of_def)
    show ?thesis
    proof (cases "entry_of ?am files v p")
      case (Some e)
      with kept p stored None same show ?thesis by (simp add: stored_at_def committed_hash_def all_stored_def)
    qed (use None same in \<open>simp add: stored_at_def committed_hash_def\<close>)
  next
    case (Some content)
    then have "(p, content) \<in> set changes" by (rule map_of_SomeD)
    with entries obtain en where "en \<in> set entries" "entry_for (de_hash env) (p, content) en"
      by (metis in_set_conv_nth list_all2_conv_all_nth)
    with held Some show ?thesis by (auto dest: holds_stored)
  qed
  then have "all_stored env v' files" "stored_at env v' files = committed_hash env v files changes"
    by (auto simp: all_stored_def)
  with run maps other set_paths show ?thesis by auto
qed

definition commit_env :: "('doc, 'h::linorder, 'v, 'o, 'd, 'x) db_env \<Rightarrow> 'o \<Rightarrow> bool" where
  "commit_env env files \<longleftrightarrow> am_laws (de_am env) files \<and> id_laws (de_io env) \<and>
     (\<forall>h. de_from_slice env (de_hash_bytes env h) = Some h) \<and> commit_law (de_crdt env) (de_doc env)"

text \<open>The keys of the file map are those of the entries, also after the paths \<open>ps\<close> were written.\<close>

definition keys_law :: "('v, 'o) am_ops \<Rightarrow> 'o \<Rightarrow> 'v \<Rightarrow> string set \<Rightarrow> bool" where
  "keys_law am files v ps \<longleftrightarrow>
     (\<forall>w. maps_only am files w \<and> (\<forall>q. q \<notin> ps \<longrightarrow> am_get am w files q = am_get am v files q) \<longrightarrow> files_ok am w files)"

lemma hm_length_le: "hm_wf m \<Longrightarrow> set (hm_keys m) \<subseteq> set ks \<Longrightarrow> length m \<le> length ks"
  unfolding hm_wf_def by (metis card_length card_mono distinct_card finite_set le_trans length_map)

lemma keys_law_mono: "keys_law am files v ps \<Longrightarrow> qs \<subseteq> ps \<Longrightarrow> keys_law am files v qs"
  unfolding keys_law_def by blast

lemma hm_wf_fold_insert: "hm_wf m \<Longrightarrow> hm_wf (fold (\<lambda>(k, x). hm_insert k (f x)) xs m)"
  by (induction xs arbitrary: m) auto

lemma fold_insert_get:
  assumes "distinct (map fst xs)"
  shows "hm_get (fold (\<lambda>(k, x). hm_insert k (f x)) xs m) p =
    (case hm_get xs p of None \<Rightarrow> hm_get m p | Some x \<Rightarrow> Some (f x))"
  using assms
proof (induction xs arbitrary: m)
  case (Cons kx xs)
  obtain k x where "kx = (k, x)" by (cases kx)
  moreover from this Cons.prems have "hm_get xs k = None" by (simp add: map_of_eq_None_iff)
  ultimately show ?case using Cons by (cases "p = k") (simp_all add: hm_get_insert split: option.split)
qed simp

text \<open>The run of a commit: the view it commits, and that its reference shows this view.\<close>

lemma commit_fs_changes_view:
  assumes env: "commit_env env files"
    and st: "hm_get (branch_sync_states db) (hr_branch r) = Some st" "shadow_doc st = Some d"
    and view: "maps_only (de_am env) files (ad_current (de_doc env) d)" "all_stored env (ad_current (de_doc env) d) files"
    and changes: "distinct (map fst changes)" "hashable (de_hash env) changes" "length changes \<le> length ids"
  shows "\<exists>r' ret ids' db' v. commit_fs_changes env username ids changes r revert is_checking_in db =
      Inr (Some (r', ret), ids', db') \<and> hr_branch r' = hr_branch r \<and>
    (\<forall>p. hm_get ret p = map_option (content_hash (de_hash env)) (hm_get changes p)) \<and> hm_wf ret \<and>
    view_at env r' db' v \<and> shadow_kept env r' db' \<and> maps_only (de_am env) files v \<and> all_stored env v files \<and>
    (\<forall>q. q \<notin> fst ` set changes \<longrightarrow>
       am_get (de_am env) v files q = am_get (de_am env) (ad_current (de_doc env) d) files q) \<and>
    stored_at env v files = committed_hash env (ad_current (de_doc env) d) files changes \<and>
    (\<exists>m db1. r' = history_ref_new (hr_branch r) (am_heads (de_crdt env) (ad_commit (de_doc env) d v m)) \<and>
       only_created ids db ids' db1 \<and>
       db' = snd (try_reconcile_branch (de_crdt env) (hr_branch r) (db1\<lparr>branch_sync_states :=
         hm_insert (hr_branch r) (st\<lparr>shadow_doc := Some (ad_commit (de_doc env) d v m)\<rparr>) (branch_sync_states db1)\<rparr>)))"
proof -
  let ?am = "de_am env" and ?ad = "de_doc env"
  from collect_entries_ok [OF changes(2,3), of username "[]" "[]" db] obtain ens ids1 db1 where
    collect: "fold_res (collect_entry env username) changes ([], [], ids, db) =
      Inr (ens, fold (\<lambda>(path, c). hm_insert path (content_hash (de_hash env) c)) changes [], ids1, db1)"
    and ens: "list_all2 (entry_for (de_hash env)) changes ens"
    and created: "only_created ids db ids1 db1" by auto
  then have same: "branch_sync_states db1 = branch_sync_states db" by (simp add: only_created_def)
  from env have laws: "am_laws ?am files" "id_laws (de_io env)" "\<forall>h. de_from_slice env (de_hash_bytes env h) = Some h"
    and commit: "commit_law (de_crdt env) ?ad" by (simp_all add: commit_env_def)
  from committed_view [OF laws view ens changes(1)] obtain v cs where
    run: "commit_entries (de_io env) (de_hash_bytes env) ?am ens (ad_current ?ad d) = Inr (v, cs)"
    and v: "maps_only ?am files v" "all_stored env v files"
      "\<forall>q. q \<notin> fst ` set changes \<longrightarrow> am_get ?am v files q = am_get ?am (ad_current ?ad d) files q"
      "stored_at env v files = committed_hash env (ad_current ?ad d) files changes" by blast
  define d1 where "d1 = ad_commit ?ad d v (commit_fs_metadata username r revert is_checking_in cs)"
  define r' where "r' = history_ref_new (hr_branch r) (am_heads (de_crdt env) d1)"
  define db2 where "db2 = db1\<lparr>branch_sync_states :=
      hm_insert (hr_branch r) (st\<lparr>shadow_doc := Some d1\<rparr>) (branch_sync_states db1)\<rparr>"
  obtain ok db3 where reconcile: "try_reconcile_branch (de_crdt env) (hr_branch r) db2 = (ok, db3)" by fastforce
  have st2: "hm_get (branch_sync_states db2) (hr_branch r) = Some (st\<lparr>shadow_doc := Some d1\<rparr>)"
    by (simp add: db2_def hm_get_insert)
  from try_reconcile_branch_shadow [OF st2 _ reconcile, of d1 ?ad] obtain st3 d3 where
    st3: "hm_get (branch_sync_states db3) (hr_branch r) = Some st3" "shadow_doc st3 = Some d3"
    and grows: "doc_grows (de_crdt env) ?ad d1 d3" by auto
  have "ad_at ?ad d1 (hr_heads r') = v \<and> history_kept (de_crdt env) ?ad d1 (hr_heads r')"
    using commit unfolding commit_law_def r'_def d1_def history_ref_new_def by (simp add: Let_def)
  with history_kept_grows [OF _ grows] have "ad_at ?ad d3 (hr_heads r') = v" "history_kept (de_crdt env) ?ad d3 (hr_heads r')"
    by auto
  moreover have branch: "hr_branch r' = hr_branch r" by (simp add: r'_def history_ref_new_def)
  ultimately have "view_at env r' db3 v" "shadow_kept env r' db3"
    using st3 by (auto simp: view_at_def read_shadow_def with_shadow_ok [OF st3] shadow_kept_def)
  moreover have "commit_fs_changes env username ids changes r revert is_checking_in db =
      Inr (Some (r', fold (\<lambda>(path, c). hm_insert path (content_hash (de_hash env) c)) changes []), ids1, db3)"
    using st reconcile
    by (simp add: commit_fs_changes_def collect same run d1_def [symmetric] db2_def [symmetric, unfolded same] r'_def Let_def)
  moreover have "hm_wf (fold (\<lambda>(path, c). hm_insert path (content_hash (de_hash env) c)) changes [])"
    by (rule hm_wf_fold_insert) simp
  moreover have "hm_get (fold (\<lambda>(path, c). hm_insert path (content_hash (de_hash env) c)) changes []) p =
      map_option (content_hash (de_hash env)) (hm_get changes p)" for p
    by (simp add: fold_insert_get [OF changes(1)] split: option.split)
  moreover have "db3 = snd (try_reconcile_branch (de_crdt env) (hr_branch r) db2)" by (simp add: reconcile)
  ultimately show ?thesis using branch v created unfolding r'_def db2_def d1_def by blast
qed

text \<open>Committing changed files to a branch whose entries all have stored hashes gives a reference whose hash
  index needs nothing computed and is exact: the committed files with the hashes of their contents,
  without the deleted ones, and every other file with the hash it had. The reconciliation that follows,
  whatever it merges or when it fails, does not change what the new reference shows.\<close>

theorem commit_updates_index:
  assumes "commit_env env files"
    and "hm_get (branch_sync_states db) (hr_branch r) = Some st" and "shadow_doc st = Some d"
    and "maps_only (de_am env) files (ad_current (de_doc env) d)"
    and "all_stored env (ad_current (de_doc env) d) files"
    and "keys_law (de_am env) files (ad_current (de_doc env) d) (fst ` set changes)"
    and "distinct (map fst changes)" and "hashable (de_hash env) changes" and "length changes \<le> length ids"
  shows "\<exists>r' ret ids' db' idx.
    commit_fs_changes env username ids changes r revert is_checking_in db = Inr (Some (r', ret), ids', db') \<and>
    hr_branch r' = hr_branch r \<and>
    (\<forall>p. hm_get ret p = map_option (content_hash (de_hash env)) (hm_get changes p)) \<and>
    get_hash_index env other_user r' db' = Inr (idx, db') \<and>
    (\<forall>p. hm_get idx p =
       (if ignored_path env p then None
        else case hm_get changes p of
               Some content \<Rightarrow> content_hash (de_hash env) content
             | None \<Rightarrow> stored_at env (ad_current (de_doc env) d) files p))"
proof -
  from commit_fs_changes_view [OF assms(1-5) assms(7-9), of username revert is_checking_in] obtain r' ret ids' db' v
    where run: "commit_fs_changes env username ids changes r revert is_checking_in db = Inr (Some (r', ret), ids', db')"
      "hr_branch r' = hr_branch r"
      "\<forall>p. hm_get ret p = map_option (content_hash (de_hash env)) (hm_get changes p)"
    and view: "view_at env r' db' v" and v: "maps_only (de_am env) files v" "all_stored env v files"
      "\<forall>q. q \<notin> fst ` set changes \<longrightarrow>
         am_get (de_am env) v files q = am_get (de_am env) (ad_current (de_doc env) d) files q"
      "stored_at env v files = committed_hash env (ad_current (de_doc env) d) files changes" by blast
  from assms(6) v(1,3) have "files_ok (de_am env) v files" unfolding keys_law_def by blast
  from get_hash_index_stored [OF view this v(2), of other_user] run show ?thesis
    unfolding v(4) by (auto simp: committed_hash_def split: option.splits)
qed

lemma demo_db_io_laws: "id_laws demo_db_io"
  using demo_io_laws by (auto simp: id_laws_def demo_db_io_def simp del: replicate_Suc)

lemma demo_commit_law: "commit_law demo_doc_crdt (demo_ad :: (_, _, _, 'm) am_doc)"
  unfolding commit_law_def Let_def
proof (intro allI conjI)
  fix d v and m :: 'm
  have heads: "sort (am_heads demo_doc_crdt (v # d)) = [Suc (length d)]" by (simp add: demo_doc_crdt_def)
  show "ad_at demo_ad (ad_commit demo_ad d v m) (sort (am_heads demo_doc_crdt (ad_commit demo_ad d v m))) = v"
    by (simp add: heads) (simp add: demo_ad_def nth_append)
  show "history_kept demo_doc_crdt (demo_ad :: (_, _, _, 'm) am_doc) (ad_commit demo_ad d v m)
      (sort (am_heads demo_doc_crdt (ad_commit demo_ad d v m)))"
    unfolding demo_env_simps heads by (rule demo_kept) simp_all
qed

lemma demo_commit_env: "commit_env demo_db_env DFiles"
  using demo_doc_laws demo_db_io_laws demo_commit_law by (simp add: commit_env_def)

lemma demo_keys: "keys_law demo_doc_ops DFiles demo_new {''res://a''}"
proof -
  have "files_ok demo_doc_ops w DFiles"
    if same: "\<And>q. q \<noteq> ''res://a'' \<Longrightarrow> demo_get w DFiles q = demo_get demo_new DFiles q" for w
  proof -
    have "w q = None" if "q \<noteq> ''res://a''" for q
      using same [OF that] that by (simp add: demo_new_def demo_file_def split: option.splits)
    then have "p \<in> set (am_keys demo_doc_ops w DFiles) \<longleftrightarrow> demo_get w DFiles p \<noteq> None" for p
      by (cases "p = ''res://a''") (auto split: option.split)
    moreover have "distinct (am_keys demo_doc_ops w DFiles)" by simp
    ultimately show ?thesis by (simp add: files_ok_def demo_maps_only del: demo_ops(4))
  qed
  then show ?thesis by (auto simp: keys_law_def)
qed

lemma demo_new_stored: "stored_hash Some demo_doc_ops demo_new (DEntry ''res://a'') = Inr ''y''"
  by (simp add: stored_hash_def demo_new_def demo_file_def demo_field_def)

theorem commit_updates_index_witness:
  "\<exists>r' ret ids' db' idx.
    commit_fs_changes demo_db_env None [False] [(''res://a'', Some (CString ''z''))] (history_ref_new True [2]) None False
      (demo_shadow_db [demo_new, demo_old]) = Inr (Some (r', ret), ids', db') \<and>
    get_hash_index demo_db_env None r' db' = Inr (idx, db') \<and> hm_get idx ''res://a'' = Some ''z''"
proof -
  let ?changes = "[(''res://a'', Some (CString ''z''))]" and ?d = "[demo_new, demo_old]"
  have "hashable id ?changes" "content_hash id (Some (CString ''z'')) = Some ''z''"
    by (simp_all add: hashable_def hash_content_def content_hash_def to_hash_def as_bytes_def)
  moreover have "all_stored demo_db_env demo_new DFiles"
    by (simp add: all_stored_def demo_new_entry demo_new_stored)
  ultimately show ?thesis
    using commit_updates_index [OF demo_commit_env, where db = "demo_shadow_db ?d" and r = "history_ref_new True [2]"
        and st = "(branch_sync_state_new True)\<lparr>shadow_doc := Some ?d\<rparr>" and d = ?d and changes = ?changes
        and ids = "[False]" and username = None and revert = None and is_checking_in = False and other_user = None]
      demo_maps_only demo_keys demo_unignored
    by (auto simp: demo_shadow_db_def history_ref_new_def)
qed

end
