(* ===== verification/File_Sync.thy ===== *)
theory File_Sync imports Doc_Commit begin

text \<open>
  \<open>project/fs/sync_automerge_to_fs.rs\<close> and \<open>project/fs/sync_fs_to_automerge.rs\<close>: the checkout of a history reference
  to the disk, and the commit of the files on disk to a branch.

  A disk is a map from paths to bytes, as in \<open>File_Content\<close>. What the operating system answers on a disk
  (metadata, reads, the walk of the project directory) is the parameter \<open>fs_ops\<close>. A component that
  reads hashes through the cache changes the cache. The ignore rules are those of the database.
\<close>

record fs_ops =
  fo_env :: "(string, string) hmap \<Rightarrow> fs_env"
  fo_roots :: "(string, string) hmap \<Rightarrow> dir_tree list"
  fo_canonicalize :: "(string, string) hmap \<Rightarrow> string \<Rightarrow> string option"
  fo_can_write :: "string \<Rightarrow> bool"
  fo_can_remove :: "string \<Rightarrow> bool"

definition ignores :: "('doc, 'h, 'v, 'o, 'd, 'x) db_env \<Rightarrow> string \<Rightarrow> bool \<Rightarrow> bool" where
  "ignores env = should_ignore (de_project_dir env) (de_gitignore env)"

definition current_files ::
  "('s, 'x) hasher \<Rightarrow> fs_ops \<Rightarrow> ('doc, 'h, 'v, 'o, 'd, 'x) db_env \<Rightarrow> (string, string) hmap \<Rightarrow> 'x index_state \<Rightarrow>
   (string, 'x) hmap \<times> 'x index_state" where
  "current_files H fs env disk ix = get_all_files H (fo_env fs disk) (ignores env) (fo_roots fs disk) ix"

definition localize_all :: "('doc, 'h, 'v, 'o, 'd, 'x) db_env \<Rightarrow> (string, 'x) hmap \<Rightarrow> (string, 'x) hmap" where
  "localize_all env files = hm_collect (map (\<lambda>(k, v). (localize_path (de_project_dir env) k, v)) files)"

section \<open>From a document to the disk\<close>

text \<open>The changes that a checkout would make: nothing when there is nothing to check out or it failed.\<close>

definition checkout_ref ::
  "('s, 'x) hasher \<Rightarrow> fs_ops \<Rightarrow> ('doc, 'h, 'v, 'o, 'd, 'x) db_env \<Rightarrow> string option \<Rightarrow>
   ('d, 'h) history_ref option \<Rightarrow> ('d, 'h) history_ref \<Rightarrow>
   (string, string) hmap \<Rightarrow> 'x index_state \<Rightarrow> ('d, 'doc, 'h) branch_states \<Rightarrow>
   (unit, (string, change_type \<times> file_content option) hmap option \<times> 'x index_state \<times> ('d, 'doc, 'h) branch_states) outcome" where
  "checkout_ref H fs env username current_ref goal_ref disk ix db =
     (if current_ref = Some goal_ref then Inr (None, ix, db)
      else
        let (files, ix) = current_files H fs env disk ix;
            current = localize_all env files
        in case get_hash_index env username goal_ref db of
             Inl (Err _) \<Rightarrow> Inr (None, ix, db)
           | Inl Panic \<Rightarrow> Inl Panic
           | Inl Diverges \<Rightarrow> Inl Diverges
           | Inr (goal_files, db) \<Rightarrow>
               let changes = get_file_changes current goal_files
               in if changes = [] then Inr (Some [], ix, db)
                  else case get_files_at_ref env goal_ref (hm_keys changes) db of
                         Inl (Err _) \<Rightarrow> Inr (None, ix, db)
                       | Inl Panic \<Rightarrow> Inl Panic
                       | Inl Diverges \<Rightarrow> Inl Diverges
                       | Inr contents \<Rightarrow>
                           Inr (Some (joined_changes (globalize_path (de_project_dir env)) changes contents), ix, db))"

definition compare_hashes ::
  "('s, 'x) hasher \<Rightarrow> fs_ops \<Rightarrow> (string \<Rightarrow> 'x) \<Rightarrow> string \<Rightarrow> file_content \<Rightarrow> (string, string) hmap \<Rightarrow> 'x index_state \<Rightarrow>
   (unit, bool \<times> 'x index_state) outcome" where
  "compare_hashes H fs hash path content disk ix =
     (case get_hash H (fo_env fs disk) path ix of
        (Inr existing_hash, ix) \<Rightarrow> rbind (to_hash hash content) (\<lambda>h. Inr (h = existing_hash, ix))
      | (Inl _, ix) \<Rightarrow> Inr (False, ix))"

definition handle_file_update ::
  "('s, 'x) hasher \<Rightarrow> fs_ops \<Rightarrow> ('doc, 'h, 'v, 'o, 'd, 'x) db_env \<Rightarrow> string \<Rightarrow> file_content \<Rightarrow>
   (string, string) hmap \<times> 'x index_state \<Rightarrow> (unit, bool \<times> (string, string) hmap \<times> 'x index_state) outcome" where
  "handle_file_update H fs env path content = (\<lambda>(disk, ix).
     if ignores env path False then Inr (False, disk, ix)
     else rbind (compare_hashes H fs (de_hash env) path content disk ix) (\<lambda>(same, ix).
          if same then Inr (False, disk, ix)
          else case write_file_content (de_hash env) (fo_can_write fs) path content disk of
                 Inl (Err _) \<Rightarrow> Inr (False, disk, ix)
               | Inl Panic \<Rightarrow> Inl Panic
               | Inl Diverges \<Rightarrow> Inl Diverges
               | Inr (_, disk) \<Rightarrow> Inr (True, disk, ix)))"

definition handle_file_delete ::
  "fs_ops \<Rightarrow> ('doc, 'h, 'v, 'o, 'd, 'x) db_env \<Rightarrow> string \<Rightarrow> (string, string) hmap \<Rightarrow> bool \<times> (string, string) hmap" where
  "handle_file_delete fs env path disk =
     (if ignores env path False then (False, disk)
      else case fo_canonicalize fs disk path of
             None \<Rightarrow> (False, disk)
           | Some canon \<Rightarrow> if fo_can_remove fs canon then (True, hm_remove canon disk) else (False, disk))"

text \<open>The body of the checkout futures of \<open>sync_correct_ref\<close>: one change, and the event it reports.\<close>

definition apply_change ::
  "('s, 'x) hasher \<Rightarrow> fs_ops \<Rightarrow> ('doc, 'h, 'v, 'o, 'd, 'x) db_env \<Rightarrow> string \<times> change_type \<times> file_content option \<Rightarrow>
   file_system_event list \<times> (string, string) hmap \<times> 'x index_state \<Rightarrow>
   (unit, file_system_event list \<times> (string, string) hmap \<times> 'x index_state) outcome" where
  "apply_change H fs env = (\<lambda>(path, change_type, content) (events, disk, ix).
     case change_type of
       Deleted \<Rightarrow>
         (case handle_file_delete fs env path disk of
            (True, disk) \<Rightarrow> Inr (events @ [FDeleted path], disk, ix)
          | (False, disk) \<Rightarrow> Inr (events, disk, ix))
     | _ \<Rightarrow>
         rbind (unwrap content) (\<lambda>c.
         rbind (handle_file_update H fs env path c (disk, ix)) (\<lambda>(written, disk, ix).
         Inr (if written then events @ [(if change_type = Created then FCreated else FModified) path c] else events,
              disk, ix))))"

definition apply_changes ::
  "('s, 'x) hasher \<Rightarrow> fs_ops \<Rightarrow> ('doc, 'h, 'v, 'o, 'd, 'x) db_env \<Rightarrow>
   (string, change_type \<times> file_content option) hmap \<Rightarrow> (string, string) hmap \<Rightarrow> 'x index_state \<Rightarrow>
   (unit, file_system_event list \<times> (string, string) hmap \<times> 'x index_state) outcome" where
  "apply_changes H fs env changes disk ix = fold_res (apply_change H fs env) changes ([], disk, ix)"

section \<open>What the code relies on\<close>

text \<open>Of the operating system: a file reads as its bytes, the walk of the project finds every file that is
  not ignored, no path is a link, and writing and removing succeed.\<close>

definition reads_as :: "fs_env \<Rightarrow> string \<Rightarrow> string option \<Rightarrow> bool" where
  "reads_as fe p content \<longleftrightarrow>
     (case content of
        None \<Rightarrow> fs_metadata fe p = Inl NotFound
      | Some b \<Rightarrow> (\<exists>m. fs_metadata fe p = Inr m) \<and>
          (\<exists>chunks. fs_open fe p = Inr (map Inr chunks @ [Inr []]) \<and> (\<forall>c\<in>set chunks. c \<noteq> []) \<and> concat chunks = b))"

definition fs_laws :: "fs_ops \<Rightarrow> ('doc, 'h, 'v, 'o, 'd, 'x) db_env \<Rightarrow> bool" where
  "fs_laws fs env \<longleftrightarrow>
     (\<forall>disk p. reads_as (fo_env fs disk) p (hm_get disk p)) \<and>
     (\<forall>disk p. (\<exists>t\<in>set (fo_roots fs disk). unignored (ignores env) t p) \<longleftrightarrow>
        hm_get disk p \<noteq> None \<and> \<not> ignores env p False) \<and>
     (\<forall>disk p. fo_canonicalize fs disk p = (if hm_get disk p = None then None else Some p)) \<and>
     (\<forall>p. fo_can_write fs p \<and> fo_can_remove fs p)"

text \<open>Of modification times, what every cache by modification time relies on: a file that has the same time and
  the same length in two states of the disk has the same content in both.\<close>

definition stamp_law :: "fs_ops \<Rightarrow> bool" where
  "stamp_law fs \<longleftrightarrow> (\<forall>disk disk' p m m' t.
     fs_metadata (fo_env fs disk) p = Inr m \<and> fm_modified m = Some t \<and>
     fs_metadata (fo_env fs disk') p = Inr m' \<and> fm_modified m' = Some t \<and> fm_len m = fm_len m' \<longrightarrow>
     hm_get disk p = hm_get disk' p)"

definition sync_env :: "('s, 'x) hasher \<Rightarrow> fs_ops \<Rightarrow> ('doc, 'h, 'v, 'o, 'd, 'x) db_env \<Rightarrow> bool" where
  "sync_env H fs env \<longleftrightarrow> hasher_law H (de_hash env) \<and> fs_laws fs env \<and> stamp_law fs \<and>
     project_dir_ok (de_project_dir env)"

text \<open>The files of the project lie below its directory.\<close>

definition project_disk :: "('doc, 'h, 'v, 'o, 'd, 'x) db_env \<Rightarrow> (string, string) hmap \<Rightarrow> bool" where
  "project_disk env disk \<longleftrightarrow> (\<forall>p. hm_get disk p \<noteq> None \<and> \<not> ignores env p False \<longrightarrow>
     (\<exists>q. p = de_project_dir env @ q \<and> relative_ok q))"

lemma sync_env_read: "sync_env H fs env \<Longrightarrow> reads_as (fo_env fs disk) p (hm_get disk p)"
  by (simp add: sync_env_def fs_laws_def)

lemma sync_env_hash:
  assumes "sync_env H fs env"
  shows "file_hash H (fo_env fs disk) p = map_option (de_hash env) (hm_get disk p)"
proof (cases "hm_get disk p")
  case None
  with sync_env_read [OF assms, of disk p] show ?thesis by (simp add: reads_as_def file_hash_def)
next
  case (Some b)
  with sync_env_read [OF assms, of disk p] obtain m chunks where
    "fs_metadata (fo_env fs disk) p = Inr m" "fs_open (fo_env fs disk) p = Inr (map Inr chunks @ [Inr []])"
    "\<forall>c\<in>set chunks. c \<noteq> []" "concat chunks = b" by (auto simp: reads_as_def)
  moreover have "hasher_law H (de_hash env)" using assms by (simp add: sync_env_def)
  ultimately show ?thesis using Some hash_reads_chunks [of chunks H "h_new H"]
    by (simp add: file_hash_def compute_hash_def hasher_law_def)
qed

section \<open>The cache\<close>

text \<open>A cache each of whose entries holds the hash of the content that has its time and length, in whatever
  state of the disk: the entries the program makes are such, whatever happens to the disk later.\<close>

definition index_honest :: "('s, 'x) hasher \<Rightarrow> fs_ops \<Rightarrow> 'x index_state \<Rightarrow> bool" where
  "index_honest H fs ix \<longleftrightarrow> (\<forall>disk. index_coherent H (fo_env fs disk) ix)"

lemma honest_coherent: "index_honest H fs ix \<Longrightarrow> index_coherent H (fo_env fs disk) ix"
  by (simp add: index_honest_def)

lemma honest_empty [simp]: "index_honest H fs \<lparr>ix_keyspace = Some [], ix_db_ok = ok\<rparr>"
  by (simp add: index_honest_def index_coherent_def)

lemma insert_hash_honest:
  assumes env: "sync_env H fs env" and "index_honest H fs ix" and m: "fs_metadata (fo_env fs disk) p = Inr m"
    and h: "compute_hash H (fo_env fs disk) p = Inr h" and "insert_hash_into_db ix p h m = Inr ix'"
  shows "index_honest H fs ix'"
  unfolding index_honest_def index_coherent_def
proof (intro allI impI, elim conjE)
  fix disk' ks q e m'
  assume e: "ix_keyspace ix' = Some ks" "hm_get ks q = Some (Some e)" "fs_metadata (fo_env fs disk') q = Inr m'"
    "entry_matches e m' = Inr True"
  from assms(5) obtain ks0 t where ks0: "ix_keyspace ix = Some ks0" and t: "fm_modified m = Some t"
    and ix': "ix' = ix\<lparr>ix_keyspace :=
      Some (hm_insert p (Some \<lparr>fe_last_modified = t, fe_size = fm_len m, fe_hash = h\<rparr>) ks0)\<rparr>"
    by (cases "fm_modified m")
      (auto simp: insert_hash_into_db_def rbind_eq_Inr_iff entry_from_metadata_def fs_error_def split: if_splits sum.splits)
  show "compute_hash H (fo_env fs disk') q = Inr (fe_hash e)"
  proof (cases "q = p")
    case False
    with e ks0 have "hm_get ks0 q = Some (Some e)" by (auto simp: ix' hm_get_insert)
    with e ks0 honest_coherent [OF assms(2)] show ?thesis unfolding index_coherent_def by blast
  next
    case True
    with e have same: "fm_modified m' = Some t" "fm_len m' = fm_len m" and eh: "fe_hash e = h"
      by (auto simp: ix' hm_get_insert entry_matches_def rbind_eq_Inr_iff ok_or_def split: option.splits)
    from env have "stamp_law fs" by (simp add: sync_env_def)
    with m t e(3) same True have "hm_get disk p = hm_get disk' p" unfolding stamp_law_def by metis
    then have "file_hash H (fo_env fs disk') p = file_hash H (fo_env fs disk) p"
      by (simp add: sync_env_hash [OF env])
    with m h e(3) True show ?thesis
      by (cases "compute_hash H (fo_env fs disk') q") (simp_all add: file_hash_def eh)
  qed
qed

lemma get_hash_honest:
  assumes env: "sync_env H fs env" and ix: "index_honest H fs ix"
  shows "index_honest H fs (snd (get_hash H (fo_env fs disk) p ix))"
  using ix insert_hash_honest [OF env ix, of disk p]
  by (auto simp: get_hash_def fs_error_def split: io_error.split sum.splits option.splits)

lemma hash_files_honest:
  assumes env: "sync_env H fs env" and "index_honest H fs ix"
  shows "index_honest H fs (snd (hash_files H (fo_env fs disk) files ix))"
  using assms(2)
proof (induction files arbitrary: ix)
  case (Cons f files)
  from Cons.IH [OF get_hash_honest [OF env Cons.prems, of disk f]] show ?case
    by (cases "get_hash H (fo_env fs disk) f ix") (auto split: prod.splits)
qed simp

lemma get_all_files_honest:
  assumes "sync_env H fs env" and "index_honest H fs ix"
  shows "index_honest H fs (snd (get_all_files H (fo_env fs disk) ignored roots ix))"
  using hash_files_honest [OF assms] by (simp add: get_all_files_def split: prod.split) (metis snd_conv)

section \<open>The files on disk\<close>

lemma current_files_get:
  assumes env: "sync_env H fs env" and "index_honest H fs ix"
  shows "hm_wf (fst (current_files H fs env disk ix)) \<and>
    (\<forall>p. hm_get (fst (current_files H fs env disk ix)) p =
       (if ignores env p False then None else map_option (de_hash env) (hm_get disk p))) \<and>
    index_honest H fs (snd (current_files H fs env disk ix))"
proof -
  have "(\<exists>t\<in>set (fo_roots fs disk). unignored (ignores env) t p) \<longleftrightarrow> hm_get disk p \<noteq> None \<and> \<not> ignores env p False" for p
    using env by (simp add: sync_env_def fs_laws_def)
  with get_all_files_get [OF honest_coherent [OF assms(2)], of disk "ignores env" "fo_roots fs disk"]
    sync_env_hash [OF env] get_all_files_honest [OF assms, of disk "ignores env" "fo_roots fs disk"] show ?thesis
    by (auto simp: current_files_def)
qed

lemma hm_get_collect_inj:
  assumes wf: "hm_wf m" and inj: "inj_on f (set (hm_keys m))"
  shows "hm_get (hm_collect (map (\<lambda>(k, v). (f k, v)) m)) l = Some v \<longleftrightarrow> (\<exists>k. hm_get m k = Some v \<and> l = f k)"
  using hm_get_collect_map [OF assms, of "\<lambda>v. v"] by auto

section \<open>Applying changes\<close>

text \<open>A change as a checkout makes it: a content that can be written, unless the file goes.\<close>

definition writable_change :: "(string \<Rightarrow> 'x) \<Rightarrow> change_type \<times> file_content option \<Rightarrow> bool" where
  "writable_change hash x \<longleftrightarrow>
     (if fst x = Deleted then snd x = None else \<exists>y h. snd x = Some y \<and> to_hash hash y = Inr h)"

definition changed_to ::
  "('doc, 'h, 'v, 'o, 'd, 'x) db_env \<Rightarrow> string \<Rightarrow> file_content option \<Rightarrow> (string, string) hmap \<Rightarrow>
   (string, string) hmap \<Rightarrow> bool" where
  "changed_to env p content disk disk' \<longleftrightarrow>
     (if ignores env p False then hm_get disk' p = hm_get disk p
      else map_option (de_hash env) (hm_get disk' p) = content_hash (de_hash env) content)"

lemma handle_file_update_ok:
  assumes env: "sync_env H fs env" and coherent: "index_honest H fs ix"
    and h: "to_hash (de_hash env) c = Inr h"
  shows "\<exists>written disk' ix'. handle_file_update H fs env p c (disk, ix) = Inr (written, disk', ix') \<and>
    (\<forall>q. q \<noteq> p \<longrightarrow> hm_get disk' q = hm_get disk q) \<and> index_honest H fs ix' \<and>
    changed_to env p (Some c) disk disk' \<and> (written \<longleftrightarrow> \<not> ignores env p False \<and>
      map_option (de_hash env) (hm_get disk p) \<noteq> Some h)"
proof (cases "ignores env p False")
  case True
  with coherent show ?thesis by (auto simp: handle_file_update_def changed_to_def)
next
  case False
  obtain r ix1 where get: "get_hash H (fo_env fs disk) p ix = (r, ix1)" by fastforce
  from get_hash_honest [OF env coherent, of disk p] get have coherent1: "index_honest H fs ix1" by simp
  from get_hash_coherent [OF honest_coherent [OF coherent], of disk p] get have
    r: "\<And>x. r = Inr x \<longleftrightarrow> (\<exists>m. fs_metadata (fo_env fs disk) p = Inr m) \<and>
       compute_hash H (fo_env fs disk) p = Inr x" by auto
  have hash: "r = Inr x \<longleftrightarrow> map_option (de_hash env) (hm_get disk p) = Some x" for x
    unfolding r sync_env_hash [OF env, symmetric] by (auto simp: file_hash_def split: sum.splits)
  have got: "map_option (de_hash env) (hm_get disk p) = get_ok r"
    using hash by (cases "map_option (de_hash env) (hm_get disk p)"; cases r) auto
  have same: "compare_hashes H fs (de_hash env) p c disk ix =
      Inr (map_option (de_hash env) (hm_get disk p) = Some h, ix1)"
    unfolding got using h by (cases r) (auto simp: compare_hashes_def get)
  from h obtain buf where buf: "as_bytes c = Inr buf" "h = de_hash env buf"
    by (auto simp: to_hash_def rbind_eq_Inr_iff)
  have wrote: "write_file_content (de_hash env) (fo_can_write fs) p c disk = Inr (de_hash env buf, hm_insert p buf disk)"
    using env buf by (simp add: write_file_content_def sync_env_def fs_laws_def)
  with False same wrote coherent1 buf h show ?thesis
    by (simp add: handle_file_update_def changed_to_def content_hash_def hm_get_insert)
qed

lemma apply_change_ok:
  assumes env: "sync_env H fs env" and coherent: "index_honest H fs ix"
    and x: "writable_change (de_hash env) (c, content)"
  shows "\<exists>events' disk' ix'. apply_change H fs env (p, c, content) (events, disk, ix) = Inr (events', disk', ix') \<and>
    (\<forall>q. q \<noteq> p \<longrightarrow> hm_get disk' q = hm_get disk q) \<and> index_honest H fs ix' \<and>
    changed_to env p content disk disk'"
proof (cases "c = Deleted")
  case True
  with x have content: "content = None" by (simp add: writable_change_def)
  have canon: "fo_canonicalize fs disk p = (if hm_get disk p = None then None else Some p)"
    and remove: "fo_can_remove fs p" using env by (simp_all add: sync_env_def fs_laws_def)
  with coherent True content canon remove show ?thesis
    by (simp add: apply_change_def handle_file_delete_def changed_to_def content_hash_def hm_get_remove)
next
  case False
  with x obtain y h where y: "content = Some y" "to_hash (de_hash env) y = Inr h"
    by (auto simp: writable_change_def)
  with handle_file_update_ok [OF env coherent y(2), of p disk] False show ?thesis
    by (cases c) (auto simp: apply_change_def)
qed

lemma apply_changes_ok:
  assumes env: "sync_env H fs env" and "index_honest H fs ix" and "hm_wf plan"
    and "\<forall>(p, x)\<in>set plan. writable_change (de_hash env) x"
  shows "\<exists>events' disk' ix'. fold_res (apply_change H fs env) plan (events, disk, ix) = Inr (events', disk', ix') \<and>
    index_honest H fs ix' \<and>
    (\<forall>p. case hm_get plan p of None \<Rightarrow> hm_get disk' p = hm_get disk p
       | Some (_, content) \<Rightarrow> changed_to env p content disk disk')"
  using assms(2-)
proof (induction plan arbitrary: events disk ix)
  case (Cons x plan)
  obtain p c content where x: "x = (p, c, content)" by (cases x)
  from Cons.prems(3) have w: "writable_change (de_hash env) (c, content)" by (simp add: x)
  from apply_change_ok [OF env Cons.prems(1) w, of p events disk] obtain events1 disk1 ix1 where
    one: "apply_change H fs env (p, c, content) (events, disk, ix) = Inr (events1, disk1, ix1)"
    and other: "\<forall>q. q \<noteq> p \<longrightarrow> hm_get disk1 q = hm_get disk q" and coherent: "index_honest H fs ix1"
    and changed: "changed_to env p content disk disk1" by blast
  have "hm_wf plan" and p: "hm_get plan p = None" and "\<forall>(p, x)\<in>set plan. writable_change (de_hash env) x"
    using Cons.prems(2,3) by (auto simp: x hm_wf_def map_of_eq_None_iff)
  from Cons.IH [OF coherent this(1,3), of events1 disk1] obtain events' disk' ix' where
    run: "fold_res (apply_change H fs env) plan (events1, disk1, ix1) = Inr (events', disk', ix')"
      "index_honest H fs ix'"
    and rest: "\<forall>q. case hm_get plan q of None \<Rightarrow> hm_get disk' q = hm_get disk1 q
       | Some (_, content) \<Rightarrow> changed_to env q content disk1 disk'" by blast
  have "case hm_get (x # plan) q of None \<Rightarrow> hm_get disk' q = hm_get disk q
       | Some (_, content) \<Rightarrow> changed_to env q content disk disk'" for q
    using rest [rule_format, of q] rest [rule_format, of p] p other changed
    by (cases "q = p") (auto simp: x changed_to_def split: option.splits)
  with one run show ?case by (auto simp: x)
qed simp

section \<open>The checkout\<close>

definition res_paths :: "('v, 'o) am_ops \<Rightarrow> 'v \<Rightarrow> 'o \<Rightarrow> bool" where
  "res_paths am v files \<longleftrightarrow> (\<forall>l. entry_of am files v l \<noteq> None \<longrightarrow> (\<exists>q. l = res_prefix @ q \<and> relative_ok q))"

lemma ignored_res:
  assumes "sync_env H fs env" and "relative_ok q"
  shows "ignored_path env (res_prefix @ q) = ignores env (de_project_dir env @ q) False"
  using globalize_res [of "de_project_dir env" q] assms by (simp add: ignored_path_def ignores_def sync_env_def)

text \<open>The files on disk under their \<open>res://\<close> paths.\<close>

definition current_localized ::
  "('s, 'x) hasher \<Rightarrow> fs_ops \<Rightarrow> ('doc, 'h, 'v, 'o, 'd, 'x) db_env \<Rightarrow> (string, string) hmap \<Rightarrow> 'x index_state \<Rightarrow>
   (string, 'x) hmap" where
  "current_localized H fs env disk ix = localize_all env (fst (current_files H fs env disk ix))"

lemma current_localized_get:
  assumes env: "sync_env H fs env" and coherent: "index_honest H fs ix" and disk: "project_disk env disk"
  shows "hm_get (current_localized H fs env disk ix) l = Some h \<longleftrightarrow>
    (\<exists>q. l = res_prefix @ q \<and> relative_ok q \<and> \<not> ignores env (de_project_dir env @ q) False \<and>
       map_option (de_hash env) (hm_get disk (de_project_dir env @ q)) = Some h)"
proof -
  let ?pd = "de_project_dir env" and ?files = "fst (current_files H fs env disk ix)"
  have pd: "project_dir_ok ?pd" using env by (simp add: sync_env_def)
  from current_files_get [OF env coherent] have wf: "hm_wf ?files"
    and get: "\<And>p. hm_get ?files p = (if ignores env p False then None else map_option (de_hash env) (hm_get disk p))"
    by auto
  have keys: "\<exists>q. p = ?pd @ q \<and> relative_ok q" if "p \<in> set (hm_keys ?files)" for p
  proof -
    from that have "hm_get ?files p \<noteq> None" by (simp only: hm_get_None_iff not_not)
    with get [of p] have "hm_get disk p \<noteq> None \<and> \<not> ignores env p False" by (auto split: if_splits)
    with disk show ?thesis unfolding project_disk_def by blast
  qed
  have "inj_on (localize_path ?pd) (set (hm_keys ?files))"
    by (rule inj_on_subset [OF localize_inj_on [OF pd]]) (use keys in blast)
  from hm_get_collect_inj [OF wf this, of l h]
  have "hm_get (current_localized H fs env disk ix) l = Some h \<longleftrightarrow>
      (\<exists>p. hm_get ?files p = Some h \<and> l = localize_path ?pd p)" by (simp add: current_localized_def localize_all_def)
  also have "\<dots> \<longleftrightarrow> (\<exists>q. hm_get ?files (?pd @ q) = Some h \<and> relative_ok q \<and> l = localize_path ?pd (?pd @ q))"
  proof
    assume "\<exists>p. hm_get ?files p = Some h \<and> l = localize_path ?pd p"
    then obtain p where p: "hm_get ?files p = Some h" "l = localize_path ?pd p" by blast
    then have "p \<in> set (hm_keys ?files)" by (force dest: map_of_SomeD)
    with keys p show "\<exists>q. hm_get ?files (?pd @ q) = Some h \<and> relative_ok q \<and> l = localize_path ?pd (?pd @ q)" by blast
  qed blast
  also have "\<dots> \<longleftrightarrow> (\<exists>q. l = res_prefix @ q \<and> relative_ok q \<and> hm_get ?files (?pd @ q) = Some h)"
    using localize_below [OF pd] by (metis (no_types, lifting))
  finally show ?thesis by (auto simp: get split: if_splits)
qed

lemma current_localized_res:
  assumes "sync_env H fs env" and "index_honest H fs ix" and "project_disk env disk" and "relative_ok q"
  shows "hm_get (current_localized H fs env disk ix) (res_prefix @ q) =
    (if ignores env (de_project_dir env @ q) False then None
     else map_option (de_hash env) (hm_get disk (de_project_dir env @ q)))"
proof (rule option_ext)
  fix h
  show "hm_get (current_localized H fs env disk ix) (res_prefix @ q) = Some h \<longleftrightarrow>
      (if ignores env (de_project_dir env @ q) False then None
       else map_option (de_hash env) (hm_get disk (de_project_dir env @ q))) = Some h"
    unfolding current_localized_get [OF assms(1-3)] using assms(4) by simp
qed

text \<open>What a plan of changes does, for a disk and the hashes \<open>goal\<close> of the files to check out.\<close>

definition plan_for ::
  "('doc, 'h, 'v, 'o, 'd, 'x) db_env \<Rightarrow> (string, change_type \<times> file_content option) hmap \<Rightarrow> (string, string) hmap \<Rightarrow>
   (string \<Rightarrow> 'x option) \<Rightarrow> bool" where
  "plan_for env plan disk goal \<longleftrightarrow> hm_wf plan \<and> (\<forall>(p, x)\<in>set plan. writable_change (de_hash env) x) \<and>
     (\<forall>p. hm_get plan p \<noteq> None \<longrightarrow> (\<exists>q. p = de_project_dir env @ q \<and> relative_ok q)) \<and>
     (\<forall>q. relative_ok q \<and> \<not> ignores env (de_project_dir env @ q) False \<longrightarrow>
        goal (res_prefix @ q) =
          (case hm_get plan (de_project_dir env @ q) of
             None \<Rightarrow> map_option (de_hash env) (hm_get disk (de_project_dir env @ q))
           | Some (_, content) \<Rightarrow> content_hash (de_hash env) content))"

lemma joined_content_writable:
  assumes "joined_content cs l c = Some x" and "goal = content_hash hash (snd x)"
    and "change_of b goal = Some c"
  shows "writable_change hash x"
proof (cases "c = Deleted")
  case True
  with assms(1) show ?thesis by (auto simp: joined_content_def writable_change_def)
next
  case False
  with assms(3) obtain h where "goal = Some h" by (auto simp: change_of_def split: option.splits)
  then have "content_hash hash (snd x) = Some h" using assms(2) by simp
  then obtain y where "snd x = Some y" "to_hash hash y = Inr h"
    by (cases "snd x") (simp_all add: content_hash_def)
  moreover have "fst x = c" using assms(1) by (auto simp: joined_content_def split: change_type.splits)
  ultimately show ?thesis using False by (simp add: writable_change_def)
qed

lemma plan_for_changes:
  assumes env: "sync_env H fs env" and coherent: "index_honest H fs ix"
    and disk: "project_disk env disk"
    and change: "\<And>l. hm_get changes l = change_of (hm_get (current_localized H fs env disk ix) l) (hm_get idx l)"
    and idx: "\<And>q. relative_ok q \<Longrightarrow> hm_get idx (res_prefix @ q) =
      (if ignores env (de_project_dir env @ q) False then None else goal (res_prefix @ q))"
    and res_key: "\<And>l. hm_get changes l \<noteq> None \<Longrightarrow> \<exists>q. l = res_prefix @ q \<and> relative_ok q"
    and wf: "hm_wf plan"
    and plan: "\<And>p x. hm_get plan p = Some x \<longleftrightarrow> (\<exists>l c. hm_get changes l = Some c \<and>
        p = globalize_path (de_project_dir env) l \<and> joined_content cs l c = Some x)"
    and exact: "\<And>l c. hm_get changes l = Some c \<Longrightarrow> \<exists>x. joined_content cs l c = Some x \<and>
        hm_get idx l = content_hash (de_hash env) (snd x)"
  shows "plan_for env plan disk goal"
proof -
  let ?pd = "de_project_dir env" and ?cur = "current_localized H fs env disk ix"
  have glob: "globalize_path ?pd (res_prefix @ q) = ?pd @ q" if "relative_ok q" for q
    using globalize_res that env by (simp add: sync_env_def)
  have at: "hm_get plan (?pd @ q) = Option.bind (hm_get changes (res_prefix @ q)) (joined_content cs (res_prefix @ q))"
    if q: "relative_ok q" for q
  proof (rule option_ext)
    fix x
    show "hm_get plan (?pd @ q) = Some x \<longleftrightarrow>
        Option.bind (hm_get changes (res_prefix @ q)) (joined_content cs (res_prefix @ q)) = Some x"
      unfolding plan bind_eq_Some_conv using res_key glob q by (metis option.distinct(1) same_append_eq)
  qed
  have "writable_change (de_hash env) x \<and> (\<exists>q. p = ?pd @ q \<and> relative_ok q)" if "hm_get plan p = Some x" for p x
  proof -
    from that plan obtain l c where l: "hm_get changes l = Some c" "p = globalize_path ?pd l"
      "joined_content cs l c = Some x" by blast
    with exact have "hm_get idx l = content_hash (de_hash env) (snd x)" by force
    moreover from res_key [of l] l(1) obtain q where "l = res_prefix @ q" "relative_ok q" by auto
    ultimately show ?thesis
      using joined_content_writable [OF l(3)] change [of l] l(1,2) glob by metis
  qed
  moreover have "goal (res_prefix @ q) =
      (case hm_get plan (?pd @ q) of
         None \<Rightarrow> map_option (de_hash env) (hm_get disk (?pd @ q))
       | Some (_, content) \<Rightarrow> content_hash (de_hash env) content)"
    if q: "relative_ok q" "\<not> ignores env (?pd @ q) False" for q
  proof (cases "hm_get changes (res_prefix @ q)")
    case None
    then have "hm_get ?cur (res_prefix @ q) = hm_get idx (res_prefix @ q)"
      using change by (simp add: change_of_None_iff)
    with None q at idx current_localized_res [OF env coherent disk q(1)] show ?thesis by simp
  next
    case (Some c)
    with exact obtain x where "joined_content cs (res_prefix @ q) c = Some x"
      "hm_get idx (res_prefix @ q) = content_hash (de_hash env) (snd x)" by blast
    with Some q at idx show ?thesis by (cases x) simp
  qed
  ultimately show ?thesis
    unfolding plan_for_def using wf by (auto simp: hm_get_eq_Some_iff [OF wf, symmetric] simp del: split_paired_All)
qed

lemma checkout_ref_plan:
  assumes env: "sync_env H fs env" and coherent: "index_honest H fs ix"
    and disk: "project_disk env disk" and good: "good_ref env r v files db" and res: "res_paths (de_am env) v files"
    and other: "current_ref \<noteq> Some r"
  shows "\<exists>plan ix' db'. checkout_ref H fs env username current_ref r disk ix db = Inr (Some plan, ix', db') \<and>
    index_honest H fs ix' \<and> good_ref env r v files db' \<and> same_binaries db db' \<and>
    plan_for env plan disk (hash_of env db v files) \<and>
    ((\<forall>q. relative_ok q \<and> \<not> ignores env (de_project_dir env @ q) False \<longrightarrow>
        map_option (de_hash env) (hm_get disk (de_project_dir env @ q)) = hash_of env db v files (res_prefix @ q)) \<longrightarrow>
      plan = [])"
proof -
  let ?pd = "de_project_dir env" and ?cur = "current_localized H fs env disk ix"
  obtain files1 ix1 where cur: "current_files H fs env disk ix = (files1, ix1)" by fastforce
  have coherent1: "index_honest H fs ix1" using current_files_get [OF env coherent, of disk] cur by simp
  from get_hash_index_good [OF good, of username] obtain idx db1 where
    index: "get_hash_index env username r db = Inr (idx, db1)" and wf: "hm_wf idx"
    and idx: "\<And>l. hm_get idx l = (if \<not> ignored_path env l then hash_of env db v files l else None)"
    and good1: "good_ref env r v files db1" and same: "same_binaries db db1" by blast
  define changes where "changes = get_file_changes ?cur idx"
  have change: "hm_get changes l = change_of (hm_get ?cur l) (hm_get idx l)" for l
    unfolding changes_def by (rule get_file_changes_get [OF wf])
  have idx_res: "hm_get idx (res_prefix @ q) = (if ignores env (?pd @ q) False then None
      else hash_of env db v files (res_prefix @ q))" if "relative_ok q" for q
    unfolding idx ignored_res [OF env that] by simp
  have res_key: "\<exists>q. l = res_prefix @ q \<and> relative_ok q" if "hm_get changes l \<noteq> None" for l
  proof (cases "hm_get ?cur l")
    case (Some h)
    then show ?thesis using current_localized_get [OF env coherent disk] by blast
  next
    case None
    with that change have "hm_get idx l \<noteq> None" by (auto simp: change [of l] change_of_def split: option.splits)
    then have "hash_of env db v files l \<noteq> None" unfolding idx by (auto split: if_splits)
    then have "entry_of (de_am env) files v l \<noteq> None"
      by (cases "entry_of (de_am env) files v l") (simp_all add: hash_of_def content_of_def)
    with res show ?thesis by (simp add: res_paths_def)
  qed
  have run: "checkout_ref H fs env username current_ref r disk ix db =
    (if changes = [] then Inr (Some [], ix1, db1)
     else case get_files_at_ref env r (hm_keys changes) db1 of
            Inl (Err _) \<Rightarrow> Inr (None, ix1, db1) | Inl Panic \<Rightarrow> Inl Panic | Inl Diverges \<Rightarrow> Inl Diverges
          | Inr contents \<Rightarrow> Inr (Some (joined_changes (globalize_path ?pd) changes contents), ix1, db1))"
  proof -
    have "get_file_changes (localize_all env files1) idx = changes"
      by (simp add: changes_def current_localized_def cur)
    then show ?thesis using other by (simp add: checkout_ref_def cur index Let_def split: sum.split fault.split)
  qed
  note plan_for = plan_for_changes [OF env coherent disk change idx_res res_key]
  show ?thesis
  proof (cases "changes = []")
    case True
    have "plan_for env [] disk (hash_of env db v files)"
      by (rule plan_for [where cs = "[]"]) (simp_all add: True)
    with run True coherent1 good1 same show ?thesis by auto
  next
    case False
    have "(\<lambda>(env, username, db) (r, v, files). good_ref env r v files db) (env, username, db) (r, v, files)"
      using good by simp
    from db_files.plan_exact [OF this, of idx "(env, username, db1)" ?cur] index False obtain cs where
      cs: "get_files_at_ref env r (hm_keys changes) db1 = Inr cs"
      and exact: "\<forall>l. case hm_get changes l of None \<Rightarrow> hm_get ?cur l = hm_get idx l
        | Some c \<Rightarrow> \<exists>x. joined_content cs l c = Some x \<and> fst x = c \<and>
            hm_get idx l = Option.bind (snd x) (\<lambda>c. get_ok (to_hash (de_hash env) c))"
      by (auto simp: changes_def)
    have "hm_wf changes" unfolding changes_def by (rule get_file_changes_wf)
    have "inj_on (globalize_path ?pd) (set (hm_keys changes))"
    proof (rule inj_onI)
      fix l l'
      assume l: "l \<in> set (hm_keys changes)" "l' \<in> set (hm_keys changes)" "globalize_path ?pd l = globalize_path ?pd l'"
      then have "hm_get changes l \<noteq> None" "hm_get changes l' \<noteq> None"
        by (simp_all only: hm_get_None_iff not_not)
      with res_key obtain q q' where q: "l = res_prefix @ q" "relative_ok q" "l' = res_prefix @ q'" "relative_ok q'"
        by meson
      moreover have "project_dir_ok ?pd" using env by (simp add: sync_env_def)
      ultimately show "l = l'" using l(3) globalize_res by auto
    qed
    note joined = joined_changes_get [OF \<open>hm_wf changes\<close> this]
    have "plan_for env (joined_changes (globalize_path ?pd) changes cs) disk (hash_of env db v files)"
    proof (rule plan_for)
      show "hm_wf (joined_changes (globalize_path ?pd) changes cs)" by (simp add: joined_changes_def)
      show "\<exists>x. joined_content cs l c = Some x \<and> hm_get idx l = content_hash (de_hash env) (snd x)"
        if "hm_get changes l = Some c" for l c
        using exact [rule_format, of l] that by (auto simp: content_hash_def)
    qed (assumption | rule joined)+
    moreover have "changes = []"
      if equal: "\<forall>q. relative_ok q \<and> \<not> ignores env (?pd @ q) False \<longrightarrow>
        map_option (de_hash env) (hm_get disk (?pd @ q)) = hash_of env db v files (res_prefix @ q)"
    proof -
      have "hm_get changes l = None" for l
      proof (rule ccontr)
        assume "hm_get changes l \<noteq> None"
        moreover from this res_key obtain q where q: "l = res_prefix @ q" "relative_ok q" by blast
        with equal idx_res current_localized_res [OF env coherent disk q(2)] have "hm_get ?cur l = hm_get idx l"
          by auto
        ultimately show False using change by (simp add: change_of_None_iff)
      qed
      then show ?thesis by (simp add: hm_empty_iff)
    qed
    ultimately show ?thesis using run False cs coherent1 good1 same by auto
  qed
qed

lemma apply_plan:
  assumes env: "sync_env H fs env" and coherent: "index_honest H fs ix"
    and disk: "project_disk env disk" and plan: "plan_for env plan disk goal"
  shows "\<exists>events disk' ix'. apply_changes H fs env plan disk ix = Inr (events, disk', ix') \<and>
    index_honest H fs ix' \<and> project_disk env disk' \<and>
    (\<forall>q. relative_ok q \<and> \<not> ignores env (de_project_dir env @ q) False \<longrightarrow>
       map_option (de_hash env) (hm_get disk' (de_project_dir env @ q)) = goal (res_prefix @ q)) \<and>
    (\<forall>p. ignores env p False \<longrightarrow> hm_get disk' p = hm_get disk p)"
proof -
  from plan have wf: "hm_wf plan" "\<forall>(p, x)\<in>set plan. writable_change (de_hash env) x"
    and keys: "\<And>p. hm_get plan p \<noteq> None \<Longrightarrow> \<exists>q. p = de_project_dir env @ q \<and> relative_ok q"
    and goal: "\<And>q. relative_ok q \<Longrightarrow> \<not> ignores env (de_project_dir env @ q) False \<Longrightarrow> goal (res_prefix @ q) =
          (case hm_get plan (de_project_dir env @ q) of
             None \<Rightarrow> map_option (de_hash env) (hm_get disk (de_project_dir env @ q))
           | Some (_, content) \<Rightarrow> content_hash (de_hash env) content)"
    by (simp_all add: plan_for_def)
  from apply_changes_ok [OF env coherent wf, of "[]" disk] obtain events disk' ix' where
    run: "apply_changes H fs env plan disk ix = Inr (events, disk', ix')" "index_honest H fs ix'"
    and changed: "\<And>p. case hm_get plan p of None \<Rightarrow> hm_get disk' p = hm_get disk p
       | Some (_, content) \<Rightarrow> changed_to env p content disk disk'"
    by (auto simp: apply_changes_def)
  have "map_option (de_hash env) (hm_get disk' (de_project_dir env @ q)) = goal (res_prefix @ q)"
    if "relative_ok q" "\<not> ignores env (de_project_dir env @ q) False" for q
    using goal [OF that] changed [of "de_project_dir env @ q"] that
    by (auto simp: changed_to_def split: option.splits)
  moreover have "hm_get disk' p = hm_get disk p" if "ignores env p False" for p
    using changed [of p] that by (auto simp: changed_to_def split: option.splits)
  moreover have "project_disk env disk'"
    unfolding project_disk_def
  proof (intro allI impI)
    fix p
    assume p: "hm_get disk' p \<noteq> None \<and> \<not> ignores env p False"
    show "\<exists>q. p = de_project_dir env @ q \<and> relative_ok q"
    proof (cases "hm_get plan p")
      case None
      with changed [of p] p disk show ?thesis by (simp add: project_disk_def)
    qed (use keys in simp)
  qed
  ultimately show ?thesis using run by blast
qed

text \<open>C21: checking out another reference than the current one, whose files can be read and have right hashes where
  hashes are stored, brings the disk to it, with a cache of hashes from any earlier state. The plan of changes can be computed and applied
  without an error, and afterwards the files of the project that are not ignored are exactly the files
  of the reference, with the hashes of their contents there; ignored files are untouched. A second
  checkout of the reference finds nothing to do.\<close>

theorem checkout_reaches_ref:
  assumes "sync_env H fs env" and "index_honest H fs ix" and "project_disk env disk"
    and "good_ref env r v files db" and "res_paths (de_am env) v files" and "current_ref \<noteq> Some r"
  shows "\<exists>plan ix1 db1 events disk' ix2 ix3 db3.
    checkout_ref H fs env username current_ref r disk ix db = Inr (Some plan, ix1, db1) \<and>
    apply_changes H fs env plan disk ix1 = Inr (events, disk', ix2) \<and>
    (\<forall>q. relative_ok q \<and> \<not> ignores env (de_project_dir env @ q) False \<longrightarrow>
       map_option (de_hash env) (hm_get disk' (de_project_dir env @ q)) = hash_of env db v files (res_prefix @ q)) \<and>
    (\<forall>p. ignores env p False \<longrightarrow> hm_get disk' p = hm_get disk p) \<and>
    checkout_ref H fs env username current_ref r disk' ix2 db1 = Inr (Some [], ix3, db3)"
proof -
  from checkout_ref_plan [OF assms] obtain plan ix1 db1 where
    plan: "checkout_ref H fs env username current_ref r disk ix db = Inr (Some plan, ix1, db1)"
      "index_honest H fs ix1" "good_ref env r v files db1" "same_binaries db db1"
      "plan_for env plan disk (hash_of env db v files)" by blast
  from apply_plan [OF assms(1) plan(2) assms(3) plan(5)] obtain events disk' ix2 where
    applied: "apply_changes H fs env plan disk ix1 = Inr (events, disk', ix2)"
      "index_honest H fs ix2" "project_disk env disk'"
      "\<forall>q. relative_ok q \<and> \<not> ignores env (de_project_dir env @ q) False \<longrightarrow>
       map_option (de_hash env) (hm_get disk' (de_project_dir env @ q)) = hash_of env db v files (res_prefix @ q)"
      "\<forall>p. ignores env p False \<longrightarrow> hm_get disk' p = hm_get disk p" by blast
  have "hash_of env db1 = hash_of env db" by (rule same_binaries_content(3) [OF plan(4)])
  with checkout_ref_plan [OF assms(1) applied(2,3) plan(3) assms(5,6), of username] applied(4)
  obtain ix3 db3 where "checkout_ref H fs env username current_ref r disk' ix2 db1 = Inr (Some [], ix3, db3)"
    by auto
  with plan(1) applied show ?thesis by blast
qed

text \<open>A file system that reads every file at once, for the witnesses. Its modification times tell two contents of
  the same length apart.\<close>

definition demo_time :: "string \<Rightarrow> nat" where
  "demo_time b = foldl (\<lambda>n c. n * 256 + of_char c) 0 b"

lemma demo_time_inject: "length a = length b \<Longrightarrow> demo_time a = demo_time b \<Longrightarrow> a = b"
proof (induction a arbitrary: b rule: rev_induct)
  case (snoc x a)
  then obtain y c where b: "b = c @ [y]" by (cases b rule: rev_cases) auto
  have char: "(of_char z :: nat) < 256" for z by simp
  from snoc.prems(2) have "demo_time a * 256 + of_char x = demo_time c * 256 + of_char y"
    by (simp add: demo_time_def b)
  moreover from this have "(demo_time a * 256 + of_char x) mod 256 = (demo_time c * 256 + of_char y) mod 256"
    by simp
  then have xy: "(of_char x :: nat) = of_char y" using char by simp
  ultimately have "demo_time a = demo_time c" by simp
  with snoc.IH [of c] snoc.prems(1) have "a = c" by (simp add: b)
  with xy show ?case by (simp add: b)
qed simp

definition demo_fs :: fs_ops where
  "demo_fs = \<lparr>fo_env = (\<lambda>disk.
       \<lparr>fs_metadata = (\<lambda>p. case hm_get disk p of None \<Rightarrow> Inl NotFound
          | Some b \<Rightarrow> Inr \<lparr>fm_modified = Some (demo_time b), fm_len = length b\<rparr>),
        fs_open = (\<lambda>p. case hm_get disk p of None \<Rightarrow> Inl NotFound
          | Some b \<Rightarrow> Inr (map Inr (if b = [] then [] else [b]) @ [Inr []]))\<rparr>),
     fo_roots = (\<lambda>disk. map FileNode (hm_keys disk)),
     fo_canonicalize = (\<lambda>disk p. if hm_get disk p = None then None else Some p),
     fo_can_write = (\<lambda>_. True), fo_can_remove = (\<lambda>_. True)\<rparr>"

lemma demo_stamps: "stamp_law demo_fs"
  by (auto simp: stamp_law_def demo_fs_def split: option.splits dest: demo_time_inject)

text \<open>The cache after the hash of a file of the content \<open>b\<close> was taken.\<close>

definition demo_cache :: "string \<Rightarrow> string \<Rightarrow> string index_state" where
  "demo_cache p b = \<lparr>ix_keyspace =
     Some [(p, Some \<lparr>fe_last_modified = demo_time b, fe_size = length b, fe_hash = b\<rparr>)], ix_db_ok = True\<rparr>"

lemma demo_cache_honest: "index_honest demo_hasher demo_fs (demo_cache p b)"
proof -
  have "compute_hash demo_hasher (fo_env demo_fs disk) p = Inr c" if "hm_get disk p = Some c" for disk c
    using that by (simp add: compute_hash_def demo_fs_def demo_hasher_def)
  then show ?thesis
    by (auto simp: index_honest_def index_coherent_def demo_cache_def demo_fs_def entry_matches_def ok_or_def
        dest: demo_time_inject split: option.splits if_splits)
qed

lemma demo_reads: "reads_as (fo_env demo_fs disk) p (hm_get disk p)"
proof (cases "hm_get disk p")
  case (Some b)
  then show ?thesis
    by (auto simp: reads_as_def demo_fs_def intro!: exI [of _ "if b = [] then [] else [b]"])
qed (simp add: reads_as_def demo_fs_def)

lemma demo_sync_env: "sync_env demo_hasher demo_fs demo_db_env"
proof -
  have "(\<exists>t\<in>set (fo_roots demo_fs disk). unignored (ignores demo_db_env) t p) \<longleftrightarrow>
      hm_get disk p \<noteq> None \<and> \<not> ignores demo_db_env p False" for disk p
    by (force simp: demo_fs_def map_of_eq_None_iff)
  moreover have "fo_canonicalize demo_fs disk p = (if hm_get disk p = None then None else Some p)"
    "fo_can_write demo_fs p" "fo_can_remove demo_fs p" for disk p by (simp_all add: demo_fs_def)
  ultimately have "fs_laws demo_fs demo_db_env" using demo_reads by (simp add: fs_laws_def)
  moreover have "project_dir_ok (de_project_dir demo_db_env)"
    by (simp add: demo_db_env_def project_dir_ok_def unix_text_def sep_def)
  ultimately show ?thesis
    using demo_hasher_law demo_stamps by (simp add: sync_env_def)
qed

lemma demo_ignores: "\<not> ignores demo_db_env ''/p/a'' False"
proof -
  have "\<not> should_ignore ''/p/'' (\<lambda>_ _. False) ''/p/a'' False" by code_simp
  then show ?thesis by (simp add: ignores_def demo_db_env_def)
qed

theorem checkout_reaches_ref_witness:
  "\<exists>plan ix1 db1 events disk' ix2.
    checkout_ref demo_hasher demo_fs demo_db_env None None (history_ref_new True [1]) [(''/p/a'', ''old'')]
      (demo_cache ''/p/a'' ''old'') (demo_shadow_db [demo_new, demo_old]) = Inr (Some plan, ix1, db1) \<and>
    apply_changes demo_hasher demo_fs demo_db_env plan [(''/p/a'', ''old'')] ix1 = Inr (events, disk', ix2) \<and>
    hm_get disk' ''/p/a'' = Some ''x''"
proof -
  have a: "relative_ok ''a''" by (simp add: relative_ok_def unix_text_def sep_def starts_with_def)
  have disk: "project_disk demo_db_env [(''/p/a'', ''old'')]"
    using a by (auto simp: project_disk_def demo_db_env_def)
  have res: "res_paths demo_doc_ops demo_old DFiles"
    using a by (auto simp: res_paths_def demo_old_entry res_prefix_def intro!: exI [of _ "''a''"])
  from checkout_reaches_ref [OF demo_sync_env demo_cache_honest disk demo_good, of None None]
    res demo_hash demo_ignores a
  show ?thesis by (fastforce simp: demo_db_env_def res_prefix_def)
qed

end
