(* ===== verification/Fs_Commit.thy ===== *)
theory Fs_Commit imports File_Sync begin

text \<open>
  \<open>project/fs/sync_fs_to_automerge.rs\<close>: the commit of the files that differ between the disk and a reference,
  and the first check-in of all files. The watcher's queue of touched paths is the list \<open>pending\<close>.
  Reading a file for a commit is the parameter \<open>read_ops\<close>; the parser's inputs are as in
  \<open>File_Content\<close>.
\<close>

record read_ops =
  ro_exists :: "(string, string) hmap \<Rightarrow> string \<Rightarrow> unit + bool"
  ro_read :: "(string, string) hmap \<Rightarrow> string \<Rightarrow> unit + string"
  ro_grammar :: "string \<Rightarrow> capture list list option"
  ro_draws :: "string \<Rightarrow> int list"

record 'x commit_status =
  hash_before_commit :: "'x option"
  hash_after_commit :: "'x option"

definition globalize_all :: "('doc, 'h, 'v, 'o, 'd, 'x) db_env \<Rightarrow> (string, 'a) hmap \<Rightarrow> (string, 'a) hmap" where
  "globalize_all env files = hm_collect (map (\<lambda>(k, v). (globalize_path (de_project_dir env) k, v)) files)"

definition read_content ::
  "read_ops \<Rightarrow> ('doc, 'h, 'v, 'o, 'd, 'x) db_env \<Rightarrow> (string, string) hmap \<Rightarrow> string \<Rightarrow>
   (unit, (string \<times> file_content option) option) outcome" where
  "read_content ro env disk path =
     (case ro_exists ro disk path of
        Inl _ \<Rightarrow> Inr None
      | Inr False \<Rightarrow> Inr (Some (localize_path (de_project_dir env) path, None))
      | Inr True \<Rightarrow>
          (case ro_read ro disk path of
             Inl _ \<Rightarrow> Inr None
           | Inr buf \<Rightarrow> rbind (from_buf (ro_grammar ro) (ro_draws ro path) buf) (\<lambda>c.
               Inr (Some (localize_path (de_project_dir env) path, Some c)))))"

definition get_file_contents ::
  "read_ops \<Rightarrow> ('doc, 'h, 'v, 'o, 'd, 'x) db_env \<Rightarrow> (string, string) hmap \<Rightarrow> string list \<Rightarrow>
   (unit, (string \<times> file_content option) list) outcome" where
  "get_file_contents ro env disk files =
     rbind (collect_res (read_content ro env disk) files) (\<lambda>xs. Inr (somes xs))"

text \<open>The files to commit: those that changed, unless their hash is the one to skip.\<close>

definition to_commit ::
  "(string, 'x) hmap \<Rightarrow> (string, 'x) hmap \<Rightarrow> (string, 'x) hmap \<Rightarrow> (string, change_type) hmap" where
  "to_commit old_files current skip_files =
     filter (\<lambda>(path, _).
       case hm_get skip_files path of
         None \<Rightarrow> True
       | Some skip_hash \<Rightarrow> (case hm_get current path of None \<Rightarrow> True | Some h \<Rightarrow> skip_hash \<noteq> h))
       (get_file_changes old_files current)"

definition commit_statuses ::
  "('doc, 'h, 'v, 'o, 'd, 'x) db_env \<Rightarrow> (string, 'x) hmap \<Rightarrow> (string, 'x option) hmap \<Rightarrow> (string, 'x commit_status) hmap" where
  "commit_statuses env current hashes =
     hm_collect (map (\<lambda>(path, v). let path = globalize_path (de_project_dir env) path
       in (path, \<lparr>hash_before_commit = hm_get current path, hash_after_commit = v\<rparr>)) hashes)"

text \<open>The state a commit works on: the pending paths, the hash cache, the ids of new documents, the database.\<close>

record ('d, 'doc, 'h, 'x) fs_state =
  fs_pending :: "string list"
  fs_index :: "'x index_state"
  fs_ids :: "'d list"
  fs_db :: "('d, 'doc, 'h) branch_states"

definition fs_commit ::
  "('s, 'x) hasher \<Rightarrow> fs_ops \<Rightarrow> read_ops \<Rightarrow> ('doc, 'h::linorder, 'v, 'o, 'd, 'x) db_env \<Rightarrow> string option \<Rightarrow>
   ('d, 'h) history_ref \<Rightarrow> bool \<Rightarrow> (string, 'x) hmap \<Rightarrow> (string, string) hmap \<Rightarrow> ('d, 'doc, 'h, 'x) fs_state \<Rightarrow>
   (unit, (('d, 'h) history_ref \<times> (string, 'x commit_status) hmap) option \<times> ('d, 'doc, 'h, 'x) fs_state) outcome" where
  "fs_commit H fs ro env username at_ref force skip_files disk s =
     (if \<not> force \<and> fs_pending s = [] then Inr (None, s)
      else
        let (current, ix) = current_files H fs env disk (fs_index s); s = s\<lparr>fs_index := ix\<rparr>
        in case get_hash_index env username at_ref (fs_db s) of
             Inl (Err _) \<Rightarrow> Inr (None, s)
           | Inl Panic \<Rightarrow> Inl Panic
           | Inl Diverges \<Rightarrow> Inl Diverges
           | Inr (old_files, db) \<Rightarrow>
               let s = s\<lparr>fs_db := db\<rparr>; diff = to_commit (globalize_all env old_files) current skip_files
               in if diff = [] then Inr (None, s\<lparr>fs_pending := []\<rparr>)
                  else rbind (get_file_contents ro env disk (hm_keys diff)) (\<lambda>contents.
                       rbind (commit_fs_changes env username (fs_ids s) contents at_ref None False (fs_db s))
                         (\<lambda>(new_ref, ids, db).
                       let s = s\<lparr>fs_pending := [], fs_ids := ids, fs_db := db\<rparr>
                       in Inr (map_option (\<lambda>(new_ref, hashes). (new_ref, commit_statuses env current hashes)) new_ref, s))))"

text \<open>The check-in of all files; the checked out reference is the last argument and the first result.\<close>

definition fs_checkin ::
  "('s, 'x) hasher \<Rightarrow> fs_ops \<Rightarrow> read_ops \<Rightarrow> ('doc, 'h::linorder, 'v, 'o, 'd, 'x) db_env \<Rightarrow> string option \<Rightarrow>
   (string, string) hmap \<Rightarrow> ('d, 'doc, 'h, 'x) fs_state \<Rightarrow> ('d, 'h) history_ref option \<Rightarrow>
   (unit, ('d, 'h) history_ref option \<times> ('d, 'doc, 'h, 'x) fs_state) outcome" where
  "fs_checkin H fs ro env username disk s checked_out_ref =
     (let (current, ix) = current_files H fs env disk (fs_index s); s = s\<lparr>fs_index := ix\<rparr>
      in rbind (get_file_contents ro env disk (hm_keys current)) (\<lambda>contents.
         rbind (unwrap checked_out_ref) (\<lambda>at_ref.
         rbind (commit_fs_changes env username (fs_ids s) contents at_ref None True (fs_db s)) (\<lambda>(new_ref, ids, db).
         let s = s\<lparr>fs_ids := ids, fs_db := db\<rparr>
         in Inr (case new_ref of Some (new_ref, _) \<Rightarrow> Some new_ref | None \<Rightarrow> checked_out_ref, s)))))"

section \<open>What a commit reads\<close>

text \<open>Reading finds the bytes of the disk, and every file can be read as a content with a hash.\<close>

definition read_laws :: "read_ops \<Rightarrow> bool" where
  "read_laws ro \<longleftrightarrow> (\<forall>disk p. ro_exists ro disk p = Inr (hm_get disk p \<noteq> None) \<and>
     (\<forall>b. hm_get disk p = Some b \<longrightarrow> ro_read ro disk p = Inr b))"

definition committed_content :: "read_ops \<Rightarrow> string \<Rightarrow> string option \<Rightarrow> file_content option" where
  "committed_content ro p content =
     Option.bind content (\<lambda>b. get_ok (from_buf (ro_grammar ro) (ro_draws ro p) b))"

definition readable_disk :: "read_ops \<Rightarrow> (string \<Rightarrow> 'x) \<Rightarrow> (string, string) hmap \<Rightarrow> bool" where
  "readable_disk ro hash disk \<longleftrightarrow> (\<forall>p b. hm_get disk p = Some b \<longrightarrow>
     (\<exists>c h. from_buf (ro_grammar ro) (ro_draws ro p) b = Inr c \<and> to_hash hash c = Inr h))"

lemma read_content_ok:
  assumes "read_laws ro" and "readable_disk ro (de_hash env) disk"
  shows "read_content ro env disk p =
    Inr (Some (localize_path (de_project_dir env) p, committed_content ro p (hm_get disk p)))"
proof (cases "hm_get disk p")
  case None
  with assms(1) show ?thesis by (simp add: read_laws_def read_content_def committed_content_def)
next
  case (Some b)
  with assms(2) obtain c where "from_buf (ro_grammar ro) (ro_draws ro p) b = Inr c"
    unfolding readable_disk_def by blast
  with Some assms(1) show ?thesis by (simp add: read_laws_def read_content_def committed_content_def)
qed

lemma get_file_contents_ok:
  assumes "read_laws ro" and "readable_disk ro (de_hash env) disk"
  shows "get_file_contents ro env disk ps =
    Inr (map (\<lambda>p. (localize_path (de_project_dir env) p, committed_content ro p (hm_get disk p))) ps)"
proof -
  let ?f = "\<lambda>p. (localize_path (de_project_dir env) p, committed_content ro p (hm_get disk p))"
  have "collect_res (read_content ro env disk) ps = Inr (map (\<lambda>p. Some (?f p)) ps)"
    by (rule collect_res_map_Inr) (simp add: read_content_ok [OF assms])
  moreover have "somes (map (\<lambda>p. Some (?f p)) ps) = map ?f ps"
    by (induction ps) (auto simp: somes_def)
  ultimately show ?thesis by (simp add: get_file_contents_def)
qed

lemma committed_content_hashable:
  assumes "readable_disk ro hash disk"
  shows "\<exists>h. hash_content hash (committed_content ro p (hm_get disk p)) = Inr h"
proof (cases "hm_get disk p")
  case (Some b)
  with assms obtain c h where "from_buf (ro_grammar ro) (ro_draws ro p) b = Inr c" "to_hash hash c = Inr h"
    unfolding readable_disk_def by blast
  with Some show ?thesis by (simp add: committed_content_def hash_content_def)
qed (simp add: committed_content_def hash_content_def)

lemma to_commit_all: "to_commit old_files current [] = get_file_changes old_files current"
  by (simp add: to_commit_def)

lemma globalize_all_get:
  assumes pd: "project_dir_ok (de_project_dir env)" and wf: "hm_wf m"
    and keys: "\<And>l. hm_get m l \<noteq> None \<Longrightarrow> \<exists>q. l = res_prefix @ q \<and> relative_ok q"
  shows "hm_get (globalize_all env m) p = Some x \<longleftrightarrow>
    (\<exists>q. p = de_project_dir env @ q \<and> relative_ok q \<and> hm_get m (res_prefix @ q) = Some x)"
proof -
  have inj: "inj_on (globalize_path (de_project_dir env)) (set (hm_keys m))"
  proof (rule inj_onI)
    fix l l'
    assume l: "l \<in> set (hm_keys m)" "l' \<in> set (hm_keys m)"
      "globalize_path (de_project_dir env) l = globalize_path (de_project_dir env) l'"
    then have "hm_get m l \<noteq> None" "hm_get m l' \<noteq> None" by (simp_all only: hm_get_None_iff not_not)
    with keys l(3) globalize_res [OF pd] show "l = l'" by (metis same_append_eq)
  qed
  have "hm_get (globalize_all env m) p = Some x \<longleftrightarrow>
      (\<exists>l. hm_get m l = Some x \<and> p = globalize_path (de_project_dir env) l)"
    unfolding globalize_all_def by (rule hm_get_collect_inj [OF wf inj])
  then show ?thesis using keys globalize_res [OF pd] by (metis option.distinct(1))
qed

lemma localized_get:
  assumes pd: "project_dir_ok d" and "distinct ps" and "\<And>p. p \<in> set ps \<Longrightarrow> \<exists>q. p = d @ q \<and> relative_ok q"
  shows "distinct (map fst (map (\<lambda>p. (localize_path d p, g p)) ps)) \<and>
    (\<forall>q. relative_ok q \<longrightarrow> hm_get (map (\<lambda>p. (localize_path d p, g p)) ps) (res_prefix @ q) =
       (if d @ q \<in> set ps then Some (g (d @ q)) else None))"
  using assms(2,3)
proof (induction ps)
  case (Cons p ps)
  from Cons.prems(2) obtain q where q: "p = d @ q" "relative_ok q" by auto
  have IH: "distinct (map fst (map (\<lambda>p. (localize_path d p, g p)) ps))"
    "\<And>q. relative_ok q \<Longrightarrow> hm_get (map (\<lambda>p. (localize_path d p, g p)) ps) (res_prefix @ q) =
       (if d @ q \<in> set ps then Some (g (d @ q)) else None)"
    using Cons by auto
  have p: "localize_path d p = res_prefix @ q" using localize_below [OF pd q(2)] q(1) by simp
  have "p \<notin> set ps" using Cons.prems(1) by simp
  then have "hm_get (map (\<lambda>p. (localize_path d p, g p)) ps) (res_prefix @ q) = None" using IH(2) q by simp
  then have "localize_path d p \<notin> set (map fst (map (\<lambda>p. (localize_path d p, g p)) ps))"
    unfolding p hm_get_None_iff .
  then have "distinct (map fst (map (\<lambda>p. (localize_path d p, g p)) (p # ps)))" using IH(1) by simp
  moreover have "hm_get (map (\<lambda>p. (localize_path d p, g p)) (p # ps)) (res_prefix @ q') =
       (if d @ q' \<in> set (p # ps) then Some (g (d @ q')) else None)" if "relative_ok q'" for q'
    using IH(2) [OF that] p q(1) by simp
  ultimately show ?case by blast
qed simp

section \<open>The commit\<close>

text \<open>A branch that can be committed to: its shadow document shows the reference \<open>r\<close>, all hashes are stored,
  and there are ids for as many binary documents as there are files.\<close>

definition committable ::
  "read_ops \<Rightarrow> ('doc, 'h::linorder, 'v, 'o, 'd, 'x) db_env \<Rightarrow> ('d, 'h) history_ref \<Rightarrow> 'v \<Rightarrow> 'o \<Rightarrow>
   (string, string) hmap \<Rightarrow> ('d, 'doc, 'h, 'x) fs_state \<Rightarrow> bool" where
  "committable ro env r v files disk s \<longleftrightarrow>
     commit_env env files \<and> view_at env r (fs_db s) v \<and>
     (\<exists>st d. hm_get (branch_sync_states (fs_db s)) (hr_branch r) = Some st \<and> shadow_doc st = Some d \<and>
        ad_current (de_doc env) d = v) \<and>
     files_ok (de_am env) v files \<and> all_stored env v files \<and> res_paths (de_am env) v files \<and>
     keys_law (de_am env) files v
       {l. entry_of (de_am env) files v l \<noteq> None \<or>
         (\<exists>q. l = res_prefix @ q \<and> hm_get disk (de_project_dir env @ q) \<noteq> None)} \<and>
     read_laws ro \<and> readable_disk ro (de_hash env) disk \<and>
     length (am_keys (de_am env) v files) + length disk \<le> length (fs_ids s)"

text \<open>The files that differ, and that their number is bounded.\<close>

lemma to_commit_diff:
  assumes env: "sync_env H fs env" and coherent: "index_honest H fs ix" and disk: "project_disk env disk"
    and wf: "hm_wf idx" and idx: "\<And>l. hm_get idx l = (if \<not> ignored_path env l then stored_at env v files l else None)"
    and files: "files_ok (de_am env) v files" and res: "res_paths (de_am env) v files"
  defines "diff \<equiv> to_commit (globalize_all env idx) (fst (current_files H fs env disk ix)) []"
  shows "hm_wf diff \<and> length diff \<le> length (am_keys (de_am env) v files) + length disk \<and>
    (\<forall>p. hm_get diff p \<noteq> None \<longrightarrow> (\<exists>q. p = de_project_dir env @ q \<and> relative_ok q \<and> \<not> ignores env p False \<and>
       (stored_at env v files (res_prefix @ q) \<noteq> None \<or> hm_get disk p \<noteq> None))) \<and>
    (\<forall>q. relative_ok q \<and> \<not> ignores env (de_project_dir env @ q) False \<longrightarrow>
       (hm_get diff (de_project_dir env @ q) = None \<longleftrightarrow>
        stored_at env v files (res_prefix @ q) = map_option (de_hash env) (hm_get disk (de_project_dir env @ q))))"
proof -
  let ?pd = "de_project_dir env" and ?cur = "fst (current_files H fs env disk ix)" and ?old = "globalize_all env idx"
  have pd: "project_dir_ok ?pd" using env by (simp add: sync_env_def)
  from current_files_get [OF env coherent] have wf_cur: "hm_wf ?cur"
    and cur: "\<And>p. hm_get ?cur p = (if ignores env p False then None else map_option (de_hash env) (hm_get disk p))" by auto
  have stored: "entry_of (de_am env) files v l \<noteq> None" if "stored_at env v files l \<noteq> None" for l
    using that by (cases "entry_of (de_am env) files v l") (simp_all add: stored_at_def)
  have idx_keys: "\<exists>q. l = res_prefix @ q \<and> relative_ok q" if "hm_get idx l \<noteq> None" for l
    using that stored res unfolding idx res_paths_def by (metis (full_types))
  have old: "hm_get ?old p = Some x \<longleftrightarrow> (\<exists>q. p = ?pd @ q \<and> relative_ok q \<and> \<not> ignores env p False \<and>
      stored_at env v files (res_prefix @ q) = Some x)" for p x
  proof -
    have "hm_get ?old p = Some x \<longleftrightarrow> (\<exists>q. p = ?pd @ q \<and> relative_ok q \<and> hm_get idx (res_prefix @ q) = Some x)"
      by (rule globalize_all_get [OF pd wf idx_keys])
    moreover have "hm_get idx (res_prefix @ q) = Some x \<longleftrightarrow>
        \<not> ignores env (?pd @ q) False \<and> stored_at env v files (res_prefix @ q) = Some x" if "relative_ok q" for q
      unfolding idx ignored_res [OF env that] by simp
    ultimately show ?thesis by blast
  qed
  have diff: "hm_get diff p = change_of (hm_get ?old p) (hm_get ?cur p)" for p
    unfolding diff_def to_commit_all by (rule get_file_changes_get [OF wf_cur])
  have wf_diff: "hm_wf diff" unfolding diff_def to_commit_all by (rule get_file_changes_wf)
  have key: "\<exists>q. p = ?pd @ q \<and> relative_ok q \<and> \<not> ignores env p False \<and>
       (stored_at env v files (res_prefix @ q) \<noteq> None \<or> hm_get disk p \<noteq> None)" if "hm_get diff p \<noteq> None" for p
  proof (cases "hm_get ?old p")
    case (Some x)
    then show ?thesis using old by blast
  next
    case None
    with that have "hm_get ?cur p \<noteq> None" unfolding diff by (auto simp: change_of_def split: option.splits)
    then have "hm_get disk p \<noteq> None \<and> \<not> ignores env p False" by (auto simp: cur split: if_splits)
    with disk show ?thesis unfolding project_disk_def by blast
  qed
  have same: "hm_get diff (?pd @ q) = None \<longleftrightarrow>
      stored_at env v files (res_prefix @ q) = map_option (de_hash env) (hm_get disk (?pd @ q))"
    if q: "relative_ok q" "\<not> ignores env (?pd @ q) False" for q
  proof -
    have "hm_get ?old (?pd @ q) = stored_at env v files (res_prefix @ q)"
      by (rule option_ext) (use old q in auto)
    with cur q show ?thesis unfolding diff change_of_None_iff by simp
  qed
  have "set (hm_keys diff) \<subseteq> set (map (globalize_path ?pd) (am_keys (de_am env) v files) @ hm_keys disk)"
  proof
    fix p
    assume "p \<in> set (hm_keys diff)"
    then have "hm_get diff p \<noteq> None" by (simp only: hm_get_None_iff not_not)
    with key obtain q where q: "p = ?pd @ q" "relative_ok q"
      "stored_at env v files (res_prefix @ q) \<noteq> None \<or> hm_get disk p \<noteq> None" by blast
    show "p \<in> set (map (globalize_path ?pd) (am_keys (de_am env) v files) @ hm_keys disk)"
    proof (cases "hm_get disk p")
      case None
      with q stored have "res_prefix @ q \<in> set (am_keys (de_am env) v files)"
        unfolding files_ok_entry(2) [OF files] by blast
      moreover have "p = globalize_path ?pd (res_prefix @ q)" using globalize_res [OF pd q(2)] q(1) by simp
      ultimately show ?thesis by simp
    next
      case (Some b)
      then show ?thesis by (force dest: map_of_SomeD)
    qed
  qed
  from hm_length_le [OF wf_diff this] have "length diff \<le> length (am_keys (de_am env) v files) + length disk" by simp
  with wf_diff key same show ?thesis by blast
qed


definition read_from_disk ::
  "read_ops \<Rightarrow> ('doc, 'h, 'v, 'o, 'd, 'x) db_env \<Rightarrow> (string, string) hmap \<Rightarrow> string \<Rightarrow> file_content option \<Rightarrow> bool" where
  "read_from_disk ro env disk l c \<longleftrightarrow>
     (\<exists>q. l = res_prefix @ q \<and> relative_ok q \<and> \<not> ignores env (de_project_dir env @ q) False \<and>
        c = committed_content ro (de_project_dir env @ q) (hm_get disk (de_project_dir env @ q)))"

text \<open>The contents that are committed for the files that differ.\<close>

lemma commit_contents:
  assumes env: "sync_env H fs env" and coherent: "index_honest H fs ix" and disk: "project_disk env disk"
    and wf: "hm_wf idx" and idx: "\<And>l. hm_get idx l = (if \<not> ignored_path env l then stored_at env v files l else None)"
    and files: "files_ok (de_am env) v files" and res: "res_paths (de_am env) v files"
    and read: "read_laws ro" "readable_disk ro (de_hash env) disk"
  defines "diff \<equiv> to_commit (globalize_all env idx) (fst (current_files H fs env disk ix)) []"
  shows "\<exists>contents. get_file_contents ro env disk (hm_keys diff) = Inr contents \<and>
    distinct (map fst contents) \<and> hashable (de_hash env) contents \<and>
    length contents \<le> length (am_keys (de_am env) v files) + length disk \<and>
    fst ` set contents \<subseteq> {l. entry_of (de_am env) files v l \<noteq> None \<or>
       (\<exists>q. l = res_prefix @ q \<and> hm_get disk (de_project_dir env @ q) \<noteq> None)} \<and>
    (\<forall>q. relative_ok q \<and> \<not> ignores env (de_project_dir env @ q) False \<longrightarrow>
       hm_get contents (res_prefix @ q) =
         (if stored_at env v files (res_prefix @ q) = map_option (de_hash env) (hm_get disk (de_project_dir env @ q))
          then None
          else Some (committed_content ro (de_project_dir env @ q) (hm_get disk (de_project_dir env @ q))))) \<and>
    (\<forall>(l, c)\<in>set contents. read_from_disk ro env disk l c)"
proof -
  let ?pd = "de_project_dir env" and ?g = "\<lambda>p. committed_content ro p (hm_get disk p)"
  let ?contents = "map (\<lambda>p. (localize_path (de_project_dir env) p, ?g p)) (hm_keys diff)"
  have pd: "project_dir_ok ?pd" using env by (simp add: sync_env_def)
  from to_commit_diff [OF env coherent disk wf idx files res]
  have wf_diff: "hm_wf diff" and len: "length diff \<le> length (am_keys (de_am env) v files) + length disk"
    and key: "\<And>p. hm_get diff p \<noteq> None \<Longrightarrow> \<exists>q. p = ?pd @ q \<and> relative_ok q \<and> \<not> ignores env p False \<and>
       (stored_at env v files (res_prefix @ q) \<noteq> None \<or> hm_get disk p \<noteq> None)"
    and same: "\<And>q. relative_ok q \<Longrightarrow> \<not> ignores env (?pd @ q) False \<Longrightarrow>
        hm_get diff (?pd @ q) = None \<longleftrightarrow> stored_at env v files (res_prefix @ q) = map_option (de_hash env) (hm_get disk (?pd @ q))"
    unfolding diff_def by blast+
  have in_diff: "p \<in> set (hm_keys diff) \<longleftrightarrow> hm_get diff p \<noteq> None" for p by (simp only: hm_get_None_iff not_not)
  have keys: "\<exists>q. p = ?pd @ q \<and> relative_ok q" if "p \<in> set (hm_keys diff)" for p
    using key that unfolding in_diff by blast
  have "distinct (hm_keys diff)" using wf_diff by (simp add: hm_wf_def)
  from localized_get [OF pd this keys, of ?g]
  have dist: "distinct (map fst ?contents)"
    and get: "\<And>q. relative_ok q \<Longrightarrow> hm_get ?contents (res_prefix @ q) =
       (if ?pd @ q \<in> set (hm_keys diff) then Some (?g (?pd @ q)) else None)" by blast+
  have "hashable (de_hash env) ?contents"
    using committed_content_hashable [OF read(2)] by (auto simp: hashable_def)
  moreover have "length ?contents \<le> length (am_keys (de_am env) v files) + length disk" using len by simp
  moreover have "fst ` set ?contents \<subseteq> {l. entry_of (de_am env) files v l \<noteq> None \<or>
       (\<exists>q. l = res_prefix @ q \<and> hm_get disk (?pd @ q) \<noteq> None)}"
  proof
    fix l
    assume "l \<in> fst ` set ?contents"
    then obtain p where p: "p \<in> set (hm_keys diff)" "l = localize_path ?pd p"
      unfolding set_map [of _ "hm_keys diff"] image_image fst_conv by blast
    with key obtain q where q: "p = ?pd @ q" "relative_ok q"
      "stored_at env v files (res_prefix @ q) \<noteq> None \<or> hm_get disk p \<noteq> None" unfolding in_diff by blast
    have "l = res_prefix @ q" using localize_below [OF pd q(2)] p(2) q(1) by simp
    then show "l \<in> {l. entry_of (de_am env) files v l \<noteq> None \<or>
       (\<exists>q. l = res_prefix @ q \<and> hm_get disk (?pd @ q) \<noteq> None)}"
      using q(1,3) by (cases "entry_of (de_am env) files v l") (auto simp: stored_at_def)
  qed
  moreover have "hm_get ?contents (res_prefix @ q) =
      (if stored_at env v files (res_prefix @ q) = map_option (de_hash env) (hm_get disk (?pd @ q)) then None
       else Some (?g (?pd @ q)))" if "relative_ok q" "\<not> ignores env (?pd @ q) False" for q
    using same [OF that] unfolding get [OF that(1)] in_diff by simp
  moreover have "\<forall>(l, c)\<in>set ?contents. read_from_disk ro env disk l c"
  proof -
    have "read_from_disk ro env disk (localize_path ?pd p) (?g p)" if "p \<in> set (hm_keys diff)" for p
      using key localize_below [OF pd] that unfolding in_diff read_from_disk_def by metis
    then show ?thesis by auto
  qed
  ultimately show ?thesis using get_file_contents_ok [OF read, of "hm_keys diff"] dist by blast
qed

text \<open>The run of a commit, and what it commits.\<close>

lemma fs_commit_run:
  assumes "sync_env H fs env" and "index_honest H fs (fs_index s)" and "project_disk env disk"
    and "committable ro env r v files disk s" and "force \<or> fs_pending s \<noteq> []"
  obtains (unchanged) ix where
      "fs_commit H fs ro env username r force [] disk s = Inr (None, s\<lparr>fs_index := ix, fs_pending := []\<rparr>)"
      "\<forall>q. relative_ok q \<and> \<not> ignores env (de_project_dir env @ q) False \<longrightarrow>
         stored_at env v files (res_prefix @ q) = map_option (de_hash env) (hm_get disk (de_project_dir env @ q))"
  | (committed) r' ret ids' db' ix contents w d m db1 st where
      "fs_commit H fs ro env username r force [] disk s =
        Inr (Some (r', commit_statuses env (fst (current_files H fs env disk (fs_index s))) ret),
             s\<lparr>fs_index := ix, fs_pending := [], fs_ids := ids', fs_db := db'\<rparr>)"
      "hr_branch r' = hr_branch r" "view_at env r' db' w" "files_ok (de_am env) w files" "all_stored env w files"
      "stored_at env w files = committed_hash env v files contents"
      "\<forall>q. relative_ok q \<and> \<not> ignores env (de_project_dir env @ q) False \<longrightarrow>
        committed_hash env v files contents (res_prefix @ q) =
          (if stored_at env v files (res_prefix @ q) = map_option (de_hash env) (hm_get disk (de_project_dir env @ q))
           then stored_at env v files (res_prefix @ q)
           else content_hash (de_hash env)
             (committed_content ro (de_project_dir env @ q) (hm_get disk (de_project_dir env @ q))))"
      "hm_wf ret" "\<forall>p. hm_get ret p = map_option (content_hash (de_hash env)) (hm_get contents p)"
      "\<forall>(l, c)\<in>set contents. read_from_disk ro env disk l c"
      "hm_get (branch_sync_states (fs_db s)) (hr_branch r) = Some st" "shadow_doc st = Some d"
      "r' = history_ref_new (hr_branch r) (am_heads (de_crdt env) (ad_commit (de_doc env) d w m))"
      "only_created (fs_ids s) (fs_db s) ids' db1"
      "db' = snd (try_reconcile_branch (de_crdt env) (hr_branch r) (db1\<lparr>branch_sync_states :=
         hm_insert (hr_branch r) (st\<lparr>shadow_doc := Some (ad_commit (de_doc env) d w m)\<rparr>) (branch_sync_states db1)\<rparr>))"
proof -
  let ?pd = "de_project_dir env"
  from assms(4) have cenv: "commit_env env files" and view: "view_at env r (fs_db s) v"
    and files: "files_ok (de_am env) v files" and stored: "all_stored env v files" and res: "res_paths (de_am env) v files"
    and keys: "keys_law (de_am env) files v {l. entry_of (de_am env) files v l \<noteq> None \<or>
         (\<exists>q. l = res_prefix @ q \<and> hm_get disk (?pd @ q) \<noteq> None)}"
    and read: "read_laws ro" "readable_disk ro (de_hash env) disk"
    and ids: "length (am_keys (de_am env) v files) + length disk \<le> length (fs_ids s)" by (simp_all add: committable_def)
  from assms(4) obtain st d where st: "hm_get (branch_sync_states (fs_db s)) (hr_branch r) = Some st" "shadow_doc st = Some d"
    and v: "ad_current (de_doc env) d = v" unfolding committable_def by blast
  obtain cur ix where cur: "current_files H fs env disk (fs_index s) = (cur, ix)" by fastforce
  from get_hash_index_stored [OF view files stored, of username] obtain idx where
    index: "get_hash_index env username r (fs_db s) = Inr (idx, fs_db s)" and wf: "hm_wf idx"
    and idx: "\<And>l. hm_get idx l = (if \<not> ignored_path env l then stored_at env v files l else None)" by blast
  define diff where "diff = to_commit (globalize_all env idx) cur []"
  have diff': "diff = to_commit (globalize_all env idx) (fst (current_files H fs env disk (fs_index s))) []"
    by (simp add: diff_def cur)
  from commit_contents [OF assms(1-3) wf idx files res read] obtain contents where
    contents: "get_file_contents ro env disk (hm_keys diff) = Inr contents" "distinct (map fst contents)"
      "hashable (de_hash env) contents" "length contents \<le> length (am_keys (de_am env) v files) + length disk"
      "fst ` set contents \<subseteq> {l. entry_of (de_am env) files v l \<noteq> None \<or>
         (\<exists>q. l = res_prefix @ q \<and> hm_get disk (?pd @ q) \<noteq> None)}"
      "\<forall>(l, c)\<in>set contents. read_from_disk ro env disk l c"
    and get: "\<And>q. relative_ok q \<Longrightarrow> \<not> ignores env (?pd @ q) False \<Longrightarrow> hm_get contents (res_prefix @ q) =
       (if stored_at env v files (res_prefix @ q) = map_option (de_hash env) (hm_get disk (?pd @ q)) then None
        else Some (committed_content ro (?pd @ q) (hm_get disk (?pd @ q))))" unfolding diff' by blast
  show ?thesis
  proof (cases "diff = []")
    case True
    then have "fs_commit H fs ro env username r force [] disk s = Inr (None, s\<lparr>fs_index := ix, fs_pending := []\<rparr>)"
      using assms(5) by (auto simp: fs_commit_def cur index diff_def Let_def)
    note run = this
    have "contents = []" using contents(1) True by (simp add: get_file_contents_def somes_def)
    then have "stored_at env v files (res_prefix @ q) = map_option (de_hash env) (hm_get disk (?pd @ q))"
      if "relative_ok q" "\<not> ignores env (?pd @ q) False" for q
      using get [OF that] by (rule_tac ccontr) simp
    then have all: "\<forall>q. relative_ok q \<and> \<not> ignores env (?pd @ q) False \<longrightarrow>
        stored_at env v files (res_prefix @ q) = map_option (de_hash env) (hm_get disk (?pd @ q))" by blast
    show ?thesis by (rule that(1) [OF run all])
  next
    case False
    have cv: "maps_only (de_am env) files (ad_current (de_doc env) d)" "all_stored env (ad_current (de_doc env) d) files"
      using files stored by (simp_all add: v files_ok_def)
    have "length contents \<le> length (fs_ids s)" using contents(4) ids by linarith
    from commit_fs_changes_view [OF cenv st cv contents(2,3) this, of username None False]
    obtain r' ret ids' db' w m db1 where
      run: "commit_fs_changes env username (fs_ids s) contents r None False (fs_db s) = Inr (Some (r', ret), ids', db')"
      and r': "hr_branch r' = hr_branch r" and ret: "hm_wf ret" "\<forall>p. hm_get ret p = map_option (content_hash (de_hash env)) (hm_get contents p)"
      and view': "view_at env r' db' w"
      and w: "maps_only (de_am env) files w" "all_stored env w files"
        "\<forall>q. q \<notin> fst ` set contents \<longrightarrow> am_get (de_am env) w files q = am_get (de_am env) v files q"
        "stored_at env w files = committed_hash env v files contents"
      and db': "r' = history_ref_new (hr_branch r) (am_heads (de_crdt env) (ad_commit (de_doc env) d w m))"
        "only_created (fs_ids s) (fs_db s) ids' db1"
        "db' = snd (try_reconcile_branch (de_crdt env) (hr_branch r) (db1\<lparr>branch_sync_states :=
         hm_insert (hr_branch r) (st\<lparr>shadow_doc := Some (ad_commit (de_doc env) d w m)\<rparr>) (branch_sync_states db1)\<rparr>))"
      unfolding v by blast
    have "files_ok (de_am env) w files"
      using keys_law_mono [OF keys contents(5)] w(1,3) unfolding keys_law_def by blast
    moreover have "\<forall>q. relative_ok q \<and> \<not> ignores env (?pd @ q) False \<longrightarrow>
        committed_hash env v files contents (res_prefix @ q) =
        (if stored_at env v files (res_prefix @ q) = map_option (de_hash env) (hm_get disk (?pd @ q))
         then stored_at env v files (res_prefix @ q)
         else content_hash (de_hash env) (committed_content ro (?pd @ q) (hm_get disk (?pd @ q))))"
      using get by (simp add: committed_hash_def)
    moreover have "fs_commit H fs ro env username r force [] disk s =
        Inr (Some (r', commit_statuses env (fst (current_files H fs env disk (fs_index s))) ret),
          s\<lparr>fs_index := ix, fs_pending := [], fs_ids := ids', fs_db := db'\<rparr>)"
      using assms(5) False contents(1) run by (auto simp: fs_commit_def cur index diff_def [symmetric] Let_def)
    ultimately show ?thesis using that(2) r' view' w(2,4) ret contents(6) st db' by blast
  qed
qed

text \<open>C22: a commit to a reference that can be committed on (its shadow document shows it, its files have stored
  hashes, the files on disk can be read), forced or with pending files, returns and leaves none pending. When it commits nothing,
  the reference already has the hashes of all files of the disk that are not ignored; when it commits,
  the index at the new reference has, for each such file, the hash of the content read from the disk,
  the one it had if that is the hash of the disk, and nothing for a file that is not on the disk.\<close>

theorem fs_commit_shows_disk:
  assumes "sync_env H fs env" and "index_honest H fs (fs_index s)" and "project_disk env disk"
    and "committable ro env r v files disk s" and "force \<or> fs_pending s \<noteq> []"
  shows "\<exists>result s'. fs_commit H fs ro env username r force [] disk s = Inr (result, s') \<and> fs_pending s' = [] \<and>
    (case result of
       None \<Rightarrow> \<forall>q. relative_ok q \<and> \<not> ignores env (de_project_dir env @ q) False \<longrightarrow>
         stored_at env v files (res_prefix @ q) = map_option (de_hash env) (hm_get disk (de_project_dir env @ q))
     | Some (r', _) \<Rightarrow> hr_branch r' = hr_branch r \<and>
         (\<exists>idx. get_hash_index env other_user r' (fs_db s') = Inr (idx, fs_db s') \<and>
          (\<forall>q. relative_ok q \<and> \<not> ignores env (de_project_dir env @ q) False \<longrightarrow>
             hm_get idx (res_prefix @ q) =
               (if stored_at env v files (res_prefix @ q) = map_option (de_hash env) (hm_get disk (de_project_dir env @ q))
                then stored_at env v files (res_prefix @ q)
                else content_hash (de_hash env)
                  (committed_content ro (de_project_dir env @ q) (hm_get disk (de_project_dir env @ q)))))))"
  using assms(1-5)
proof (cases rule: fs_commit_run [where username = username])
  case (unchanged ix)
  then show ?thesis by simp
next
  case (committed r' ret ids' db' ix contents w d m db1 st)
  from get_hash_index_stored [OF committed(3-5), of other_user] obtain idx where
    "get_hash_index env other_user r' db' = Inr (idx, db')"
    "\<And>l. hm_get idx l = (if \<not> ignored_path env l then committed_hash env v files contents l else None)"
    unfolding committed(6) by blast
  then show ?thesis using committed(1,2,7) by (simp add: ignored_res [OF assms(1)])
qed

definition demo_read :: read_ops where
  "demo_read = \<lparr>ro_exists = (\<lambda>disk p. Inr (hm_get disk p \<noteq> None)),
     ro_read = (\<lambda>disk p. case hm_get disk p of None \<Rightarrow> Inl () | Some b \<Rightarrow> Inr b),
     ro_grammar = (\<lambda>_. None), ro_draws = (\<lambda>_. [])\<rparr>"

definition demo_state :: "(bool, demo_view list, nat, string) fs_state" where
  "demo_state = \<lparr>fs_pending = [''/p/a''], fs_index = \<lparr>ix_keyspace = Some [], ix_db_ok = True\<rparr>,
     fs_ids = [False, True], fs_db = demo_shadow_db [demo_new, demo_old]\<rparr>"

lemma demo_from_buf: "from_buf (ro_grammar demo_read) (ro_draws demo_read p) ''z'' = Inr (CString ''z'')"
  by (simp add: demo_read_def) code_simp

lemma demo_dir: "de_project_dir demo_db_env = ''/p/''"
  by (simp add: demo_db_env_def)

lemma demo_committable:
  "committable demo_read demo_db_env (history_ref_new True [2]) demo_new DFiles [(''/p/a'', ''z'')] demo_state"
proof -
  have a: "relative_ok ''a''" by (simp add: relative_ok_def unix_text_def sep_def starts_with_def)
  have files: "files_ok demo_doc_ops demo_new DFiles"
    by (auto simp: files_ok_def demo_maps_only demo_new_def demo_file_def split: option.splits)
  have "{l. entry_of demo_doc_ops DFiles demo_new l \<noteq> None \<or>
      (\<exists>q. l = res_prefix @ q \<and> hm_get [(''/p/a'', ''z'')] (''/p/'' @ q) \<noteq> None)} \<subseteq> {''res://a''}"
    using demo_new_entry by (auto simp: res_prefix_def split: if_splits)
  from keys_law_mono [OF demo_keys this] have keys: "keys_law demo_doc_ops DFiles demo_new
     {l. entry_of demo_doc_ops DFiles demo_new l \<noteq> None \<or>
       (\<exists>q. l = res_prefix @ q \<and> hm_get [(''/p/a'', ''z'')] (''/p/'' @ q) \<noteq> None)}" .
  have "view_at demo_db_env (history_ref_new True [2]) (fs_db demo_state) demo_new"
    by (simp add: view_at_def read_shadow_def with_shadow_document_def demo_state_def demo_shadow_db_def
        demo_ad_def history_ref_new_def)
  moreover have "res_paths demo_doc_ops demo_new DFiles"
    using a by (auto simp: res_paths_def demo_new_entry res_prefix_def intro!: exI [of _ "''a''"])
  moreover have "all_stored demo_db_env demo_new DFiles" by (simp add: all_stored_def demo_new_entry demo_new_stored)
  moreover have "read_laws demo_read" by (simp add: read_laws_def demo_read_def)
  moreover have "readable_disk demo_read id [(''/p/a'', ''z'')]"
    by (simp add: readable_disk_def demo_from_buf to_hash_def as_bytes_def)
  moreover have "demo_new ''res://a'' \<noteq> None" by (simp add: demo_new_def demo_file_def)
  moreover have "hm_get (branch_sync_states (fs_db demo_state)) True =
      Some ((branch_sync_state_new True)\<lparr>shadow_doc := Some [demo_new, demo_old]\<rparr>)"
    by (simp add: demo_state_def demo_shadow_db_def)
  moreover have "fs_ids demo_state = [False, True]" by (simp add: demo_state_def)
  ultimately show ?thesis
    using demo_commit_env files keys
    by (simp add: committable_def history_ref_new_def demo_dir)
qed

theorem fs_commit_shows_disk_witness:
  "\<exists>result s'. fs_commit demo_hasher demo_fs demo_read demo_db_env None (history_ref_new True [2]) False []
     [(''/p/a'', ''z'')] demo_state = Inr (result, s') \<and>
   (\<exists>r' statuses idx. result = Some (r', statuses) \<and>
     get_hash_index demo_db_env None r' (fs_db s') = Inr (idx, fs_db s') \<and> hm_get idx ''res://a'' = Some ''z'')"
proof -
  have a: "relative_ok ''a''" by (simp add: relative_ok_def unix_text_def sep_def starts_with_def)
  have disk: "project_disk demo_db_env [(''/p/a'', ''z'')]"
    using a by (auto simp: project_disk_def demo_db_env_def)
  have "stored_at demo_db_env demo_new DFiles ''res://a'' = Some ''y''"
    by (simp add: stored_at_def demo_new_entry [THEN iffD2] demo_new_stored)
  moreover have "committed_content demo_read ''/p/a'' (Some ''z'') = Some (CString ''z'')"
    by (simp add: committed_content_def demo_from_buf)
  moreover have pending: "False \<or> fs_pending demo_state \<noteq> []" by (simp add: demo_state_def)
  have "index_honest demo_hasher demo_fs (fs_index demo_state)" by (simp add: demo_state_def)
  note fs_commit_shows_disk [OF demo_sync_env this disk demo_committable pending, of None None]
  ultimately show ?thesis
    using a demo_ignores unfolding demo_dir
    by (elim exE conjE)
      (auto simp: res_prefix_def content_hash_def to_hash_def as_bytes_def split: option.splits
        dest!: spec [where x = "''a''"])
qed

end
