(* ===== verification/Branch_Meta.thy ===== *)
theory Branch_Meta imports State_Result Doc_Index_Properties begin

text \<open>
  \<open>helpers/branch.rs\<close>, \<open>helpers/autosurgeon_utils.rs\<close> and \<open>project/branch_db/branch.rs\<close>: the records of the
  branches in the metadata document, and how branches are created, forked and removed.

  Autosurgeon reads and writes the metadata document as maps and lists of texts; the conversions of
  document ids and change hashes in it are the code's own and are modelled here. What
  autosurgeon does with a view is the parameter \<open>meta_ops\<close>. A handle is the id of its document.
\<close>

section \<open>Branch records\<close>

record ('d, 'h) branch =
  br_name :: string
  br_id :: 'd
  br_forked_from :: "('d, 'h) history_ref option"
  br_merge_into :: "('d, 'h) history_ref option"
  br_reverted_to :: "('d, 'h) history_ref option"
  br_created_by :: "string option"

record ('d, 'h) branches_metadata =
  bm_main_doc_id :: 'd
  bm_branches :: "('d, ('d, 'h) branch) hmap"

text \<open>The same as texts.\<close>

record stored_ref =
  sr_branch :: string
  sr_heads :: "string list"

record stored_branch =
  sb_name :: string
  sb_id :: string
  sb_forked_from :: "stored_ref option"
  sb_merge_into :: "stored_ref option"
  sb_reverted_to :: "stored_ref option"
  sb_created_by :: "string option"

record stored_metadata =
  sm_main_doc_id :: string
  sm_branches :: "(string, stored_branch) hmap"

section \<open>Conversions\<close>

definition doc_id_hydrate :: "('d, 'h) id_io \<Rightarrow> string \<Rightarrow> unit + 'd" where
  "doc_id_hydrate io inner = ok_or () (parse_doc io inner)"

definition doc_id_reconcile :: "('d, 'h) id_io \<Rightarrow> 'd \<Rightarrow> string" where
  "doc_id_reconcile io i = show_doc io i"

definition heads_hydrate :: "('d, 'h) id_io \<Rightarrow> string list \<Rightarrow> unit + 'h list" where
  "heads_hydrate io inner = collect_res (\<lambda>h. ok_or () (parse_hash io h)) inner"

definition heads_reconcile :: "('d, 'h) id_io \<Rightarrow> 'h list \<Rightarrow> string list" where
  "heads_reconcile io heads = map (show_hash io) heads"

definition ref_hydrate :: "('d, 'h) id_io \<Rightarrow> stored_ref \<Rightarrow> unit + ('d, 'h) history_ref" where
  "ref_hydrate io r =
     rbind (doc_id_hydrate io (sr_branch r)) (\<lambda>branch.
     rbind (heads_hydrate io (sr_heads r)) (\<lambda>heads. Inr \<lparr>hr_branch = branch, hr_heads = heads\<rparr>))"

definition ref_reconcile :: "('d, 'h) id_io \<Rightarrow> ('d, 'h) history_ref \<Rightarrow> stored_ref" where
  "ref_reconcile io r = \<lparr>sr_branch = doc_id_reconcile io (hr_branch r), sr_heads = heads_reconcile io (hr_heads r)\<rparr>"

definition option_hydrate :: "('a \<Rightarrow> unit + 'b) \<Rightarrow> 'a option \<Rightarrow> unit + 'b option" where
  "option_hydrate f x = (case x of None \<Rightarrow> Inr None | Some y \<Rightarrow> rbind (f y) (\<lambda>z. Inr (Some z)))"

definition branch_hydrate :: "('d, 'h) id_io \<Rightarrow> stored_branch \<Rightarrow> unit + ('d, 'h) branch" where
  "branch_hydrate io b =
     rbind (doc_id_hydrate io (sb_id b)) (\<lambda>i.
     rbind (option_hydrate (ref_hydrate io) (sb_forked_from b)) (\<lambda>forked_from.
     rbind (option_hydrate (ref_hydrate io) (sb_merge_into b)) (\<lambda>merge_into.
     rbind (option_hydrate (ref_hydrate io) (sb_reverted_to b)) (\<lambda>reverted_to.
     Inr \<lparr>br_name = sb_name b, br_id = i, br_forked_from = forked_from, br_merge_into = merge_into,
          br_reverted_to = reverted_to, br_created_by = sb_created_by b\<rparr>))))"

definition branch_reconcile :: "('d, 'h) id_io \<Rightarrow> ('d, 'h) branch \<Rightarrow> stored_branch" where
  "branch_reconcile io b =
     \<lparr>sb_name = br_name b, sb_id = doc_id_reconcile io (br_id b),
      sb_forked_from = map_option (ref_reconcile io) (br_forked_from b),
      sb_merge_into = map_option (ref_reconcile io) (br_merge_into b),
      sb_reverted_to = map_option (ref_reconcile io) (br_reverted_to b), sb_created_by = br_created_by b\<rparr>"

text \<open>The map of branches: first its values are read, then its keys are parsed.\<close>

definition branch_map_hydrate ::
  "('d, 'h) id_io \<Rightarrow> (string, stored_branch) hmap \<Rightarrow> unit + ('d, ('d, 'h) branch) hmap" where
  "branch_map_hydrate io inner =
     rbind (collect_res (\<lambda>(k, v). rbind (branch_hydrate io v) (\<lambda>v. Inr (k, v))) inner) (\<lambda>inner.
     rbind (collect_res (\<lambda>(k, v). rbind (doc_id_hydrate io k) (\<lambda>k. Inr (k, v))) inner) (\<lambda>ps.
     Inr (hm_collect ps)))"

definition branch_map_reconcile ::
  "('d, 'h) id_io \<Rightarrow> ('d, ('d, 'h) branch) hmap \<Rightarrow> (string, stored_branch) hmap" where
  "branch_map_reconcile io m = hm_collect (map (\<lambda>(k, v). (doc_id_reconcile io k, branch_reconcile io v)) m)"

text \<open>Reading and writing a whole document: what is stored, and whether it was stored.\<close>

record 'v meta_ops =
  mo_read :: "'v \<Rightarrow> unit + stored_metadata"
  mo_write :: "'v \<Rightarrow> stored_metadata \<Rightarrow> bool \<times> 'v"
  mo_empty_project :: "'v \<Rightarrow> 'v"

definition meta_hydrate :: "('d, 'h) id_io \<Rightarrow> 'v meta_ops \<Rightarrow> 'v \<Rightarrow> unit + ('d, 'h) branches_metadata" where
  "meta_hydrate io mo v =
     rbind (mo_read mo v) (\<lambda>s.
     rbind (doc_id_hydrate io (sm_main_doc_id s)) (\<lambda>main_doc_id.
     rbind (branch_map_hydrate io (sm_branches s)) (\<lambda>branches.
     Inr \<lparr>bm_main_doc_id = main_doc_id, bm_branches = branches\<rparr>)))"

definition meta_reconcile ::
  "('d, 'h) id_io \<Rightarrow> 'v meta_ops \<Rightarrow> 'v \<Rightarrow> ('d, 'h) branches_metadata \<Rightarrow> bool \<times> 'v" where
  "meta_reconcile io mo v m =
     mo_write mo v \<lparr>sm_main_doc_id = doc_id_reconcile io (bm_main_doc_id m),
                    sm_branches = branch_map_reconcile io (bm_branches m)\<rparr>"

section \<open>The database\<close>

record ('d, 'doc, 'h) project_db =
  pd_default_username :: "string option"
  pd_authenticated_username :: "string option"
  pd_states :: "('d, 'doc, 'h) branch_states"
  pd_metadata :: "('d \<times> ('d, 'h) branches_metadata) option"
  pd_checked_out :: "('d, 'h) history_ref option"
  pd_ids :: "'d list"                          \<comment> \<open>the ids of documents to be created\<close>

type_synonym ('d, 'doc, 'h, 'a) db_run = "(('d, 'doc, 'h) project_db, ('d, 'h) db_error, 'a) run"

definition resolve_username :: "('d, 'doc, 'h) project_db \<Rightarrow> string option" where
  "resolve_username db =
     (case pd_authenticated_username db of Some u \<Rightarrow> Some u | None \<Rightarrow> pd_default_username db)"

definition set_doc :: "'d \<Rightarrow> 'doc \<Rightarrow> ('d, 'doc, 'h) project_db \<Rightarrow> ('d, 'doc, 'h) project_db" where
  "set_doc i d db = db\<lparr>pd_states := (pd_states db)\<lparr>repo_docs := (repo_docs (pd_states db))(i := d)\<rparr>\<rparr>"

text \<open>\<open>Repo::create\<close> fails when the repository has stopped.\<close>

definition repo_create :: "'doc \<Rightarrow> ('d, 'doc, 'h, 'd) db_run" where
  "repo_create d db =
     (case pd_ids db of
        [] \<Rightarrow> (Inl (Err RepoStopped), db)
      | i # ids \<Rightarrow> (Inr i, set_doc i d (db\<lparr>pd_ids := ids\<rparr>)))"

definition get_metadata_state ::
  "('d, 'doc, 'h) project_db \<Rightarrow> (('d, 'h) db_error, 'd \<times> ('d, 'h) branches_metadata) outcome" where
  "get_metadata_state db = ok_or (Err NoMetadataState) (pd_metadata db)"

definition set_metadata_state ::
  "'d \<Rightarrow> ('d, 'h) branches_metadata \<Rightarrow> ('d, 'doc, 'h) project_db \<Rightarrow> ('d, 'doc, 'h) project_db" where
  "set_metadata_state handle state db = db\<lparr>pd_metadata := Some (handle, state)\<rparr>"

definition get_main_branch :: "('d, 'doc, 'h) project_db \<Rightarrow> (('d, 'h) db_error, 'd) outcome" where
  "get_main_branch db = rbind (get_metadata_state db) (\<lambda>(_, meta). Inr (bm_main_doc_id meta))"

definition get_branch_state ::
  "'d \<Rightarrow> ('d, 'doc, 'h) project_db \<Rightarrow> (('d, 'h) db_error, ('d, 'h) branch) outcome" where
  "get_branch_state i db =
     rbind (get_metadata_state db) (\<lambda>(_, meta). ok_or (Err (NoBranch i)) (hm_get (bm_branches meta) i))"

definition get_branch_name :: "'d \<Rightarrow> ('d, 'doc, 'h) project_db \<Rightarrow> (('d, 'h) db_error, string) outcome" where
  "get_branch_name i db =
     rbind (get_metadata_state db) (\<lambda>(_, meta).
     rbind (ok_or (Err (NoBranch i)) (hm_get (bm_branches meta) i)) (\<lambda>b. Inr (br_name b)))"

definition get_branch_children :: "'d \<Rightarrow> ('d, 'doc, 'h) project_db \<Rightarrow> 'd list" where
  "get_branch_children i db =
     (case pd_metadata db of
        None \<Rightarrow> []
      | Some (_, m) \<Rightarrow> map fst (filter (\<lambda>(_, state).
          case br_forked_from state of Some forked_from \<Rightarrow> hr_branch forked_from = i | None \<Rightarrow> False) (bm_branches m)))"

section \<open>Operations\<close>

definition setup_metadata :: "string option \<Rightarrow> 'd option \<Rightarrow> ('d, 'h) commit_metadata" where
  "setup_metadata username branch_id =
     \<lparr>cm_username = username, cm_branch_id = branch_id, cm_merge_metadata = None, cm_reverted_to = None,
      cm_changed_files = None, cm_is_setup = Some True\<rparr>"

definition create_metadata_doc ::
  "('doc, 'h::linorder, 'v, 'o, 'd, 'x) db_env \<Rightarrow> 'v meta_ops \<Rightarrow> ('d, 'doc, 'h, 'd) db_run" where
  "create_metadata_doc env mo =
     sbind (sgets (\<lambda>db. Inr (resolve_username db))) (\<lambda>username.
     sbind (repo_create (ad_new (de_doc env))) (\<lambda>main_handle.
     let ad = de_doc env; am = de_am env;
         v = mo_empty_project mo (ad_current ad (ad_new ad));
         v = am_put am v (am_root am) ''version'' (SInt 1);
         d = ad_commit ad (ad_new ad) v (setup_metadata username (Some main_handle));
         branches = [(main_handle, \<lparr>br_name = ''main'', br_id = main_handle, br_forked_from = None,
           br_merge_into = None, br_reverted_to = None, br_created_by = username\<rparr>)]
     in sbind (smodify (\<lambda>db. (set_doc main_handle d db)
            \<lparr>pd_checked_out := Some (history_ref_new main_handle (am_heads (de_crdt env) d))\<rparr>)) (\<lambda>_.
        sbind (sunwrap (repo_create (ad_new ad))) (\<lambda>metadata_handle.
        let (_, v) = meta_reconcile (de_io env) mo (ad_current ad (ad_new ad))
                       \<lparr>bm_main_doc_id = main_handle, bm_branches = branches\<rparr>
        in sbind (smodify (set_doc metadata_handle (ad_commit ad (ad_new ad) v (setup_metadata username None)))) (\<lambda>_.
           sret metadata_handle)))))"

text \<open>Both changes of the metadata document work on the document itself; the state that the database keeps of
  it changes when the document is ingested again.\<close>

definition add_branch_to_meta ::
  "('doc, 'h, 'v, 'o, 'd, 'x) db_env \<Rightarrow> 'v meta_ops \<Rightarrow> ('d, 'h) branch \<Rightarrow> ('d, 'doc, 'h, unit) db_run" where
  "add_branch_to_meta env mo branch =
     sbind (sgets get_metadata_state) (\<lambda>(meta_handle, _).
     sbind (sgets (\<lambda>db. Inr (resolve_username db))) (\<lambda>username.
     sbind (sgets (\<lambda>db. Inr (repo_docs (pd_states db) meta_handle))) (\<lambda>d.
     let v = ad_current (de_doc env) d
     in case meta_hydrate (de_io env) mo v of
          Inl _ \<Rightarrow> sfail (Err HydrateError)
        | Inr m \<Rightarrow>
            (case meta_reconcile (de_io env) mo v
                    (m\<lparr>bm_branches := hm_insert (br_id branch) branch (bm_branches m)\<rparr>) of
               (False, _) \<Rightarrow> sfail (Err ReconcileError)
             | (True, v) \<Rightarrow>
                 smodify (set_doc meta_handle (ad_commit (de_doc env) d v (setup_metadata username None)))))))"

text \<open>A panic of the blocking task is an error of the thread.\<close>

definition remove_branch_from_meta ::
  "('doc, 'h, 'v, 'o, 'd, 'x) db_env \<Rightarrow> 'v meta_ops \<Rightarrow> 'd \<Rightarrow> ('d, 'doc, 'h, unit) db_run" where
  "remove_branch_from_meta env mo branch =
     sbind (sgets get_metadata_state) (\<lambda>(meta_handle, _).
     sbind (sgets (\<lambda>db. Inr (resolve_username db))) (\<lambda>username.
     sbind (sgets (\<lambda>db. Inr (repo_docs (pd_states db) meta_handle))) (\<lambda>d.
     let v = ad_current (de_doc env) d
     in case meta_hydrate (de_io env) mo v of
          Inl _ \<Rightarrow> sfail (Err ThreadError)
        | Inr m \<Rightarrow>
            let (_, v) = meta_reconcile (de_io env) mo v (m\<lparr>bm_branches := hm_remove branch (bm_branches m)\<rparr>)
            in smodify (set_doc meta_handle (ad_commit (de_doc env) d v (setup_metadata username None))))))"

definition delete_branch ::
  "('doc, 'h, 'v, 'o, 'd, 'x) db_env \<Rightarrow> 'v meta_ops \<Rightarrow> 'd \<Rightarrow> ('d, 'doc, 'h, unit) db_run" where
  "delete_branch env mo branch = remove_branch_from_meta env mo branch"

definition clone_branch ::
  "('doc, 'h, 'v, 'o, 'd, 'x) db_env \<Rightarrow> 'd \<Rightarrow> ('d, 'doc, 'h, 'd) db_run" where
  "clone_branch env branch =
     sbind (sgets (\<lambda>db. lift_err (read_shadow branch id (pd_states db)))) repo_create"

definition fork_branch ::
  "('doc, 'h::linorder, 'v, 'o, 'd, 'x) db_env \<Rightarrow> 'v meta_ops \<Rightarrow> string \<Rightarrow> 'd \<Rightarrow> ('d, 'doc, 'h, 'd) db_run" where
  "fork_branch env mo name source =
     sbind (sgets (\<lambda>db. lift_err (get_latest_ref_on_branch env source (pd_states db)))) (\<lambda>latest_ref.
     sbind (clone_branch env source) (\<lambda>new_handle.
     sbind (sgets (\<lambda>db. Inr (resolve_username db))) (\<lambda>username.
     sbind (add_branch_to_meta env mo
         \<lparr>br_name = name, br_id = new_handle, br_forked_from = Some latest_ref, br_merge_into = None,
          br_reverted_to = None, br_created_by = username\<rparr>) (\<lambda>_.
     sret new_handle))))"

section \<open>Round trips\<close>

lemma id_inverse [simp]: "id_laws io \<Longrightarrow> parse_doc io (show_doc io i) = Some i"
  "id_laws io \<Longrightarrow> parse_hash io (show_hash io h) = Some h"
  by (simp_all add: id_laws_def)

lemma heads_roundtrip: "id_laws io \<Longrightarrow> heads_hydrate io (heads_reconcile io hs) = Inr hs"
  by (induction hs) (simp_all add: heads_hydrate_def heads_reconcile_def)

lemma ref_roundtrip: "id_laws io \<Longrightarrow> ref_hydrate io (ref_reconcile io r) = Inr r"
  by (simp add: ref_hydrate_def ref_reconcile_def doc_id_hydrate_def doc_id_reconcile_def heads_roundtrip)

lemma option_roundtrip: "(\<And>x. f (g x) = Inr x) \<Longrightarrow> option_hydrate f (map_option g x) = Inr x"
  by (cases x) (simp_all add: option_hydrate_def)

lemma branch_roundtrip: "id_laws io \<Longrightarrow> branch_hydrate io (branch_reconcile io b) = Inr b"
  by (simp add: branch_hydrate_def branch_reconcile_def doc_id_hydrate_def doc_id_reconcile_def
      option_roundtrip ref_roundtrip)

lemma branch_map_reconcile_get:
  assumes io: "id_laws io" and wf: "hm_wf m"
  shows "hm_get (branch_map_reconcile io m) l = Some w \<longleftrightarrow>
    (\<exists>i b. hm_get m i = Some b \<and> l = show_doc io i \<and> w = branch_reconcile io b)"
proof -
  have "inj_on (show_doc io) (set (hm_keys m))" by (rule inj_onI) (metis id_inverse(1) [OF io] option.inject)
  then show ?thesis using hm_get_collect_map [OF wf] by (simp add: branch_map_reconcile_def doc_id_reconcile_def)
qed

lemma branch_map_roundtrip:
  assumes io: "id_laws io" and wf: "hm_wf m" "hm_wf s"
    and s: "hm_get s = hm_get (branch_map_reconcile io m)"
  shows "\<exists>m'. branch_map_hydrate io s = Inr m' \<and> hm_wf m' \<and> hm_get m' = hm_get m"
proof -
  define key where "key = (\<lambda>k. the (parse_doc io k))"
  define val where "val = (\<lambda>v. the (get_ok (branch_hydrate io v)))"
  have kv: "\<exists>i b. hm_get m i = Some b \<and> k = show_doc io i \<and> v = branch_reconcile io b"
    if "(k, v) \<in> set s" for k v
    using that hm_get_eq_Some_iff [OF wf(2)] branch_map_reconcile_get [OF io wf(1)] unfolding s by blast
  have "collect_res (\<lambda>(k, v). rbind (branch_hydrate io v) (\<lambda>v. Inr (k, v))) s = Inr (map (\<lambda>(k, v). (k, val v)) s)"
    by (rule collect_res_map_Inr) (auto dest!: kv simp: val_def branch_roundtrip [OF io])
  moreover have "collect_res (\<lambda>(k, v). rbind (doc_id_hydrate io k) (\<lambda>k. Inr (k, v))) (map (\<lambda>(k, v). (k, val v)) s) =
      Inr (map (\<lambda>(k, v). (key k, v)) (map (\<lambda>(k, v). (k, val v)) s))"
    by (rule collect_res_map_Inr) (auto dest!: kv simp: key_def doc_id_hydrate_def io)
  moreover have "map (\<lambda>(k, v). (key k, v)) (map (\<lambda>(k, v). (k, val v)) s) = map (\<lambda>(k, v). (key k, val v)) s"
    by (simp add: case_prod_unfold)
  ultimately have run: "branch_map_hydrate io s = Inr (hm_collect (map (\<lambda>(k, v). (key k, val v)) s))"
    by (simp only: branch_map_hydrate_def rbind_Inr)
  have "inj_on key (set (hm_keys s))"
  proof (rule inj_onI)
    fix k k'
    assume k: "k \<in> set (hm_keys s)" "k' \<in> set (hm_keys s)" "key k = key k'"
    then obtain v v' where "(k, v) \<in> set s" "(k', v') \<in> set s" by auto
    then obtain i i' where "k = show_doc io i" "k' = show_doc io i'" using kv by metis
    with k(3) show "k = k'" by (simp add: key_def io)
  qed
  from hm_get_collect_map [OF wf(2) this]
  have get: "hm_get (hm_collect (map (\<lambda>(k, v). (key k, val v)) s)) i = Some b \<longleftrightarrow>
      (\<exists>k v. hm_get s k = Some v \<and> i = key k \<and> b = val v)" for i b .
  have "hm_get (hm_collect (map (\<lambda>(k, v). (key k, val v)) s)) i = Some b \<longleftrightarrow> hm_get m i = Some b" for i b
  proof
    assume "hm_get (hm_collect (map (\<lambda>(k, v). (key k, val v)) s)) i = Some b"
    then show "hm_get m i = Some b"
      unfolding get s branch_map_reconcile_get [OF io wf(1)] by (auto simp: key_def val_def io branch_roundtrip)
  next
    assume "hm_get m i = Some b"
    then have "hm_get s (show_doc io i) = Some (branch_reconcile io b)"
      unfolding s branch_map_reconcile_get [OF io wf(1)] by blast
    moreover have "i = key (show_doc io i)" "b = val (branch_reconcile io b)"
      by (simp_all add: key_def val_def io branch_roundtrip)
    ultimately show "hm_get (hm_collect (map (\<lambda>(k, v). (key k, val v)) s)) i = Some b"
      unfolding get by (intro exI conjI)
  qed
  then have "hm_get (hm_collect (map (\<lambda>(k, v). (key k, val v)) s)) = hm_get m"
    by (intro ext option_ext)
  with run show ?thesis by auto
qed

text \<open>What the code relies on: identifiers parse back; autosurgeon stores a value and reads the same value
  back, maps up to their order; and a committed document shows what was committed.\<close>

definition meta_laws :: "('doc, 'h, 'v, 'o, 'd, 'x) db_env \<Rightarrow> 'v meta_ops \<Rightarrow> bool" where
  "meta_laws env mo \<longleftrightarrow> id_laws (de_io env) \<and>
     (\<forall>d v m. ad_current (de_doc env) (ad_commit (de_doc env) d v m) = v) \<and>
     (\<forall>v s. hm_wf (sm_branches s) \<longrightarrow> (\<exists>w s'. mo_write mo v s = (True, w) \<and> mo_read mo w = Inr s' \<and>
        sm_main_doc_id s' = sm_main_doc_id s \<and> hm_wf (sm_branches s') \<and>
        hm_get (sm_branches s') = hm_get (sm_branches s)))"

lemma meta_roundtrip:
  assumes laws: "meta_laws env mo" and wf: "hm_wf (bm_branches m)"
  shows "\<exists>w m'. meta_reconcile (de_io env) mo v m = (True, w) \<and> meta_hydrate (de_io env) mo w = Inr m' \<and>
    bm_main_doc_id m' = bm_main_doc_id m \<and> hm_wf (bm_branches m') \<and>
    hm_get (bm_branches m') = hm_get (bm_branches m)"
proof -
  let ?io = "de_io env"
  let ?s = "\<lparr>sm_main_doc_id = doc_id_reconcile ?io (bm_main_doc_id m),
             sm_branches = branch_map_reconcile ?io (bm_branches m)\<rparr>"
  from laws have io: "id_laws ?io" by (simp add: meta_laws_def)
  have "hm_wf (sm_branches ?s)" by (simp add: branch_map_reconcile_def)
  with laws obtain w s' where w: "mo_write mo v ?s = (True, w)" "mo_read mo w = Inr s'"
    "sm_main_doc_id s' = sm_main_doc_id ?s" "hm_wf (sm_branches s')"
    "hm_get (sm_branches s') = hm_get (sm_branches ?s)" unfolding meta_laws_def by blast
  from branch_map_roundtrip [OF io wf w(4)] w(5) obtain m' where
    "branch_map_hydrate ?io (sm_branches s') = Inr m'" "hm_wf m'" "hm_get m' = hm_get (bm_branches m)" by auto
  with w(1-3) show ?thesis
    by (simp add: meta_reconcile_def meta_hydrate_def doc_id_reconcile_def doc_id_hydrate_def io)
qed

section \<open>The registry of branches\<close>

text \<open>The branches that the metadata document lists, whatever their order.\<close>

definition registry ::
  "('doc, 'h, 'v, 'o, 'd, 'x) db_env \<Rightarrow> 'v meta_ops \<Rightarrow> ('d, 'doc, 'h) project_db \<Rightarrow>
   ('d \<Rightarrow> ('d, 'h) branch option) option" where
  "registry env mo db =
     (case pd_metadata db of
        None \<Rightarrow> None
      | Some (h, _) \<Rightarrow>
          (case meta_hydrate (de_io env) mo (ad_current (de_doc env) (repo_docs (pd_states db) h)) of
             Inl _ \<Rightarrow> None | Inr m \<Rightarrow> Some (hm_get (bm_branches m))))"

text \<open>Only the metadata document differs.\<close>

definition only_meta :: "('d, 'doc, 'h) project_db \<Rightarrow> ('d, 'doc, 'h) project_db \<Rightarrow> bool" where
  "only_meta db db' \<longleftrightarrow> (\<exists>h c d. pd_metadata db = Some (h, c) \<and> db' = set_doc h d db)"

lemma hydrate_wf:
  assumes "meta_hydrate io mo v = Inr m"
  shows "hm_wf (bm_branches m)"
  using assms by (auto simp: meta_hydrate_def branch_map_hydrate_def rbind_eq_Inr_iff)

lemma registry_write:
  assumes laws: "meta_laws env mo" and meta: "pd_metadata db = Some (h, c)"
    and m: "meta_hydrate (de_io env) mo (ad_current (de_doc env) (repo_docs (pd_states db) h)) = Inr m"
    and wf: "hm_wf (f (bm_branches m))"
  shows "\<exists>w. meta_reconcile (de_io env) mo (ad_current (de_doc env) (repo_docs (pd_states db) h))
      (m\<lparr>bm_branches := f (bm_branches m)\<rparr>) = (True, w) \<and>
    (\<forall>d cm. registry env mo (set_doc h (ad_commit (de_doc env) d w cm) db) = Some (hm_get (f (bm_branches m))))"
proof -
  let ?v = "ad_current (de_doc env) (repo_docs (pd_states db) h)"
  have "hm_wf (bm_branches (m\<lparr>bm_branches := f (bm_branches m)\<rparr>))" using wf by simp
  from meta_roundtrip [OF laws this, of ?v] obtain w m' where
    w: "meta_reconcile (de_io env) mo ?v (m\<lparr>bm_branches := f (bm_branches m)\<rparr>) = (True, w)"
      "meta_hydrate (de_io env) mo w = Inr m'" "hm_get (bm_branches m') = hm_get (f (bm_branches m))" by auto
  have "ad_current (de_doc env) (ad_commit (de_doc env) d w cm) = w" for d cm
    using laws by (simp add: meta_laws_def)
  with w meta show ?thesis by (simp add: registry_def set_doc_def)
qed

lemma registry_Some:
  assumes "registry env mo db = Some reg"
  obtains h c m where "pd_metadata db = Some (h, c)" and "reg = hm_get (bm_branches m)"
    "meta_hydrate (de_io env) mo (ad_current (de_doc env) (repo_docs (pd_states db) h)) = Inr m"
  using assms by (auto simp: registry_def split: option.splits sum.splits prod.splits)

lemma add_branch_registry:
  assumes laws: "meta_laws env mo" and reg: "registry env mo db = Some reg"
  shows "\<exists>db'. add_branch_to_meta env mo b db = (Inr (), db') \<and>
    registry env mo db' = Some (reg(br_id b \<mapsto> b)) \<and> only_meta db db'"
proof -
  from reg obtain h c m where meta: "pd_metadata db = Some (h, c)" and reg: "reg = hm_get (bm_branches m)"
    and m: "meta_hydrate (de_io env) mo (ad_current (de_doc env) (repo_docs (pd_states db) h)) = Inr m"
    by (rule registry_Some)
  from registry_write [OF laws meta m, of "hm_insert (br_id b) b"] hydrate_wf [OF m] obtain w where
    "meta_reconcile (de_io env) mo (ad_current (de_doc env) (repo_docs (pd_states db) h))
        (m\<lparr>bm_branches := hm_insert (br_id b) b (bm_branches m)\<rparr>) = (True, w)"
    "\<And>d cm. registry env mo (set_doc h (ad_commit (de_doc env) d w cm) db) =
        Some (hm_get (hm_insert (br_id b) b (bm_branches m)))" by auto
  with meta m reg show ?thesis
    by (auto simp: add_branch_to_meta_def get_metadata_state_def only_meta_def hm_get_insert)
qed

lemma remove_branch_registry:
  assumes laws: "meta_laws env mo" and reg: "registry env mo db = Some reg"
  shows "\<exists>db'. delete_branch env mo i db = (Inr (), db') \<and>
    registry env mo db' = Some (reg(i := None)) \<and> only_meta db db'"
proof -
  from reg obtain h c m where meta: "pd_metadata db = Some (h, c)" and reg: "reg = hm_get (bm_branches m)"
    and m: "meta_hydrate (de_io env) mo (ad_current (de_doc env) (repo_docs (pd_states db) h)) = Inr m"
    by (rule registry_Some)
  from registry_write [OF laws meta m, of "hm_remove i"] hydrate_wf [OF m] obtain w where
    "meta_reconcile (de_io env) mo (ad_current (de_doc env) (repo_docs (pd_states db) h))
        (m\<lparr>bm_branches := hm_remove i (bm_branches m)\<rparr>) = (True, w)"
    "\<And>d cm. registry env mo (set_doc h (ad_commit (de_doc env) d w cm) db) =
        Some (hm_get (hm_remove i (bm_branches m)))" by auto
  with meta m reg show ?thesis
    by (auto simp: delete_branch_def remove_branch_from_meta_def get_metadata_state_def only_meta_def hm_get_remove)
qed

section \<open>Forks\<close>

lemma read_shadow_ok:
  "hm_get (branch_sync_states db) branch = Some st \<Longrightarrow> shadow_doc st = Some d \<Longrightarrow> read_shadow branch f db = Inr (f d)"
  by (simp add: read_shadow_def with_shadow_ok)

text \<open>What the code relies on for copies: documents with the same changes merge, also after a commit to one
  of them, everything merges into a new document, and a merge of two documents one of which has the
  changes of the other shows what the larger one shows.\<close>

definition same_views :: "('doc, 'h, 'v, 'm) am_doc \<Rightarrow> 'doc \<Rightarrow> 'doc \<Rightarrow> bool" where
  "same_views ad d e \<longleftrightarrow> ad_at ad d = ad_at ad e \<and> ad_current ad d = ad_current ad e"

definition copy_laws :: "('doc, 'h) crdt \<Rightarrow> ('doc, 'h, 'v, 'm) am_doc \<Rightarrow> ('doc \<Rightarrow> 'c set) \<Rightarrow> bool" where
  "copy_laws am ad changes \<longleftrightarrow> crdt_laws am changes \<and> changes (ad_new ad) = {} \<and>
     (\<forall>d. same_views ad (am_fork am d) d) \<and> (\<forall>d. fst (am_merge am (ad_new ad) d)) \<and>
     (\<forall>d v m. changes d \<subseteq> changes (ad_commit ad d v m)) \<and>
     (\<forall>d e. changes d = changes e \<and> same_views ad d e \<longrightarrow> fst (am_merge am d e) \<and>
        (\<forall>v m. fst (am_merge am (ad_commit ad d v m) e) \<and>
           fst (am_merge am e (snd (am_merge am (ad_commit ad d v m) e))))) \<and>
     (\<forall>d e d'. am_merge am d e = (True, d') \<and> changes e \<subseteq> changes d \<longrightarrow> same_views ad d' d) \<and>
     (\<forall>d e d'. am_merge am d e = (True, d') \<and> changes d \<subseteq> changes e \<longrightarrow> same_views ad d' e)"

lemma copies_merge:
  assumes "copy_laws am ad changes" and "changes d = changes e" and "same_views ad d e"
  shows "\<exists>s. am_merge am d e = (True, s) \<and> same_views ad s d \<and> changes s = changes d"
proof -
  have crdt: "crdt_laws am changes" using assms(1) by (simp add: copy_laws_def)
  obtain s where s: "am_merge am d e = (True, s)"
    using assms unfolding copy_laws_def by (metis (full_types) prod.collapse)
  moreover have "same_views ad s d" using assms(1,2) s unfolding copy_laws_def by blast
  ultimately show ?thesis using crdt_merge [OF crdt s] assms(2) by simp
qed

lemma same_views_sym: "same_views ad d e \<longleftrightarrow> same_views ad e d"
  by (auto simp: same_views_def)

lemma same_views_trans: "same_views ad d e \<Longrightarrow> same_views ad e f \<Longrightarrow> same_views ad d f"
  by (simp add: same_views_def)

lemma heads_eq:
  assumes "crdt_laws am changes" and "changes d = changes e"
  shows "sort (am_heads am d) = sort (am_heads am e)"
  using are_heads_equivalent_iff [OF crdt_heads_distinct [OF assms(1)] crdt_heads_distinct [OF assms(1)]]
    crdt_heads [OF assms(1)] assms(2) unfolding are_heads_equivalent_def by blast

text \<open>The first reconciliation of a branch whose linked binary documents are all there.\<close>

lemma first_reconcile:
  assumes laws: "copy_laws am ad changes" and none: "hm_get (branch_sync_states db) i = None"
    and linked: "\<forall>j\<in>set linked. has_binary_doc j db" and heads: "heads \<noteq> []"
  shows "\<exists>db' st s d. update_branch_sync_state am i heads linked db = (True, db') \<and>
    hm_get (branch_sync_states db') i = Some st \<and> shadow_doc st = Some s \<and> canonical_doc st = i \<and>
    resolved_all_canonical_binary_docs (canonical_binary_docs st) \<and>
    same_views ad s (repo_docs db i) \<and> changes s = changes (repo_docs db i) \<and>
    same_views ad d (repo_docs db i) \<and> changes d = changes (repo_docs db i) \<and>
    repo_docs db' = (repo_docs db)(i := d) \<and> binary_states db' = binary_states db \<and>
    (\<forall>b. b \<noteq> i \<longrightarrow> hm_get (branch_sync_states db') b = hm_get (branch_sync_states db) b)"
proof -
  let ?docs = "hm_collect (map (\<lambda>i. (i, handle_status (hm_get (binary_states db) i))) linked)"
  let ?st = "(branch_sync_state_new i)\<lparr>canonical_binary_docs := ?docs, last_tracked := heads\<rparr>"
  let ?db = "db\<lparr>branch_sync_states := hm_insert i ?st (branch_sync_states db)\<rparr>"
  let ?c = "repo_docs db i"
  have crdt: "crdt_laws am changes" using laws by (simp add: copy_laws_def)
  have "v \<noteq> Pending" if "(j, v) \<in> set ?docs" for j v
  proof -
    from that have "hm_get ?docs j = Some v" by (simp add: hm_get_eq_Some_iff)
    then have "(j, v) \<in> set (map (\<lambda>i. (i, handle_status (hm_get (binary_states db) i))) linked)"
      unfolding hm_get_collect by (auto dest: map_of_SomeD)
    then show ?thesis using linked by (auto simp: has_binary_doc_def hm_contains_def handle_status_eq)
  qed
  then have resolved: "resolved_all_canonical_binary_docs ?docs"
    by (auto simp: resolved_all_canonical_binary_docs_def)
  have fork: "same_views ad (am_fork am ?c) ?c" "changes (am_fork am ?c) = changes ?c"
    using laws crdt_fork [OF crdt] by (auto simp: copy_laws_def)
  from copies_merge [OF laws fork(2,1)] obtain s where m1: "am_merge am (am_fork am ?c) ?c = (True, s)"
    and s: "same_views ad s ?c" "changes s = changes ?c" using fork by (auto simp: same_views_def)
  from copies_merge [OF laws, of ?c s] s obtain d where m2: "am_merge am ?c s = (True, d)"
    and d: "same_views ad d ?c" "changes d = changes ?c" by (auto simp: same_views_def)
  have "\<not> are_heads_equivalent [] heads"
    using heads by (auto simp: are_heads_equivalent_def dest: arg_cong [where f = length])
  then obtain st where rec: "try_reconcile am ?c ?st = ((True, True), d, st)"
    and st: "shadow_doc st = Some s" "canonical_doc st = i" "canonical_binary_docs st = ?docs"
    using resolved m1 m2 by (simp add: try_reconcile_def branch_sync_state_new_def)
  have run: "update_branch_sync_state am i heads linked db = (True, ?db\<lparr>repo_docs := (repo_docs db)(i := d),
      branch_sync_states := hm_insert i st (branch_sync_states ?db)\<rparr>)"
    using none resolved rec
    by (simp add: update_branch_sync_state_def try_reconcile_branch_def hm_get_insert branch_sync_state_new_def Let_def)
  show ?thesis using run st s d resolved by (auto simp: hm_get_insert)
qed

lemma linked_file_other:
  assumes "binary_states db' = binary_states db"
    and "\<And>j k. hm_get (binary_states db) j = Some (Some k) \<Longrightarrow> repo_docs db' k = repo_docs db k"
  shows "get_linked_file env j db' = get_linked_file env j db"
  using assms by (simp add: get_linked_file_def split: option.split)

text \<open>The index of a reference on another branch, in another state, that shows the same view.\<close>

lemma same_view_index:
  assumes linked: "\<And>j. get_linked_file env j db' = get_linked_file env j db"
    and view: "view_at env r db v" "view_at env r' db' v"
    and files: "files_ok (de_am env) v files" "files_readable env db v files" "hashes_true env db v files"
  shows "\<exists>idx db1 idx' db2. get_hash_index env username r db = Inr (idx, db1) \<and>
    get_hash_index env username r' db' = Inr (idx', db2) \<and> hm_get idx' = hm_get idx"
proof -
  note same = same_linked_content [OF linked]
  have files': "files_readable env db' v files" "hashes_true env db' v files"
    using files(2,3) by (simp_all add: files_readable_def hashes_true_def same)
  from get_hash_index_of [OF view(1) files(1-3), of username] get_hash_index_of [OF view(2) files(1) files', of username]
  show ?thesis by (auto simp: same fun_eq_iff)
qed

text \<open>C8: forking a branch lists a new branch in the metadata document that names the latest reference of the
  source; once the new document was ingested, the new branch has the same latest heads, and every
  reference of the source shows the same files on the new branch: the same hash for the same path.\<close>

theorem fork_shows_source:
  assumes laws: "meta_laws env mo" "copy_laws (de_crdt env) (de_doc env) changes"
    and reg: "registry env mo db = Some reg" and fresh: "pd_ids db = i # ids" "pd_metadata db = Some (h, c)" "i \<noteq> h"
      "hm_get (branch_sync_states (pd_states db)) i = None" "\<forall>j k. hm_get (binary_states (pd_states db)) j = Some (Some k) \<longrightarrow> k \<noteq> i \<and> k \<noteq> h"
    and source: "hm_get (branch_sync_states (pd_states db)) source = Some st" "shadow_doc st = Some s"
      "am_heads (de_crdt env) s \<noteq> []" and linked: "\<forall>j\<in>set linked. has_binary_doc j (pd_states db)"
  defines "latest \<equiv> history_ref_new source (am_heads (de_crdt env) s)"
  shows "\<exists>db'. fork_branch env mo name source db = (Inr i, db') \<and>
    registry env mo db' = Some (reg(i \<mapsto> \<lparr>br_name = name, br_id = i, br_forked_from = Some latest,
      br_merge_into = None, br_reverted_to = None, br_created_by = resolve_username db\<rparr>)) \<and>
    (\<exists>states. update_branch_sync_state (de_crdt env) i (am_heads (de_crdt env) s) linked (pd_states db') = (True, states) \<and>
       get_latest_ref_on_branch env i states = Inr (latest\<lparr>hr_branch := i\<rparr>) \<and>
       (\<forall>heads v files. view_at env \<lparr>hr_branch = source, hr_heads = heads\<rparr> (pd_states db) v \<and>
          files_ok (de_am env) v files \<and> files_readable env (pd_states db) v files \<and>
          hashes_true env (pd_states db) v files \<longrightarrow>
          (\<exists>idx db1 idx' db2.
             get_hash_index env username \<lparr>hr_branch = source, hr_heads = heads\<rparr> (pd_states db) = Inr (idx, db1) \<and>
             get_hash_index env username \<lparr>hr_branch = i, hr_heads = heads\<rparr> states = Inr (idx', db2) \<and>
             hm_get idx' = hm_get idx)))"
proof -
  have crdt: "crdt_laws (de_crdt env) changes" using laws(2) by (simp add: copy_laws_def)
  note shadow = read_shadow_ok [OF source(1,2)]
  have latest: "get_latest_ref_on_branch env source (pd_states db) = Inr latest"
    by (simp add: shadow get_latest_ref_on_branch_def latest_def)
  let ?db1 = "set_doc i s (db\<lparr>pd_ids := ids\<rparr>)"
  have clone: "clone_branch env source db = (Inr i, ?db1)"
    using fresh(1) by (simp add: shadow clone_branch_def lift_err_def repo_create_def)
  let ?b = "\<lparr>br_name = name, br_id = i, br_forked_from = Some latest,
      br_merge_into = None, br_reverted_to = None, br_created_by = resolve_username db\<rparr>"
  have "registry env mo ?db1 = Some reg"
    using reg fresh(2,3) by (simp add: registry_def set_doc_def)
  from add_branch_registry [OF laws(1) this, of ?b] obtain db' where
    add: "add_branch_to_meta env mo ?b ?db1 = (Inr (), db')" and reg': "registry env mo db' = Some (reg(i \<mapsto> ?b))"
    and meta: "only_meta ?db1 db'" by auto
  have user: "resolve_username ?db1 = resolve_username db" by (simp add: resolve_username_def set_doc_def split: option.split)
  have fork: "fork_branch env mo name source db = (Inr i, db')"
    using latest clone add by (simp add: fork_branch_def lift_err_def user)
  from meta fresh(2,3) obtain d where db': "db' = set_doc h d ?db1"
    by (auto simp: only_meta_def set_doc_def)
  have docs: "repo_docs (pd_states db') i = s" using fresh(3) by (simp add: db' set_doc_def)
  have states: "branch_sync_states (pd_states db') = branch_sync_states (pd_states db)"
    "binary_states (pd_states db') = binary_states (pd_states db)" by (simp_all add: db' set_doc_def)
  have "hm_get (branch_sync_states (pd_states db')) i = None" "\<forall>j\<in>set linked. has_binary_doc j (pd_states db')"
    using fresh(4) linked by (simp_all add: states has_binary_doc_def)
  from first_reconcile [OF laws(2) this source(3)] obtain new st' s' e where
    run: "update_branch_sync_state (de_crdt env) i (am_heads (de_crdt env) s) linked (pd_states db') = (True, new)"
    and st': "hm_get (branch_sync_states new) i = Some st'" "shadow_doc st' = Some s'"
    and same: "same_views (de_doc env) s' s" "changes s' = changes s"
    and repo: "repo_docs new = (repo_docs (pd_states db'))(i := e)"
      "binary_states new = binary_states (pd_states db)" unfolding docs states by blast
  note read = read_shadow_ok [OF st']
  have "get_latest_ref_on_branch env i new = Inr (latest\<lparr>hr_branch := i\<rparr>)"
    using heads_eq [OF crdt same(2)] by (simp add: get_latest_ref_on_branch_def read latest_def history_ref_new_def)
  moreover have linked: "get_linked_file env j new = get_linked_file env j (pd_states db)" for j
    by (rule linked_file_other [OF repo(2)]) (use fresh(5) in \<open>auto simp: repo(1) db' set_doc_def\<close>)
  moreover have "view_at env \<lparr>hr_branch = i, hr_heads = heads\<rparr> new v"
    if "view_at env \<lparr>hr_branch = source, hr_heads = heads\<rparr> (pd_states db) v" for heads v
    using same(1) that by (simp add: view_at_def read shadow same_views_def)
  ultimately show ?thesis
    using fork reg' run same_view_index [of env new "pd_states db", OF linked] by blast
qed

section \<open>Witness\<close>

text \<open>A store for branch records in the documents of the witnesses: a table in an entry of its own.\<close>

definition demo_put_ref :: "stored_ref option \<Rightarrow> string list" where
  "demo_put_ref r = (case r of None \<Rightarrow> [] | Some r \<Rightarrow> sr_branch r # sr_heads r)"

fun demo_get_ref :: "string list \<Rightarrow> stored_ref option" where
  "demo_get_ref [] = None"
| "demo_get_ref (b # hs) = Some \<lparr>sr_branch = b, sr_heads = hs\<rparr>"

definition demo_put_branch :: "string \<times> stored_branch \<Rightarrow> string list list" where
  "demo_put_branch = (\<lambda>(k, b). [[k, sb_name b, sb_id b], demo_put_ref (sb_forked_from b), demo_put_ref (sb_merge_into b),
     demo_put_ref (sb_reverted_to b), case sb_created_by b of None \<Rightarrow> [] | Some u \<Rightarrow> [u]])"

fun demo_get_branch :: "string list list \<Rightarrow> string \<times> stored_branch" where
  "demo_get_branch [[k, n, i], f, m, r, c] =
     (k, \<lparr>sb_name = n, sb_id = i, sb_forked_from = demo_get_ref f, sb_merge_into = demo_get_ref m,
          sb_reverted_to = demo_get_ref r, sb_created_by = (case c of [] \<Rightarrow> None | u # _ \<Rightarrow> Some u)\<rparr>)"

definition demo_meta_ops :: "demo_view meta_ops" where
  "demo_meta_ops = \<lparr>
     mo_read = (\<lambda>v. case demo_field v ''meta'' ''table'' of
        Some (DTable ([[m]] # bs)) \<Rightarrow> Inr \<lparr>sm_main_doc_id = m, sm_branches = map demo_get_branch bs\<rparr> | _ \<Rightarrow> Inl ()),
     mo_write = (\<lambda>v s. (True, v(''meta'' := Some ((\<lambda>_. None)(''table'' :=
        Some (DTable ([[sm_main_doc_id s]] # map demo_put_branch (sm_branches s)))))))),
     mo_empty_project = id\<rparr>"

definition demo_nat_io :: "(nat, nat) id_io" where
  "demo_nat_io = \<lparr>show_doc = show_hash demo_db_io, parse_doc = parse_hash demo_db_io,
     show_hash = show_hash demo_db_io, parse_hash = parse_hash demo_db_io\<rparr>"

definition demo_meta_env :: "(demo_view list, nat, demo_view, demo_obj, nat, string) db_env" where
  "demo_meta_env = \<lparr>de_io = demo_nat_io, de_hash = id, de_from_slice = Some, de_hash_bytes = id, de_am = demo_doc_ops,
     de_crdt = demo_doc_crdt, de_doc = demo_ad, de_project_dir = ''/p/'', de_gitignore = (\<lambda>_ _. False)\<rparr>"

lemma demo_get_put_ref [simp]: "demo_get_ref (demo_put_ref r) = r"
  by (cases r) (simp_all add: demo_put_ref_def)

lemma demo_get_put_branch [simp]: "demo_get_branch (demo_put_branch kb) = kb"
  by (cases kb; cases "sb_created_by (snd kb)") (simp_all add: demo_put_branch_def)

lemma demo_nat_io_laws: "id_laws demo_nat_io"
  by (auto simp: id_laws_def demo_nat_io_def demo_db_io_def simp del: replicate_Suc)

lemma demo_meta_laws: "meta_laws demo_meta_env demo_meta_ops"
  using demo_nat_io_laws
  by (simp add: meta_laws_def demo_meta_env_def demo_meta_ops_def demo_field_def o_def)

lemma demo_same_views:
  assumes "same_views (demo_ad :: (_, _, _, 'm) am_doc) d e" and "length d = length e"
  shows "d = e"
proof -
  have "rev d ! n = rev e ! n" for n
    using assms(1) unfolding same_views_def demo_ad_def by (auto dest: fun_cong [where x = "[Suc n]"])
  then have "rev d = rev e" using assms(2) by (simp add: list_eq_iff_nth_eq)
  then show ?thesis by simp
qed

lemma demo_copy_laws: "copy_laws demo_doc_crdt (demo_ad :: (_, _, _, 'm) am_doc) (\<lambda>d. {..<length d})"
proof -
  have crdt: "crdt_laws demo_doc_crdt (\<lambda>d. {..<length d})"
    by (auto simp: crdt_laws_def demo_doc_crdt_def split: if_splits)
  have merges: "fst (am_merge demo_doc_crdt d e) \<and> fst (am_merge demo_doc_crdt (v # d) e) \<and>
      fst (am_merge demo_doc_crdt e (snd (am_merge demo_doc_crdt (v # d) e)))"
    if "same_views (demo_ad :: (_, _, _, 'm) am_doc) d e" "length d = length e" for d e v
    using demo_same_views [OF that] by (auto simp: demo_doc_crdt_def intro: exI [of _ "[v]"])
  have "same_views demo_ad d' d" if "am_merge demo_doc_crdt d e = (True, d')" "length e \<le> length d" for d e d'
    using that by (auto simp: demo_doc_crdt_def same_views_def split: if_splits)
  moreover have "same_views demo_ad d' e" if "am_merge demo_doc_crdt d e = (True, d')" "length d \<le> length e" for d e d'
    using that by (auto simp: demo_doc_crdt_def same_views_def split: if_splits)
  ultimately show ?thesis
    using crdt merges
    by (simp add: copy_laws_def demo_doc_crdt_def [THEN arg_cong, of am_fork] demo_ad_def [THEN arg_cong, of ad_new])
      (auto simp: demo_ad_def demo_doc_crdt_def same_views_def)
qed

lemma demo_meta_env_simps [simp]:
  "de_am demo_meta_env = demo_doc_ops" "de_doc demo_meta_env = demo_ad" "de_crdt demo_meta_env = demo_doc_crdt"
  "de_hash demo_meta_env = id" "de_from_slice demo_meta_env = Some" "de_hash_bytes demo_meta_env = id"
  "de_io demo_meta_env = demo_nat_io"
  by (simp_all add: demo_meta_env_def)

definition demo_project :: "(nat, demo_view list, nat) project_db" where
  "demo_project =
     \<lparr>pd_default_username = None, pd_authenticated_username = Some ''u'',
      pd_states = \<lparr>repo_docs = (\<lambda>i. if i = 0
          then [snd (meta_reconcile demo_nat_io demo_meta_ops (\<lambda>_. None) \<lparr>bm_main_doc_id = 1, bm_branches = []\<rparr>)]
          else [demo_new, demo_old]),
        binary_states = [],
        branch_sync_states = [(1, (branch_sync_state_new 1)\<lparr>shadow_doc := Some [demo_new, demo_old]\<rparr>)]\<rparr>,
      pd_metadata = Some (0, \<lparr>bm_main_doc_id = 1, bm_branches = []\<rparr>),
      pd_checked_out = None, pd_ids = [2, 3, 4]\<rparr>"

lemma demo_registry: "registry demo_meta_env demo_meta_ops demo_project = Some (\<lambda>_. None)"
  using demo_nat_io_laws
  by (simp add: registry_def demo_project_def meta_reconcile_def demo_meta_ops_def meta_hydrate_def demo_field_def
      doc_id_hydrate_def doc_id_reconcile_def branch_map_hydrate_def branch_map_reconcile_def hm_collect_def demo_ad_def)

lemma demo_old_view:
  assumes "hm_get (branch_sync_states db) b = Some st" and "shadow_doc st = Some [demo_new, demo_old]"
  shows "view_at demo_meta_env \<lparr>hr_branch = b, hr_heads = [1]\<rparr> db demo_old"
  using assms by (simp add: view_at_def read_shadow_ok demo_ad_def)

lemma demo_old_files:
  "files_ok demo_doc_ops demo_old DFiles" "files_readable demo_meta_env db demo_old DFiles"
  "hashes_true demo_meta_env db demo_old DFiles"
  "hash_of demo_meta_env db demo_old DFiles ''res://a'' = Some ''x''"
proof -
  show "files_ok demo_doc_ops demo_old DFiles"
    by (auto simp: files_ok_def demo_maps_only demo_old_def demo_file_def split: option.splits)
  show "files_readable demo_meta_env db demo_old DFiles"
    by (simp add: files_readable_def demo_old_entry slow_hash_def content_at_def demo_content to_hash_def as_bytes_def)
  show "hashes_true demo_meta_env db demo_old DFiles"
    by (auto simp: hashes_true_def demo_old_entry demo_stored)
  show "hash_of demo_meta_env db demo_old DFiles ''res://a'' = Some ''x''"
    by (simp add: hash_of_def content_of_def content_at_def demo_old_entry [THEN iffD2] demo_content
        to_hash_def as_bytes_def)
qed

lemma demo_meta_unignored: "\<not> ignored_path demo_meta_env ''res://a''"
  using demo_unignored by (simp add: ignored_path_def demo_meta_env_def demo_db_env_def)

theorem fork_shows_source_witness:
  "\<exists>db' states idx db2. fork_branch demo_meta_env demo_meta_ops ''b'' 1 demo_project = (Inr 2, db') \<and>
     update_branch_sync_state demo_doc_crdt 2 [2] [] (pd_states db') = (True, states) \<and>
     get_hash_index demo_meta_env None \<lparr>hr_branch = 2, hr_heads = [1]\<rparr> states = Inr (idx, db2) \<and>
     hm_get idx ''res://a'' = Some ''x''"
proof -
  have st: "hm_get (branch_sync_states (pd_states demo_project)) 1 =
      Some ((branch_sync_state_new 1)\<lparr>shadow_doc := Some [demo_new, demo_old]\<rparr>)" by (simp add: demo_project_def)
  have heads: "am_heads (demo_doc_crdt :: (demo_view list, nat) crdt) [demo_new, demo_old] = [2]"
    by (simp add: demo_doc_crdt_def)
  have fresh: "pd_ids demo_project = 2 # [3, 4]" "pd_metadata demo_project = Some (0, \<lparr>bm_main_doc_id = 1, bm_branches = []\<rparr>)"
    "hm_get (branch_sync_states (pd_states demo_project)) 2 = None" "binary_states (pd_states demo_project) = []"
    by (simp_all add: demo_project_def)
  have view: "view_at demo_meta_env \<lparr>hr_branch = 1, hr_heads = [1]\<rparr> (pd_states demo_project) demo_old"
    by (rule demo_old_view [OF st]) simp
  have files: "files_ok (de_am demo_meta_env) demo_old DFiles" using demo_old_files(1) by simp
  from get_hash_index_of [OF view files demo_old_files(2,3), of None] obtain idx db1 where
    idx: "get_hash_index demo_meta_env None \<lparr>hr_branch = 1, hr_heads = [1]\<rparr> (pd_states demo_project) = Inr (idx, db1)"
    and get: "\<forall>p. hm_get idx p = (if \<not> ignored_path demo_meta_env p
      then hash_of demo_meta_env (pd_states demo_project) demo_old DFiles p else None)" by blast
  have x: "hm_get idx ''res://a'' = Some ''x''" using get demo_meta_unignored demo_old_files(4) by simp
  have laws: "copy_laws (de_crdt demo_meta_env) (de_doc demo_meta_env) (\<lambda>d. {..<length d})"
    using demo_copy_laws by simp
  have "\<forall>j k. hm_get (binary_states (pd_states demo_project)) j = Some (Some k) \<longrightarrow> k \<noteq> 2 \<and> k \<noteq> 0"
    using fresh(4) by simp
  note forked = fork_shows_source [OF demo_meta_laws laws demo_registry fresh(1,2) _ fresh(3) this st,
      of "[demo_new, demo_old]" "[]" "''b''" None]
  then obtain db' states where
    "fork_branch demo_meta_env demo_meta_ops ''b'' 1 demo_project = (Inr 2, db')"
    "update_branch_sync_state demo_doc_crdt 2 [2] [] (pd_states db') = (True, states)"
    "\<And>heads v files. view_at demo_meta_env \<lparr>hr_branch = 1, hr_heads = heads\<rparr> (pd_states demo_project) v \<and>
       files_ok (de_am demo_meta_env) v files \<and> files_readable demo_meta_env (pd_states demo_project) v files \<and>
       hashes_true demo_meta_env (pd_states demo_project) v files \<Longrightarrow>
       \<exists>idx db1 idx' db2.
         get_hash_index demo_meta_env None \<lparr>hr_branch = 1, hr_heads = heads\<rparr> (pd_states demo_project) = Inr (idx, db1) \<and>
         get_hash_index demo_meta_env None \<lparr>hr_branch = 2, hr_heads = heads\<rparr> states = Inr (idx', db2) \<and>
         hm_get idx' = hm_get idx"
    unfolding demo_meta_env_simps(3) heads by force
  moreover from this(3) [of "[1]" demo_old DFiles] obtain idx' db2 where
    "get_hash_index demo_meta_env None \<lparr>hr_branch = 2, hr_heads = [1]\<rparr> states = Inr (idx', db2)"
    "hm_get idx' = hm_get idx" using view files demo_old_files(2,3) idx by auto
  ultimately show ?thesis using x by auto
qed

end
