(* ===== verification/Merge_Revert.thy ===== *)
theory Merge_Revert imports Branch_Meta Doc_Commit begin

text \<open>
  \<open>project/branch_db/merge_revert.rs\<close>: preview branches for a merge and for a revert, and what confirming
  them does. A closure that holds the shadow document of a branch and asks for the one of the same
  branch waits for itself.
\<close>

section \<open>Merging\<close>

text \<open>The changes of a branch go into a new document; whether this fails is not looked at.\<close>

definition merge_into_preview ::
  "('doc, 'h, 'v, 'o, 'd, 'x) db_env \<Rightarrow> 'd \<Rightarrow> 'd \<Rightarrow> ('d, 'doc, 'h, unit) db_run" where
  "merge_into_preview env branch handle =
     sbind (sgets (\<lambda>db. lift_err (read_shadow branch id (pd_states db)))) (\<lambda>d.
     smodify (\<lambda>db. set_doc handle (snd (am_merge (de_crdt env) (repo_docs (pd_states db) handle) d)) db))"

definition create_merge_preview_branch ::
  "('doc, 'h::linorder, 'v, 'o, 'd, 'x) db_env \<Rightarrow> 'v meta_ops \<Rightarrow> 'd \<Rightarrow> 'd \<Rightarrow> ('d, 'doc, 'h, 'd) db_run" where
  "create_merge_preview_branch env mo source target =
     sbind (sgets (get_branch_name source)) (\<lambda>source_name.
     sbind (sgets (get_branch_name target)) (\<lambda>target_name.
     sbind (sgets (\<lambda>db. lift_err (get_latest_ref_on_branch env source (pd_states db)))) (\<lambda>source_ref.
     sbind (sgets (\<lambda>db. lift_err (get_latest_ref_on_branch env target (pd_states db)))) (\<lambda>target_ref.
     sbind (sunwrap (repo_create (ad_new (de_doc env)))) (\<lambda>handle.
     sbind (merge_into_preview env source handle) (\<lambda>_.
     sbind (merge_into_preview env target handle) (\<lambda>_.
     sbind (sgets (\<lambda>db. Inr (resolve_username db))) (\<lambda>username.
     sbind (add_branch_to_meta env mo
         \<lparr>br_name = target_name @ '' <- '' @ source_name, br_id = handle, br_forked_from = Some source_ref,
          br_merge_into = Some target_ref, br_reverted_to = None, br_created_by = username\<rparr>) (\<lambda>_.
     sret handle)))))))))"

text \<open>Merging one shadow document into another; the result is whether it succeeded.\<close>

definition merge_shadows ::
  "('doc, 'h, 'v, 'o, 'd, 'x) db_env \<Rightarrow> 'd \<Rightarrow> 'd \<Rightarrow> ('d, 'doc, 'h, bool) db_run" where
  "merge_shadows env source target =
     sbind (sgets (\<lambda>db. lift_err (read_shadow source id (pd_states db)))) (\<lambda>source_doc.
     if source = target then sfail Diverges
     else (\<lambda>db. case with_shadow_document target (\<lambda>target_doc. am_merge (de_crdt env) target_doc source_doc) (pd_states db) of
            Inl e \<Rightarrow> (Inl (Err e), db)
          | Inr (ok, states) \<Rightarrow> (Inr ok, db\<lparr>pd_states := states\<rparr>)))"

text \<open>\<open>i64\<close> addition in a release build.\<close>

definition wrap_i64 :: "int \<Rightarrow> int" where
  "wrap_i64 i = (i + 2 ^ 63) mod 2 ^ 64 - 2 ^ 63"

definition merge_metadata_for ::
  "('d, 'h) branch \<Rightarrow> 'd \<Rightarrow> ('d, 'doc, 'h) project_db \<Rightarrow> (('d, 'h) db_error, ('d, 'h) merge_metadata option) outcome" where
  "merge_metadata_for source_state forked_from db =
     (if br_merge_into source_state \<noteq> None
      then (case get_branch_state forked_from db of
              Inr original_state \<Rightarrow>
                rbind (unwrap (br_forked_from original_state)) (\<lambda>r.
                Inr (Some \<lparr>mm_merged_branch_id = forked_from, mm_forked_at_heads = hr_heads r\<rparr>))
            | Inl _ \<Rightarrow> Inr None)
      else Inr None)"

text \<open>A commit that changes a counter, to carry the metadata of the merge.\<close>

definition dummy_commit ::
  "('doc, 'h, 'v, 'o, 'd, 'x) db_env \<Rightarrow> string option \<Rightarrow> 'd \<Rightarrow> ('d, 'h) merge_metadata \<Rightarrow> 'doc \<Rightarrow> 'doc" where
  "dummy_commit env username target merge_metadata d =
     (let am = de_am env; v = ad_current (de_doc env) d;
          changed = (case get_int am v (am_root am) ''_changed'' of Some i \<Rightarrow> i | None \<Rightarrow> 0)
      in ad_commit (de_doc env) d (am_put am v (am_root am) ''_changed'' (SInt (wrap_i64 (changed + 1))))
           \<lparr>cm_username = username, cm_branch_id = Some target, cm_merge_metadata = Some merge_metadata,
            cm_reverted_to = None, cm_changed_files = None, cm_is_setup = Some False\<rparr>)"

definition reconcile_target ::
  "('doc, 'h::linorder, 'v, 'o, 'd, 'x) db_env \<Rightarrow> 'd \<Rightarrow> ('d, 'doc, 'h, unit) db_run" where
  "reconcile_target env target db =
     (case hm_get (branch_sync_states (pd_states db)) target of
        None \<Rightarrow> (Inl (Err (NoBranch target)), db)
      | Some _ \<Rightarrow>
          (case try_reconcile_branch (de_crdt env) target (pd_states db) of
             (ok, states) \<Rightarrow> (if ok then Inr () else Inl (Err AutomergeError), db\<lparr>pd_states := states\<rparr>)))"

definition merge_branch ::
  "('doc, 'h::linorder, 'v, 'o, 'd, 'x) db_env \<Rightarrow> 'd \<Rightarrow> 'd \<Rightarrow> ('d, 'doc, 'h, unit) db_run" where
  "merge_branch env source target =
     sbind (sgets (get_branch_state source)) (\<lambda>source_state.
     if source = target then sret ()
     else
       sbind (merge_shadows env source target) (\<lambda>_.
       sbind (sgets (\<lambda>db. rbind (unwrap (br_forked_from source_state)) (\<lambda>r. Inr (hr_branch r)))) (\<lambda>forked_from.
       sbind (sgets (merge_metadata_for source_state forked_from)) (\<lambda>merge_metadata.
       sbind (sgets (\<lambda>db. Inr (resolve_username db))) (\<lambda>username.
       sbind (case merge_metadata of
                None \<Rightarrow> sret ()
              | Some merge_metadata \<Rightarrow> (\<lambda>db.
                  case with_shadow_document target (\<lambda>d. ((), dummy_commit env username target merge_metadata d)) (pd_states db) of
                    Inl e \<Rightarrow> (Inl (Err e), db)
                  | Inr (_, states) \<Rightarrow> (Inr (), db\<lparr>pd_states := states\<rparr>))) (\<lambda>_.
       reconcile_target env target))))))"

section \<open>Reverting\<close>

definition reverted_contents ::
  "(string, change_type) hmap \<Rightarrow> (string, file_content) hmap \<Rightarrow> (string \<times> file_content option) list" where
  "reverted_contents changed_files changed_contents =
     somes (map (\<lambda>(path, change). case change of
         Deleted \<Rightarrow> Some (path, None)
       | _ \<Rightarrow> map_option (\<lambda>content. (path, Some content)) (hm_get changed_contents path)) changed_files)"

text \<open>A run on the states of the branches only, which keeps them when it fails.\<close>

definition on_states ::
  "(('d, 'doc, 'h) branch_states \<Rightarrow> (('d, 'h) db_error, 'a \<times> ('d, 'doc, 'h) branch_states) outcome) \<Rightarrow>
   ('d, 'doc, 'h, 'a) db_run" where
  "on_states f db =
     (case f (pd_states db) of
        Inl e \<Rightarrow> (Inl e, db)
      | Inr (x, states) \<Rightarrow> (Inr x, db\<lparr>pd_states := states\<rparr>))"

definition commit_changes ::
  "('doc, 'h::linorder, 'v, 'o, 'd, 'x) db_env \<Rightarrow> (string \<times> file_content option) list \<Rightarrow> ('d, 'h) history_ref \<Rightarrow>
   ('d, 'h) history_ref option \<Rightarrow> bool \<Rightarrow>
   ('d, 'doc, 'h, (('d, 'h) history_ref \<times> (string, 'x option) hmap) option) db_run" where
  "commit_changes env files at_ref revert is_checking_in db =
     (case commit_fs_changes env (resolve_username db) (pd_ids db) files at_ref revert is_checking_in (pd_states db) of
        Inl Diverges \<Rightarrow> (Inl Diverges, db)
      | Inl _ \<Rightarrow> (Inl Panic, db)
      | Inr (result, ids, states) \<Rightarrow> (Inr result, db\<lparr>pd_ids := ids, pd_states := states\<rparr>))"

text \<open>The contents of the changed files are committed to the preview branch.\<close>

definition commit_reverted ::
  "('doc, 'h::linorder, 'v, 'o, 'd, 'x) db_env \<Rightarrow> 'd \<Rightarrow> ('d, 'h) history_ref \<Rightarrow> ('d, 'h) history_ref \<Rightarrow>
   (string, change_type) hmap \<Rightarrow> ('d, 'doc, 'h, 'd) db_run" where
  "commit_reverted env handle at_ref current_ref changed_files =
     sbind (sgets (\<lambda>db. get_files_at_ref env at_ref (hm_keys changed_files) (pd_states db))) (\<lambda>changed_contents.
     let files = reverted_contents changed_files changed_contents
     in sbind (\<lambda>db. case update_branch_sync_state (de_crdt env) handle (hr_heads current_ref) [] (pd_states db) of
            (ok, states) \<Rightarrow> (if ok then Inr () else Inl (Err AutomergeError), db\<lparr>pd_states := states\<rparr>)) (\<lambda>_.
        sbind (commit_changes env files (history_ref_new handle (hr_heads current_ref)) (Some at_ref) False) (\<lambda>_.
        sret handle)))"

definition create_revert_preview_branch ::
  "('doc, 'h::linorder, 'v, 'o, 'd, 'x) db_env \<Rightarrow> 'v meta_ops \<Rightarrow> 'd \<Rightarrow> ('d, 'h) history_ref \<Rightarrow>
   ('d, 'doc, 'h, 'd) db_run" where
  "create_revert_preview_branch env mo branch at_ref =
     sbind (sgets (\<lambda>db. lift_err (get_latest_ref_on_branch env branch (pd_states db)))) (\<lambda>current_ref.
     sbind (repo_create (ad_new (de_doc env))) (\<lambda>handle.
     sbind (merge_into_preview env branch handle) (\<lambda>_.
     sbind (sgets (\<lambda>db. Inr (resolve_username db))) (\<lambda>username.
     sbind (add_branch_to_meta env mo
         \<lparr>br_name = short_heads (de_io env) at_ref @ '' <- '' @ short_heads (de_io env) current_ref, br_id = handle,
          br_forked_from = Some current_ref, br_merge_into = None, br_reverted_to = Some at_ref,
          br_created_by = username\<rparr>) (\<lambda>_.
     sbind (on_states (get_changed_files_between_refs env username (Some current_ref) at_ref)) (\<lambda>changed_files.
     commit_reverted env handle at_ref current_ref changed_files))))))"

definition confirm_revert_preview_branch ::
  "('doc, 'h::linorder, 'v, 'o, 'd, 'x) db_env \<Rightarrow> 'd \<Rightarrow> ('d, 'doc, 'h, unit) db_run" where
  "confirm_revert_preview_branch env preview_branch =
     sbind (sgets (get_branch_state preview_branch)) (\<lambda>preview_state.
     if br_reverted_to preview_state = None
     then sfail (Err (BadBranchState preview_branch ''not a revert preview branch''))
     else
       (case br_forked_from preview_state of
          None \<Rightarrow> sfail (Err (BadBranchState preview_branch ''doesn't have forked_from''))
        | Some target \<Rightarrow>
            sbind (sunwrap (merge_shadows env preview_branch (hr_branch target))) (\<lambda>merged.
            if \<not> merged then sfail Panic else reconcile_target env (hr_branch target))))"

section \<open>What a merge does\<close>

lemma merge_shadows_run:
  assumes "hm_get (branch_sync_states (pd_states db)) source = Some ss" and "shadow_doc ss = Some s"
    and "hm_get (branch_sync_states (pd_states db)) target = Some ts" and "shadow_doc ts = Some t"
    and "source \<noteq> target" and "am_merge (de_crdt env) t s = (ok, t')"
  shows "merge_shadows env source target db = (Inr ok, db\<lparr>pd_states := (pd_states db)\<lparr>branch_sync_states :=
    hm_insert target (ts\<lparr>shadow_doc := Some t'\<rparr>) (branch_sync_states (pd_states db))\<rparr>\<rparr>)"
  using assms by (simp add: merge_shadows_def read_shadow_ok lift_err_def with_shadow_ok)

lemma try_reconcile_branch_run:
  assumes "hm_get (branch_sync_states db) b = Some st" and "try_reconcile am (repo_docs db (canonical_doc st)) st = ((ok, n), d, st')"
  shows "try_reconcile_branch am b db = (ok, db\<lparr>repo_docs := (repo_docs db)(canonical_doc st := d),
    branch_sync_states := hm_insert b st' (branch_sync_states db)\<rparr>)"
  using assms by (simp add: try_reconcile_branch_def)

text \<open>The heads of the last reconciliation are those of changes that the canonical document has. Reconciling keeps
  this, so it holds of every state that started with none.\<close>

definition recorded :: "('doc, 'h) crdt \<Rightarrow> ('doc \<Rightarrow> 'c set) \<Rightarrow> 'doc \<Rightarrow> ('d, 'doc, 'h) branch_sync_state \<Rightarrow> bool" where
  "recorded am changes d st \<longleftrightarrow> (\<forall>e. set (am_heads am e) = set (last_reconciled st) \<longrightarrow> changes e \<subseteq> changes d)"

lemma try_reconcile_recorded:
  assumes laws: "crdt_laws am changes" and run: "try_reconcile am d st = (r, d', st')" and "recorded am changes d st"
  shows "recorded am changes d' st'"
proof -
  have "changes d \<subseteq> changes d'" using try_reconcile_grows [OF laws run] by simp
  moreover have "last_reconciled st' = last_reconciled st \<or> last_reconciled st' = am_heads am d'"
    using run by (auto simp: try_reconcile_def Let_def split: if_splits prod.splits)
  ultimately show ?thesis
    using assms(3) crdt_heads [OF laws, of _ d'] unfolding recorded_def by (metis subset_trans subset_refl)
qed

text \<open>A reconciliation that is not put off leaves the changes of the shadow document in the canonical one.\<close>

lemma try_reconcile_reaches:
  assumes laws: "crdt_laws am changes" and run: "try_reconcile am d st = ((True, n), d', st')"
    and "resolved_all_canonical_binary_docs (canonical_binary_docs st)" and rec: "recorded am changes d st"
  shows "shadow_changes changes st' \<subseteq> changes d'"
proof (cases n)
  case True
  with try_reconcile_merges [OF laws, of d st d' st'] run show ?thesis by (auto simp: shadow_changes_def)
next
  case False
  with run assms(3) obtain s where s: "shadow_doc st = Some s" "are_heads_equivalent (last_reconciled st) (am_heads am s)"
    "d' = d" "st' = st"
    by (cases "shadow_doc st") (simp_all add: try_reconcile_def Let_def split: if_splits prod.splits)
  then have "set (am_heads am s) = set (last_reconciled st)" by (metis are_heads_equivalent_def set_sort)
  with rec s show ?thesis by (simp add: recorded_def shadow_changes_def)
qed

text \<open>Reconciling a branch keeps the changes of both its documents and all other branches and documents. With the
  linked documents at hand, success means that the canonical document has all changes of the branch.\<close>

lemma reconcile_target_grows:
  assumes crdt: "crdt_laws (de_crdt env) changes"
    and st: "hm_get (branch_sync_states (pd_states db)) b = Some st" "shadow_doc st = Some s"
  shows "\<exists>r db' st' s'. reconcile_target env b db = (r, db') \<and> (r = Inr () \<or> r = Inl (Err AutomergeError)) \<and>
    hm_get (branch_sync_states (pd_states db')) b = Some st' \<and> shadow_doc st' = Some s' \<and> changes s \<subseteq> changes s' \<and>
    (\<forall>c. c \<noteq> b \<longrightarrow> hm_get (branch_sync_states (pd_states db')) c = hm_get (branch_sync_states (pd_states db)) c) \<and>
    (\<forall>i. i \<noteq> canonical_doc st \<longrightarrow> repo_docs (pd_states db') i = repo_docs (pd_states db) i) \<and>
    changes (repo_docs (pd_states db) (canonical_doc st)) \<subseteq> changes (repo_docs (pd_states db') (canonical_doc st)) \<and>
    pd_metadata db' = pd_metadata db \<and>
    (r = Inr () \<and> resolved_all_canonical_binary_docs (canonical_binary_docs st) \<and>
       recorded (de_crdt env) changes (repo_docs (pd_states db) (canonical_doc st)) st \<longrightarrow>
     changes s' \<subseteq> changes (repo_docs (pd_states db') (canonical_doc st)))"
proof -
  obtain ok n d st' where t: "try_reconcile (de_crdt env) (repo_docs (pd_states db) (canonical_doc st)) st = ((ok, n), d, st')"
    by (metis prod.collapse)
  obtain s' where s': "shadow_doc st' = Some s'"
    using t st(2) by (auto simp: try_reconcile_def Let_def split: if_splits prod.splits)
  have run: "reconcile_target env b db = (if ok then Inr () else Inl (Err AutomergeError),
      db\<lparr>pd_states := (pd_states db)\<lparr>repo_docs := (repo_docs (pd_states db))(canonical_doc st := d),
        branch_sync_states := hm_insert b st' (branch_sync_states (pd_states db))\<rparr>\<rparr>)"
    using st try_reconcile_branch_run [OF st(1) t] by (simp add: reconcile_target_def)
  have grows: "changes (repo_docs (pd_states db) (canonical_doc st)) \<subseteq> changes d" "changes s \<subseteq> changes s'"
    using try_reconcile_grows [OF crdt t] st(2) s' by (simp_all add: shadow_changes_def)
  have reaches: "changes s' \<subseteq> changes d"
    if "ok" "resolved_all_canonical_binary_docs (canonical_binary_docs st)"
      "recorded (de_crdt env) changes (repo_docs (pd_states db) (canonical_doc st)) st"
    using try_reconcile_reaches [OF crdt _ that(2,3), of n d st'] t that(1) s' by (simp add: shadow_changes_def)
  show ?thesis unfolding run using s' grows reaches by (cases ok) (simp_all add: hm_get_insert)
qed

text \<open>C9: merging a branch that was forked from another one into a branch \<open>target\<close>, both with shadow documents. The
  shadow document of the target keeps its changes and, when Automerge merges the two, has those of the source
  (the code does not look whether it did); a merge preview of a branch also leaves the commit with the
  metadata of the merge there. If no binary document of the target is awaited, success means that the
  canonical document has all of it as well. No other branch, no other document and no record of a branch
  changes. It ends with success or, when the reconciliation fails, with the error of that.\<close>

theorem merge_branch_reaches_target:
  assumes laws: "copy_laws (de_crdt env) (de_doc env) changes"
    and state: "get_branch_state source db = Inr b" "br_forked_from b = Some f"
      "br_merge_into b \<noteq> None \<longrightarrow> (\<forall>orig. get_branch_state (hr_branch f) db = Inr orig \<longrightarrow> br_forked_from orig \<noteq> None)"
    and docs: "hm_get (branch_sync_states (pd_states db)) source = Some ss" "shadow_doc ss = Some s"
      "hm_get (branch_sync_states (pd_states db)) target = Some ts" "shadow_doc ts = Some t"
    and "source \<noteq> target" and merge: "am_merge (de_crdt env) t s = (ok, t')"
    and recorded: "recorded (de_crdt env) changes (repo_docs (pd_states db) (canonical_doc ts)) ts"
  shows "\<exists>r db' ts' t'' mm. merge_branch env source target db = (r, db') \<and> (r = Inr () \<or> r = Inl (Err AutomergeError)) \<and>
    hm_get (branch_sync_states (pd_states db')) target = Some ts' \<and> shadow_doc ts' = Some t'' \<and>
    changes t \<subseteq> changes t'' \<and> (ok \<longrightarrow> changes s \<subseteq> changes t'') \<and>
    merge_metadata_for b (hr_branch f) db = Inr mm \<and>
    (\<forall>m. mm = Some m \<longrightarrow> changes (dummy_commit env (resolve_username db) target m t') \<subseteq> changes t'') \<and>
    (r = Inr () \<and> resolved_all_canonical_binary_docs (canonical_binary_docs ts) \<longrightarrow>
       changes t'' \<subseteq> changes (repo_docs (pd_states db') (canonical_doc ts))) \<and>
    (\<forall>c. c \<noteq> target \<longrightarrow> hm_get (branch_sync_states (pd_states db')) c = hm_get (branch_sync_states (pd_states db)) c) \<and>
    (\<forall>i. i \<noteq> canonical_doc ts \<longrightarrow> repo_docs (pd_states db') i = repo_docs (pd_states db) i) \<and>
    pd_metadata db' = pd_metadata db"
proof -
  have crdt: "crdt_laws (de_crdt env) changes" using laws by (simp add: copy_laws_def)
  let ?with = "\<lambda>d. db\<lparr>pd_states := (pd_states db)\<lparr>branch_sync_states :=
    hm_insert target (ts\<lparr>shadow_doc := Some d\<rparr>) (branch_sync_states (pd_states db))\<rparr>\<rparr>"
  note merged = merge_shadows_run [OF docs assms(9) merge]
  have t': "changes t \<subseteq> changes t'" "ok \<longrightarrow> changes t' = changes t \<union> changes s"
    using crdt_merge_grows [OF crdt merge] crdt_merge [OF crdt] merge by auto
  have same: "get_branch_state i (?with d) = get_branch_state i db" "resolve_username (?with d) = resolve_username db" for i d
    by (simp_all add: get_branch_state_def get_metadata_state_def resolve_username_def split: option.split)
  obtain mm where mm: "merge_metadata_for b (hr_branch f) db = Inr mm"
    using state(3) by (cases "get_branch_state (hr_branch f) db"; cases "br_merge_into b")
      (auto simp: merge_metadata_for_def)
  have "merge_metadata_for b (hr_branch f) (?with t') = merge_metadata_for b (hr_branch f) db"
    by (simp only: merge_metadata_for_def same)
  with mm have mm': "merge_metadata_for b (hr_branch f) (?with t') = Inr mm" by simp
  define d where "d = (case mm of None \<Rightarrow> t' | Some m \<Rightarrow> dummy_commit env (resolve_username db) target m t')"
  have d: "changes t' \<subseteq> changes d"
    using laws by (simp add: d_def copy_laws_def dummy_commit_def Let_def split: option.split)
  have run: "merge_branch env source target db = reconcile_target env target (?with d)"
    using state(1,2) assms(9) merged mm'
    by (cases mm) (simp_all add: merge_branch_def with_shadow_ok hm_get_insert d_def same)
  have "hm_get (branch_sync_states (pd_states (?with d))) target = Some (ts\<lparr>shadow_doc := Some d\<rparr>)"
    "shadow_doc (ts\<lparr>shadow_doc := Some d\<rparr>) = Some d" by (simp_all add: hm_get_insert)
  from reconcile_target_grows [OF crdt this] obtain r db' st' s' where
    target: "reconcile_target env target (?with d) = (r, db')" "r = Inr () \<or> r = Inl (Err AutomergeError)"
      "hm_get (branch_sync_states (pd_states db')) target = Some st'" "shadow_doc st' = Some s'" "changes d \<subseteq> changes s'"
    and rest: "\<forall>c. c \<noteq> target \<longrightarrow>
        hm_get (branch_sync_states (pd_states db')) c = hm_get (branch_sync_states (pd_states (?with d))) c"
      "\<forall>i. i \<noteq> canonical_doc ts \<longrightarrow> repo_docs (pd_states db') i = repo_docs (pd_states db) i" "pd_metadata db' = pd_metadata db"
    and reaches: "r = Inr () \<and> resolved_all_canonical_binary_docs (canonical_binary_docs ts) \<longrightarrow>
      changes s' \<subseteq> changes (repo_docs (pd_states db') (canonical_doc ts))"
    using recorded by (auto simp: recorded_def)
  from rest(1) have "\<forall>c. c \<noteq> target \<longrightarrow>
      hm_get (branch_sync_states (pd_states db')) c = hm_get (branch_sync_states (pd_states db)) c"
    by (simp add: hm_get_insert)
  moreover have "changes t \<subseteq> changes s'" "ok \<longrightarrow> changes s \<subseteq> changes s'" using t' d target(5) by auto
  moreover have "\<forall>m. mm = Some m \<longrightarrow> changes (dummy_commit env (resolve_username db) target m t') \<subseteq> changes s'"
    using target(5) by (auto simp: d_def)
  ultimately show ?thesis unfolding run using target rest(2,3) reaches mm by blast
qed

text \<open>Merging a branch that was not forked from another one, such as the main branch, panics, and by then its
  changes are in the shadow document of the target.\<close>

theorem merge_unforked_panics:
  assumes "get_branch_state source db = Inr b" and "br_forked_from b = None"
    and "hm_get (branch_sync_states (pd_states db)) source = Some ss" and "shadow_doc ss = Some s"
    and "hm_get (branch_sync_states (pd_states db)) target = Some ts" and "shadow_doc ts = Some t"
    and "source \<noteq> target" and "am_merge (de_crdt env) t s = (ok, t')"
  shows "merge_branch env source target db = (Inl Panic, db\<lparr>pd_states := (pd_states db)\<lparr>branch_sync_states :=
    hm_insert target (ts\<lparr>shadow_doc := Some t'\<rparr>) (branch_sync_states (pd_states db))\<rparr>\<rparr>)"
  using assms(1,2,7) merge_shadows_run [OF assms(3-8)] by (simp add: merge_branch_def)

section \<open>What a revert preview shows\<close>

text \<open>The contents to be committed are those of the reference, and none for the files it does not have.\<close>

lemma reverted_contents_all:
  assumes "\<And>p c. (p, c) \<in> set changed \<Longrightarrow> if c = Deleted then f p = None else f p \<noteq> None \<and> hm_get cs p = f p"
  shows "reverted_contents changed cs = map (\<lambda>(p, _). (p, f p)) changed"
proof -
  have "somes (map g xs) = map h xs" if "\<And>x. x \<in> set xs \<Longrightarrow> g x = Some (h x)"
    for g :: "string \<times> change_type \<Rightarrow> (string \<times> file_content option) option" and h xs
    using that by (induction xs) (simp_all add: somes_def)
  moreover have "(case c of Deleted \<Rightarrow> Some (p, None) | _ \<Rightarrow> map_option (\<lambda>content. (p, Some content)) (hm_get cs p)) =
      Some (p, f p)" if "(p, c) \<in> set changed" for p c
    using assms [OF that] by (cases c) auto
  ultimately show ?thesis by (auto simp: reverted_contents_def)
qed

lemma hm_get_map_fst: "hm_get (map (\<lambda>(p, _). (p, f p)) m) p = (if hm_get m p = None then None else Some (f p))"
  by (induction m) auto

text \<open>Of the two merges after a commit neither fails, and neither brings more than the commit.\<close>

lemma reconcile_after_commit:
  assumes laws: "copy_laws am ad changes"
    and st: "hm_get (branch_sync_states db) i = Some st" "canonical_doc st = i" "shadow_doc st = Some (ad_commit ad s v m)"
    and same: "changes s = changes (repo_docs db i)" "same_views ad s (repo_docs db i)"
  shows "\<exists>db' st' s'. try_reconcile_branch am i db = (True, db') \<and>
    hm_get (branch_sync_states db') i = Some st' \<and> shadow_doc st' = Some s' \<and>
    changes s' = changes (ad_commit ad s v m) \<and> (\<forall>j. j \<noteq> i \<longrightarrow> repo_docs db' j = repo_docs db j) \<and>
    (\<forall>c. c \<noteq> i \<longrightarrow> hm_get (branch_sync_states db') c = hm_get (branch_sync_states db) c)"
proof -
  let ?c = "repo_docs db i" and ?s = "ad_commit ad s v m"
  have crdt: "crdt_laws am changes" using laws by (simp add: copy_laws_def)
  have more: "changes s \<subseteq> changes ?s" using laws by (simp add: copy_laws_def)
  have merges: "fst (am_merge am ?s ?c)" "fst (am_merge am ?c (snd (am_merge am ?s ?c)))"
    using laws same unfolding copy_laws_def by blast+
  then obtain s' d where m1: "am_merge am ?s ?c = (True, s')" and m2: "am_merge am ?c s' = (True, d)"
    by (metis prod.collapse snd_conv)
  have s': "changes s' = changes ?s" using crdt_merge [OF crdt m1] more same(1) by auto
  have "\<exists>ok st' d'. try_reconcile am ?c st = ((True, ok), d', st') \<and>
      (shadow_doc st' = Some s' \<or> shadow_doc st' = Some ?s)"
    using st(3) m1 m2 by (auto simp: try_reconcile_def)
  then show ?thesis
    using st(1,2) s' by (auto simp: try_reconcile_branch_def hm_get_insert)
qed

text \<open>Where hashes are stored and true, they are the hashes of the contents.\<close>

lemma stored_content:
  assumes "all_stored env v files" and "hashes_true env db v files"
  shows "stored_at env v files p = content_hash (de_hash env) (content_of env db v files p)"
    and "content_of env db v files p = None \<longleftrightarrow> stored_at env v files p = None"
    and "\<exists>h. hash_content (de_hash env) (content_of env db v files p) = Inr h"
proof -
  have "stored_at env v files p = content_hash (de_hash env) (content_of env db v files p) \<and>
    (content_of env db v files p = None \<longleftrightarrow> stored_at env v files p = None) \<and>
    (\<exists>h. hash_content (de_hash env) (content_of env db v files p) = Inr h)"
  proof (cases "entry_of (de_am env) files v p")
    case None
    then show ?thesis by (simp add: stored_at_def content_of_def content_hash_def hash_content_def)
  next
    case (Some e)
    with assms(1) obtain h where h: "stored_hash (de_from_slice env) (de_am env) v e = Inr h"
      unfolding all_stored_def by blast
    with assms(2) Some have "slow_hash env db v e p = Inr (Some h)" unfolding hashes_true_def by blast
    then obtain c where "content_at env db v e p = Inr (Some c)" "to_hash (de_hash env) c = Inr h"
      by (auto simp: slow_hash_def rbind_eq_Inr_iff split: option.splits)
    with Some h show ?thesis by (simp add: stored_at_def content_of_def content_hash_def hash_content_def)
  qed
  then show "stored_at env v files p = content_hash (de_hash env) (content_of env db v files p)"
    and "content_of env db v files p = None \<longleftrightarrow> stored_at env v files p = None"
    and "\<exists>h. hash_content (de_hash env) (content_of env db v files p) = Inr h" by blast+
qed

text \<open>The changes that a revert commits.\<close>

lemma reverted_changes:
  assumes valid: "hr_is_valid r" "hr_is_valid cr"
    and cr: "view_at env cr db w" "files_ok (de_am env) w files'" "all_stored env w files'"
    and r: "view_at env r db v" "files_ok (de_am env) v files" "all_stored env v files"
      "files_readable env db v files" "hashes_true env db v files"
  shows "\<exists>changed. get_changed_files_between_refs env username (Some cr) r db = Inr (changed, db) \<and> hm_wf changed \<and>
    (\<forall>p. hm_get changed p = (if ignored_path env p then None
       else change_of (stored_at env w files' p) (stored_at env v files p))) \<and>
    (changed \<noteq> [] \<longrightarrow> (\<exists>cs. get_files_at_ref env r (hm_keys changed) db = Inr cs \<and>
       reverted_contents changed cs = map (\<lambda>(p, _). (p, content_of env db v files p)) changed))"
proof -
  from get_hash_index_stored [OF cr, of username] obtain old where
    old: "get_hash_index env username cr db = Inr (old, db)"
      "\<forall>p. hm_get old p = (if \<not> ignored_path env p then stored_at env w files' p else None)" by blast
  from get_hash_index_stored [OF r(1-3), of username] obtain new where
    new: "get_hash_index env username r db = Inr (new, db)" "hm_wf new"
      "\<forall>p. hm_get new p = (if \<not> ignored_path env p then stored_at env v files p else None)" by blast
  let ?changed = "get_file_changes old new"
  have get: "hm_get ?changed p = (if ignored_path env p then None
       else change_of (stored_at env w files' p) (stored_at env v files p))" for p
    using get_file_changes_get [OF new(2)] old(2) new(3) by (simp add: change_of_def)
  have run: "get_changed_files_between_refs env username (Some cr) r db = Inr (?changed, db)"
    using valid old(1) new(1) by (simp add: get_changed_files_between_refs_def)
  have "\<exists>cs. get_files_at_ref env r (hm_keys ?changed) db = Inr cs \<and>
       reverted_contents ?changed cs = map (\<lambda>(p, _). (p, content_of env db v files p)) ?changed"
    if "?changed \<noteq> []"
  proof -
    have "hm_keys ?changed \<noteq> []" using that by simp
    from get_files_at_ref_of [OF r(1,2,4) this] obtain cs where cs: "get_files_at_ref env r (hm_keys ?changed) db = Inr cs"
      "\<forall>p. hm_get cs p = (if p \<in> set (hm_keys ?changed) then content_of env db v files p else None)" by blast
    have "if c = Deleted then content_of env db v files p = None
        else content_of env db v files p \<noteq> None \<and> hm_get cs p = content_of env db v files p"
      if pc: "(p, c) \<in> set ?changed" for p c
    proof -
      from pc have "hm_get ?changed p = Some c" by (simp add: hm_get_eq_Some_iff get_file_changes_wf)
      then have "change_of (stored_at env w files' p) (stored_at env v files p) = Some c"
        by (simp add: get split: if_splits)
      moreover have "p \<in> set (hm_keys ?changed)" using pc by force
      ultimately show ?thesis
        using stored_content(2) [OF r(3,5)] cs(2) by (auto simp: change_of_def split: option.splits if_splits)
    qed
    from reverted_contents_all [OF this] cs(1) show ?thesis by blast
  qed
  with run get get_file_changes_wf show ?thesis by blast
qed

text \<open>What a revert preview needs: the branch shows \<open>w\<close> and the reference \<open>v\<close>, both with stored hashes, those of the
  reference true; the new document \<open>i\<close> has an id of its own; and there are ids for the binary files.\<close>

definition revertible ::
  "('doc, 'h::linorder, 'v, 'o, 'd, 'x) db_env \<Rightarrow> 'd \<Rightarrow> ('d, 'h) history_ref \<Rightarrow> 'v \<Rightarrow> 'o \<Rightarrow> 'v \<Rightarrow> 'o \<Rightarrow> 'd \<Rightarrow> 'd list \<Rightarrow>
   ('d, 'doc, 'h) project_db \<Rightarrow> bool" where
  "revertible env b r w files v rfiles i ids db \<longleftrightarrow>
     commit_env env files \<and> hr_is_valid r \<and>
     (\<exists>st s. hm_get (branch_sync_states (pd_states db)) b = Some st \<and> shadow_doc st = Some s \<and> am_heads (de_crdt env) s \<noteq> [] \<and>
        ad_current (de_doc env) s = w \<and> ad_at (de_doc env) s (sort (am_heads (de_crdt env) s)) = w) \<and>
     files_ok (de_am env) w files \<and> all_stored env w files \<and>
     keys_law (de_am env) files w {p. stored_at env w files p \<noteq> None \<or> stored_at env v rfiles p \<noteq> None} \<and>
     view_at env r (pd_states db) v \<and> files_ok (de_am env) v rfiles \<and> all_stored env v rfiles \<and>
     files_readable env (pd_states db) v rfiles \<and> hashes_true env (pd_states db) v rfiles \<and>
     pd_ids db = i # ids \<and> i \<notin> set ids \<and>
     (\<exists>h c. pd_metadata db = Some (h, c) \<and> i \<noteq> h \<and> h \<notin> set ids \<and>
        (\<forall>j k. hm_get (binary_states (pd_states db)) j = Some (Some k) \<longrightarrow> k \<noteq> i \<and> k \<noteq> h)) \<and>
     hm_get (branch_sync_states (pd_states db)) i = None \<and>
     length (am_keys (de_am env) w files) + length (am_keys (de_am env) v rfiles) \<le> length ids"

text \<open>The first half of a preview: a copy of the branch that the metadata document lists.\<close>

lemma preview_copy:
  assumes laws: "copy_laws (de_crdt env) (de_doc env) changes"
    and st: "hm_get (branch_sync_states (pd_states db)) b = Some st" "shadow_doc st = Some s"
  shows "\<exists>p. merge_into_preview env b i (set_doc i (ad_new (de_doc env)) db) = (Inr (), set_doc i p db) \<and>
    same_views (de_doc env) p s \<and> changes p = changes s"
proof -
  have crdt: "crdt_laws (de_crdt env) changes" using laws by (simp add: copy_laws_def)
  have new: "changes (ad_new (de_doc env)) = {}" using laws by (simp add: copy_laws_def)
  have "fst (am_merge (de_crdt env) (ad_new (de_doc env)) s)" using laws unfolding copy_laws_def by blast
  then obtain p where p: "am_merge (de_crdt env) (ad_new (de_doc env)) s = (True, p)" by (metis prod.collapse)
  moreover have "changes (ad_new (de_doc env)) \<subseteq> changes s" unfolding new by simp
  ultimately have "same_views (de_doc env) p s" using laws unfolding copy_laws_def by blast
  moreover have "changes p = changes s" using crdt_merge [OF crdt p] new by simp
  ultimately show ?thesis
    using st p by (auto simp: merge_into_preview_def set_doc_def read_shadow_ok lift_err_def)
qed

text \<open>The second half: the changes are committed to the copy.\<close>

lemma preview_commit:
  assumes laws: "copy_laws (de_crdt env) (de_doc env) changes" and env: "commit_env env files"
    and doc: "same_views (de_doc env) (repo_docs db i) s" "changes (repo_docs db i) = changes s"
      "hm_get (branch_sync_states db) i = None" "ad_current (de_doc env) s = w" and heads: "heads \<noteq> []"
    and w: "maps_only (de_am env) files w" "all_stored env w files" "keys_law (de_am env) files w (fst ` set contents)"
    and contents: "distinct (map fst contents)" "hashable (de_hash env) contents" "length contents \<le> length ids"
    and ids: "i \<notin> set ids"
  shows "\<exists>states r' ret ids' db' v. update_branch_sync_state (de_crdt env) i heads [] db = (True, states) \<and>
    commit_fs_changes env username ids contents (history_ref_new i heads) revert is_checking_in states =
      Inr (Some (r', ret), ids', db') \<and>
    get_latest_ref_on_branch env i db' = Inr r' \<and> view_at env r' db' v \<and> files_ok (de_am env) v files \<and>
    all_stored env v files \<and> stored_at env v files = committed_hash env w files contents \<and>
    (\<forall>j. j \<noteq> i \<and> j \<notin> set ids \<longrightarrow> repo_docs db' j = repo_docs db j) \<and>
    (\<forall>c. c \<noteq> i \<longrightarrow> hm_get (branch_sync_states db') c = hm_get (branch_sync_states db) c)"
proof -
  let ?ad = "de_doc env" and ?r = "history_ref_new i heads"
  have crdt: "crdt_laws (de_crdt env) changes" using laws by (simp add: copy_laws_def)
  from first_reconcile [OF laws doc(3), of "[]" heads] heads obtain states st s1 d where
    run: "update_branch_sync_state (de_crdt env) i heads [] db = (True, states)"
    and st: "hm_get (branch_sync_states states) i = Some st" "shadow_doc st = Some s1" "canonical_doc st = i"
    and s1: "same_views ?ad s1 (repo_docs db i)" "changes s1 = changes (repo_docs db i)"
    and d: "same_views ?ad d (repo_docs db i)" "changes d = changes (repo_docs db i)"
    and states: "repo_docs states = (repo_docs db)(i := d)"
      "\<forall>c. c \<noteq> i \<longrightarrow> hm_get (branch_sync_states states) c = hm_get (branch_sync_states db) c" by auto
  have w': "ad_current ?ad s1 = w" using s1(1) doc(1,4) by (simp add: same_views_def)
  have branch: "hr_branch ?r = i" by (simp add: history_ref_new_def)
  from commit_fs_changes_view [OF env, of states ?r st s1 contents ids username revert is_checking_in]
  obtain r' ret ids' db' v m db1 where
    commit: "commit_fs_changes env username ids contents ?r revert is_checking_in states = Inr (Some (r', ret), ids', db')"
    and v: "view_at env r' db' v" "maps_only (de_am env) files v" "all_stored env v files"
      "\<forall>q. q \<notin> fst ` set contents \<longrightarrow> am_get (de_am env) v files q = am_get (de_am env) w files q"
      "stored_at env v files = committed_hash env w files contents"
    and r': "r' = history_ref_new i (am_heads (de_crdt env) (ad_commit ?ad s1 v m))"
    and created: "only_created ids states ids' db1"
    and db': "db' = snd (try_reconcile_branch (de_crdt env) i (db1\<lparr>branch_sync_states :=
         hm_insert i (st\<lparr>shadow_doc := Some (ad_commit ?ad s1 v m)\<rparr>) (branch_sync_states db1)\<rparr>))"
    unfolding branch w' using st(1,2) w(1,2) contents by blast
  let ?db2 = "db1\<lparr>branch_sync_states :=
         hm_insert i (st\<lparr>shadow_doc := Some (ad_commit ?ad s1 v m)\<rparr>) (branch_sync_states db1)\<rparr>"
  have db1: "repo_docs db1 i = d" "branch_sync_states db1 = branch_sync_states states"
    "\<forall>j. j \<notin> set ids \<longrightarrow> repo_docs db1 j = repo_docs states j"
    using created ids states(1) by (simp_all add: only_created_def)
  have "hm_get (branch_sync_states ?db2) i = Some (st\<lparr>shadow_doc := Some (ad_commit ?ad s1 v m)\<rparr>)"
    by (simp add: hm_get_insert)
  from reconcile_after_commit [OF laws this, of s1 v m] obtain db3 st3 s3 where
    rec: "try_reconcile_branch (de_crdt env) i ?db2 = (True, db3)"
    and st3: "hm_get (branch_sync_states db3) i = Some st3" "shadow_doc st3 = Some s3"
    and s3: "changes s3 = changes (ad_commit ?ad s1 v m)"
    and frame: "\<forall>j. j \<noteq> i \<longrightarrow> repo_docs db3 j = repo_docs db1 j"
      "\<forall>c. c \<noteq> i \<longrightarrow> hm_get (branch_sync_states db3) c = hm_get (branch_sync_states db1) c"
    using st(3) s1 d db1(1) by (auto simp: same_views_def hm_get_insert)
  have db3: "db' = db3" using db' rec by simp
  have "get_latest_ref_on_branch env i db' = Inr r'"
    using heads_eq [OF crdt s3] st3
    by (simp add: get_latest_ref_on_branch_def read_shadow_ok db3 r' history_ref_new_def)
  moreover have "files_ok (de_am env) v files" using w(3) v(2,4) unfolding keys_law_def by blast
  ultimately show ?thesis
    using run commit v frame db1 states by (auto simp: db3)
qed

text \<open>The files to be committed bring the hashes of the branch to those of the reference.\<close>

lemma reverted_hashes:
  assumes w: "files_ok (de_am env) w files" and v: "files_ok (de_am env) v rfiles" "all_stored env v rfiles"
      "hashes_true env db v rfiles"
    and wf: "hm_wf changed" and get: "\<forall>p. hm_get changed p = (if ignored_path env p then None
       else change_of (stored_at env w files p) (stored_at env v rfiles p))"
  defines "contents \<equiv> map (\<lambda>(p, _). (p, content_of env db v rfiles p)) changed"
  shows "distinct (map fst contents)" and "hashable (de_hash env) contents"
    and "length contents \<le> length (am_keys (de_am env) w files) + length (am_keys (de_am env) v rfiles)"
    and "fst ` set contents \<subseteq> {p. stored_at env w files p \<noteq> None \<or> stored_at env v rfiles p \<noteq> None}"
    and "\<not> ignored_path env p \<Longrightarrow> committed_hash env w files contents p = stored_at env v rfiles p"
proof -
  have fst: "map fst contents = hm_keys changed" by (simp add: contents_def case_prod_unfold)
  show "distinct (map fst contents)" using wf unfolding fst hm_wf_def .
  show "hashable (de_hash env) contents"
    using stored_content(3) [OF v(2,3)] by (auto simp: hashable_def contents_def)
  have key: "stored_at env w files p \<noteq> stored_at env v rfiles p" if "p \<in> set (hm_keys changed)" for p
  proof -
    have "hm_get changed p \<noteq> None" using that by (simp only: hm_get_None_iff not_not)
    then have "change_of (stored_at env w files p) (stored_at env v rfiles p) \<noteq> None" using get by (auto split: if_splits)
    then show ?thesis by (simp only: change_of_None_iff not_False_eq_True)
  qed
  show sub: "fst ` set contents \<subseteq> {p. stored_at env w files p \<noteq> None \<or> stored_at env v rfiles p \<noteq> None}"
  proof
    fix p
    assume "p \<in> fst ` set contents"
    then have "p \<in> set (hm_keys changed)" unfolding fst [symmetric] by simp
    with key show "p \<in> {p. stored_at env w files p \<noteq> None \<or> stored_at env v rfiles p \<noteq> None}" by fastforce
  qed
  have stored: "p \<in> set (am_keys (de_am env) v' fs)" if "stored_at env v' fs p \<noteq> None" "files_ok (de_am env) v' fs" for v' fs p
    using that files_ok_entry(2) [OF that(2)] by (cases "entry_of (de_am env) fs v' p") (auto simp: stored_at_def)
  have "set (hm_keys changed) \<subseteq> set (am_keys (de_am env) w files @ am_keys (de_am env) v rfiles)"
    using sub stored [OF _ w] stored [OF _ v(1)] unfolding fst [symmetric] by auto
  from hm_length_le [OF wf this] show "length contents \<le> length (am_keys (de_am env) w files) + length (am_keys (de_am env) v rfiles)"
    by (simp add: contents_def)
  show "committed_hash env w files contents p = stored_at env v rfiles p" if "\<not> ignored_path env p"
    using get [rule_format, of p] that stored_content(1) [OF v(2,3), of p]
    by (cases "hm_get changed p") (auto simp: committed_hash_def contents_def hm_get_map_fst change_of_None_iff eq_commute [of None])
qed

text \<open>The first half: the copy, its record in the metadata document, and the files that differ.\<close>

lemma revert_preview_registers:
  assumes laws: "meta_laws env mo" "copy_laws (de_crdt env) (de_doc env) changes"
    and reg: "registry env mo db = Some reg" and ready: "revertible env b r w files v rfiles i ids db"
  shows "\<exists>cr p db2 changed nb h c. get_latest_ref_on_branch env b (pd_states db) = Inr cr \<and> hr_heads cr \<noteq> [] \<and>
    create_revert_preview_branch env mo b r db = commit_reverted env i r cr changed db2 \<and>
    registry env mo db2 = Some (reg(i \<mapsto> nb)) \<and> br_reverted_to nb = Some r \<and> br_forked_from nb = Some cr \<and>
    pd_metadata db2 = Some (h, c) \<and> i \<noteq> h \<and> h \<notin> set ids \<and> pd_ids db2 = ids \<and>
    branch_sync_states (pd_states db2) = branch_sync_states (pd_states db) \<and> repo_docs (pd_states db2) i = p \<and>
    (\<forall>st s. hm_get (branch_sync_states (pd_states db)) b = Some st \<and> shadow_doc st = Some s \<longrightarrow>
       same_views (de_doc env) p s \<and> changes p = changes s) \<and>
    view_at env r (pd_states db2) v \<and> hashes_true env (pd_states db2) v rfiles \<and> hm_wf changed \<and>
    (\<forall>p. hm_get changed p = (if ignored_path env p then None
       else change_of (stored_at env w files p) (stored_at env v rfiles p))) \<and>
    (changed \<noteq> [] \<longrightarrow> (\<exists>cs. get_files_at_ref env r (hm_keys changed) (pd_states db2) = Inr cs \<and>
       reverted_contents changed cs = map (\<lambda>(p, _). (p, content_of env (pd_states db2) v rfiles p)) changed))"
proof -
  let ?ad = "de_doc env"
  from ready obtain st s h c0 where env: "commit_env env files" and valid: "hr_is_valid r"
    and st: "hm_get (branch_sync_states (pd_states db)) b = Some st" "shadow_doc st = Some s" "am_heads (de_crdt env) s \<noteq> []"
      "ad_current ?ad s = w" "ad_at ?ad s (sort (am_heads (de_crdt env) s)) = w"
    and w: "files_ok (de_am env) w files" "all_stored env w files"
      "keys_law (de_am env) files w {p. stored_at env w files p \<noteq> None \<or> stored_at env v rfiles p \<noteq> None}"
    and v: "view_at env r (pd_states db) v" "files_ok (de_am env) v rfiles" "all_stored env v rfiles"
      "files_readable env (pd_states db) v rfiles" "hashes_true env (pd_states db) v rfiles"
    and ids: "pd_ids db = i # ids" "i \<notin> set ids" "h \<notin> set ids" "i \<noteq> h"
    and meta: "pd_metadata db = Some (h, c0)"
      "\<forall>j k. hm_get (binary_states (pd_states db)) j = Some (Some k) \<longrightarrow> k \<noteq> i \<and> k \<noteq> h"
    and none: "hm_get (branch_sync_states (pd_states db)) i = None"
    and len: "length (am_keys (de_am env) w files) + length (am_keys (de_am env) v rfiles) \<le> length ids"
    unfolding revertible_def by auto
  define cr where "cr = history_ref_new b (am_heads (de_crdt env) s)"
  have cr: "hr_is_valid cr" "hr_heads cr = sort (am_heads (de_crdt env) s)" "hr_heads cr \<noteq> []" "hr_branch cr = b"
  proof -
    have "sort (am_heads (de_crdt env) s) \<noteq> []" using st(3) by (metis set_sort set_empty)
    then show "hr_is_valid cr" "hr_heads cr \<noteq> []" by (auto simp: cr_def history_ref_new_def hr_is_valid_def)
  qed (simp_all add: cr_def history_ref_new_def)
  have latest: "get_latest_ref_on_branch env b (pd_states db) = Inr cr"
    by (simp add: get_latest_ref_on_branch_def read_shadow_ok [OF st(1,2)] cr_def)
  from preview_copy [OF laws(2), of "db\<lparr>pd_ids := ids\<rparr>" b st s i] st(1,2) obtain p where
    copy: "merge_into_preview env b i (set_doc i (ad_new ?ad) (db\<lparr>pd_ids := ids\<rparr>)) = (Inr (), set_doc i p (db\<lparr>pd_ids := ids\<rparr>))"
    and p: "same_views ?ad p s" "changes p = changes s" by auto
  let ?db1 = "set_doc i p (db\<lparr>pd_ids := ids\<rparr>)"
  let ?b = "\<lparr>br_name = short_heads (de_io env) r @ '' <- '' @ short_heads (de_io env) cr, br_id = i,
          br_forked_from = Some cr, br_merge_into = None, br_reverted_to = Some r, br_created_by = resolve_username ?db1\<rparr>"
  have "registry env mo ?db1 = Some reg" using reg ids(4) meta(1) by (simp add: registry_def set_doc_def)
  from add_branch_registry [OF laws(1) this, of ?b] obtain db2 where
    add: "add_branch_to_meta env mo ?b ?db1 = (Inr (), db2)" and reg2: "registry env mo db2 = Some (reg(i \<mapsto> ?b))"
    and "only_meta ?db1 db2" by auto
  then obtain dm where db2: "db2 = set_doc h dm ?db1" using meta(1) by (auto simp: only_meta_def set_doc_def)
  have states2: "branch_sync_states (pd_states db2) = branch_sync_states (pd_states db)" "pd_ids db2 = ids"
    "repo_docs (pd_states db2) i = p" using ids(4) by (simp_all add: db2 set_doc_def)
  have "get_linked_file env j (pd_states db2) = get_linked_file env j (pd_states db)" for j
    by (rule linked_file_other) (use meta(2) in \<open>auto simp: db2 set_doc_def\<close>)
  note same = same_linked_content [OF this]
  have shadow2: "read_shadow x f (pd_states db2) = read_shadow x f (pd_states db)" for x f
    by (simp add: read_shadow_def with_shadow_document_def states2 split: option.split prod.split)
  have v2: "view_at env r (pd_states db2) v" "files_readable env (pd_states db2) v rfiles" "hashes_true env (pd_states db2) v rfiles"
    using v(1,4,5) by (simp_all add: view_at_def shadow2 files_readable_def hashes_true_def same)
  have "view_at env cr (pd_states db2) w"
    using st(5) cr(2,4) by (simp add: view_at_def shadow2 read_shadow_ok [OF st(1,2)])
  from reverted_changes [OF valid cr(1) this w(1,2) v2(1) v(2,3) v2(2,3), of "resolve_username ?db1"] obtain changed where
    diff: "get_changed_files_between_refs env (resolve_username ?db1) (Some cr) r (pd_states db2) = Inr (changed, pd_states db2)"
      "hm_wf changed" "\<forall>p. hm_get changed p = (if ignored_path env p then None
         else change_of (stored_at env w files p) (stored_at env v rfiles p))"
    and contents: "changed \<noteq> [] \<longrightarrow> (\<exists>cs. get_files_at_ref env r (hm_keys changed) (pd_states db2) = Inr cs \<and>
       reverted_contents changed cs = map (\<lambda>(p, _). (p, content_of env (pd_states db2) v rfiles p)) changed)" by blast
  have user: "resolve_username db2 = resolve_username ?db1"
    by (simp add: resolve_username_def db2 set_doc_def split: option.split)
  have "create_revert_preview_branch env mo b r db = commit_reverted env i r cr changed db2"
    using latest ids(1) copy add diff(1)
    by (simp add: create_revert_preview_branch_def lift_err_def repo_create_def on_states_def user)
  moreover have "pd_metadata db2 = Some (h, c0)" using meta(1) by (simp add: db2 set_doc_def)
  moreover have "\<forall>st' s'. hm_get (branch_sync_states (pd_states db)) b = Some st' \<and> shadow_doc st' = Some s' \<longrightarrow>
       same_views (de_doc env) p s' \<and> changes p = changes s'" using p st(1,2) by simp
  moreover have "br_reverted_to ?b = Some r" "br_forked_from ?b = Some cr" by simp_all
  ultimately show ?thesis using latest cr(3) reg2 ids(3,4) states2 v2(1,3) diff(2,3) contents by blast
qed


text \<open>A revert to a reference that has the same files as the branch, such as its own latest reference, fails
  with an error, but the preview branch is listed in the metadata document by then, and no state
  for it was made.\<close>

theorem revert_to_same_files_fails:
  assumes laws: "meta_laws env mo" "copy_laws (de_crdt env) (de_doc env) changes"
    and reg: "registry env mo db = Some reg" and ready: "revertible env b r w files v rfiles i ids db"
    and same: "\<And>p. \<not> ignored_path env p \<Longrightarrow> stored_at env w files p = stored_at env v rfiles p"
  shows "\<exists>db' new_branch. create_revert_preview_branch env mo b r db = (Inl (Err NoFilters), db') \<and>
    registry env mo db' = Some (reg(i \<mapsto> new_branch)) \<and> br_reverted_to new_branch = Some r \<and>
    hm_get (branch_sync_states (pd_states db')) i = None"
proof -
  from revert_preview_registers [OF laws reg ready] obtain cr db2 changed nb where
    run: "create_revert_preview_branch env mo b r db = commit_reverted env i r cr changed db2"
    and reg2: "registry env mo db2 = Some (reg(i \<mapsto> nb))" "br_reverted_to nb = Some r"
    and states2: "branch_sync_states (pd_states db2) = branch_sync_states (pd_states db)"
    and diff: "\<forall>p. hm_get changed p = (if ignored_path env p then None
       else change_of (stored_at env w files p) (stored_at env v rfiles p))" by blast
  have "changed = []" unfolding hm_empty_iff using diff same by (simp add: change_of_None_iff)
  then have "commit_reverted env i r cr changed db2 = (Inl (Err NoFilters), db2)"
    by (simp add: commit_reverted_def get_files_at_ref_def)
  moreover have "hm_get (branch_sync_states (pd_states db)) i = None" using ready unfolding revertible_def by blast
  ultimately show ?thesis using run reg2 states2 by auto
qed

section \<open>Witnesses\<close>

text \<open>A file of content \<open>x\<close> with its hash, and a branch of it that was changed since.\<close>

definition demo_first :: demo_view where
  "demo_first = demo_file ((\<lambda>_. None)(''content'' := Some (DText ''x''), ''hash'' := Some (DScalar (SBytes ''x''))))"

definition demo_history :: "demo_view list \<Rightarrow> (nat, demo_view list, nat) project_db" where
  "demo_history d = demo_project\<lparr>pd_states := (pd_states demo_project)\<lparr>branch_sync_states :=
     [(1, (branch_sync_state_new 1)\<lparr>shadow_doc := Some d\<rparr>)]\<rparr>\<rparr>"

lemma demo_history_registry: "registry demo_meta_env demo_meta_ops (demo_history d) = Some (\<lambda>_. None)"
  using demo_registry by (auto simp: registry_def demo_history_def split: option.splits)

lemma demo_meta_commit_env: "commit_env demo_meta_env DFiles"
  using demo_doc_laws demo_nat_io_laws demo_commit_law by (simp add: commit_env_def)

lemma demo_first_entry: "entry_of demo_doc_ops DFiles demo_first p = Some e \<longleftrightarrow> p = ''res://a'' \<and> e = DEntry ''res://a''"
  by (auto simp: demo_entry_of demo_first_def demo_file_def)

lemma demo_first_stored: "stored_hash Some demo_doc_ops demo_first (DEntry ''res://a'') = Inr ''x''"
  by (simp add: stored_hash_def demo_first_def demo_file_def demo_field_def)

lemma demo_first_content:
  "hydrate_content_at io demo_doc_ops demo_first (DEntry ''res://a'') ''res://a'' = Inr (Content (CString ''x''))"
  by (simp add: hydrate_content_at_def demo_first_def demo_file_def demo_field_def get_text_def)

lemma demo_stored_at:
  "stored_at demo_meta_env demo_first DFiles p = (if p = ''res://a'' then Some ''x'' else None)"
  "stored_at demo_meta_env demo_new DFiles p = (if p = ''res://a'' then Some ''y'' else None)"
proof -
  have "entry_of demo_doc_ops DFiles demo_first p = (if p = ''res://a'' then Some (DEntry ''res://a'') else None)"
    "entry_of demo_doc_ops DFiles demo_new p = (if p = ''res://a'' then Some (DEntry ''res://a'') else None)"
    by (rule option_ext, auto simp: demo_first_entry demo_new_entry)+
  then show "stored_at demo_meta_env demo_first DFiles p = (if p = ''res://a'' then Some ''x'' else None)"
    "stored_at demo_meta_env demo_new DFiles p = (if p = ''res://a'' then Some ''y'' else None)"
    by (simp_all add: stored_at_def demo_first_stored demo_new_stored)
qed

lemma demo_first_files:
  "files_ok demo_doc_ops demo_first DFiles" "all_stored demo_meta_env demo_first DFiles"
  "files_readable demo_meta_env db demo_first DFiles" "hashes_true demo_meta_env db demo_first DFiles"
proof -
  show "files_ok demo_doc_ops demo_first DFiles"
    by (auto simp: files_ok_def demo_maps_only demo_first_def demo_file_def split: option.splits)
  show "all_stored demo_meta_env demo_first DFiles" by (simp add: all_stored_def demo_first_entry demo_first_stored)
  show "files_readable demo_meta_env db demo_first DFiles" "hashes_true demo_meta_env db demo_first DFiles"
    by (simp_all add: files_readable_def hashes_true_def demo_first_entry slow_hash_def content_at_def
        demo_first_content demo_first_stored to_hash_def as_bytes_def)
qed

lemma demo_new_files: "files_ok demo_doc_ops demo_new DFiles" "all_stored demo_meta_env demo_new DFiles"
  using demo_keys by (auto simp: keys_law_def demo_maps_only all_stored_def demo_new_entry demo_new_stored)

lemma demo_revertible:
  "revertible demo_meta_env 1 \<lparr>hr_branch = 1, hr_heads = [1]\<rparr> demo_new DFiles demo_first DFiles 2 [3, 4]
     (demo_history [demo_new, demo_first])"
proof -
  let ?db = "demo_history [demo_new, demo_first]"
  have "keys_law demo_doc_ops DFiles demo_new
      {p. stored_at demo_meta_env demo_new DFiles p \<noteq> None \<or> stored_at demo_meta_env demo_first DFiles p \<noteq> None}"
    by (rule keys_law_mono [OF demo_keys]) (auto simp: demo_stored_at)
  moreover have "view_at demo_meta_env \<lparr>hr_branch = 1, hr_heads = [1]\<rparr> (pd_states ?db) demo_first"
    by (simp add: view_at_def demo_history_def read_shadow_ok demo_ad_def)
  moreover have "length (am_keys demo_doc_ops demo_new DFiles) \<le> 1" "length (am_keys demo_doc_ops demo_first DFiles) \<le> 1"
    by (simp_all add: demo_new_def demo_first_def demo_file_def)
  ultimately show ?thesis
    using demo_first_files demo_new_files demo_meta_commit_env
    by (simp add: revertible_def hr_is_valid_def demo_history_def demo_project_def demo_ad_def demo_doc_crdt_def)
qed


theorem revert_to_same_files_fails_witness:
  "\<exists>db' new_branch. create_revert_preview_branch demo_meta_env demo_meta_ops 1 \<lparr>hr_branch = 1, hr_heads = [1]\<rparr>
       (demo_history [demo_first]) = (Inl (Err NoFilters), db') \<and>
     registry demo_meta_env demo_meta_ops db' = Some ((\<lambda>_. None)(2 \<mapsto> new_branch))"
proof -
  have laws: "copy_laws (de_crdt demo_meta_env) (de_doc demo_meta_env) (\<lambda>d. {..<length d})"
    using demo_copy_laws by simp
  have "files_ok demo_doc_ops w DFiles" if "\<And>q. q \<noteq> ''res://a'' \<Longrightarrow> demo_get w DFiles q = demo_get demo_first DFiles q" for w
  proof -
    have "demo_get demo_first DFiles q = demo_get demo_new DFiles q" if "q \<noteq> ''res://a''" for q
      using that by (simp add: demo_first_def demo_new_def demo_file_def)
    with that demo_keys show ?thesis by (auto simp: keys_law_def demo_maps_only)
  qed
  then have "keys_law demo_doc_ops DFiles demo_first {p. p = ''res://a''}" by (auto simp: keys_law_def)
  moreover have "view_at demo_meta_env \<lparr>hr_branch = 1, hr_heads = [1]\<rparr> (pd_states (demo_history [demo_first])) demo_first"
    by (simp add: view_at_def demo_history_def read_shadow_ok demo_ad_def)
  moreover have "length (am_keys demo_doc_ops demo_first DFiles) \<le> 1"
    by (simp add: demo_first_def demo_file_def)
  ultimately have "revertible demo_meta_env 1 \<lparr>hr_branch = 1, hr_heads = [1]\<rparr> demo_first DFiles demo_first DFiles 2 [3, 4]
      (demo_history [demo_first])"
    using demo_first_files demo_meta_commit_env
    by (simp add: revertible_def hr_is_valid_def demo_history_def demo_project_def demo_ad_def demo_doc_crdt_def demo_stored_at)
  from revert_to_same_files_fails [OF demo_meta_laws laws demo_history_registry this] show ?thesis by blast
qed

text \<open>The branch 3 is a preview of merging the branch 2 into the main branch 1.\<close>

definition demo_branch :: "nat \<Rightarrow> (nat, nat) history_ref option \<Rightarrow> (nat, nat) history_ref option \<Rightarrow> (nat, nat) branch" where
  "demo_branch i forked_from merge_into =
     \<lparr>br_name = ''b'', br_id = i, br_forked_from = forked_from, br_merge_into = merge_into, br_reverted_to = None,
      br_created_by = None\<rparr>"

definition demo_preview :: "(nat, demo_view list, nat) project_db" where
  "demo_preview = demo_project
     \<lparr>pd_metadata := Some (0, \<lparr>bm_main_doc_id = 1, bm_branches =
        [(1, demo_branch 1 None None), (2, demo_branch 2 (Some \<lparr>hr_branch = 1, hr_heads = [1]\<rparr>) None),
         (3, demo_branch 3 (Some \<lparr>hr_branch = 2, hr_heads = [2]\<rparr>) (Some \<lparr>hr_branch = 1, hr_heads = [1]\<rparr>))]\<rparr>),
      pd_states := (pd_states demo_project)\<lparr>branch_sync_states :=
        [(1, (branch_sync_state_new 1)\<lparr>shadow_doc := Some [demo_first]\<rparr>),
         (3, (branch_sync_state_new 3)\<lparr>shadow_doc := Some [demo_new, demo_first]\<rparr>)]\<rparr>\<rparr>"

theorem merge_branch_reaches_target_witness:
  "\<exists>r db' ts' t mm. merge_branch demo_meta_env 3 1 demo_preview = (r, db') \<and>
     hm_get (branch_sync_states (pd_states db')) 1 = Some ts' \<and> shadow_doc ts' = Some t \<and> 2 \<le> length t \<and>
     merge_metadata_for (demo_branch 3 (Some \<lparr>hr_branch = 2, hr_heads = [2]\<rparr>) (Some \<lparr>hr_branch = 1, hr_heads = [1]\<rparr>)) 2
       demo_preview = Inr mm \<and>
     (r = Inr () \<longrightarrow> length t \<le> length (repo_docs (pd_states db') 1))"
proof -
  let ?b = "demo_branch 3 (Some \<lparr>hr_branch = 2, hr_heads = [2 :: nat]\<rparr>) (Some \<lparr>hr_branch = 1, hr_heads = [1]\<rparr>)"
  have laws: "copy_laws (de_crdt demo_meta_env) (de_doc demo_meta_env) (\<lambda>d. {..<length d})"
    using demo_copy_laws by simp
  have source: "get_branch_state 3 demo_preview = Inr ?b" "br_forked_from ?b = Some \<lparr>hr_branch = 2, hr_heads = [2]\<rparr>"
    "br_merge_into ?b \<noteq> None \<longrightarrow> (\<forall>orig. get_branch_state (hr_branch \<lparr>hr_branch = 2, hr_heads = [2 :: nat]\<rparr>) demo_preview =
      Inr orig \<longrightarrow> br_forked_from orig \<noteq> None)"
    by (auto simp: demo_preview_def get_branch_state_def get_metadata_state_def demo_branch_def)
  have docs: "hm_get (branch_sync_states (pd_states demo_preview)) 3 =
      Some ((branch_sync_state_new 3)\<lparr>shadow_doc := Some [demo_new, demo_first]\<rparr>)"
    "shadow_doc ((branch_sync_state_new 3)\<lparr>shadow_doc := Some [demo_new, demo_first]\<rparr>) = Some [demo_new, demo_first]"
    "hm_get (branch_sync_states (pd_states demo_preview)) 1 =
      Some ((branch_sync_state_new 1)\<lparr>shadow_doc := Some [demo_first]\<rparr>)"
    "shadow_doc ((branch_sync_state_new 1)\<lparr>shadow_doc := Some [demo_first]\<rparr>) = Some [demo_first]"
    by (simp_all add: demo_preview_def)
  have merge: "am_merge (de_crdt demo_meta_env) [demo_first] [demo_new, demo_first] = (True, [demo_new, demo_first])"
    by (simp add: demo_doc_crdt_def)
  have recorded: "recorded (de_crdt demo_meta_env) (\<lambda>d. {..<length d})
      (repo_docs (pd_states demo_preview) (canonical_doc ((branch_sync_state_new 1)\<lparr>shadow_doc := Some [demo_first]\<rparr>)))
      ((branch_sync_state_new 1)\<lparr>shadow_doc := Some [demo_first]\<rparr>)"
    by (auto simp: recorded_def branch_sync_state_new_def demo_doc_crdt_def)
  from merge_branch_reaches_target [OF laws source docs _ merge recorded] show ?thesis
    by (simp add: subset_eq branch_sync_state_new_def resolved_all_canonical_binary_docs_def) fastforce
qed

theorem merge_unforked_panics_witness:
  "fst (merge_branch demo_meta_env 1 3 demo_preview) = Inl Panic"
proof -
  have source: "get_branch_state 1 demo_preview = Inr (demo_branch 1 None None)" "br_forked_from (demo_branch 1 None None) = None"
    by (simp_all add: demo_preview_def get_branch_state_def get_metadata_state_def demo_branch_def)
  have st: "hm_get (branch_sync_states (pd_states demo_preview)) 1 = Some ((branch_sync_state_new 1)\<lparr>shadow_doc := Some [demo_first]\<rparr>)"
    "hm_get (branch_sync_states (pd_states demo_preview)) 3 =
      Some ((branch_sync_state_new 3)\<lparr>shadow_doc := Some [demo_new, demo_first]\<rparr>)" by (simp_all add: demo_preview_def)
  obtain ok t where "am_merge (de_crdt demo_meta_env) [demo_new, demo_first] [demo_first] = (ok, t)" by fastforce
  with merge_unforked_panics [OF source st(1) _ st(2), of "[demo_first]" "[demo_new, demo_first]" demo_meta_env ok t]
  show ?thesis by simp
qed

end
