(* ===== verification/Driver.thy ===== *)
theory Driver imports Fs_Commit Merge_Revert begin

text \<open>
  \<open>project/driver.rs\<close>: the sync task, which commits the disk, finds the reference to check out and writes it to the
  disk while the main thread is blocked, and the requests of the editor.

  The fields that other tasks share are one record. What other tasks do while the sync waits for the main
  thread is an argument of \<open>sync\<close>; the guard itself is \<open>Main_Thread\<close>. Cancelling the driver ends its
  tasks and is left out, and so are the channels except that \<open>ref_tx\<close> may have no receiver.
\<close>

section \<open>State\<close>

record ('d, 'doc, 'h, 'x) driver =
  dr_db :: "('d, 'doc, 'h) project_db"
  dr_pending :: "string list"                      \<comment> \<open>paths that the file watcher has seen\<close>
  dr_index :: "'x index_state"
  dr_disk :: "(string, string) hmap"
  dr_normalized :: "(string, 'x) hmap"             \<comment> \<open>\<open>pending_normalized_files\<close>\<close>
  dr_requested :: "'d option"
  dr_safe :: bool
  dr_events :: "file_system_event list"            \<comment> \<open>sent to the editor\<close>
  dr_ingestion :: bool                             \<comment> \<open>an ingestion of changes was requested\<close>
  dr_ref_receivers :: bool
  dr_ref_sent :: "('d, 'h) history_ref option"

text \<open>What the driver's parts work with.\<close>

record ('s, 'doc, 'h, 'v, 'o, 'd, 'x) driver_env =
  de_hasher :: "('s, 'x) hasher"
  de_fs :: fs_ops
  de_read :: read_ops
  de_db :: "('doc, 'h, 'v, 'o, 'd, 'x) db_env"
  de_meta :: "'v meta_ops"

abbreviation dr_ref :: "('d, 'doc, 'h, 'x) driver \<Rightarrow> ('d, 'h) history_ref option" where
  "dr_ref s \<equiv> pd_checked_out (dr_db s)"

definition dr_fs_state :: "('d, 'doc, 'h, 'x) driver \<Rightarrow> ('d, 'doc, 'h, 'x) fs_state" where
  "dr_fs_state s = \<lparr>fs_pending = dr_pending s, fs_index = dr_index s, fs_ids = pd_ids (dr_db s), fs_db = pd_states (dr_db s)\<rparr>"

definition dr_put_fs :: "('d, 'doc, 'h, 'x) fs_state \<Rightarrow> ('d, 'doc, 'h, 'x) driver \<Rightarrow> ('d, 'doc, 'h, 'x) driver" where
  "dr_put_fs f s = s\<lparr>dr_pending := fs_pending f, dr_index := fs_index f,
     dr_db := (dr_db s)\<lparr>pd_ids := fs_ids f, pd_states := fs_db f\<rparr>\<rparr>"

section \<open>Committing\<close>

text \<open>A file whose committed content has another hash than the file on disk is to be normalized.\<close>

definition queue_normalized :: "string \<times> 'x commit_status \<Rightarrow> (string, 'x) hmap \<Rightarrow> (string, 'x) hmap" where
  "queue_normalized = (\<lambda>(path, status) normalized_files.
     let normalized_files = hm_remove path normalized_files
     in case (hash_after_commit status, hash_before_commit status) of
          (Some hash_after, Some hash_before) \<Rightarrow>
            if hash_after = hash_before then normalized_files else hm_insert path hash_before normalized_files
        | _ \<Rightarrow> normalized_files)"

definition commit ::
  "('s, 'doc, 'h::linorder, 'v, 'o, 'd, 'x) driver_env \<Rightarrow> ('d, 'h) history_ref \<Rightarrow> bool \<Rightarrow> ('d, 'doc, 'h, 'x) driver \<Rightarrow>
   (unit, ('d, 'doc, 'h, 'x) driver) outcome" where
  "commit E at_ref force s =
     rbind (fs_commit (de_hasher E) (de_fs E) (de_read E) (de_db E) (resolve_username (dr_db s)) at_ref force
              (dr_normalized s) (dr_disk s) (dr_fs_state s)) (\<lambda>(committed, f).
     let s = dr_put_fs f s
     in case committed of
          None \<Rightarrow> Inr s
        | Some (new_ref, committed_changes) \<Rightarrow>
            Inr (s\<lparr>dr_normalized := fold queue_normalized committed_changes (dr_normalized s),
                   dr_db := (dr_db s)\<lparr>pd_checked_out := Some new_ref\<rparr>, dr_ingestion := True\<rparr>))"

section \<open>Checking out\<close>

definition normalize_file ::
  "('s, 'doc, 'h, 'v, 'o, 'd, 'x) driver_env \<Rightarrow> (string, file_content) hmap \<Rightarrow> string \<times> 'x \<Rightarrow>
   (string, string) hmap \<times> 'x index_state \<Rightarrow> (unit, (string, string) hmap \<times> 'x index_state) outcome" where
  "normalize_file E contents = (\<lambda>(path, hash) (disk, ix).
     case get_hash (de_hasher E) (fo_env (de_fs E) disk) path ix of
       (Inl _, ix) \<Rightarrow> Inr (disk, ix)
     | (Inr current_hash, ix) \<Rightarrow>
         (if hash \<noteq> current_hash then Inr (disk, ix)
          else (case hm_get contents (localize_path (de_project_dir (de_db E)) path) of
                  None \<Rightarrow> Inr (disk, ix)
                | Some content \<Rightarrow>
                    rbind (handle_file_update (de_hasher E) (de_fs E) (de_db E) path content (disk, ix))
                      (\<lambda>(_, disk, ix). Inr (disk, ix)))))"

text \<open>An error, also the one of having no files, keeps what is pending.\<close>

definition resolve_pending_normalized_files ::
  "('s, 'doc, 'h, 'v, 'o, 'd, 'x) driver_env \<Rightarrow> ('d, 'h) history_ref \<Rightarrow> ('d, 'doc, 'h, 'x) driver \<Rightarrow>
   (unit, ('d, 'doc, 'h, 'x) driver) outcome" where
  "resolve_pending_normalized_files E at_ref s =
     (case get_files_at_ref (de_db E) at_ref
             (map (localize_path (de_project_dir (de_db E))) (hm_keys (dr_normalized s))) (pd_states (dr_db s)) of
        Inl (Err _) \<Rightarrow> Inr s
      | Inl Panic \<Rightarrow> Inl Panic
      | Inl Diverges \<Rightarrow> Inl Diverges
      | Inr contents \<Rightarrow>
          rbind (fold_res (normalize_file E contents) (dr_normalized s) (dr_disk s, dr_index s)) (\<lambda>(disk, ix).
          Inr (s\<lparr>dr_disk := disk, dr_index := ix, dr_normalized := []\<rparr>)))"

text \<open>The reference to check out; a requested branch that can be checked out is no longer requested.\<close>

definition latest_ref ::
  "('s, 'doc, 'h::linorder, 'v, 'o, 'd, 'x) driver_env \<Rightarrow> 'd \<Rightarrow> ('d, 'doc, 'h, 'x) driver \<Rightarrow> ('d, 'h) history_ref option" where
  "latest_ref E branch s = get_ok (get_latest_ref_on_branch (de_db E) branch (pd_states (dr_db s)))"

definition get_ref_for_sync ::
  "('s, 'doc, 'h::linorder, 'v, 'o, 'd, 'x) driver_env \<Rightarrow> ('d, 'doc, 'h, 'x) driver \<Rightarrow>
   ('d, 'h) history_ref option \<times> ('d, 'doc, 'h, 'x) driver" where
  "get_ref_for_sync E s =
     (let main = (case get_main_branch (dr_db s) of Inr main_branch \<Rightarrow> latest_ref E main_branch s | Inl _ \<Rightarrow> None);
          current = (case dr_ref s of
            None \<Rightarrow> main
          | Some current_ref \<Rightarrow>
              (case latest_ref E (hr_branch current_ref) s of Some r \<Rightarrow> Some r | None \<Rightarrow> main))
      in case dr_requested s of
           None \<Rightarrow> (current, s)
         | Some requested_branch \<Rightarrow>
             (case latest_ref E requested_branch s of
                Some latest \<Rightarrow> (Some latest, s\<lparr>dr_requested := None\<rparr>)
              | None \<Rightarrow> (current, s)))"

record ('d, 'h) checkout =
  co_goal :: "('d, 'h) history_ref"
  co_from :: "('d, 'h) history_ref option"
  co_changes :: "(string, change_type \<times> file_content option) hmap option"

text \<open>\<open>sync_correct_ref\<close> up to the guard: what is to be checked out.\<close>

definition propose_checkout ::
  "('s, 'doc, 'h::linorder, 'v, 'o, 'd, 'x) driver_env \<Rightarrow> ('d, 'doc, 'h, 'x) driver \<Rightarrow>
   (unit, ('d, 'h) checkout option \<times> ('d, 'doc, 'h, 'x) driver) outcome" where
  "propose_checkout E s =
     (if \<not> dr_safe s then Inr (None, s)
      else case get_ref_for_sync E s of
             (None, s) \<Rightarrow> Inr (None, s)
           | (Some goal_ref, s) \<Rightarrow>
               rbind (checkout_ref (de_hasher E) (de_fs E) (de_db E) (resolve_username (dr_db s)) (dr_ref s) goal_ref
                        (dr_disk s) (dr_index s) (pd_states (dr_db s))) (\<lambda>(proposed_changes, ix, states).
               let s = s\<lparr>dr_index := ix, dr_db := (dr_db s)\<lparr>pd_states := states\<rparr>\<rparr>
               in Inr (if proposed_changes = None \<and> dr_normalized s = [] then None
                       else Some \<lparr>co_goal = goal_ref, co_from = dr_ref s, co_changes = proposed_changes\<rparr>, s)))"

text \<open>The rest of it, with the main thread blocked.\<close>

definition finish_checkout ::
  "('s, 'doc, 'h, 'v, 'o, 'd, 'x) driver_env \<Rightarrow> ('d, 'h) checkout \<Rightarrow> ('d, 'doc, 'h, 'x) driver \<Rightarrow>
   (unit, ('d, 'doc, 'h, 'x) driver) outcome" where
  "finish_checkout E co s =
     (if dr_ref s \<noteq> co_from co then Inr s
      else if \<not> dr_safe s then Inr s
      else rbind (case co_from co of None \<Rightarrow> Inr s | Some r \<Rightarrow> resolve_pending_normalized_files E r s) (\<lambda>s.
           case co_changes co of
             None \<Rightarrow> Inr s
           | Some changes \<Rightarrow>
               rbind (apply_changes (de_hasher E) (de_fs E) (de_db E) changes (dr_disk s) (dr_index s))
                 (\<lambda>(results, disk, ix).
               Inr (s\<lparr>dr_disk := disk, dr_index := ix, dr_db := (dr_db s)\<lparr>pd_checked_out := Some (co_goal co)\<rparr>,
                      dr_events := dr_events s @ results\<rparr>))))"

definition sync_correct_ref ::
  "('s, 'doc, 'h::linorder, 'v, 'o, 'd, 'x) driver_env \<Rightarrow> (('d, 'doc, 'h, 'x) driver \<Rightarrow> ('d, 'doc, 'h, 'x) driver) \<Rightarrow>
   ('d, 'doc, 'h, 'x) driver \<Rightarrow> (unit, ('d, 'doc, 'h, 'x) driver) outcome" where
  "sync_correct_ref E meanwhile s =
     rbind (propose_checkout E s) (\<lambda>(co, s).
     case co of None \<Rightarrow> Inr s | Some co \<Rightarrow> finish_checkout E co (meanwhile s))"

definition sync ::
  "('s, 'doc, 'h::linorder, 'v, 'o, 'd, 'x) driver_env \<Rightarrow> (('d, 'doc, 'h, 'x) driver \<Rightarrow> ('d, 'doc, 'h, 'x) driver) \<Rightarrow>
   ('d, 'doc, 'h, 'x) driver \<Rightarrow> (unit, ('d, 'doc, 'h, 'x) driver) outcome" where
  "sync E meanwhile s =
     (let old_ref = dr_ref s
      in rbind (case old_ref of None \<Rightarrow> Inr s | Some r \<Rightarrow> commit E r False s) (\<lambda>s.
         rbind (sync_correct_ref E meanwhile s) (\<lambda>s.
         let new_ref = dr_ref s
         in if map_option hr_branch new_ref \<noteq> map_option hr_branch old_ref
            then (if dr_ref_receivers s then Inr (s\<lparr>dr_ingestion := True, dr_ref_sent := new_ref\<rparr>) else Inl Panic)
            else Inr s)))"

section \<open>Requests\<close>

type_synonym ('d, 'doc, 'h, 'x, 'a) driver_run = "(('d, 'doc, 'h, 'x) driver, ('d, 'h) db_error, 'a) run"

definition request_checkout :: "'d \<Rightarrow> ('d, 'doc, 'h, 'x) driver \<Rightarrow> ('d, 'doc, 'h, 'x) driver" where
  "request_checkout branch s = s\<lparr>dr_requested := Some branch\<rparr>"

definition on_db :: "('d, 'doc, 'h, 'a) db_run \<Rightarrow> ('d, 'doc, 'h, 'x, 'a) driver_run" where
  "on_db m s = (case m (dr_db s) of (r, db) \<Rightarrow> (r, s\<lparr>dr_db := db\<rparr>))"

definition driver_fork_branch ::
  "('s, 'doc, 'h::linorder, 'v, 'o, 'd, 'x) driver_env \<Rightarrow> string \<Rightarrow> 'd \<Rightarrow> ('d, 'doc, 'h, 'x, unit) driver_run" where
  "driver_fork_branch E name branch =
     sbind (stry (on_db (fork_branch (de_db E) (de_meta E) name branch))) (\<lambda>r.
     case r of Inr i \<Rightarrow> smodify (request_checkout i) | Inl _ \<Rightarrow> sret ())"

text \<open>The errors of the merge and of the deletion are only logged.\<close>

definition driver_merge_branch ::
  "('s, 'doc, 'h::linorder, 'v, 'o, 'd, 'x) driver_env \<Rightarrow> 'd \<Rightarrow> 'd \<Rightarrow> ('d, 'doc, 'h, 'x, unit) driver_run" where
  "driver_merge_branch E source target =
     sbind (stry (on_db (merge_branch (de_db E) source target)) :: (_, _, ('d, 'h) db_error + unit) run) (\<lambda>_.
     sbind (stry (on_db (delete_branch (de_db E) (de_meta E) source)) :: (_, _, ('d, 'h) db_error + unit) run) (\<lambda>_.
     smodify (request_checkout target)))"

definition discard_current_branch ::
  "('s, 'doc, 'h, 'v, 'o, 'd, 'x) driver_env \<Rightarrow> ('d, 'doc, 'h, 'x, unit) driver_run" where
  "discard_current_branch E =
     sbind (sgets (\<lambda>s. Inr (dr_ref s))) (\<lambda>checked_out_ref.
     case checked_out_ref of
       None \<Rightarrow> sret ()
     | Some r \<Rightarrow>
         sbind (stry (sgets (\<lambda>s. get_branch_state (hr_branch r) (dr_db s))) :: (_, _, ('d, 'h) db_error + _) run) (\<lambda>branch_state.
         case branch_state of
           Inl _ \<Rightarrow> sret ()
         | Inr branch_state \<Rightarrow>
             (case br_forked_from branch_state of
                None \<Rightarrow> sret ()
              | Some fork_info \<Rightarrow>
                  sbind (stry (on_db (delete_branch (de_db E) (de_meta E) (br_id branch_state))) :: (_, _, ('d, 'h) db_error + unit) run) (\<lambda>_.
                  smodify (request_checkout (hr_branch fork_info))))))"

definition driver_create_merge_preview ::
  "('s, 'doc, 'h::linorder, 'v, 'o, 'd, 'x) driver_env \<Rightarrow> 'd \<Rightarrow> 'd \<Rightarrow> ('d, 'doc, 'h, 'x, unit) driver_run" where
  "driver_create_merge_preview E source target =
     sbind (on_db (create_merge_preview_branch (de_db E) (de_meta E) source target)) (\<lambda>i. smodify (request_checkout i))"

definition driver_create_revert_preview ::
  "('s, 'doc, 'h::linorder, 'v, 'o, 'd, 'x) driver_env \<Rightarrow> ('d, 'h) history_ref \<Rightarrow> ('d, 'doc, 'h, 'x, unit) driver_run" where
  "driver_create_revert_preview E r =
     sbind (on_db (create_revert_preview_branch (de_db E) (de_meta E) (hr_branch r) r)) (\<lambda>i. smodify (request_checkout i))"

definition driver_confirm_revert_preview ::
  "('s, 'doc, 'h::linorder, 'v, 'o, 'd, 'x) driver_env \<Rightarrow> ('d, 'doc, 'h, 'x, unit) driver_run" where
  "driver_confirm_revert_preview E =
     sbind (sgets (\<lambda>s. Inr (dr_ref s))) (\<lambda>branch.
     case branch of
       None \<Rightarrow> sret ()
     | Some r \<Rightarrow>
         sbind (stry (sgets (\<lambda>s. get_branch_state (hr_branch r) (dr_db s))) :: (_, _, ('d, 'h) db_error + _) run) (\<lambda>branch_state.
         case branch_state of
           Inl _ \<Rightarrow> sret ()
         | Inr branch_state \<Rightarrow>
             (case br_forked_from branch_state of
                None \<Rightarrow> sret ()
              | Some forked_from \<Rightarrow>
                  sbind (stry (on_db (confirm_revert_preview_branch (de_db E) (hr_branch r))) :: (_, _, ('d, 'h) db_error + unit) run) (\<lambda>ok.
                  case ok of
                    Inl _ \<Rightarrow> sret ()
                  | Inr _ \<Rightarrow>
                      sbind (stry (on_db (delete_branch (de_db E) (de_meta E) (hr_branch r))) :: (_, _, ('d, 'h) db_error + unit) run) (\<lambda>ok.
                      case ok of
                        Inl _ \<Rightarrow> sret ()
                      | Inr _ \<Rightarrow> smodify (request_checkout (hr_branch forked_from)))))))"

section \<open>Local changes and new projects\<close>

definition get_latest_ref_on_branch_or_main ::
  "('s, 'doc, 'h::linorder, 'v, 'o, 'd, 'x) driver_env \<Rightarrow> 'd option \<Rightarrow> ('d, 'doc, 'h, 'x) driver \<Rightarrow>
   (('d, 'h) db_error, ('d, 'h) history_ref) outcome" where
  "get_latest_ref_on_branch_or_main E branch s =
     rbind (case branch of Some b \<Rightarrow> Inr b | None \<Rightarrow> get_main_branch (dr_db s)) (\<lambda>b.
     lift_err (get_latest_canonical_ref_on_branch (de_db E) b (pd_states (dr_db s))))"

definition get_local_changes ::
  "('s, 'doc, 'h::linorder, 'v, 'o, 'd, 'x) driver_env \<Rightarrow> 'd option \<Rightarrow> ('d, 'doc, 'h, 'x, (string, change_type) hmap) driver_run" where
  "get_local_changes E branch =
     sbind (sgets (get_latest_ref_on_branch_or_main E branch)) (\<lambda>r.
     sbind (sgets (\<lambda>s. Inr (resolve_username (dr_db s)))) (\<lambda>username.
     sbind (on_db (on_states (get_hash_index (de_db E) username r))) (\<lambda>canonical_files.
     (\<lambda>s. case current_files (de_hasher E) (de_fs E) (de_db E) (dr_disk s) (dr_index s) of
        (files, ix) \<Rightarrow>
          (Inr (get_file_changes canonical_files (localize_all (de_db E) files)), s\<lparr>dr_index := ix\<rparr>)))))"

text \<open>A commit that panics leaves the driver behind; what it has done by then is not modelled.\<close>

definition commit_local_changes ::
  "('s, 'doc, 'h::linorder, 'v, 'o, 'd, 'x) driver_env \<Rightarrow> 'd option \<Rightarrow> ('d, 'doc, 'h, 'x, unit) driver_run" where
  "commit_local_changes E branch =
     sbind (sgets (get_latest_ref_on_branch_or_main E branch)) (\<lambda>r.
     (\<lambda>s. case commit E r True s of
        Inr s' \<Rightarrow> (Inr (), s') | Inl Diverges \<Rightarrow> (Inl Diverges, s) | Inl _ \<Rightarrow> (Inl Panic, s)))"

definition start_sync :: "'d option \<Rightarrow> ('d, 'doc, 'h, 'x) driver \<Rightarrow> ('d, 'doc, 'h, 'x) driver" where
  "start_sync branch s = (case branch of None \<Rightarrow> s | Some b \<Rightarrow> request_checkout b s)"

text \<open>The document watcher ingests the metadata document and starts to look for the main branch; \<open>meanwhile\<close> is
  what its tasks have done when the files are checked in.\<close>

definition create_project ::
  "('s, 'doc, 'h::linorder, 'v, 'o, 'd, 'x) driver_env \<Rightarrow>
   ('d \<Rightarrow> ('d, 'doc, 'h) project_db \<Rightarrow> ('d, 'doc, 'h) project_db) \<Rightarrow> ('d, 'doc, 'h, 'x, unit) driver_run" where
  "create_project E meanwhile =
     sbind (on_db (create_metadata_doc (de_db E) (de_meta E))) (\<lambda>metadata_handle.
     sbind (smodify (\<lambda>s. s\<lparr>dr_db := meanwhile metadata_handle (dr_db s)\<rparr>)) (\<lambda>_.
     (\<lambda>s. case fs_checkin (de_hasher E) (de_fs E) (de_read E) (de_db E) (resolve_username (dr_db s)) (dr_disk s)
                 (dr_fs_state s) (dr_ref s) of
        Inr (r, f) \<Rightarrow>
          let s = dr_put_fs f s
          in (Inr (), s\<lparr>dr_db := (dr_db s)\<lparr>pd_checked_out := r\<rparr>\<rparr>)
      | Inl Diverges \<Rightarrow> (Inl Diverges, s) | Inl _ \<Rightarrow> (Inl Panic, s))))"

section \<open>The disk is written only when it is safe\<close>

lemma commit_frame:
  assumes "commit E r force s = Inr s'"
  shows "dr_disk s' = dr_disk s" and "dr_safe s' = dr_safe s" and "dr_requested s' = dr_requested s"
    and "dr_events s' = dr_events s" and "dr_ref_receivers s' = dr_ref_receivers s"
  using assms by (auto simp: commit_def rbind_eq_Inr_iff dr_put_fs_def Let_def split: option.splits)

lemma get_ref_for_sync_frame:
  "snd (get_ref_for_sync E s) = s \<or> snd (get_ref_for_sync E s) = s\<lparr>dr_requested := None\<rparr>"
  by (simp add: get_ref_for_sync_def Let_def split: option.split)

lemma propose_checkout_frame:
  assumes "propose_checkout E s = Inr (co, s')"
  shows "dr_disk s' = dr_disk s" and "dr_safe s' = dr_safe s" and "dr_ref s' = dr_ref s"
    and "dr_normalized s' = dr_normalized s" and "dr_ref_receivers s' = dr_ref_receivers s"
    and "co = Some c \<Longrightarrow> dr_safe s \<and> co_from c = dr_ref s"
proof -
  obtain g t where g: "get_ref_for_sync E s = (g, t)" by fastforce
  then have t: "t = s \<or> t = s\<lparr>dr_requested := None\<rparr>" using get_ref_for_sync_frame [of E s] by simp
  show "dr_disk s' = dr_disk s" "dr_safe s' = dr_safe s" "dr_ref s' = dr_ref s"
    "dr_normalized s' = dr_normalized s" "dr_ref_receivers s' = dr_ref_receivers s"
    "co = Some c \<Longrightarrow> dr_safe s \<and> co_from c = dr_ref s"
    using assms t
    by (auto simp: propose_checkout_def g rbind_eq_Inr_iff Let_def split: if_splits option.splits)
qed

lemma finish_checkout_writes:
  assumes "finish_checkout E co s = Inr s'"
  shows "dr_disk s' = dr_disk s \<or> dr_safe s \<and> dr_ref s = co_from co"
  using assms by (auto simp: finish_checkout_def split: if_splits)

text \<open>C3: a sync that returns has left the disk as it was, but for what other tasks did while it waited for the main
  thread, unless the editor was safe to update both when the sync looked for something to check out and
  when it had the main thread blocked, and the checked out reference did not change in between.\<close>

theorem sync_writes_only_when_safe:
  assumes "sync E meanwhile s = Inr s'"
  shows "\<exists>s1 co x. (case dr_ref s of None \<Rightarrow> Inr s | Some r \<Rightarrow> commit E r False s) = Inr s1 \<and>
    propose_checkout E s1 = Inr (co, x) \<and> dr_disk x = dr_disk s \<and>
    (dr_disk s' = dr_disk (if co = None then x else meanwhile x) \<or>
     co \<noteq> None \<and> dr_safe s \<and> dr_safe (meanwhile x) \<and> dr_ref (meanwhile x) = dr_ref s1)"
proof -
  from assms obtain s1 s2 where s1: "(case dr_ref s of None \<Rightarrow> Inr s | Some r \<Rightarrow> commit E r False s) = Inr s1"
    and s2: "sync_correct_ref E meanwhile s1 = Inr s2" and s': "dr_disk s' = dr_disk s2"
    by (auto simp: sync_def rbind_eq_Inr_iff Let_def split: if_splits)
  have disk1: "dr_disk s1 = dr_disk s" "dr_safe s1 = dr_safe s"
    using s1 by (auto simp: commit_frame split: option.splits)
  from s2 obtain co x where x: "propose_checkout E s1 = Inr (co, x)"
    and rest: "(case co of None \<Rightarrow> Inr x | Some co \<Rightarrow> finish_checkout E co (meanwhile x)) = Inr s2"
    by (auto simp: sync_correct_ref_def rbind_eq_Inr_iff)
  note frame = propose_checkout_frame [OF x]
  show ?thesis
  proof (cases co)
    case None
    with rest s' disk1 frame(1) s1 x show ?thesis by auto
  next
    case (Some c)
    with rest have "finish_checkout E c (meanwhile x) = Inr s2" by simp
    from finish_checkout_writes [OF this] frame(6) [OF Some] frame(1-3) disk1 s' s1 x Some show ?thesis by auto
  qed
qed

text \<open>A requested checkout can be lost. When the branch that was asked for can be checked out the request is
  cleared; when then the editor is no longer safe to update, or the checked out reference has changed
  before the main thread is blocked, the sync gives up, with nothing written and nothing requested.\<close>

theorem requested_checkout_lost:
  assumes "dr_requested s = Some b" and "latest_ref E b s = Some r" and "propose_checkout E s = Inr (Some co, t)"
    and "\<not> dr_safe (meanwhile t) \<or> dr_ref (meanwhile t) \<noteq> dr_ref t"
  shows "co_goal co = r \<and> dr_requested t = None \<and> sync_correct_ref E meanwhile s = Inr (meanwhile t)"
proof -
  have g: "get_ref_for_sync E s = (Some r, s\<lparr>dr_requested := None\<rparr>)"
    using assms(1,2) by (simp add: get_ref_for_sync_def Let_def)
  have "co_goal co = r \<and> dr_requested t = None \<and> co_from co = dr_ref t"
    using assms(3) by (auto simp: propose_checkout_def g rbind_eq_Inr_iff Let_def split: if_splits)
  with assms(3,4) show ?thesis by (auto simp: sync_correct_ref_def finish_checkout_def)
qed

section \<open>A sync brings the disk to the reference\<close>

text \<open>Other tasks that leave alone what a checkout reads again once the main thread is blocked.\<close>

definition quiet_meanwhile :: "(('d, 'doc, 'h, 'x) driver \<Rightarrow> ('d, 'doc, 'h, 'x) driver) \<Rightarrow> bool" where
  "quiet_meanwhile m \<longleftrightarrow> (\<forall>x. dr_disk (m x) = dr_disk x \<and> dr_index (m x) = dr_index x \<and> dr_safe (m x) = dr_safe x \<and>
     dr_ref (m x) = dr_ref x \<and> dr_normalized (m x) = dr_normalized x \<and> dr_ref_receivers (m x) = dr_ref_receivers x)"

abbreviation driver_env_ok :: "('s, 'doc, 'h, 'v, 'o, 'd, 'x) driver_env \<Rightarrow> ('d, 'doc, 'h, 'x) driver \<Rightarrow> bool" where
  "driver_env_ok E s \<equiv> sync_env (de_hasher E) (de_fs E) (de_db E) \<and>
     index_honest (de_hasher E) (de_fs E) (dr_index s) \<and> project_disk (de_db E) (dr_disk s)"

lemma commit_nothing: "dr_pending s = [] \<Longrightarrow> commit E r False s = Inr s"
  by (simp add: commit_def fs_commit_def dr_fs_state_def dr_put_fs_def)

lemma nothing_normalized: "dr_normalized s = [] \<Longrightarrow> resolve_pending_normalized_files E r s = Inr s"
  by (simp add: resolve_pending_normalized_files_def get_files_at_ref_def)

lemma propose_plan:
  assumes ok: "driver_env_ok E s" and safe: "dr_safe s" and g: "get_ref_for_sync E s = (Some goal, t)"
    and good: "good_ref (de_db E) goal v files (pd_states (dr_db s))" and res: "res_paths (de_am (de_db E)) v files"
    and other: "dr_ref s \<noteq> Some goal"
  shows "\<exists>plan x. propose_checkout E s = Inr (Some \<lparr>co_goal = goal, co_from = dr_ref s, co_changes = Some plan\<rparr>, x) \<and>
    index_honest (de_hasher E) (de_fs E) (dr_index x) \<and> dr_requested x = dr_requested t \<and>
    dr_events x = dr_events s \<and>
    plan_for (de_db E) plan (dr_disk s) (hash_of (de_db E) (pd_states (dr_db s)) v files)"
proof -
  have t: "t = s \<or> t = s\<lparr>dr_requested := None\<rparr>" using get_ref_for_sync_frame [of E s] g by simp
  from checkout_ref_plan [OF conjunct1 [OF ok] conjunct1 [OF conjunct2 [OF ok]] conjunct2 [OF conjunct2 [OF ok]] good res other]
  obtain plan ix db where
    plan: "checkout_ref (de_hasher E) (de_fs E) (de_db E) (resolve_username (dr_db s)) (dr_ref s) goal
        (dr_disk s) (dr_index s) (pd_states (dr_db s)) = Inr (Some plan, ix, db)"
      "index_honest (de_hasher E) (de_fs E) ix"
      "plan_for (de_db E) plan (dr_disk s) (hash_of (de_db E) (pd_states (dr_db s)) v files)" by blast
  have "checkout_ref (de_hasher E) (de_fs E) (de_db E) (resolve_username (dr_db t)) (dr_ref t) goal
        (dr_disk t) (dr_index t) (pd_states (dr_db t)) = Inr (Some plan, ix, db)" using plan(1) t by auto
  with g safe plan(2,3) t show ?thesis by (auto simp: propose_checkout_def Let_def)
qed

text \<open>C2: when the editor is safe to update, no file is waiting to be committed or normalized, and the reference to
  check out is another than the one checked out and can be shown (its files can be read, and stored hashes
  are right), a sync succeeds: the reference is checked out, the files
  of the project that are not ignored are exactly the files of the reference, ignored files are as they
  were, and a change of the branch is announced. Other tasks may do anything meanwhile that does not touch
  the disk, its index, the pending normalizations, the checked out reference or the editor's flag.\<close>

theorem sync_checks_out:
  assumes "driver_env_ok E s" and "dr_safe s" and "dr_pending s = []" and "dr_normalized s = []"
    and "get_ref_for_sync E s = (Some goal, t)"
    and "good_ref (de_db E) goal v files (pd_states (dr_db s))" and "res_paths (de_am (de_db E)) v files"
    and "dr_ref s \<noteq> Some goal" and "quiet_meanwhile meanwhile" and "dr_ref_receivers s"
  shows "\<exists>s'. sync E meanwhile s = Inr s' \<and> dr_ref s' = Some goal \<and>
    (\<forall>q. relative_ok q \<and> \<not> ignores (de_db E) (de_project_dir (de_db E) @ q) False \<longrightarrow>
       map_option (de_hash (de_db E)) (hm_get (dr_disk s') (de_project_dir (de_db E) @ q)) =
         hash_of (de_db E) (pd_states (dr_db s)) v files (res_prefix @ q)) \<and>
    (\<forall>p. ignores (de_db E) p False \<longrightarrow> hm_get (dr_disk s') p = hm_get (dr_disk s) p) \<and>
    (Some (hr_branch goal) \<noteq> map_option hr_branch (dr_ref s) \<longrightarrow> dr_ref_sent s' = Some goal \<and> dr_ingestion s')"
proof -
  from propose_plan [OF assms(1,2,5-8)] obtain plan x where
    x: "propose_checkout E s = Inr (Some \<lparr>co_goal = goal, co_from = dr_ref s, co_changes = Some plan\<rparr>, x)"
    and ix: "index_honest (de_hasher E) (de_fs E) (dr_index x)"
    and plan: "plan_for (de_db E) plan (dr_disk s) (hash_of (de_db E) (pd_states (dr_db s)) v files)" by blast
  note frame = propose_checkout_frame [OF x]
  define y where "y = meanwhile x"
  have y: "dr_disk y = dr_disk s" "dr_index y = dr_index x" "dr_safe y" "dr_ref y = dr_ref s" "dr_normalized y = []"
    "dr_ref_receivers y"
    using assms(2,4,9,10) frame(1-5) by (simp_all add: quiet_meanwhile_def y_def)
  from assms(1) ix have env: "sync_env (de_hasher E) (de_fs E) (de_db E)" and disk: "project_disk (de_db E) (dr_disk s)"
    by simp_all
  from apply_plan [OF env ix disk plan] obtain events disk' ix' where
    applied: "apply_changes (de_hasher E) (de_fs E) (de_db E) plan (dr_disk y) (dr_index y) = Inr (events, disk', ix')"
      "\<forall>q. relative_ok q \<and> \<not> ignores (de_db E) (de_project_dir (de_db E) @ q) False \<longrightarrow>
        map_option (de_hash (de_db E)) (hm_get disk' (de_project_dir (de_db E) @ q)) =
          hash_of (de_db E) (pd_states (dr_db s)) v files (res_prefix @ q)"
      "\<forall>p. ignores (de_db E) p False \<longrightarrow> hm_get disk' p = hm_get (dr_disk s) p" unfolding y(1,2) by blast
  have "(case dr_ref s of None \<Rightarrow> Inr y | Some r \<Rightarrow> resolve_pending_normalized_files E r y) = Inr y"
    using y(5) by (simp add: nothing_normalized split: option.split)
  then have finish: "finish_checkout E \<lparr>co_goal = goal, co_from = dr_ref s, co_changes = Some plan\<rparr> y =
      Inr (y\<lparr>dr_disk := disk', dr_index := ix', dr_db := (dr_db y)\<lparr>pd_checked_out := Some goal\<rparr>,
             dr_events := dr_events y @ events\<rparr>)"
    using y(3,4) applied(1) by (simp add: finish_checkout_def)
  have commit: "(case dr_ref s of None \<Rightarrow> Inr s | Some r \<Rightarrow> commit E r False s) = Inr s"
    using assms(3) by (simp add: commit_nothing split: option.split)
  have "sync_correct_ref E meanwhile s =
      Inr (y\<lparr>dr_disk := disk', dr_index := ix', dr_db := (dr_db y)\<lparr>pd_checked_out := Some goal\<rparr>,
             dr_events := dr_events y @ events\<rparr>)"
    using x finish by (simp add: sync_correct_ref_def y_def)
  with commit applied(2,3) y(6) show ?thesis by (auto simp: sync_def Let_def)
qed

section \<open>Normalized files\<close>

text \<open>A pending file is overwritten when it still has the hash that was committed.\<close>

definition normalizes :: "('s, 'doc, 'h, 'v, 'o, 'd, 'x) driver_env \<Rightarrow> (string \<Rightarrow> 'x option) \<Rightarrow> (string, 'x) hmap \<Rightarrow>
    (string, string) hmap \<Rightarrow> string \<Rightarrow> bool" where
  "normalizes E goal pending disk p \<longleftrightarrow>
     hm_get pending p \<noteq> None \<and> map_option (de_hash (de_db E)) (hm_get disk p) = hm_get pending p \<and>
     \<not> ignores (de_db E) p False \<and> goal (localize_path (de_project_dir (de_db E)) p) \<noteq> None"

lemma normalize_file_ok:
  assumes env: "sync_env (de_hasher E) (de_fs E) (de_db E)"
    and coherent: "index_honest (de_hasher E) (de_fs E) ix"
    and goal: "\<And>c. hm_get contents (localize_path (de_project_dir (de_db E)) p) = Some c \<Longrightarrow>
        \<exists>h. to_hash (de_hash (de_db E)) c = Inr h \<and> goal (localize_path (de_project_dir (de_db E)) p) = Some h"
    and no_goal: "hm_get contents (localize_path (de_project_dir (de_db E)) p) = None \<Longrightarrow>
        goal (localize_path (de_project_dir (de_db E)) p) = None"
  shows "\<exists>disk' ix'. normalize_file E contents (p, h) (disk, ix) = Inr (disk', ix') \<and>
    index_honest (de_hasher E) (de_fs E) ix' \<and> (\<forall>q. q \<noteq> p \<longrightarrow> hm_get disk' q = hm_get disk q) \<and>
    (if normalizes E goal [(p, h)] disk p
     then map_option (de_hash (de_db E)) (hm_get disk' p) = goal (localize_path (de_project_dir (de_db E)) p)
     else hm_get disk' p = hm_get disk p)"
proof -
  let ?H = "de_hasher E" and ?l = "localize_path (de_project_dir (de_db E)) p"
  obtain r ix1 where get: "get_hash ?H (fo_env (de_fs E) disk) p ix = (r, ix1)" by fastforce
  from get_hash_honest [OF env coherent, of disk p] get have coherent1: "index_honest ?H (de_fs E) ix1" by simp
  from get_hash_coherent [OF honest_coherent [OF coherent], of disk p] get have
    r: "\<And>x. r = Inr x \<longleftrightarrow> (\<exists>m. fs_metadata (fo_env (de_fs E) disk) p = Inr m) \<and>
       compute_hash ?H (fo_env (de_fs E) disk) p = Inr x" by auto
  have hash: "r = Inr x \<longleftrightarrow> map_option (de_hash (de_db E)) (hm_get disk p) = Some x" for x
    unfolding r sync_env_hash [OF env, symmetric] by (auto simp: file_hash_def split: sum.splits)
  show ?thesis
  proof (cases "r = Inr h \<and> (\<exists>c. hm_get contents ?l = Some c)")
    case False
    then have "normalize_file E contents (p, h) (disk, ix) = Inr (disk, ix1)"
      by (cases r) (auto simp: normalize_file_def get split: option.split)
    moreover have "\<not> normalizes E goal [(p, h)] disk p"
      using False no_goal hash [of h] by (auto simp: normalizes_def)
    ultimately show ?thesis using coherent1 by auto
  next
    case True
    then obtain c where c: "hm_get contents ?l = Some c" and rh: "r = Inr h" by blast
    from goal [OF c] obtain x where x: "to_hash (de_hash (de_db E)) c = Inr x" "goal ?l = Some x" by blast
    from handle_file_update_ok [OF env coherent1 x(1), of p disk] obtain written disk' ix' where
      up: "handle_file_update ?H (de_fs E) (de_db E) p c (disk, ix1) = Inr (written, disk', ix')"
        "\<forall>q. q \<noteq> p \<longrightarrow> hm_get disk' q = hm_get disk q" "index_honest ?H (de_fs E) ix'"
        "changed_to (de_db E) p (Some c) disk disk'" by blast
    have "normalize_file E contents (p, h) (disk, ix) = Inr (disk', ix')"
      using c rh up(1) by (simp add: normalize_file_def get)
    moreover have "normalizes E goal [(p, h)] disk p \<longleftrightarrow> \<not> ignores (de_db E) p False"
      using rh hash [of h] x(2) by (simp add: normalizes_def)
    ultimately show ?thesis using up(2-4) x by (auto simp: changed_to_def content_hash_def)
  qed
qed

lemma normalize_files_ok:
  assumes env: "sync_env (de_hasher E) (de_fs E) (de_db E)"
    and "index_honest (de_hasher E) (de_fs E) ix" and "hm_wf pending"
    and "\<forall>p\<in>set (hm_keys pending). goal (localize_path (de_project_dir (de_db E)) p) =
        content_hash (de_hash (de_db E)) (hm_get contents (localize_path (de_project_dir (de_db E)) p))"
    and "\<forall>l c. hm_get contents l = Some c \<longrightarrow> (\<exists>h. to_hash (de_hash (de_db E)) c = Inr h)"
  shows "\<exists>disk' ix'. fold_res (normalize_file E contents) pending (disk, ix) = Inr (disk', ix') \<and>
    index_honest (de_hasher E) (de_fs E) ix' \<and>
    (\<forall>p. if normalizes E goal pending disk p
         then map_option (de_hash (de_db E)) (hm_get disk' p) = goal (localize_path (de_project_dir (de_db E)) p)
         else hm_get disk' p = hm_get disk p)"
  using assms(2-4)
proof (induction pending arbitrary: disk ix)
  case Nil
  then show ?case by (simp add: normalizes_def)
next
  case (Cons x pending)
  obtain p h where x: "x = (p, h)" by (cases x)
  let ?l = "localize_path (de_project_dir (de_db E)) p"
  have "goal ?l = content_hash (de_hash (de_db E)) (hm_get contents ?l)" using Cons.prems(3) by (simp add: x)
  with assms(5) have "\<And>c. hm_get contents ?l = Some c \<Longrightarrow> \<exists>h. to_hash (de_hash (de_db E)) c = Inr h \<and> goal ?l = Some h"
    "hm_get contents ?l = None \<Longrightarrow> goal ?l = None"
    by (auto simp: content_hash_def)
  from normalize_file_ok [where goal = goal, OF env Cons.prems(1) this, where h = h and disk = disk] obtain disk1 ix1 where
    one: "normalize_file E contents (p, h) (disk, ix) = Inr (disk1, ix1)"
      "index_honest (de_hasher E) (de_fs E) ix1" "\<forall>q. q \<noteq> p \<longrightarrow> hm_get disk1 q = hm_get disk q"
      "if normalizes E goal [(p, h)] disk p then map_option (de_hash (de_db E)) (hm_get disk1 p) = goal ?l
       else hm_get disk1 p = hm_get disk p" by blast
  have wf: "hm_wf pending" "hm_get pending p = None" using Cons.prems(2) by (auto simp: x hm_wf_def map_of_eq_None_iff)
  from Cons.IH [OF one(2) wf(1), of disk1] Cons.prems(3) obtain disk' ix' where
    more: "fold_res (normalize_file E contents) pending (disk1, ix1) = Inr (disk', ix')"
      "index_honest (de_hasher E) (de_fs E) ix'"
      "\<And>q. if normalizes E goal pending disk1 q
         then map_option (de_hash (de_db E)) (hm_get disk' q) = goal (localize_path (de_project_dir (de_db E)) q)
         else hm_get disk' q = hm_get disk1 q" by auto
  have "if normalizes E goal (x # pending) disk q
      then map_option (de_hash (de_db E)) (hm_get disk' q) = goal (localize_path (de_project_dir (de_db E)) q)
      else hm_get disk' q = hm_get disk q" for q
  proof (cases "q = p")
    case True
    then have "\<not> normalizes E goal pending disk1 q" using wf(2) by (simp add: normalizes_def)
    with more(3) [of q] True have "hm_get disk' p = hm_get disk1 p" by simp
    moreover have "normalizes E goal (x # pending) disk p = normalizes E goal [(p, h)] disk p"
      by (simp add: x normalizes_def)
    ultimately show ?thesis using one(4) True by simp
  next
    case False
    with more(3) [of q] one(3) show ?thesis by (simp add: x normalizes_def)
  qed
  with one(1) more(1,2) show ?case by (auto simp: x)
qed

text \<open>C4: writing the normalized files to the disk overwrites a file only when it is pending, is not ignored, has a
  content at the reference and still has on disk the hash that was committed; then it gets the content of
  the reference, which can be read and whose stored hashes are right. A file that was changed since is left
  alone. Nothing stays pending.\<close>

theorem normalization_keeps_changes:
  assumes "driver_env_ok E s" and "good_ref (de_db E) r v files (pd_states (dr_db s))"
    and "hm_wf (dr_normalized s)"
  shows "\<exists>s'. resolve_pending_normalized_files E r s = Inr s' \<and> dr_normalized s' = [] \<and>
    index_honest (de_hasher E) (de_fs E) (dr_index s') \<and>
    (\<forall>p. if normalizes E (hash_of (de_db E) (pd_states (dr_db s)) v files) (dr_normalized s) (dr_disk s) p
         then map_option (de_hash (de_db E)) (hm_get (dr_disk s') p) =
                hash_of (de_db E) (pd_states (dr_db s)) v files (localize_path (de_project_dir (de_db E)) p)
         else hm_get (dr_disk s') p = hm_get (dr_disk s) p)"
proof (cases "dr_normalized s = []")
  case True
  with assms(1) show ?thesis by (simp add: nothing_normalized normalizes_def)
next
  case False
  let ?loc = "localize_path (de_project_dir (de_db E))" and ?db = "pd_states (dr_db s)"
  let ?hash = "hash_of (de_db E) ?db v files"
  from assms(2) have good: "view_at (de_db E) r ?db v" "files_ok (de_am (de_db E)) v files"
    "files_readable (de_db E) ?db v files" by (simp_all add: good_ref_def)
  have "map ?loc (hm_keys (dr_normalized s)) \<noteq> []" using False by simp
  from get_files_at_ref_of [OF good this] obtain cs where
    cs: "get_files_at_ref (de_db E) r (map ?loc (hm_keys (dr_normalized s))) ?db = Inr cs"
    and get: "\<And>l. hm_get cs l = (if l \<in> set (map ?loc (hm_keys (dr_normalized s)))
        then content_of (de_db E) ?db v files l else None)" by blast
  have hashed: "\<exists>h. to_hash (de_hash (de_db E)) c = Inr h" if "content_of (de_db E) ?db v files l = Some c" for l c
  proof -
    from that obtain e where e: "entry_of (de_am (de_db E)) files v l = Some e" "content_at (de_db E) ?db v e l = Inr (Some c)"
      by (auto simp: content_of_def split: option.splits sum.splits)
    with good(3) obtain h where "slow_hash (de_db E) ?db v e l = Inr h" by (auto simp: files_readable_def)
    with e(2) show ?thesis by (auto simp: slow_hash_def rbind_eq_Inr_iff)
  qed
  have "\<forall>p\<in>set (hm_keys (dr_normalized s)). ?hash (?loc p) = content_hash (de_hash (de_db E)) (hm_get cs (?loc p))"
  proof
    fix p
    assume "p \<in> set (hm_keys (dr_normalized s))"
    then have "?loc p \<in> set (map ?loc (hm_keys (dr_normalized s)))" by (simp only: set_map image_eqI)
    then have "hm_get cs (?loc p) = content_of (de_db E) ?db v files (?loc p)" unfolding get by (simp only: if_True)
    with hashed [of "?loc p"] show "?hash (?loc p) = content_hash (de_hash (de_db E)) (hm_get cs (?loc p))"
      by (auto simp: hash_of_def content_hash_def split: option.split)
  qed
  moreover have "\<forall>l c. hm_get cs l = Some c \<longrightarrow> (\<exists>h. to_hash (de_hash (de_db E)) c = Inr h)"
    using hashed get by (auto split: if_splits)
  ultimately obtain disk' ix' where
    "fold_res (normalize_file E cs) (dr_normalized s) (dr_disk s, dr_index s) = Inr (disk', ix')"
    "index_honest (de_hasher E) (de_fs E) ix'"
    "\<forall>p. if normalizes E ?hash (dr_normalized s) (dr_disk s) p
         then map_option (de_hash (de_db E)) (hm_get disk' p) = ?hash (?loc p)
         else hm_get disk' p = hm_get (dr_disk s) p"
    using normalize_files_ok [where goal = ?hash and contents = cs, OF conjunct1 [OF assms(1)] conjunct1 [OF conjunct2 [OF assms(1)]] assms(3)]
    by blast
  then show ?thesis using cs by (simp add: resolve_pending_normalized_files_def)
qed

section \<open>A sync keeps local changes\<close>

lemma nothing_to_check_out:
  assumes "dr_requested s = None" and "dr_ref s = Some r" and "latest_ref E (hr_branch r) s = Some r"
    and "dr_normalized s = []"
  shows "sync_correct_ref E meanwhile s = Inr s"
proof -
  have "get_ref_for_sync E s = (Some r, s)" using assms(1-3) by (simp add: get_ref_for_sync_def Let_def)
  with assms(2,4) show ?thesis by (simp add: sync_correct_ref_def propose_checkout_def checkout_ref_def)
qed

text \<open>Files whose content is written to a branch as it is on disk.\<close>

definition saved_normally :: "('s, 'doc, 'h, 'v, 'o, 'd, 'x) driver_env \<Rightarrow> (string, string) hmap \<Rightarrow> bool" where
  "saved_normally E disk \<longleftrightarrow> (\<forall>p b. hm_get disk p = Some b \<longrightarrow>
     content_hash (de_hash (de_db E)) (committed_content (de_read E) p (Some b)) = Some (de_hash (de_db E) b))"

lemma saved_normally_hash:
  assumes "saved_normally E disk"
  shows "content_hash (de_hash (de_db E)) (committed_content (de_read E) p (hm_get disk p)) =
    map_option (de_hash (de_db E)) (hm_get disk p)"
  using assms by (cases "hm_get disk p") (auto simp: saved_normally_def committed_content_def content_hash_def)

lemma nothing_queued:
  "\<forall>(p, st)\<in>set xs. hash_after_commit st = hash_before_commit st \<Longrightarrow> fold queue_normalized xs [] = []"
  by (induction xs) (auto simp: queue_normalized_def Let_def split: option.split)

lemma commit_statuses_normal:
  assumes env: "sync_env H fs env" and coherent: "index_honest H fs ix"
    and ret: "hm_wf ret" "\<forall>p. hm_get ret p = map_option (content_hash (de_hash env)) (hm_get contents p)"
    and contents: "\<forall>(l, c)\<in>set contents. read_from_disk ro env disk l c"
    and normal: "\<And>p. content_hash (de_hash env) (committed_content ro p (hm_get disk p)) =
        map_option (de_hash env) (hm_get disk p)"
  shows "\<forall>(p, st)\<in>set (commit_statuses env (fst (current_files H fs env disk ix)) ret).
    hash_after_commit st = hash_before_commit st"
proof clarify
  let ?pd = "de_project_dir env" and ?cur = "fst (current_files H fs env disk ix)"
  let ?xs = "map (\<lambda>(path, v). let path = globalize_path ?pd path
       in (path, \<lparr>hash_before_commit = hm_get ?cur path, hash_after_commit = v\<rparr>)) ret"
  fix p st
  assume "(p, st) \<in> set (commit_statuses env ?cur ret)"
  then have "hm_get (hm_collect ?xs) p = Some st"
    by (simp add: commit_statuses_def hm_get_eq_Some_iff)
  then have "(p, st) \<in> set ?xs" unfolding hm_get_collect by (auto dest: map_of_SomeD)
  then obtain l x where l: "(l, x) \<in> set ret" "p = globalize_path ?pd l" "st = \<lparr>hash_before_commit = hm_get ?cur p, hash_after_commit = x\<rparr>"
    by (auto simp: Let_def)
  then have "hm_get ret l = Some x" using ret(1) by (simp add: hm_get_eq_Some_iff)
  with ret(2) obtain c where c: "hm_get contents l = Some c" "x = content_hash (de_hash env) c" by auto
  then have "(l, c) \<in> set contents" by (auto dest: map_of_SomeD)
  with contents have "read_from_disk ro env disk l c" by blast
  then obtain q where q: "l = res_prefix @ q" "relative_ok q" "\<not> ignores env (?pd @ q) False"
    "c = committed_content ro (?pd @ q) (hm_get disk (?pd @ q))" unfolding read_from_disk_def by blast
  have "p = ?pd @ q" using env l(2) q(1,2) globalize_res by (simp add: sync_env_def)
  with current_files_get [OF env coherent] q(3,4) c(2) normal l(3)
  show "hash_after_commit st = hash_before_commit st" by simp
qed

text \<open>The shadow document of the branch has exactly the changes of the branch's document.\<close>

definition in_step :: "('s, 'doc, 'h::linorder, 'v, 'o, 'd, 'x) driver_env \<Rightarrow> ('doc \<Rightarrow> 'c set) \<Rightarrow> 'd \<Rightarrow> 'd list \<Rightarrow>
    ('d, 'doc, 'h) branch_states \<Rightarrow> bool" where
  "in_step E changes b ids db \<longleftrightarrow>
     copy_laws (de_crdt (de_db E)) (de_doc (de_db E)) changes \<and> b \<notin> set ids \<and>
     (\<exists>st d. hm_get (branch_sync_states db) b = Some st \<and> canonical_doc st = b \<and> shadow_doc st = Some d \<and>
        changes d = changes (repo_docs db b) \<and> same_views (de_doc (de_db E)) d (repo_docs db b))"

text \<open>Then the reference of a commit is the latest one on the branch.\<close>

lemma latest_after_commit:
  assumes step: "in_step E changes b ids db"
    and st: "hm_get (branch_sync_states db) b = Some st" "shadow_doc st = Some d"
    and created: "only_created ids db ids' db1"
    and db': "db' = snd (try_reconcile_branch (de_crdt (de_db E)) b (db1\<lparr>branch_sync_states :=
         hm_insert b (st\<lparr>shadow_doc := Some (ad_commit (de_doc (de_db E)) d w m)\<rparr>) (branch_sync_states db1)\<rparr>))"
  shows "get_latest_ref_on_branch (de_db E) b db' =
    Inr (history_ref_new b (am_heads (de_crdt (de_db E)) (ad_commit (de_doc (de_db E)) d w m)))"
proof -
  let ?am = "de_crdt (de_db E)" and ?ad = "de_doc (de_db E)"
  let ?db2 = "db1\<lparr>branch_sync_states := hm_insert b (st\<lparr>shadow_doc := Some (ad_commit ?ad d w m)\<rparr>) (branch_sync_states db1)\<rparr>"
  from step st have laws: "copy_laws ?am ?ad changes" and canon: "canonical_doc st = b"
    and same: "changes d = changes (repo_docs db b)" "same_views ?ad d (repo_docs db b)" and "b \<notin> set ids"
    unfolding in_step_def by auto
  with created have "repo_docs ?db2 b = repo_docs db b" by (simp add: only_created_def)
  with same have same': "changes d = changes (repo_docs ?db2 b)" "same_views ?ad d (repo_docs ?db2 b)" by simp_all
  have "hm_get (branch_sync_states ?db2) b = Some (st\<lparr>shadow_doc := Some (ad_commit ?ad d w m)\<rparr>)"
    by (simp add: hm_get_insert)
  from reconcile_after_commit [OF laws this _ _ same', of w m] canon obtain db3 st3 s3 where
    rec: "try_reconcile_branch ?am b ?db2 = (True, db3)"
    and st3: "hm_get (branch_sync_states db3) b = Some st3" "shadow_doc st3 = Some s3"
    and s3: "changes s3 = changes (ad_commit ?ad d w m)" by auto
  have "crdt_laws ?am changes" using laws by (simp add: copy_laws_def)
  from heads_eq [OF this s3] st3 rec show ?thesis
    by (simp add: db' get_latest_ref_on_branch_def read_shadow_ok history_ref_new_def)
qed

text \<open>A commit of files that are saved the way they are committed.\<close>

lemma commit_saves_disk:
  assumes "driver_env_ok E s" and "force \<or> dr_pending s \<noteq> []" and "dr_normalized s = []"
    and "committable (de_read E) (de_db E) r v files (dr_disk s) (dr_fs_state s)" and "saved_normally E (dr_disk s)"
  shows "\<exists>s' r' idx. commit E r force s = Inr s' \<and> dr_disk s' = dr_disk s \<and> dr_pending s' = [] \<and>
    dr_normalized s' = [] \<and> pd_metadata (dr_db s') = pd_metadata (dr_db s) \<and> hr_branch r' = hr_branch r \<and>
    get_hash_index (de_db E) other_user r' (pd_states (dr_db s')) = Inr (idx, pd_states (dr_db s')) \<and>
    (\<forall>q. relative_ok q \<and> \<not> ignores (de_db E) (de_project_dir (de_db E) @ q) False \<longrightarrow>
       hm_get idx (res_prefix @ q) =
         map_option (de_hash (de_db E)) (hm_get (dr_disk s) (de_project_dir (de_db E) @ q))) \<and>
    (r' = r \<and> dr_ref s' = dr_ref s \<and> pd_states (dr_db s') = pd_states (dr_db s) \<or>
     dr_ref s' = Some r' \<and>
       (in_step E changes (hr_branch r) (pd_ids (dr_db s)) (pd_states (dr_db s)) \<longrightarrow>
        get_latest_ref_on_branch (de_db E) (hr_branch r) (pd_states (dr_db s')) = Inr r'))"
proof -
  let ?env = "de_db E" and ?s = "dr_fs_state s" and ?pd = "de_project_dir (de_db E)"
  from assms(1) have env: "sync_env (de_hasher E) (de_fs E) ?env" and disk: "project_disk ?env (dr_disk s)"
    and coherent: "index_honest (de_hasher E) (de_fs E) (fs_index ?s)"
    by (simp_all add: dr_fs_state_def)
  have "force \<or> fs_pending ?s \<noteq> []" using assms(2) by (simp add: dr_fs_state_def)
  with env coherent disk assms(4) show ?thesis
  proof (cases rule: fs_commit_run [where username = "resolve_username (dr_db s)"])
    case (unchanged ix)
    define s1 where "s1 = dr_put_fs (?s\<lparr>fs_index := ix, fs_pending := []\<rparr>) s"
    have s1: "commit E r force s = Inr s1" by (simp add: commit_def assms(3) unchanged(1) s1_def)
    from assms(4) have view: "view_at ?env r (pd_states (dr_db s)) v" "files_ok (de_am ?env) v files" "all_stored ?env v files"
      by (simp_all add: committable_def dr_fs_state_def)
    from get_hash_index_stored [OF this, of other_user] obtain idx where
      "get_hash_index ?env other_user r (pd_states (dr_db s)) = Inr (idx, pd_states (dr_db s))"
      "\<And>l. hm_get idx l = (if \<not> ignored_path ?env l then stored_at ?env v files l else None)" by blast
    with unchanged(2) have "get_hash_index ?env other_user r (pd_states (dr_db s1)) = Inr (idx, pd_states (dr_db s1)) \<and>
      (\<forall>q. relative_ok q \<and> \<not> ignores ?env (?pd @ q) False \<longrightarrow>
       hm_get idx (res_prefix @ q) = map_option (de_hash ?env) (hm_get (dr_disk s) (?pd @ q)))"
      by (simp add: ignored_res [OF env] s1_def dr_put_fs_def dr_fs_state_def)
    moreover have "dr_disk s1 = dr_disk s" "dr_pending s1 = []" "dr_normalized s1 = []" "dr_db s1 = dr_db s"
      by (simp_all add: s1_def dr_put_fs_def dr_fs_state_def assms(3))
    ultimately show ?thesis using s1 by auto
  next
    case (committed r' ret ids' db' ix contents w d m db1 st)
    define s1 where "s1 = (dr_put_fs (?s\<lparr>fs_index := ix, fs_pending := [], fs_ids := ids', fs_db := db'\<rparr>) s)
      \<lparr>dr_normalized := [], dr_db := (dr_db s)\<lparr>pd_ids := ids', pd_states := db', pd_checked_out := Some r'\<rparr>,
       dr_ingestion := True\<rparr>"
    have "fold queue_normalized (commit_statuses ?env (fst (current_files (de_hasher E) (de_fs E) ?env (dr_disk s) (fs_index ?s))) ret) [] = []"
      using commit_statuses_normal [OF env coherent committed(8-10) saved_normally_hash [OF assms(5)]]
      by (rule nothing_queued)
    then have s1: "commit E r force s = Inr s1"
      by (simp add: commit_def assms(3) committed(1) s1_def dr_put_fs_def)
    have latest: "get_latest_ref_on_branch ?env (hr_branch r) db' = Inr r'"
      if "in_step E changes (hr_branch r) (pd_ids (dr_db s)) (pd_states (dr_db s))"
      using latest_after_commit [of E changes "hr_branch r" "fs_ids ?s" "fs_db ?s", OF _ committed(11,12,14,15)] that
      by (simp add: committed(13) dr_fs_state_def)
    from get_hash_index_stored [OF committed(3-5), of other_user] obtain idx where
      idx: "get_hash_index ?env other_user r' db' = Inr (idx, db')"
      "\<And>l. hm_get idx l = (if \<not> ignored_path ?env l then committed_hash ?env v files contents l else None)"
      unfolding committed(6) by blast
    have "hm_get idx (res_prefix @ q) = map_option (de_hash ?env) (hm_get (dr_disk s) (?pd @ q))"
      if "relative_ok q" "\<not> ignores ?env (?pd @ q) False" for q
      using that committed(7) by (simp add: idx(2) ignored_res [OF env] saved_normally_hash [OF assms(5)])
    moreover have "dr_disk s1 = dr_disk s" "dr_pending s1 = []" "dr_normalized s1 = []"
      "pd_metadata (dr_db s1) = pd_metadata (dr_db s)" "pd_states (dr_db s1) = db'" "dr_ref s1 = Some r'"
      by (simp_all add: s1_def dr_put_fs_def)
    ultimately show ?thesis using s1 idx(1) committed(2) latest by auto
  qed
qed

text \<open>C1: a sync keeps local changes. When files were changed on disk, no normalized file waits, the reference checked
  out is the latest of its branch and no other was asked for, that reference can be committed on (its shadow
  document shows it, its files have stored hashes, the files on disk can be read), and the files are saved
  the way they are committed, the sync commits and leaves the disk as it is, whether or not the editor is
  safe to update and whatever other tasks do: the reference that is checked out afterwards is on the same
  branch, and its index has exactly the hashes of the files on disk.\<close>

theorem sync_keeps_local_changes:
  assumes "driver_env_ok E s" and "dr_ref s = Some r" and "latest_ref E (hr_branch r) s = Some r"
    and "dr_requested s = None" and "dr_pending s \<noteq> []" and "dr_normalized s = []"
    and "committable (de_read E) (de_db E) r v files (dr_disk s) (dr_fs_state s)"
    and "in_step E changes (hr_branch r) (pd_ids (dr_db s)) (pd_states (dr_db s))"
    and "saved_normally E (dr_disk s)"
  shows "\<exists>s' r' idx. sync E meanwhile s = Inr s' \<and> dr_disk s' = dr_disk s \<and> dr_pending s' = [] \<and>
    dr_ref s' = Some r' \<and> hr_branch r' = hr_branch r \<and>
    get_hash_index (de_db E) other_user r' (pd_states (dr_db s')) = Inr (idx, pd_states (dr_db s')) \<and>
    (\<forall>q. relative_ok q \<and> \<not> ignores (de_db E) (de_project_dir (de_db E) @ q) False \<longrightarrow>
       hm_get idx (res_prefix @ q) =
         map_option (de_hash (de_db E)) (hm_get (dr_disk s) (de_project_dir (de_db E) @ q)))"
proof -
  from commit_saves_disk [OF assms(1) disjI2 [OF assms(5)] assms(6,7,9), where other_user = other_user and changes = changes and force = False] assms(8)
  obtain s1 r' idx where
    s1: "commit E r False s = Inr s1" "dr_disk s1 = dr_disk s" "dr_pending s1 = []" "dr_normalized s1 = []"
    and branch: "hr_branch r' = hr_branch r"
    and idx: "get_hash_index (de_db E) other_user r' (pd_states (dr_db s1)) = Inr (idx, pd_states (dr_db s1))"
      "\<forall>q. relative_ok q \<and> \<not> ignores (de_db E) (de_project_dir (de_db E) @ q) False \<longrightarrow>
        hm_get idx (res_prefix @ q) =
          map_option (de_hash (de_db E)) (hm_get (dr_disk s) (de_project_dir (de_db E) @ q))"
    and last: "r' = r \<and> dr_ref s1 = dr_ref s \<and> pd_states (dr_db s1) = pd_states (dr_db s) \<or>
      dr_ref s1 = Some r' \<and> get_latest_ref_on_branch (de_db E) (hr_branch r) (pd_states (dr_db s1)) = Inr r'" by auto
  from last have ref: "dr_ref s1 = Some r'" using assms(2) by auto
  from last assms(3) branch have "latest_ref E (hr_branch r') s1 = Some r'" by (auto simp: latest_ref_def)
  from nothing_to_check_out [OF _ ref this s1(4), of meanwhile] commit_frame(3) [OF s1(1)] assms(4)
  have "sync_correct_ref E meanwhile s1 = Inr s1" by simp
  then have "sync E meanwhile s = Inr s1" using s1(1) assms(2) branch ref by (simp add: sync_def Let_def)
  with s1(2,3) ref branch idx show ?thesis by blast
qed

section \<open>Witnesses\<close>

definition demo_driver_env :: "(string, demo_view list, nat, demo_view, demo_obj, bool, string) driver_env" where
  "demo_driver_env = \<lparr>de_hasher = demo_hasher, de_fs = demo_fs, de_read = demo_read, de_db = demo_db_env, de_meta = demo_meta_ops\<rparr>"

definition demo_driver :: "demo_view list \<Rightarrow> string \<Rightarrow> (bool, demo_view list, nat, string) driver" where
  "demo_driver d b =
     \<lparr>dr_db = \<lparr>pd_default_username = None, pd_authenticated_username = None, pd_states = demo_shadow_db d,
        pd_metadata = None, pd_checked_out = None, pd_ids = [False, False]\<rparr>,
      dr_pending = [], dr_index = \<lparr>ix_keyspace = Some [], ix_db_ok = True\<rparr>, dr_disk = [(''/p/a'', b)],
      dr_normalized = [], dr_requested = None, dr_safe = True, dr_events = [], dr_ingestion = False,
      dr_ref_receivers = True, dr_ref_sent = None\<rparr>"

lemma demo_driver_env_simps [simp]:
  "de_hasher demo_driver_env = demo_hasher" "de_fs demo_driver_env = demo_fs" "de_read demo_driver_env = demo_read"
  "de_db demo_driver_env = demo_db_env" "de_meta demo_driver_env = demo_meta_ops"
  by (simp_all add: demo_driver_env_def)

lemma committable_same:
  "committable ro env r v files disk s \<Longrightarrow> fs_db s' = fs_db s \<Longrightarrow> length (fs_ids s') = length (fs_ids s) \<Longrightarrow>
   committable ro env r v files disk s'"
  by (simp add: committable_def)

lemma demo_relative: "relative_ok ''a''"
  by (simp add: relative_ok_def unix_text_def sep_def starts_with_def)

lemma demo_driver_ok: "driver_env_ok demo_driver_env (demo_driver d b)"
proof -
  have "project_disk demo_db_env [(''/p/a'', b)]"
    using demo_relative by (auto simp: project_disk_def demo_dir)
  then show ?thesis using demo_sync_env honest_empty by (simp add: demo_driver_def)
qed

lemma demo_driver_good: "good_ref demo_db_env (history_ref_new True [1]) demo_first DFiles (demo_shadow_db [demo_first])"
proof -
  have "shadow_kept demo_db_env (history_ref_new True [1]) (demo_shadow_db [demo_first])"
    by (auto simp: shadow_kept_def demo_shadow_db_def history_ref_new_def intro: demo_kept)
  moreover have "view_at demo_db_env (history_ref_new True [1]) (demo_shadow_db [demo_first]) demo_first"
    by (simp add: view_at_def read_shadow_def with_shadow_document_def demo_shadow_db_def demo_ad_def history_ref_new_def)
  moreover have "files_readable demo_db_env db demo_first DFiles" "hashes_true demo_db_env db demo_first DFiles" for db
    by (simp_all add: files_readable_def hashes_true_def demo_first_entry slow_hash_def content_at_def
        demo_first_content demo_first_stored to_hash_def as_bytes_def)
  ultimately show ?thesis using demo_first_files(1) by (simp add: good_ref_def)
qed

lemma demo_driver_hash: "hash_of demo_db_env db demo_first DFiles ''res://a'' = Some ''x''"
  by (simp add: hash_of_def content_of_def content_at_def demo_first_entry [THEN iffD2] demo_first_content
      to_hash_def as_bytes_def)

lemma demo_driver_res: "res_paths demo_doc_ops demo_first DFiles"
  using demo_relative by (auto simp: res_paths_def demo_first_entry res_prefix_def intro!: exI [of _ "''a''"])

lemma demo_driver_latest:
  "pd_states (dr_db s) = demo_shadow_db d \<Longrightarrow> latest_ref demo_driver_env True s = Some (history_ref_new True [length d])"
  by (simp add: latest_ref_def get_latest_ref_on_branch_def read_shadow_def with_shadow_document_def demo_shadow_db_def
      demo_doc_crdt_def)

abbreviation demo_requested :: "(bool, demo_view list, nat, string) driver" where
  "demo_requested \<equiv> (demo_driver [demo_first] ''old'')\<lparr>dr_requested := Some True\<rparr>"

lemma demo_requested_goal:
  "get_ref_for_sync demo_driver_env demo_requested = (Some (history_ref_new True [1]), demo_requested\<lparr>dr_requested := None\<rparr>)"
  using demo_driver_latest [of demo_requested "[demo_first]"] by (simp add: get_ref_for_sync_def demo_driver_def Let_def)

lemma demo_requested_ok:
  "driver_env_ok demo_driver_env demo_requested" "dr_safe demo_requested" "dr_pending demo_requested = []"
  "dr_normalized demo_requested = []" "dr_ref demo_requested \<noteq> Some (history_ref_new True [1])"
  "good_ref (de_db demo_driver_env) (history_ref_new True [1]) demo_first DFiles (pd_states (dr_db demo_requested))"
  "res_paths (de_am (de_db demo_driver_env)) demo_first DFiles" "dr_ref_receivers demo_requested"
  using demo_driver_ok [of "[demo_first]" "''old''"] demo_driver_good demo_driver_res by (simp_all add: demo_driver_def)

theorem sync_checks_out_witness:
  "\<exists>s'. sync demo_driver_env (\<lambda>x. x\<lparr>dr_requested := Some False\<rparr>) demo_requested = Inr s' \<and>
    dr_ref s' = Some (history_ref_new True [1]) \<and> hm_get (dr_disk s') ''/p/a'' = Some ''x'' \<and>
    dr_ref_sent s' = Some (history_ref_new True [1])"
proof -
  have quiet: "quiet_meanwhile (\<lambda>x :: (bool, demo_view list, nat, string) driver. x\<lparr>dr_requested := Some False\<rparr>)"
    by (simp add: quiet_meanwhile_def)
  have "dr_ref demo_requested = None" by (simp add: demo_driver_def)
  moreover note sync_checks_out [OF demo_requested_ok(1-4) demo_requested_goal demo_requested_ok(6,7,5) quiet demo_requested_ok(8)]
  ultimately show ?thesis
    using demo_relative demo_ignores demo_driver_hash
    by (elim exE conjE) (auto simp: demo_dir res_prefix_def dest!: spec [where x = "''a''"])
qed

theorem requested_checkout_lost_witness:
  "\<exists>co t. propose_checkout demo_driver_env demo_requested = Inr (Some co, t) \<and> dr_requested t = None \<and>
    sync_correct_ref demo_driver_env (\<lambda>x. x\<lparr>dr_safe := False\<rparr>) demo_requested = Inr (t\<lparr>dr_safe := False\<rparr>)"
proof -
  from propose_plan [OF demo_requested_ok(1,2) demo_requested_goal demo_requested_ok(6,7,5)] obtain co t where
    co: "propose_checkout demo_driver_env demo_requested = Inr (Some co, t)" by blast
  have "dr_requested demo_requested = Some True"
    "latest_ref demo_driver_env True demo_requested = Some (history_ref_new True [1])"
    using demo_driver_latest [of demo_requested "[demo_first]"] by (simp_all add: demo_driver_def)
  from requested_checkout_lost [OF this co, of "\<lambda>x. x\<lparr>dr_safe := False\<rparr>"] co show ?thesis by auto
qed

theorem sync_writes_only_when_safe_witness:
  "\<exists>s1 co x. propose_checkout demo_driver_env s1 = Inr (co, x) \<and> dr_disk x = [(''/p/a'', ''old'')] \<and>
    (\<exists>s'. sync demo_driver_env id (demo_requested\<lparr>dr_safe := False\<rparr>) = Inr s' \<and> dr_disk s' = dr_disk x)"
proof -
  let ?s = "demo_requested\<lparr>dr_safe := False\<rparr>"
  have ref: "dr_ref ?s = None" and disk: "dr_disk ?s = [(''/p/a'', ''old'')]" by (simp_all add: demo_driver_def)
  then have run: "sync demo_driver_env id ?s = Inr ?s"
    by (simp add: sync_def sync_correct_ref_def propose_checkout_def Let_def)
  from sync_writes_only_when_safe [OF this] obtain s1 co x where
    x: "propose_checkout demo_driver_env s1 = Inr (co, x)" "dr_disk x = dr_disk ?s" by blast
  show ?thesis by (intro exI conjI) (rule x(1), simp only: x(2) disk, rule run, simp only: x(2))
qed

theorem normalization_keeps_changes_witness:
  "\<exists>s'. resolve_pending_normalized_files demo_driver_env (history_ref_new True [1])
      ((demo_driver [demo_first] ''old'')\<lparr>dr_normalized := [(''/p/a'', ''old'')]\<rparr>) = Inr s' \<and>
    hm_get (dr_disk s') ''/p/a'' = Some ''x''"
proof -
  let ?s = "(demo_driver [demo_first] ''old'')\<lparr>dr_normalized := [(''/p/a'', ''old'')]\<rparr>"
  have ok: "driver_env_ok demo_driver_env ?s" "hm_wf (dr_normalized ?s)"
    "good_ref (de_db demo_driver_env) (history_ref_new True [1]) demo_first DFiles (pd_states (dr_db ?s))"
    using demo_driver_ok [of "[demo_first]" "''old''"] demo_driver_good by (simp_all add: demo_driver_def hm_wf_def)
  have local: "localize_path ''/p/'' ''/p/a'' = ''res://a''" by code_simp
  then have "normalizes demo_driver_env (hash_of demo_db_env db demo_first DFiles) (dr_normalized ?s) (dr_disk ?s) ''/p/a''" for db
    using demo_ignores demo_driver_hash by (simp add: normalizes_def demo_driver_def demo_dir)
  with normalization_keeps_changes [OF ok(1,3,2)] local demo_driver_hash show ?thesis
    by (elim exE conjE) (auto simp: demo_dir dest!: spec [where x = "''/p/a''"])
qed

theorem sync_keeps_local_changes_witness:
  "\<exists>s' r' idx. sync demo_driver_env id ((demo_driver [demo_new, demo_old] ''z'')
       \<lparr>dr_pending := [''/p/a''], dr_db := (dr_db (demo_driver [demo_new, demo_old] ''z''))
          \<lparr>pd_checked_out := Some (history_ref_new True [2])\<rparr>\<rparr>) = Inr s' \<and>
    dr_disk s' = [(''/p/a'', ''z'')] \<and> dr_ref s' = Some r' \<and>
    get_hash_index demo_db_env None r' (pd_states (dr_db s')) = Inr (idx, pd_states (dr_db s')) \<and>
    hm_get idx ''res://a'' = Some ''z''"
proof -
  let ?s = "(demo_driver [demo_new, demo_old] ''z'')
       \<lparr>dr_pending := [''/p/a''], dr_db := (dr_db (demo_driver [demo_new, demo_old] ''z''))
          \<lparr>pd_checked_out := Some (history_ref_new True [2])\<rparr>\<rparr>"
  have ok: "driver_env_ok demo_driver_env ?s" "dr_ref ?s = Some (history_ref_new True [2])" "dr_requested ?s = None"
    "dr_pending ?s \<noteq> []" "dr_normalized ?s = []" "pd_states (dr_db ?s) = demo_shadow_db [demo_new, demo_old]"
    "pd_ids (dr_db ?s) = [False, False]" "dr_disk ?s = [(''/p/a'', ''z'')]"
    using demo_driver_ok [of "[demo_new, demo_old]" "''z''"] by (simp_all add: demo_driver_def)
  have branch: "hr_branch (history_ref_new True [2 :: nat]) = True" by (simp add: history_ref_new_def)
  have latest: "latest_ref demo_driver_env (hr_branch (history_ref_new True [2 :: nat])) ?s = Some (history_ref_new True [2])"
    using demo_driver_latest [OF ok(6)] unfolding branch by (simp add: numeral_2_eq_2)
  have committable: "committable (de_read demo_driver_env) (de_db demo_driver_env) (history_ref_new True [2]) demo_new DFiles
      (dr_disk ?s) (dr_fs_state ?s)"
    unfolding ok(8) demo_driver_env_simps
    by (rule committable_same [OF demo_committable]) (simp_all add: dr_fs_state_def demo_state_def demo_driver_def)
  have step: "in_step demo_driver_env (\<lambda>d. {..<length d}) (hr_branch (history_ref_new True [2 :: nat]))
      (pd_ids (dr_db ?s)) (pd_states (dr_db ?s))"
    using demo_copy_laws
    by (simp add: in_step_def branch demo_driver_def demo_shadow_db_def branch_sync_state_new_def same_views_def)
  have saved: "saved_normally demo_driver_env (dr_disk ?s)"
    by (simp add: saved_normally_def ok committed_content_def demo_from_buf content_hash_def to_hash_def as_bytes_def)
  from sync_keeps_local_changes [OF ok(1,2) latest ok(3-5) committable step saved, where other_user = None and meanwhile = id]
  obtain s' r' idx where run: "sync demo_driver_env id ?s = Inr s'" "dr_disk s' = dr_disk ?s" "dr_ref s' = Some r'"
    "get_hash_index (de_db demo_driver_env) None r' (pd_states (dr_db s')) = Inr (idx, pd_states (dr_db s'))"
    and idx: "\<And>q. relative_ok q \<Longrightarrow> \<not> ignores (de_db demo_driver_env) (de_project_dir (de_db demo_driver_env) @ q) False \<Longrightarrow>
      hm_get idx (res_prefix @ q) =
        map_option (de_hash (de_db demo_driver_env)) (hm_get (dr_disk ?s) (de_project_dir (de_db demo_driver_env) @ q))"
    by blast
  have "hm_get idx ''res://a'' = Some ''z''"
    using idx [OF demo_relative] demo_ignores unfolding ok(8) by (simp add: demo_dir res_prefix_def)
  with run show ?thesis unfolding ok(8) by auto
qed

end
