(* ===== verification/Document_Watcher.thy ===== *)
theory Document_Watcher imports Branch_Meta "HOL-Library.Word" begin

text \<open>
  \<open>project/document_watcher.rs\<close>: the tasks that look for the documents of branches and of linked binary files, and
  that ingest them into the database when they are found or change.

  The spawned tasks are values of \<open>task\<close>, each at one of its await points; a step runs one task to its next
  await point. What the repository answers to a \<open>find\<close> is an argument of the step. The ingestion of the
  metadata document, first by \<open>new\<close> and then by the metadata tracker, is a task of its own, which ends when the
  document does not hydrate. Cancelled tasks only disappear and are left out.
\<close>

section \<open>State\<close>

datatype branch_ingest_state = IngestPending | Ingested | IngestFailed

datatype ingest_wait_error = NotTracked | TimedOut

text \<open>The await points: polling with the time counted so far, reading a branch document (for the first time or
  not), tracking its linked documents (those left, of all), reporting the first ingestion, and
  waiting for changes.\<close>

datatype ('d, 'h) task =
    PollBranch 'd "64 word"
  | IngestBranch bool 'd
  | TrackLinked bool 'd "'h list" "'d list" "'d list"
  | MarkIngested 'd
  | WatchBranch 'd
  | PollBinary 'd "64 word"

text \<open>The initial ingestion is to come, the metadata tracker runs, or one of the two has panicked.\<close>

datatype 'd metadata_task = MetaNew 'd | MetaWatch 'd | MetaDead

fun metadata_handle :: "'d metadata_task \<Rightarrow> 'd option" where
  "metadata_handle (MetaNew h) = Some h"
| "metadata_handle (MetaWatch h) = Some h"
| "metadata_handle MetaDead = None"

record ('d, 'doc, 'h) watcher =
  dw_db :: "('d, 'doc, 'h) project_db"
  dw_metadata :: "'d metadata_task"
  dw_tracked :: "('d, branch_ingest_state) hmap"
  dw_tasks :: "('d, 'h) task list"

section \<open>Polling\<close>

text \<open>\<open>Repo::find\<close>: the document or not, or an error of a stopped repository, which is unwrapped.\<close>

datatype find_result = DocFound | DocMissing | FindError

datatype poll_result = PollDone bool | PollAgain "64 word"

definition poll_step :: "64 word \<Rightarrow> find_result \<Rightarrow> 64 word \<Rightarrow> (unit, poll_result) outcome" where
  "poll_step timeout found time =
     (case found of
        FindError \<Rightarrow> Inl Panic
      | DocFound \<Rightarrow> Inr (PollDone True)
      | DocMissing \<Rightarrow>
          let time = time + 500
          in if time > timeout then Inr (PollDone False) else Inr (PollAgain time))"

text \<open>The whole loop, for the answers of the repository to the tries from the \<open>n\<close>-th on: the result, and the
  number of the last try.\<close>

partial_function (option) poll_from ::
  "64 word \<Rightarrow> (nat \<Rightarrow> find_result) \<Rightarrow> nat \<Rightarrow> 64 word \<Rightarrow> ((unit, bool \<times> nat) outcome) option" where
  "poll_from timeout found n time =
     (case poll_step timeout (found n) time of
        Inl e \<Rightarrow> Some (Inl e)
      | Inr (PollDone b) \<Rightarrow> Some (Inr (b, n))
      | Inr (PollAgain time) \<Rightarrow> poll_from timeout found (Suc n) time)"

definition poll_document ::
  "64 word \<Rightarrow> (nat \<Rightarrow> find_result) \<Rightarrow> ((unit, bool \<times> nat) outcome) option" where
  "poll_document timeout found = poll_from timeout found 0 0"

section \<open>Ingestion\<close>

text \<open>The heads of a branch document and the binary documents it links.\<close>

definition ingest_branch_read ::
  "('doc, 'h, 'v, 'o, 'd, 'x) db_env \<Rightarrow> 'doc \<Rightarrow> 'h list \<times> 'd list" where
  "ingest_branch_read env d =
     (let am = de_am env; v = ad_current (de_doc env) d
      in (am_heads (de_crdt env) d,
          case get_obj_id am v (am_root am) ''files'' of
            None \<Rightarrow> []
          | Some files \<Rightarrow>
              map snd (hm_collect (somes (map (\<lambda>path.
                Option.bind (get_obj_id am v files path) (\<lambda>file.
                Option.bind (get_string am v file ''url'') (\<lambda>url.
                map_option (Pair path) (parse_automerge_url (de_io env) url)))) (am_keys am v files))))))"

text \<open>A binary document that the database knows, found or not, is not looked for again.\<close>

definition track_binary_document :: "'d \<Rightarrow> ('d, 'doc, 'h) watcher \<Rightarrow> ('d, 'h) task list" where
  "track_binary_document i w = (if has_binary_doc i (pd_states (dw_db w)) then [] else [PollBinary i 0])"

text \<open>\<open>get_mut\<close> and \<open>send_replace\<close>; a branch that is not tracked is a panic.\<close>

definition set_ingest_state ::
  "'d \<Rightarrow> branch_ingest_state \<Rightarrow> ('d, 'doc, 'h) watcher \<Rightarrow> (unit, ('d, 'doc, 'h) watcher) outcome" where
  "set_ingest_state i s w =
     (if hm_contains (dw_tracked w) i then Inr (w\<lparr>dw_tracked := hm_insert i s (dw_tracked w)\<rparr>) else Inl Panic)"

definition update_states ::
  "(('d, 'doc, 'h) branch_states \<Rightarrow> ('d, 'doc, 'h) branch_states) \<Rightarrow> ('d, 'doc, 'h) watcher \<Rightarrow> ('d, 'doc, 'h) watcher" where
  "update_states f w = w\<lparr>dw_db := (dw_db w)\<lparr>pd_states := f (pd_states (dw_db w))\<rparr>\<rparr>"

text \<open>One task to its next await point: the tasks it becomes. Errors of the ingestion are only logged.\<close>

fun run_task ::
  "('doc, 'h::linorder, 'v, 'o, 'd, 'x) db_env \<Rightarrow> 64 word \<Rightarrow> find_result \<Rightarrow> ('d, 'h) task \<Rightarrow> ('d, 'doc, 'h) watcher \<Rightarrow>
   (unit, ('d, 'h) task list \<times> ('d, 'doc, 'h) watcher) outcome" where
  "run_task env timeout found (PollBranch i time) w =
     rbind (poll_step timeout found time) (\<lambda>r.
     case r of
       PollAgain time \<Rightarrow> Inr ([PollBranch i time], w)
     | PollDone True \<Rightarrow> Inr ([IngestBranch True i], w)
     | PollDone False \<Rightarrow> rbind (set_ingest_state i IngestFailed w) (\<lambda>w. Inr ([], w)))"
| "run_task env timeout found (IngestBranch first i) w =
     (case ingest_branch_read env (repo_docs (pd_states (dw_db w)) i) of
        (heads, linked) \<Rightarrow> Inr ([TrackLinked first i heads linked linked], w))"
| "run_task env timeout found (TrackLinked first i heads (j # js) linked) w =
     Inr (TrackLinked first i heads js linked # track_binary_document j w, w)"
| "run_task env timeout found (TrackLinked first i heads [] linked) w =
     Inr ([if first then MarkIngested i else WatchBranch i],
       update_states (\<lambda>states. snd (update_branch_sync_state (de_crdt env) i heads (remdups linked) states)) w)"
| "run_task env timeout found (MarkIngested i) w =
     rbind (set_ingest_state i Ingested w) (\<lambda>w. Inr ([WatchBranch i], w))"
| "run_task env timeout found (WatchBranch i) w = Inr ([IngestBranch False i], w)"
| "run_task env timeout found (PollBinary i time) w =
     rbind (poll_step timeout found time) (\<lambda>r.
     case r of
       PollAgain time \<Rightarrow> Inr ([PollBinary i time], w)
     | PollDone b \<Rightarrow> Inr ([],
         update_states (\<lambda>states. snd (ingest_binary_doc (de_crdt env) i (if b then Some i else None) states)) w))"

text \<open>The metadata document: new branches are tracked. It must hydrate.\<close>

definition track_branch :: "'d \<Rightarrow> ('d, 'doc, 'h) watcher \<Rightarrow> ('d, 'doc, 'h) watcher" where
  "track_branch i w =
     (if hm_contains (dw_tracked w) i then w
      else w\<lparr>dw_tracked := hm_insert i IngestPending (dw_tracked w), dw_tasks := dw_tasks w @ [PollBranch i 0]\<rparr>)"

definition ingest_metadata_document ::
  "('doc, 'h, 'v, 'o, 'd, 'x) db_env \<Rightarrow> 'v meta_ops \<Rightarrow> 'd \<Rightarrow> ('d, 'doc, 'h) watcher \<Rightarrow>
   (unit, ('d, 'doc, 'h) watcher) outcome" where
  "ingest_metadata_document env mo handle w =
     (case meta_hydrate (de_io env) mo (ad_current (de_doc env) (repo_docs (pd_states (dw_db w)) handle)) of
        Inl _ \<Rightarrow> Inl Panic
      | Inr meta \<Rightarrow>
          Inr (fold track_branch (hm_keys (bm_branches meta)) (w\<lparr>dw_db := set_metadata_state handle meta (dw_db w)\<rparr>)))"

definition run_metadata ::
  "('doc, 'h, 'v, 'o, 'd, 'x) db_env \<Rightarrow> 'v meta_ops \<Rightarrow> ('d, 'doc, 'h) watcher \<Rightarrow> ('d, 'doc, 'h) watcher option" where
  "run_metadata env mo w =
     (case metadata_handle (dw_metadata w) of
        None \<Rightarrow> None
      | Some handle \<Rightarrow> Some
          (case ingest_metadata_document env mo handle w of
             Inl _ \<Rightarrow> w\<lparr>dw_metadata := MetaDead\<rparr> | Inr w' \<Rightarrow> w'\<lparr>dw_metadata := MetaWatch handle\<rparr>))"

text \<open>\<open>wait_for_branch_ingest\<close>: \<open>None\<close> is waiting for the next notification.\<close>

definition wait_for_branch_ingest :: "'d \<Rightarrow> ('d, 'doc, 'h) watcher \<Rightarrow> (ingest_wait_error + unit) option" where
  "wait_for_branch_ingest i w =
     (case hm_get (dw_tracked w) i of
        None \<Rightarrow> Some (Inl NotTracked)
      | Some IngestPending \<Rightarrow> None
      | Some Ingested \<Rightarrow> Some (Inr ())
      | Some IngestFailed \<Rightarrow> Some (Inl TimedOut))"

section \<open>The system\<close>

text \<open>Beside the tasks, other peers change documents, the metadata document is ingested first and again when it
  has changed, and commits are made to shadow documents.\<close>

inductive watcher_task ::
  "('doc, 'h::linorder, 'v, 'o, 'd, 'x) db_env \<Rightarrow> 64 word \<Rightarrow> ('d, 'h) task \<Rightarrow> ('d, 'doc, 'h) watcher \<Rightarrow>
   ('d, 'doc, 'h) watcher \<Rightarrow> bool"
  for env :: "('doc, 'h::linorder, 'v, 'o, 'd, 'x) db_env" and timeout :: "64 word" where
  watcher_run: "dw_tasks w = ts @ t # us \<Longrightarrow> found \<noteq> FindError \<Longrightarrow> run_task env timeout found t w = Inr (new, w') \<Longrightarrow>
     watcher_task env timeout t w (w'\<lparr>dw_tasks := ts @ new @ us\<rparr>)"

inductive watcher_step ::
  "('doc, 'h::linorder, 'v, 'o, 'd, 'x) db_env \<Rightarrow> 'v meta_ops \<Rightarrow> 64 word \<Rightarrow> ('d, 'doc, 'h) watcher \<Rightarrow>
   ('d, 'doc, 'h) watcher \<Rightarrow> bool"
  for env :: "('doc, 'h::linorder, 'v, 'o, 'd, 'x) db_env" and mo :: "'v meta_ops" and timeout :: "64 word" where
  step_task: "watcher_task env timeout t w w' \<Longrightarrow> watcher_step env mo timeout w w'"
| step_metadata: "run_metadata env mo w = Some w' \<Longrightarrow> watcher_step env mo timeout w w'"
| step_remote: "watcher_step env mo timeout w (update_states (\<lambda>states. states\<lparr>repo_docs := docs\<rparr>) w)"
| step_commit: "hm_get (branch_sync_states (pd_states (dw_db w))) b = Some st \<Longrightarrow> shadow_doc st = Some d \<Longrightarrow>
     watcher_step env mo timeout w (update_states (\<lambda>states. states\<lparr>branch_sync_states :=
       hm_insert b (st\<lparr>shadow_doc := Some d'\<rparr>) (branch_sync_states states)\<rparr>) w)"

definition watcher_init :: "('d, 'doc, 'h) watcher \<Rightarrow> bool" where
  "watcher_init w \<longleftrightarrow> (\<exists>handle. dw_metadata w = MetaNew handle) \<and> dw_tracked w = [] \<and> dw_tasks w = [] \<and> pd_metadata (dw_db w) = None \<and>
     binary_states (pd_states (dw_db w)) = [] \<and> branch_sync_states (pd_states (dw_db w)) = []"

text \<open>While no document changes: the tasks but those that wait for changes.\<close>

fun watches :: "('d, 'h) task \<Rightarrow> bool" where
  "watches (WatchBranch _) \<longleftrightarrow> True"
| "watches _ \<longleftrightarrow> False"

definition quiet_step ::
  "('doc, 'h::linorder, 'v, 'o, 'd, 'x) db_env \<Rightarrow> 64 word \<Rightarrow> ('d, 'doc, 'h) watcher \<Rightarrow> ('d, 'doc, 'h) watcher \<Rightarrow> bool" where
  "quiet_step env timeout w w' \<longleftrightarrow> (\<exists>t. \<not> watches t \<and> watcher_task env timeout t w w')"

section \<open>Polling ends\<close>

text \<open>The time does not wrap around: the timeout is at least one step below the largest time.\<close>

definition poll_bounded :: "64 word \<Rightarrow> bool" where
  "poll_bounded timeout \<longleftrightarrow> unat timeout + 500 < 2 ^ 64"

lemma poll_time_add:
  assumes "poll_bounded timeout" and "time \<le> timeout"
  shows "unat (time + 500) = unat time + 500"
proof -
  have "unat time + 500 < 2 ^ 64" using assms by (simp add: poll_bounded_def word_le_nat_alt)
  then show ?thesis by (simp add: unat_word_ariths)
qed

definition polls_left :: "64 word \<Rightarrow> 64 word \<Rightarrow> nat" where
  "polls_left timeout time = (if time \<le> timeout then Suc (unat timeout - unat time) else 2 ^ 65)"

lemma polls_left_pos: "0 < polls_left timeout time"
  by (simp add: polls_left_def)

lemma poll_again:
  assumes "poll_bounded timeout" and "poll_step timeout found time = Inr (PollAgain time')"
  shows "polls_left timeout time' < polls_left timeout time"
proof -
  from assms(2) have t: "time' = time + 500" "time' \<le> timeout"
    by (auto simp: poll_step_def Let_def split: find_result.splits if_splits)
  show ?thesis
  proof (cases "time \<le> timeout")
    case True
    with t poll_time_add [OF assms(1) True] show ?thesis by (simp add: polls_left_def word_le_nat_alt)
  next
    case False
    have "unat timeout < 2 ^ 64" using assms(1) by (simp add: poll_bounded_def)
    then have "Suc (unat timeout - unat time') < 2 ^ 65" by simp
    with t(2) False show ?thesis by (simp add: polls_left_def)
  qed
qed

lemma poll_missing:
  assumes "poll_bounded timeout" and "n \<le> unat timeout div 500"
  shows "poll_step timeout DocMissing (of_nat (500 * n)) =
    Inr (if n = unat timeout div 500 then PollDone False else PollAgain (of_nat (500 * Suc n)))"
proof -
  have le: "500 * n \<le> unat timeout" using assms(2) by (metis div_le_mono mult_le_mono2 div_times_less_eq_dividend mult.commute le_trans)
  moreover have "unat timeout < 2 ^ 64" using assms(1) by (simp add: poll_bounded_def)
  ultimately have "500 * n < 2 ^ 64" by (rule le_less_trans)
  then have n: "unat (of_nat (500 * n) :: 64 word) = 500 * n" by (simp add: unat_of_nat del: of_nat_mult)
  then have "of_nat (500 * n) \<le> timeout" using le by (simp add: word_le_nat_alt)
  from poll_time_add [OF assms(1) this] have "unat (of_nat (500 * n) + 500 :: 64 word) = 500 * Suc n"
    by (simp only: n mult_Suc_right add.commute)
  moreover have "500 * Suc n > unat timeout \<longleftrightarrow> n = unat timeout div 500" using assms(2) by auto
  ultimately have "of_nat (500 * n) + 500 > timeout \<longleftrightarrow> n = unat timeout div 500" by (simp add: word_less_nat_alt)
  then show ?thesis by (simp add: poll_step_def Let_def algebra_simps)
qed

text \<open>C26: looking for a document tries at least once and at most once per 500 ms of the timeout and once more; it
  returns at the first try that finds it, and without the document after the last try.\<close>

theorem poll_document_tries:
  assumes "poll_bounded timeout" and "\<And>n. found n \<noteq> FindError"
  shows "poll_document timeout found =
    Some (Inr (case find (\<lambda>n. found n = DocFound) [0..<Suc (unat timeout div 500)] of
      Some n \<Rightarrow> (True, n) | None \<Rightarrow> (False, unat timeout div 500)))"
proof -
  let ?last = "unat timeout div 500"
  have "poll_from timeout found n (of_nat (500 * n)) =
      Some (Inr (case find (\<lambda>n. found n = DocFound) [n..<Suc ?last] of Some n \<Rightarrow> (True, n) | None \<Rightarrow> (False, ?last)))"
    if "n \<le> ?last" for n
    using that
  proof (induction "?last - n" arbitrary: n)
    case 0
    then have n: "n = ?last" by simp
    show ?case
    proof (cases "found n")
      case DocMissing
      then show ?thesis using poll_missing [OF assms(1) 0(2)] by (subst poll_from.simps) (simp add: n)
    qed (use assms(2) [of n] in \<open>subst poll_from.simps, simp add: n poll_step_def\<close>)+
  next
    case (Suc d)
    then have n: "n < ?last" by simp
    then have range: "[n..<Suc ?last] = n # [Suc n..<Suc ?last]" by (simp add: upt_rec)
    show ?case
    proof (cases "found n")
      case DocMissing
      with n range Suc(1) [of "Suc n"] Suc(2) poll_missing [OF assms(1) Suc(3)] show ?thesis
        by (subst poll_from.simps) simp
    qed (use assms(2) [of n] range in \<open>subst poll_from.simps, simp add: poll_step_def\<close>)+
  qed
  from this [of 0] show ?thesis by (simp add: poll_document_def)
qed

theorem poll_document_tries_witness:
  "poll_document 1200 (\<lambda>n. if n = 2 then DocFound else DocMissing) = Some (Inr (True, 2)) \<and>
   poll_document 900 (\<lambda>n. if n = 2 then DocFound else DocMissing) = Some (Inr (False, 1))"
  using poll_document_tries [of 1200 "\<lambda>n. if n = 2 then DocFound else DocMissing"]
    poll_document_tries [of 900 "\<lambda>n. if n = 2 then DocFound else DocMissing"]
  by (simp add: poll_bounded_def upt_rec)

section \<open>The invariant\<close>

text \<open>The branch that a task tracks, and whether it is its first ingestion.\<close>

fun tracker_of :: "('d, 'h) task \<Rightarrow> ('d \<times> bool) option" where
  "tracker_of (PollBranch i _) = Some (i, True)"
| "tracker_of (IngestBranch first i) = Some (i, first)"
| "tracker_of (TrackLinked first i _ _ _) = Some (i, first)"
| "tracker_of (MarkIngested i) = Some (i, True)"
| "tracker_of (WatchBranch i) = Some (i, False)"
| "tracker_of (PollBinary _ _) = None"

definition trackers :: "'d \<Rightarrow> ('d, 'h) task list \<Rightarrow> bool list" where
  "trackers i ts = concat (map (\<lambda>t. case tracker_of t of Some (k, first) \<Rightarrow> if k = i then [first] else [] | None \<Rightarrow> []) ts)"

definition trackers_for :: "branch_ingest_state option \<Rightarrow> bool list" where
  "trackers_for s = (case s of Some IngestPending \<Rightarrow> [True] | Some Ingested \<Rightarrow> [False] | _ \<Rightarrow> [])"

fun ingested_by :: "('d, 'h) task \<Rightarrow> 'd option" where
  "ingested_by (IngestBranch False i) = Some i"
| "ingested_by (TrackLinked False i _ _ _) = Some i"
| "ingested_by (MarkIngested i) = Some i"
| "ingested_by (WatchBranch i) = Some i"
| "ingested_by _ = None"

text \<open>The binary documents that are known or looked for, and those that a branch links.\<close>

definition awaited :: "('d, 'doc, 'h) branch_states \<Rightarrow> ('d, 'h) task list \<Rightarrow> 'd set" where
  "awaited db ts = {j. has_binary_doc j db \<or> (\<exists>time. PollBinary j time \<in> set ts)}"

definition linked_by :: "('d, 'doc, 'h) branch_states \<Rightarrow> 'd \<Rightarrow> 'd set" where
  "linked_by db b = {j. \<exists>st. hm_get (branch_sync_states db) b = Some st \<and> hm_contains (canonical_binary_docs st) j}"

definition has_branch :: "('d, 'doc, 'h) branch_states \<Rightarrow> 'd \<Rightarrow> bool" where
  "has_branch db b \<longleftrightarrow> hm_get (branch_sync_states db) b \<noteq> None"

definition watcher_inv :: "('d, 'doc, 'h) watcher \<Rightarrow> bool" where
  "watcher_inv w \<longleftrightarrow>
     db_inv (pd_states (dw_db w)) \<and>
     (\<forall>i. trackers i (dw_tasks w) = trackers_for (hm_get (dw_tracked w) i)) \<and>
     (\<forall>h m i. pd_metadata (dw_db w) = Some (h, m) \<and> i \<in> set (hm_keys (bm_branches m)) \<longrightarrow>
        hm_get (dw_tracked w) i \<noteq> None) \<and>
     (\<forall>first i heads js linked. TrackLinked first i heads js linked \<in> set (dw_tasks w) \<longrightarrow>
        set linked \<subseteq> set js \<union> awaited (pd_states (dw_db w)) (dw_tasks w)) \<and>
     (\<forall>b. linked_by (pd_states (dw_db w)) b \<subseteq> awaited (pd_states (dw_db w)) (dw_tasks w)) \<and>
     (\<forall>t\<in>set (dw_tasks w). \<forall>i. ingested_by t = Some i \<longrightarrow> has_branch (pd_states (dw_db w)) i)"

lemma trackers_simps [simp]:
  "trackers i [] = []" "trackers i (ts @ us) = trackers i ts @ trackers i us"
  "trackers i (t # ts) = trackers i [t] @ trackers i ts"
  by (simp_all add: trackers_def)

lemma trackers_one: "trackers i [t] = (case tracker_of t of Some (k, first) \<Rightarrow> if k = i then [first] else [] | None \<Rightarrow> [])"
  by (simp add: trackers_def)

declare trackers_simps(3) [simp del]

lemma trackers_for_simps [simp]:
  "trackers_for None = []" "trackers_for (Some IngestPending) = [True]" "trackers_for (Some Ingested) = [False]"
  "trackers_for (Some IngestFailed) = []"
  by (simp_all add: trackers_for_def)

lemma trackers_for_length: "length (trackers_for s) \<le> 1"
  by (simp add: trackers_for_def split: option.split branch_ingest_state.split)

text \<open>The states of the branches under the operations of the tasks.\<close>

definition merges_succeed :: "('doc, 'h) crdt \<Rightarrow> bool" where
  "merges_succeed am \<longleftrightarrow> (\<forall>d e. fst (am_merge am d e))"

lemma try_reconcile_branch_frame:
  assumes "try_reconcile_branch am b db = (ok, db')"
  shows "linked_by db' = linked_by db" and "has_branch db' = has_branch db"
    and "merges_succeed am \<Longrightarrow> has_branch db b \<Longrightarrow> ok"
proof -
  have "linked_by db' c = linked_by db c \<and> has_branch db' c = has_branch db c \<and>
      (merges_succeed am \<and> has_branch db b \<longrightarrow> ok)" for c
  proof (cases "hm_get (branch_sync_states db) b")
    case None
    with assms show ?thesis by (simp add: try_reconcile_branch_def has_branch_def)
  next
    case (Some st)
    obtain r d st' where t: "try_reconcile am (repo_docs db (canonical_doc st)) st = (r, d, st')"
      by (cases "try_reconcile am (repo_docs db (canonical_doc st)) st")
    have "merges_succeed am \<Longrightarrow> fst r"
      using t by (auto simp: try_reconcile_def merges_succeed_def Let_def split: if_splits prod.splits) (metis fst_conv)+
    moreover have db': "db' = db\<lparr>repo_docs := (repo_docs db)(canonical_doc st := d),
        branch_sync_states := hm_insert b st' (branch_sync_states db)\<rparr>" "ok = fst r"
      using assms Some t by (simp_all add: try_reconcile_branch_def case_prod_unfold)
    ultimately show ?thesis
      using Some try_reconcile_keeps [OF t] by (auto simp: db' linked_by_def has_branch_def hm_get_insert)
  qed
  then show "linked_by db' = linked_by db" "has_branch db' = has_branch db"
    "merges_succeed am \<Longrightarrow> has_branch db b \<Longrightarrow> ok" by (auto simp: fun_eq_iff)
qed

lemma insert_branch_frame:
  assumes "hm_get (branch_sync_states db) b = Some st" and "hm_keys (canonical_binary_docs st') = hm_keys (canonical_binary_docs st)"
  shows "linked_by (db\<lparr>branch_sync_states := hm_insert b st' (branch_sync_states db)\<rparr>) = linked_by db"
    and "has_branch (db\<lparr>branch_sync_states := hm_insert b st' (branch_sync_states db)\<rparr>) = has_branch db"
proof -
  have "hm_contains (canonical_binary_docs st') j = hm_contains (canonical_binary_docs st) j" for j
    unfolding hm_contains_iff assms(2) ..
  with assms(1) show "linked_by (db\<lparr>branch_sync_states := hm_insert b st' (branch_sync_states db)\<rparr>) = linked_by db"
    and "has_branch (db\<lparr>branch_sync_states := hm_insert b st' (branch_sync_states db)\<rparr>) = has_branch db"
    by (auto simp: linked_by_def has_branch_def hm_get_insert fun_eq_iff)
qed

lemma hm_keys_update: "hm_contains m i \<Longrightarrow> hm_keys (hm_insert i v m) = hm_keys m"
  by (simp add: hm_contains_iff update_keys)

lemma ingest_into_frame:
  assumes "merges_succeed am" and "ingest_into am i handle bs db = (ok, db')"
  shows "ok \<and> linked_by db' = linked_by db \<and> has_branch db' = has_branch db"
  using assms(2)
proof (induction bs arbitrary: db)
  case (Cons b bs)
  show ?case
  proof (cases "\<exists>st. hm_get (branch_sync_states db) b = Some st \<and> hm_contains (canonical_binary_docs st) i")
    case True
    then obtain st where st: "hm_get (branch_sync_states db) b = Some st" "hm_contains (canonical_binary_docs st) i" by blast
    let ?db = "db\<lparr>branch_sync_states := hm_insert b (st\<lparr>canonical_binary_docs :=
        hm_insert i (handle_status (Some handle)) (canonical_binary_docs st)\<rparr>) (branch_sync_states db)\<rparr>"
    obtain ok1 db1 where rec: "try_reconcile_branch am b ?db = (ok1, db1)" by fastforce
    have "has_branch ?db b" by (simp add: has_branch_def hm_get_insert)
    then have "ok1" using try_reconcile_branch_frame(3) [OF rec assms(1)] by blast
    then have "ingest_into am i handle bs db1 = (ok, db')" using Cons.prems st rec by simp
    from Cons.IH [OF this] show ?thesis
      using try_reconcile_branch_frame(1,2) [OF rec] st
      by (simp add: insert_branch_frame [OF st(1)] hm_keys_update)
  next
    case False
    then have "ingest_into am i handle bs db = (ok, db')" using Cons.prems by (auto split: option.splits)
    then show ?thesis by (rule Cons.IH)
  qed
qed simp

lemma ingest_binary_frame:
  assumes "merges_succeed am" and "db_inv db"
    and db': "db' = snd (ingest_binary_doc am i handle db)"
  shows "db_inv db' \<and> linked_by db' = linked_by db \<and> has_branch db' = has_branch db \<and>
    (\<forall>j. has_binary_doc j db' \<longleftrightarrow> j = i \<or> has_binary_doc j db)"
proof -
  obtain ok where run: "ingest_binary_doc am i handle db = (ok, db')" by (metis db' prod.collapse)
  let ?db = "db\<lparr>binary_states := hm_insert i handle (binary_states db)\<rparr>"
  have "ingest_into am i handle (hm_keys (branch_sync_states db)) ?db = (ok, db')"
    using run by (simp add: ingest_binary_doc_def)
  from ingest_into_frame [OF assms(1) this] have "ok" "linked_by db' = linked_by ?db" "has_branch db' = has_branch ?db" by auto
  moreover have "linked_by ?db = linked_by db" "has_branch ?db = has_branch db"
    by (simp_all add: linked_by_def has_branch_def fun_eq_iff)
  moreover have "states_ok {} i db" using assms(2) by (rule states_ok_empty [THEN iffD1])
  then have ok: "states_ok {} i db'" "binary_states db' = hm_insert i handle (binary_states db)"
    using ingest_binary_doc_ok [of i db am handle db'] run \<open>ok\<close> by simp_all
  moreover have "db_inv db'" using ok(1) by (rule states_ok_empty [THEN iffD1])
  moreover have "has_binary_doc j db' \<longleftrightarrow> j = i \<or> has_binary_doc j db" for j
    by (simp add: has_binary_doc_def ok(2) hm_contains_def hm_get_insert)
  ultimately show ?thesis by simp
qed

lemma update_branch_frame:
  assumes "db_inv db"
    and db': "db' = snd (update_branch_sync_state am i heads linked db)"
  shows "db_inv db' \<and> linked_by db' = (linked_by db)(i := set linked) \<and>
    (\<forall>b. has_branch db' b \<longleftrightarrow> b = i \<or> has_branch db b) \<and> (\<forall>j. has_binary_doc j db' \<longleftrightarrow> has_binary_doc j db)"
proof -
  obtain ok where run: "update_branch_sync_state am i heads linked db = (ok, db')" by (metis db' prod.collapse)
  let ?old = "case hm_get (branch_sync_states db) i of None \<Rightarrow> branch_sync_state_new i | Some st \<Rightarrow> st"
  let ?st = "?old\<lparr>canonical_binary_docs := hm_collect (map (\<lambda>i. (i, handle_status (hm_get (binary_states db) i))) linked),
    last_tracked := heads\<rparr>"
  let ?db = "db\<lparr>branch_sync_states := hm_insert i ?st (branch_sync_states db)\<rparr>"
  have "linked_by ?db b = ((linked_by db)(i := set linked)) b" "has_branch ?db b \<longleftrightarrow> b = i \<or> has_branch db b" for b
    by (auto simp: linked_by_def has_branch_def hm_get_insert hm_contains_def linked_docs_status)
  then have frame: "linked_by ?db = (linked_by db)(i := set linked)" "\<forall>b. has_branch ?db b \<longleftrightarrow> b = i \<or> has_branch db b"
    by blast+
  have "db' = ?db \<or> (\<exists>ok. try_reconcile_branch am i ?db = (ok, db'))"
    using run by (auto simp: update_branch_sync_state_def Let_def split: if_splits)
  then have "linked_by db' = linked_by ?db \<and> has_branch db' = has_branch ?db"
  proof
    assume "\<exists>ok. try_reconcile_branch am i ?db = (ok, db')"
    then obtain ok where "try_reconcile_branch am i ?db = (ok, db')" ..
    from try_reconcile_branch_frame(1,2) [OF this] show ?thesis by simp
  qed simp
  with frame update_branch_ok [of undefined db am i heads linked ok db'] run assms(1)
  show ?thesis by (simp add: has_binary_doc_def)
qed

text \<open>Replacing a task by what it becomes.\<close>

lemma watcher_inv_replace:
  assumes inv: "watcher_inv w" and tasks: "dw_tasks w = ts @ t # us"
    and db: "db_inv (pd_states (dw_db w'))" "pd_metadata (dw_db w') = pd_metadata (dw_db w)"
    and tracked: "dw_tracked w' = dw_tracked w \<and> (\<forall>i. trackers i new = trackers i [t]) \<or>
      (\<exists>i s first. tracker_of t = Some (i, first) \<and> dw_tracked w' = hm_insert i s (dw_tracked w) \<and>
         (\<forall>k. trackers k new = (if k = i then trackers_for (Some s) else [])))"
    and binaries: "\<And>j. has_binary_doc j (pd_states (dw_db w)) \<Longrightarrow> has_binary_doc j (pd_states (dw_db w'))"
    and polled: "\<And>j time. t = PollBinary j time \<Longrightarrow> j \<in> awaited (pd_states (dw_db w')) new"
    and links: "\<And>first i heads js linked. TrackLinked first i heads js linked \<in> set new \<Longrightarrow>
      set linked \<subseteq> set js \<union> awaited (pd_states (dw_db w)) (dw_tasks w) \<union> awaited (pd_states (dw_db w')) new"
    and linked: "\<And>b. linked_by (pd_states (dw_db w')) b \<subseteq>
      awaited (pd_states (dw_db w)) (dw_tasks w) \<union> awaited (pd_states (dw_db w')) new"
    and branches: "\<And>b. has_branch (pd_states (dw_db w)) b \<Longrightarrow> has_branch (pd_states (dw_db w')) b"
    and ingested: "\<And>x i. x \<in> set new \<Longrightarrow> ingested_by x = Some i \<Longrightarrow> has_branch (pd_states (dw_db w')) i"
  shows "watcher_inv (w'\<lparr>dw_tasks := ts @ new @ us\<rparr>)"
proof -
  let ?A = "awaited (pd_states (dw_db w)) (dw_tasks w)" and ?A' = "awaited (pd_states (dw_db w')) (ts @ new @ us)"
  have new: "awaited (pd_states (dw_db w')) new \<subseteq> ?A'" by (auto simp: awaited_def)
  moreover have "?A \<subseteq> ?A'" using binaries polled by (fastforce simp: awaited_def tasks)
  ultimately have more: "?A \<union> awaited (pd_states (dw_db w')) new \<subseteq> ?A'" by blast
  have old: "trackers i (ts @ t # us) = trackers_for (hm_get (dw_tracked w) i)" for i
    using inv by (simp only: watcher_inv_def tasks)
  have "trackers i (ts @ new @ us) = trackers_for (hm_get (dw_tracked w') i)" for i
    using tracked
  proof (elim disjE exE conjE)
    assume "dw_tracked w' = dw_tracked w" "\<forall>i. trackers i new = trackers i [t]"
    with old [of i] show ?thesis by (simp add: trackers_simps(3) [of _ t us])
  next
    fix k s first
    assume t: "tracker_of t = Some (k, first)" and new: "dw_tracked w' = hm_insert k s (dw_tracked w)"
      "\<forall>j. trackers j new = (if j = k then trackers_for (Some s) else [])"
    have "trackers k [t] = [first]" using t by (simp add: trackers_one)
    moreover have "length (trackers k (ts @ t # us)) \<le> 1" unfolding old by (rule trackers_for_length)
    ultimately have "trackers k ts = [] \<and> trackers k us = []" by (simp add: trackers_simps(3) [of _ t us])
    moreover have "trackers i [t] = []" if "i \<noteq> k" using t that by (simp add: trackers_one)
    ultimately show ?thesis using old [of i] new by (auto simp: hm_get_insert trackers_simps(3) [of _ t us])
  qed
  moreover have "hm_get (dw_tracked w') i \<noteq> None" if "hm_get (dw_tracked w) i \<noteq> None" for i
    using tracked that by (auto simp: hm_get_insert)
  then have "\<forall>h m i. pd_metadata (dw_db w') = Some (h, m) \<and> i \<in> set (hm_keys (bm_branches m)) \<longrightarrow> hm_get (dw_tracked w') i \<noteq> None"
    using inv unfolding watcher_inv_def db(2) by blast
  moreover have "set l \<subseteq> set js \<union> ?A'" if "TrackLinked first i heads js l \<in> set (ts @ new @ us)" for first i heads js l
  proof (cases "TrackLinked first i heads js l \<in> set new")
    case True
    with links more show ?thesis by blast
  next
    case False
    with that have "TrackLinked first i heads js l \<in> set (dw_tasks w)" by (auto simp: tasks)
    then have "set l \<subseteq> set js \<union> ?A" using inv unfolding watcher_inv_def by blast
    with more show ?thesis by blast
  qed
  moreover have "linked_by (pd_states (dw_db w')) b \<subseteq> ?A'" for b using linked more by blast
  moreover have "has_branch (pd_states (dw_db w')) i" if x: "x \<in> set (ts @ new @ us)" "ingested_by x = Some i" for x i
  proof (cases "x \<in> set new")
    case True
    with ingested x(2) show ?thesis by blast
  next
    case False
    with x(1) have "x \<in> set (dw_tasks w)" by (auto simp: tasks)
    with x(2) inv branches show ?thesis unfolding watcher_inv_def by blast
  qed
  ultimately show ?thesis using db(1) by (simp add: watcher_inv_def)
qed

lemma watcher_inv_parts:
  assumes "watcher_inv w"
  shows "db_inv (pd_states (dw_db w))"
    and "TrackLinked first i heads js linked \<in> set (dw_tasks w) \<Longrightarrow>
      set linked \<subseteq> set js \<union> awaited (pd_states (dw_db w)) (dw_tasks w)"
    and "j \<in> linked_by (pd_states (dw_db w)) b \<Longrightarrow> j \<in> awaited (pd_states (dw_db w)) (dw_tasks w)"
    and "t \<in> set (dw_tasks w) \<Longrightarrow> ingested_by t = Some i \<Longrightarrow> has_branch (pd_states (dw_db w)) i"
  using assms unfolding watcher_inv_def by blast+

lemma set_ingest_state_Inr:
  "set_ingest_state i s w = Inr w' \<longleftrightarrow>
     hm_contains (dw_tracked w) i \<and> w' = w\<lparr>dw_tracked := hm_insert i s (dw_tracked w)\<rparr>"
  by (auto simp: set_ingest_state_def)

lemma run_task_inv:
  assumes inv: "watcher_inv w" and tasks: "dw_tasks w = ts @ t # us" and merges: "merges_succeed (de_crdt env)"
    and run: "run_task env timeout found t w = Inr (new, w')"
  shows "watcher_inv (w'\<lparr>dw_tasks := ts @ new @ us\<rparr>)"
proof -
  note parts = watcher_inv_parts [OF inv]
  have t: "t \<in> set (dw_tasks w)" by (simp add: tasks)
  show ?thesis
  proof (cases t)
    case (PollBranch i time)
    with run obtain r where r: "poll_step timeout found time = Inr r" by (auto simp: rbind_eq_Inr_iff)
    have "(\<exists>time'. new = [PollBranch i time'] \<and> w' = w) \<or> new = [IngestBranch True i] \<and> w' = w \<or>
      new = [] \<and> w' = w\<lparr>dw_tracked := hm_insert i IngestFailed (dw_tracked w)\<rparr>"
    proof (cases r)
      case (PollDone b)
      with run PollBranch r show ?thesis by (cases b) (auto simp: rbind_eq_Inr_iff set_ingest_state_Inr)
    qed (use run PollBranch r in auto)
    then consider time' where "new = [PollBranch i time']" "w' = w" | "new = [IngestBranch True i]" "w' = w"
      | "new = []" "w' = w\<lparr>dw_tracked := hm_insert i IngestFailed (dw_tracked w)\<rparr>" by blast
    then show ?thesis
      by cases ((intro watcher_inv_replace [OF inv tasks];
          auto simp: PollBranch parts(1) trackers_one intro: parts(3))+)
  next
    case (IngestBranch first i)
    then obtain heads linked where new: "new = [TrackLinked first i heads linked linked]" "w' = w"
      using run by (auto split: prod.splits)
    have "first \<or> has_branch (pd_states (dw_db w)) i" using parts(4) [OF t] IngestBranch by (cases first) auto
    with new IngestBranch parts show ?thesis
      by (intro watcher_inv_replace [OF inv tasks]) (auto simp: trackers_one elim!: ingested_by.elims intro: parts(3))
  next
    case (TrackLinked first i heads js linked)
    show ?thesis
    proof (cases js)
      case Nil
      let ?db = "pd_states (dw_db w)"
      from run TrackLinked Nil have new: "new = [if first then MarkIngested i else WatchBranch i]"
        "w' = update_states (\<lambda>states. snd (update_branch_sync_state (de_crdt env) i heads (remdups linked) states)) w" by auto
      then have "pd_states (dw_db w') = snd (update_branch_sync_state (de_crdt env) i heads (remdups linked) ?db)"
        by (simp add: update_states_def)
      from update_branch_frame [OF parts(1) this] have db': "db_inv (pd_states (dw_db w'))"
        "linked_by (pd_states (dw_db w')) = (linked_by ?db)(i := set linked)"
        "\<forall>b. has_branch (pd_states (dw_db w')) b \<longleftrightarrow> b = i \<or> has_branch ?db b"
        "\<forall>j. has_binary_doc j (pd_states (dw_db w')) \<longleftrightarrow> has_binary_doc j ?db" by auto
      have "set linked \<subseteq> awaited ?db (dw_tasks w)" using parts(2) t unfolding TrackLinked Nil by fastforce
      with db' new parts(3) TrackLinked show ?thesis
        by (intro watcher_inv_replace [OF inv tasks]) (auto simp: trackers_one update_states_def split: if_splits intro: parts(3))
    next
      case (Cons j js')
      with run TrackLinked have new: "new = TrackLinked first i heads js' linked # track_binary_document j w" "w' = w"
        by auto
      have link: "set linked \<subseteq> set js \<union> awaited (pd_states (dw_db w)) (dw_tasks w)"
        using parts(2) t unfolding TrackLinked by blast
      have j: "j \<in> awaited (pd_states (dw_db w)) (dw_tasks w) \<union> awaited (pd_states (dw_db w)) new"
        by (auto simp: new(1) track_binary_document_def awaited_def)
      have "first \<or> has_branch (pd_states (dw_db w)) i" using parts(4) [OF t] TrackLinked by (cases first) auto
      moreover have trackers: "trackers k new = trackers k [t]" for k
        by (simp add: new(1) trackers_simps(3) [of k _ "track_binary_document j w"])
          (simp add: TrackLinked track_binary_document_def trackers_one)
      ultimately show ?thesis
      proof (intro watcher_inv_replace [OF inv tasks], goal_cases)
        case (6 f i' hs js'' l)
        then have "js'' = js'" "l = linked" by (auto simp: new(1) track_binary_document_def split: if_splits)
        with link j Cons show ?case by (auto simp: new(2))
      qed (use parts TrackLinked new in \<open>auto simp: track_binary_document_def split: if_splits elim!: ingested_by.elims intro: parts(3)\<close>)
    qed
  next
    case (MarkIngested i)
    with run have new: "new = [WatchBranch i]" "w' = w\<lparr>dw_tracked := hm_insert i Ingested (dw_tracked w)\<rparr>"
      by (auto simp: rbind_eq_Inr_iff set_ingest_state_Inr)
    with MarkIngested parts(1,3) parts(4) [OF t, of i] show ?thesis
      by (intro watcher_inv_replace [OF inv tasks]) (auto simp: trackers_one intro: parts(3))
  next
    case (WatchBranch i)
    with run parts(1,3) parts(4) [OF t, of i] show ?thesis
      by (intro watcher_inv_replace [OF inv tasks]) (auto simp: trackers_one intro: parts(3))
  next
    case (PollBinary j time)
    let ?db = "pd_states (dw_db w)"
    from run PollBinary obtain r where r: "poll_step timeout found time = Inr r" by (auto simp: rbind_eq_Inr_iff)
    from run PollBinary r consider time' where "new = [PollBinary j time']" "w' = w"
      | b where "new = []" "w' = update_states (\<lambda>states. snd (ingest_binary_doc (de_crdt env) j (if b then Some j else None) states)) w"
      by (cases r) auto
    then show ?thesis
    proof cases
      case 1
      with PollBinary parts show ?thesis
        by (intro watcher_inv_replace [OF inv tasks]) (auto simp: trackers_one awaited_def dest: parts(3))
    next
      case 2
      then have "pd_states (dw_db w') = snd (ingest_binary_doc (de_crdt env) j (if b then Some j else None) ?db)"
        by (simp add: update_states_def)
      from ingest_binary_frame [OF merges parts(1) this] have db': "db_inv (pd_states (dw_db w'))"
        "linked_by (pd_states (dw_db w')) = linked_by ?db" "has_branch (pd_states (dw_db w')) = has_branch ?db"
        "\<forall>i. has_binary_doc i (pd_states (dw_db w')) \<longleftrightarrow> i = j \<or> has_binary_doc i ?db" by auto
      have "j \<in> awaited (pd_states (dw_db w')) []" using db'(4) by (simp add: awaited_def)
      with db' 2 PollBinary parts(3) show ?thesis
        by (intro watcher_inv_replace [OF inv tasks]) (auto simp: trackers_one update_states_def intro: parts(3))
    qed
  qed
qed

lemma track_branch_inv:
  assumes "watcher_inv w"
  shows "watcher_inv (track_branch i w)"
proof (cases "hm_contains (dw_tracked w) i")
  case False
  then have "hm_get (dw_tracked w) i = None" by (simp add: hm_contains_def)
  moreover have "trackers k (dw_tasks w) = trackers_for (hm_get (dw_tracked w) k)" for k
    using assms by (simp add: watcher_inv_def)
  ultimately have "trackers k (dw_tasks w @ [PollBranch i 0]) =
      trackers_for (hm_get (hm_insert i IngestPending (dw_tracked w)) k)" for k
    by (simp add: trackers_one hm_get_insert)
  moreover have "awaited db (dw_tasks w @ [PollBranch i 0]) = awaited db (dw_tasks w)" for db :: "('a, 'b, 'c) branch_states"
    by (auto simp: awaited_def)
  moreover have "track_branch i w = w\<lparr>dw_tracked := hm_insert i IngestPending (dw_tracked w),
      dw_tasks := dw_tasks w @ [PollBranch i 0]\<rparr>" using False by (simp add: track_branch_def)
  ultimately show ?thesis
    using assms unfolding watcher_inv_def by (simp add: hm_get_insert ball_Un) blast
qed (use assms in \<open>simp add: track_branch_def\<close>)

lemma track_branches_inv: "watcher_inv w \<Longrightarrow> watcher_inv (fold track_branch is w)"
  by (induction "is" arbitrary: w) (simp_all add: track_branch_inv)

lemma track_branches_db: "fold track_branch is (w\<lparr>dw_db := db\<rparr>) = (fold track_branch is w)\<lparr>dw_db := db\<rparr>"
proof (induction "is" arbitrary: w)
  case (Cons i "is")
  have "track_branch i (w\<lparr>dw_db := db\<rparr>) = (track_branch i w)\<lparr>dw_db := db\<rparr>" by (simp add: track_branch_def)
  with Cons show ?case by simp
qed simp

lemma track_branches_tracked:
  "hm_get (dw_tracked (fold track_branch is w)) i \<noteq> None \<longleftrightarrow> hm_get (dw_tracked w) i \<noteq> None \<or> i \<in> set is"
proof (induction "is" arbitrary: w)
  case (Cons k "is")
  have "hm_get (dw_tracked (track_branch k w)) i \<noteq> None \<longleftrightarrow> hm_get (dw_tracked w) i \<noteq> None \<or> i = k"
    by (auto simp: track_branch_def hm_contains_def hm_get_insert)
  with Cons show ?case by auto
qed simp

lemma ingest_metadata_inv:
  assumes "watcher_inv w" and "ingest_metadata_document env mo h w = Inr w'"
  shows "watcher_inv w'"
proof -
  from assms(2) obtain m where
    w': "w' = fold track_branch (hm_keys (bm_branches m)) (w\<lparr>dw_db := set_metadata_state h m (dw_db w)\<rparr>)"
    by (auto simp: ingest_metadata_document_def split: sum.splits)
  let ?w = "fold track_branch (hm_keys (bm_branches m)) w"
  have "dw_db (fold track_branch ks w) = dw_db w" for ks
    by (induction ks arbitrary: w) (simp_all add: track_branch_def)
  moreover have "watcher_inv ?w" using assms(1) by (rule track_branches_inv)
  ultimately show ?thesis
    unfolding w' track_branches_db using track_branches_tracked [of "hm_keys (bm_branches m)" w]
    by (simp add: watcher_inv_def set_metadata_state_def)
qed

lemma watcher_inv_metadata: "watcher_inv (w\<lparr>dw_metadata := x\<rparr>) \<longleftrightarrow> watcher_inv w"
  by (simp add: watcher_inv_def)

lemma run_metadata_inv:
  assumes "watcher_inv w" and "run_metadata env mo w = Some w'"
  shows "watcher_inv w'"
  using assms(2) assms(1) ingest_metadata_inv [OF assms(1)]
  by (auto simp: run_metadata_def watcher_inv_metadata split: option.splits sum.splits)

lemma states_frame_inv:
  assumes "watcher_inv w" and "db_inv db" "linked_by db = linked_by (pd_states (dw_db w))"
    and "has_branch db = has_branch (pd_states (dw_db w))" "binary_states db = binary_states (pd_states (dw_db w))"
  shows "watcher_inv (update_states (\<lambda>_. db) w)"
proof -
  have "awaited db (dw_tasks w) = awaited (pd_states (dw_db w)) (dw_tasks w)"
    by (simp add: awaited_def has_binary_doc_def assms(5))
  with assms(1-4) show ?thesis unfolding watcher_inv_def by (simp add: update_states_def) blast
qed

lemma watcher_step_inv:
  assumes merges: "merges_succeed (de_crdt env)" and inv: "watcher_inv w" and "watcher_step env mo timeout w w'"
  shows "watcher_inv w'"
  using assms(3)
proof cases
  case (step_task t)
  then show ?thesis by cases (use run_task_inv [OF inv _ merges] in blast)
next
  case step_metadata
  with run_metadata_inv [OF inv] show ?thesis by blast
next
  case (step_remote docs)
  let ?db = "(pd_states (dw_db w))\<lparr>repo_docs := docs\<rparr>"
  have "db_inv ?db" using watcher_inv_parts(1) [OF inv] by (simp add: states_ok_def)
  moreover have "linked_by ?db = linked_by (pd_states (dw_db w))" "has_branch ?db = has_branch (pd_states (dw_db w))"
    by (simp_all add: linked_by_def has_branch_def fun_eq_iff)
  ultimately show ?thesis using states_frame_inv [OF inv, of ?db] step_remote by (simp add: update_states_def)
next
  case (step_commit b st d d')
  let ?db = "(pd_states (dw_db w))\<lparr>branch_sync_states :=
    hm_insert b (st\<lparr>shadow_doc := Some d'\<rparr>) (branch_sync_states (pd_states (dw_db w)))\<rparr>"
  have "branch_ok {} undefined (binary_states (pd_states (dw_db w))) b (st\<lparr>shadow_doc := Some d'\<rparr>)"
    using watcher_inv_parts(1) [OF inv] step_commit(2) by (simp add: states_ok_def branch_ok_def)
  then have "db_inv ?db" using watcher_inv_parts(1) [OF inv] by (simp add: states_ok_def hm_get_insert)
  moreover have "hm_keys (canonical_binary_docs (st\<lparr>shadow_doc := Some d'\<rparr>)) = hm_keys (canonical_binary_docs st)" by simp
  ultimately show ?thesis
    using states_frame_inv [OF inv, of ?db] insert_branch_frame [OF step_commit(2)] step_commit(1) by (simp add: update_states_def)
qed

text \<open>The watcher as a system of steps with its invariant, where no merge fails.\<close>

interpretation watcher_runs: step_system watcher_init
  "\<lambda>w w'. merges_succeed (de_crdt env) \<and> watcher_step env mo timeout w w'" watcher_inv
  for env :: "('doc, 'h::linorder, 'v, 'o, 'd, 'x) db_env" and mo timeout
proof unfold_locales
  fix w :: "('d, 'doc, 'h) watcher"
  assume "watcher_init w"
  then show "watcher_inv w" by (simp add: watcher_init_def watcher_inv_def states_ok_def awaited_def linked_by_def)
qed (use watcher_step_inv in blast)

lemma reachable_inv:
  assumes "merges_succeed (de_crdt env)" and "reachable watcher_init (watcher_step env mo timeout) w"
  shows "watcher_inv w"
proof -
  have "(\<lambda>w w'. merges_succeed (de_crdt env) \<and> watcher_step env mo timeout w w') = watcher_step env mo timeout"
    using assms(1) by simp
  with assms(2) watcher_runs.inv_reachable [of env mo timeout w] show ?thesis by simp
qed

section \<open>Tasks run and end\<close>

lemma trackers_tracked:
  assumes "watcher_inv w" and "t \<in> set (dw_tasks w)" and "tracker_of t = Some (i, first)"
  shows "hm_contains (dw_tracked w) i \<and> (first \<longrightarrow> hm_get (dw_tracked w) i = Some IngestPending)"
proof -
  have "first \<in> set (trackers i (dw_tasks w))" using assms(2,3) by (force simp: trackers_def)
  then have "first \<in> set (trackers_for (hm_get (dw_tracked w) i))" using assms(1) by (simp add: watcher_inv_def)
  then show ?thesis
    by (cases "hm_get (dw_tracked w) i"; cases "the (hm_get (dw_tracked w) i)") (simp_all add: hm_contains_def)
qed

text \<open>The tasks that look for a document.\<close>

fun polls :: "('d, 'h) task \<Rightarrow> bool" where
  "polls (PollBranch _ _) \<longleftrightarrow> True"
| "polls (PollBinary _ _) \<longleftrightarrow> True"
| "polls _ \<longleftrightarrow> False"

lemma run_task_runs:
  assumes "watcher_inv w" and "t \<in> set (dw_tasks w)" and "found \<noteq> FindError \<or> \<not> polls t"
  shows "\<exists>r. run_task env timeout found t w = Inr r"
proof -
  have runs: "\<exists>r. poll_step timeout found time = Inr r" if "polls t" for time
    using assms(3) that by (cases found) (auto simp: poll_step_def Let_def)
  show ?thesis
  proof (cases t)
    case (PollBranch i time)
    with trackers_tracked [OF assms(1,2)] have "hm_contains (dw_tracked w) i" by simp
    moreover obtain r where "poll_step timeout found time = Inr r" using runs PollBranch by auto
    ultimately show ?thesis
      by (simp add: PollBranch set_ingest_state_def split: poll_result.split bool.split)
  next
    case (TrackLinked first i heads js linked)
    then show ?thesis by (cases js) simp_all
  next
    case (MarkIngested i)
    with trackers_tracked [OF assms(1,2)] show ?thesis by (simp add: set_ingest_state_def)
  next
    case (PollBinary j time)
    moreover obtain r where "poll_step timeout found time = Inr r" using runs PollBinary by auto
    ultimately show ?thesis by (cases r) simp_all
  qed (simp_all add: case_prod_unfold)
qed

text \<open>What each kind of task still has to do.\<close>

fun branch_polls :: "64 word \<Rightarrow> ('d, 'h) task \<Rightarrow> nat" where
  "branch_polls timeout (PollBranch _ time) = polls_left timeout time"
| "branch_polls timeout _ = 0"

fun reads_left :: "('d, 'h) task \<Rightarrow> nat" where
  "reads_left (IngestBranch _ _) = 1"
| "reads_left _ = 0"

fun links_left :: "('d, 'h) task \<Rightarrow> nat" where
  "links_left (TrackLinked _ _ _ js _) = Suc (length js)"
| "links_left _ = 0"

fun marks_left :: "('d, 'h) task \<Rightarrow> nat" where
  "marks_left (MarkIngested _) = 1"
| "marks_left _ = 0"

fun binary_polls :: "64 word \<Rightarrow> ('d, 'h) task \<Rightarrow> nat" where
  "binary_polls timeout (PollBinary _ time) = polls_left timeout time"
| "binary_polls timeout _ = 0"

abbreviation work :: "(('d, 'h) task \<Rightarrow> nat) \<Rightarrow> ('d, 'doc, 'h) watcher \<Rightarrow> nat" where
  "work f w \<equiv> sum_list (map f (dw_tasks w))"

abbreviation work_measures :: "64 word \<Rightarrow> (('d, 'doc, 'h) watcher \<Rightarrow> nat) list" where
  "work_measures timeout \<equiv> [work (branch_polls timeout), work reads_left, work links_left, work marks_left, work (binary_polls timeout)]"

lemma quiet_step_less:
  assumes "poll_bounded timeout" and "quiet_step env timeout w w'"
  shows "(w', w) \<in> measures (work_measures timeout)"
proof -
  from assms(2) obtain ts t us found new w0 where tasks: "dw_tasks w = ts @ t # us" "w' = w0\<lparr>dw_tasks := ts @ new @ us\<rparr>"
    and run: "run_task env timeout found t w = Inr (new, w0)" "\<not> watches t"
    by (auto simp: quiet_step_def elim: watcher_task.cases)
  note polls = polls_left_pos [of timeout] poll_again [OF assms(1)]
  show ?thesis
  proof (cases t)
    case (PollBranch i time)
    with run(1) obtain r where r: "poll_step timeout found time = Inr r" by (auto simp: rbind_eq_Inr_iff)
    have "new = [] \<or> new = [IngestBranch True i] \<or> (\<exists>time'. new = [PollBranch i time'] \<and> polls_left timeout time' < polls_left timeout time)"
    proof (cases r)
      case (PollDone b)
      with run PollBranch r show ?thesis by (cases b) (auto simp: rbind_eq_Inr_iff)
    qed (use run PollBranch r polls(2) in auto)
    then show ?thesis using polls(1) [of time] by (auto simp: tasks PollBranch)
  next
    case (TrackLinked first i heads js linked)
    show ?thesis
    proof (cases js)
      case (Cons j js')
      with run TrackLinked have "new = TrackLinked first i heads js' linked # track_binary_document j w" by auto
      then show ?thesis by (simp add: tasks TrackLinked Cons track_binary_document_def)
    qed (use run TrackLinked in \<open>auto simp: tasks\<close>)
  next
    case (PollBinary j time)
    with run(1) obtain r where r: "poll_step timeout found time = Inr r" by (auto simp: rbind_eq_Inr_iff)
    have "new = [] \<or> (\<exists>time'. new = [PollBinary j time'] \<and> polls_left timeout time' < polls_left timeout time)"
      using run(1) PollBinary r polls(2) by (cases r) auto
    then show ?thesis using polls(1) [of time] by (auto simp: tasks PollBinary)
  qed (use run in \<open>auto simp: tasks rbind_eq_Inr_iff split: prod.splits\<close>)
qed

section \<open>Properties\<close>

text \<open>C25: in every state that the watcher can reach while no merge fails and the repository runs, a task for a
  document runs to its next await point, and panics only when it polls and the repository is stopped at that
  moment (the result of \<open>find\<close> is unwrapped): no lookup of a tracked branch panics. The ingestion of
  the metadata document ends in a panic exactly when the document does not hydrate; it is not run again then,
  and the other tasks stay. At all times, also after it, a tracked branch has one task while it is not found
  missing: one that reports the first ingestion exactly while the branch is pending.\<close>

theorem watcher_tasks_progress:
  assumes "merges_succeed (de_crdt env)" and "reachable watcher_init (watcher_step env mo timeout) w"
  shows "(\<forall>t\<in>set (dw_tasks w). \<forall>found.
      if found = FindError \<and> polls t then run_task env timeout found t w = Inl Panic
      else \<exists>new w'. run_task env timeout found t w = Inr (new, w')) \<and>
    (case metadata_handle (dw_metadata w) of
       None \<Rightarrow> run_metadata env mo w = None
     | Some handle \<Rightarrow> (\<exists>w'. run_metadata env mo w = Some w' \<and>
         (if \<exists>meta. meta_hydrate (de_io env) mo (ad_current (de_doc env) (repo_docs (pd_states (dw_db w)) handle)) = Inr meta
          then dw_metadata w' = MetaWatch handle
          else dw_metadata w' = MetaDead \<and> dw_tasks w' = dw_tasks w \<and> dw_tracked w' = dw_tracked w))) \<and>
    (\<forall>i. trackers i (dw_tasks w) = (case hm_get (dw_tracked w) i of
       Some IngestPending \<Rightarrow> [True] | Some Ingested \<Rightarrow> [False] | _ \<Rightarrow> []))"
proof (intro conjI ballI allI)
  have inv: "watcher_inv w" using reachable_inv assms(1,2) by blast
  show "trackers i (dw_tasks w) = (case hm_get (dw_tracked w) i of
       Some IngestPending \<Rightarrow> [True] | Some Ingested \<Rightarrow> [False] | _ \<Rightarrow> [])" for i
    using inv by (auto simp: watcher_inv_def trackers_for_def)
  show "if found = FindError \<and> polls t then run_task env timeout found t w = Inl Panic
      else \<exists>new w'. run_task env timeout found t w = Inr (new, w')" if t: "t \<in> set (dw_tasks w)" for t found
  proof (cases "found = FindError \<and> polls t")
    case True
    then show ?thesis by (cases t) (simp_all add: poll_step_def)
  next
    case False
    with run_task_runs [OF inv t, of found env timeout] show ?thesis by auto
  qed
  show "case metadata_handle (dw_metadata w) of
       None \<Rightarrow> run_metadata env mo w = None
     | Some handle \<Rightarrow> (\<exists>w'. run_metadata env mo w = Some w' \<and>
         (if \<exists>meta. meta_hydrate (de_io env) mo (ad_current (de_doc env) (repo_docs (pd_states (dw_db w)) handle)) = Inr meta
          then dw_metadata w' = MetaWatch handle
          else dw_metadata w' = MetaDead \<and> dw_tasks w' = dw_tasks w \<and> dw_tracked w' = dw_tracked w))"
    by (auto simp: run_metadata_def ingest_metadata_document_def split: option.split sum.splits)
qed

text \<open>Where only waiting tasks are left.\<close>

lemma settled_tasks:
  assumes inv: "watcher_inv w" and settled: "\<And>w'. \<not> quiet_step env timeout w w'" and t: "t \<in> set (dw_tasks w)"
  shows "watches t"
proof (rule ccontr)
  assume "\<not> watches t"
  moreover obtain new w' where "run_task env timeout DocMissing t w = Inr (new, w')"
    using run_task_runs [OF inv t, of DocMissing env timeout] by auto
  moreover obtain ts us where "dw_tasks w = ts @ t # us" using t by (meson split_list)
  ultimately have "quiet_step env timeout w (w'\<lparr>dw_tasks := ts @ new @ us\<rparr>)"
    unfolding quiet_step_def by (blast intro: watcher_run)
  with settled show False by blast
qed

lemma settled_branch:
  assumes inv: "watcher_inv w" and settled: "\<And>w'. \<not> quiet_step env timeout w w'"
  shows "hm_get (dw_tracked w) i \<noteq> Some IngestPending" and "canonical_branch_status i (pd_states (dw_db w)) \<noteq> CPending"
    and "hm_get (dw_tracked w) i = Some Ingested \<Longrightarrow> has_branch (pd_states (dw_db w)) i"
proof -
  let ?db = "pd_states (dw_db w)"
  note watching = settled_tasks [OF inv settled]
  have trackers: "trackers i (dw_tasks w) = trackers_for (hm_get (dw_tracked w) i)" using inv by (simp add: watcher_inv_def)
  have "True \<notin> set (trackers i (dw_tasks w))"
    using watching by (fastforce simp: trackers_def elim: watches.elims split: option.splits)
  then show "hm_get (dw_tracked w) i \<noteq> Some IngestPending" unfolding trackers by auto
  show "has_branch ?db i" if "hm_get (dw_tracked w) i = Some Ingested"
  proof -
    from trackers that have "False \<in> set (trackers i (dw_tasks w))" by simp
    then obtain t where t: "t \<in> set (dw_tasks w)" "tracker_of t = Some (i, False)"
      by (auto simp: trackers_def split: option.splits if_splits)
    from watching [OF t(1)] t(2) have "t = WatchBranch i" by (cases t) auto
    with t(1) watcher_inv_parts(4) [OF inv, of t i] show ?thesis by simp
  qed
  have "v \<noteq> Pending" if st: "hm_get (branch_sync_states ?db) i = Some st" and v: "(j, v) \<in> set (canonical_binary_docs st)" for st j v
  proof -
    have "branch_ok {} undefined (binary_states ?db) i st"
      using watcher_inv_parts(1) [OF inv] st unfolding states_ok_def by blast
    then have get: "hm_get (canonical_binary_docs st) j = Some v"
      using v by (simp add: branch_ok_def hm_get_eq_Some_iff)
    with \<open>branch_ok {} undefined (binary_states ?db) i st\<close> have ok: "v = handle_status (hm_get (binary_states ?db) j)"
      by (auto simp: branch_ok_def)
    from st get have "j \<in> linked_by ?db i" by (auto simp: linked_by_def hm_contains_def)
    then have "j \<in> awaited ?db (dw_tasks w)" by (rule watcher_inv_parts(3) [OF inv])
    then have "has_binary_doc j ?db" using watching by (fastforce simp: awaited_def)
    with ok show ?thesis by (auto simp: handle_status_eq has_binary_doc_def hm_contains_def)
  qed
  then have none: "Pending \<notin> snd ` set (canonical_binary_docs st)" if "hm_get (branch_sync_states ?db) i = Some st" for st
    using that by force
  show "canonical_branch_status i ?db \<noteq> CPending"
  proof (cases "hm_get (branch_sync_states ?db) i")
    case (Some st)
    with none [OF Some] show ?thesis by (auto simp: canonical_branch_status_def)
  qed (simp add: canonical_branch_status_def)
qed

lemma quiet_steps_end:
  assumes "poll_bounded timeout"
  shows "wf {(w2, w1). quiet_step env timeout w1 w2}"
    and "\<exists>w'. (quiet_step env timeout)\<^sup>*\<^sup>* w w' \<and> (\<nexists>w''. quiet_step env timeout w' w'')"
proof -
  have "{(w2, w1). quiet_step env timeout w1 w2} \<subseteq> measures (work_measures timeout)"
    using quiet_step_less [OF assms] by blast
  then show wf: "wf {(w2, w1). quiet_step env timeout w1 w2}" using wf_measures wf_subset by blast
  show "\<exists>w'. (quiet_step env timeout)\<^sup>*\<^sup>* w w' \<and> (\<nexists>w''. quiet_step env timeout w' w'')"
    using wf
  proof (induction w rule: wf_induct_rule)
    case (less w)
    show ?case
    proof (cases "\<exists>w1. quiet_step env timeout w w1")
      case True
      then obtain w1 where "quiet_step env timeout w w1" ..
      with less show ?thesis by (blast intro: converse_rtranclp_into_rtranclp)
    qed blast
  qed
qed

lemma quiet_steps_inv:
  assumes "merges_succeed (de_crdt env)" and "watcher_inv w" and "(quiet_step env timeout)\<^sup>*\<^sup>* w w'"
  shows "watcher_inv w'"
  using assms(3)
proof (induction rule: rtranclp_induct)
  case (step w1 w2)
  then obtain t where "watcher_task env timeout t w1 w2" by (auto simp: quiet_step_def)
  then have "watcher_step env undefined timeout w1 w2" by (rule watcher_step.step_task)
  with step.IH show ?case using watcher_step_inv assms(1) by blast
qed (rule assms(2))

text \<open>C24: from every reachable state, while no document changes any more, the tasks come to an end whatever order
  they run in and whatever the repository answers; then everyone who waits for a branch of the metadata
  document has an answer, a branch that is ingested has a state, and no branch awaits a binary document.\<close>

theorem watcher_quiesces:
  assumes merges: "merges_succeed (de_crdt env)" and start: "reachable watcher_init (watcher_step env mo timeout) w"
    and timeout: "poll_bounded timeout"
  shows "wf {(w2, w1). quiet_step env timeout w1 w2} \<and>
    (\<exists>w'. (quiet_step env timeout)\<^sup>*\<^sup>* w w' \<and> (\<nexists>w''. quiet_step env timeout w' w'')) \<and>
    (\<forall>w'. (quiet_step env timeout)\<^sup>*\<^sup>* w w' \<and> (\<nexists>w''. quiet_step env timeout w' w'') \<longrightarrow>
       (\<forall>h m i. pd_metadata (dw_db w') = Some (h, m) \<and> i \<in> set (hm_keys (bm_branches m)) \<longrightarrow>
          wait_for_branch_ingest i w' = Some (Inl TimedOut) \<or>
          wait_for_branch_ingest i w' = Some (Inr ()) \<and>
            canonical_branch_status i (pd_states (dw_db w')) \<in> {Healthy, BinaryDocNotFound}) \<and>
       (\<forall>i. canonical_branch_status i (pd_states (dw_db w')) \<noteq> CPending))"
proof -
  let ?quiet = "quiet_step env timeout"
  have inv: "watcher_inv w'" if "?quiet\<^sup>*\<^sup>* w w'" for w'
    using quiet_steps_inv [OF merges _ that] reachable_inv [OF merges start] by blast
  have "(\<forall>h m i. pd_metadata (dw_db w') = Some (h, m) \<and> i \<in> set (hm_keys (bm_branches m)) \<longrightarrow>
          wait_for_branch_ingest i w' = Some (Inl TimedOut) \<or>
          wait_for_branch_ingest i w' = Some (Inr ()) \<and>
            canonical_branch_status i (pd_states (dw_db w')) \<in> {Healthy, BinaryDocNotFound}) \<and>
       (\<forall>i. canonical_branch_status i (pd_states (dw_db w')) \<noteq> CPending)"
    if run: "?quiet\<^sup>*\<^sup>* w w'" and settled: "\<nexists>w''. ?quiet w' w''" for w'
  proof -
    from settled have "\<And>w''. \<not> ?quiet w' w''" by blast
    note settled = settled_branch [OF inv [OF run] this]
    have "wait_for_branch_ingest i w' = Some (Inl TimedOut) \<or>
        wait_for_branch_ingest i w' = Some (Inr ()) \<and>
          canonical_branch_status i (pd_states (dw_db w')) \<in> {Healthy, BinaryDocNotFound}"
      if "pd_metadata (dw_db w') = Some (h, m)" "i \<in> set (hm_keys (bm_branches m))" for h m i
    proof -
      have "hm_get (dw_tracked w') i \<noteq> None" using inv [OF run] that unfolding watcher_inv_def by blast
      then obtain s where s: "hm_get (dw_tracked w') i = Some s" by blast
      show ?thesis
      proof (cases s)
        case Ingested
        with s settled(2,3) [of i] show ?thesis
          by (cases "canonical_branch_status i (pd_states (dw_db w'))")
            (auto simp: wait_for_branch_ingest_def has_branch_def canonical_branch_status_def split: if_splits)
      qed (use s settled(1) [of i] in \<open>simp_all add: wait_for_branch_ingest_def\<close>)
    qed
    with settled(2) show ?thesis by blast
  qed
  with quiet_steps_end [OF timeout] show ?thesis by blast
qed

section \<open>Witness\<close>

text \<open>A metadata document that lists the branch 1, and merges that take the other document.\<close>

definition demo_watch_env :: "(demo_view list, nat, demo_view, demo_obj, nat, string) db_env" where
  "demo_watch_env = demo_meta_env\<lparr>de_crdt := \<lparr>am_heads = (\<lambda>d. [length d]), am_fork = id, am_merge = (\<lambda>_ e. (True, e))\<rparr>\<rparr>"

definition demo_main_branch :: "(nat, nat) branch" where
  "demo_main_branch = \<lparr>br_name = ''main'', br_id = 1, br_forked_from = None, br_merge_into = None, br_reverted_to = None,
     br_created_by = None\<rparr>"

definition demo_watcher :: "(nat, demo_view list, nat) watcher" where
  "demo_watcher = \<lparr>dw_db = demo_project\<lparr>pd_metadata := None, pd_states :=
       \<lparr>repo_docs = (\<lambda>i. if i = 0 then [snd (meta_reconcile demo_nat_io demo_meta_ops (\<lambda>_. None)
            \<lparr>bm_main_doc_id = 1, bm_branches = [(1, demo_main_branch)]\<rparr>)] else [demo_new]),
        binary_states = [], branch_sync_states = []\<rparr>\<rparr>, dw_metadata = MetaNew 0, dw_tracked = [], dw_tasks = []\<rparr>"

definition demo_watching :: "(nat, demo_view list, nat) watcher" where
  "demo_watching = demo_watcher\<lparr>dw_db := set_metadata_state 0 \<lparr>bm_main_doc_id = 1, bm_branches = [(1, demo_main_branch)]\<rparr> (dw_db demo_watcher),
     dw_metadata := MetaWatch 0, dw_tracked := [(1, IngestPending)], dw_tasks := [PollBranch 1 0]\<rparr>"

lemma demo_merges: "merges_succeed (de_crdt demo_watch_env)"
  by (simp add: merges_succeed_def demo_watch_env_def)

lemma demo_ingest_metadata: "run_metadata demo_watch_env demo_meta_ops demo_watcher = Some demo_watching"
proof -
  have "meta_hydrate demo_nat_io demo_meta_ops (ad_current (demo_ad :: (_, _, _, (nat, nat) commit_metadata) am_doc)
      (repo_docs (pd_states (dw_db demo_watcher)) 0)) = Inr \<lparr>bm_main_doc_id = 1, bm_branches = [(1, demo_main_branch)]\<rparr>"
    using demo_nat_io_laws
    by (simp add: demo_watcher_def meta_reconcile_def demo_meta_ops_def meta_hydrate_def demo_field_def doc_id_hydrate_def
        doc_id_reconcile_def branch_map_hydrate_def branch_map_reconcile_def hm_collect_def branch_roundtrip)
  moreover have "hm_get (dw_tracked demo_watcher) 1 = None" "dw_tasks demo_watcher = []" "dw_tracked demo_watcher = []"
    "dw_metadata demo_watcher = MetaNew 0"
    by (simp_all add: demo_watcher_def)
  ultimately show ?thesis
    by (simp add: run_metadata_def ingest_metadata_document_def demo_watch_env_def demo_watching_def track_branch_def hm_contains_def)
qed

lemma demo_watching_reachable: "reachable watcher_init (watcher_step demo_watch_env demo_meta_ops 1000) demo_watching"
proof (rule reachable_step [OF reachable_init])
  show "watcher_init demo_watcher" by (simp add: watcher_init_def demo_watcher_def)
  show "watcher_step demo_watch_env demo_meta_ops 1000 demo_watcher demo_watching"
    by (rule watcher_step.step_metadata [OF demo_ingest_metadata])
qed

theorem watcher_tasks_progress_witness:
  "(\<exists>new w'. run_task demo_watch_env 1000 DocMissing (PollBranch 1 0) demo_watching = Inr (new, w')) \<and>
   run_task demo_watch_env 1000 FindError (PollBranch 1 0) demo_watching = Inl Panic \<and>
   (\<exists>w'. run_metadata demo_watch_env demo_meta_ops demo_watching = Some w')"
proof -
  have tasks: "PollBranch 1 0 \<in> set (dw_tasks demo_watching)" and meta: "dw_metadata demo_watching = MetaWatch 0"
    by (simp_all add: demo_watching_def)
  note progress = watcher_tasks_progress [OF demo_merges demo_watching_reachable]
  from progress [THEN conjunct1, rule_format, OF tasks, of DocMissing]
    progress [THEN conjunct1, rule_format, OF tasks, of FindError]
    progress [THEN conjunct2, THEN conjunct1] meta show ?thesis by auto
qed

theorem watcher_quiesces_witness:
  "\<exists>w'. (quiet_step demo_watch_env 1000)\<^sup>*\<^sup>* demo_watching w' \<and> (\<nexists>w''. quiet_step demo_watch_env 1000 w' w'') \<and>
     canonical_branch_status 1 (pd_states (dw_db w')) \<noteq> CPending"
proof -
  have "poll_bounded 1000" by (simp add: poll_bounded_def)
  from watcher_quiesces [OF demo_merges demo_watching_reachable this] show ?thesis by blast
qed

end
