(* ===== verification/Config_File.thy ===== *)
theory Config_File imports Rust_Strings State_Result begin

text \<open>
  \<open>project/config/file_backed_toml.rs\<close> and \<open>project/config.rs\<close>: a table of settings backed by a TOML file that
  others may edit, and the settings of a project in it.

  The handle and its file are one record; the time of the next write is part of it. The TOML library, URLs
  and document ids are parameters. Calls of the operating system other than for a missing file fail as
  \<open>toml_io\<close> says.
\<close>

section \<open>A table backed by a file\<close>

datatype toml_value = TString string | TTable "(string \<times> toml_value) list" | TOther string

type_synonym toml_table = "(string, toml_value) hmap"

record toml_file =
  tf_table :: toml_table
  tf_meta :: "(nat \<times> nat) option"            \<comment> \<open>modification time and length when it was last read or written\<close>
  tf_disk :: "(string \<times> nat) option"        \<comment> \<open>content and modification time\<close>
  tf_now :: nat

datatype toml_error = TomlIo | TomlSerialize

record toml_io =
  ti_stat :: bool
  ti_read :: "string \<Rightarrow> bool"
  ti_write :: bool

record toml_ops =
  tm_print :: "toml_table \<Rightarrow> string option"
  tm_parse :: "string \<Rightarrow> toml_table option"

type_synonym 'a toml_run = "(toml_file, toml_error, 'a) run"

definition file_backed_toml_new :: "(string \<times> nat) option \<Rightarrow> nat \<Rightarrow> toml_file" where
  "file_backed_toml_new disk now = \<lparr>tf_table = [], tf_meta = None, tf_disk = disk, tf_now = now\<rparr>"

definition meta_of :: "toml_file \<Rightarrow> (nat \<times> nat) option" where
  "meta_of s = map_option (\<lambda>(c, t). (t, length c)) (tf_disk s)"

definition toml_metadata :: "toml_io \<Rightarrow> (nat \<times> nat) option toml_run" where
  "toml_metadata io = sgets (\<lambda>s. if ti_stat io then Inr (meta_of s) else Inl (Err TomlIo))"

text \<open>A temporary file is renamed over the file, so a failure leaves the file as it was.\<close>

definition atomic_write :: "toml_io \<Rightarrow> string \<Rightarrow> unit toml_run" where
  "atomic_write io contents s =
     (if ti_write io then (Inr (), s\<lparr>tf_disk := Some (contents, tf_now s)\<rparr>) else (Inl (Err TomlIo), s))"

definition write_backing :: "toml_io \<Rightarrow> toml_ops \<Rightarrow> unit toml_run" where
  "write_backing io tm =
     sbind (sgets (\<lambda>s. ok_or (Err TomlSerialize) (tm_print tm (tf_table s)))) (\<lambda>contents.
     sbind (atomic_write io contents) (\<lambda>_.
     sbind (toml_metadata io) (\<lambda>meta. smodify (\<lambda>s. s\<lparr>tf_meta := meta\<rparr>))))"

text \<open>A missing file is created; a file that does not parse is overwritten with the table at hand.\<close>

definition read_or_create_file :: "toml_io \<Rightarrow> toml_ops \<Rightarrow> toml_table toml_run" where
  "read_or_create_file io tm s =
     (case tf_disk s of
        None \<Rightarrow> sbind (atomic_write io []) (\<lambda>_. sret []) s
      | Some (contents, _) \<Rightarrow>
          if \<not> ti_read io contents then (Inl (Err TomlIo), s)
          else (case tm_parse tm contents of
                  Some table \<Rightarrow> (Inr table, s)
                | None \<Rightarrow> sbind (write_backing io tm) (\<lambda>_. sgets (\<lambda>s. Inr (tf_table s))) s))"

definition reload_backing :: "toml_io \<Rightarrow> toml_ops \<Rightarrow> unit toml_run" where
  "reload_backing io tm =
     sbind (toml_metadata io) (\<lambda>metadata.
     sbind (sgets (\<lambda>s. Inr (tf_meta s))) (\<lambda>known.
     if metadata = known then sret ()
     else sbind (read_or_create_file io tm) (\<lambda>table.
          sbind (toml_metadata io) (\<lambda>metadata. smodify (\<lambda>s. s\<lparr>tf_meta := metadata, tf_table := table\<rparr>)))))"

definition as_table :: "toml_value \<Rightarrow> toml_table option" where
  "as_table v = (case v of TTable t \<Rightarrow> Some t | _ \<Rightarrow> None)"

definition toml_lookup :: "string \<Rightarrow> string \<Rightarrow> toml_table \<Rightarrow> toml_value option" where
  "toml_lookup section_name key table =
     Option.bind (Option.bind (hm_get table section_name) as_table) (\<lambda>t. hm_get t key)"

definition toml_update :: "string \<Rightarrow> string \<Rightarrow> toml_value option \<Rightarrow> toml_table \<Rightarrow> toml_table" where
  "toml_update section_name key value table =
     (let section_table = Option.bind (hm_get table section_name) as_table
      in case value of
           Some value \<Rightarrow>
             hm_insert section_name (TTable (hm_insert key value (case section_table of Some t \<Rightarrow> t | None \<Rightarrow> []))) table
         | None \<Rightarrow>
             (case section_table of
                None \<Rightarrow> table
              | Some t \<Rightarrow> hm_insert section_name (TTable (hm_remove key t)) table))"

definition toml_get :: "toml_io \<Rightarrow> toml_ops \<Rightarrow> string \<Rightarrow> string \<Rightarrow> toml_value option toml_run" where
  "toml_get io tm section_name key =
     sbind (reload_backing io tm) (\<lambda>_. sgets (\<lambda>s. Inr (toml_lookup section_name key (tf_table s))))"

definition toml_set :: "toml_io \<Rightarrow> toml_ops \<Rightarrow> string \<Rightarrow> string \<Rightarrow> toml_value option \<Rightarrow> unit toml_run" where
  "toml_set io tm section_name key value =
     sbind (reload_backing io tm) (\<lambda>_.
     sbind (smodify (\<lambda>s. s\<lparr>tf_table := toml_update section_name key value (tf_table s)\<rparr>)) (\<lambda>_.
     write_backing io tm))"

section \<open>Settings\<close>

text \<open>URLs and document ids as texts.\<close>

record ('u, 'd) config_ops =
  co_parse_url :: "string \<Rightarrow> 'u option"
  co_show_url :: "'u \<Rightarrow> string"
  co_parse_doc :: "string \<Rightarrow> 'd option"
  co_show_doc :: "'d \<Rightarrow> string"

definition config_section :: string where
  "config_section = ''backstitch''"

definition config_get_string :: "toml_io \<Rightarrow> toml_ops \<Rightarrow> string \<Rightarrow> toml_file \<Rightarrow> string option \<times> toml_file" where
  "config_get_string io tm key s =
     (case toml_get io tm config_section key s of
        (Inr (Some (TString v)), s) \<Rightarrow> (if v = [] then None else Some v, s)
      | (_, s) \<Rightarrow> (None, s))"

text \<open>Errors are only logged.\<close>

definition config_set_string :: "toml_io \<Rightarrow> toml_ops \<Rightarrow> string \<Rightarrow> string option \<Rightarrow> toml_file \<Rightarrow> toml_file" where
  "config_set_string io tm key value s = snd (toml_set io tm config_section key (map_option TString value) s)"

definition project_doc_id :: "toml_io \<Rightarrow> toml_ops \<Rightarrow> ('u, 'd) config_ops \<Rightarrow> toml_file \<Rightarrow> 'd option \<times> toml_file" where
  "project_doc_id io tm co s = map_prod (\<lambda>v. Option.bind v (co_parse_doc co)) id (config_get_string io tm ''project_doc_id'' s)"

definition set_project_doc_id :: "toml_io \<Rightarrow> toml_ops \<Rightarrow> ('u, 'd) config_ops \<Rightarrow> 'd option \<Rightarrow> toml_file \<Rightarrow> toml_file" where
  "set_project_doc_id io tm co value = config_set_string io tm ''project_doc_id'' (map_option (co_show_doc co) value)"

definition checked_out_branch_doc_id :: "toml_io \<Rightarrow> toml_ops \<Rightarrow> ('u, 'd) config_ops \<Rightarrow> toml_file \<Rightarrow> 'd option \<times> toml_file" where
  "checked_out_branch_doc_id io tm co s =
     map_prod (\<lambda>v. Option.bind v (co_parse_doc co)) id (config_get_string io tm ''checked_out_branch_doc_id'' s)"

definition set_checked_out_branch_doc_id ::
  "toml_io \<Rightarrow> toml_ops \<Rightarrow> ('u, 'd) config_ops \<Rightarrow> 'd option \<Rightarrow> toml_file \<Rightarrow> toml_file" where
  "set_checked_out_branch_doc_id io tm co value =
     config_set_string io tm ''checked_out_branch_doc_id'' (map_option (co_show_doc co) value)"

definition user_name :: "toml_io \<Rightarrow> toml_ops \<Rightarrow> toml_file \<Rightarrow> string option \<times> toml_file" where
  "user_name io tm = config_get_string io tm ''user_name''"

definition set_user_name :: "toml_io \<Rightarrow> toml_ops \<Rightarrow> string option \<Rightarrow> toml_file \<Rightarrow> toml_file" where
  "set_user_name io tm = config_set_string io tm ''user_name''"

text \<open>The address of the server before it used HTTP is replaced.\<close>

definition remap_legacy :: "string \<Rightarrow> string" where
  "remap_legacy s = (if contains_str s ''alpha.backstitch.dev:8085'' then ''https://alpha.backstitch.dev/'' else s)"

definition config_server_url :: "toml_io \<Rightarrow> toml_ops \<Rightarrow> ('u, 'd) config_ops \<Rightarrow> toml_file \<Rightarrow> 'u option \<times> toml_file" where
  "config_server_url io tm co s =
     map_prod (\<lambda>v. Option.bind v (\<lambda>v. co_parse_url co (remap_legacy v))) id (config_get_string io tm ''server_url'' s)"

definition set_server_url :: "toml_io \<Rightarrow> toml_ops \<Rightarrow> ('u, 'd) config_ops \<Rightarrow> 'u option \<Rightarrow> toml_file \<Rightarrow> toml_file" where
  "set_server_url io tm co value = config_set_string io tm ''server_url'' (map_option (co_show_url co) value)"

text \<open>An \<open>IndexSet\<close> is a list without duplicates in the order of the first insertions.\<close>

definition index_set :: "'a list \<Rightarrow> 'a list" where
  "index_set xs = rev (remdups (rev xs))"

definition available_servers :: "toml_io \<Rightarrow> toml_ops \<Rightarrow> ('u, 'd) config_ops \<Rightarrow> toml_file \<Rightarrow> 'u list \<times> toml_file" where
  "available_servers io tm co s =
     map_prod (\<lambda>v. case v of
         None \<Rightarrow> []
       | Some servers \<Rightarrow> index_set (List.map_filter (\<lambda>s. co_parse_url co (remap_legacy s)) (split_on (CHR '','') servers)))
       id (config_get_string io tm ''available_servers'' s)"

definition set_available_servers :: "toml_io \<Rightarrow> toml_ops \<Rightarrow> ('u, 'd) config_ops \<Rightarrow> 'u list \<Rightarrow> toml_file \<Rightarrow> toml_file" where
  "set_available_servers io tm co servers =
     config_set_string io tm ''available_servers'' (Some (str_join '','' (map (co_show_url co) servers)))"

section \<open>The file as the state\<close>

text \<open>What the code relies on: the TOML library reads what it prints, and an empty file is an empty table.\<close>

definition toml_laws :: "toml_ops \<Rightarrow> bool" where
  "toml_laws tm \<longleftrightarrow> tm_parse tm [] = Some [] \<and> (\<forall>t c. tm_print tm t = Some c \<longrightarrow> tm_parse tm c = Some t)"

definition toml_io_ok :: "toml_io \<Rightarrow> bool" where
  "toml_io_ok io \<longleftrightarrow> ti_stat io \<and> ti_write io \<and> (\<forall>c. ti_read io c)"

definition disk_table :: "toml_ops \<Rightarrow> toml_file \<Rightarrow> toml_table option" where
  "disk_table tm s = (case tf_disk s of None \<Rightarrow> Some [] | Some (c, _) \<Rightarrow> tm_parse tm c)"

text \<open>A file that was not changed since it was last read or written holds the table.\<close>

definition toml_synced :: "toml_ops \<Rightarrow> toml_file \<Rightarrow> bool" where
  "toml_synced tm s \<longleftrightarrow> (tf_meta s = meta_of s \<longrightarrow> disk_table tm s = Some (tf_table s))"

lemma toml_synced_new: "toml_synced tm (file_backed_toml_new disk now)"
  by (cases disk) (auto simp: toml_synced_def file_backed_toml_new_def disk_table_def meta_of_def)

lemma as_table_TTable [simp]: "as_table (TTable t) = Some t"
  by (simp add: as_table_def)

lemma toml_lookup_update:
  "toml_lookup section_name key (toml_update section_name' key' value table) =
    (if section_name = section_name' \<and> key = key' then value else toml_lookup section_name key table)"
  unfolding toml_lookup_def toml_update_def
  by (cases "Option.bind (hm_get table section_name') as_table"; cases "value")
    (auto simp: hm_get_insert hm_get_remove Let_def simp del: Option.bind_assoc)

lemma reload_ok:
  assumes laws: "toml_laws tm" and io: "toml_io_ok io" and synced: "toml_synced tm s" and t: "disk_table tm s = Some t"
  shows "\<exists>s'. reload_backing io tm s = (Inr (), s') \<and> tf_table s' = t \<and> tf_meta s' = meta_of s' \<and>
    disk_table tm s' = Some t \<and> (tf_disk s' = tf_disk s \<or> tf_disk s = None \<and> tf_disk s' = Some ([], tf_now s))"
proof (cases "meta_of s = tf_meta s")
  case True
  with synced t have "tf_table s = t" by (simp add: toml_synced_def)
  with True t io show ?thesis by (auto simp: reload_backing_def toml_metadata_def toml_io_ok_def)
next
  case False
  show ?thesis
  proof (cases "tf_disk s")
    case None
    with False t io laws show ?thesis
      by (simp add: reload_backing_def toml_metadata_def toml_io_ok_def read_or_create_file_def atomic_write_def
          toml_laws_def disk_table_def meta_of_def)
  next
    case (Some f)
    obtain c m where "f = (c, m)" by (cases f)
    with Some False t io show ?thesis
      by (simp add: reload_backing_def toml_metadata_def toml_io_ok_def read_or_create_file_def disk_table_def meta_of_def)
  qed
qed

lemma write_backing_ok:
  assumes "toml_laws tm" and "toml_io_ok io" and "tm_print tm (tf_table s) = Some c"
  shows "\<exists>s'. write_backing io tm s = (Inr (), s') \<and> tf_table s' = tf_table s \<and> tf_meta s' = meta_of s' \<and>
    disk_table tm s' = Some (tf_table s) \<and> tf_disk s' = Some (c, tf_now s)"
  using assms
  by (simp add: write_backing_def ok_or_def atomic_write_def toml_metadata_def toml_io_ok_def toml_laws_def
      disk_table_def meta_of_def)

lemma toml_get_ok:
  assumes "toml_laws tm" and "toml_io_ok io" and "toml_synced tm s" and "disk_table tm s = Some t"
  shows "\<exists>s'. toml_get io tm section_name key s = (Inr (toml_lookup section_name key t), s') \<and>
    toml_synced tm s' \<and> disk_table tm s' = Some t"
  using reload_ok [OF assms] by (auto simp: toml_get_def toml_synced_def)

lemma toml_set_ok:
  assumes "toml_laws tm" and "toml_io_ok io" and "toml_synced tm s" and "disk_table tm s = Some t"
    and "tm_print tm (toml_update section_name key value t) \<noteq> None"
  shows "\<exists>s'. toml_set io tm section_name key value s = (Inr (), s') \<and> toml_synced tm s' \<and>
    disk_table tm s' = Some (toml_update section_name key value t)"
proof -
  from reload_ok [OF assms(1-4)] obtain r where r: "reload_backing io tm s = (Inr (), r)" "tf_table r = t" by blast
  from assms(5) obtain c where c: "tm_print tm (toml_update section_name key value t) = Some c" by blast
  let ?u = "r\<lparr>tf_table := toml_update section_name key value (tf_table r)\<rparr>"
  from write_backing_ok [OF assms(1,2), of ?u c] c obtain s' where
    "write_backing io tm ?u = (Inr (), s')" "tf_meta s' = meta_of s'" "tf_table s' = toml_update section_name key value t"
    "disk_table tm s' = Some (toml_update section_name key value t)" by (auto simp: r(2))
  with r(1) show ?thesis by (auto simp: toml_set_def toml_synced_def)
qed

text \<open>C40: the settings are those of the file. As long as the file can be read, written and parsed, a value that is
  read is the one the file has now, also when others have changed the file; setting or removing a value
  changes exactly this value in the file, on top of the changes of others.\<close>

theorem toml_file_refines:
  assumes "toml_laws tm" and "toml_io_ok io" and "toml_synced tm s" and "disk_table tm s = Some t"
  shows "(\<exists>s'. toml_get io tm section_name key s = (Inr (toml_lookup section_name key t), s') \<and>
      toml_synced tm s' \<and> disk_table tm s' = Some t) \<and>
    (tm_print tm (toml_update section_name key value t) \<noteq> None \<longrightarrow>
      (\<exists>s' t'. toml_set io tm section_name key value s = (Inr (), s') \<and> toml_synced tm s' \<and>
        disk_table tm s' = Some t' \<and>
        (\<forall>section' key'. toml_lookup section' key' t' =
           (if section' = section_name \<and> key' = key then value else toml_lookup section' key' t))))"
  using toml_get_ok [OF assms] toml_set_ok [OF assms] by (fastforce simp: toml_lookup_update)

text \<open>A setting whose writing fails is nevertheless returned by later reads, although the file does not have it,
  until the file is changed.\<close>

theorem failed_set_stays_visible:
  assumes "toml_synced tm s" and "tf_meta s = meta_of s"
    and "ti_stat io" and "\<not> ti_write io" and "tm_print tm (toml_update section_name key value (tf_table s)) \<noteq> None"
    and "toml_io_ok io'"
  shows "\<exists>s'. toml_set io tm section_name key value s = (Inl (Err TomlIo), s') \<and> tf_disk s' = tf_disk s \<and>
    toml_get io' tm section_name key s' = (Inr value, s')"
proof -
  have "meta_of (s\<lparr>tf_table := x\<rparr>) = meta_of s" for x by (simp add: meta_of_def)
  with assms show ?thesis
    by (auto simp: toml_set_def reload_backing_def toml_metadata_def write_backing_def ok_or_def atomic_write_def
        toml_get_def toml_io_ok_def toml_lookup_update sbind_def)
qed

text \<open>A file that cannot be parsed does not lose the settings: a read returns them as they were last read or
  written, and the file is overwritten with them.\<close>

theorem unparsed_file_restored:
  assumes "toml_laws tm" and "toml_io_ok io" and "toml_synced tm s" and "disk_table tm s = None"
    and "tm_print tm (tf_table s) \<noteq> None"
  shows "\<exists>s'. toml_get io tm section_name key s = (Inr (toml_lookup section_name key (tf_table s)), s') \<and>
    toml_synced tm s' \<and> disk_table tm s' = Some (tf_table s)"
proof -
  from assms(5) obtain c where c: "tm_print tm (tf_table s) = Some c" by blast
  from write_backing_ok [OF assms(1,2) c] obtain r where
    r: "write_backing io tm s = (Inr (), r)" "tf_table r = tf_table s" "tf_meta r = meta_of r"
      "disk_table tm r = Some (tf_table s)" by blast
  from assms(4) obtain b m where disk: "tf_disk s = Some (b, m)" "tm_parse tm b = None"
    by (auto simp: disk_table_def split: option.splits)
  have "meta_of s \<noteq> tf_meta s" using assms(3,4) by (auto simp: toml_synced_def)
  then have "reload_backing io tm s = (Inr (), r)"
    using disk r assms(2)
    by (simp add: reload_backing_def toml_metadata_def toml_io_ok_def read_or_create_file_def)
  with r show ?thesis by (simp add: toml_get_def toml_synced_def)
qed

text \<open>The list of servers that was stored is read back in its order, when the texts of the URLs parse and hold
  no comma and not the old address of the server.\<close>

theorem available_servers_roundtrip:
  assumes "toml_laws tm" and "toml_io_ok io" and "toml_synced tm s" and "disk_table tm s = Some t"
    and "tm_print tm (toml_update config_section ''available_servers''
          (Some (TString (str_join '','' (map (co_show_url co) us)))) t) \<noteq> None"
    and "distinct us"
    and urls: "\<forall>u\<in>set us. co_parse_url co (co_show_url co u) = Some u \<and> CHR '','' \<notin> set (co_show_url co u) \<and>
          co_show_url co u \<noteq> [] \<and> \<not> contains_str (co_show_url co u) ''alpha.backstitch.dev:8085''"
  shows "fst (available_servers io tm co (set_available_servers io tm co us s)) = us"
proof -
  let ?text = "str_join '','' (map (co_show_url co) us)"
  from toml_set_ok [OF assms(1-5)] obtain s1 where
    set1: "toml_set io tm config_section ''available_servers'' (Some (TString ?text)) s = (Inr (), s1)"
      "toml_synced tm s1" "disk_table tm s1 = Some (toml_update config_section ''available_servers'' (Some (TString ?text)) t)"
    by blast
  from toml_get_ok [OF assms(1,2) set1(2,3), of config_section "''available_servers''"]
  have get: "fst (config_get_string io tm ''available_servers'' s1) = (if ?text = [] then None else Some ?text)"
    by (auto simp: config_get_string_def toml_lookup_update)
  show ?thesis
  proof (cases "us = []")
    case True
    with get set1(1) show ?thesis by (simp add: available_servers_def set_available_servers_def config_set_string_def)
  next
    case False
    then obtain u where u: "u \<in> set us" by (cases us) auto
    with urls have "?text \<noteq> []" by (intro str_join_not_Nil [of "co_show_url co u"]) auto
    moreover have "split_on (CHR '','') ?text = map (co_show_url co) us"
      using urls False by (intro split_on_join) auto
    moreover have "List.map_filter (\<lambda>s. co_parse_url co (remap_legacy s)) (map (co_show_url co) vs) = vs"
      if "set vs \<subseteq> set us" for vs
      using urls that by (induction vs) (auto simp: List.map_filter_def remap_legacy_def)
    moreover have "index_set us = us" using assms(6) by (simp add: index_set_def distinct_remdups_id)
    ultimately show ?thesis
      using get set1(1) by (simp add: available_servers_def set_available_servers_def config_set_string_def)
  qed
qed

section \<open>Witnesses\<close>

text \<open>A format for a table of at most the one key.\<close>

definition demo_toml :: toml_ops where
  "demo_toml = \<lparr>
     tm_print = (\<lambda>t. if t = [] then Some []
       else (case toml_lookup config_section ''available_servers'' t of
          Some (TString v) \<Rightarrow> if t = [(config_section, TTable [(''available_servers'', TString v)])]
            then Some (CHR ''='' # v) else None
        | _ \<Rightarrow> None)),
     tm_parse = (\<lambda>c. case c of [] \<Rightarrow> Some []
       | x # v \<Rightarrow> if x = CHR ''='' then Some [(config_section, TTable [(''available_servers'', TString v)])] else None)\<rparr>"

definition demo_toml_io :: toml_io where
  "demo_toml_io = \<lparr>ti_stat = True, ti_read = (\<lambda>_. True), ti_write = True\<rparr>"

definition demo_config_ops :: "(string, string) config_ops" where
  "demo_config_ops = \<lparr>co_parse_url = Some, co_show_url = id, co_parse_doc = Some, co_show_doc = id\<rparr>"

abbreviation demo_toml_file :: "string \<Rightarrow> toml_file" where
  "demo_toml_file c \<equiv> file_backed_toml_new (Some (c, 0)) 1"

lemma demo_toml_laws: "toml_laws demo_toml" "toml_io_ok demo_toml_io"
  by (auto simp: toml_laws_def demo_toml_def toml_io_ok_def demo_toml_io_def
      split: option.splits toml_value.splits if_splits)

lemma demo_toml_prints: "tm_print demo_toml (toml_update config_section ''available_servers'' (Some (TString v)) []) \<noteq> None"
  by (simp add: demo_toml_def toml_update_def toml_lookup_def)

theorem toml_file_refines_witness:
  "\<exists>s'. toml_set demo_toml_io demo_toml config_section ''available_servers'' (Some (TString ''u'')) (demo_toml_file []) = (Inr (), s') \<and>
    disk_table demo_toml s' = Some [(config_section, TTable [(''available_servers'', TString ''u'')])]"
proof -
  have disk: "disk_table demo_toml (demo_toml_file []) = Some []"
    by (simp add: disk_table_def file_backed_toml_new_def demo_toml_def)
  from toml_file_refines [OF demo_toml_laws toml_synced_new disk, of config_section "''available_servers''" "Some (TString ''u'')"]
    demo_toml_prints
  obtain s' where "toml_set demo_toml_io demo_toml config_section ''available_servers'' (Some (TString ''u'')) (demo_toml_file [])
      = (Inr (), s')" by blast
  then show ?thesis
    by (auto simp: toml_set_def reload_backing_def toml_metadata_def meta_of_def file_backed_toml_new_def demo_toml_io_def
        read_or_create_file_def demo_toml_def write_backing_def atomic_write_def toml_update_def toml_lookup_def ok_or_def
        disk_table_def)
qed

theorem failed_set_stays_visible_witness:
  "\<exists>s'. toml_set \<lparr>ti_stat = True, ti_read = (\<lambda>_. True), ti_write = False\<rparr> demo_toml config_section ''available_servers''
      (Some (TString ''u'')) \<lparr>tf_table = [], tf_meta = Some (0, 0), tf_disk = Some ([], 0), tf_now = 1\<rparr> = (Inl (Err TomlIo), s') \<and>
    tf_disk s' = Some ([], 0) \<and>
    toml_get demo_toml_io demo_toml config_section ''available_servers'' s' = (Inr (Some (TString ''u'')), s')"
proof -
  let ?s = "\<lparr>tf_table = [], tf_meta = Some (0, 0), tf_disk = Some ([], 0), tf_now = 1\<rparr>"
  have s: "toml_synced demo_toml ?s" "tf_meta ?s = meta_of ?s" "tf_table ?s = []"
    by (simp_all add: toml_synced_def disk_table_def demo_toml_def meta_of_def)
  from failed_set_stays_visible [OF s(1,2), of "\<lparr>ti_stat = True, ti_read = (\<lambda>_. True), ti_write = False\<rparr>"
      config_section "''available_servers''" "Some (TString ''u'')", OF _ _ _ demo_toml_laws(2)] demo_toml_prints
  show ?thesis by simp
qed

theorem unparsed_file_restored_witness:
  "\<exists>s'. toml_get demo_toml_io demo_toml config_section ''available_servers'' (demo_toml_file ''?'') = (Inr None, s') \<and>
    disk_table demo_toml s' = Some []"
proof -
  have "disk_table demo_toml (demo_toml_file ''?'') = None" "tm_print demo_toml (tf_table (demo_toml_file ''?'')) \<noteq> None"
    by (simp_all add: disk_table_def file_backed_toml_new_def demo_toml_def)
  from unparsed_file_restored [OF demo_toml_laws toml_synced_new this, of config_section "''available_servers''"]
  show ?thesis by (auto simp: file_backed_toml_new_def toml_lookup_def)
qed

theorem available_servers_roundtrip_witness:
  "fst (available_servers demo_toml_io demo_toml demo_config_ops
     (set_available_servers demo_toml_io demo_toml demo_config_ops [''a'', ''b''] (demo_toml_file []))) = [''a'', ''b'']"
proof -
  have disk: "disk_table demo_toml (demo_toml_file []) = Some []"
    by (simp add: disk_table_def file_backed_toml_new_def demo_toml_def)
  have "\<not> contains_str ''a'' ''alpha.backstitch.dev:8085''" "\<not> contains_str ''b'' ''alpha.backstitch.dev:8085''"
    by code_simp+
  then show ?thesis
    using demo_toml_prints by (intro available_servers_roundtrip [OF demo_toml_laws toml_synced_new disk])
      (auto simp: demo_config_ops_def)
qed

end
