(* ===== verification/Connection.thy ===== *)
theory Connection imports Prelude begin

text \<open>
  \<open>project/connection.rs\<close>: the connection of the repository to a server. Each call of \<open>connect\<close> starts a loop that
  authenticates, dials and listens to the dialer until it is cancelled; a lock keeps the loops apart, and
  another lock the calls of \<open>connect\<close> and \<open>disconnect\<close>. The tasks are a transition system: a step takes one of
  them from one await point to the next.

  A loop is named by its cancellation token. The server, the dialer and the timer answer with the inputs of
  the loops. Events carry the loop that sent them; no subscriber lags behind.
\<close>

section \<open>State\<close>

datatype remote_event = RemoteConnected "string option" | RemoteFailed | RemoteCancelled

datatype loop_at =
    LoopStart                     \<comment> \<open>waits for the lock of the connection\<close>
  | Authenticating
  | Dialed "string option"        \<comment> \<open>the dialer's handle is open; the user\<close>
  | LoopSleep
  | LoopEnd

datatype loop_input =
    LockTaken
  | AuthOk "string option"
  | AuthFailed                    \<comment> \<open>handshake, authentication or dialing fail\<close>
  | BadScheme                     \<comment> \<open>the server gives a URL that is not http or https\<close>
  | DialerConnected
  | DialerDisconnected
  | DialerReconnecting
  | DialerGaveUp                  \<comment> \<open>\<open>MaxRetriesReached\<close> or \<open>PermanentFailure\<close>\<close>
  | Reauthenticated
  | ReauthFailed
  | SawCancel
  | SawShutdown
  | TimerFired

text \<open>The call that holds the start lock: it waits for the lock of the connection, or for an event of the loop it
  started, from a position of the event stream on.\<close>

datatype conn_call =
    NoCall
  | ConnectWaits
  | ConnectListens nat nat
  | DisconnectWaits

record conn =
  cn_info :: "(nat \<times> bool) option"            \<comment> \<open>token, and whether there is a handle\<close>
  cn_shutdown :: bool
  cn_cancelled :: "nat set"
  cn_holder :: "nat option"                    \<comment> \<open>of the lock of the connection\<close>
  cn_loops :: "nat \<Rightarrow> loop_at option"
  cn_open :: "nat list"                        \<comment> \<open>open handles\<close>
  cn_events :: "(nat \<times> remote_event) list"
  cn_call :: conn_call
  cn_next :: nat

definition conn_new :: conn where
  "conn_new = \<lparr>cn_info = None, cn_shutdown = False, cn_cancelled = {}, cn_holder = None, cn_loops = (\<lambda>_. None),
     cn_open = [], cn_events = [], cn_call = NoCall, cn_next = 0\<rparr>"

definition has_connection :: "conn \<Rightarrow> bool" where
  "has_connection s \<longleftrightarrow> cn_info s \<noteq> None"

section \<open>The loop\<close>

definition set_loop :: "nat \<Rightarrow> loop_at \<Rightarrow> conn \<Rightarrow> conn" where
  "set_loop n pc s = s\<lparr>cn_loops := (cn_loops s)(n := Some pc)\<rparr>"

definition send_event :: "nat \<Rightarrow> remote_event \<Rightarrow> conn \<Rightarrow> conn" where
  "send_event n e s = s\<lparr>cn_events := cn_events s @ [(n, e)]\<rparr>"

text \<open>Leaving \<open>loop_connection\<close>, also by a panic, releases the lock.\<close>

definition end_loop :: "nat \<Rightarrow> conn \<Rightarrow> conn" where
  "end_loop n s = set_loop n LoopEnd (s\<lparr>cn_holder := None\<rparr>)"

definition close_handle :: "nat \<Rightarrow> conn \<Rightarrow> conn" where
  "close_handle n s = s\<lparr>cn_open := removeAll n (cn_open s)\<rparr>"

text \<open>After \<open>handle_connection\<close> has returned.\<close>

definition after_connection :: "nat \<Rightarrow> conn \<Rightarrow> conn" where
  "after_connection n s =
     (if cn_shutdown s \<or> n \<in> cn_cancelled s then send_event n RemoteCancelled (end_loop n s)
      else send_event n RemoteFailed (set_loop n LoopSleep s))"

fun handle_dialed :: "string option \<Rightarrow> loop_input \<Rightarrow> nat \<Rightarrow> conn \<Rightarrow> conn option" where
  "handle_dialed user DialerConnected n s = Some (send_event n (RemoteConnected user) s)"
| "handle_dialed user DialerDisconnected n s = Some (send_event n RemoteFailed s)"
| "handle_dialed user DialerReconnecting n s = Some s"
| "handle_dialed user Reauthenticated n s = Some s"
| "handle_dialed user DialerGaveUp n s = Some (after_connection n (close_handle n s))"
| "handle_dialed user ReauthFailed n s = Some (after_connection n (close_handle n s))"
| "handle_dialed user SawCancel n s =
     (if n \<in> cn_cancelled s then Some (after_connection n (close_handle n s)) else None)"
| "handle_dialed user SawShutdown n s =
     (if cn_shutdown s
      then Some (after_connection n (close_handle n (s\<lparr>cn_cancelled := insert n (cn_cancelled s)\<rparr>))) else None)"
| "handle_dialed user _ n s = None"

fun handle_repo_connection :: "loop_input \<Rightarrow> nat \<Rightarrow> conn \<Rightarrow> conn option" where
  "handle_repo_connection (AuthOk user) n s =
     (case cn_info s of
        None \<Rightarrow> Some (after_connection n s)
      | Some (t, _) \<Rightarrow> Some (set_loop n (Dialed user) (s\<lparr>cn_info := Some (t, True), cn_open := n # cn_open s\<rparr>)))"
| "handle_repo_connection AuthFailed n s = Some (after_connection n s)"
| "handle_repo_connection BadScheme n s = Some (end_loop n s)"
| "handle_repo_connection _ n s = None"

fun loop_connection :: "loop_at \<Rightarrow> loop_input \<Rightarrow> nat \<Rightarrow> conn \<Rightarrow> conn option" where
  "loop_connection LoopStart inp n s =
     (if inp = LockTaken \<and> cn_holder s = None then Some (set_loop n Authenticating (s\<lparr>cn_holder := Some n\<rparr>)) else None)"
| "loop_connection Authenticating inp n s = handle_repo_connection inp n s"
| "loop_connection (Dialed user) inp n s = handle_dialed user inp n s"
| "loop_connection LoopSleep inp n s =
     (if inp = TimerFired then Some (set_loop n Authenticating s)
      else if inp = SawCancel \<and> n \<in> cn_cancelled s \<or> inp = SawShutdown \<and> cn_shutdown s then Some (end_loop n s)
      else None)"
| "loop_connection LoopEnd inp n s = None"

section \<open>The calls\<close>

definition cancel_current :: "conn \<Rightarrow> conn" where
  "cancel_current s = (case cn_info s of None \<Rightarrow> s | Some (t, _) \<Rightarrow> s\<lparr>cn_cancelled := insert t (cn_cancelled s)\<rparr>)"

definition connect_begin :: "conn \<Rightarrow> conn" where
  "connect_begin s = (cancel_current s)\<lparr>cn_call := ConnectWaits\<rparr>"

definition connect_spawn :: "conn \<Rightarrow> conn" where
  "connect_spawn s = set_loop (cn_next s) LoopStart
     (s\<lparr>cn_info := Some (cn_next s, False), cn_next := cn_next s + 1,
        cn_call := ConnectListens (length (cn_events s)) (cn_next s)\<rparr>)"

text \<open>The result of \<open>connect\<close> for the first event after it subscribed.\<close>

definition connect_result :: "conn \<Rightarrow> bool option" where
  "connect_result s =
     (case cn_call s of
        ConnectListens k _ \<Rightarrow>
          if k < length (cn_events s)
          then Some (case snd (cn_events s ! k) of RemoteConnected _ \<Rightarrow> True | RemoteFailed \<Rightarrow> False | RemoteCancelled \<Rightarrow> False)
          else None
      | _ \<Rightarrow> None)"

definition disconnect_begin :: "conn \<Rightarrow> conn" where
  "disconnect_begin s = (cancel_current s)\<lparr>cn_info := None, cn_call := DisconnectWaits\<rparr>"

inductive conn_step :: "conn \<Rightarrow> conn \<Rightarrow> bool" where
  step_loop: "cn_loops s n = Some pc \<Longrightarrow> loop_connection pc inp n s = Some s' \<Longrightarrow> conn_step s s'"
| step_connect: "cn_call s = NoCall \<Longrightarrow> conn_step s (connect_begin s)"
| step_spawn: "cn_call s = ConnectWaits \<Longrightarrow> cn_holder s = None \<Longrightarrow> conn_step s (connect_spawn s)"
| step_connected: "connect_result s \<noteq> None \<Longrightarrow> conn_step s (s\<lparr>cn_call := NoCall\<rparr>)"
| step_disconnect: "cn_call s = NoCall \<Longrightarrow> conn_step s (disconnect_begin s)"
| step_disconnected: "cn_call s = DisconnectWaits \<Longrightarrow> cn_holder s = None \<Longrightarrow> conn_step s (s\<lparr>cn_call := NoCall\<rparr>)"
| step_shutdown: "conn_step s (s\<lparr>cn_shutdown := True\<rparr>)"

section \<open>One connection at a time\<close>

fun active :: "loop_at option \<Rightarrow> bool" where
  "active (Some Authenticating) \<longleftrightarrow> True"
| "active (Some (Dialed _)) \<longleftrightarrow> True"
| "active (Some LoopSleep) \<longleftrightarrow> True"
| "active _ \<longleftrightarrow> False"

fun is_dialed :: "loop_at option \<Rightarrow> bool" where
  "is_dialed (Some (Dialed _)) \<longleftrightarrow> True"
| "is_dialed _ \<longleftrightarrow> False"

text \<open>The loops: only the one that holds the lock is past its start, and it has the only handle.\<close>

definition loops_inv :: "conn \<Rightarrow> bool" where
  "loops_inv s \<longleftrightarrow>
     (\<forall>n. (active (cn_loops s n) \<longleftrightarrow> cn_holder s = Some n) \<and> (cn_next s \<le> n \<longrightarrow> cn_loops s n = None)) \<and>
     (cn_holder s = None \<longrightarrow> cn_open s = []) \<and>
     (\<forall>n. cn_holder s = Some n \<longrightarrow> cn_open s = (if is_dialed (cn_loops s n) then [n] else []))"

text \<open>The calls: the loop that is waited for is the newest, and all events since are its own.\<close>

definition none_starts :: "conn \<Rightarrow> bool" where
  "none_starts s \<longleftrightarrow> (\<forall>n. cn_loops s n \<noteq> Some LoopStart)"

abbreviation current_token :: "conn \<Rightarrow> nat option" where
  "current_token s \<equiv> map_option fst (cn_info s)"

definition calls_inv :: "conn \<Rightarrow> bool" where
  "calls_inv s \<longleftrightarrow>
     (\<forall>n. cn_holder s = Some n \<longrightarrow> n \<in> cn_cancelled s \<or> current_token s = Some n) \<and>
     (case cn_call s of
        NoCall \<Rightarrow> none_starts s \<and> (cn_info s = None \<longrightarrow> cn_holder s = None)
      | ConnectWaits \<Rightarrow> none_starts s
      | DisconnectWaits \<Rightarrow> none_starts s \<and> cn_info s = None
      | ConnectListens k t \<Rightarrow>
          current_token s = Some t \<and> k \<le> length (cn_events s) \<and> (\<forall>e\<in>set (drop k (cn_events s)). fst e = t) \<and>
          (cn_holder s = None \<or> cn_holder s = Some t) \<and>
          (\<forall>n. cn_loops s n = Some LoopStart \<longrightarrow> n = t \<and> cn_holder s = None \<and> length (cn_events s) = k))"

abbreviation conn_inv :: "conn \<Rightarrow> bool" where
  "conn_inv s \<equiv> loops_inv s \<and> calls_inv s"

lemmas conn_steps = set_loop_def send_event_def end_loop_def close_handle_def after_connection_def

text \<open>What a loop that holds the lock can do.\<close>

lemma holder_known: "loops_inv s \<Longrightarrow> cn_holder s = Some n \<Longrightarrow> n < cn_next s"
  unfolding loops_inv_def by (metis active.simps(4-6) not_le)

lemma keeps_set_loop:
  assumes inv: "conn_inv s" and n: "cn_holder s = Some n" and pc: "active (Some pc)"
    and op: "op = (if is_dialed (Some pc) then [n] else [])" and i: "map_option fst i = current_token s"
  shows "conn_inv (set_loop n pc (s\<lparr>cn_info := i, cn_open := op\<rparr>))"
proof
  have "n < cn_next s" using holder_known inv n by blast
  moreover have "active (((cn_loops s)(n := Some pc)) m) \<longleftrightarrow> cn_holder s = Some m" for m
    using inv n pc by (cases "m = n") (simp_all add: loops_inv_def)
  ultimately show "loops_inv (set_loop n pc (s\<lparr>cn_info := i, cn_open := op\<rparr>))"
    using inv n op by (simp add: loops_inv_def set_loop_def)
  have "pc \<noteq> LoopStart" using pc by auto
  then have start: "((cn_loops s)(n := Some pc)) m = Some LoopStart \<longleftrightarrow> cn_loops s m = Some LoopStart \<and> m \<noteq> n" for m
    by simp
  show "calls_inv (set_loop n pc (s\<lparr>cn_info := i, cn_open := op\<rparr>))"
  proof (cases "cn_call s")
    case NoCall
    with inv i start show ?thesis by (auto simp: calls_inv_def set_loop_def none_starts_def)
  next
    case ConnectWaits
    with inv i start show ?thesis by (auto simp: calls_inv_def set_loop_def none_starts_def)
  next
    case (ConnectListens k t)
    with inv i start n show ?thesis by (simp add: calls_inv_def set_loop_def)
  next
    case DisconnectWaits
    with inv i start show ?thesis by (auto simp: calls_inv_def set_loop_def none_starts_def)
  qed
qed

lemma keeps_end_loop:
  assumes inv: "conn_inv s" and n: "cn_holder s = Some n"
  shows "conn_inv (end_loop n (s\<lparr>cn_open := []\<rparr>))"
proof
  have "n < cn_next s" using holder_known inv n by blast
  moreover have "\<not> active (((cn_loops s)(n := Some LoopEnd)) m)" for m
    using inv n by (cases "m = n") (simp_all add: loops_inv_def)
  ultimately show "loops_inv (end_loop n (s\<lparr>cn_open := []\<rparr>))"
    using inv by (simp add: loops_inv_def set_loop_def end_loop_def)
  show "calls_inv (end_loop n (s\<lparr>cn_open := []\<rparr>))"
    using inv n by (cases "cn_call s") (simp_all add: calls_inv_def set_loop_def end_loop_def none_starts_def)
qed

lemma keeps_send:
  assumes "conn_inv s" and "\<And>k t. cn_call s = ConnectListens k t \<Longrightarrow> n = t \<and> cn_loops s t \<noteq> Some LoopStart"
  shows "conn_inv (send_event n e s)"
proof
  show "loops_inv (send_event n e s)" using assms(1) by (simp add: loops_inv_def send_event_def)
  show "calls_inv (send_event n e s)"
    using assms by (cases "cn_call s") (auto simp: calls_inv_def send_event_def none_starts_def)
qed

lemma keeps_frame:
  assumes "conn_inv s" and "cn_cancelled s \<subseteq> c"
  shows "conn_inv (s\<lparr>cn_cancelled := c, cn_shutdown := b\<rparr>)"
proof
  show "loops_inv (s\<lparr>cn_cancelled := c, cn_shutdown := b\<rparr>)" using assms(1) by (simp add: loops_inv_def)
  show "calls_inv (s\<lparr>cn_cancelled := c, cn_shutdown := b\<rparr>)"
    using assms by (cases "cn_call s") (auto simp: calls_inv_def none_starts_def)
qed

lemma holder_call:
  assumes "conn_inv s" and "cn_holder s = Some n" and "cn_call s = ConnectListens k t"
  shows "n = t \<and> cn_loops s t \<noteq> Some LoopStart"
  using assms by (auto simp: calls_inv_def)

lemma keeps_after_connection:
  assumes inv: "conn_inv s" and n: "cn_holder s = Some n"
  shows "conn_inv (after_connection n (s\<lparr>cn_open := []\<rparr>))"
proof (cases "cn_shutdown s \<or> n \<in> cn_cancelled s")
  case True
  have "conn_inv (send_event n RemoteCancelled (end_loop n (s\<lparr>cn_open := []\<rparr>)))"
    using holder_call [OF inv n]
    by (intro keeps_send keeps_end_loop [OF inv n]) (auto simp: end_loop_def set_loop_def)
  with True show ?thesis by (simp add: after_connection_def)
next
  case False
  have "conn_inv (set_loop n LoopSleep (s\<lparr>cn_info := cn_info s, cn_open := []\<rparr>))"
    using inv n by (intro keeps_set_loop) simp_all
  then have "conn_inv (send_event n RemoteFailed (set_loop n LoopSleep (s\<lparr>cn_open := []\<rparr>)))"
    using holder_call [OF inv n] by (intro keeps_send) (auto simp: set_loop_def)
  with False show ?thesis by (simp add: after_connection_def)
qed

lemma loop_step_inv:
  assumes inv: "conn_inv s" and pc: "cn_loops s n = Some pc" and run: "loop_connection pc inp n s = Some s'"
  shows "conn_inv s'"
proof (cases "pc = LoopStart")
  case True
  with run have free: "cn_holder s = None" and s': "s' = set_loop n Authenticating (s\<lparr>cn_holder := Some n\<rparr>)"
    by (auto split: if_splits)
  obtain k where call: "cn_call s = ConnectListens k n" "current_token s = Some n" "length (cn_events s) = k"
    using inv pc True by (cases "cn_call s") (auto simp: calls_inv_def none_starts_def)
  have known: "n < cn_next s" using inv pc unfolding loops_inv_def by (metis not_le option.distinct(1))
  have "active (((cn_loops s)(n := Some Authenticating)) m) \<longleftrightarrow> m = n" for m
    using inv free by (cases "m = n") (simp_all add: loops_inv_def)
  then have "loops_inv s'" using inv free known by (auto simp: loops_inv_def s' set_loop_def)
  moreover have "calls_inv s'" using inv call by (auto simp: calls_inv_def s' set_loop_def)
  ultimately show ?thesis by blast
next
  case False
  with run have "pc \<noteq> LoopEnd" by auto
  with False have act: "active (Some pc)" by (cases pc) auto
  with inv pc have n: "cn_holder s = Some n" unfolding loops_inv_def by metis
  have op: "cn_open s = (if is_dialed (Some pc) then [n] else [])" using inv n pc by (simp add: loops_inv_def)
  have close: "close_handle n s = s\<lparr>cn_open := []\<rparr>" by (simp add: close_handle_def op)
  have same: "s\<lparr>cn_open := []\<rparr> = s" if "\<not> is_dialed (Some pc)" using op that by simp
  show ?thesis
  proof (cases pc)
    case Authenticating
    note closed = same [unfolded Authenticating, simplified]
    show ?thesis
    proof (cases inp)
      case (AuthOk user)
      show ?thesis
      proof (cases "cn_info s")
        case None
        with run Authenticating AuthOk keeps_after_connection [OF inv n] show ?thesis by (simp add: closed)
      next
        case (Some i)
        with run Authenticating AuthOk op
        have "s' = set_loop n (Dialed user) (s\<lparr>cn_info := Some (fst i, True), cn_open := [n]\<rparr>)"
          by (auto split: prod.splits)
        with keeps_set_loop [OF inv n, of "Dialed user" "[n]" "Some (fst i, True)"] Some show ?thesis by simp
      qed
    qed (use run Authenticating keeps_after_connection [OF inv n] keeps_end_loop [OF inv n] in \<open>simp_all add: closed\<close>)
  next
    case (Dialed user)
    have send: "conn_inv (send_event n e s)" for e
      using holder_call [OF inv n] by (intro keeps_send [OF inv]) auto
    have after: "conn_inv (after_connection n (close_handle n s))"
      unfolding close by (rule keeps_after_connection [OF inv n])
    have "conn_inv (s\<lparr>cn_cancelled := insert n (cn_cancelled s), cn_shutdown := cn_shutdown s\<rparr>)"
      by (rule keeps_frame [OF inv]) auto
    from keeps_after_connection [OF this]
    have "conn_inv (after_connection n (close_handle n (s\<lparr>cn_cancelled := insert n (cn_cancelled s)\<rparr>)))"
      using n by (simp add: close_handle_def op Dialed)
    with Dialed run send after inv show ?thesis by (cases inp) (auto split: if_splits)
  next
    case LoopSleep
    note closed = same [unfolded LoopSleep, simplified]
    have "conn_inv (set_loop n Authenticating (s\<lparr>cn_info := cn_info s, cn_open := []\<rparr>))"
      using inv n by (intro keeps_set_loop) simp_all
    with run LoopSleep keeps_end_loop [OF inv n] show ?thesis by (auto simp: closed split: if_splits)
  qed (use act in simp_all)
qed

lemma call_step_inv:
  assumes inv: "conn_inv s"
  shows "cn_call s = NoCall \<Longrightarrow> conn_inv (connect_begin s)"
    and "cn_call s = ConnectWaits \<Longrightarrow> cn_holder s = None \<Longrightarrow> conn_inv (connect_spawn s)"
    and "connect_result s \<noteq> None \<Longrightarrow> conn_inv (s\<lparr>cn_call := NoCall\<rparr>)"
    and "cn_call s = NoCall \<Longrightarrow> conn_inv (disconnect_begin s)"
    and "cn_call s = DisconnectWaits \<Longrightarrow> cn_holder s = None \<Longrightarrow> conn_inv (s\<lparr>cn_call := NoCall\<rparr>)"
proof -
  have frame: "loops_inv (s\<lparr>cn_call := c\<rparr>)" "loops_inv (s\<lparr>cn_cancelled := x, cn_call := c\<rparr>)"
    "loops_inv (s\<lparr>cn_cancelled := x, cn_info := i, cn_call := c\<rparr>)" "loops_inv (s\<lparr>cn_info := i, cn_call := c\<rparr>)" for c x i
    using inv by (simp_all add: loops_inv_def)
  show "conn_inv (connect_begin s)" if "cn_call s = NoCall"
    using inv that frame
    by (auto simp: connect_begin_def cancel_current_def calls_inv_def none_starts_def split: option.splits)
  show "conn_inv (disconnect_begin s)" if "cn_call s = NoCall"
    using inv that frame
    by (auto simp: disconnect_begin_def cancel_current_def calls_inv_def none_starts_def split: option.splits)
  show "conn_inv (s\<lparr>cn_call := NoCall\<rparr>)" if "cn_call s = DisconnectWaits" "cn_holder s = None"
    using inv that frame by (auto simp: calls_inv_def none_starts_def)
  show "conn_inv (s\<lparr>cn_call := NoCall\<rparr>)" if result: "connect_result s \<noteq> None"
  proof -
    from result obtain k t where "cn_call s = ConnectListens k t" "k < length (cn_events s)"
      by (auto simp: connect_result_def split: conn_call.splits if_splits)
    with inv frame show ?thesis by (auto simp: calls_inv_def none_starts_def)
  qed
  show "conn_inv (connect_spawn s)" if call: "cn_call s = ConnectWaits" "cn_holder s = None"
  proof
    have free: "cn_loops s (cn_next s) = None" using inv by (simp add: loops_inv_def)
    have "\<not> active (((cn_loops s)(cn_next s := Some LoopStart)) m)" for m
      using inv call by (cases "m = cn_next s") (simp_all add: loops_inv_def)
    then show "loops_inv (connect_spawn s)" using inv call by (auto simp: loops_inv_def connect_spawn_def set_loop_def)
    show "calls_inv (connect_spawn s)"
      using inv call by (auto simp: calls_inv_def none_starts_def connect_spawn_def set_loop_def split: if_splits)
  qed
qed

lemma conn_inv_step: "conn_step s s' \<Longrightarrow> conn_inv s \<Longrightarrow> conn_inv s'"
proof (induction rule: conn_step.induct)
  case (step_loop s n pc inp s')
  from loop_step_inv [OF this(3,1,2)] show ?case .
next
  case (step_connect s)
  from call_step_inv(1) [OF this(2,1)] show ?case .
next
  case (step_spawn s)
  from call_step_inv(2) [OF this(3,1,2)] show ?case .
next
  case (step_connected s)
  from call_step_inv(3) [OF this(2,1)] show ?case .
next
  case (step_disconnect s)
  from call_step_inv(4) [OF this(2,1)] show ?case .
next
  case (step_disconnected s)
  from call_step_inv(5) [OF this(3,1,2)] show ?case .
next
  case (step_shutdown s)
  from keeps_frame [OF this, of "cn_cancelled s" True] show ?case by simp
qed

interpretation connections: step_system "\<lambda>s. s = conn_new" conn_step conn_inv
proof
  show "conn_inv s" if "s = conn_new" for s
    using that by (simp add: loops_inv_def calls_inv_def none_starts_def conn_new_def)
qed (rule conn_inv_step)

text \<open>C27: whatever the server, the dialer and the callers do, at most one handle is open, it belongs to the loop that
  holds the lock of the connection, and a loop that is not the current one was cancelled. Once \<open>disconnect\<close>
  has returned, no loop runs and no handle is open until the next \<open>connect\<close>.\<close>

theorem one_connection:
  assumes "reachable (\<lambda>s. s = conn_new) conn_step s"
  shows "length (cn_open s) \<le> 1 \<and> (\<forall>n\<in>set (cn_open s). cn_holder s = Some n) \<and>
    (\<forall>n. cn_holder s = Some n \<longrightarrow> n \<in> cn_cancelled s \<or> current_token s = Some n) \<and>
    (cn_call s = NoCall \<and> \<not> has_connection s \<longrightarrow> cn_open s = [] \<and> (\<forall>n. \<not> active (cn_loops s n)))"
proof -
  from connections.inv_reachable [OF assms] have "loops_inv s" "calls_inv s" by auto
  then show ?thesis
    by (cases "cn_holder s") (auto simp: loops_inv_def calls_inv_def has_connection_def split: if_splits)
qed

text \<open>The answer of \<open>connect\<close> is about its own attempt: the event that it returns on was sent by the loop it
  started, and this loop is still the current one.\<close>

theorem connect_answers_own_loop:
  assumes "reachable (\<lambda>s. s = conn_new) conn_step s" and "cn_call s = ConnectListens k t"
    and "connect_result s = Some b"
  shows "fst (cn_events s ! k) = t \<and> current_token s = Some t \<and> (b \<longrightarrow> (\<exists>u. cn_events s ! k = (t, RemoteConnected u)))"
proof -
  from assms(2,3) have k: "k < length (cn_events s)" by (auto simp: connect_result_def split: if_splits)
  from connections.inv_reachable [OF assms(1)] assms(2)
  have "\<forall>e\<in>set (drop k (cn_events s)). fst e = t" and t: "current_token s = Some t" by (auto simp: calls_inv_def)
  with k have "fst (cn_events s ! k) = t" by (metis Cons_nth_drop_Suc list.set_intros(1))
  with t k assms(2,3) show ?thesis
    by (cases "cn_events s ! k") (auto simp: connect_result_def split: remote_event.splits)
qed

section \<open>Calls without an answer\<close>

text \<open>When the loop that is listened to has ended, nothing happens any more.\<close>

definition deaf :: "nat \<Rightarrow> nat \<Rightarrow> conn \<Rightarrow> bool" where
  "deaf k t s \<longleftrightarrow> cn_call s = ConnectListens k t \<and> cn_loops s t = Some LoopEnd \<and> length (cn_events s) = k \<and>
     cn_holder s = None"

lemma deaf_step:
  assumes "conn_step s s'" and "conn_inv s" and "deaf k t s"
  shows "deaf k t s'"
proof -
  have silent: "loop_connection pc inp n s = None" if "cn_loops s n = Some pc" for pc inp n
  proof -
    have "\<not> active (Some pc)" using assms(2,3) that unfolding loops_inv_def deaf_def by (metis option.distinct(1))
    moreover have "pc \<noteq> LoopStart" using assms(2,3) that by (auto simp: calls_inv_def deaf_def)
    ultimately show ?thesis by (cases pc) auto
  qed
  show ?thesis
    using assms(1)
  proof cases
    case (step_loop n pc inp)
    with silent show ?thesis by simp
  qed (use assms(3) in \<open>auto simp: deaf_def connect_result_def\<close>)
qed

text \<open>When the server that \<open>connect\<close> is called with names a URL that is not http or https, the loop panics and
  \<open>connect\<close> never returns: it keeps waiting for an event whatever happens, and since it holds the start
  lock no later \<open>connect\<close> or \<open>disconnect\<close> can begin.\<close>

theorem bad_scheme_blocks_connect:
  assumes "reachable (\<lambda>s. s = conn_new) conn_step s" and "cn_call s = ConnectListens k t"
    and "cn_loops s t = Some Authenticating" and "length (cn_events s) = k"
    and "loop_connection Authenticating BadScheme t s = Some s1" and "conn_step\<^sup>*\<^sup>* s1 s'"
  shows "cn_call s' = ConnectListens k t \<and> connect_result s' = None"
proof -
  have step: "conn_step s s1" using assms(3,5) by (rule step_loop)
  have inv: "conn_inv s1" by (rule connections.inv_reachable [OF reachable_step [OF assms(1) step]])
  have "deaf k t s1" using assms(2,4,5) by (auto simp: deaf_def end_loop_def set_loop_def)
  with assms(6) have "deaf k t s'"
  proof (induction rule: rtranclp_induct)
    case (step x y)
    from connections.inv_steps [OF step.hyps(1) inv] step.hyps(2) step.IH [OF step.prems] show ?case
      by (auto intro: deaf_step)
  qed
  then show ?thesis by (auto simp: deaf_def connect_result_def)
qed

text \<open>A connection that is cancelled in the pause between two attempts ends without an event: \<open>disconnect\<close> can
  return and leave no loop, and who listened for an event of the connection gets none.\<close>

theorem cancel_in_pause_silent:
  assumes "reachable (\<lambda>s. s = conn_new) conn_step s" and "cn_loops s n = Some LoopSleep"
    and "current_token s = Some n" and "cn_call s = NoCall"
  shows "\<exists>s'. conn_step\<^sup>*\<^sup>* s s' \<and> cn_call s' = NoCall \<and> \<not> has_connection s' \<and> cn_events s' = cn_events s \<and>
    (\<forall>m inp pc. cn_loops s' m = Some pc \<longrightarrow> loop_connection pc inp m s' = None)"
proof -
  from connections.inv_reachable [OF assms(1)] have inv: "conn_inv s" .
  with assms(2) have holder: "cn_holder s = Some n" unfolding loops_inv_def by (metis active.simps(3))
  define s1 where "s1 = disconnect_begin s"
  define s2 where "s2 = end_loop n s1"
  have s1: "cn_loops s1 n = Some LoopSleep" "n \<in> cn_cancelled s1" "cn_call s1 = DisconnectWaits" "cn_info s1 = None"
    "cn_events s1 = cn_events s"
    using assms(2,3) by (auto simp: s1_def disconnect_begin_def cancel_current_def split: option.split)
  have "conn_step s s1" unfolding s1_def using assms(4) by (rule step_disconnect)
  moreover have "conn_step s1 s2"
    by (rule step_loop [OF s1(1), of SawCancel]) (simp add: s1(2) s2_def)
  moreover have s2: "cn_call s2 = DisconnectWaits" "cn_holder s2 = None" "cn_info s2 = None" "cn_events s2 = cn_events s"
    using s1 by (simp_all add: s2_def end_loop_def set_loop_def)
  then have "conn_step s2 (s2\<lparr>cn_call := NoCall\<rparr>)" by (intro step_disconnected)
  ultimately have steps: "conn_step\<^sup>*\<^sup>* s (s2\<lparr>cn_call := NoCall\<rparr>)"
    by (meson converse_rtranclp_into_rtranclp r_into_rtranclp)
  have "conn_inv (s2\<lparr>cn_call := NoCall\<rparr>)" by (rule connections.inv_steps [OF steps inv])
  then have "\<not> active (cn_loops s2 m) \<and> cn_loops s2 m \<noteq> Some LoopStart" for m
    using s2(2) by (simp add: loops_inv_def calls_inv_def none_starts_def)
  then have "loop_connection pc inp m (s2\<lparr>cn_call := NoCall\<rparr>) = None" if "cn_loops s2 m = Some pc" for m inp pc
  proof -
    from that \<open>\<And>m. \<not> active (cn_loops s2 m) \<and> cn_loops s2 m \<noteq> Some LoopStart\<close> [of m]
    have "\<not> active (Some pc) \<and> pc \<noteq> LoopStart" by simp
    then show ?thesis by (cases pc) simp_all
  qed
  with steps s2 show ?thesis
    by (intro exI [of _ "s2\<lparr>cn_call := NoCall\<rparr>"]) (simp add: has_connection_def)
qed

section \<open>Witnesses\<close>

definition demo_listening :: conn where
  "demo_listening = connect_spawn (connect_begin conn_new)"

definition demo_authenticating :: conn where
  "demo_authenticating = set_loop 0 Authenticating (demo_listening\<lparr>cn_holder := Some 0\<rparr>)"

lemma demo_authenticating_reachable: "reachable (\<lambda>s. s = conn_new) conn_step demo_authenticating"
proof -
  have "conn_step conn_new (connect_begin conn_new)" by (rule step_connect) (simp add: conn_new_def)
  moreover have "conn_step (connect_begin conn_new) demo_listening"
    unfolding demo_listening_def by (rule step_spawn) (simp_all add: connect_begin_def cancel_current_def conn_new_def)
  moreover have "conn_step demo_listening demo_authenticating"
    by (rule step_loop [of _ 0 LoopStart LockTaken])
      (simp_all add: demo_authenticating_def demo_listening_def connect_spawn_def connect_begin_def cancel_current_def
        conn_new_def set_loop_def)
  ultimately show ?thesis by (intro reachable_step [OF reachable_step [OF reachable_step [OF reachable_init]]]) simp_all
qed

lemma demo_authenticating_simps:
  "cn_call demo_authenticating = ConnectListens 0 0" "cn_loops demo_authenticating 0 = Some Authenticating"
  "cn_events demo_authenticating = []" "cn_info demo_authenticating = Some (0, False)" "cn_cancelled demo_authenticating = {}"
  "cn_shutdown demo_authenticating = False" "cn_open demo_authenticating = []" "cn_holder demo_authenticating = Some 0"
  by (simp_all add: demo_authenticating_def demo_listening_def connect_spawn_def connect_begin_def cancel_current_def
      conn_new_def set_loop_def)

text \<open>The first attempt succeeds, or fails.\<close>

lemma demo_steps:
  "reachable (\<lambda>s. s = conn_new) conn_step
     (send_event 0 (RemoteConnected None) (set_loop 0 (Dialed None) (demo_authenticating\<lparr>cn_info := Some (0, True), cn_open := [0]\<rparr>)))"
  "reachable (\<lambda>s. s = conn_new) conn_step (send_event 0 RemoteFailed (set_loop 0 LoopSleep demo_authenticating))"
proof -
  let ?d = "set_loop 0 (Dialed None) (demo_authenticating\<lparr>cn_info := Some (0, True), cn_open := [0]\<rparr>)"
  have "conn_step demo_authenticating ?d"
    by (rule step_loop [of _ 0 Authenticating "AuthOk None"]) (simp_all add: demo_authenticating_simps)
  moreover have "conn_step ?d (send_event 0 (RemoteConnected None) ?d)"
    by (rule step_loop [of _ 0 "Dialed None" DialerConnected]) (simp_all add: set_loop_def)
  ultimately show "reachable (\<lambda>s. s = conn_new) conn_step (send_event 0 (RemoteConnected None) ?d)"
    using demo_authenticating_reachable by (meson reachable_step)
  have "conn_step demo_authenticating (send_event 0 RemoteFailed (set_loop 0 LoopSleep demo_authenticating))"
    by (rule step_loop [of _ 0 Authenticating AuthFailed]) (simp_all add: demo_authenticating_simps after_connection_def)
  then show "reachable (\<lambda>s. s = conn_new) conn_step (send_event 0 RemoteFailed (set_loop 0 LoopSleep demo_authenticating))"
    using demo_authenticating_reachable by (meson reachable_step)
qed

theorem one_connection_witness:
  "cn_open (send_event 0 (RemoteConnected None) (set_loop 0 (Dialed None)
      (demo_authenticating\<lparr>cn_info := Some (0, True), cn_open := [0]\<rparr>))) = [0] \<and>
   cn_holder (send_event 0 (RemoteConnected None) (set_loop 0 (Dialed None)
      (demo_authenticating\<lparr>cn_info := Some (0, True), cn_open := [0]\<rparr>))) = Some 0"
  using one_connection [OF demo_steps(1)] by (simp add: send_event_def set_loop_def)

theorem connect_answers_own_loop_witness:
  "\<exists>u. cn_events (send_event 0 (RemoteConnected None) (set_loop 0 (Dialed None)
      (demo_authenticating\<lparr>cn_info := Some (0, True), cn_open := [0]\<rparr>))) ! 0 = (0, RemoteConnected u)"
  using connect_answers_own_loop [OF demo_steps(1), of 0 0 True]
  by (simp add: connect_result_def send_event_def set_loop_def demo_authenticating_simps)

theorem bad_scheme_blocks_connect_witness:
  "\<exists>s1. loop_connection Authenticating BadScheme 0 demo_authenticating = Some s1 \<and> connect_result s1 = None \<and>
    (\<forall>s'. conn_step\<^sup>*\<^sup>* s1 s' \<longrightarrow> cn_call s' = ConnectListens 0 0)"
proof -
  let ?s1 = "end_loop 0 demo_authenticating"
  have "loop_connection Authenticating BadScheme 0 demo_authenticating = Some ?s1" by simp
  from bad_scheme_blocks_connect [OF demo_authenticating_reachable demo_authenticating_simps(1,2) _ this]
  show ?thesis by (simp add: demo_authenticating_simps)
qed

theorem cancel_in_pause_silent_witness:
  "\<exists>s s'. cn_loops s 0 = Some LoopSleep \<and> conn_step\<^sup>*\<^sup>* s s' \<and> \<not> has_connection s' \<and> cn_events s' = cn_events s"
proof -
  let ?s = "(send_event 0 RemoteFailed (set_loop 0 LoopSleep demo_authenticating))\<lparr>cn_call := NoCall\<rparr>"
  have "conn_step (send_event 0 RemoteFailed (set_loop 0 LoopSleep demo_authenticating)) ?s"
    by (rule step_connected) (simp add: connect_result_def send_event_def set_loop_def demo_authenticating_simps)
  with demo_steps(2) have reach: "reachable (\<lambda>s. s = conn_new) conn_step ?s" by (rule reachable_step)
  have s: "cn_loops ?s 0 = Some LoopSleep" "current_token ?s = Some 0" "cn_call ?s = NoCall"
    by (simp_all add: send_event_def set_loop_def demo_authenticating_simps)
  from cancel_in_pause_silent [OF reach s] s(1) show ?thesis by blast
qed

end
