(* ===== verification/Project_Start.thy ===== *)
theory Project_Start imports Driver Document_Watcher Config_File Connection begin

text \<open>
  \<open>project/project_starter.rs\<close> and the loading of a project in \<open>project/driver.rs\<close>: how a project is found in
  the repository or on the server, on which branch it is opened, and what happens to local changes.

  What the repository answers, the state of the connection and what the document watcher has done when
  the load waits for a branch are the record \<open>load_world\<close>, one for each attempt. Waiting that never ends
  is \<open>Diverges\<close>.
\<close>

section \<open>Loading\<close>

datatype load_server_status = ServerConnected | ServerDisconnected | ServerFailed

datatype ('d, 'h) load_error =
    MetadataIdNotFound load_server_status
  | BranchDocNotFound load_server_status
  | LinkedDocNotFound load_server_status       \<comment> \<open>\<open>BinaryDocNotFound\<close>\<close>
  | LoadRepoStopped
  | LoadDb "('d, 'h) db_error"
  | NotIngested
  | ServerError

record ('d, 'doc, 'h) load_world =
  lw_find :: find_result                        \<comment> \<open>the first look for the metadata document\<close>
  lw_find_again :: find_result
  lw_has_connection :: bool
  lw_is_connected :: bool
  lw_events :: "remote_event list"              \<comment> \<open>of the connection from then on\<close>
  lw_watch :: "'d \<Rightarrow> 64 word \<Rightarrow> ('d, 'doc, 'h) project_db \<Rightarrow> ('d, 'doc, 'h) watcher"

text \<open>No result when the events end: the loop polls the ended stream again and again.\<close>

fun ensure_from :: "nat \<Rightarrow> nat \<Rightarrow> remote_event list \<Rightarrow> bool option" where
  "ensure_from retries attempt [] = None"
| "ensure_from retries attempt (RemoteConnected _ # events) = Some True"
| "ensure_from retries attempt (RemoteFailed # events) =
     (if attempt < retries then ensure_from retries (attempt + 1) events else Some False)"
| "ensure_from retries attempt (RemoteCancelled # events) = Some False"

definition ensure_server_connection :: "bool \<Rightarrow> nat \<Rightarrow> remote_event list \<Rightarrow> bool option" where
  "ensure_server_connection connected retries events = (if connected then Some True else ensure_from retries 0 events)"

definition found_doc :: "find_result \<Rightarrow> (('d, 'h) load_error, bool) outcome" where
  "found_doc r = (case r of FindError \<Rightarrow> Inl (Err LoadRepoStopped) | DocFound \<Rightarrow> Inr True | DocMissing \<Rightarrow> Inr False)"

definition get_metadata_handle :: "('d, 'doc, 'h) load_world \<Rightarrow> (('d, 'h) load_error, unit) outcome" where
  "get_metadata_handle W =
     rbind (found_doc (lw_find W)) (\<lambda>found.
     if found then Inr ()
     else if \<not> lw_has_connection W then Inl (Err (MetadataIdNotFound ServerDisconnected))
     else rbind (returned (ensure_server_connection (lw_is_connected W) 1 (lw_events W))) (\<lambda>connected.
          if \<not> connected then Inl (Err (MetadataIdNotFound ServerFailed))
          else rbind (found_doc (lw_find_again W)) (\<lambda>found.
               if found then Inr () else Inl (Err (MetadataIdNotFound ServerConnected)))))"

text \<open>Errors of the database as errors of the load.\<close>

definition load_db :: "('s, ('d, 'h) db_error, 'a) run \<Rightarrow> ('s, ('d, 'h) load_error, 'a) run" where
  "load_db m = sbind (stry m) (\<lambda>r. case r of Inl e \<Rightarrow> sfail (Err (LoadDb e)) | Inr x \<Rightarrow> sret x)"

definition load_branch ::
  "load_server_status \<Rightarrow> 'd \<Rightarrow> ('d, 'doc, 'h) watcher \<Rightarrow> (('d, 'h) load_error, unit) outcome" where
  "load_branch server_status branch w =
     rbind (returned (wait_for_branch_ingest branch w)) (\<lambda>waited.
     case waited of
       Inl _ \<Rightarrow> Inl (Err (BranchDocNotFound server_status))
     | Inr _ \<Rightarrow>
         (case wait_for_shadow_doc branch (pd_states (dw_db w)) of
            Inl _ \<Rightarrow> Inl (Err NotIngested)
          | Inr False \<Rightarrow> Inl Diverges
          | Inr True \<Rightarrow>
              (case canonical_branch_status branch (pd_states (dw_db w)) of
                 CPending \<Rightarrow> Inl (Err NotIngested)
               | BranchNotIngested \<Rightarrow> Inl (Err NotIngested)
               | BinaryDocNotFound \<Rightarrow> Inl (Err (LinkedDocNotFound server_status))
               | Healthy \<Rightarrow> Inr ())))"

definition load_project ::
  "('d, 'doc, 'h) load_world \<Rightarrow> 'd \<Rightarrow> 'd option \<Rightarrow> (('d, 'doc, 'h, 'x) driver, ('d, 'h) load_error, unit) run" where
  "load_project W metadata_id branch_id =
     sbind (sgets (\<lambda>_. get_metadata_handle W)) (\<lambda>_.
     sbind (smodify (\<lambda>s. s\<lparr>dr_db := (dr_db s)\<lparr>pd_states := clear_branch_states (pd_states (dr_db s))\<rparr>\<rparr>)) (\<lambda>_.
     let server_status = (if lw_has_connection W then ServerConnected else ServerDisconnected);
         poll_time = (if server_status = ServerConnected then 15000 else 0)
     in sbind (sgets (\<lambda>s. Inr (lw_watch W metadata_id poll_time (dr_db s)))) (\<lambda>watcher.
        sbind (smodify (\<lambda>s. s\<lparr>dr_db := dw_db watcher\<rparr>)) (\<lambda>_.
        sbind (case branch_id of
                 Some branch \<Rightarrow> sret branch
               | None \<Rightarrow> load_db (sgets (\<lambda>s. get_main_branch (dr_db s)))) (\<lambda>branch_id.
        sgets (\<lambda>_. load_branch server_status branch_id watcher))))))"

section \<open>Trying again\<close>

datatype ('d, 'h) start_error =
    DriverLoad "('d, 'h) load_error"
  | DriverCreate
  | Oneshot
  | DocumentIdNotFound
  | MainBranchNotFound
  | DocumentIdInvalid

record load_success =
  found_locally :: bool
  found_on_provided_branch :: bool

text \<open>Authentication at the server is an argument. \<open>connect\<close> itself returns no error.\<close>

definition start_connection :: "('d, 'h) load_error option \<Rightarrow> ('s, ('d, 'h) load_error, unit) run" where
  "start_connection auth = (case auth of None \<Rightarrow> sret () | Some e \<Rightarrow> sfail (Err e))"

text \<open>The last attempt, on the main branch; missing binary documents are accepted.\<close>

definition load_main ::
  "bool \<Rightarrow> ('d, 'doc, 'h) load_world \<Rightarrow> 'd \<Rightarrow> (('d, 'doc, 'h, 'x) driver, ('d, 'h) start_error, load_success) run" where
  "load_main locally W metadata_id =
     sbind (stry (load_project W metadata_id None)) (\<lambda>r.
     let success = \<lparr>found_locally = locally, found_on_provided_branch = False\<rparr>
     in case r of
          Inr _ \<Rightarrow> sret success
        | Inl (MetadataIdNotFound _) \<Rightarrow> sfail (Err DocumentIdNotFound)
        | Inl (BranchDocNotFound _) \<Rightarrow> sfail (Err MainBranchNotFound)
        | Inl (LinkedDocNotFound _) \<Rightarrow> sret success
        | Inl e \<Rightarrow> sfail (Err (DriverLoad e)))"

definition load_remotely ::
  "('d, 'doc, 'h) load_world \<Rightarrow> ('d, 'doc, 'h) load_world \<Rightarrow> 'd \<Rightarrow> 'd option \<Rightarrow>
   (('d, 'doc, 'h, 'x) driver, ('d, 'h) start_error, load_success) run" where
  "load_remotely W W' metadata_id branch_id =
     sbind (stry (load_project W metadata_id branch_id)) (\<lambda>r.
     let success = \<lparr>found_locally = False, found_on_provided_branch = True\<rparr>
     in case r of
          Inr _ \<Rightarrow> sret success
        | Inl (MetadataIdNotFound _) \<Rightarrow> sfail (Err DocumentIdNotFound)
        | Inl (BranchDocNotFound _) \<Rightarrow> load_main False W' metadata_id
        | Inl (LinkedDocNotFound _) \<Rightarrow> sret success
        | Inl e \<Rightarrow> sfail (Err (DriverLoad e)))"

text \<open>The worlds of the attempts: the first, the second and the third. \<open>server\<close> says whether there is a URL.\<close>

definition try_and_retry_load ::
  "('d, 'doc, 'h) load_world \<times> ('d, 'doc, 'h) load_world \<times> ('d, 'doc, 'h) load_world \<Rightarrow> bool \<Rightarrow> ('d, 'h) load_error option \<Rightarrow>
   'd \<Rightarrow> 'd option \<Rightarrow> (('d, 'doc, 'h, 'x) driver, ('d, 'h) start_error, load_success) run" where
  "try_and_retry_load = (\<lambda>(W1, W2, W3) server auth metadata_id branch_id.
     let again =
       (if \<not> server then load_main True W2 metadata_id
        else sbind (stry (start_connection auth)) (\<lambda>r.
             case r of Inl e \<Rightarrow> sfail (Err (DriverLoad e)) | Inr _ \<Rightarrow> load_remotely W2 W3 metadata_id branch_id))
     in sbind (stry (load_project W1 metadata_id branch_id)) (\<lambda>r.
        case r of
          Inr _ \<Rightarrow> sret \<lparr>found_locally = True, found_on_provided_branch = True\<rparr>
        | Inl (MetadataIdNotFound _) \<Rightarrow> if server then again else sfail (Err DocumentIdNotFound)
        | Inl (BranchDocNotFound _) \<Rightarrow> again
        | Inl (LinkedDocNotFound _) \<Rightarrow> again
        | Inl e \<Rightarrow> sfail (Err (DriverLoad e))))"

section \<open>Starting\<close>

datatype create_mode = ModeNew | ManuallyLoaded | AutoLoaded

datatype ('d, 'h) start_status =
    NotStarted
  | Starting
  | NeedsCheckIn "(string, change_type) hmap"
  | StartDone
  | StartFailed "('d, 'h) start_error"

datatype local_changes_result = CheckIn | Discard

text \<open>The parts of a project that starting it changes: the driver, the status as sent to the editor, and the settings.\<close>

record ('d, 'doc, 'h, 'x) starter =
  sr_driver :: "('d, 'doc, 'h, 'x) driver"
  sr_status :: "('d, 'h) start_status list"
  sr_config :: toml_file

record ('s, 'doc, 'h, 'v, 'o, 'd, 'x, 'u) start_env =
  se_driver :: "('s, 'doc, 'h, 'v, 'o, 'd, 'x) driver_env"
  se_io :: toml_io
  se_toml :: toml_ops
  se_config :: "('u, 'd) config_ops"
  se_created :: "('d, 'doc, 'h, 'x) driver option"          \<comment> \<open>the result of \<open>Driver::new\<close>\<close>
  se_worlds :: "('d, 'doc, 'h) load_world \<times> ('d, 'doc, 'h) load_world \<times> ('d, 'doc, 'h) load_world"
  se_auth :: "('d, 'h) load_error option"
  se_meanwhile :: "'d \<Rightarrow> ('d, 'doc, 'h) project_db \<Rightarrow> ('d, 'doc, 'h) project_db"
  se_answer :: "local_changes_result option"                \<comment> \<open>of the user; none if the project is dropped\<close>

type_synonym ('d, 'doc, 'h, 'x, 'a) starter_run = "(('d, 'doc, 'h, 'x) starter, ('d, 'h) start_error, 'a) run"

definition notify :: "('d, 'h) start_status \<Rightarrow> ('d, 'doc, 'h, 'x, unit) starter_run" where
  "notify st = smodify (\<lambda>s. s\<lparr>sr_status := sr_status s @ [st]\<rparr>)"

definition on_driver ::
  "(('d, 'doc, 'h, 'x) driver, ('d, 'h) start_error, 'a) run \<Rightarrow> ('d, 'doc, 'h, 'x, 'a) starter_run" where
  "on_driver m s = (case m (sr_driver s) of (r, d) \<Rightarrow> (r, s\<lparr>sr_driver := d\<rparr>))"

definition on_config :: "(toml_file \<Rightarrow> 'a \<times> toml_file) \<Rightarrow> ('d, 'doc, 'h, 'x, 'a) starter_run" where
  "on_config f s = (case f (sr_config s) of (r, c) \<Rightarrow> (Inr r, s\<lparr>sr_config := c\<rparr>))"

definition start_load :: "('s, ('d, 'h) load_error, 'a) run \<Rightarrow> ('s, ('d, 'h) start_error, 'a) run" where
  "start_load m = sbind (stry m) (\<lambda>r. case r of Inl e \<Rightarrow> sfail (Err (DriverLoad e)) | Inr x \<Rightarrow> sret x)"

text \<open>Up to the local changes: they are those of the saved branch.\<close>

definition open_project ::
  "('s, 'doc, 'h::linorder, 'v, 'o, 'd, 'x, 'u) start_env \<Rightarrow> create_mode \<Rightarrow> bool \<Rightarrow> 'd option \<Rightarrow> 'd option \<Rightarrow>
   ('d, 'doc, 'h, 'x, (string, change_type) hmap \<times> load_success) starter_run" where
  "open_project SE mode server metadata_id saved_branch_id =
     (if mode = ModeNew
      then sbind (on_driver (start_load (load_db (create_project (se_driver SE) (se_meanwhile SE))))) (\<lambda>_.
           sret ([], \<lparr>found_locally = True, found_on_provided_branch = False\<rparr>))
      else sbind (sgets (\<lambda>_. unwrap metadata_id)) (\<lambda>metadata_id.
           sbind (on_driver (try_and_retry_load (se_worlds SE) server (se_auth SE) metadata_id saved_branch_id)) (\<lambda>success.
           sbind (on_driver (start_load (load_db (get_local_changes (se_driver SE) saved_branch_id)))) (\<lambda>local_changes.
           sret (local_changes, success)))))"

text \<open>What becomes of local changes: they are committed to the branch that is opened, or left.\<close>

definition resolve_local_changes ::
  "('s, 'doc, 'h::linorder, 'v, 'o, 'd, 'x, 'u) start_env \<Rightarrow> create_mode \<Rightarrow> bool \<Rightarrow> 'd option \<Rightarrow> (string, change_type) hmap \<Rightarrow>
   ('d, 'doc, 'h, 'x, unit) starter_run" where
  "resolve_local_changes SE mode locally initial_branch local_changes =
     (let commit = on_driver (start_load (load_db (commit_local_changes (se_driver SE) initial_branch)))
      in if local_changes = [] then sret ()
         else if mode = AutoLoaded \<and> locally then commit
         else sbind (notify (NeedsCheckIn local_changes)) (\<lambda>_.
              sbind (case se_answer SE of
                       None \<Rightarrow> sfail (Err Oneshot)
                     | Some CheckIn \<Rightarrow> commit
                     | Some Discard \<Rightarrow> sret ()) (\<lambda>_.
              notify Starting)))"

definition start_inner ::
  "('s, 'doc, 'h::linorder, 'v, 'o, 'd, 'x, 'u) start_env \<Rightarrow> create_mode \<Rightarrow> bool \<Rightarrow> ('d, 'doc, 'h, 'x, unit) starter_run" where
  "start_inner SE mode server =
     sbind (notify Starting) (\<lambda>_.
     sbind (if mode = ModeNew then sret None
            else sbind (on_config (project_doc_id (se_io SE) (se_toml SE) (se_config SE))) (\<lambda>i.
                 if i = None then sfail (Err DocumentIdInvalid) else sret i)) (\<lambda>metadata_id.
     sbind (if mode = ModeNew then sret None
            else on_config (checked_out_branch_doc_id (se_io SE) (se_toml SE) (se_config SE))) (\<lambda>saved_branch_id.
     sbind (sgets (\<lambda>_. ok_or (Err DriverCreate) (se_created SE))) (\<lambda>driver.
     sbind (smodify (\<lambda>s. s\<lparr>sr_driver := driver\<rparr>)) (\<lambda>_.
     sbind (open_project SE mode server metadata_id saved_branch_id) (\<lambda>(local_changes, success).
     let initial_branch = (if found_on_provided_branch success then saved_branch_id else None)
     in sbind (resolve_local_changes SE mode (found_locally success) initial_branch local_changes) (\<lambda>_.
        sbind (on_driver (start_load (load_db (sgets (\<lambda>s. get_metadata_state (dr_db s)))))) (\<lambda>(metadata, _).
        sbind (on_driver (smodify (start_sync initial_branch))) (\<lambda>_.
        on_config (\<lambda>c. ((), set_project_doc_id (se_io SE) (se_toml SE) (se_config SE) (Some metadata) c)))))))))))"

text \<open>The task that starts a project; \<open>running\<close> says whether there is a driver already. A panic ends the task.\<close>

definition start ::
  "('s, 'doc, 'h::linorder, 'v, 'o, 'd, 'x, 'u) start_env \<Rightarrow> create_mode \<Rightarrow> 'u option \<Rightarrow> bool \<Rightarrow>
   ('d, 'doc, 'h, 'x, bool) starter_run" where
  "start SE mode server_url running =
     sbind (on_config (\<lambda>c. ((), set_server_url (se_io SE) (se_toml SE) (se_config SE) server_url c))) (\<lambda>_.
     if running then sret running
     else sbind (notify Starting) (\<lambda>_.
          sbind (stry (start_inner SE mode (server_url \<noteq> None))) (\<lambda>r.
          case r of
            Inr _ \<Rightarrow> sbind (notify StartDone) (\<lambda>_. sret True)
          | Inl e \<Rightarrow> sbind (notify (StartFailed e)) (\<lambda>_. sret False))))"

section \<open>What a load that succeeds has\<close>

text \<open>The branch can be read: it is ingested and has a shadow document.\<close>

definition branch_ready :: "'d \<Rightarrow> ('d, 'doc, 'h) project_db \<Rightarrow> bool" where
  "branch_ready branch db \<longleftrightarrow> wait_for_shadow_doc branch (pd_states db) = Inr True \<and>
     canonical_branch_status branch (pd_states db) \<in> {Healthy, BinaryDocNotFound}"

definition load_target :: "'d option \<Rightarrow> ('d, 'doc, 'h) project_db \<Rightarrow> 'd \<Rightarrow> bool" where
  "load_target branch_id db branch \<longleftrightarrow>
     (case branch_id of Some b \<Rightarrow> branch = b | None \<Rightarrow> get_main_branch db = Inr branch)"

lemma load_branch_ready:
  "load_branch st branch w = Inr () \<Longrightarrow> branch_ready branch (dw_db w)"
  "load_branch st branch w = Inl (Err (LinkedDocNotFound st')) \<Longrightarrow> branch_ready branch (dw_db w)"
  by (auto simp: load_branch_def branch_ready_def rbind_def ok_or_def
      split: option.splits sum.splits bool.splits canonical_status.splits)

lemma load_project_ready:
  assumes "load_project W m b s = (r, s')" and "r = Inr () \<or> r = Inl (Err (LinkedDocNotFound st))"
  shows "\<exists>branch. load_target b (dr_db s') branch \<and> branch_ready branch (dr_db s')"
proof -
  let ?status = "if lw_has_connection W then ServerConnected else ServerDisconnected"
  let ?poll = "if ?status = ServerConnected then 15000 else 0 :: 64 word"
  let ?db = "(dr_db s)\<lparr>pd_states := clear_branch_states (pd_states (dr_db s))\<rparr>"
  let ?w = "lw_watch W m ?poll ?db"
  have "found_doc x \<noteq> Inl (Err (LinkedDocNotFound st))" for x
    by (cases x) (simp_all add: found_doc_def)
  then have "get_metadata_handle W \<noteq> Inl (Err (LinkedDocNotFound st))"
    by (auto simp: get_metadata_handle_def rbind_def ok_or_def split: sum.splits option.splits)
  with assms have meta: "get_metadata_handle W = Inr ()"
    by (auto simp: load_project_def sbind_def split: sum.splits)
  show ?thesis
  proof (cases b)
    case (Some branch)
    with assms(1) meta have "r = load_branch ?status branch ?w" "dr_db s' = dw_db ?w"
      by (auto simp: load_project_def sbind_def Let_def)
    with assms(2) load_branch_ready show ?thesis unfolding load_target_def Some by auto
  next
    case None
    show ?thesis
    proof (cases "get_main_branch (dw_db ?w)")
      case (Inl e)
      with assms meta None show ?thesis
        by (cases e) (auto simp: load_project_def load_db_def sbind_def stry_def Let_def)
    next
      case (Inr branch)
      with assms(1) meta None have "r = load_branch ?status branch ?w" "dr_db s' = dw_db ?w"
        by (auto simp: load_project_def load_db_def sbind_def stry_def Let_def)
      with assms(2) Inr load_branch_ready show ?thesis unfolding load_target_def None by auto
    qed
  qed
qed

lemma load_main_ready:
  assumes "load_main locally W m s = (Inr ok, s')"
  shows "found_locally ok = locally \<and> \<not> found_on_provided_branch ok \<and>
    (\<exists>branch. load_target None (dr_db s') branch \<and> branch_ready branch (dr_db s'))"
proof -
  obtain r t where run: "load_project W m None s = (r, t)" by fastforce
  with assms have "s' = t" "ok = \<lparr>found_locally = locally, found_on_provided_branch = False\<rparr>"
    "r = Inr () \<or> (\<exists>st. r = Inl (Err (LinkedDocNotFound st)))"
    by (auto simp: load_main_def sbind_def stry_def Let_def split: sum.splits fault.splits load_error.splits)
  with load_project_ready [OF run] show ?thesis by auto
qed

lemma load_remotely_ready:
  assumes "load_remotely W W' m b s = (Inr ok, s')"
  shows "\<exists>branch. load_target (if found_on_provided_branch ok then b else None) (dr_db s') branch \<and>
    branch_ready branch (dr_db s')"
proof -
  obtain r t where run: "load_project W m b s = (r, t)" by fastforce
  from assms run consider
      "s' = t" "found_on_provided_branch ok" "r = Inr () \<or> (\<exists>st. r = Inl (Err (LinkedDocNotFound st)))"
    | "load_main False W' m t = (Inr ok, s')"
    by (auto simp: load_remotely_def sbind_def stry_def Let_def split: sum.splits fault.splits load_error.splits)
  then show ?thesis
  proof cases
    case 1
    with load_project_ready [OF run] show ?thesis by auto
  next
    case 2
    from load_main_ready [OF this] show ?thesis by auto
  qed
qed

text \<open>C6: when a project was found, in the repository or on the server, at the first attempt or a later one, the
  branch it will be opened on, the one asked for or the main branch, has been ingested and has a shadow
  document.\<close>

theorem loaded_branch_ready:
  assumes "try_and_retry_load (W1, W2, W3) server auth m b s = (Inr ok, s')"
  shows "\<exists>branch. load_target (if found_on_provided_branch ok then b else None) (dr_db s') branch \<and>
    branch_ready branch (dr_db s')"
proof -
  obtain r t where run: "load_project W1 m b s = (r, t)" by fastforce
  let ?again = "if \<not> server then load_main True W2 m
      else sbind (stry (start_connection auth)) (\<lambda>r.
             case r of Inl e \<Rightarrow> sfail (Err (DriverLoad e)) | Inr _ \<Rightarrow> load_remotely W2 W3 m b)"
  from assms run consider "s' = t" "found_on_provided_branch ok" "r = Inr ()" | "?again t = (Inr ok, s')"
    unfolding try_and_retry_load_def
    by (auto simp: sbind_def [of "stry (load_project W1 m b)"] stry_def [of "load_project W1 m b"] Let_def
        split: sum.splits fault.splits load_error.splits if_splits)
  then show ?thesis
  proof cases
    case 1
    with load_project_ready [OF run] show ?thesis by auto
  next
    case 2
    show ?thesis
    proof (cases server)
      case False
      with 2 load_main_ready [of True W2 m t ok s'] show ?thesis by auto
    next
      case True
      with 2 have "load_remotely W2 W3 m b t = (Inr ok, s')"
        by (cases auth) (auto simp: start_connection_def)
      from load_remotely_ready [OF this] show ?thesis .
    qed
  qed
qed

section \<open>Opening another branch than the saved one\<close>

text \<open>What starting an existing project with a saved branch has read before it opens it.\<close>

definition saved_project ::
  "('s, 'doc, 'h::linorder, 'v, 'o, 'd, 'x, 'u) start_env \<Rightarrow> toml_file \<Rightarrow> 'd \<Rightarrow> 'd \<Rightarrow> ('d, 'doc, 'h, 'x) driver \<Rightarrow> bool" where
  "saved_project SE c m b d \<longleftrightarrow>
     (\<exists>c'. project_doc_id (se_io SE) (se_toml SE) (se_config SE) c = (Some m, c') \<and>
        fst (checked_out_branch_doc_id (se_io SE) (se_toml SE) (se_config SE) c') = Some b) \<and>
     se_created SE = Some d"

lemma start_inner_opens:
  assumes "mode \<noteq> ModeNew" and "saved_project SE (sr_config s) m b d"
  obtains t where "sr_driver t = d" and
    "start_inner SE mode server s = sbind (open_project SE mode server (Some m) (Some b)) (\<lambda>(local_changes, success).
     let initial_branch = (if found_on_provided_branch success then Some b else None)
     in sbind (resolve_local_changes SE mode (found_locally success) initial_branch local_changes) (\<lambda>_.
        sbind (on_driver (start_load (load_db (sgets (\<lambda>s. get_metadata_state (dr_db s)))))) (\<lambda>(metadata, _).
        sbind (on_driver (smodify (start_sync initial_branch))) (\<lambda>_.
        on_config (\<lambda>c. ((), set_project_doc_id (se_io SE) (se_toml SE) (se_config SE) (Some metadata) c)))))) t"
proof -
  from assms(2) obtain c1 c2 where
    "project_doc_id (se_io SE) (se_toml SE) (se_config SE) (sr_config s) = (Some m, c1)"
    "checked_out_branch_doc_id (se_io SE) (se_toml SE) (se_config SE) c1 = (Some b, c2)" "se_created SE = Some d"
    unfolding saved_project_def by (metis prod.collapse)
  with assms(1) show thesis
    by (intro that [of "s\<lparr>sr_status := sr_status s @ [Starting], sr_config := c2, sr_driver := d\<rparr>"])
      (simp_all add: start_inner_def notify_def on_config_def ok_or_def sbind_def)
qed

lemma open_project_changes:
  assumes "mode \<noteq> ModeNew"
    and "try_and_retry_load (se_worlds SE) server (se_auth SE) m (Some b) (sr_driver t) = (Inr success, d1)"
  shows "open_project SE mode server (Some m) (Some b) t =
    (case get_local_changes (se_driver SE) (Some b) d1 of
       (Inr changes, d2) \<Rightarrow> (Inr (changes, success), t\<lparr>sr_driver := d2\<rparr>)
     | (Inl (Err e), d2) \<Rightarrow> (Inl (Err (DriverLoad (LoadDb e))), t\<lparr>sr_driver := d2\<rparr>)
     | (Inl Panic, d2) \<Rightarrow> (Inl Panic, t\<lparr>sr_driver := d2\<rparr>)
     | (Inl Diverges, d2) \<Rightarrow> (Inl Diverges, t\<lparr>sr_driver := d2\<rparr>))"
  using assms
  by (simp add: open_project_def ok_or_def sbind_def on_driver_def start_load_def load_db_def stry_def
      split: prod.split sum.split fault.split)

lemma local_main_fallback:
  assumes "load_project W1 m (Some b) d = (Inl (Err e), d1)" and "e = BranchDocNotFound st \<or> e = LinkedDocNotFound st"
    and "load_project W2 m None d1 = (Inr (), d2)"
  shows "try_and_retry_load (W1, W2, W3) False auth m (Some b) d =
    (Inr \<lparr>found_locally = True, found_on_provided_branch = False\<rparr>, d2)"
  using assms by (auto simp: try_and_retry_load_def load_main_def sbind_def stry_def Let_def)

text \<open>A project whose saved branch is not found locally does not start, although its main branch was loaded in
  place of it: the local changes are asked for on the saved branch, which the database does not know, and
  this error ends the start.\<close>

theorem missing_branch_fails_start:
  assumes "mode \<noteq> ModeNew" and "saved_project SE (sr_config s) m b d" and "se_worlds SE = (W1, W2, W3)"
    and "load_project W1 m (Some b) d = (Inl (Err (BranchDocNotFound st)), d1)"
    and "load_project W2 m None d1 = (Inr (), d2)" and "hm_get (branch_sync_states (pd_states (dr_db d2))) b = None"
  shows "fst (start_inner SE mode False s) = Inl (Err (DriverLoad (LoadDb (NoBranch b))))"
proof -
  from start_inner_opens [OF assms(1,2), of False] obtain t where t: "sr_driver t = d" and
    run: "start_inner SE mode False s = sbind (open_project SE mode False (Some m) (Some b)) (\<lambda>(local_changes, success).
     let initial_branch = (if found_on_provided_branch success then Some b else None)
     in sbind (resolve_local_changes SE mode (found_locally success) initial_branch local_changes) (\<lambda>_.
        sbind (on_driver (start_load (load_db (sgets (\<lambda>s. get_metadata_state (dr_db s)))))) (\<lambda>(metadata, _).
        sbind (on_driver (smodify (start_sync initial_branch))) (\<lambda>_.
        on_config (\<lambda>c. ((), set_project_doc_id (se_io SE) (se_toml SE) (se_config SE) (Some metadata) c)))))) t" by blast
  from local_main_fallback [OF assms(4) _ assms(5), of st W3 "se_auth SE"]
  have "try_and_retry_load (se_worlds SE) False (se_auth SE) m (Some b) (sr_driver t) =
      (Inr \<lparr>found_locally = True, found_on_provided_branch = False\<rparr>, d2)" by (simp add: assms(3) t)
  note opened = open_project_changes [OF assms(1) this]
  have "get_local_changes (se_driver SE) (Some b) d2 = (Inl (Err (NoBranch b)), d2)"
    using assms(6)
    by (simp add: get_local_changes_def get_latest_ref_on_branch_or_main_def get_latest_canonical_ref_on_branch_def
        lift_err_def ok_or_def sbind_def)
  with opened run show ?thesis by (simp add: sbind_def)
qed

text \<open>C5: when linked documents of the saved branch are missing, there is no server, and the project is loaded
  automatically, it is opened on its main branch, and when the files on disk differ from the saved branch
  they are committed to the main branch without a question. If the latest reference of the main branch can be
  committed on and the files are saved the way they are committed, after the start the main branch has a
  reference whose index has exactly the hashes of the files on disk, whichever branch they belong to.\<close>

theorem start_commits_to_main:
  assumes "saved_project SE (sr_config s) m b d" and "se_worlds SE = (W1, W2, W3)"
    and "load_project W1 m (Some b) d = (Inl (Err (LinkedDocNotFound st)), d1)"
    and "load_project W2 m None d1 = (Inr (), d2)"
    and "get_local_changes (se_driver SE) (Some b) d2 = (Inr changes, d3)" and "changes \<noteq> []"
    and "get_main_branch (dr_db d3) = Inr main"
    and "get_latest_canonical_ref_on_branch (de_db (se_driver SE)) main (pd_states (dr_db d3)) = Inr r"
    and "driver_env_ok (se_driver SE) d3" and "dr_normalized d3 = []"
    and "committable (de_read (se_driver SE)) (de_db (se_driver SE)) r v files (dr_disk d3) (dr_fs_state d3)"
    and "saved_normally (se_driver SE) (dr_disk d3)"
  shows "\<exists>s' r' idx. start_inner SE AutoLoaded False s = (Inr (), s') \<and> hr_branch r' = main \<and>
    get_hash_index (de_db (se_driver SE)) None r' (pd_states (dr_db (sr_driver s'))) =
      Inr (idx, pd_states (dr_db (sr_driver s'))) \<and>
    (\<forall>q. relative_ok q \<and> \<not> ignores (de_db (se_driver SE)) (de_project_dir (de_db (se_driver SE)) @ q) False \<longrightarrow>
       hm_get idx (res_prefix @ q) = map_option (de_hash (de_db (se_driver SE)))
         (hm_get (dr_disk d3) (de_project_dir (de_db (se_driver SE)) @ q)))"
proof -
  let ?E = "se_driver SE"
  from start_inner_opens [where mode = AutoLoaded and server = False, OF _ assms(1)] obtain t where t: "sr_driver t = d" and
    run: "start_inner SE AutoLoaded False s = sbind (open_project SE AutoLoaded False (Some m) (Some b)) (\<lambda>(local_changes, success).
     let initial_branch = (if found_on_provided_branch success then Some b else None)
     in sbind (resolve_local_changes SE AutoLoaded (found_locally success) initial_branch local_changes) (\<lambda>_.
        sbind (on_driver (start_load (load_db (sgets (\<lambda>s. get_metadata_state (dr_db s)))))) (\<lambda>(metadata, _).
        sbind (on_driver (smodify (start_sync initial_branch))) (\<lambda>_.
        on_config (\<lambda>c. ((), set_project_doc_id (se_io SE) (se_toml SE) (se_config SE) (Some metadata) c)))))) t" by blast
  have mode: "AutoLoaded \<noteq> ModeNew" by simp
  from local_main_fallback [OF assms(3) _ assms(4), of st W3 "se_auth SE"]
  have "try_and_retry_load (se_worlds SE) False (se_auth SE) m (Some b) (sr_driver t) =
      (Inr \<lparr>found_locally = True, found_on_provided_branch = False\<rparr>, d2)" by (simp add: assms(2) t)
  from open_project_changes [OF mode this]
  have opened: "open_project SE AutoLoaded False (Some m) (Some b) t =
      (Inr (changes, \<lparr>found_locally = True, found_on_provided_branch = False\<rparr>), t\<lparr>sr_driver := d3\<rparr>)"
    by (simp add: assms(5))
  from commit_saves_disk [OF assms(9) disjI1 [OF TrueI] assms(10-12), where other_user = None and changes = "\<lambda>_. {}"]
  obtain d4 r' idx where d4: "commit ?E r True d3 = Inr d4" "pd_metadata (dr_db d4) = pd_metadata (dr_db d3)"
      "hr_branch r' = hr_branch r"
    and idx: "get_hash_index (de_db ?E) None r' (pd_states (dr_db d4)) = Inr (idx, pd_states (dr_db d4))"
      "\<forall>q. relative_ok q \<and> \<not> ignores (de_db ?E) (de_project_dir (de_db ?E) @ q) False \<longrightarrow>
       hm_get idx (res_prefix @ q) =
         map_option (de_hash (de_db ?E)) (hm_get (dr_disk d3) (de_project_dir (de_db ?E) @ q))" by blast
  have branch: "hr_branch r = main"
    using assms(8) by (auto simp: get_latest_canonical_ref_on_branch_def rbind_eq_Inr_iff history_ref_new_def)
  have "commit_local_changes ?E None d3 = (Inr (), d4)"
    using assms(7,8) d4(1) by (simp add: commit_local_changes_def get_latest_ref_on_branch_or_main_def lift_err_def)
  then have resolved: "resolve_local_changes SE AutoLoaded True None changes (t\<lparr>sr_driver := d3\<rparr>) = (Inr (), t\<lparr>sr_driver := d4\<rparr>)"
    using assms(6) by (simp add: resolve_local_changes_def on_driver_def start_load_def load_db_def)
  from assms(7) d4(2) obtain h c where "get_metadata_state (dr_db d4) = Inr (h, c)"
    by (auto simp: get_main_branch_def get_metadata_state_def ok_or_def rbind_eq_Inr_iff split: option.splits)
  then have "\<exists>s'. start_inner SE AutoLoaded False s = (Inr (), s') \<and> sr_driver s' = d4"
    using run opened resolved
    by (simp add: on_driver_def start_load_def load_db_def start_sync_def on_config_def)
  with d4(3) branch idx show ?thesis by blast
qed

section \<open>Witnesses\<close>

text \<open>The main branch \<open>True\<close> and the saved branch \<open>False\<close>, which misses a linked document or was not found.\<close>

definition demo_branch_state :: "bool \<Rightarrow> (bool, demo_view list, nat) branch_sync_state" where
  "demo_branch_state i = (branch_sync_state_new i)
     \<lparr>shadow_doc := Some [demo_new, demo_old], shadow_doc_init := True,
      canonical_binary_docs := (if i then [] else [(True, Failed)])\<rparr>"

definition demo_world :: "bool list \<Rightarrow> branch_ingest_state \<Rightarrow> (bool, demo_view list, nat) load_world" where
  "demo_world branches saved =
     \<lparr>lw_find = DocFound, lw_find_again = DocFound, lw_has_connection = False, lw_is_connected = False, lw_events = [],
      lw_watch = (\<lambda>_ _ db.
        \<lparr>dw_db = db\<lparr>pd_metadata := Some (True, \<lparr>bm_main_doc_id = True, bm_branches = []\<rparr>),
           pd_states := (demo_shadow_db [demo_new, demo_old])
             \<lparr>branch_sync_states := map (\<lambda>i. (i, demo_branch_state i)) branches\<rparr>\<rparr>,
         dw_metadata = MetaWatch True,
         dw_tracked = [(True, Ingested), (False, saved)], dw_tasks = []\<rparr>)\<rparr>"

definition demo_saved_toml :: toml_ops where
  "demo_saved_toml = \<lparr>tm_print = (\<lambda>_. Some []),
     tm_parse = (\<lambda>_. Some [(''backstitch'',
       TTable [(''project_doc_id'', TString ''t''), (''checked_out_branch_doc_id'', TString ''f'')])])\<rparr>"

definition demo_saved_config :: "(string, bool) config_ops" where
  "demo_saved_config = \<lparr>co_parse_url = Some, co_show_url = id, co_parse_doc = (\<lambda>s. Some (s = ''t'')),
     co_show_doc = (\<lambda>b. if b then ''t'' else ''f'')\<rparr>"

definition demo_start ::
  "(bool, demo_view list, nat) load_world \<Rightarrow> (string, demo_view list, nat, demo_view, demo_obj, bool, string, string) start_env" where
  "demo_start W = \<lparr>se_driver = demo_driver_env, se_io = demo_toml_io, se_toml = demo_saved_toml,
     se_config = demo_saved_config, se_created = Some (demo_driver [demo_new, demo_old] ''z''), se_worlds = (W, W, W),
     se_auth = None, se_meanwhile = (\<lambda>_ db. db), se_answer = None\<rparr>"

definition demo_starter :: "(bool, demo_view list, nat, string) starter" where
  "demo_starter = \<lparr>sr_driver = demo_driver [] [], sr_status = [], sr_config = file_backed_toml_new (Some ([], 0)) 1\<rparr>"

lemma demo_saved: "saved_project (demo_start W) (sr_config demo_starter) True False (demo_driver [demo_new, demo_old] ''z'')"
proof -
  have "project_doc_id demo_toml_io demo_saved_toml demo_saved_config (sr_config demo_starter) =
      (Some True, (sr_config demo_starter)\<lparr>tf_meta := Some (0, 0), tf_table := [(''backstitch'',
        TTable [(''project_doc_id'', TString ''t''), (''checked_out_branch_doc_id'', TString ''f'')])]\<rparr>)"
    by (simp add: project_doc_id_def config_get_string_def toml_get_def reload_backing_def toml_metadata_def
        read_or_create_file_def demo_toml_io_def demo_saved_toml_def demo_starter_def file_backed_toml_new_def meta_of_def
        toml_lookup_def config_section_def demo_saved_config_def)
  then show ?thesis
    by (simp add: saved_project_def demo_start_def checked_out_branch_doc_id_def config_get_string_def toml_get_def
        reload_backing_def toml_metadata_def demo_toml_io_def demo_starter_def file_backed_toml_new_def meta_of_def
        toml_lookup_def config_section_def demo_saved_config_def)
qed

text \<open>The driver after the load of the main branch.\<close>

definition demo_loaded :: "bool list \<Rightarrow> (bool, demo_view list, nat, string) driver" where
  "demo_loaded branches = (demo_driver [demo_new, demo_old] ''z'')
     \<lparr>dr_db := (dr_db (demo_driver [demo_new, demo_old] ''z''))
        \<lparr>pd_metadata := Some (True, \<lparr>bm_main_doc_id = True, bm_branches = []\<rparr>),
         pd_states := (demo_shadow_db [demo_new, demo_old])
           \<lparr>branch_sync_states := map (\<lambda>i. (i, demo_branch_state i)) branches\<rparr>\<rparr>\<rparr>"

lemma demo_load:
  "load_project (demo_world [True, False] Ingested) True (Some False) (demo_driver [demo_new, demo_old] ''z'') =
     (Inl (Err (LinkedDocNotFound ServerDisconnected)), demo_loaded [True, False])"
  "load_project (demo_world [True] IngestFailed) True (Some False) (demo_driver [demo_new, demo_old] ''z'') =
     (Inl (Err (BranchDocNotFound ServerDisconnected)), demo_loaded [True])"
  "load_project (demo_world (True # is) saved) True None (demo_loaded js) = (Inr (), demo_loaded (True # is))"
  by (simp_all add: load_project_def demo_world_def get_metadata_handle_def found_doc_def sbind_def load_branch_def
      wait_for_branch_ingest_def wait_for_shadow_doc_def canonical_branch_status_def demo_branch_state_def ok_or_def
      branch_sync_state_new_def load_db_def stry_def get_main_branch_def get_metadata_state_def demo_loaded_def demo_driver_def)

theorem loaded_branch_ready_witness:
  "\<exists>ok s'. try_and_retry_load (demo_world [True, False] Ingested, demo_world [True, False] Ingested, demo_world [] Ingested)
      False None True (Some False) (demo_driver [demo_new, demo_old] ''z'') = (Inr ok, s') \<and>
    \<not> found_on_provided_branch ok \<and> branch_ready True (dr_db s')"
proof -
  from local_main_fallback [OF demo_load(1) _ demo_load(3) [of "[False]" Ingested]] have
    run: "try_and_retry_load (demo_world [True, False] Ingested, demo_world [True, False] Ingested, demo_world [] Ingested)
      False None True (Some False) (demo_driver [demo_new, demo_old] ''z'') =
     (Inr \<lparr>found_locally = True, found_on_provided_branch = False\<rparr>, demo_loaded [True, False])" by simp
  from loaded_branch_ready [OF run] have "branch_ready True (dr_db (demo_loaded [True, False]))"
    by (auto simp: load_target_def get_main_branch_def get_metadata_state_def demo_loaded_def ok_or_def)
  with run show ?thesis by auto
qed

theorem missing_branch_fails_start_witness:
  "fst (start_inner (demo_start (demo_world [True] IngestFailed)) ManuallyLoaded False demo_starter) =
    Inl (Err (DriverLoad (LoadDb (NoBranch False))))"
proof (rule missing_branch_fails_start [OF _ demo_saved _ demo_load(2) demo_load(3)])
  show "hm_get (branch_sync_states (pd_states (dr_db (demo_loaded [True])))) False = None"
    by (simp add: demo_loaded_def)
qed (simp_all add: demo_start_def)

lemma committable_same_shadow:
  assumes "committable ro env r v files disk s"
    and "map_option shadow_doc (hm_get (branch_sync_states (fs_db s')) (hr_branch r)) =
      map_option shadow_doc (hm_get (branch_sync_states (fs_db s)) (hr_branch r))"
    and "length (fs_ids s') = length (fs_ids s)"
  shows "committable ro env r v files disk s'"
proof -
  have "view_at env r (fs_db s') v = view_at env r (fs_db s) v"
    using assms(2) by (cases "hm_get (branch_sync_states (fs_db s')) (hr_branch r)")
      (auto simp: view_at_def read_shadow_def with_shadow_document_def split: option.splits)
  then show ?thesis using assms by (auto simp: committable_def)
qed

lemma demo_loaded_changes:
  "\<exists>changes ix. get_local_changes demo_driver_env (Some False) (demo_loaded [True, False]) =
     (Inr changes, (demo_loaded [True, False])\<lparr>dr_index := ix\<rparr>) \<and> changes \<noteq> [] \<and>
     index_honest demo_hasher demo_fs ix"
proof -
  let ?d = "demo_loaded [True, False]" and ?r = "history_ref_new False [2 :: nat]"
  have st: "hm_get (branch_sync_states (pd_states (dr_db ?d))) False = Some (demo_branch_state False)"
    by (simp add: demo_loaded_def)
  have "view_at demo_db_env ?r (pd_states (dr_db ?d)) demo_new"
    using st by (simp add: view_at_def read_shadow_def with_shadow_document_def history_ref_new_def demo_branch_state_def
        demo_ad_def)
  moreover have "all_stored demo_db_env demo_new DFiles" by (simp add: all_stored_def demo_new_entry demo_new_stored)
  ultimately obtain idx where
    index: "get_hash_index demo_db_env None ?r (pd_states (dr_db ?d)) = Inr (idx, pd_states (dr_db ?d))" "hm_wf idx"
      "hm_get idx ''res://a'' = Some ''y''"
    using get_hash_index_stored [of demo_db_env ?r "pd_states (dr_db ?d)" demo_new DFiles None] demo_new_files(1) demo_unignored
    by (auto simp: stored_at_def demo_new_entry [THEN iffD2] demo_new_stored)
  obtain files ix where cur: "current_files demo_hasher demo_fs demo_db_env (dr_disk ?d) (dr_index ?d) = (files, ix)"
    by fastforce
  have disk: "dr_disk ?d = [(''/p/a'', ''z'')]" by (simp add: demo_loaded_def demo_driver_def)
  have old: "index_honest demo_hasher demo_fs (dr_index ?d)" by (simp add: demo_loaded_def demo_driver_def)
  have honest: "index_honest demo_hasher demo_fs ix"
    using current_files_get [OF demo_sync_env old, of "dr_disk ?d"] cur by simp
  have "hm_get (current_localized demo_hasher demo_fs demo_db_env (dr_disk ?d) (dr_index ?d)) ''res://a'' = Some ''z''"
    using demo_driver_ok [of "[]" "''z''"] old demo_relative demo_ignores demo_sync_env
    by (subst current_localized_get) (auto simp: disk demo_dir res_prefix_def demo_driver_def)
  then have cur': "hm_get (localize_all demo_db_env files) ''res://a'' = Some ''z''"
    by (simp add: current_localized_def cur)
  have wf: "hm_wf (localize_all demo_db_env files)" by (simp add: localize_all_def)
  let ?changes = "get_file_changes idx (localize_all demo_db_env files)"
  have "hm_get ?changes ''res://a'' \<noteq> None"
    using get_file_changes_get [OF wf, of idx] index(3) cur' by (simp add: change_of_def)
  then have "?changes \<noteq> []" by auto
  moreover have "get_latest_canonical_ref_on_branch demo_db_env False (pd_states (dr_db ?d)) = Inr ?r"
    using st by (simp add: get_latest_canonical_ref_on_branch_def ok_or_def demo_branch_state_def branch_sync_state_new_def
        demo_loaded_def demo_shadow_db_def demo_doc_crdt_def numeral_2_eq_2)
  moreover have "resolve_username (dr_db ?d) = None"
    by (simp add: demo_loaded_def demo_driver_def resolve_username_def)
  ultimately show ?thesis
    using index(1) cur honest
    by (auto simp: get_local_changes_def get_latest_ref_on_branch_or_main_def lift_err_def sbind_def on_db_def on_states_def)
qed

theorem start_commits_to_main_witness:
  "\<exists>s' r' idx. start_inner (demo_start (demo_world [True, False] Ingested)) AutoLoaded False demo_starter = (Inr (), s') \<and>
    hr_branch r' = True \<and>
    get_hash_index demo_db_env None r' (pd_states (dr_db (sr_driver s'))) = Inr (idx, pd_states (dr_db (sr_driver s'))) \<and>
    hm_get idx ''res://a'' = Some ''z''"
proof -
  let ?SE = "demo_start (demo_world [True, False] Ingested)" and ?r = "history_ref_new True [2 :: nat]"
  have worlds: "se_worlds ?SE = (demo_world [True, False] Ingested, demo_world [True, False] Ingested, demo_world [True, False] Ingested)"
    and E: "se_driver ?SE = demo_driver_env" by (simp_all add: demo_start_def)
  from demo_loaded_changes obtain changes ix where
    changes: "get_local_changes (se_driver ?SE) (Some False) (demo_loaded [True, False]) =
      (Inr changes, (demo_loaded [True, False])\<lparr>dr_index := ix\<rparr>)" "changes \<noteq> []"
    and honest: "index_honest demo_hasher demo_fs ix" unfolding E by (auto simp: demo_driver_env_simps)
  let ?d = "(demo_loaded [True, False])\<lparr>dr_index := ix\<rparr>"
  have disk: "dr_disk ?d = [(''/p/a'', ''z'')]" by (simp add: demo_loaded_def demo_driver_def)
  have main: "get_main_branch (dr_db ?d) = Inr True" "dr_normalized ?d = []"
    by (simp_all add: demo_loaded_def demo_driver_def get_main_branch_def get_metadata_state_def ok_or_def)
  have latest: "get_latest_canonical_ref_on_branch (de_db (se_driver ?SE)) True (pd_states (dr_db ?d)) = Inr ?r"
    by (simp add: E get_latest_canonical_ref_on_branch_def ok_or_def demo_branch_state_def branch_sync_state_new_def
        demo_loaded_def demo_shadow_db_def demo_doc_crdt_def numeral_2_eq_2)
  have ok: "driver_env_ok (se_driver ?SE) ?d"
    using demo_driver_ok [of "[]" "''z''"] honest by (simp add: E demo_loaded_def demo_driver_def)
  have committable: "committable (de_read (se_driver ?SE)) (de_db (se_driver ?SE)) ?r demo_new DFiles (dr_disk ?d) (dr_fs_state ?d)"
    unfolding disk E demo_driver_env_simps
    by (rule committable_same_shadow [OF demo_committable])
      (simp_all add: dr_fs_state_def demo_state_def demo_loaded_def demo_driver_def demo_branch_state_def demo_shadow_db_def
        history_ref_new_def)
  have saved: "saved_normally (se_driver ?SE) (dr_disk ?d)"
    by (simp add: E saved_normally_def disk committed_content_def demo_from_buf content_hash_def to_hash_def as_bytes_def)
  from start_commits_to_main [OF demo_saved worlds demo_load(1) demo_load(3) changes main(1) latest ok main(2) committable saved]
  obtain s' r' idx where run: "start_inner ?SE AutoLoaded False demo_starter = (Inr (), s')" "hr_branch r' = True"
    "get_hash_index demo_db_env None r' (pd_states (dr_db (sr_driver s'))) = Inr (idx, pd_states (dr_db (sr_driver s')))"
    and idx: "\<And>q. relative_ok q \<Longrightarrow> \<not> ignores demo_db_env (de_project_dir demo_db_env @ q) False \<Longrightarrow>
      hm_get idx (res_prefix @ q) = map_option (de_hash demo_db_env) (hm_get (dr_disk ?d) (de_project_dir demo_db_env @ q))"
    unfolding E demo_driver_env_simps by blast
  have "hm_get idx ''res://a'' = Some ''z''"
    using idx [OF demo_relative] demo_ignores unfolding disk by (simp add: demo_dir res_prefix_def)
  with run show ?thesis by auto
qed

end
