(* ===== verification/Project_Frame.thy ===== *)
theory Project_Frame imports Project_Start Server_Manager Change_Ingester begin

text \<open>
  \<open>project/project_base.rs\<close>: the project as the editor's main thread sees it. Every frame \<open>process\<close> lets the
  driver work at its checkpoint, takes up what the other tasks have sent since the last frame and turns it
  into signals; differences are computed by tasks of their own and kept in a cache.

  A watch channel is its value and the number of values sent; a receiver is the number of the last value it has
  seen. The senders live as long as the project or its driver, so that no channel is closed while it is read.
\<close>

section \<open>State\<close>

record 'a watch =
  wt_value :: 'a
  wt_version :: nat

definition watch_send :: "'a \<Rightarrow> 'a watch \<Rightarrow> 'a watch" where
  "watch_send x w = \<lparr>wt_value = x, wt_version = wt_version w + 1\<rparr>"

definition has_changed :: "nat \<Rightarrow> 'a watch \<Rightarrow> bool" where
  "has_changed seen w \<longleftrightarrow> wt_version w \<noteq> seen"

record ('d, 'h) diff_id =
  di_before :: "('d, 'h) history_ref"
  di_after :: "('d, 'h) history_ref"

datatype request_diff_error = NoDiffAvailable | CommitNotFound | NoBranchCheckedOut | BranchesDiverge | NoDriver

datatype 'p diff_status = DiffLoading | DiffReady 'p

record ('d, 'doc, 'h, 'x, 'p) project =
  pj_driver :: "('d, 'doc, 'h, 'x) driver option"
  pj_history :: "'h list option"
  pj_changes :: "('h, ('d, 'h) commit_info) hmap"
  pj_diff_cache :: "(('d, 'h) diff_id, request_diff_error + 'p diff_status) hmap"
  pj_diff_tasks :: "('d, 'h) diff_id list"           \<comment> \<open>the tasks that compute a difference\<close>
  pj_changes_rx :: "nat option"
  pj_connection_info_rx :: "nat option"
  pj_checked_out_ref_rx :: "nat option"
  pj_start_status :: "('d, 'h) start_status watch"
  pj_start_status_rx :: nat
  pj_auth_status_rx :: nat
  pj_local_changes_tx :: bool                        \<comment> \<open>whether a start waits for an answer\<close>
  pj_config :: toml_file

definition project_new :: "toml_file \<Rightarrow> nat \<Rightarrow> ('d, 'doc, 'h, 'x, 'p) project" where
  "project_new config auth_seen =
     \<lparr>pj_driver = None, pj_history = None, pj_changes = [], pj_diff_cache = [], pj_diff_tasks = [], pj_changes_rx = None,
      pj_connection_info_rx = None, pj_checked_out_ref_rx = None,
      pj_start_status = \<lparr>wt_value = NotStarted, wt_version = 0\<rparr>, pj_start_status_rx = 0, pj_auth_status_rx = auth_seen,
      pj_local_changes_tx = False, pj_config = config\<rparr>"

section \<open>Differences\<close>

definition request_diff ::
  "('d, 'h) diff_id \<Rightarrow> ('d, 'doc, 'h, 'x, 'p) project \<Rightarrow>
   (request_diff_error + 'p diff_status) \<times> ('d, 'doc, 'h, 'x, 'p) project" where
  "request_diff i P =
     (case hm_get (pj_diff_cache P) i of
        Some status \<Rightarrow> (status, P)
      | None \<Rightarrow> (Inr DiffLoading,
          P\<lparr>pj_diff_cache := hm_insert i (Inr DiffLoading) (pj_diff_cache P), pj_diff_tasks := pj_diff_tasks P @ [i]\<rparr>))"

text \<open>\<open>differ\<close> is the driver's differ; when it has no result the difference is the empty one.\<close>

definition driver_get_diff ::
  "(('d, 'doc, 'h, 'x) driver \<Rightarrow> ('d, 'h) history_ref \<Rightarrow> ('d, 'h) history_ref \<Rightarrow> 'p option) \<Rightarrow> 'p \<Rightarrow>
   ('d, 'doc, 'h, 'x) driver \<Rightarrow> ('d, 'h) history_ref \<Rightarrow> ('d, 'h) history_ref \<Rightarrow> 'p" where
  "driver_get_diff differ empty_diff driver before after = (case differ driver before after of None \<Rightarrow> empty_diff | Some d \<Rightarrow> d)"

definition project_get_diff ::
  "(('d, 'doc, 'h, 'x) driver \<Rightarrow> ('d, 'h) history_ref \<Rightarrow> ('d, 'h) history_ref \<Rightarrow> 'p option) \<Rightarrow> 'p \<Rightarrow>
   ('d, 'doc, 'h, 'x) driver option \<Rightarrow> ('d, 'h) diff_id \<Rightarrow> request_diff_error + 'p" where
  "project_get_diff differ empty_diff driver i =
     rbind (ok_or NoDriver driver) (\<lambda>driver. Inr (driver_get_diff differ empty_diff driver (di_before i) (di_after i)))"

text \<open>The end of the task that computes a difference.\<close>

definition finish_diff ::
  "(('d, 'doc, 'h, 'x) driver \<Rightarrow> ('d, 'h) history_ref \<Rightarrow> ('d, 'h) history_ref \<Rightarrow> 'p option) \<Rightarrow> 'p \<Rightarrow>
   ('d, 'h) diff_id \<Rightarrow> ('d, 'doc, 'h, 'x, 'p) project \<Rightarrow> ('d, 'doc, 'h, 'x, 'p) project" where
  "finish_diff differ empty_diff i P =
     P\<lparr>pj_diff_cache := hm_insert i (rbind (project_get_diff differ empty_diff (pj_driver P) i) (\<lambda>d. Inr (DiffReady d))) (pj_diff_cache P),
       pj_diff_tasks := remove1 i (pj_diff_tasks P)\<rparr>"

definition is_loading :: "request_diff_error + 'p diff_status \<Rightarrow> bool" where
  "is_loading status \<longleftrightarrow> (case status of Inr DiffLoading \<Rightarrow> True | _ \<Rightarrow> False)"

definition clear_diff_cache :: "('d, 'doc, 'h, 'x, 'p) project \<Rightarrow> ('d, 'doc, 'h, 'x, 'p) project" where
  "clear_diff_cache P = P\<lparr>pj_diff_cache := filter (\<lambda>(_, status). is_loading status) (pj_diff_cache P)\<rparr>"

section \<open>Stopping\<close>

definition stop :: "('d, 'doc, 'h, 'x, 'p) project \<Rightarrow> ('d, 'doc, 'h, 'x, 'p) project" where
  "stop P = P\<lparr>pj_driver := None, pj_start_status := watch_send NotStarted (pj_start_status P), pj_changes_rx := None,
     pj_checked_out_ref_rx := None, pj_connection_info_rx := None, pj_history := None\<rparr>"

section \<open>A frame\<close>

datatype ('d, 'h, 'r) godot_signal =
    SyncStatusChanged
  | ChangesIngested
  | BranchCheckedOut
  | StartStatusChanged "('d, 'h) start_status"
  | AuthStatusChanged "'r auth_status"
  | ServerStatusChanged

datatype server_event = ServerMessage | ServerLagged

text \<open>What the other tasks have sent when a frame reads it, and what the driver does at the checkpoint.\<close>

record ('d, 'doc, 'h, 'x, 'r) frame =
  fr_auth_status :: "'r auth_status watch"
  fr_server_events :: "server_event list"
  fr_checkpoint :: "('d, 'doc, 'h, 'x) driver \<Rightarrow> ('d, 'doc, 'h, 'x) driver"
  fr_changes :: "('d, 'h) commit_info list watch"
  fr_connection_info :: "unit watch"
  fr_checked_out_ref :: "('d, 'h) history_ref option watch"

definition ingest_changes :: "('d, 'h) commit_info list \<Rightarrow> ('d, 'doc, 'h, 'x, 'p) project \<Rightarrow> ('d, 'doc, 'h, 'x, 'p) project" where
  "ingest_changes changes P =
     P\<lparr>pj_history := Some (map ci_hash changes), pj_changes := hm_collect (map (\<lambda>change. (ci_hash change, change)) changes)\<rparr>"

text \<open>The loop that drains the events of the servers.\<close>

fun drain_server_events :: "server_event list \<Rightarrow> bool \<Rightarrow> bool" where
  "drain_server_events [] found \<longleftrightarrow> found"
| "drain_server_events (ServerMessage # es) found \<longleftrightarrow> drain_server_events es True"
| "drain_server_events (ServerLagged # es) found \<longleftrightarrow> drain_server_events es found"

text \<open>The signals that do not need a driver.\<close>

definition process_status ::
  "('d, 'doc, 'h, 'x, 'r) frame \<Rightarrow> ('d, 'doc, 'h, 'x, 'p) project \<Rightarrow>
   ('d, 'h, 'r) godot_signal list \<times> ('d, 'doc, 'h, 'x, 'p) project" where
  "process_status I P =
     ((if has_changed (pj_start_status_rx P) (pj_start_status P) then [StartStatusChanged (wt_value (pj_start_status P))] else []) @
      (if has_changed (pj_auth_status_rx P) (fr_auth_status I) then [AuthStatusChanged (wt_value (fr_auth_status I))] else []) @
      (if drain_server_events (fr_server_events I) False then [ServerStatusChanged] else []),
      P\<lparr>pj_start_status_rx := wt_version (pj_start_status P), pj_auth_status_rx := wt_version (fr_auth_status I)\<rparr>)"

text \<open>The checkpoint of the main thread, and the events for the editor.\<close>

definition process_checkpoint ::
  "bool \<Rightarrow> ('d, 'doc, 'h, 'x, 'r) frame \<Rightarrow> ('d, 'doc, 'h, 'x) driver \<Rightarrow> file_system_event list \<times> ('d, 'doc, 'h, 'x) driver" where
  "process_checkpoint safe I driver =
     (let driver = fr_checkpoint I (driver\<lparr>dr_safe := safe\<rparr>)
      in (dr_events driver, driver\<lparr>dr_events := []\<rparr>))"

text \<open>A receiver that is subscribed now has seen the current value.\<close>

definition subscribe_or :: "'a watch \<Rightarrow> nat option \<Rightarrow> nat" where
  "subscribe_or w rx = (case rx of None \<Rightarrow> wt_version w | Some seen \<Rightarrow> seen)"

definition process_changes ::
  "('d, 'doc, 'h, 'x, 'r) frame \<Rightarrow> ('d, 'doc, 'h, 'x, 'p) project \<Rightarrow>
   ('d, 'h, 'r) godot_signal list \<times> ('d, 'doc, 'h, 'x, 'p) project" where
  "process_changes I P =
     (let rx = subscribe_or (fr_changes I) (pj_changes_rx P)
      in if pj_history P = None \<or> has_changed rx (fr_changes I)
         then ([ChangesIngested], ingest_changes (wt_value (fr_changes I)) (P\<lparr>pj_changes_rx := Some (wt_version (fr_changes I))\<rparr>))
         else ([], P\<lparr>pj_changes_rx := Some rx\<rparr>))"

definition process_connection_info ::
  "('d, 'doc, 'h, 'x, 'r) frame \<Rightarrow> ('d, 'doc, 'h, 'x, 'p) project \<Rightarrow>
   ('d, 'h, 'r) godot_signal list \<times> ('d, 'doc, 'h, 'x, 'p) project" where
  "process_connection_info I P =
     (let rx = subscribe_or (fr_connection_info I) (pj_connection_info_rx P)
      in (if has_changed rx (fr_connection_info I) then [SyncStatusChanged] else [],
          P\<lparr>pj_connection_info_rx := Some (wt_version (fr_connection_info I))\<rparr>))"

definition process_checked_out_ref ::
  "toml_io \<Rightarrow> toml_ops \<Rightarrow> ('u, 'd) config_ops \<Rightarrow> ('d, 'doc, 'h, 'x, 'r) frame \<Rightarrow> ('d, 'doc, 'h, 'x, 'p) project \<Rightarrow>
   ('d, 'h, 'r) godot_signal list \<times> ('d, 'doc, 'h, 'x, 'p) project" where
  "process_checked_out_ref io tm co I P =
     (let rx = subscribe_or (fr_checked_out_ref I) (pj_checked_out_ref_rx P);
          doc_id = map_option hr_branch (wt_value (fr_checked_out_ref I))
      in if has_changed rx (fr_checked_out_ref I)
         then ([BranchCheckedOut],
               P\<lparr>pj_config := set_checked_out_branch_doc_id io tm co doc_id (pj_config P),
                 pj_checked_out_ref_rx := Some (wt_version (fr_checked_out_ref I))\<rparr>)
         else ([], P\<lparr>pj_checked_out_ref_rx := Some rx\<rparr>))"

definition process ::
  "toml_io \<Rightarrow> toml_ops \<Rightarrow> ('u, 'd) config_ops \<Rightarrow> bool \<Rightarrow> ('d, 'doc, 'h, 'x, 'r) frame \<Rightarrow> ('d, 'doc, 'h, 'x, 'p) project \<Rightarrow>
   (file_system_event list \<times> ('d, 'h, 'r) godot_signal list) \<times> ('d, 'doc, 'h, 'x, 'p) project" where
  "process io tm co safe I P =
     (let (signals, P) = process_status I P
      in case pj_driver P of
           None \<Rightarrow> (([], signals), P)
         | Some driver \<Rightarrow>
             let (fs_changes, driver) = process_checkpoint safe I driver;
                 P = P\<lparr>pj_driver := Some (driver\<lparr>dr_ref_receivers := True\<rparr>)\<rparr>;
                 (ingested, P) = process_changes I P;
                 (synced, P) = process_connection_info I P;
                 (checked_out, P) = process_checked_out_ref io tm co I P
             in ((fs_changes, signals @ ingested @ synced @ checked_out), P))"

section \<open>The project over time\<close>

text \<open>The project and the commit lists that the driver's change ingester has sent, by their number.\<close>

record ('d, 'doc, 'h, 'x, 'p) project_run =
  pr_project :: "('d, 'doc, 'h, 'x, 'p) project"
  pr_sent :: "nat \<Rightarrow> ('d, 'h) commit_info list"
  pr_version :: nat

abbreviation sent_changes :: "('d, 'doc, 'h, 'x, 'p) project_run \<Rightarrow> ('d, 'h) commit_info list watch" where
  "sent_changes S \<equiv> \<lparr>wt_value = pr_sent S (pr_version S), wt_version = pr_version S\<rparr>"

inductive project_step ::
  "toml_io \<Rightarrow> toml_ops \<Rightarrow> ('u, 'd) config_ops \<Rightarrow>
   (('d, 'doc, 'h, 'x) driver \<Rightarrow> ('d, 'h) history_ref \<Rightarrow> ('d, 'h) history_ref \<Rightarrow> 'p option) \<Rightarrow> 'p \<Rightarrow>
   ('d, 'doc, 'h, 'x, 'p) project_run \<Rightarrow> ('d, 'doc, 'h, 'x, 'p) project_run \<Rightarrow> bool"
  for io tm co differ empty_diff where
  step_send: "project_step io tm co differ empty_diff S
    (S\<lparr>pr_sent := (pr_sent S)(Suc (pr_version S) := cs), pr_version := Suc (pr_version S)\<rparr>)"
| step_frame: "fr_changes (I :: ('d, 'doc, 'h, 'x, 'u) frame) = sent_changes S \<Longrightarrow> project_step io tm co differ empty_diff S
    (S\<lparr>pr_project := snd (process io tm co safe I (pr_project S))\<rparr>)"
| step_started: "pj_driver (pr_project S) = None \<Longrightarrow> project_step io tm co differ empty_diff S
    (S\<lparr>pr_project := (pr_project S)\<lparr>pj_driver := Some driver\<rparr>, pr_sent := (\<lambda>_. []), pr_version := 0\<rparr>)"
| step_stop: "project_step io tm co differ empty_diff S (S\<lparr>pr_project := stop (pr_project S)\<rparr>)"
| step_request: "project_step io tm co differ empty_diff S (S\<lparr>pr_project := snd (request_diff i (pr_project S))\<rparr>)"
| step_finish: "i \<in> set (pj_diff_tasks (pr_project S)) \<Longrightarrow> project_step io tm co differ empty_diff S
    (S\<lparr>pr_project := finish_diff differ empty_diff i (pr_project S)\<rparr>)"
| step_clear: "project_step io tm co differ empty_diff S (S\<lparr>pr_project := clear_diff_cache (pr_project S)\<rparr>)"

definition project_start :: "('d, 'doc, 'h, 'x, 'p) project_run \<Rightarrow> bool" where
  "project_start S \<longleftrightarrow> (\<exists>config auth. pr_project S = project_new config auth)"

text \<open>What the receiver of the commit lists has seen is what the project shows.\<close>

definition displays :: "('d, 'h) commit_info list \<Rightarrow> ('d, 'doc, 'h, 'x, 'p) project \<Rightarrow> bool" where
  "displays changes P \<longleftrightarrow> pj_history P = Some (map ci_hash changes) \<and>
     pj_changes P = hm_collect (map (\<lambda>change. (ci_hash change, change)) changes)"

definition commits_inv :: "('d, 'doc, 'h, 'x, 'p) project_run \<Rightarrow> bool" where
  "commits_inv S \<longleftrightarrow>
     (case pj_changes_rx (pr_project S) of
        None \<Rightarrow> pj_history (pr_project S) = None
      | Some n \<Rightarrow> pj_driver (pr_project S) \<noteq> None \<and> n \<le> pr_version S \<and> displays (pr_sent S n) (pr_project S))"

definition diffs_inv :: "('d, 'doc, 'h, 'x, 'p) project \<Rightarrow> bool" where
  "diffs_inv P \<longleftrightarrow> hm_wf (pj_diff_cache P) \<and> distinct (pj_diff_tasks P) \<and>
     (\<forall>i. hm_get (pj_diff_cache P) i = Some (Inr DiffLoading) \<longleftrightarrow> i \<in> set (pj_diff_tasks P))"

abbreviation project_inv :: "('d, 'doc, 'h, 'x, 'p) project_run \<Rightarrow> bool" where
  "project_inv S \<equiv> commits_inv S \<and> diffs_inv (pr_project S)"

lemma process_driver_none: "pj_driver P = None \<Longrightarrow> snd (process io tm co safe I P) = snd (process_status I P)"
  by (simp add: process_def process_status_def)

lemma process_status_frame:
  "pj_driver (snd (process_status I P)) = pj_driver P" "pj_history (snd (process_status I P)) = pj_history P"
  "pj_changes (snd (process_status I P)) = pj_changes P" "pj_changes_rx (snd (process_status I P)) = pj_changes_rx P"
  "pj_diff_cache (snd (process_status I P)) = pj_diff_cache P" "pj_diff_tasks (snd (process_status I P)) = pj_diff_tasks P"
  by (simp_all add: process_status_def)

lemma process_diffs:
  "pj_diff_cache (snd (process io tm co safe I P)) = pj_diff_cache P"
  "pj_diff_tasks (snd (process io tm co safe I P)) = pj_diff_tasks P"
  by (auto simp: process_def process_status_def process_changes_def process_connection_info_def process_checked_out_ref_def
      ingest_changes_def Let_def split: option.split prod.split)

text \<open>A frame with a driver takes up the newest commit list, if what was seen before was shown.\<close>

lemma process_shows:
  assumes "pj_driver P \<noteq> None" and "pj_changes_rx P = None \<Longrightarrow> pj_history P = None"
    and "pj_changes_rx P = Some (wt_version (fr_changes I)) \<Longrightarrow> displays (wt_value (fr_changes I)) P"
  shows "displays (wt_value (fr_changes I)) (snd (process io tm co safe I P)) \<and>
    pj_changes_rx (snd (process io tm co safe I P)) = Some (wt_version (fr_changes I)) \<and>
    pj_driver (snd (process io tm co safe I P)) \<noteq> None"
proof -
  have rest: "displays changes (snd (process_checked_out_ref io tm co I (snd (process_connection_info I Q)))) = displays changes Q"
    "pj_changes_rx (snd (process_checked_out_ref io tm co I (snd (process_connection_info I Q)))) = pj_changes_rx Q"
    "pj_driver (snd (process_checked_out_ref io tm co I (snd (process_connection_info I Q)))) = pj_driver Q" for changes and Q :: "('a, 'b, 'c, 'd, 'e) project"
    by (auto simp: displays_def process_connection_info_def process_checked_out_ref_def Let_def)
  obtain driver where driver: "pj_driver P = Some driver" using assms(1) by auto
  define Q where "Q = (snd (process_status I P))\<lparr>pj_driver := Some ((snd (process_checkpoint safe I driver))\<lparr>dr_ref_receivers := True\<rparr>)\<rparr>"
  have process: "snd (process io tm co safe I P) =
      snd (process_checked_out_ref io tm co I (snd (process_connection_info I (snd (process_changes I Q)))))"
    using driver by (simp add: process_def Q_def process_status_frame case_prod_unfold Let_def)
  have Q: "pj_history Q = pj_history P" "pj_changes Q = pj_changes P" "pj_changes_rx Q = pj_changes_rx P" "pj_driver Q \<noteq> None"
    by (simp_all add: Q_def process_status_frame)
  have "displays (wt_value (fr_changes I)) (snd (process_changes I Q)) \<and>
      pj_changes_rx (snd (process_changes I Q)) = Some (wt_version (fr_changes I)) \<and> pj_driver (snd (process_changes I Q)) \<noteq> None"
    using assms(2,3) Q
    by (cases "pj_changes_rx P")
      (auto simp: process_changes_def subscribe_or_def has_changed_def ingest_changes_def displays_def Let_def)
  then show ?thesis by (simp add: process rest)
qed

lemma project_step_commits:
  assumes "project_step io tm co differ empty_diff S S'" "commits_inv S"
  shows "commits_inv S'"
  using assms
proof (induction rule: project_step.induct)
  case (step_send S cs)
  then show ?case by (auto simp: commits_inv_def split: option.splits)
next
  case (step_frame I S safe)
  show ?case
  proof (cases "pj_driver (pr_project S)")
    case None
    with step_frame show ?thesis
      by (auto simp: commits_inv_def process_driver_none process_status_frame displays_def split: option.splits)
  next
    case (Some driver)
    have "displays (wt_value (fr_changes I)) (snd (process io tm co safe I (pr_project S))) \<and>
        pj_changes_rx (snd (process io tm co safe I (pr_project S))) = Some (wt_version (fr_changes I)) \<and>
        pj_driver (snd (process io tm co safe I (pr_project S))) \<noteq> None"
      by (rule process_shows) (use step_frame Some in \<open>auto simp: commits_inv_def split: option.splits\<close>)
    with step_frame(1) show ?thesis by (simp add: commits_inv_def)
  qed
next
  case (step_started S driver)
  then show ?case by (auto simp: commits_inv_def split: option.splits)
qed (auto simp: commits_inv_def stop_def request_diff_def finish_diff_def clear_diff_cache_def displays_def split: option.splits)

lemma diffs_inv_task: "diffs_inv P \<Longrightarrow> i \<in> set (pj_diff_tasks P) \<Longrightarrow> hm_get (pj_diff_cache P) i = Some (Inr DiffLoading)"
  by (simp add: diffs_inv_def)

lemma request_diff_inv:
  assumes "diffs_inv P"
  shows "diffs_inv (snd (request_diff i P))"
proof (cases "hm_get (pj_diff_cache P) i")
  case None
  then have "i \<notin> set (pj_diff_tasks P)" using diffs_inv_task [OF assms, of i] by auto
  with None assms show ?thesis by (auto simp: diffs_inv_def request_diff_def hm_get_insert)
qed (use assms in \<open>simp add: request_diff_def\<close>)

lemma finish_diff_inv: "diffs_inv P \<Longrightarrow> diffs_inv (finish_diff differ empty_diff i P)"
  by (auto simp: diffs_inv_def finish_diff_def hm_get_insert project_get_diff_def ok_or_def split: option.splits)

lemma clear_diff_inv:
  assumes "diffs_inv P"
  shows "diffs_inv (clear_diff_cache P)"
proof -
  have "hm_get (pj_diff_cache (clear_diff_cache P)) i = Some (Inr DiffLoading) \<longleftrightarrow> hm_get (pj_diff_cache P) i = Some (Inr DiffLoading)" for i
    using conjunct1 [OF assms [unfolded diffs_inv_def]]
    by (auto simp: clear_diff_cache_def hm_get_filter is_loading_def split: option.splits sum.splits diff_status.splits)
  then show ?thesis using assms by (simp add: diffs_inv_def) (simp add: clear_diff_cache_def)
qed

lemma diffs_inv_same: "pj_diff_cache Q = pj_diff_cache P \<Longrightarrow> pj_diff_tasks Q = pj_diff_tasks P \<Longrightarrow> diffs_inv Q = diffs_inv P"
  by (simp add: diffs_inv_def)

lemma project_step_diffs:
  assumes "project_step io tm co differ empty_diff S S'" "diffs_inv (pr_project S)"
  shows "diffs_inv (pr_project S')"
  using assms
proof (induction rule: project_step.induct)
  case (step_frame I S safe)
  then show ?case by (simp add: diffs_inv_def process_diffs)
qed (simp_all add: request_diff_inv finish_diff_inv clear_diff_inv, simp_all add: diffs_inv_def stop_def)

interpretation run: step_system project_start "project_step io tm co differ empty_diff" project_inv
  for io :: toml_io and tm :: toml_ops and co :: "('u, 'd) config_ops" and
    differ :: "('d, 'doc, 'h, 'x) driver \<Rightarrow> ('d, 'h) history_ref \<Rightarrow> ('d, 'h) history_ref \<Rightarrow> 'p option" and empty_diff :: 'p
proof (unfold_locales, goal_cases)
  case (1 S)
  then show ?case by (auto simp: project_start_def project_new_def commits_inv_def diffs_inv_def)
next
  case (2 S S')
  then show ?case by (auto intro: project_step_commits project_step_diffs)
qed

abbreviation project_reachable ::
  "toml_io \<Rightarrow> toml_ops \<Rightarrow> ('u, 'd) config_ops \<Rightarrow>
   (('d, 'doc, 'h, 'x) driver \<Rightarrow> ('d, 'h) history_ref \<Rightarrow> ('d, 'h) history_ref \<Rightarrow> 'p option) \<Rightarrow> 'p \<Rightarrow>
   ('d, 'doc, 'h, 'x, 'p) project_run \<Rightarrow> bool" where
  "project_reachable io tm co differ empty_diff \<equiv> reachable project_start (project_step io tm co differ empty_diff)"

lemma hm_get_ingested_last: "hm_get (hm_collect (map (\<lambda>x. (f x, x)) xs)) k = find (\<lambda>x. f x = k) (rev xs)"
proof -
  have "hm_get (map (\<lambda>x. (f x, x)) ys) k = find (\<lambda>x. f x = k) ys" for ys
    by (induction ys) simp_all
  from this [of "rev xs"] show ?thesis by (simp add: hm_get_collect rev_map)
qed

lemma hm_get_ingested: "distinct (map f xs) \<Longrightarrow> x \<in> set xs \<Longrightarrow> hm_get (hm_collect (map (\<lambda>x. (f x, x)) xs)) (f x) = Some x"
  by (subst hm_get_collect_distinct) (auto simp: comp_def map_of_eq_Some_iff image_iff)

text \<open>A frame that signals no ingested changes leaves what is shown as it was.\<close>

lemma process_unsignalled:
  assumes "ChangesIngested \<notin> set (snd (fst (process io tm co safe I P)))"
  shows "pj_history (snd (process io tm co safe I P)) = pj_history P \<and> pj_changes (snd (process io tm co safe I P)) = pj_changes P"
proof (cases "pj_driver P")
  case None
  then show ?thesis by (simp add: process_driver_none process_status_frame)
next
  case (Some driver)
  then show ?thesis using assms
    by (auto simp: process_def process_status_def process_changes_def process_connection_info_def process_checked_out_ref_def
        Let_def split: if_splits prod.splits)
qed

text \<open>C39: After a frame with a driver the project shows the newest commit list that the ingester has sent, and nothing of an
  older one, whatever was stopped, started or sent before: its history is the list of the hashes, what is found under a
  hash is the last commit of the list that has it, and nothing is found under any other hash. A frame that changes what
  is shown signals it.
\<close>

theorem frame_shows_latest_commits:
  assumes "project_reachable io tm co differ empty_diff S" and "pj_driver (pr_project S) \<noteq> None"
    and "fr_changes I = sent_changes S" and "process io tm co safe I (pr_project S) = ((fs_changes, signals), P)"
  shows "pj_history P = Some (map ci_hash (pr_sent S (pr_version S))) \<and>
    (\<forall>h. hm_get (pj_changes P) h = find (\<lambda>c. ci_hash c = h) (rev (pr_sent S (pr_version S)))) \<and>
    (pj_history P \<noteq> pj_history (pr_project S) \<or> pj_changes P \<noteq> pj_changes (pr_project S) \<longrightarrow> ChangesIngested \<in> set signals)"
proof -
  have "commits_inv S" using run.inv_reachable [OF assms(1)] by simp
  then have "displays (wt_value (fr_changes I)) (snd (process io tm co safe I (pr_project S)))"
    by (intro process_shows [THEN conjunct1]) (use assms(2,3) in \<open>auto simp: commits_inv_def split: option.splits\<close>)
  moreover note process_unsignalled [of io tm co safe I "pr_project S"]
  ultimately show ?thesis using assms(3,4) by (auto simp: displays_def hm_get_ingested_last)
qed

text \<open>A difference is computed by at most one task at a time, and the cache says that it is loading exactly
  while its task runs: asking again, clearing the cache and stopping the project start no second task.
\<close>

theorem one_task_per_diff:
  assumes "project_reachable io tm co differ empty_diff S"
  shows "distinct (pj_diff_tasks (pr_project S)) \<and>
    (\<forall>i. hm_get (pj_diff_cache (pr_project S)) i = Some (Inr DiffLoading) \<longleftrightarrow> i \<in> set (pj_diff_tasks (pr_project S)))"
  using run.inv_reachable [OF assms] by (simp add: diffs_inv_def)

section \<open>The first checkout\<close>

lemma resolve_receivers: "resolve_pending_normalized_files E r s = Inr s' \<Longrightarrow> dr_ref_receivers s' = dr_ref_receivers s"
  unfolding resolve_pending_normalized_files_def
  by (auto simp: rbind_eq_Inr_iff split: sum.splits fault.splits)

lemma finish_receivers:
  assumes "finish_checkout E co s = Inr s'"
  shows "dr_ref_receivers s' = dr_ref_receivers s"
proof (cases "dr_ref s \<noteq> co_from co \<or> \<not> dr_safe s")
  case False
  with assms obtain t where t: "(case co_from co of None \<Rightarrow> Inr s | Some r \<Rightarrow> resolve_pending_normalized_files E r s) = Inr t"
    and s': "(case co_changes co of None \<Rightarrow> Inr t | Some changes \<Rightarrow>
        rbind (apply_changes (de_hasher E) (de_fs E) (de_db E) changes (dr_disk t) (dr_index t)) (\<lambda>(results, disk, ix).
          Inr (t\<lparr>dr_disk := disk, dr_index := ix, dr_db := (dr_db t)\<lparr>pd_checked_out := Some (co_goal co)\<rparr>,
                 dr_events := dr_events t @ results\<rparr>))) = (Inr s' :: (unit, _) outcome)"
    unfolding finish_checkout_def by (simp only: rbind_eq_Inr_iff if_False de_Morgan_disj not_not simp_thms) blast
  have "dr_ref_receivers t = dr_ref_receivers s" using t by (cases "co_from co") (auto dest: resolve_receivers)
  moreover have "dr_ref_receivers s' = dr_ref_receivers t" using s' by (cases "co_changes co") (auto simp: rbind_eq_Inr_iff)
  ultimately show ?thesis by simp
qed (use assms in \<open>auto simp: finish_checkout_def split: if_splits\<close>)

lemma sync_needs_receiver:
  assumes "sync E meanwhile s = Inr s'" and "\<And>x. dr_ref_receivers (meanwhile x) = dr_ref_receivers x" and "\<not> dr_ref_receivers s"
  shows "map_option hr_branch (dr_ref s') = map_option hr_branch (dr_ref s)"
proof -
  from assms(1) obtain s1 where s1: "(case dr_ref s of None \<Rightarrow> Inr s | Some r \<Rightarrow> commit E r False s) = Inr s1"
    and rest: "rbind (sync_correct_ref E meanwhile s1) (\<lambda>t.
         if map_option hr_branch (dr_ref t) \<noteq> map_option hr_branch (dr_ref s)
         then (if dr_ref_receivers t then Inr (t\<lparr>dr_ingestion := True, dr_ref_sent := dr_ref t\<rparr>) else Inl Panic)
         else Inr t) = Inr s'"
    by (auto simp: sync_def Let_def rbind_eq_Inr_iff)
  have r1: "\<not> dr_ref_receivers s1" using s1 assms(3) by (auto split: option.splits dest: commit_frame(5))
  from rest obtain t where t: "sync_correct_ref E meanwhile s1 = Inr t"
    and s': "(if map_option hr_branch (dr_ref t) \<noteq> map_option hr_branch (dr_ref s)
         then (if dr_ref_receivers t then Inr (t\<lparr>dr_ingestion := True, dr_ref_sent := dr_ref t\<rparr>) else Inl Panic)
         else Inr t) = (Inr s' :: (unit, _) outcome)"
    by (auto simp: rbind_eq_Inr_iff)
  have "\<not> dr_ref_receivers t"
  proof -
    from t obtain co x where x: "propose_checkout E s1 = Inr (co, x)"
      and co: "(case co of None \<Rightarrow> Inr x | Some co \<Rightarrow> finish_checkout E co (meanwhile x)) = Inr t"
      by (auto simp: sync_correct_ref_def rbind_eq_Inr_iff)
    have "\<not> dr_ref_receivers x" using propose_checkout_frame(5) [OF x] r1 by simp
    then show ?thesis using co assms(2) by (cases co) (auto simp: finish_receivers)
  qed
  with s' show ?thesis by (auto split: if_splits)
qed

text \<open>The first checkout of a project is not announced. The receiver of the checked out reference is subscribed at the
  end of the first frame with a driver. A sync that changes the branch before panics, for it sends to nobody
  and unwraps the error; and what was checked out before is neither signalled to the editor in that frame
  nor saved as the branch to open next time.
\<close>

theorem first_checkout_unseen:
  assumes "pj_driver P = Some driver" and "pj_checked_out_ref_rx P = None" and "\<not> dr_ref_receivers driver"
    and "quiet_meanwhile meanwhile"
  shows "(\<forall>driver'. sync E meanwhile driver = Inr driver' \<longrightarrow>
      map_option hr_branch (dr_ref driver') = map_option hr_branch (dr_ref driver)) \<and>
    BranchCheckedOut \<notin> set (snd (fst (process io tm co safe I P))) \<and> pj_config (snd (process io tm co safe I P)) = pj_config P"
proof -
  have "BranchCheckedOut \<notin> set (snd (fst (process io tm co safe I P))) \<and> pj_config (snd (process io tm co safe I P)) = pj_config P"
    using assms(1,2)
    by (auto simp: process_def process_status_def process_changes_def process_connection_info_def process_checked_out_ref_def
        ingest_changes_def subscribe_or_def has_changed_def Let_def split: prod.split)
  moreover have "\<And>x. dr_ref_receivers (meanwhile x) = dr_ref_receivers x" using assms(4) by (simp add: quiet_meanwhile_def)
  ultimately show ?thesis using sync_needs_receiver assms(3) by metis
qed

section \<open>Witnesses\<close>

definition demo_frame :: "(bool, nat) commit_info list \<Rightarrow> nat \<Rightarrow> (bool, demo_view list, nat, string, string) frame" where
  "demo_frame cs n = \<lparr>fr_auth_status = \<lparr>wt_value = AuthIdle, wt_version = 0\<rparr>, fr_server_events = [ServerLagged, ServerMessage],
     fr_checkpoint = (\<lambda>d. d), fr_changes = \<lparr>wt_value = cs, wt_version = n\<rparr>, fr_connection_info = \<lparr>wt_value = (), wt_version = 0\<rparr>,
     fr_checked_out_ref = \<lparr>wt_value = Some (history_ref_new True [1]), wt_version = 3\<rparr>\<rparr>"

definition demo_commit :: "nat \<Rightarrow> (bool, nat) commit_info" where
  "demo_commit n = \<lparr>ci_hash = n, ci_timestamp = 0, ci_metadata = None, ci_synced = False, ci_summary = []\<rparr>"

definition demo_unseen :: "(bool, demo_view list, nat, string) driver" where
  "demo_unseen = (demo_driver [demo_first] ''z'')\<lparr>dr_ref_receivers := False\<rparr>"

definition demo_run :: "(bool, demo_view list, nat, string, nat) project_run" where
  "demo_run = \<lparr>pr_project = (project_new (sr_config demo_starter) 0)\<lparr>pj_driver := Some demo_unseen\<rparr>,
     pr_sent = (\<lambda>_. [])(1 := [demo_commit 1, demo_commit 2]), pr_version = 1\<rparr>"

abbreviation demo_reach :: "(bool, demo_view list, nat, string, nat) project_run \<Rightarrow> bool" where
  "demo_reach \<equiv> project_reachable demo_toml_io demo_toml demo_saved_config (\<lambda>_ _ _. None) 0"

lemma demo_run_reach: "demo_reach demo_run"
proof -
  let ?S = "\<lparr>pr_project = project_new (sr_config demo_starter) 0, pr_sent = (\<lambda>_. []), pr_version = 0\<rparr>
    :: (bool, demo_view list, nat, string, nat) project_run"
  have "demo_reach ?S" by (rule reachable_init) (auto simp: project_start_def)
  let ?T = "?S\<lparr>pr_project := (pr_project ?S)\<lparr>pj_driver := Some demo_unseen\<rparr>, pr_sent := (\<lambda>_. []), pr_version := 0\<rparr>"
  from \<open>demo_reach ?S\<close> have T: "demo_reach (?S\<lparr>pr_project := (pr_project ?S)\<lparr>pj_driver := Some demo_unseen\<rparr>, pr_sent := (\<lambda>_. []), pr_version := 0\<rparr>)"
    by (rule reachable_step) (rule step_started, simp add: project_new_def)
  from reachable_step [OF T step_send [where cs = "[demo_commit 1, demo_commit 2]"]] show ?thesis
    by (simp add: demo_run_def)
qed

theorem frame_shows_latest_commits_witness:
  "let P = snd (process demo_toml_io demo_toml demo_saved_config True (demo_frame [demo_commit 1, demo_commit 2] 1)
     (pr_project demo_run))
   in pj_history P = Some [1, 2] \<and> hm_get (pj_changes P) 2 = Some (demo_commit 2) \<and> hm_get (pj_changes P) 3 = None"
proof -
  obtain fs_changes signals P where run: "process demo_toml_io demo_toml demo_saved_config True
      (demo_frame [demo_commit 1, demo_commit 2] 1) (pr_project demo_run) = ((fs_changes, signals), P)"
    by (metis surj_pair)
  from frame_shows_latest_commits [OF demo_run_reach _ _ run] show ?thesis
    unfolding run by (simp add: demo_run_def demo_frame_def demo_commit_def)
qed

theorem one_task_per_diff_witness: "distinct (pj_diff_tasks (pr_project demo_run))"
  using one_task_per_diff [OF demo_run_reach] by simp

theorem first_checkout_unseen_witness:
  "BranchCheckedOut \<notin> set (snd (fst (process demo_toml_io demo_toml demo_saved_config True (demo_frame [] 0) (pr_project demo_run))))"
  using first_checkout_unseen [of "pr_project demo_run" demo_unseen id demo_driver_env demo_toml_io demo_toml demo_saved_config True "demo_frame [] 0"]
  by (simp add: demo_run_def project_new_def demo_unseen_def quiet_meanwhile_def)

end
