(* ===== verification/Project_Api.thy ===== *)
theory Project_Api imports Project_Frame "HOL-Library.Char_ord" "HOL-Library.List_Lexorder" "HOL-Library.Option_ord" begin

text \<open>
  \<open>project/project_api_impl.rs\<close>: what the user interface asks of a project and what it can do with it. A
  query reads the project, its driver and the settings; a command runs an operation of the driver or hands
  a task to the runtime, which is then the result.

  Lower-case texts, times as texts and the parts of a URL are parameters.
\<close>

section \<open>What the interface works with\<close>

record ('s, 'doc, 'h, 'v, 'o, 'd, 'x, 'u) api_env =
  ae_driver :: "('s, 'doc, 'h, 'v, 'o, 'd, 'x) driver_env"
  ae_io :: toml_io
  ae_toml :: toml_ops
  ae_config :: "('u, 'd) config_ops"
  ae_scheme :: "'u \<Rightarrow> string"
  ae_ids :: "('d, 'h) id_io"
  ae_lower :: "string \<Rightarrow> string"
  ae_human_time :: "int \<Rightarrow> string"

definition with_config :: "(toml_file \<Rightarrow> 'a \<times> toml_file) \<Rightarrow> ('d, 'doc, 'h, 'x, 'p) project \<Rightarrow> 'a \<times> ('d, 'doc, 'h, 'x, 'p) project" where
  "with_config f P = (case f (pj_config P) of (x, c) \<Rightarrow> (x, P\<lparr>pj_config := c\<rparr>))"

definition set_config :: "(toml_file \<Rightarrow> toml_file) \<Rightarrow> ('d, 'doc, 'h, 'x, 'p) project \<Rightarrow> ('d, 'doc, 'h, 'x, 'p) project" where
  "set_config f P = P\<lparr>pj_config := f (pj_config P)\<rparr>"

text \<open>\<open>with_driver_blocking\<close>: nothing without a driver; a panic of the task is one of the caller.\<close>

definition with_driver ::
  "(('d, 'doc, 'h, 'x) driver, 'e, 'a) run \<Rightarrow> (('d, 'doc, 'h, 'x, 'p) project, 'e, 'a option) run" where
  "with_driver m P =
     (case pj_driver P of
        None \<Rightarrow> (Inr None, P)
      | Some driver \<Rightarrow> (case m driver of (r, driver) \<Rightarrow> (rbind r (\<lambda>x. Inr (Some x)), P\<lparr>pj_driver := Some driver\<rparr>)))"

definition has_project :: "('d, 'doc, 'h, 'x, 'p) project \<Rightarrow> bool" where
  "has_project P \<longleftrightarrow> pj_driver P \<noteq> None"

definition get_current_ref :: "('d, 'doc, 'h, 'x, 'p) project \<Rightarrow> ('d, 'h) history_ref option" where
  "get_current_ref P = Option.bind (pj_driver P) dr_ref"

definition get_checked_out_branch_state :: "('d, 'doc, 'h, 'x, 'p) project \<Rightarrow> ('d, 'h) branch option" where
  "get_checked_out_branch_state P =
     Option.bind (pj_driver P) (\<lambda>driver.
     Option.bind (dr_ref driver) (\<lambda>r. get_ok (get_branch_state (hr_branch r) (dr_db driver))))"

definition get_project_id :: "('d, 'doc, 'h, 'x, 'p) project \<Rightarrow> 'd option" where
  "get_project_id P = Option.bind (pj_driver P) (\<lambda>driver. map_option fst (get_ok (get_metadata_state (dr_db driver))))"

section \<open>The user and the servers\<close>

definition has_user_name ::
  "('s, 'doc, 'h, 'v, 'o, 'd, 'x, 'u) api_env \<Rightarrow> ('d, 'doc, 'h, 'x, 'p) project \<Rightarrow> bool \<times> ('d, 'doc, 'h, 'x, 'p) project" where
  "has_user_name A P = map_prod (\<lambda>n. n \<noteq> None) id (with_config (user_name (ae_io A) (ae_toml A)) P)"

definition get_user_name ::
  "('s, 'doc, 'h, 'v, 'o, 'd, 'x, 'u) api_env \<Rightarrow> ('d, 'doc, 'h, 'x, 'p) project \<Rightarrow> string \<times> ('d, 'doc, 'h, 'x, 'p) project" where
  "get_user_name A P =
     map_prod (\<lambda>n. case n of None \<Rightarrow> [] | Some n \<Rightarrow> n) id (with_config (user_name (ae_io A) (ae_toml A)) P)"

definition driver_set_username :: "string option \<Rightarrow> ('d, 'doc, 'h, 'x) driver \<Rightarrow> ('d, 'doc, 'h, 'x) driver" where
  "driver_set_username name driver = driver\<lparr>dr_db := (dr_db driver)\<lparr>pd_default_username := name\<rparr>\<rparr>"

definition api_set_user_name ::
  "('s, 'doc, 'h, 'v, 'o, 'd, 'x, 'u) api_env \<Rightarrow> string \<Rightarrow> ('d, 'doc, 'h, 'x, 'p) project \<Rightarrow> ('d, 'doc, 'h, 'x, 'p) project" where
  "api_set_user_name A name P =
     (set_config (set_user_name (ae_io A) (ae_toml A) (Some name)) P)
       \<lparr>pj_driver := map_option (driver_set_username (Some name)) (pj_driver P)\<rparr>"

definition validate_server :: "('s, 'doc, 'h, 'v, 'o, 'd, 'x, 'u) api_env \<Rightarrow> string \<Rightarrow> string option" where
  "validate_server A server =
     Option.bind (co_parse_url (ae_config A) server) (\<lambda>url.
     if ae_scheme A url = ''http'' \<or> ae_scheme A url = ''https'' then Some (co_show_url (ae_config A) url) else None)"

text \<open>The status to show, and the server to handshake with in the background.\<close>

definition ping_server ::
  "('s, 'doc, 'h, 'v, 'o, 'd, 'x, 'u) api_env \<Rightarrow> string \<Rightarrow> bool \<Rightarrow> 'u server_manager \<Rightarrow> 'u server_status \<times> 'u option" where
  "ping_server A server retry servers =
     (case co_parse_url (ae_config A) server of
        None \<Rightarrow> (StatusNone, None)
      | Some url \<Rightarrow>
          (case server_status url servers of
             StatusNone \<Rightarrow> (StatusHandshaking, Some url)
           | StatusHandshakeFailed \<Rightarrow> if retry then (StatusHandshaking, Some url) else (StatusHandshakeFailed, None)
           | status \<Rightarrow> (status, None)))"

definition get_saved_server ::
  "('s, 'doc, 'h, 'v, 'o, 'd, 'x, 'u) api_env \<Rightarrow> ('d, 'doc, 'h, 'x, 'p) project \<Rightarrow> string option \<times> ('d, 'doc, 'h, 'x, 'p) project" where
  "get_saved_server A P =
     map_prod (map_option (co_show_url (ae_config A))) id (with_config (config_server_url (ae_io A) (ae_toml A) (ae_config A)) P)"

text \<open>The server to connect to in the background, or none to disconnect. A URL that cannot be read counts as none.\<close>

definition change_server ::
  "('s, 'doc, 'h, 'v, 'o, 'd, 'x, 'u) api_env \<Rightarrow> string option \<Rightarrow> ('d, 'doc, 'h, 'x, 'p) project \<Rightarrow>
   'u option option \<times> ('d, 'doc, 'h, 'x, 'p) project" where
  "change_server A server P =
     (if \<not> has_project P then (None, P)
      else let server = Option.bind server (co_parse_url (ae_config A))
           in (Some server, set_config (set_server_url (ae_io A) (ae_toml A) (ae_config A) server) P))"

text \<open>The servers as an \<open>IndexSet\<close>: \<open>swap_remove\<close> puts the last server in the place of the removed one.\<close>

definition index_insert :: "'a \<Rightarrow> 'a list \<Rightarrow> 'a list" where
  "index_insert x xs = (if x \<in> set xs then xs else xs @ [x])"

fun swap_remove :: "'a \<Rightarrow> 'a list \<Rightarrow> 'a list" where
  "swap_remove x [] = []"
| "swap_remove x (y # ys) =
     (if x = y then (if ys = [] then [] else last ys # butlast ys) else y # swap_remove x ys)"

definition change_servers ::
  "('s, 'doc, 'h, 'v, 'o, 'd, 'x, 'u) api_env \<Rightarrow> ('u list \<Rightarrow> 'u list) \<Rightarrow> toml_file \<Rightarrow> toml_file" where
  "change_servers A f c =
     (case available_servers (ae_io A) (ae_toml A) (ae_config A) c of
        (servers, c) \<Rightarrow> set_available_servers (ae_io A) (ae_toml A) (ae_config A) (f servers) c)"

definition add_server ::
  "('s, 'doc, 'h, 'v, 'o, 'd, 'x, 'u) api_env \<Rightarrow> string \<Rightarrow> ('d, 'doc, 'h, 'x, 'p) project \<Rightarrow> ('d, 'doc, 'h, 'x, 'p) project" where
  "add_server A server P =
     (case co_parse_url (ae_config A) server of
        None \<Rightarrow> P
      | Some server \<Rightarrow> set_config (change_servers A (index_insert server)) P)"

definition remove_server ::
  "('s, 'doc, 'h, 'v, 'o, 'd, 'x, 'u) api_env \<Rightarrow> string \<Rightarrow> ('d, 'doc, 'h, 'x, 'p) project \<Rightarrow> ('d, 'doc, 'h, 'x, 'p) project" where
  "remove_server A server P =
     (case co_parse_url (ae_config A) server of
        None \<Rightarrow> P
      | Some server \<Rightarrow> set_config (change_servers A (swap_remove server)) P)"

definition get_available_servers ::
  "('s, 'doc, 'h, 'v, 'o, 'd, 'x, 'u) api_env \<Rightarrow> ('d, 'doc, 'h, 'x, 'p) project \<Rightarrow> string list \<times> ('d, 'doc, 'h, 'x, 'p) project" where
  "get_available_servers A P =
     map_prod (map (co_show_url (ae_config A))) id (with_config (available_servers (ae_io A) (ae_toml A) (ae_config A)) P)"

definition webviewer_url ::
  "('s, 'doc, 'h, 'v, 'o, 'd, 'x, 'u) api_env \<Rightarrow> 'u server_manager \<Rightarrow> ('d, 'doc, 'h, 'x, 'p) project \<Rightarrow>
   string option \<times> ('d, 'doc, 'h, 'x, 'p) project" where
  "webviewer_url A servers P =
     (case get_saved_server A P of
        (server, P) \<Rightarrow>
          (Option.bind (Option.bind server (co_parse_url (ae_config A))) (\<lambda>url.
           case server_status url servers of
             StatusReady _ _ info \<Rightarrow> map_option (co_show_url (ae_config A)) (si_webviewer_url info)
           | _ \<Rightarrow> None), P))"

section \<open>Starting and stopping\<close>

definition clear_project ::
  "('s, 'doc, 'h, 'v, 'o, 'd, 'x, 'u) api_env \<Rightarrow> ('d, 'doc, 'h, 'x, 'p) project \<Rightarrow> ('d, 'doc, 'h, 'x, 'p) project" where
  "clear_project A P =
     (if \<not> has_project P then P
      else set_config (\<lambda>c. set_checked_out_branch_doc_id (ae_io A) (ae_toml A) (ae_config A) None
             (set_project_doc_id (ae_io A) (ae_toml A) (ae_config A) None c)) (stop P))"

definition checked_server_url :: "('s, 'doc, 'h, 'v, 'o, 'd, 'x, 'u) api_env \<Rightarrow> string option \<Rightarrow> 'u option" where
  "checked_server_url A server_url =
     Option.bind (Option.bind server_url (validate_server A)) (co_parse_url (ae_config A))"

text \<open>How to start in the background.\<close>

definition new_project ::
  "('s, 'doc, 'h, 'v, 'o, 'd, 'x, 'u) api_env \<Rightarrow> string option \<Rightarrow> ('d, 'doc, 'h, 'x, 'p) project \<Rightarrow> (create_mode \<times> 'u option) option" where
  "new_project A server_url P = (if has_project P then None else Some (ModeNew, checked_server_url A server_url))"

definition api_load_project ::
  "('s, 'doc, 'h, 'v, 'o, 'd, 'x, 'u) api_env \<Rightarrow> 'd \<Rightarrow> string option \<Rightarrow> bool \<Rightarrow> ('d, 'doc, 'h, 'x, 'p) project \<Rightarrow>
   (create_mode \<times> 'u option) option \<times> ('d, 'doc, 'h, 'x, 'p) project" where
  "api_load_project A i server_url autostart P =
     (if has_project P then (None, P)
      else (Some (if autostart then AutoLoaded else ManuallyLoaded, checked_server_url A server_url),
            set_config (set_project_doc_id (ae_io A) (ae_toml A) (ae_config A) (Some i)) P))"

definition local_changes :: "('d, 'doc, 'h, 'x, 'p) project \<Rightarrow> (string, change_type) hmap" where
  "local_changes P = (case wt_value (pj_start_status P) of NeedsCheckIn changes \<Rightarrow> changes | _ \<Rightarrow> [])"

text \<open>The answer to a start that waits for one, taken once.\<close>

definition answer_local_changes ::
  "local_changes_result \<Rightarrow> ('d, 'doc, 'h, 'x, 'p) project \<Rightarrow> local_changes_result option \<times> ('d, 'doc, 'h, 'x, 'p) project" where
  "answer_local_changes answer P =
     (if pj_local_changes_tx P then (Some answer, P\<lparr>pj_local_changes_tx := False\<rparr>) else (None, P))"

section \<open>Whether the server has everything\<close>

datatype sync_status = Unknown | Disconnected nat | Syncing | UpToDate

definition get_sync_status ::
  "('s, 'doc, 'h::linorder, 'v, 'o, 'd, 'x, 'u) api_env \<Rightarrow> ('d, 'h, 'y, 'z) connection_info option \<Rightarrow>
   ('d, 'doc, 'h, 'x, 'p) project \<Rightarrow> sync_status" where
  "get_sync_status A info P =
     (case pj_driver P of
        None \<Rightarrow> UpToDate
      | Some driver \<Rightarrow>
          (case (info, Option.bind (dr_ref driver) (\<lambda>r. latest_ref (ae_driver A) (hr_branch r) driver), get_checked_out_branch_state P) of
             (Some info, Some latest, Some branch) \<Rightarrow>
               (case hm_get (ci_docs info) (br_id branch) of
                  None \<Rightarrow> Unknown
                | Some status \<Rightarrow>
                    let is_connected = ci_last_received info \<noteq> None
                    in if last_acked_heads status = Some (hr_heads latest)
                       then (if is_connected then UpToDate else Disconnected 0)
                       else if is_connected then Syncing
                       else Disconnected (length (filter (\<lambda>(_, c). \<not> ci_synced c) (pj_changes P))))
           | _ \<Rightarrow> Unknown))"

section \<open>Branches\<close>

record ('d, 'h) branch_wrapper =
  bw_state :: "('d, 'h) branch"
  bw_children :: "'d list"

definition branch_parent :: "('d, 'h) branch_wrapper \<Rightarrow> 'd option" where
  "branch_parent b = map_option hr_branch (br_forked_from (bw_state b))"

definition branch_reverted_to :: "('d, 'h) branch_wrapper \<Rightarrow> 'h option" where
  "branch_reverted_to b =
     Option.bind (br_reverted_to (bw_state b)) (\<lambda>r. case hr_heads r of [] \<Rightarrow> None | h # _ \<Rightarrow> Some h)"

definition branch_merge_into :: "('d, 'h) branch_wrapper \<Rightarrow> 'd option" where
  "branch_merge_into b = map_option hr_branch (br_merge_into (bw_state b))"

definition branch_is_available :: "('d, 'h) branch_wrapper \<Rightarrow> bool" where
  "branch_is_available b \<longleftrightarrow> branch_merge_into b = None \<and> branch_reverted_to b = None"

text \<open>
  The comparison that sorts the children asks for both of them again, and so for their children. A child that
  is not found comes first. The recursion is bounded by fuel: no result means that it goes on.
\<close>

fun get_branch_in ::
  "(string \<Rightarrow> string) \<Rightarrow> ('d, 'doc, 'h) project_db \<Rightarrow> nat \<Rightarrow> 'd \<Rightarrow> ('d, 'h) branch_wrapper option option" where
  "get_branch_in lower db 0 i = None"
| "get_branch_in lower db (Suc fuel) i =
     (case get_branch_state i db of
        Inl _ \<Rightarrow> Some None
      | Inr state \<Rightarrow>
          let children = get_branch_children i db
          in if length children < 2 then Some (Some \<lparr>bw_state = state, bw_children = children\<rparr>)
             else (case those (map (\<lambda>c. get_branch_in lower db fuel c) children) of
                     None \<Rightarrow> None
                   | Some found \<Rightarrow>
                       Some (Some \<lparr>bw_state = state,
                         bw_children = map fst (sort_key (\<lambda>(_, b). map_option (\<lambda>b. lower (br_name (bw_state b))) b) (zip children found))\<rparr>)))"

definition get_branch ::
  "('s, 'doc, 'h, 'v, 'o, 'd, 'x, 'u) api_env \<Rightarrow> nat \<Rightarrow> 'd \<Rightarrow> ('d, 'doc, 'h, 'x, 'p) project \<Rightarrow> ('d, 'h) branch_wrapper option option" where
  "get_branch A fuel i P =
     (case pj_driver P of None \<Rightarrow> Some None | Some driver \<Rightarrow> get_branch_in (ae_lower A) (dr_db driver) fuel i)"

definition get_main_branch_view ::
  "('s, 'doc, 'h, 'v, 'o, 'd, 'x, 'u) api_env \<Rightarrow> nat \<Rightarrow> ('d, 'doc, 'h, 'x, 'p) project \<Rightarrow> ('d, 'h) branch_wrapper option option" where
  "get_main_branch_view A fuel P =
     (case Option.bind (pj_driver P) (\<lambda>driver. get_ok (get_main_branch (dr_db driver))) of
        None \<Rightarrow> Some None | Some i \<Rightarrow> get_branch A fuel i P)"

definition get_checked_out_branch ::
  "('s, 'doc, 'h, 'v, 'o, 'd, 'x, 'u) api_env \<Rightarrow> nat \<Rightarrow> ('d, 'doc, 'h, 'x, 'p) project \<Rightarrow> ('d, 'h) branch_wrapper option option" where
  "get_checked_out_branch A fuel P =
     (case get_current_ref P of None \<Rightarrow> Some None | Some r \<Rightarrow> get_branch A fuel (hr_branch r) P)"

definition create_branch ::
  "('s, 'doc, 'h::linorder, 'v, 'o, 'd, 'x, 'u) api_env \<Rightarrow> string \<Rightarrow> (('d, 'doc, 'h, 'x, 'p) project, ('d, 'h) db_error, unit) run" where
  "create_branch A name =
     sbind (sgets (\<lambda>P. Inr (get_checked_out_branch_state P))) (\<lambda>branch_state.
     case branch_state of
       None \<Rightarrow> sret ()
     | Some branch_state \<Rightarrow> sbind (with_driver (driver_fork_branch (ae_driver A) name (br_id branch_state))) (\<lambda>_. sret ()))"

definition checkout_branch :: "'d \<Rightarrow> (('d, 'doc, 'h, 'x, 'p) project, ('d, 'h) db_error, unit) run" where
  "checkout_branch branch = sbind (with_driver (smodify (request_checkout branch))) (\<lambda>_. sret ())"

definition api_is_branch_loaded ::
  "('s, 'doc, 'h, 'v, 'o, 'd, 'x, 'u) api_env \<Rightarrow> 'd \<Rightarrow> ('d, 'doc, 'h, 'x, 'p) project \<Rightarrow> bool" where
  "api_is_branch_loaded A branch P =
     (case pj_driver P of
        None \<Rightarrow> False | Some driver \<Rightarrow> is_branch_loaded (de_crdt (de_db (ae_driver A))) branch (pd_states (dr_db driver)))"

section \<open>Previews\<close>

datatype ('d, 'h) create_merge_error =
    MergeNoCheckedOutBranch | MergeNoForkedFrom | MergeNoDriver | NoChangesToMerge | MergeDbError "('d, 'h) db_error"

datatype ('d, 'h) create_revert_error =
    RevertNoCheckedOutBranch | RevertNoDriver | NoChangesToRevert | RevertDbError "('d, 'h) db_error"

text \<open>An operation of the driver that is needed, with its errors translated.\<close>

definition driver_op :: "'f \<Rightarrow> ('e \<Rightarrow> 'f) \<Rightarrow> (('d, 'doc, 'h, 'x) driver, 'e, unit) run \<Rightarrow> (('d, 'doc, 'h, 'x, 'p) project, 'f, unit) run" where
  "driver_op no_driver err m =
     sbind (stry (with_driver m)) (\<lambda>r.
     case r of
       Inl e \<Rightarrow> sfail (Err (err e))
     | Inr None \<Rightarrow> sfail (Err no_driver)
     | Inr (Some _) \<Rightarrow> sret ())"

definition create_merge_preview ::
  "('s, 'doc, 'h::linorder, 'v, 'o, 'd, 'x, 'u) api_env \<Rightarrow> (('d, 'doc, 'h, 'x, 'p) project, ('d, 'h) create_merge_error, unit) run" where
  "create_merge_preview A =
     sbind (sgets (\<lambda>P. ok_or (Err MergeNoCheckedOutBranch) (get_checked_out_branch_state P))) (\<lambda>checked_out_branch.
     sbind (sgets (\<lambda>_. ok_or (Err MergeNoForkedFrom) (br_forked_from checked_out_branch))) (\<lambda>fork_info.
     driver_op MergeNoDriver (\<lambda>e. case e of NoFilters \<Rightarrow> NoChangesToMerge | e \<Rightarrow> MergeDbError e)
       (driver_create_merge_preview (ae_driver A) (br_id checked_out_branch) (hr_branch fork_info))))"

definition create_revert_preview ::
  "('s, 'doc, 'h::linorder, 'v, 'o, 'd, 'x, 'u) api_env \<Rightarrow> 'h \<Rightarrow> (('d, 'doc, 'h, 'x, 'p) project, ('d, 'h) create_revert_error, unit) run" where
  "create_revert_preview A head =
     sbind (sgets (\<lambda>P. ok_or (Err RevertNoCheckedOutBranch) (get_checked_out_branch_state P))) (\<lambda>checked_out_branch.
     driver_op RevertNoDriver (\<lambda>e. case e of NoFilters \<Rightarrow> NoChangesToRevert | e \<Rightarrow> RevertDbError e)
       (driver_create_revert_preview (ae_driver A) (history_ref_new (br_id checked_out_branch) [head])))"

definition can_create_merge_preview ::
  "('s, 'doc, 'h, 'v, 'o, 'd, 'x, 'u) api_env \<Rightarrow> nat \<Rightarrow> ('d, 'doc, 'h, 'x, 'p) project \<Rightarrow> bool option" where
  "can_create_merge_preview A fuel P =
     map_option (\<lambda>main_branch.
       case (main_branch, get_checked_out_branch_state P) of
         (Some main_branch, Some branch_state) \<Rightarrow> br_id branch_state \<noteq> br_id (bw_state main_branch)
       | _ \<Rightarrow> False) (get_main_branch_view A fuel P)"

definition is_revert_preview_active :: "('d, 'doc, 'h, 'x, 'p) project \<Rightarrow> bool" where
  "is_revert_preview_active P \<longleftrightarrow>
     (case get_checked_out_branch_state P of Some state \<Rightarrow> br_reverted_to state \<noteq> None | None \<Rightarrow> False)"

definition is_merge_preview_active :: "('d, 'doc, 'h, 'x, 'p) project \<Rightarrow> bool" where
  "is_merge_preview_active P \<longleftrightarrow>
     (case get_checked_out_branch_state P of Some state \<Rightarrow> br_merge_into state \<noteq> None | None \<Rightarrow> False)"

definition get_branch_history :: "('d, 'doc, 'h, 'x, 'p) project \<Rightarrow> 'h list" where
  "get_branch_history P = (case pj_history P of None \<Rightarrow> [] | Some history \<Rightarrow> history)"

definition get_change :: "'h \<Rightarrow> ('d, 'doc, 'h, 'x, 'p) project \<Rightarrow> ('d, 'h) commit_info option" where
  "get_change hash P = hm_get (pj_changes P) hash"

definition change_username :: "('d, 'h) commit_info \<Rightarrow> string" where
  "change_username c =
     (case Option.bind (ci_metadata c) cm_username of Some author \<Rightarrow> author | None \<Rightarrow> ''Anonymous'')"

definition change_is_merge :: "('d, 'h) commit_info \<Rightarrow> bool" where
  "change_is_merge c \<longleftrightarrow> (case ci_metadata c of None \<Rightarrow> False | Some m \<Rightarrow> cm_merge_metadata m \<noteq> None)"

definition change_is_setup :: "('d, 'h) commit_info \<Rightarrow> bool" where
  "change_is_setup c \<longleftrightarrow>
     (case ci_metadata c of None \<Rightarrow> False | Some m \<Rightarrow> (case cm_is_setup m of None \<Rightarrow> False | Some b \<Rightarrow> b))"

definition change_merge_id :: "('d, 'h) commit_info \<Rightarrow> 'd option" where
  "change_merge_id c = Option.bind (ci_metadata c) (\<lambda>m. map_option mm_merged_branch_id (cm_merge_metadata m))"

fun position :: "'a \<Rightarrow> 'a list \<Rightarrow> nat option" where
  "position x [] = None"
| "position x (y # ys) = (if y = x then Some 0 else map_option Suc (position x ys))"

definition can_create_revert_preview :: "'h \<Rightarrow> ('d, 'doc, 'h, 'x, 'p) project \<Rightarrow> bool" where
  "can_create_revert_preview head P \<longleftrightarrow>
     \<not> is_revert_preview_active P \<and> \<not> is_merge_preview_active P \<and>
     (case get_change head P of
        None \<Rightarrow> False
      | Some c \<Rightarrow> \<not> change_is_setup c \<or> position head (get_branch_history P) = Some 1) \<and>
     get_checked_out_branch_state P \<noteq> None"

definition is_safe_to_merge ::
  "('s, 'doc, 'h::linorder, 'v, 'o, 'd, 'x, 'u) api_env \<Rightarrow> ('d, 'doc, 'h, 'x, 'p) project \<Rightarrow> bool" where
  "is_safe_to_merge A P =
     (case Option.bind (get_checked_out_branch_state P) (\<lambda>b.
             Option.bind (br_merge_into b) (\<lambda>merge_info. map_option (Pair merge_info) (br_forked_from b))) of
        None \<Rightarrow> False
      | Some (merge_info, fork_info) \<Rightarrow>
          (case Option.bind (pj_driver P) (\<lambda>driver.
                  Option.bind (get_ok (get_branch_state (hr_branch fork_info) (dr_db driver))) (\<lambda>source_branch.
                  map_option (Pair source_branch) (latest_ref (ae_driver A) (hr_branch merge_info) driver))) of
             None \<Rightarrow> False
           | Some (source_branch, latest_dest) \<Rightarrow>
               (case br_forked_from source_branch of None \<Rightarrow> False | Some i \<Rightarrow> hr_heads i = hr_heads latest_dest)))"

definition confirm_preview_branch ::
  "('s, 'doc, 'h::linorder, 'v, 'o, 'd, 'x, 'u) api_env \<Rightarrow> (('d, 'doc, 'h, 'x, 'p) project, ('d, 'h) db_error, unit) run" where
  "confirm_preview_branch A =
     sbind (sgets (\<lambda>P. Inr (get_checked_out_branch_state P))) (\<lambda>branch_state.
     case branch_state of
       None \<Rightarrow> sret ()
     | Some b \<Rightarrow>
         if br_reverted_to b \<noteq> None
         then sbind (with_driver (driver_confirm_revert_preview (ae_driver A))) (\<lambda>_. sret ())
         else (case br_merge_into b of
                 None \<Rightarrow> sret ()
               | Some merge_info \<Rightarrow>
                   sbind (with_driver (driver_merge_branch (ae_driver A) (br_id b) (hr_branch merge_info))) (\<lambda>_. sret ())))"

definition discard_preview_branch ::
  "('s, 'doc, 'h, 'v, 'o, 'd, 'x, 'u) api_env \<Rightarrow> (('d, 'doc, 'h, 'x, 'p) project, ('d, 'h) db_error, unit) run" where
  "discard_preview_branch A =
     sbind (sgets (\<lambda>P. Inr (get_checked_out_branch_state P))) (\<lambda>branch_state.
     case branch_state of
       None \<Rightarrow> sret ()
     | Some b \<Rightarrow>
         if br_reverted_to b = None \<and> br_merge_into b = None then sret ()
         else sbind (with_driver (discard_current_branch (ae_driver A))) (\<lambda>_. sret ()))"

section \<open>Differences to show\<close>

record 'p diff_wrapper =
  dw_title :: string
  dw_diff :: "'p diff_status"

text \<open>The entry before a commit in the history. The index is a \<open>usize\<close>: at the first commit the subtraction overflows,
  which panics where overflows are checked, and else gives an index that is out of range.\<close>

definition previous_hash :: "bool \<Rightarrow> 'h \<Rightarrow> 'h list \<Rightarrow> ('e, 'h option) outcome" where
  "previous_hash checks selected history =
     (case position selected history of
        None \<Rightarrow> Inr None
      | Some i \<Rightarrow>
          if i = 0 then (if checks then Inl Panic else Inr None)
          else Inr (if i - 1 < length history then Some (history ! (i - 1)) else None))"

definition show_diff ::
  "string \<Rightarrow> ('d, 'h) diff_id \<Rightarrow> (('d, 'doc, 'h, 'x, 'p) project, request_diff_error, 'p diff_wrapper) run" where
  "show_diff title i P =
     (case request_diff i P of
        (Inl e, P) \<Rightarrow> (Inl (Err e), P)
      | (Inr diff, P) \<Rightarrow> (Inr \<lparr>dw_title = title, dw_diff = diff\<rparr>, P))"

definition commit_diff_title :: "('s, 'doc, 'h, 'v, 'o, 'd, 'x, 'u) api_env \<Rightarrow> ('d, 'h) commit_info \<Rightarrow> string" where
  "commit_diff_title A change = ''Showing changes from '' @ ci_summary change @ '' - '' @ ae_human_time A (ci_timestamp change)"

definition try_get_diff ::
  "('s, 'doc, 'h::linorder, 'v, 'o, 'd, 'x, 'u) api_env \<Rightarrow> bool \<Rightarrow> 'h \<Rightarrow>
   (('d, 'doc, 'h, 'x, 'p) project, request_diff_error, 'p diff_wrapper) run" where
  "try_get_diff A checks selected_hash =
     sbind (sgets (\<lambda>P. ok_or (Err CommitNotFound) (get_change selected_hash P))) (\<lambda>change.
     if change_is_setup change then sfail (Err NoDiffAvailable)
     else sbind (sgets (\<lambda>P. previous_hash checks selected_hash (get_branch_history P))) (\<lambda>prev_hash.
          sbind (sgets (\<lambda>P. ok_or (Err NoBranchCheckedOut) (get_checked_out_branch_state P))) (\<lambda>branch_state.
          sbind (case prev_hash of
                   Some prev_hash \<Rightarrow> sret [prev_hash]
                 | None \<Rightarrow> sgets (\<lambda>_. rbind (ok_or (Err BranchesDiverge) (br_forked_from branch_state)) (\<lambda>r. Inr (hr_heads r))))
            (\<lambda>heads_before.
          show_diff (commit_diff_title A change)
            \<lparr>di_before = history_ref_new (br_id branch_state) heads_before,
             di_after = history_ref_new (br_id branch_state) [ci_hash change]\<rparr>))))"

text \<open>The name of the branch of a reference, for the title.\<close>

definition named_branch ::
  "('s, 'doc, 'h, 'v, 'o, 'd, 'x, 'u) api_env \<Rightarrow> nat \<Rightarrow> ('d, 'h) history_ref option \<Rightarrow> ('d, 'doc, 'h, 'x, 'p) project \<Rightarrow>
   (request_diff_error, string) outcome" where
  "named_branch A fuel r P =
     rbind (ok_or (Err BranchesDiverge) r) (\<lambda>r.
     rbind (returned (get_branch A fuel (hr_branch r) P)) (\<lambda>b.
     rbind (ok_or (Err BranchesDiverge) b) (\<lambda>b. Inr (br_name (bw_state b)))))"

definition default_diff_title ::
  "('s, 'doc, 'h, 'v, 'o, 'd, 'x, 'u) api_env \<Rightarrow> nat \<Rightarrow> ('d, 'h) branch \<Rightarrow> ('d, 'doc, 'h, 'x, 'p) project \<Rightarrow>
   (request_diff_error, string) outcome" where
  "default_diff_title A fuel branch_state P =
     rbind (named_branch A fuel (br_forked_from branch_state) P) (\<lambda>source_name.
     if is_merge_preview_active P then
       rbind (named_branch A fuel (br_merge_into branch_state) P) (\<lambda>target_name.
       Inr (''Showing changes for '' @ source_name @ '' -> '' @ target_name))
     else if is_revert_preview_active P then
       rbind (ok_or (Err BranchesDiverge) (br_reverted_to branch_state)) (\<lambda>r.
       Inr (''Showing changes for '' @ source_name @ '' reverted to '' @ short_heads (ae_ids A) r))
     else Inr (''Showing changes from '' @ source_name @ '' -> '' @ br_name branch_state))"

definition try_get_default_diff ::
  "('s, 'doc, 'h::linorder, 'v, 'o, 'd, 'x, 'u) api_env \<Rightarrow> nat \<Rightarrow>
   (('d, 'doc, 'h, 'x, 'p) project, request_diff_error, 'p diff_wrapper) run" where
  "try_get_default_diff A fuel =
     sbind (sgets (\<lambda>P. ok_or (Err NoBranchCheckedOut) (get_checked_out_branch_state P))) (\<lambda>branch_state.
     sbind (sgets (\<lambda>P. rbind (ok_or (Err NoDriver) (pj_driver P)) (\<lambda>driver.
       ok_or (Err NoBranchCheckedOut) (map_option hr_heads (latest_ref (ae_driver A) (br_id branch_state) driver))))) (\<lambda>heads_after.
     sbind (sgets (\<lambda>P. rbind (returned (get_main_branch_view A fuel P)) unwrap)) (\<lambda>main_branch.
     if br_id branch_state = br_id (bw_state main_branch) then sfail (Err NoDiffAvailable)
     else sbind (sgets (\<lambda>P. rbind (ok_or (Err BranchesDiverge)
              (if is_merge_preview_active P then br_merge_into branch_state else br_forked_from branch_state)) (\<lambda>r. Inr (hr_heads r))))
            (\<lambda>heads_before.
          if heads_before = heads_after then sfail (Err NoDiffAvailable)
          else sbind (sgets (default_diff_title A fuel branch_state)) (\<lambda>title.
               show_diff title
                 \<lparr>di_before = history_ref_new (br_id branch_state) heads_before,
                  di_after = history_ref_new (br_id branch_state) heads_after\<rparr>)))))"

section \<open>Files\<close>

definition api_get_files_at_ref ::
  "('s, 'doc, 'h, 'v, 'o, 'd, 'x, 'u) api_env \<Rightarrow> ('d, 'h) history_ref \<Rightarrow> string list \<Rightarrow> ('d, 'doc, 'h, 'x, 'p) project \<Rightarrow>
   ('e, (string, file_content) hmap option) outcome" where
  "api_get_files_at_ref A r filters P =
     (case pj_driver P of
        None \<Rightarrow> Inr None
      | Some driver \<Rightarrow>
          (case get_files_at_ref (de_db (ae_driver A)) r filters (pd_states (dr_db driver)) of
             Inr files \<Rightarrow> Inr (Some files)
           | Inl (Err _) \<Rightarrow> Inr None
           | Inl Panic \<Rightarrow> Inl Panic
           | Inl Diverges \<Rightarrow> Inl Diverges))"

definition get_file_at_ref ::
  "('s, 'doc, 'h, 'v, 'o, 'd, 'x, 'u) api_env \<Rightarrow> string \<Rightarrow> ('d, 'h) history_ref \<Rightarrow> ('d, 'doc, 'h, 'x, 'p) project \<Rightarrow>
   ('e, file_content option) outcome" where
  "get_file_at_ref A path r P =
     rbind (api_get_files_at_ref A r [path] P) (\<lambda>files. Inr (Option.bind files (\<lambda>files. hm_get files path)))"

section \<open>Branches are found\<close>

lemma insort_key_map: "insort_key f (h x) (map h xs) = map h (insort_key (\<lambda>x. f (h x)) x xs)"
  by (induction xs) auto

lemma sort_key_map: "sort_key f (map h xs) = map h (sort_key (\<lambda>x. f (h x)) xs)"
  by (induction xs) (auto simp: insort_key_map)

lemma those_map_Some: "(\<And>x. x \<in> set xs \<Longrightarrow> f x = Some (g x)) \<Longrightarrow> those (map f xs) = Some (map g xs)"
  by (induction xs) auto

lemma child_found: "c \<in> set (get_branch_children i db) \<Longrightarrow> \<exists>state. get_branch_state c db = Inr state"
  by (cases "pd_metadata db")
    (auto simp: get_branch_children_def get_branch_state_def get_metadata_state_def ok_or_def dest: weak_map_of_SomeI
      split: option.splits)

abbreviation sort_name :: "(string \<Rightarrow> string) \<Rightarrow> ('d, 'doc, 'h) project_db \<Rightarrow> 'd \<Rightarrow> string option" where
  "sort_name lower db c \<equiv> map_option lower (get_ok (get_branch_name c db))"

lemma sort_name_state: "get_branch_state c db = Inr state \<Longrightarrow> sort_name lower db c = Some (lower (br_name state))"
  by (auto simp: get_branch_state_def get_branch_name_def rbind_eq_Inr_iff)

text \<open>When the branches are a forest, so that \<open>rank\<close> falls from a branch to its children, asking for a branch
  returns: it gives the branch with all its children, sorted by their lower-case names.\<close>

theorem get_branch_returns:
  assumes "\<And>b c. c \<in> set (get_branch_children b db) \<Longrightarrow> rank c < rank b"
    and "get_branch_state i db = Inr state" and "rank i < fuel"
  shows "\<exists>children. get_branch_in lower db fuel i = Some (Some \<lparr>bw_state = state, bw_children = children\<rparr>) \<and>
    mset children = mset (get_branch_children i db) \<and> sorted (map (sort_name lower db) children)"
  using assms(2,3)
proof (induction fuel arbitrary: i state)
  case (Suc fuel)
  let ?children = "get_branch_children i db"
  show ?case
  proof (cases "length ?children < 2")
    case True
    then have "sorted (map (sort_name lower db) ?children)" by (cases ?children; cases "tl ?children") auto
    with True Suc.prems(1) show ?thesis by simp
  next
    case False
    have "\<exists>b. get_branch_in lower db fuel c = Some (Some b) \<and> Some (lower (br_name (bw_state b))) = sort_name lower db c"
      if c: "c \<in> set ?children" for c
    proof -
      obtain st where st: "get_branch_state c db = Inr st" using child_found [OF c] by blast
      have "rank c < fuel" using assms(1) [OF c] Suc.prems(2) by simp
      from Suc.IH [OF st this] show ?thesis using sort_name_state [OF st, of lower] by auto
    qed
    then obtain g where g: "\<And>c. c \<in> set ?children \<Longrightarrow> get_branch_in lower db fuel c = Some (Some (g c))"
      "\<And>c. c \<in> set ?children \<Longrightarrow> Some (lower (br_name (bw_state (g c)))) = sort_name lower db c" by metis
    have those: "those (map (get_branch_in lower db fuel) ?children) = Some (map (\<lambda>c. Some (g c)) ?children)"
      using g(1) by (rule those_map_Some)
    let ?sorted = "sort_key (\<lambda>c. Some (lower (br_name (bw_state (g c))))) ?children"
    have zip: "zip ?children (map (\<lambda>c. Some (g c)) ?children) = map (\<lambda>c. (c, Some (g c))) ?children"
      by (simp add: zip_map2 zip_same_conv_map)
    have "get_branch_in lower db (Suc fuel) i = Some (Some \<lparr>bw_state = state, bw_children = ?sorted\<rparr>)"
      using False Suc.prems(1) those by (simp add: zip sort_key_map comp_def)
    moreover have "map (sort_name lower db) ?sorted = map (\<lambda>c. Some (lower (br_name (bw_state (g c))))) ?sorted"
      using g(2) by auto
    ultimately show ?thesis by (metis mset_sort sorted_sort_key)
  qed
qed simp

section \<open>What the interface promises\<close>

text \<open>The project is shown as up to date exactly when there is none, or when the server is connected and has
  acknowledged the latest heads of the branch that is checked out.\<close>

theorem up_to_date_acknowledged:
  "get_sync_status A info P = UpToDate \<longleftrightarrow>
     (case pj_driver P of
        None \<Rightarrow> True
      | Some driver \<Rightarrow>
          (\<exists>i r latest b status. info = Some i \<and> ci_last_received i \<noteq> None \<and>
             dr_ref driver = Some r \<and> latest_ref (ae_driver A) (hr_branch r) driver = Some latest \<and>
             get_checked_out_branch_state P = Some b \<and> hm_get (ci_docs i) (br_id b) = Some status \<and>
             last_acked_heads status = Some (hr_heads latest)))"
  by (cases "pj_driver P"; cases info)
    (auto simp: get_sync_status_def Let_def Option.bind_eq_Some_conv split: option.splits Option.bind_splits)

lemma position_nth: "distinct xs \<Longrightarrow> i < length xs \<Longrightarrow> position (xs ! i) xs = Some i"
  by (induction xs arbitrary: i) (auto simp: nth_Cons split: nat.split)

text \<open>For a commit of the list that is shown, other than a setup commit, the difference asked for is the one from
  the commit before it. For the first of the list it is the one from where the branch was forked, or a panic
  where overflows are checked.\<close>

theorem diff_from_previous_commit:
  assumes "displays cs P" and "distinct (map ci_hash cs)" and "i < length cs" and "\<not> change_is_setup (cs ! i)"
    and "get_checked_out_branch_state P = Some b"
  shows "\<exists>title. try_get_diff A checks (ci_hash (cs ! i)) P =
    (if i > 0 then show_diff title
       \<lparr>di_before = history_ref_new (br_id b) [ci_hash (cs ! (i - 1))], di_after = history_ref_new (br_id b) [ci_hash (cs ! i)]\<rparr> P
     else if checks then (Inl Panic, P)
     else (case br_forked_from b of
             None \<Rightarrow> (Inl (Err BranchesDiverge), P)
           | Some r \<Rightarrow> show_diff title
               \<lparr>di_before = history_ref_new (br_id b) (hr_heads r), di_after = history_ref_new (br_id b) [ci_hash (cs ! i)]\<rparr> P))"
proof -
  have change: "get_change (ci_hash (cs ! i)) P = Some (cs ! i)"
    using assms(1-3) by (auto simp: displays_def get_change_def intro: hm_get_ingested)
  have history: "get_branch_history P = map ci_hash cs" using assms(1) by (simp add: displays_def get_branch_history_def)
  have "position (ci_hash (cs ! i)) (map ci_hash cs) = Some i"
    using position_nth [OF assms(2), of i] assms(3) by simp
  then have previous: "(previous_hash checks (ci_hash (cs ! i)) (get_branch_history P) :: (request_diff_error, _) outcome) =
      (if i = 0 then (if checks then Inl Panic else Inr None) else Inr (Some (ci_hash (cs ! (i - 1)))))" for checks
    using assms(3) by (auto simp: previous_hash_def history)
  show ?thesis
    by (rule exI [of _ "commit_diff_title A (cs ! i)"], cases "i = 0"; cases checks; cases "br_forked_from b")
      (use assms(4,5) change previous in \<open>simp_all add: try_get_diff_def sbind_def ok_or_def\<close>)
qed

text \<open>A server whose URL parses but is no base for the handshake is shown as handshaking for ever, and after the
  first time nothing is tried again.\<close>

theorem ping_unjoinable_server:
  assumes "co_parse_url (ae_config A) server = Some url" and "hp_join H url ''describe'' = None" and "sm_reachable H servers"
  shows "fst (ping_server A server retry servers) = StatusHandshaking \<and>
    (server_status url servers \<noteq> StatusNone \<longrightarrow> snd (ping_server A server retry servers) = None)"
  using unjoinable_stays_handshaking [OF assms(2,3)] assms(1) by (auto simp: ping_server_def)

text \<open>The commands that leave a preview: only the request of the driver counts here.\<close>

lemma with_driver_Inr:
  assumes "sbind (with_driver m) (\<lambda>_. sret ()) P = (Inr (), P')" "pj_driver P = Some driver"
  obtains x driver' where "m driver = (Inr x, driver')" "P' = P\<lparr>pj_driver := Some driver'\<rparr>"
  using assms by (cases "m driver") (auto simp: with_driver_def sbind_def rbind_eq_Inr_iff split: sum.splits)

lemma merge_requests_target:
  "driver_merge_branch E source target driver = (Inr x, driver') \<Longrightarrow> dr_requested driver' = Some target"
  by (auto simp: driver_merge_branch_def sbind_eq_Inr_iff request_checkout_def)

lemma discard_requests_source:
  assumes "discard_current_branch E driver = (Inr x, driver')" "dr_ref driver = Some r"
    and "get_branch_state (hr_branch r) (dr_db driver) = Inr b" "br_forked_from b = Some f"
  shows "dr_requested driver' = Some (hr_branch f)"
  using assms by (auto simp: discard_current_branch_def sbind_eq_Inr_iff request_checkout_def stry_def)

text \<open>Confirming or discarding does nothing on a branch that is no preview. A merge preview that is confirmed is left
  for the branch it was merged into, and any preview that is discarded for the branch it was forked from.\<close>

theorem preview_is_left:
  assumes "get_checked_out_branch_state P = Some b"
  shows "(br_reverted_to b = None \<and> br_merge_into b = None \<longrightarrow>
      confirm_preview_branch A P = (Inr (), P) \<and> discard_preview_branch A P = (Inr (), P)) \<and>
    (\<forall>target P'. br_reverted_to b = None \<and> br_merge_into b = Some target \<and> confirm_preview_branch A P = (Inr (), P') \<longrightarrow>
      (\<exists>driver. pj_driver P' = Some driver \<and> dr_requested driver = Some (hr_branch target))) \<and>
    (\<forall>fork P'. (br_reverted_to b \<noteq> None \<or> br_merge_into b \<noteq> None) \<and> br_forked_from b = Some fork \<and>
      discard_preview_branch A P = (Inr (), P') \<longrightarrow>
      (\<exists>driver. pj_driver P' = Some driver \<and> dr_requested driver = Some (hr_branch fork)))"
proof (intro conjI allI impI)
  obtain driver r where driver: "pj_driver P = Some driver" "dr_ref driver = Some r"
    and b: "get_branch_state (hr_branch r) (dr_db driver) = Inr b"
    using assms by (auto simp: get_checked_out_branch_state_def Option.bind_eq_Some_conv)
  show "confirm_preview_branch A P = (Inr (), P)" "discard_preview_branch A P = (Inr (), P)"
    if "br_reverted_to b = None \<and> br_merge_into b = None"
    using that assms by (simp_all add: confirm_preview_branch_def discard_preview_branch_def)
  show "\<exists>driver. pj_driver P' = Some driver \<and> dr_requested driver = Some (hr_branch target)"
    if *: "br_reverted_to b = None \<and> br_merge_into b = Some target \<and> confirm_preview_branch A P = (Inr (), P')" for target P'
  proof -
    have "sbind (with_driver (driver_merge_branch (ae_driver A) (br_id b) (hr_branch target))) (\<lambda>_. sret ()) P = (Inr (), P')"
      using * assms by (auto simp: confirm_preview_branch_def)
    then show ?thesis by (rule with_driver_Inr [OF _ driver(1)]) (auto dest: merge_requests_target)
  qed
  show "\<exists>driver. pj_driver P' = Some driver \<and> dr_requested driver = Some (hr_branch fork)"
    if *: "(br_reverted_to b \<noteq> None \<or> br_merge_into b \<noteq> None) \<and> br_forked_from b = Some fork \<and>
      discard_preview_branch A P = (Inr (), P')" for fork P'
  proof -
    have "sbind (with_driver (discard_current_branch (ae_driver A))) (\<lambda>_. sret ()) P = (Inr (), P')"
      using * assms by (auto simp: discard_preview_branch_def)
    then show ?thesis
      by (rule with_driver_Inr [OF _ driver(1)]) (use * in \<open>auto dest: discard_requests_source [OF _ driver(2) b]\<close>)
  qed
qed

text \<open>The list of the servers as a set.\<close>

lemma swap_remove_set: "distinct xs \<Longrightarrow> set (swap_remove x xs) = set xs - {x} \<and> distinct (swap_remove x xs)"
proof (induction xs)
  case (Cons y ys)
  show ?case
  proof (cases "x = y \<and> ys \<noteq> []")
    case True
    then have "set (last ys # butlast ys) = set ys" "distinct (last ys # butlast ys) = distinct ys"
      by (metis append_butlast_last_id set_append list.set Un_commute insert_is_Un,
          metis append_butlast_last_id distinct_append distinct.simps(2) distinct1_rotate rotate1.simps(2) distinct_rotate rotate1_def)
    with True Cons.prems show ?thesis by auto
  qed (use Cons in auto)
qed simp

section \<open>Witnesses\<close>

text \<open>A main branch with two forks, listed in the other order than their lower-case names.\<close>

definition demo_forest :: "(nat, demo_view list, nat) project_db" where
  "demo_forest = demo_project\<lparr>pd_metadata := Some (0, \<lparr>bm_main_doc_id = 1, bm_branches =
     [(1, demo_branch 1 None None), (2, (demo_branch 2 (Some \<lparr>hr_branch = 1, hr_heads = [1]\<rparr>) None)\<lparr>br_name := ''Z''\<rparr>),
      (3, demo_branch 3 (Some \<lparr>hr_branch = 1, hr_heads = [1]\<rparr>) None)]\<rparr>)\<rparr>"

lemma demo_forest_children: "get_branch_children i demo_forest = (if i = 1 then [2, 3] else [])"
  by (simp add: get_branch_children_def demo_forest_def demo_branch_def)

lemma demo_forest_states:
  "get_branch_state 1 demo_forest = Inr (demo_branch 1 None None)"
  "get_branch_state 2 demo_forest = Inr ((demo_branch 2 (Some \<lparr>hr_branch = 1, hr_heads = [1]\<rparr>) None)\<lparr>br_name := ''Z''\<rparr>)"
  "get_branch_state 3 demo_forest = Inr (demo_branch 3 (Some \<lparr>hr_branch = 1, hr_heads = [1]\<rparr>) None)"
  by (simp_all add: get_branch_state_def get_metadata_state_def demo_forest_def)

theorem get_branch_returns_witness:
  "\<exists>children. get_branch_in id demo_forest 2 1 = Some (Some \<lparr>bw_state = demo_branch 1 None None, bw_children = children\<rparr>) \<and>
     mset children = {#2, 3#}"
proof -
  have rank: "c \<in> set (get_branch_children b demo_forest) \<Longrightarrow> (if c = 1 then 1 else 0) < (if b = 1 then 1 else 0 :: nat)" for b c
    by (auto simp: demo_forest_children split: if_splits)
  from get_branch_returns [where rank = "\<lambda>i. if i = 1 then 1 else 0", OF rank demo_forest_states(1), of 2 id]
  show ?thesis by (auto simp: demo_forest_children)
qed

lemma demo_forest_sorted:
  "get_branch_in (\<lambda>s. if s = ''Z'' then ''z'' else s) demo_forest (Suc (Suc 0)) 1 =
     Some (Some \<lparr>bw_state = demo_branch 1 None None, bw_children = [3, 2]\<rparr>)"
  using demo_forest_states by (simp add: demo_forest_children demo_branch_def)

definition demo_api :: "(string, demo_view list, nat, demo_view, demo_obj, bool, string, string) api_env" where
  "demo_api = \<lparr>ae_driver = demo_driver_env, ae_io = demo_toml_io, ae_toml = demo_toml, ae_config = demo_saved_config\<lparr>co_parse_url := Some\<rparr>,
     ae_scheme = (\<lambda>_. ''http''), ae_ids = \<lparr>show_doc = (\<lambda>_. []), parse_doc = (\<lambda>_. None), show_hash = (\<lambda>_. []), parse_hash = (\<lambda>_. None)\<rparr>,
     ae_lower = id, ae_human_time = (\<lambda>_. ''now'')\<rparr>"

definition demo_open :: "('d, 'h) history_ref option \<Rightarrow> (bool, nat) branch" where
  "demo_open merge_into = \<lparr>br_name = ''b'', br_id = True, br_forked_from = Some (history_ref_new False [1]),
     br_merge_into = map_option (\<lambda>_. history_ref_new False [1]) merge_into, br_reverted_to = None, br_created_by = None\<rparr>"

definition demo_opened :: "(bool, nat) history_ref option \<Rightarrow> (bool, demo_view list, nat, string, nat) project" where
  "demo_opened merge_into =
     (snd (process demo_toml_io demo_toml demo_saved_config True (demo_frame [demo_commit 1, demo_commit 2] 1) (pr_project demo_run)))
       \<lparr>pj_driver := Some (demo_unseen\<lparr>dr_db := (dr_db demo_unseen)\<lparr>pd_checked_out := Some (history_ref_new True [1]),
          pd_metadata := Some (True, \<lparr>bm_main_doc_id = False, bm_branches = [(True, demo_open merge_into)]\<rparr>)\<rparr>\<rparr>)\<rparr>"

lemma demo_opened_branch: "get_checked_out_branch_state (demo_opened m) = Some (demo_open m)"
  by (simp add: get_checked_out_branch_state_def demo_opened_def get_branch_state_def get_metadata_state_def history_ref_new_def)

theorem diff_from_previous_commit_witness:
  "\<exists>title. try_get_diff demo_api True 2 (demo_opened None) = show_diff title
     \<lparr>di_before = history_ref_new True [1], di_after = history_ref_new True [2]\<rparr> (demo_opened None)"
proof -
  have "displays [demo_commit 1, demo_commit 2] (demo_opened None)"
    using process_shows [of "pr_project demo_run" "demo_frame [demo_commit 1, demo_commit 2] 1" demo_toml_io demo_toml demo_saved_config True]
    by (simp add: displays_def demo_opened_def demo_run_def project_new_def demo_frame_def)
  from diff_from_previous_commit [OF this _ _ _ demo_opened_branch, of 1 demo_api True] show ?thesis
    by (simp add: demo_commit_def change_is_setup_def demo_open_def)
qed

theorem ping_unjoinable_server_witness: "fst (ping_server demo_api '':x'' True demo_panicked) = StatusHandshaking"
  using ping_unjoinable_server [OF _ _ demo_panicked_reach, of demo_api "'':x''" "'':x''" True]
  by (simp add: demo_api_def demo_http_def)

theorem preview_is_left_witness:
  "confirm_preview_branch demo_api (demo_opened None) = (Inr (), demo_opened None)"
  using preview_is_left [OF demo_opened_branch, of None demo_api] by (simp add: demo_open_def)

end
