(* ===== verification/Godot_Convert.thy ===== *)
theory Godot_Convert imports Project_Api Project_Diff begin

text \<open>
  \<open>godot_diffs.rs\<close> and \<open>godot_helpers.rs\<close> of \<open>backstitch_godot\<close>, and the readers of \<open>text_differ_view.rs\<close>: how
  what the project answers becomes values of Godot for the scripts of the editor, and how a text difference comes
  back from them.

  A \<open>Variant\<close> is a value of \<open>gd_value\<close>; what only Godot can make (a parsed value, an object) is of type \<open>'g\<close>.
  Godot's functions and the two regular expressions are the parameter \<open>godot_engine\<close>. A dictionary is the list of
  its entries in the order of their insertion, which Godot keeps.
\<close>

section \<open>Values of Godot\<close>

datatype 'g gd_value =
    GNil
  | GBool bool
  | GInt int
  | GStr string
  | GStrs "string list"
  | GBytes string
  | GArray "'g gd_value list"
  | GDict "(string \<times> 'g gd_value) list"
  | GOther 'g

type_synonym 'g gd_dict = "(string \<times> 'g gd_value) list"

text \<open>What the first group of a typed container's expression can be.\<close>

datatype container = ContainerDictionary | ContainerArray

fun container_text :: "container \<Rightarrow> string" where
  "container_text ContainerDictionary = ''Dictionary''"
| "container_text ContainerArray = ''Array''"

record 'g godot_engine =
  ge_str_to_var :: "string \<Rightarrow> 'g gd_value"
  ge_class_exists :: "string \<Rightarrow> bool"
  ge_class_default :: "string \<Rightarrow> string \<Rightarrow> string"
  ge_lazy_token :: "string \<Rightarrow> string option \<Rightarrow> 'g"
  ge_typed :: "string \<Rightarrow> container option"                     \<comment> \<open>the first group of \<open>(Dictionary|Array)\[[^]]+\]\((.*)\)\<close>\<close>
  ge_replace_resources :: "(string \<Rightarrow> string) \<Rightarrow> string \<Rightarrow> string"

definition gd_option :: "'g gd_value option \<Rightarrow> 'g gd_value" where
  "gd_option x = (case x of None \<Rightarrow> GNil | Some v \<Rightarrow> v)"

section \<open>Differences\<close>

definition line_to_godot :: "text_diff_line \<Rightarrow> 'g gd_value" where
  "line_to_godot l =
     GDict [(''new_line_no'', GInt (tl_new_line_no l)), (''old_line_no'', GInt (tl_old_line_no l)),
            (''content'', GStr (tl_content l)), (''status'', GStr (tl_status l))]"

definition hunk_to_godot :: "text_diff_hunk \<Rightarrow> 'g gd_value" where
  "hunk_to_godot h =
     GDict [(''new_start'', GInt (th_new_start h)), (''old_start'', GInt (th_old_start h)),
            (''new_lines'', GInt (th_new_lines h)), (''old_lines'', GInt (th_old_lines h)),
            (''diff_lines'', GArray (map line_to_godot (th_diff_lines h)))]"

fun change_type_to_godot :: "change_type \<Rightarrow> 'g gd_value" where
  "change_type_to_godot Created = GStr ''added''"
| "change_type_to_godot Modified = GStr ''modified''"
| "change_type_to_godot Deleted = GStr ''removed''"

definition text_diff_to_godot :: "text_diff \<Rightarrow> 'g gd_dict" where
  "text_diff_to_godot d =
     [(''path'', GStr (td_path d)), (''diff_type'', GStr ''text_changed''),
      (''change_type'', change_type_to_godot (td_change_type d)),
      (''text_diff'', GDict
         [(''new_file'', GStr (td_path d)), (''old_file'', GStr (td_path d)),
          (''diff_hunks'', GArray (map hunk_to_godot (td_diff_hunks d)))])]"

definition typed_resource :: "string \<Rightarrow> bool" where
  "typed_resource s \<longleftrightarrow> (starts_with s ''Array['' \<or> starts_with s ''Dictionary['') \<and> contains_str s ''Resource(''"

definition quote_resource :: "string \<Rightarrow> string" where
  "quote_resource m = [CHR 0x22] @ concat (map (\<lambda>c. if c = CHR 0x22 then [CHR 0x5C, CHR 0x22] else [c]) m) @ [CHR 0x22]"

lemma container_not_typed: "\<not> typed_resource (case c of None \<Rightarrow> [] | Some c \<Rightarrow> container_text c)"
  by (cases c; cases "the c") (auto simp: typed_resource_def starts_with_def)

function str_to_var_safe :: "'g godot_engine \<Rightarrow> string \<Rightarrow> 'g gd_value" where
  "str_to_var_safe G s =
     (if typed_resource s
      then str_to_var_safe G (case ge_typed G s of None \<Rightarrow> [] | Some c \<Rightarrow> container_text c)
      else ge_str_to_var G (ge_replace_resources G quote_resource s))"
  by pat_completeness auto

termination
  by (relation "measure (\<lambda>(_, s). if typed_resource s then 1 else 0)") (auto simp: container_not_typed)

declare str_to_var_safe.simps [simp del]

definition get_classdb_default_value :: "'g godot_engine \<Rightarrow> string \<Rightarrow> string \<Rightarrow> string" where
  "get_classdb_default_value G class_name prop = (if ge_class_exists G class_name then ge_class_default G class_name prop else [])"

fun value_to_godot :: "'g godot_engine \<Rightarrow> variant_value \<Rightarrow> 'g gd_value" where
  "value_to_godot G (VVariant s) = str_to_var_safe G s"
| "value_to_godot G (VDefaultValue t property_name) =
     (let default = (case t of
            Some (Type class_name) \<Rightarrow> get_classdb_default_value G class_name property_name
          | _ \<Rightarrow> [])
      in if default = [] then GStr ''<default_value>'' else str_to_var_safe G default)"
| "value_to_godot G (VLazyLoadData original_path load_path) = GOther (ge_lazy_token G load_path (Some original_path))"
| "value_to_godot G (VScript path) = GStr (''<Script: '' @ path @ ''>'')"

definition property_diff_to_godot :: "'g godot_engine \<Rightarrow> property_diff \<Rightarrow> 'g gd_value" where
  "property_diff_to_godot G d =
     GDict [(''change_type'', change_type_to_godot (pd_change_type d)), (''name'', GStr (pd_name d)),
            (''new_value'', gd_option (map_option (value_to_godot G) (pd_new_value d))),
            (''old_value'', gd_option (map_option (value_to_godot G) (pd_old_value d)))]"

definition properties_to_godot :: "'g godot_engine \<Rightarrow> (string, property_diff) hmap \<Rightarrow> 'g gd_value" where
  "properties_to_godot G m = GDict (fold (\<lambda>(name, d). hm_insert name (property_diff_to_godot G d)) m [])"

definition node_diff_to_godot :: "'g godot_engine \<Rightarrow> node_diff \<Rightarrow> 'g gd_value" where
  "node_diff_to_godot G d =
     GDict [(''change_type'', change_type_to_godot (nd_change_type d)),
            (''changed_props'', properties_to_godot G (nd_changed_properties d)), (''node_path'', GStr (nd_node_path d)),
            (''type'', gd_option (map_option (\<lambda>t. GStr (type_or_instance_show t)) (nd_node_type d)))]"

definition sub_resource_diff_to_godot :: "'g godot_engine \<Rightarrow> sub_resource_diff \<Rightarrow> 'g gd_value" where
  "sub_resource_diff_to_godot G d =
     GDict [(''change_type'', change_type_to_godot (sd_change_type d)), (''sub_resource_id'', GStr (sd_sub_resource_id d)),
            (''resource_type'', GStr (sd_resource_type d)),
            (''script_class'', gd_option (map_option GStr (sd_script_class d))),
            (''changed_props'', properties_to_godot G (sd_changed_properties d))]"

definition scene_diff_to_godot :: "'g godot_engine \<Rightarrow> scene_diff \<Rightarrow> 'g gd_dict" where
  "scene_diff_to_godot G d =
     [(''change_type'', change_type_to_godot (scd_change_type d)),
      (''changed_nodes'', GArray (map (node_diff_to_godot G) (scd_changed_nodes d))), (''diff_type'', GStr ''scene_changed'')]"

definition text_resource_diff_to_godot :: "'g godot_engine \<Rightarrow> text_resource_diff \<Rightarrow> 'g gd_dict" where
  "text_resource_diff_to_godot G d =
     [(''change_type'', change_type_to_godot (trd_change_type d)), (''resource_type'', GStr (trd_resource_type d)),
      (''changed_sub_resources'', GArray (map (sub_resource_diff_to_godot G) (trd_changed_sub_resources d))),
      (''changed_main_resource'', gd_option (map_option (sub_resource_diff_to_godot G) (trd_changed_main_resource d))),
      (''diff_type'', GStr ''text_resource_changed'')]"

definition binary_diff_to_godot :: "'g godot_engine \<Rightarrow> binary_resource_diff \<Rightarrow> 'g gd_dict" where
  "binary_diff_to_godot G d =
     [(''change_type'', change_type_to_godot (brd_change_type d)),
      (''new_resource'', gd_option (map_option (value_to_godot G) (brd_new_resource d))),
      (''old_resource'', gd_option (map_option (value_to_godot G) (brd_old_resource d))), (''diff_type'', GStr ''resource_changed'')]"

fun diff_to_godot :: "'g godot_engine \<Rightarrow> diff \<Rightarrow> 'g gd_dict" where
  "diff_to_godot G (DScene d) = scene_diff_to_godot G d"
| "diff_to_godot G (DTextResource d) = text_resource_diff_to_godot G d"
| "diff_to_godot G (DBinaryResource d) = binary_diff_to_godot G d"
| "diff_to_godot G (DText d) = text_diff_to_godot d"

definition project_diff_to_godot :: "'g godot_engine \<Rightarrow> diff list \<Rightarrow> 'g gd_dict" where
  "project_diff_to_godot G file_diffs = fold (\<lambda>d. hm_insert (get_diff_file_path d) (GDict (diff_to_godot G d))) file_diffs []"

fun diff_status_to_godot :: "'g godot_engine \<Rightarrow> diff list diff_status \<Rightarrow> 'g gd_value" where
  "diff_status_to_godot G DiffLoading = GStr ''loading''"
| "diff_status_to_godot G (DiffReady d) = GDict (project_diff_to_godot G d)"

definition diff_view_model_to_dict :: "'g godot_engine \<Rightarrow> diff list diff_wrapper \<Rightarrow> 'g gd_dict" where
  "diff_view_model_to_dict G d = [(''dict'', diff_status_to_godot G (dw_diff d)), (''title'', GStr (dw_title d))]"

section \<open>A text difference from Godot\<close>

text \<open>A value of another type than the one asked for is a panic.\<close>

fun gd_int :: "'g gd_value \<Rightarrow> ('e, int) outcome" where
  "gd_int (GInt i) = Inr i"
| "gd_int _ = Inl Panic"

fun gd_str :: "'g gd_value \<Rightarrow> ('e, string) outcome" where
  "gd_str (GStr s) = Inr s"
| "gd_str _ = Inl Panic"

fun gd_dict :: "'g gd_value \<Rightarrow> ('e, 'g gd_dict) outcome" where
  "gd_dict (GDict d) = Inr d"
| "gd_dict _ = Inl Panic"

fun gd_dicts :: "'g gd_value \<Rightarrow> ('e, 'g gd_dict list) outcome" where
  "gd_dicts (GArray vs) = collect_res gd_dict vs"
| "gd_dicts _ = Inl Panic"

text \<open>\<open>dict.get(key)?.to()\<close>: without the key, the function returns \<open>None\<close>.\<close>

definition with_key ::
  "string \<Rightarrow> 'g gd_dict \<Rightarrow> ('g gd_value \<Rightarrow> ('e, 'a) outcome) \<Rightarrow> ('a \<Rightarrow> ('e, 'b option) outcome) \<Rightarrow> ('e, 'b option) outcome" where
  "with_key key dict conv k = (case map_of dict key of None \<Rightarrow> Inr None | Some v \<Rightarrow> rbind (conv v) k)"

definition line_from_dict :: "'g gd_dict \<Rightarrow> ('e, text_diff_line option) outcome" where
  "line_from_dict dict =
     with_key ''new_line_no'' dict gd_int (\<lambda>new_line_no.
     with_key ''old_line_no'' dict gd_int (\<lambda>old_line_no.
     with_key ''content'' dict gd_str (\<lambda>content.
     with_key ''status'' dict gd_str (\<lambda>status.
       Inr (Some \<lparr>tl_new_line_no = new_line_no, tl_old_line_no = old_line_no, tl_content = content, tl_status = status\<rparr>)))))"

text \<open>Entries that are not there are skipped.\<close>

definition from_dicts :: "('g gd_dict \<Rightarrow> ('e, 'a option) outcome) \<Rightarrow> 'g gd_dict list \<Rightarrow> ('e, 'a list) outcome" where
  "from_dicts f ds = rbind (collect_res f ds) (\<lambda>xs. Inr (map the (filter (\<lambda>x. x \<noteq> None) xs)))"

definition hunk_from_dict :: "'g gd_dict \<Rightarrow> ('e, text_diff_hunk option) outcome" where
  "hunk_from_dict dict =
     with_key ''diff_lines'' dict gd_dicts (\<lambda>diff_lines_array.
     rbind (from_dicts line_from_dict diff_lines_array) (\<lambda>diff_lines.
     with_key ''new_start'' dict gd_int (\<lambda>new_start.
     with_key ''old_start'' dict gd_int (\<lambda>old_start.
     with_key ''new_lines'' dict gd_int (\<lambda>new_lines.
     with_key ''old_lines'' dict gd_int (\<lambda>old_lines.
       Inr (Some \<lparr>th_new_start = new_start, th_old_start = old_start, th_new_lines = new_lines, th_old_lines = old_lines,
         th_diff_lines = diff_lines\<rparr>)))))))"

definition text_diff_from_dict :: "'g gd_dict \<Rightarrow> ('e, text_diff option) outcome" where
  "text_diff_from_dict dict =
     with_key ''diff_hunks'' dict gd_dicts (\<lambda>diff_hunks_array.
     rbind (from_dicts hunk_from_dict diff_hunks_array) (\<lambda>diff_hunks.
     with_key ''old_file'' dict gd_str (\<lambda>old_file.
       Inr (Some \<lparr>td_path = old_file, td_diff_hunks = diff_hunks, td_change_type = Modified\<rparr>))))"

section \<open>What the interface answers\<close>

definition branch_view_model_to_dict :: "('d, 'h) id_io \<Rightarrow> ('d, 'h) branch_wrapper \<Rightarrow> 'g gd_dict" where
  "branch_view_model_to_dict io branch =
     [(''id'', GStr (show_doc io (br_id (bw_state branch)))), (''name'', GStr (br_name (bw_state branch))),
      (''parent'', gd_option (map_option (\<lambda>i. GStr (show_doc io i)) (branch_parent branch))),
      (''children'', GStrs (map (show_doc io) (bw_children branch))),
      (''is_available'', GBool (branch_is_available branch)),
      (''reverted_to'', gd_option (map_option (\<lambda>h. GStr (show_hash io h)) (branch_reverted_to branch))),
      (''merge_into'', gd_option (map_option (\<lambda>i. GStr (show_doc io i)) (branch_merge_into branch)))]"

definition change_view_model_to_dict ::
  "('d, 'h) id_io \<Rightarrow> (int \<Rightarrow> string) \<Rightarrow> (int \<Rightarrow> string) \<Rightarrow> ('d, 'h) commit_info \<Rightarrow> 'g gd_dict" where
  "change_view_model_to_dict io exact_time human_time change =
     [(''hash'', GStr (show_hash io (ci_hash change))), (''username'', GStr (change_username change)),
      (''is_synced'', GBool (ci_synced change)), (''summary'', GStr (ci_summary change)),
      (''is_merge'', GBool (change_is_merge change)),
      (''merge_id'', gd_option (map_option (\<lambda>i. GStr (show_doc io i)) (change_merge_id change))),
      (''is_setup'', GBool (change_is_setup change)),
      (''exact_timestamp'', GStr (exact_time (ci_timestamp change))),
      (''human_timestamp'', GStr (human_time (ci_timestamp change)))]"

text \<open>The number of changes is cast to \<open>i32\<close>.\<close>

definition sync_status_to_godot :: "sync_status \<Rightarrow> 'g gd_dict" where
  "sync_status_to_godot status =
     [(''state'', GStr (case status of Unknown \<Rightarrow> ''unknown'' | Disconnected _ \<Rightarrow> ''disconnected''
        | UpToDate \<Rightarrow> ''up_to_date'' | Syncing \<Rightarrow> ''syncing'')),
      (''unsynced_changes'', GInt (case status of Disconnected num \<Rightarrow> sint (word_of_nat num :: 32 word) | _ \<Rightarrow> 0))]"

definition content_to_godot :: "file_content \<Rightarrow> (unit, 'g gd_value) outcome" where
  "content_to_godot c =
     (case c of CString s \<Rightarrow> Inr (GStr s) | CBinary bytes \<Rightarrow> Inr (GBytes bytes)
      | CScene scene \<Rightarrow> rbind (serialize scene) (\<lambda>s. Inr (GStr s)))"

definition changed_files_to_godot :: "changed_file list \<Rightarrow> 'g gd_value" where
  "changed_files_to_godot files = GArray (map (\<lambda>f. GStrs [cf_path f, change_type_show (cf_change_type f)]) files)"

fun start_status_to_godot :: "(('d, 'h) start_error \<Rightarrow> string) \<Rightarrow> ('d, 'h) start_status \<Rightarrow> 'g gd_dict" where
  "start_status_to_godot show NotStarted = [(''status'', GStr ''not_started'')]"
| "start_status_to_godot show Starting = [(''status'', GStr ''starting'')]"
| "start_status_to_godot show (NeedsCheckIn _) = [(''status'', GStr ''needs_check_in'')]"
| "start_status_to_godot show StartDone = [(''status'', GStr ''done'')]"
| "start_status_to_godot show (StartFailed e) = [(''status'', GStr ''failed''), (''error'', GStr (show e))]"

fun auth_status_to_godot :: "('r \<Rightarrow> string) \<Rightarrow> 'r auth_status \<Rightarrow> 'g gd_dict" where
  "auth_status_to_godot show (NeedsUserLogin url) = [(''status'', GStr ''needs_user_login''), (''url'', GStr (show url))]"
| "auth_status_to_godot show AuthIdle = [(''status'', GStr ''idle'')]"
| "auth_status_to_godot show (NeedsUserLogout url) = [(''status'', GStr ''needs_user_logout''), (''url'', GStr (show url))]"

fun server_status_to_godot :: "'r server_status \<Rightarrow> 'g gd_dict" where
  "server_status_to_godot StatusNone = [(''status'', GStr ''none'')]"
| "server_status_to_godot StatusHandshaking = [(''status'', GStr ''handshaking'')]"
| "server_status_to_godot StatusHandshakeFailed = [(''status'', GStr ''failed'')]"
| "server_status_to_godot (StatusAuthNeeded p) = [(''status'', GStr ''auth_needed''), (''provider'', GStr p)]"
| "server_status_to_godot (StatusReady p user _) =
     [(''status'', GStr ''ready''), (''username'', GStr (case username user of None \<Rightarrow> [] | Some n \<Rightarrow> n)),
      (''authenticated'', GBool (bearer_token user \<noteq> None)),
      (''email'', GStr (case email user of None \<Rightarrow> ''<not provided>'' | Some e \<Rightarrow> e)), (''provider'', GStr p)]"

section \<open>Text differences come back\<close>

lemma with_key_Some [simp]: "map_of dict key = Some v \<Longrightarrow> with_key key dict conv k = rbind (conv v) k"
  by (simp add: with_key_def)

lemma with_key_None [simp]: "map_of dict key = None \<Longrightarrow> with_key key dict conv k = Inr None"
  by (simp add: with_key_def)

lemma collect_map: "(\<And>x. x \<in> set xs \<Longrightarrow> f (g x) = Inr (h x)) \<Longrightarrow> collect_res f (map g xs) = Inr (map h xs)"
  by (induction xs) simp_all

lemma line_dict_roundtrip: "\<exists>dict. line_to_godot l = GDict dict \<and> line_from_dict dict = Inr (Some l)"
  by (simp add: line_to_godot_def line_from_dict_def)

text \<open>If every value is a dictionary that reads back, so is the list of them.\<close>

lemma from_dicts_roundtrip:
  fixes read :: "'g gd_dict \<Rightarrow> ('e, 'a option) outcome"
  assumes "\<And>x. \<exists>dict. to x = GDict dict \<and> read dict = Inr (Some x)"
  shows "rbind (gd_dicts (GArray (map to xs))) (from_dicts read) = Inr xs"
proof -
  from assms obtain d where d: "\<And>x. to x = GDict (d x)" "\<And>x. read (d x) = Inr (Some x)" by metis
  have "collect_res gd_dict (map to xs) = (Inr (map d xs) :: ('e, 'g gd_dict list) outcome)"
    by (rule collect_map) (simp add: d)
  moreover have "collect_res read (map d xs) = Inr (map Some xs)"
    by (rule collect_map) (simp add: d)
  ultimately show ?thesis by (simp add: from_dicts_def filter_map comp_def)
qed

lemma hunk_dict_roundtrip: "\<exists>dict. hunk_to_godot h = GDict dict \<and> hunk_from_dict dict = Inr (Some h)"
  using from_dicts_roundtrip [OF line_dict_roundtrip, of "th_diff_lines h"]
  by (auto simp: hunk_to_godot_def hunk_from_dict_def rbind_eq_Inr_iff)

text \<open>The text difference inside the dictionary that the scripts get reads back as it was, up to the kind of
  change, which becomes a modification.\<close>

theorem text_diff_dict_roundtrip:
  "\<exists>dict. map_of (text_diff_to_godot d) ''text_diff'' = Some (GDict dict) \<and>
     text_diff_from_dict dict = Inr (Some (d\<lparr>td_change_type := Modified\<rparr>))"
  using from_dicts_roundtrip [OF hunk_dict_roundtrip, of "td_diff_hunks d"]
  by (auto simp: text_diff_to_godot_def text_diff_from_dict_def rbind_eq_Inr_iff)

text \<open>The dictionary itself does not read back: \<open>get_diff_dict\<close> gives what \<open>set_diff_dict\<close> does not take.\<close>

theorem own_dict_unread: "text_diff_from_dict (text_diff_to_godot d) = Inr None"
  by (simp add: text_diff_to_godot_def text_diff_from_dict_def)

section \<open>Values of typed containers\<close>

text \<open>The first group of the expression is the name of the container, not its content: every typed array with resources
  in it is shown as the same value.\<close>

theorem typed_arrays_look_the_same:
  assumes "typed_resource s" and "typed_resource s'" and "ge_typed G s = ge_typed G s'"
  shows "value_to_godot G (VVariant s) = value_to_godot G (VVariant s')"
  using assms by (simp add: str_to_var_safe.simps [of G s] str_to_var_safe.simps [of G s'])

section \<open>The difference of a project\<close>

lemma fold_insert_paths:
  "map_of (fold (\<lambda>d. hm_insert (get_diff_file_path d) (f d)) ds m) =
     map_of m ++ map_of (rev (map (\<lambda>d. (get_diff_file_path d, f d)) ds))"
  by (induction ds arbitrary: m) (auto simp: update_conv' map_add_assoc [symmetric])

text \<open>With one difference per file, the dictionary of a project has for each file its difference, and no other entry.\<close>

theorem project_dict_entries:
  assumes "distinct (map get_diff_file_path ds)"
  shows "map_of (project_diff_to_godot G ds) path = Some v \<longleftrightarrow>
    (\<exists>d\<in>set ds. get_diff_file_path d = path \<and> v = GDict (diff_to_godot G d))"
proof -
  have "distinct (map fst (rev (map (\<lambda>d. (get_diff_file_path d, GDict (diff_to_godot G d))) ds)))"
    using assms by (simp add: rev_map [symmetric] comp_def)
  from map_of_eq_Some_iff [OF this] show ?thesis
    by (auto simp: project_diff_to_godot_def fold_insert_paths)
qed

end
