(* ===== verification/Text_View.thy ===== *)
theory Text_View imports Godot_Convert begin

text \<open>
  \<open>text_differ_view.rs\<close> of \<open>backstitch_godot\<close>: how a text difference is drawn, in one column or side by side.

  Drawing is the list of calls to the \<open>RichTextLabel\<close>. Fonts and colours of the editor's theme are the parameter
  \<open>theme\<close>. The numbers of rows, which the code casts to \<open>i32\<close>, are taken to be below \<open>2 ^ 31\<close>.
\<close>

section \<open>Calls to the label\<close>

datatype ('f, 'c) label_op =
    Clear
  | PushFont 'f
  | PushColor 'c
  | PushIndent nat
  | PushTable nat
  | SetColumnExpand nat
  | PushCell
  | PopTag
  | AddText string
  | AppendText string
  | Newline

record ('f, 'c) theme =
  th_there :: bool
  th_doc_bold :: "'f option"                \<comment> \<open>or the default font\<close>
  th_status_source :: "'f option"
  th_accent :: 'c
  th_error :: 'c
  th_success :: 'c
  th_dimmed :: 'c

section \<open>Side by side\<close>

record parsed_diff_line =
  pl_old_line_no :: int
  pl_new_line_no :: int
  pl_old_text :: string
  pl_new_text :: string
  pl_status :: string

text \<open>The index after the last row that has a new line: the deleted lines from there on wait for an added one.\<close>

definition first_unpaired :: "parsed_diff_line list \<Rightarrow> nat" where
  "first_unpaired rows = length rows - length (takeWhile (\<lambda>r. pl_new_line_no r = -1) (rev rows))"

definition add_parsed_line :: "text_diff_line \<Rightarrow> parsed_diff_line list \<Rightarrow> parsed_diff_line list" where
  "add_parsed_line l rows =
     (let line = trim_end (tl_content l)
      in if tl_new_line_no l \<ge> 0 \<and> tl_old_line_no l \<ge> 0
         then rows @ [\<lparr>pl_old_line_no = tl_old_line_no l, pl_new_line_no = tl_new_line_no l, pl_old_text = line,
                       pl_new_text = line, pl_status = tl_status l\<rparr>]
         else if tl_new_line_no l = -1
         then rows @ [\<lparr>pl_old_line_no = tl_old_line_no l, pl_new_line_no = -1, pl_old_text = line,
                       pl_new_text = [], pl_status = tl_status l\<rparr>]
         else if tl_old_line_no l = -1
         then (let j = first_unpaired rows
               in if j = length rows
                  then rows @ [\<lparr>pl_old_line_no = -1, pl_new_line_no = tl_new_line_no l, pl_old_text = [],
                                pl_new_text = line, pl_status = tl_status l\<rparr>]
                  else rows[j := (rows ! j)\<lparr>pl_new_text := line, pl_new_line_no := tl_new_line_no l\<rparr>])
         else rows)"

definition parsed_diff :: "text_diff_line list \<Rightarrow> parsed_diff_line list" where
  "parsed_diff diff_lines = fold add_parsed_line diff_lines []"

definition text_cell :: "'c \<Rightarrow> string \<Rightarrow> ('f, 'c) label_op list" where
  "text_cell color s = [PushCell, PushColor color, AddText s, PopTag, PopTag]"

definition side_cells :: "('f, 'c) theme \<Rightarrow> 'c \<Rightarrow> bool \<Rightarrow> int \<Rightarrow> string \<Rightarrow> string \<Rightarrow> ('f, 'c) label_op list" where
  "side_cells T color has_change i sign s =
     (if i \<ge> 0
      then (let color = (if has_change then color else th_dimmed T)
            in text_cell color (show_int i) @ text_cell color (if has_change then sign else '' |'') @ text_cell color s)
      else [PushCell, PopTag, PushCell, PopTag, PushCell, PopTag])"

definition split_row :: "('f, 'c) theme \<Rightarrow> parsed_diff_line \<Rightarrow> ('f, 'c) label_op list" where
  "split_row T l =
     (let has_change = pl_status l \<noteq> '' ''
      in side_cells T (th_error T) has_change (pl_old_line_no l) ''-|'' (pl_old_text l) @
         side_cells T (th_success T) has_change (pl_new_line_no l) ''+|'' (pl_new_text l))"

definition display_diff_split_view :: "('f, 'c) theme \<Rightarrow> text_diff_line list \<Rightarrow> ('f, 'c) label_op list" where
  "display_diff_split_view T diff_lines =
     [PushTable 6, SetColumnExpand 2, SetColumnExpand 5] @ concat (map (split_row T) (parsed_diff diff_lines)) @ [PopTag]"

section \<open>In one column\<close>

definition number_cell :: "'c \<Rightarrow> string \<Rightarrow> ('f, 'c) label_op list" where
  "number_cell color s = [PushCell, PushColor color, PushIndent 1, AddText s, PopTag, PopTag, PopTag]"

definition unified_row :: "('f, 'c) theme \<Rightarrow> text_diff_line \<Rightarrow> ('f, 'c) label_op list" where
  "unified_row T l =
     (let color = (if tl_status l = ''+'' then th_success T else if tl_status l = ''-'' then th_error T else th_dimmed T);
          old_no = (if tl_old_line_no l \<ge> 0 then show_int (tl_old_line_no l) else []);
          new_no = (if tl_new_line_no l \<ge> 0 then show_int (tl_new_line_no l) else []);
          old_no = (if tl_old_line_no l \<ge> 0 \<and> tl_new_line_no l \<ge> 0 then old_no @ ''|'' else old_no)
      in number_cell color old_no @ number_cell color new_no @
         text_cell color (if tl_status l \<noteq> [] then tl_status l @ ''|'' else '' |'') @
         text_cell color (trim_end (tl_content l)))"

definition display_diff_unified_view :: "('f, 'c) theme \<Rightarrow> text_diff_line list \<Rightarrow> ('f, 'c) label_op list" where
  "display_diff_unified_view T diff_lines =
     [PushTable 4, SetColumnExpand 3] @ concat (map (unified_row T) diff_lines) @ [PopTag]"

section \<open>The view\<close>

definition hunk_header :: "text_diff_hunk \<Rightarrow> string" where
  "hunk_header h =
     ''[center]@@ '' @ show_int (th_old_start h) @ '','' @ show_int (th_old_lines h) @ '' '' @
     show_int (th_new_start h) @ '','' @ show_int (th_new_lines h) @ '' @@[/center]''"

definition draw_hunk :: "('f, 'c) theme \<Rightarrow> bool \<Rightarrow> text_diff_hunk \<Rightarrow> ('f, 'c) label_op list" where
  "draw_hunk T split_view h =
     [Newline, AppendText (hunk_header h), Newline] @
     (if split_view then display_diff_split_view T (th_diff_lines h) else display_diff_unified_view T (th_diff_lines h)) @
     [Newline]"

definition redraw :: "('f, 'c) theme \<Rightarrow> text_diff \<Rightarrow> bool \<Rightarrow> ('f, 'c) label_op list" where
  "redraw T d split_view =
     Clear #
     (if td_is_empty d \<or> \<not> th_there T then []
      else (case th_doc_bold T of
              None \<Rightarrow> []
            | Some bold \<Rightarrow>
                [PushFont bold, PushColor (th_accent T), AddText (''File: '' @ td_path d), PopTag, PopTag] @
                (case th_status_source T of
                   None \<Rightarrow> []
                 | Some source \<Rightarrow>
                     [PushFont source] @ concat (map (draw_hunk T split_view) (td_diff_hunks d)) @ [PopTag, Newline])))"

record text_view =
  tv_diff_file :: text_diff
  tv_split_view :: bool

datatype ('f, 'c) view_effect =
    Draw "('f, 'c) label_op list"
  | CheckItem nat bool
  | HideMenu
  | Clipboard string

definition get_text_diff_view :: "('f, 'c) theme \<Rightarrow> 'g gd_dict \<Rightarrow> bool \<Rightarrow> ('e, (text_view \<times> ('f, 'c) view_effect list) option) outcome" where
  "get_text_diff_view T dict split_view =
     rbind (text_diff_from_dict dict) (\<lambda>d.
     Inr (map_option (\<lambda>d. (\<lparr>tv_diff_file = d, tv_split_view = split_view\<rparr>, [Draw (redraw T d split_view)])) d))"

definition set_diff_file :: "('f, 'c) theme \<Rightarrow> text_diff \<Rightarrow> text_view \<Rightarrow> text_view \<times> ('f, 'c) view_effect list" where
  "set_diff_file T d v = (v\<lparr>tv_diff_file := d\<rparr>, [Draw (redraw T d (tv_split_view v))])"

definition get_diff_dict :: "text_view \<Rightarrow> 'g gd_dict" where
  "get_diff_dict v = text_diff_to_godot (tv_diff_file v)"

definition set_diff_dict :: "('f, 'c) theme \<Rightarrow> 'g gd_dict \<Rightarrow> text_view \<Rightarrow> ('e, text_view \<times> ('f, 'c) view_effect list) outcome" where
  "set_diff_dict T dict v =
     rbind (text_diff_from_dict dict) (\<lambda>d. rbind (unwrap d) (\<lambda>d. Inr (set_diff_file T d v)))"

definition set_split_view :: "('f, 'c) theme \<Rightarrow> bool \<Rightarrow> text_view \<Rightarrow> text_view \<times> ('f, 'c) view_effect list" where
  "set_split_view T b v =
     (if tv_split_view v = b then (v, [])
      else (v\<lparr>tv_split_view := b\<rparr>, [CheckItem 0 (\<not> b), CheckItem 1 b, Draw (redraw T (tv_diff_file v) b)]))"

text \<open>The id of the menu is cast to \<open>i32\<close>.\<close>

definition on_popup_menu_id_pressed :: "('f, 'c) theme \<Rightarrow> int \<Rightarrow> text_view \<Rightarrow> text_view \<times> ('f, 'c) view_effect list" where
  "on_popup_menu_id_pressed T i v =
     (let i = sint (word_of_int i :: 32 word);
          (v', effects) =
            (if i = 0 then set_split_view T False v
             else if i = 1 then set_split_view T True v
             else if i = 2 then (v, [Clipboard (to_unified (tv_diff_file v))])
             else (v, []))
      in (v', HideMenu # effects))"

section \<open>Nothing is lost side by side\<close>

text \<open>A line as \<open>TextDiff::create\<close> makes it: in both files, deleted, or added.\<close>

definition line_ok :: "text_diff_line \<Rightarrow> bool" where
  "line_ok l \<longleftrightarrow> tl_old_line_no l \<ge> -1 \<and> tl_new_line_no l \<ge> -1 \<and> (tl_old_line_no l \<ge> 0 \<or> tl_new_line_no l \<ge> 0)"

definition old_lines :: "text_diff_line list \<Rightarrow> (int \<times> string) list" where
  "old_lines ls = map (\<lambda>l. (tl_old_line_no l, trim_end (tl_content l))) (filter (\<lambda>l. tl_old_line_no l \<ge> 0) ls)"

definition new_lines :: "text_diff_line list \<Rightarrow> (int \<times> string) list" where
  "new_lines ls = map (\<lambda>l. (tl_new_line_no l, trim_end (tl_content l))) (filter (\<lambda>l. tl_new_line_no l \<ge> 0) ls)"

definition old_column :: "parsed_diff_line list \<Rightarrow> (int \<times> string) list" where
  "old_column rows = map (\<lambda>r. (pl_old_line_no r, pl_old_text r)) (filter (\<lambda>r. pl_old_line_no r \<ge> 0) rows)"

definition new_column :: "parsed_diff_line list \<Rightarrow> (int \<times> string) list" where
  "new_column rows = map (\<lambda>r. (pl_new_line_no r, pl_new_text r)) (filter (\<lambda>r. pl_new_line_no r \<ge> 0) rows)"

lemma column_simps [simp]:
  "old_column [] = []" "new_column [] = []"
  "old_column (a @ b) = old_column a @ old_column b" "new_column (a @ b) = new_column a @ new_column b"
  "old_column (r # rows) = (if pl_old_line_no r \<ge> 0 then [(pl_old_line_no r, pl_old_text r)] else []) @ old_column rows"
  "new_column (r # rows) = (if pl_new_line_no r \<ge> 0 then [(pl_new_line_no r, pl_new_text r)] else []) @ new_column rows"
  by (simp_all add: old_column_def new_column_def)

lemma new_column_unpaired: "\<forall>r\<in>set rows. pl_new_line_no r = -1 \<Longrightarrow> new_column rows = []"
  by (induction rows) auto

text \<open>The rows are those up to the last one with a new line, and those that wait.\<close>

lemma rows_split:
  obtains a b where "rows = a @ b" "first_unpaired rows = length a" "\<forall>r\<in>set b. pl_new_line_no r = -1"
proof
  let ?P = "\<lambda>r. pl_new_line_no r = -1"
  let ?b = "rev (takeWhile ?P (rev rows))" and ?a = "rev (dropWhile ?P (rev rows))"
  show "rows = ?a @ ?b" by (metis rev_append rev_rev_ident takeWhile_dropWhile_id)
  then show "first_unpaired rows = length ?a"
    unfolding first_unpaired_def by (metis add_diff_cancel_right' length_append length_rev)
  show "\<forall>r\<in>set ?b. ?P r" by (auto dest: set_takeWhileD)
qed

lemma add_line_columns:
  assumes "line_ok l"
  shows "old_column (add_parsed_line l rows) = old_column rows @ old_lines [l]"
    "new_column (add_parsed_line l rows) = new_column rows @ new_lines [l]"
proof -
  obtain a b where ab: "rows = a @ b" "first_unpaired rows = length a" "\<forall>r\<in>set b. pl_new_line_no r = -1"
    by (rule rows_split)
  from ab(3) have "new_column b = []" by (rule new_column_unpaired)
  with ab assms show "old_column (add_parsed_line l rows) = old_column rows @ old_lines [l]"
    "new_column (add_parsed_line l rows) = new_column rows @ new_lines [l]"
    by (cases b; auto simp: add_parsed_line_def Let_def line_ok_def old_lines_def new_lines_def list_update_append nth_append)+
qed

text \<open>C38: Side by side, the left column has exactly the lines of the old text in the hunk, and the right column those of
  the new text, each with its number and in its order.\<close>

theorem split_view_complete:
  assumes "\<forall>l\<in>set ls. line_ok l"
  shows "old_column (parsed_diff ls) = old_lines ls \<and> new_column (parsed_diff ls) = new_lines ls"
  using assms
proof (induction ls rule: rev_induct)
  case Nil
  then show ?case by (simp add: parsed_diff_def old_lines_def new_lines_def)
next
  case (snoc l ls)
  then show ?case
    by (simp add: parsed_diff_def add_line_columns) (simp add: old_lines_def new_lines_def)
qed

section \<open>Balanced tags\<close>

text \<open>The number of open tags after the calls; closing one that is not open has no result.\<close>

fun tags :: "('f, 'c) label_op list \<Rightarrow> nat \<Rightarrow> nat option" where
  "tags [] n = Some n"
| "tags (PopTag # ops) n = (case n of 0 \<Rightarrow> None | Suc m \<Rightarrow> tags ops m)"
| "tags (PushFont _ # ops) n = tags ops (Suc n)"
| "tags (PushColor _ # ops) n = tags ops (Suc n)"
| "tags (PushIndent _ # ops) n = tags ops (Suc n)"
| "tags (PushTable _ # ops) n = tags ops (Suc n)"
| "tags (PushCell # ops) n = tags ops (Suc n)"
| "tags (_ # ops) n = tags ops n"

lemma tags_append [simp]: "tags (a @ b) n = Option.bind (tags a n) (tags b)"
  by (induction a n rule: tags.induct) (auto split: nat.split)

lemma tags_concat: "(\<And>x n. x \<in> set xs \<Longrightarrow> tags (f x) n = Some n) \<Longrightarrow> tags (concat (map f xs)) n = Some n"
  by (induction xs) simp_all

lemma cells_balanced [simp]: "tags (text_cell c s) n = Some n" "tags (number_cell c s) n = Some n" "tags (side_cells T c b i sg s) n = Some n"
  by (simp_all add: text_cell_def number_cell_def side_cells_def Let_def)

lemma hunk_balanced: "tags (draw_hunk T b h) n = Some n"
  by (simp add: draw_hunk_def display_diff_split_view_def display_diff_unified_view_def tags_concat split_row_def unified_row_def Let_def)

text \<open>Whatever the theme lacks, drawing closes every tag that it opens, and none that it has not.\<close>

theorem redraw_balanced: "tags (redraw T d b) 0 = Some 0"
  by (simp add: redraw_def hunk_balanced tags_concat split: option.split)

section \<open>Cases to know of\<close>

text \<open>A view does not take its own dictionary.\<close>

theorem own_dict_panics: "set_diff_dict T (get_diff_dict v) v = Inl Panic"
  by (simp add: set_diff_dict_def get_diff_dict_def text_diff_to_godot_def text_diff_from_dict_def)

text \<open>Two lines that differ in white space at their ends are shown with the same text.\<close>

theorem trailing_space_unseen:
  assumes "trim_end (tl_content l) = trim_end (tl_content l')" and "tl_old_line_no l = 0" and "tl_new_line_no l = -1"
    and "tl_old_line_no l' = -1" and "tl_new_line_no l' = 0"
  shows "\<exists>r. parsed_diff [l, l'] = [r] \<and> pl_old_text r = pl_new_text r"
  using assms by (simp add: parsed_diff_def add_parsed_line_def first_unpaired_def Let_def)

section \<open>An example\<close>

definition demo_deleted :: text_diff_line where
  "demo_deleted = \<lparr>tl_new_line_no = -1, tl_old_line_no = 1, tl_content = ''a'', tl_status = ''-''\<rparr>"

definition demo_added :: text_diff_line where
  "demo_added = \<lparr>tl_new_line_no = 1, tl_old_line_no = -1, tl_content = ''b'', tl_status = ''+''\<rparr>"

theorem split_view_complete_witness:
  "new_column (parsed_diff [demo_deleted, demo_deleted, demo_added]) = [(1, trim_end ''b'')]"
  using split_view_complete [of "[demo_deleted, demo_deleted, demo_added]"]
  by (simp add: line_ok_def demo_deleted_def demo_added_def new_lines_def)

end
