(* ===== verification/Editor_Update.thy ===== *)
theory Editor_Update imports Godot_Convert begin

text \<open>
  The updates of the editor in \<open>godot_project.rs\<close> and \<open>godot_accessors.rs\<close> of \<open>backstitch_godot\<close>: what a frame has
  to tell the editor about changed files, how frames add up, and when and how the editor is updated.

  Sets and maps of the code are sets and maps. What the editor and the file system answer is in the records
  \<open>path_io\<close> and \<open>editor\<close>; what is done to the editor is the list of calls. The path functions are those of Unix.
\<close>

section \<open>Paths\<close>

text \<open>\<open>rsplit_file_at_dot\<close> of the library: the stem of a file name and its extension.\<close>

definition split_name :: "string \<Rightarrow> string \<times> string option" where
  "split_name name =
     (case rfind_char name (CHR ''.'') of
        None \<Rightarrow> (name, None)
      | Some i \<Rightarrow> if i = 0 \<or> name = ''..'' then (name, None) else (take i name, Some (drop (Suc i) name)))"

definition path_extension :: "string \<Rightarrow> string" where
  "path_extension p = (case Option.bind (path_file_name p) (\<lambda>name. snd (split_name name)) of None \<Rightarrow> [] | Some e \<Rightarrow> e)"

text \<open>A path without the slashes and dots after its file name.\<close>

fun trim_path_rev :: "string \<Rightarrow> string" where
  "trim_path_rev [] = []"
| "trim_path_rev (c # p) =
     (if c = CHR ''/'' then trim_path_rev p
      else if c = CHR ''.'' \<and> p \<noteq> [] \<and> hd p = CHR ''/'' then trim_path_rev p
      else c # p)"

definition set_extension :: "string \<Rightarrow> string \<Rightarrow> string" where
  "set_extension p e =
     (case path_file_name p of
        None \<Rightarrow> p
      | Some name \<Rightarrow>
          (let q = rev (trim_path_rev (rev p))
           in take (length q - length name) q @ fst (split_name name) @ (if e = [] then [] else ''.'' @ e)))"

definition ascii_lower :: "char \<Rightarrow> char" where
  "ascii_lower c = (if 65 \<le> (of_char c :: nat) \<and> (of_char c :: nat) \<le> 90 then char_of ((of_char c :: nat) + 32) else c)"

section \<open>What the editor has to be told\<close>

record pending_update =
  pu_added_files :: "string set"
  pu_deleted_files :: "string set"
  pu_scripts_to_reload :: "string set"
  pu_scenes_to_reload :: "string \<Rightarrow> file_content option"
  pu_reimport_files :: "string set"
  pu_uids_to_add :: "string \<Rightarrow> string option"
  pu_reload_project_settings :: bool
  pu_was_load_or_checkout :: bool

definition pu_none :: pending_update where
  "pu_none = \<lparr>pu_added_files = {}, pu_deleted_files = {}, pu_scripts_to_reload = {}, pu_scenes_to_reload = Map.empty,
     pu_reimport_files = {}, pu_uids_to_add = Map.empty, pu_reload_project_settings = False, pu_was_load_or_checkout = False\<rparr>"

definition pu_merge :: "pending_update \<Rightarrow> pending_update \<Rightarrow> pending_update" where
  "pu_merge u v =
     \<lparr>pu_added_files = pu_added_files u \<union> pu_added_files v, pu_deleted_files = pu_deleted_files u \<union> pu_deleted_files v,
      pu_scripts_to_reload = pu_scripts_to_reload u \<union> pu_scripts_to_reload v,
      pu_scenes_to_reload = pu_scenes_to_reload u ++ pu_scenes_to_reload v,
      pu_reimport_files = pu_reimport_files u \<union> pu_reimport_files v,
      pu_uids_to_add = pu_uids_to_add u ++ pu_uids_to_add v,
      pu_reload_project_settings = (pu_reload_project_settings u \<or> pu_reload_project_settings v),
      pu_was_load_or_checkout = (pu_was_load_or_checkout u \<or> pu_was_load_or_checkout v)\<rparr>"

definition added_or_deleted_files :: "pending_update \<Rightarrow> bool" where
  "added_or_deleted_files u \<longleftrightarrow> pu_added_files u \<noteq> {} \<or> pu_deleted_files u \<noteq> {}"

definition any_changes :: "pending_update \<Rightarrow> bool" where
  "any_changes u \<longleftrightarrow>
     pu_scripts_to_reload u \<noteq> {} \<or> pu_scenes_to_reload u \<noteq> Map.empty \<or> pu_reimport_files u \<noteq> {} \<or>
     pu_uids_to_add u \<noteq> Map.empty \<or> added_or_deleted_files u"

record path_io =
  px_localize :: "string \<Rightarrow> string"
  px_exists :: "string \<Rightarrow> bool"

text \<open>The text after \<open>uid=\<close> of the first line that begins with it.\<close>

fun uid_line :: "string list \<Rightarrow> string option" where
  "uid_line [] = None"
| "uid_line (line # ls) =
     (if starts_with line ''uid=''
      then Some (case split_on (CHR ''='') line of _ # uid # _ \<Rightarrow> uid | _ \<Rightarrow> [])
      else uid_line ls)"

definition file_touched :: "path_io \<Rightarrow> bool \<Rightarrow> string \<Rightarrow> file_content \<Rightarrow> pending_update \<Rightarrow> pending_update" where
  "file_touched X file_created abs_path content u =
     (let res_path = px_localize X abs_path;
          extension = map ascii_lower (path_extension abs_path)
      in if extension = ''gd'' then u\<lparr>pu_scripts_to_reload := insert res_path (pu_scripts_to_reload u)\<rparr>
         else if extension = ''tscn'' then u\<lparr>pu_scenes_to_reload := (pu_scenes_to_reload u)(res_path \<mapsto> content)\<rparr>
         else if extension = ''import''
         then (let base = set_extension res_path [];
                   u = (if file_created then u else u\<lparr>pu_reimport_files := insert base (pu_reimport_files u)\<rparr>)
               in case content of
                    CString s \<Rightarrow> (case uid_line (lines s) of None \<Rightarrow> u | Some uid \<Rightarrow> u\<lparr>pu_uids_to_add := (pu_uids_to_add u)(base \<mapsto> uid)\<rparr>)
                  | _ \<Rightarrow> u)
         else if extension = ''uid''
         then (case content of CString s \<Rightarrow> u\<lparr>pu_uids_to_add := (pu_uids_to_add u)(res_path \<mapsto> s)\<rparr> | _ \<Rightarrow> u)
         else if extension = ''godot'' then u\<lparr>pu_reload_project_settings := True\<rparr>
         else if px_exists X (set_extension abs_path (path_extension abs_path @ ''.import'')) \<and> \<not> file_created
         then u\<lparr>pu_reimport_files := insert res_path (pu_reimport_files u)\<rparr>
         else u)"

fun process_event :: "path_io \<Rightarrow> file_system_event \<Rightarrow> pending_update \<Rightarrow> pending_update" where
  "process_event X (FCreated path content) u =
     file_touched X True path content (u\<lparr>pu_added_files := insert (px_localize X path) (pu_added_files u)\<rparr>)"
| "process_event X (FModified path content) u = file_touched X False path content u"
| "process_event X (FDeleted path) u = u\<lparr>pu_deleted_files := insert (px_localize X path) (pu_deleted_files u)\<rparr>"

definition process_godot_updates :: "path_io \<Rightarrow> file_system_event list \<Rightarrow> bool \<Rightarrow> pending_update" where
  "process_godot_updates X events was_load_or_checkout =
     (fold (process_event X) events pu_none)\<lparr>pu_was_load_or_checkout := was_load_or_checkout\<rparr>"

section \<open>Updating the editor\<close>

record editor =
  ed_scanning :: bool
  ed_was_scanning :: bool                 \<comment> \<open>at the last physics frame\<close>
  ed_importing :: bool
  ed_unsaved_scripts :: bool
  ed_unsaved_scenes :: bool
  ed_settings_callable :: bool
  ed_open_scenes :: "string list"
  ed_open_scripts :: "string set"
  ed_current_scene :: "string option"
  ed_scan_ends :: bool                    \<comment> \<open>within the 30 seconds that it is waited for\<close>

datatype editor_call =
    SetProcess bool
  | CloseScene
  | OpenScene string
  | CloseScript string
  | ReloadProjectSettings
  | ScanSources
  | ReloadOpenScripts
  | ReloadScene string
  | FullScan
  | LoadScript string

definition unsaved_files_open :: "editor \<Rightarrow> bool" where
  "unsaved_files_open E \<longleftrightarrow> ed_unsaved_scripts E \<or> ed_unsaved_scenes E"

definition safe_to_update_godot :: "editor \<Rightarrow> bool" where
  "safe_to_update_godot E \<longleftrightarrow> \<not> (ed_scanning E \<or> ed_was_scanning E \<or> ed_importing E \<or> unsaved_files_open E)"

definition close_if_open :: "editor \<Rightarrow> string \<Rightarrow> editor_call list" where
  "close_if_open E path =
     (if path \<in> set (ed_open_scenes E)
      then (if ed_current_scene E = Some path then [CloseScene] else [OpenScene path, CloseScene])
      else if path \<in> ed_open_scripts E then [CloseScript path] else [])"

text \<open>All open scenes are reloaded, the current one last.\<close>

definition reload_scene_files :: "editor \<Rightarrow> editor_call list" where
  "reload_scene_files E =
     map ReloadScene (filter (\<lambda>s. ed_current_scene E \<noteq> Some s) (ed_open_scenes E)) @
     (case ed_current_scene E of None \<Rightarrow> [] | Some s \<Rightarrow> [ReloadScene s])"

text \<open>
  \<open>close_files_if_open\<close>: what is open and which scene is the current one is read once, before the first file is
  closed.
\<close>

definition close_files_if_open :: "editor \<Rightarrow> string list \<Rightarrow> editor_call list" where
  "close_files_if_open E paths = concat (map (close_if_open E) paths)"

text \<open>
  \<open>update_godot_after_source_change\<close>: whether the editor was updated, what is still pending, and the calls. What a
  call does to the editor is \<open>react\<close>; the scenes to reload are read after all that was done before. The sets are
  visited in the orders \<open>deleted\<close> and \<open>scripts\<close>.
\<close>

definition update_godot ::
  "(editor_call \<Rightarrow> editor \<Rightarrow> editor) \<Rightarrow> editor \<Rightarrow> string list \<Rightarrow> string list \<Rightarrow> pending_update \<Rightarrow>
   bool \<times> pending_update \<times> editor_call list" where
  "update_godot react E deleted scripts u =
     (if \<not> any_changes u \<or> \<not> safe_to_update_godot E then (False, u, [])
      else (let begin = [SetProcess False] @ close_files_if_open E deleted @
                  (if pu_reload_project_settings u \<and> ed_settings_callable E then [ReloadProjectSettings] else []);
                u' = u\<lparr>pu_deleted_files := {}, pu_reload_project_settings := False\<rparr>
            in if pu_was_load_or_checkout u \<and> \<not> ed_scan_ends E then (False, u', begin @ [FullScan, SetProcess True])
               else (let calls = begin @ (if pu_was_load_or_checkout u then FullScan # map LoadScript scripts else [ScanSources]) @
                           [ReloadOpenScripts]
                     in (True, pu_none, calls @ reload_scene_files (fold react calls E) @ [SetProcess True]))))"

text \<open>
  What is relied on of the editor: closing closes the current scene, opening an open scene makes it the current one,
  closing a script closes it, no other call changes which scenes are open or current, and none opens a script. Which scene
  is current after one is closed is left open.
\<close>

definition editor_law :: "(editor_call \<Rightarrow> editor \<Rightarrow> editor) \<Rightarrow> bool" where
  "editor_law react \<longleftrightarrow> (\<forall>E c.
     ed_open_scripts (react c E) \<subseteq> ed_open_scripts E \<and>
     (case c of
        CloseScene \<Rightarrow> set (ed_open_scenes (react c E)) = set (ed_open_scenes E) - set_option (ed_current_scene E)
      | OpenScene p \<Rightarrow> p \<in> set (ed_open_scenes E) \<longrightarrow>
          set (ed_open_scenes (react c E)) = set (ed_open_scenes E) \<and> ed_current_scene (react c E) = Some p
      | _ \<Rightarrow> ed_open_scenes (react c E) = ed_open_scenes E \<and> ed_current_scene (react c E) = ed_current_scene E) \<and>
     (\<forall>p. c = CloseScript p \<longrightarrow> p \<notin> ed_open_scripts (react c E)))"

section \<open>Frames add up\<close>

lemmas pu_defs = pu_merge_def pu_none_def

lemma pu_merge_none [simp]: "pu_merge u pu_none = u" "pu_merge pu_none u = u"
  by (simp_all add: pu_defs)

lemma pu_merge_assoc: "pu_merge (pu_merge u v) w = pu_merge u (pu_merge v w)"
  by (simp add: pu_merge_def Un_assoc)

lemma file_touched_merge: "file_touched X c p content (pu_merge u v) = pu_merge u (file_touched X c p content v)"
  by (auto simp: file_touched_def Let_def pu_merge_def split: file_content.split option.split)

lemma process_event_merge: "process_event X e (pu_merge u v) = pu_merge u (process_event X e v)"
proof (cases e)
  case (FCreated p content)
  have "(pu_merge u v)\<lparr>pu_added_files := insert (px_localize X p) (pu_added_files (pu_merge u v))\<rparr> =
      pu_merge u (v\<lparr>pu_added_files := insert (px_localize X p) (pu_added_files v)\<rparr>)"
    by (simp add: pu_merge_def)
  with FCreated show ?thesis by (simp add: file_touched_merge)
next
  case (FModified p content)
  then show ?thesis by (simp add: file_touched_merge)
next
  case (FDeleted p)
  then show ?thesis by (simp add: pu_merge_def)
qed

lemma fold_event_merge: "fold (process_event X) es (pu_merge u v) = pu_merge u (fold (process_event X) es v)"
  by (induction es arbitrary: v) (simp_all add: process_event_merge)

lemma file_touched_flag: "pu_was_load_or_checkout (file_touched X c p content u) = pu_was_load_or_checkout u"
  by (simp add: file_touched_def Let_def split: file_content.split option.split)

lemma process_event_flag: "pu_was_load_or_checkout (process_event X e u) = pu_was_load_or_checkout u"
  by (cases e) (simp_all add: file_touched_flag)

lemma fold_event_flag: "pu_was_load_or_checkout (fold (process_event X) es u) = pu_was_load_or_checkout u"
  by (induction es arbitrary: u) (simp_all add: process_event_flag)

lemma process_updates_merge:
  "pu_merge (process_godot_updates X es b) (process_godot_updates X es' b') = process_godot_updates X (es @ es') (b \<or> b')"
proof -
  have "fold (process_event X) (es @ es') pu_none = pu_merge (fold (process_event X) es pu_none) (fold (process_event X) es' pu_none)"
    using fold_event_merge [of X es' "fold (process_event X) es pu_none" pu_none] by simp
  then show ?thesis by (simp add: process_godot_updates_def pu_merge_def)
qed

text \<open>
  What a list of events says, whatever frames they came in: each event with what the paths were like when its frame
  looked at it.
\<close>

definition said :: "(path_io \<times> file_system_event) list \<Rightarrow> pending_update" where
  "said history = fold (\<lambda>(X, e). process_event X e) history pu_none"

lemma said_none [simp]: "said [] = pu_none"
  by (simp add: said_def)

lemma said_append: "said (h @ h') = pu_merge (said h) (said h')"
proof -
  have "fold (\<lambda>(X, e). process_event X e) h' (pu_merge u v) = pu_merge u (fold (\<lambda>(X, e). process_event X e) h' v)" for u v
    by (induction h' arbitrary: v) (auto simp: process_event_merge)
  from this [of "said h" pu_none] show ?thesis by (simp add: said_def)
qed

lemma said_flag [simp]: "\<not> pu_was_load_or_checkout (said h)"
proof -
  have "pu_was_load_or_checkout (fold (\<lambda>(X, e). process_event X e) h u) = pu_was_load_or_checkout u" for u
    by (induction h arbitrary: u) (simp_all add: process_event_flag case_prod_unfold)
  then show ?thesis by (simp add: said_def pu_none_def)
qed

lemma process_updates_said:
  "process_godot_updates X es b = (said (map (Pair X) es))\<lparr>pu_was_load_or_checkout := b\<rparr>"
  by (simp add: process_godot_updates_def said_def fold_map comp_def)

lemma said_files:
  "pu_added_files (said h) = {px_localize X p | X p content. (X, FCreated p content) \<in> set h}"
  "pu_deleted_files (said h) = {px_localize X p | X p. (X, FDeleted p) \<in> set h}"
proof (induction h rule: rev_induct)
  have touched: "pu_added_files (file_touched X c p content u) = pu_added_files u"
    "pu_deleted_files (file_touched X c p content u) = pu_deleted_files u" for X c p content u
    by (simp_all add: file_touched_def Let_def split: file_content.split option.split)
  case (snoc x h)
  obtain X e where x: "x = (X, e)" by (cases x)
  case 1
  from snoc(1) show ?case unfolding x by (cases e) (auto simp: said_def touched)
  case 2
  from snoc(2) show ?case unfolding x by (cases e) (auto simp: said_def touched)
qed (simp_all add: pu_none_def)

text \<open>
  The project's node over time: a frame adds the events that it got, an update of the editor takes what is pending, and
  one whose full scan times out forgets part of it. Beside it are kept the events since the last successful update and
  whether one of their frames had a checkout, and the events since the last update that did anything, successful or not.
\<close>

definition frame_pending :: "path_io \<Rightarrow> file_system_event list \<Rightarrow> bool \<Rightarrow> pending_update \<Rightarrow> pending_update" where
  "frame_pending X updates checked_out u = (if updates = [] then u else pu_merge u (process_godot_updates X updates checked_out))"

record editor_run =
  er_pending :: pending_update
  er_events :: "(path_io \<times> file_system_event) list"
  er_recent :: "(path_io \<times> file_system_event) list"
  er_checkout :: bool

inductive editor_step :: "editor_run \<Rightarrow> editor_run \<Rightarrow> bool" where
  editor_frame: "editor_step S
    \<lparr>er_pending = frame_pending X updates checked_out (er_pending S), er_events = er_events S @ map (Pair X) updates,
     er_recent = er_recent S @ map (Pair X) updates, er_checkout = (er_checkout S \<or> (checked_out \<and> updates \<noteq> []))\<rparr>"
| editor_update: "update_godot react E deleted scripts (er_pending S) = (True, u, calls) \<Longrightarrow>
    editor_step S \<lparr>er_pending = u, er_events = [], er_recent = [], er_checkout = False\<rparr>"
| editor_timeout: "update_godot react E deleted scripts (er_pending S) = (False, u, calls) \<Longrightarrow> calls \<noteq> [] \<Longrightarrow>
    editor_step S (S\<lparr>er_pending := u, er_recent := []\<rparr>)"
| editor_skip: "update_godot react E deleted scripts (er_pending S) = (False, u, []) \<Longrightarrow>
    editor_step S (S\<lparr>er_pending := u\<rparr>)"

definition editor_start :: "editor_run \<Rightarrow> bool" where
  "editor_start S \<longleftrightarrow> S = \<lparr>er_pending = pu_none, er_events = [], er_recent = [], er_checkout = False\<rparr>"

definition editor_inv :: "editor_run \<Rightarrow> bool" where
  "editor_inv S \<longleftrightarrow> er_pending S = (said (er_events S))
     \<lparr>pu_deleted_files := pu_deleted_files (said (er_recent S)),
      pu_reload_project_settings := pu_reload_project_settings (said (er_recent S)), pu_was_load_or_checkout := er_checkout S\<rparr>"

lemma update_cases:
  assumes "update_godot react E deleted scripts u = (ok, u', calls)"
  obtains (skip) "\<not> ok" "u' = u" "calls = []" "\<not> any_changes u \<or> \<not> safe_to_update_godot E"
  | (timeout) "\<not> ok" "u' = u\<lparr>pu_deleted_files := {}, pu_reload_project_settings := False\<rparr>" "calls \<noteq> []"
      "any_changes u" "safe_to_update_godot E" "pu_was_load_or_checkout u" "\<not> ed_scan_ends E"
  | (updated) "ok" "u' = pu_none" "calls \<noteq> []" "any_changes u" "safe_to_update_godot E"
      "pu_was_load_or_checkout u \<longrightarrow> ed_scan_ends E"
  using assms by (auto simp: update_godot_def Let_def split: if_splits)

interpretation editor_runs: step_system editor_start editor_step editor_inv
proof unfold_locales
  fix S T
  show "editor_start S \<Longrightarrow> editor_inv S" by (simp add: editor_start_def editor_inv_def pu_none_def)
  assume inv: "editor_inv S" and step: "editor_step S T"
  from step show "editor_inv T"
  proof cases
    case (editor_frame X updates checked_out)
    show ?thesis
    proof (cases "updates = []")
      case True
      with editor_frame inv show ?thesis by (simp add: editor_inv_def frame_pending_def)
    next
      case False
      with editor_frame inv show ?thesis
        by (simp add: editor_inv_def frame_pending_def process_updates_said said_append pu_merge_def)
    qed
  next
    case (editor_update react E deleted scripts u calls)
    then have "u = pu_none" by (auto elim: update_cases)
    with editor_update show ?thesis by (simp add: editor_inv_def pu_none_def)
  next
    case (editor_timeout react E deleted scripts u calls)
    then have "u = (er_pending S)\<lparr>pu_deleted_files := {}, pu_reload_project_settings := False\<rparr>" by (auto elim: update_cases)
    with editor_timeout inv show ?thesis by (simp add: editor_inv_def) (simp add: pu_none_def)
  next
    case (editor_skip react E deleted scripts u)
    then have "u = er_pending S" by (auto elim: update_cases)
    with editor_skip inv show ?thesis by (simp add: editor_inv_def)
  qed
qed

text \<open>C36: What is pending is what the events since the last successful update of the editor say together, however they were
  spread over the frames; only of the deleted files and of a change of the settings it is what the events say since the
  last update that did anything, as one whose full scan times out has forgotten what came before it. A checkout is
  pending exactly when one of the frames since the last successful update had one.\<close>

theorem pending_since_update:
  assumes "reachable editor_start editor_step S"
  shows "er_pending S = (said (er_events S))
      \<lparr>pu_deleted_files := pu_deleted_files (said (er_recent S)),
       pu_reload_project_settings := pu_reload_project_settings (said (er_recent S)), pu_was_load_or_checkout := er_checkout S\<rparr> \<and>
    pu_added_files (er_pending S) = {px_localize X p | X p content. (X, FCreated p content) \<in> set (er_events S)} \<and>
    pu_deleted_files (er_pending S) = {px_localize X p | X p. (X, FDeleted p) \<in> set (er_recent S)}"
  using editor_runs.inv_reachable [OF assms] by (simp add: editor_inv_def said_files)

lemma reload_calls [simp]:
  "ReloadScene s \<in> set (reload_scene_files E) \<longleftrightarrow> s \<in> set (ed_open_scenes E) \<or> ed_current_scene E = Some s"
  "CloseScript s \<notin> set (reload_scene_files E)" "LoadScript s \<notin> set (reload_scene_files E)"
  "FullScan \<notin> set (reload_scene_files E)" "ScanSources \<notin> set (reload_scene_files E)"
  "ReloadOpenScripts \<notin> set (reload_scene_files E)" "ReloadProjectSettings \<notin> set (reload_scene_files E)"
  by (auto simp: reload_scene_files_def split: option.splits)

lemma close_files_calls [simp]:
  "ReloadScene s \<notin> set (close_files_if_open E ps)" "LoadScript s \<notin> set (close_files_if_open E ps)"
  "CloseScript s \<in> set (close_files_if_open E ps) \<longleftrightarrow> s \<in> set ps \<and> s \<notin> set (ed_open_scenes E) \<and> s \<in> ed_open_scripts E"
  "FullScan \<notin> set (close_files_if_open E ps)" "ScanSources \<notin> set (close_files_if_open E ps)"
  "ReloadOpenScripts \<notin> set (close_files_if_open E ps)" "ReloadProjectSettings \<notin> set (close_files_if_open E ps)"
  by (auto simp: close_files_if_open_def close_if_open_def)

text \<open>The scenes that are reloaded, in their order.\<close>

fun scene_reloads :: "editor_call list \<Rightarrow> string list" where
  "scene_reloads [] = []"
| "scene_reloads (ReloadScene s # cs) = s # scene_reloads cs"
| "scene_reloads (_ # cs) = scene_reloads cs"

lemma scene_reloads_append [simp]: "scene_reloads (cs @ cs') = scene_reloads cs @ scene_reloads cs'"
  by (induction cs rule: scene_reloads.induct) simp_all

lemma scene_reloads_none: "(\<And>s. ReloadScene s \<notin> set cs) \<Longrightarrow> scene_reloads cs = []"
  by (induction cs rule: scene_reloads.induct) auto

lemma scene_reloads_scenes [simp]: "scene_reloads (map ReloadScene ss) = ss" "scene_reloads (map LoadScript ss) = []"
  by (induction ss) simp_all

text \<open>The loop closes the right scenes when the current scene is not deleted or is the first open one that is.\<close>

definition current_closed_first :: "editor \<Rightarrow> string list \<Rightarrow> bool" where
  "current_closed_first E deleted \<longleftrightarrow>
     (case filter (\<lambda>p. p \<in> set (ed_open_scenes E)) deleted of [] \<Rightarrow> True | p # ps \<Rightarrow> ed_current_scene E \<notin> Some ` set ps)"

lemma editor_lawD:
  assumes "editor_law react"
  shows "ed_open_scripts (react c E) \<subseteq> ed_open_scripts E - {p. c = CloseScript p}"
    and "case c of
        CloseScene \<Rightarrow> set (ed_open_scenes (react c E)) = set (ed_open_scenes E) - set_option (ed_current_scene E)
      | OpenScene p \<Rightarrow> p \<in> set (ed_open_scenes E) \<longrightarrow>
          set (ed_open_scenes (react c E)) = set (ed_open_scenes E) \<and> ed_current_scene (react c E) = Some p
      | _ \<Rightarrow> ed_open_scenes (react c E) = ed_open_scenes E \<and> ed_current_scene (react c E) = ed_current_scene E"
  using assms unfolding editor_law_def by blast+

lemma react_scenes:
  assumes "editor_law react" and "\<And>c. c \<in> set cs \<Longrightarrow> c \<noteq> CloseScene \<and> (\<forall>p. c \<noteq> OpenScene p)"
  shows "ed_open_scenes (fold react cs E) = ed_open_scenes E \<and> ed_current_scene (fold react cs E) = ed_current_scene E"
  using assms(2)
proof (induction cs arbitrary: E)
  case (Cons c cs)
  have "ed_open_scenes (react c E) = ed_open_scenes E \<and> ed_current_scene (react c E) = ed_current_scene E"
    using Cons.prems [of c] editor_lawD(2) [OF assms(1), of c E] by (cases c) simp_all
  with Cons show ?case by simp
qed simp

lemma react_scripts:
  assumes "editor_law react"
  shows "ed_open_scripts (fold react cs E) \<subseteq> ed_open_scripts E - {p. CloseScript p \<in> set cs}"
proof (induction cs arbitrary: E)
  case (Cons c cs)
  have "ed_open_scripts (react c E) \<subseteq> ed_open_scripts E - {p. c = CloseScript p}"
    by (rule editor_lawD [OF assms])
  with Cons.IH [of "react c E"] show ?case by auto
qed simp

text \<open>Closing one deleted file, in an editor \<open>F\<close> in which it still is as the loop has seen it.\<close>

lemma react_close:
  assumes "editor_law react" and "p \<in> set (ed_open_scenes E) \<Longrightarrow> p \<in> set (ed_open_scenes F)"
    and "ed_current_scene E = Some p \<Longrightarrow> p \<in> set (ed_open_scenes E) \<Longrightarrow> ed_current_scene F = Some p"
  shows "set (ed_open_scenes (fold react (close_if_open E p) F)) = set (ed_open_scenes F) - ({p} \<inter> set (ed_open_scenes E))"
    and "p \<notin> set (ed_open_scenes E) \<Longrightarrow> ed_current_scene (fold react (close_if_open E p) F) = ed_current_scene F"
proof -
  have closed: "set (ed_open_scenes (react CloseScene G)) = set (ed_open_scenes G) - set_option (ed_current_scene G)" for G
    using editor_lawD(2) [OF assms(1), of CloseScene G] by simp
  have opened: "set (ed_open_scenes (react (OpenScene p) F)) = set (ed_open_scenes F) \<and> ed_current_scene (react (OpenScene p) F) = Some p"
    if "p \<in> set (ed_open_scenes F)"
    using editor_lawD(2) [OF assms(1), of "OpenScene p" F] that by simp
  have other: "ed_open_scenes (fold react cs F) = ed_open_scenes F \<and> ed_current_scene (fold react cs F) = ed_current_scene F"
    if "cs = [] \<or> cs = [CloseScript p]" for cs
    using react_scenes [OF assms(1), of cs F] that by auto
  show "set (ed_open_scenes (fold react (close_if_open E p) F)) = set (ed_open_scenes F) - ({p} \<inter> set (ed_open_scenes E))"
    using assms(2,3) closed opened other by (auto simp: close_if_open_def)
  show "ed_current_scene (fold react (close_if_open E p) F) = ed_current_scene F" if "p \<notin> set (ed_open_scenes E)"
    using that other by (auto simp: close_if_open_def)
qed

lemma react_close_files:
  assumes "editor_law react" and "distinct ps" and "set ps \<inter> set (ed_open_scenes E) \<subseteq> set (ed_open_scenes F)"
    and "ed_current_scene F = ed_current_scene E \<and> current_closed_first E ps \<or>
      ed_current_scene E \<notin> Some ` (set ps \<inter> set (ed_open_scenes E))"
  shows "set (ed_open_scenes (fold react (close_files_if_open E ps) F)) = set (ed_open_scenes F) - (set ps \<inter> set (ed_open_scenes E))"
  using assms(2-4)
proof (induction ps arbitrary: F)
  case (Cons p ps)
  let ?G = "fold react (close_if_open E p) F"
  have current: "ed_current_scene E = Some p \<Longrightarrow> p \<in> set (ed_open_scenes E) \<Longrightarrow> ed_current_scene F = Some p"
    using Cons.prems(3) by auto
  have open_p: "p \<in> set (ed_open_scenes E) \<Longrightarrow> p \<in> set (ed_open_scenes F)" using Cons.prems(2) by auto
  note close = react_close [OF assms(1) open_p current]
  have "set (ed_open_scenes (fold react (close_files_if_open E ps) ?G)) = set (ed_open_scenes ?G) - (set ps \<inter> set (ed_open_scenes E))"
  proof (rule Cons.IH)
    show "distinct ps" using Cons.prems(1) by simp
    show "set ps \<inter> set (ed_open_scenes E) \<subseteq> set (ed_open_scenes ?G)" using Cons.prems(1,2) close(1) by auto
    show "ed_current_scene ?G = ed_current_scene E \<and> current_closed_first E ps \<or>
        ed_current_scene E \<notin> Some ` (set ps \<inter> set (ed_open_scenes E))"
    proof (cases "p \<in> set (ed_open_scenes E)")
      case True
      with Cons.prems(3) show ?thesis by (auto simp: current_closed_first_def)
    next
      case False
      with Cons.prems(3) close(2) show ?thesis by (auto simp: current_closed_first_def)
    qed
  qed
  with close(1) show ?case by (auto simp: close_files_if_open_def)
qed (simp add: close_files_if_open_def)

text \<open>A successful update: what was called before the scenes are reloaded, and the editor then.\<close>

lemma update_ok:
  assumes "update_godot react E deleted scripts u = (True, u', calls)"
  obtains before where "calls = before @ reload_scene_files (fold react before E) @ [SetProcess True]"
    and "before = [SetProcess False] @ close_files_if_open E deleted @
       (if pu_reload_project_settings u \<and> ed_settings_callable E then [ReloadProjectSettings] else []) @
       (if pu_was_load_or_checkout u then FullScan # map LoadScript scripts else [ScanSources]) @ [ReloadOpenScripts]"
  using assms by (auto simp: update_godot_def Let_def split: if_splits)

lemma react_reload:
  assumes "editor_law react"
  shows "ed_open_scenes (fold react (reload_scene_files F @ [SetProcess True]) E) = ed_open_scenes E \<and>
    ed_current_scene (fold react (reload_scene_files F @ [SetProcess True]) E) = ed_current_scene E"
  by (rule react_scenes [OF assms]) (auto simp: reload_scene_files_def split: option.splits)

lemma update_reloads:
  assumes law: "editor_law react" and run: "update_godot react E deleted scripts u = (True, u', calls)"
  shows "scene_reloads calls = filter (\<lambda>s. ed_current_scene (fold react calls E) \<noteq> Some s) (ed_open_scenes (fold react calls E)) @
    (case ed_current_scene (fold react calls E) of None \<Rightarrow> [] | Some s \<Rightarrow> [s])"
proof -
  from update_ok [OF run] obtain before where calls: "calls = before @ reload_scene_files (fold react before E) @ [SetProcess True]"
    and before: "before = [SetProcess False] @ close_files_if_open E deleted @
       (if pu_reload_project_settings u \<and> ed_settings_callable E then [ReloadProjectSettings] else []) @
       (if pu_was_load_or_checkout u then FullScan # map LoadScript scripts else [ScanSources]) @ [ReloadOpenScripts]" .
  have "scene_reloads before = []" unfolding before by (rule scene_reloads_none) auto
  moreover note react_reload [OF law, of "fold react before E" "fold react before E"]
  ultimately show ?thesis unfolding calls by (simp add: reload_scene_files_def split: option.split)
qed

lemma update_closes:
  assumes law: "editor_law react" and run: "update_godot react E deleted scripts u = (True, u', calls)"
    and "distinct deleted" and "current_closed_first E deleted"
  shows "set (ed_open_scenes (fold react calls E)) = set (ed_open_scenes E) - set deleted"
proof -
  from update_ok [OF run] obtain before where calls: "calls = before @ reload_scene_files (fold react before E) @ [SetProcess True]"
    and before: "before = [SetProcess False] @ close_files_if_open E deleted @
       (if pu_reload_project_settings u \<and> ed_settings_callable E then [ReloadProjectSettings] else []) @
       (if pu_was_load_or_checkout u then FullScan # map LoadScript scripts else [ScanSources]) @ [ReloadOpenScripts]" .
  define rest where "rest = (if pu_reload_project_settings u \<and> ed_settings_callable E then [ReloadProjectSettings] else []) @
       (if pu_was_load_or_checkout u then FullScan # map LoadScript scripts else [ScanSources]) @ [ReloadOpenScripts]"
  have split: "before = [SetProcess False] @ close_files_if_open E deleted @ rest" by (simp add: before rest_def)
  have idle: "c \<noteq> CloseScene \<and> (\<forall>p. c \<noteq> OpenScene p)" if "c \<in> set rest" for c using that by (auto simp: rest_def split: if_splits)
  have first: "ed_open_scenes (react (SetProcess False) E) = ed_open_scenes E \<and> ed_current_scene (react (SetProcess False) E) = ed_current_scene E"
    using react_scenes [OF law, of "[SetProcess False]" E] by simp
  have "ed_open_scenes (fold react calls E) = ed_open_scenes (fold react before E)"
    unfolding calls using react_reload [OF law, of "fold react before E" "fold react before E"] by simp
  also have "\<dots> = ed_open_scenes (fold react (close_files_if_open E deleted) (react (SetProcess False) E))"
    unfolding split using react_scenes [OF law, of rest "fold react (close_files_if_open E deleted) (react (SetProcess False) E)", OF idle] by simp
  finally show ?thesis
    using react_close_files [OF law assms(3), of E "react (SetProcess False) E"] assms(4) first by auto
qed

lemma update_guard:
  assumes "update_godot react E deleted scripts u = (ok, u', calls)"
  shows "calls \<noteq> [] \<longleftrightarrow> any_changes u \<and> \<not> ed_scanning E \<and> \<not> ed_was_scanning E \<and> \<not> ed_importing E \<and>
      \<not> ed_unsaved_scripts E \<and> \<not> ed_unsaved_scenes E"
    and "ok \<longleftrightarrow> calls \<noteq> [] \<and> (pu_was_load_or_checkout u \<longrightarrow> ed_scan_ends E)"
    and "ok \<longrightarrow> u' = pu_none"
  using assms by (cases rule: update_cases; auto simp: safe_to_update_godot_def unsaved_files_open_def)+

lemma update_calls:
  assumes "update_godot react E deleted scripts u = (ok, u', calls)" and "calls \<noteq> []"
  shows "hd calls = SetProcess False" and "last calls = SetProcess True"
    and "FullScan \<in> set calls \<longleftrightarrow> pu_was_load_or_checkout u" and "ScanSources \<in> set calls \<longleftrightarrow> \<not> pu_was_load_or_checkout u"
    and "ReloadProjectSettings \<in> set calls \<longleftrightarrow> pu_reload_project_settings u \<and> ed_settings_callable E"
    and "{s. CloseScript s \<in> set calls} = (set deleted \<inter> ed_open_scripts E) - set (ed_open_scenes E)"
  using assms by (auto simp: update_godot_def Let_def split: if_splits)

lemma update_failed:
  assumes "update_godot react E deleted scripts u = (ok, u', calls)" and "\<not> ok"
  shows "scene_reloads calls = []" and "ReloadOpenScripts \<notin> set calls"
    and "u' = (if calls = [] then u else u\<lparr>pu_deleted_files := {}, pu_reload_project_settings := False\<rparr>)"
  using assms by (auto simp: update_godot_def Let_def scene_reloads_none split: if_splits)

lemma update_loads:
  assumes "update_godot react E deleted scripts u = (True, u', calls)"
  shows "{s. LoadScript s \<in> set calls} = (if pu_was_load_or_checkout u then set scripts else {})"
    and "\<exists>a b. calls = a @ (if pu_was_load_or_checkout u then FullScan # map LoadScript scripts else [ScanSources]) @ ReloadOpenScripts # b"
proof -
  show "{s. LoadScript s \<in> set calls} = (if pu_was_load_or_checkout u then set scripts else {})"
    using assms by (auto simp: update_godot_def Let_def split: if_splits)
  from update_ok [OF assms]
  show "\<exists>a b. calls = a @ (if pu_was_load_or_checkout u then FullScan # map LoadScript scripts else [ScanSources]) @ ReloadOpenScripts # b"
    by (metis append.assoc append_Cons append_Nil)
qed

text \<open>C35: The editor is touched exactly when something changed that it has to be told and it is idle with nothing unsaved. The
  update succeeds unless a full scan, which is made exactly after a load or checkout, takes too long; then nothing is reloaded. After a
  successful update nothing is pending, no deleted script is open any more, exactly the scenes that are open then have been reloaded, the
  current one last, and, when the current scene was not deleted or came first among the deleted ones, the open scenes are those of before without the
  deleted ones; every changed script has been loaded again after a full scan.\<close>

theorem update_is_complete:
  assumes "update_godot react E deleted scripts u = (ok, u', calls)" and "editor_law react"
    and "set deleted = pu_deleted_files u" and "distinct deleted" and "set scripts = pu_scripts_to_reload u"
  shows "(calls \<noteq> [] \<longleftrightarrow> any_changes u \<and> \<not> ed_scanning E \<and> \<not> ed_was_scanning E \<and> \<not> ed_importing E \<and>
      \<not> ed_unsaved_scripts E \<and> \<not> ed_unsaved_scenes E) \<and>
    (ok \<longleftrightarrow> calls \<noteq> [] \<and> (pu_was_load_or_checkout u \<longrightarrow> ed_scan_ends E)) \<and>
    (calls \<noteq> [] \<longrightarrow> hd calls = SetProcess False \<and> last calls = SetProcess True \<and>
      (FullScan \<in> set calls \<longleftrightarrow> pu_was_load_or_checkout u) \<and> (ScanSources \<in> set calls \<longleftrightarrow> \<not> pu_was_load_or_checkout u) \<and>
      (ReloadProjectSettings \<in> set calls \<longleftrightarrow> pu_reload_project_settings u \<and> ed_settings_callable E) \<and>
      {s. CloseScript s \<in> set calls} = (pu_deleted_files u \<inter> ed_open_scripts E) - set (ed_open_scenes E)) \<and>
    (\<not> ok \<longrightarrow> scene_reloads calls = [] \<and> ReloadOpenScripts \<notin> set calls \<and>
      u' = (if calls = [] then u else u\<lparr>pu_deleted_files := {}, pu_reload_project_settings := False\<rparr>)) \<and>
    (ok \<longrightarrow> u' = pu_none \<and>
      scene_reloads calls = filter (\<lambda>s. ed_current_scene (fold react calls E) \<noteq> Some s) (ed_open_scenes (fold react calls E)) @
        (case ed_current_scene (fold react calls E) of None \<Rightarrow> [] | Some s \<Rightarrow> [s]) \<and>
      (current_closed_first E deleted \<longrightarrow> set (ed_open_scenes (fold react calls E)) = set (ed_open_scenes E) - pu_deleted_files u) \<and>
      ed_open_scripts (fold react calls E) \<inter> (pu_deleted_files u - set (ed_open_scenes E)) = {} \<and>
      {s. LoadScript s \<in> set calls} = (if pu_was_load_or_checkout u then pu_scripts_to_reload u else {}) \<and>
      (\<exists>a b. calls = a @ (if pu_was_load_or_checkout u then FullScan # map LoadScript scripts else [ScanSources]) @ ReloadOpenScripts # b))"
  using update_guard [OF assms(1)] update_calls [OF assms(1)] update_failed [OF assms(1)] assms(1,3,5)
    update_loads [of react E deleted scripts u u' calls] update_reloads [OF assms(2), of E deleted scripts u u' calls]
    update_closes [OF assms(2) _ assms(4), of E scripts u u' calls] react_scripts [OF assms(2), of calls E]
  by (cases ok) auto

section \<open>Cases to know of\<close>

text \<open>\<open>any_changes\<close> does not look at the settings: when \<open>project.godot\<close> is all that changed, they are not reloaded until
  another file changes.\<close>

theorem settings_change_waits:
  assumes "map ascii_lower (path_extension path) = ''godot''"
  shows "pu_reload_project_settings (process_godot_updates X [FModified path content] b) \<and>
    update_godot react E deleted scripts (process_godot_updates X [FModified path content] b) =
      (False, process_godot_updates X [FModified path content] b, [])"
  using assms by (simp add: update_godot_def process_godot_updates_def file_touched_def any_changes_def added_or_deleted_files_def pu_none_def)

text \<open>A changed file without an import file that is no script, scene or setting, such as a resource, is not told to the
  editor at all.\<close>

theorem resource_change_untold:
  assumes "map ascii_lower (path_extension path) = ''tres''" and "\<not> px_exists X (set_extension path (path_extension path @ ''.import''))"
  shows "process_godot_updates X [FModified path content] False = pu_none"
  using assms by (simp add: process_godot_updates_def file_touched_def pu_none_def)

text \<open>After a full scan that timed out the deletions are forgotten: if there was nothing else, it is not tried again.\<close>

theorem timed_out_scan_not_repeated:
  assumes "safe_to_update_godot E" and "\<not> ed_scan_ends E" and "f \<in> pu_deleted_files u" and "pu_was_load_or_checkout u"
    and "\<not> any_changes (u\<lparr>pu_deleted_files := {}\<rparr>)"
  shows "\<exists>u' calls. update_godot react E deleted scripts u = (False, u', calls) \<and> calls \<noteq> [] \<and>
    (\<forall>E' deleted' scripts'. update_godot react E' deleted' scripts' u' = (False, u', []))"
  using assms by (auto simp: update_godot_def Let_def any_changes_def added_or_deleted_files_def)

text \<open>For a file without an extension the import file is looked for under a name with two dots.\<close>

lemma import_of_no_extension:
  "set_extension ''/a/foo'' (path_extension ''/a/foo'' @ ''.import'') = ''/a/foo..import''"
  "set_extension ''/a/foo.png'' (path_extension ''/a/foo.png'' @ ''.import'') = ''/a/foo.png.import''"
  by code_simp+

section \<open>An example\<close>

text \<open>An editor that turns to the scene that was opened last when the current one is closed.\<close>

definition demo_react :: "editor_call \<Rightarrow> editor \<Rightarrow> editor" where
  "demo_react c E =
     (case c of
        CloseScene \<Rightarrow>
          (let rest = filter (\<lambda>s. ed_current_scene E \<noteq> Some s) (ed_open_scenes E)
           in E\<lparr>ed_open_scenes := rest, ed_current_scene := (case rev rest of [] \<Rightarrow> None | s # _ \<Rightarrow> Some s)\<rparr>)
      | OpenScene p \<Rightarrow>
          E\<lparr>ed_open_scenes := (if p \<in> set (ed_open_scenes E) then ed_open_scenes E else ed_open_scenes E @ [p]), ed_current_scene := Some p\<rparr>
      | CloseScript p \<Rightarrow> E\<lparr>ed_open_scripts := ed_open_scripts E - {p}\<rparr>
      | _ \<Rightarrow> E)"

lemma demo_react_law: "editor_law demo_react"
  by (auto simp: editor_law_def demo_react_def Let_def split: editor_call.split)

definition demo_editor :: editor where
  "demo_editor = \<lparr>ed_scanning = False, ed_was_scanning = False, ed_importing = False, ed_unsaved_scripts = False,
     ed_unsaved_scenes = False, ed_settings_callable = True, ed_open_scenes = [''a'', ''b'', ''c''], ed_open_scripts = {''s'', ''t''},
     ed_current_scene = Some ''b'', ed_scan_ends = True\<rparr>"

lemmas demo_update_simps =
  update_godot_def any_changes_def added_or_deleted_files_def safe_to_update_godot_def unsaved_files_open_def demo_editor_def
  close_files_if_open_def close_if_open_def reload_scene_files_def demo_react_def pu_none_def

definition demo_paths :: path_io where
  "demo_paths = \<lparr>px_localize = id, px_exists = (\<lambda>_. False)\<rparr>"

text \<open>Which scene is the current one is read before the loop that closes the deleted files: when two open scenes were deleted
  and the current one is the second, another scene is closed in its place, and the deleted scene stays open and is reloaded.\<close>

theorem wrong_scene_closed:
  "fst (update_godot demo_react demo_editor [''a'', ''b''] [] (pu_none\<lparr>pu_deleted_files := {''a'', ''b''}\<rparr>)) \<and>
   ed_open_scenes (fold demo_react
     (snd (snd (update_godot demo_react demo_editor [''a'', ''b''] [] (pu_none\<lparr>pu_deleted_files := {''a'', ''b''}\<rparr>)))) demo_editor) = [''b'']"
  by (simp add: demo_update_simps)

theorem pending_since_update_witness:
  "pu_deleted_files (pu_merge ((process_godot_updates demo_paths [FDeleted ''s'', FCreated ''n'' (CString [])] True)\<lparr>pu_deleted_files := {}\<rparr>)
     (process_godot_updates demo_paths [FDeleted ''t''] False)) = {''t''}"
proof -
  let ?h = "[(demo_paths, FDeleted ''s''), (demo_paths, FCreated ''n'' (CString []))]"
  let ?u = "process_godot_updates demo_paths [FDeleted ''s'', FCreated ''n'' (CString [])] True"
  let ?v = "process_godot_updates demo_paths [FDeleted ''t''] False"
  let ?S = "\<lparr>er_pending = pu_none, er_events = [], er_recent = [], er_checkout = False\<rparr>"
  let ?T = "\<lparr>er_pending = ?u, er_events = ?h, er_recent = ?h, er_checkout = True\<rparr>"
  let ?U = "?T\<lparr>er_pending := ?u\<lparr>pu_deleted_files := {}\<rparr>, er_recent := []\<rparr>"
  let ?V = "\<lparr>er_pending = pu_merge (?u\<lparr>pu_deleted_files := {}\<rparr>) ?v, er_events = ?h @ [(demo_paths, FDeleted ''t'')],
     er_recent = [(demo_paths, FDeleted ''t'')], er_checkout = True\<rparr>"
  have S: "reachable editor_start editor_step ?S"
    by (rule reachable_init) (simp add: editor_start_def)
  have T: "editor_step ?S ?T"
    using editor_frame [of ?S demo_paths "[FDeleted ''s'', FCreated ''n'' (CString [])]" True] by (simp add: frame_pending_def)
  have ext: "path_extension ''n'' = []" by code_simp
  have u: "?u = pu_none\<lparr>pu_deleted_files := {''s''}, pu_added_files := {''n''}, pu_was_load_or_checkout := True\<rparr>"
    by (simp add: process_godot_updates_def file_touched_def ext demo_paths_def pu_none_def)
  have "\<exists>calls. update_godot demo_react (demo_editor\<lparr>ed_scan_ends := False\<rparr>) [''s''] [] ?u = (False, ?u\<lparr>pu_deleted_files := {}\<rparr>, calls) \<and> calls \<noteq> []"
    unfolding u by (simp add: demo_update_simps)
  then have U: "editor_step ?T ?U"
    using editor_timeout [of demo_react "demo_editor\<lparr>ed_scan_ends := False\<rparr>" "[''s'']" "[]" ?T "?u\<lparr>pu_deleted_files := {}\<rparr>"] by auto
  have V: "editor_step ?U ?V"
    using editor_frame [of ?U demo_paths "[FDeleted ''t'']" False] by (simp add: frame_pending_def)
  have "reachable editor_start editor_step ?V"
    by (rule reachable_step, rule reachable_step, rule reachable_step, rule S, rule T, rule U, rule V)
  from pending_since_update [OF this, THEN conjunct2, THEN conjunct2] show ?thesis by (simp add: demo_paths_def)
qed

theorem update_is_complete_witness:
  "let (ok, u, calls) = update_godot demo_react demo_editor [''b'', ''s'', ''a''] [''t'']
         (pu_none\<lparr>pu_deleted_files := {''a'', ''b'', ''s''}, pu_scripts_to_reload := {''t''}, pu_was_load_or_checkout := True\<rparr>)
   in ok \<and> set (ed_open_scenes (fold demo_react calls demo_editor)) = {''c''} \<and> scene_reloads calls = [''c''] \<and>
     {s. LoadScript s \<in> set calls} = {''t''}"
proof -
  let ?u = "pu_none\<lparr>pu_deleted_files := {''a'', ''b'', ''s''}, pu_scripts_to_reload := {''t''}, pu_was_load_or_checkout := True\<rparr>"
  obtain ok u' calls where run: "update_godot demo_react demo_editor [''b'', ''s'', ''a''] [''t''] ?u = (ok, u', calls)"
    by (metis prod_cases3)
  have "{''b'', ''s'', ''a''} = {''a'', ''b'', ''s''}" by auto
  with update_is_complete [OF run demo_react_law]
  have "ok" "set (ed_open_scenes (fold demo_react calls demo_editor)) = {''c''}" "{s. LoadScript s \<in> set calls} = {''t''}"
    by (auto simp: demo_editor_def current_closed_first_def any_changes_def pu_none_def)
  moreover have "scene_reloads calls = [''c'']" using run by (auto simp: demo_update_simps)
  ultimately show ?thesis by (simp add: run)
qed

end
