(* ===== verification/Editor_Project.thy ===== *)
theory Editor_Project imports Editor_Update begin

text \<open>
  \<open>GodotProject\<close> of \<open>godot_project.rs\<close>: the node that the scripts of the editor talk to. Its calls check what the scripts
  pass, ask the project of \<open>Project_Api\<close> and turn the answer into values of Godot; its frames run the project, collect
  what the editor has to be told (\<open>Editor_Update\<close>), and emit signals.

  The lock around the project is only held within a call. Calls that only hand on their arguments are left out.
  Emitted signals are deferred by Godot; they are the list of a frame's calls.
\<close>

section \<open>Frames\<close>

record ('d, 'doc, 'h, 'x) godot_project =
  gp_project :: "('d, 'doc, 'h, 'x, diff list) project"
  gp_pending :: pending_update
  gp_deferred_start :: int
  gp_was_scanning :: bool
  gp_settings_callable :: bool

definition godot_project_new :: "('d, 'doc, 'h, 'x, diff list) project \<Rightarrow> ('d, 'doc, 'h, 'x) godot_project" where
  "godot_project_new P = \<lparr>gp_project = P, gp_pending = pu_none, gp_deferred_start = -1, gp_was_scanning = False, gp_settings_callable = False\<rparr>"

datatype ('g, 'u) node_call =
    EmitSignal string "'g gd_value list"
  | SaveAll
  | SpawnStart create_mode "'u option"

definition get_project_doc_id ::
  "('s, 'doc, 'h, 'v, 'o, 'd, 'x, 'u) api_env \<Rightarrow> ('d, 'doc, 'h, 'x, 'p) project \<Rightarrow> 'd option \<times> ('d, 'doc, 'h, 'x, 'p) project" where
  "get_project_doc_id A P = with_config (project_doc_id (ae_io A) (ae_toml A) (ae_config A)) P"

text \<open>Without the editor's methods for reloading, entering the tree is a panic.\<close>

definition enter_tree ::
  "('s, 'doc, 'h, 'v, 'o, 'd, 'x, 'u) api_env \<Rightarrow> bool \<Rightarrow> ('d, 'doc, 'h, 'x) godot_project \<Rightarrow>
   ('e, ('g, 'u) node_call list \<times> ('d, 'doc, 'h, 'x) godot_project) outcome" where
  "enter_tree A callables S =
     (if \<not> callables then Inl Panic
      else case get_project_doc_id A (gp_project S) of
             (None, P) \<Rightarrow> Inr ([], S\<lparr>gp_settings_callable := True, gp_project := P\<rparr>)
           | (Some _, P) \<Rightarrow> Inr ([SaveAll], S\<lparr>gp_settings_callable := True, gp_project := P, gp_deferred_start := 3\<rparr>))"

definition exit_tree :: "('d, 'doc, 'h, 'x) godot_project \<Rightarrow> ('d, 'doc, 'h, 'x) godot_project" where
  "exit_tree S = (if has_project (gp_project S) then S\<lparr>gp_project := stop (gp_project S)\<rparr> else S)"

definition physics_process :: "editor \<Rightarrow> ('d, 'doc, 'h, 'x) godot_project \<Rightarrow> ('d, 'doc, 'h, 'x) godot_project" where
  "physics_process E S = S\<lparr>gp_was_scanning := ed_scanning E\<rparr>"

fun signal_call :: "(('d, 'h) start_error \<Rightarrow> string) \<Rightarrow> ('u \<Rightarrow> string) \<Rightarrow> ('d, 'h, 'u) godot_signal \<Rightarrow> ('g, 'u) node_call list" where
  "signal_call show_error show_url ChangesIngested = [EmitSignal ''state_changed'' []]"
| "signal_call show_error show_url SyncStatusChanged = [EmitSignal ''sync_status_changed'' []]"
| "signal_call show_error show_url BranchCheckedOut = []"
| "signal_call show_error show_url (StartStatusChanged status) =
     [EmitSignal ''start_status_changed'' [GDict (start_status_to_godot show_error status)]]"
| "signal_call show_error show_url (AuthStatusChanged status) =
     [EmitSignal ''auth_status_changed'' [GDict (auth_status_to_godot show_url status)]]"
| "signal_call show_error show_url ServerStatusChanged = [EmitSignal ''server_status_changed'' []]"

text \<open>The frame in which a deferred start ends: the project is loaded, as by the user but automatically.\<close>

definition deferred_load ::
  "('s, 'doc, 'h, 'v, 'o, 'd, 'x, 'u) api_env \<Rightarrow> ('d, 'doc, 'h, 'x, diff list) project \<Rightarrow>
   ('g, 'u) node_call list \<times> ('d, 'doc, 'h, 'x, diff list) project" where
  "deferred_load A P =
     (case get_project_doc_id A P of
        (None, P) \<Rightarrow> ([], P)
      | (Some i, P) \<Rightarrow>
          let (server, P) = get_saved_server A P;
              (spawned, P) = api_load_project A i server True P
          in (case spawned of None \<Rightarrow> [] | Some (mode, url) \<Rightarrow> [SpawnStart mode url], P))"

definition godot_process ::
  "('s, 'doc, 'h, 'v, 'o, 'd, 'x, 'u) api_env \<Rightarrow> (('d, 'h) start_error \<Rightarrow> string) \<Rightarrow> path_io \<Rightarrow> editor \<Rightarrow>
   ('d, 'doc, 'h, 'x, 'u) frame \<Rightarrow> ('d, 'doc, 'h, 'x) godot_project \<Rightarrow>
   ('g, 'u) node_call list \<times> ('d, 'doc, 'h, 'x) godot_project" where
  "godot_process A show_error X E I S =
     (if gp_deferred_start S > 0
      then (let S = S\<lparr>gp_deferred_start := gp_deferred_start S - 1\<rparr>
            in if gp_deferred_start S = 0
               then (let (calls, P) = deferred_load A (gp_project S) in (calls, S\<lparr>gp_project := P\<rparr>))
               else ([], S))
      else (let safe = safe_to_update_godot (E\<lparr>ed_was_scanning := gp_was_scanning S\<rparr>);
                ((updates, signals), P) = process (ae_io A) (ae_toml A) (ae_config A) safe I (gp_project S)
            in (concat (map (signal_call show_error (co_show_url (ae_config A))) signals),
                S\<lparr>gp_project := P, gp_pending := frame_pending X updates (BranchCheckedOut \<in> set signals) (gp_pending S)\<rparr>)))"

section \<open>Calls of the scripts\<close>

definition server_arg :: "string \<Rightarrow> string option" where
  "server_arg server = (if server = [] then None else Some server)"

definition gd_change_server ::
  "('s, 'doc, 'h, 'v, 'o, 'd, 'x, 'u) api_env \<Rightarrow> string \<Rightarrow> ('d, 'doc, 'h, 'x, 'p) project \<Rightarrow>
   'u option option \<times> ('d, 'doc, 'h, 'x, 'p) project" where
  "gd_change_server A server P = change_server A (server_arg server) P"

definition gd_validate_server :: "('s, 'doc, 'h, 'v, 'o, 'd, 'x, 'u) api_env \<Rightarrow> string \<Rightarrow> 'g gd_value" where
  "gd_validate_server A server = gd_option (map_option GStr (validate_server A server))"

definition gd_ping_server ::
  "('s, 'doc, 'h, 'v, 'o, 'd, 'x, 'u) api_env \<Rightarrow> string \<Rightarrow> bool \<Rightarrow> 'u server_manager \<Rightarrow> 'g gd_value \<times> 'u option" where
  "gd_ping_server A server retry M = map_prod (\<lambda>status. GDict (server_status_to_godot status)) id (ping_server A server retry M)"

definition gd_get_project_id :: "('s, 'doc, 'h, 'v, 'o, 'd, 'x, 'u) api_env \<Rightarrow> ('d, 'doc, 'h, 'x, 'p) project \<Rightarrow> string" where
  "gd_get_project_id A P = (case get_project_id P of None \<Rightarrow> [] | Some i \<Rightarrow> show_doc (ae_ids A) i)"

definition gd_new_project ::
  "('s, 'doc, 'h, 'v, 'o, 'd, 'x, 'u) api_env \<Rightarrow> string \<Rightarrow> ('d, 'doc, 'h, 'x, 'p) project \<Rightarrow> (create_mode \<times> 'u option) option" where
  "gd_new_project A server P = new_project A (server_arg server) P"

text \<open>An id that cannot be read is reported as a failed start, with the message of the parser.\<close>

definition gd_load_project ::
  "('s, 'doc, 'h, 'v, 'o, 'd, 'x, 'u) api_env \<Rightarrow> (string \<Rightarrow> string) \<Rightarrow> string \<Rightarrow> string \<Rightarrow> ('d, 'doc, 'h, 'x, 'p) project \<Rightarrow>
   ('g, 'u) node_call list \<times> ('d, 'doc, 'h, 'x, 'p) project" where
  "gd_load_project A id_error i server P =
     (case parse_doc (ae_ids A) i of
        None \<Rightarrow> ([EmitSignal ''start_status_changed'' [GDict [(''status'', GStr ''failed''), (''error'', GStr (id_error i))]]], P)
      | Some i \<Rightarrow>
          (case api_load_project A i (server_arg server) False P of
             (None, P) \<Rightarrow> ([], P) | (Some (mode, url), P) \<Rightarrow> ([SpawnStart mode url], P)))"

definition branch_to_variant :: "('d, 'h) id_io \<Rightarrow> ('d, 'h) branch_wrapper option \<Rightarrow> 'g gd_value" where
  "branch_to_variant io branch = gd_option (map_option (\<lambda>b. GDict (branch_view_model_to_dict io b)) branch)"

definition gd_get_branch ::
  "('s, 'doc, 'h, 'v, 'o, 'd, 'x, 'u) api_env \<Rightarrow> nat \<Rightarrow> string \<Rightarrow> ('d, 'doc, 'h, 'x, 'p) project \<Rightarrow> 'g gd_value option" where
  "gd_get_branch A fuel i P =
     (case parse_doc (ae_ids A) i of
        None \<Rightarrow> Some GNil | Some i \<Rightarrow> map_option (branch_to_variant (ae_ids A)) (get_branch A fuel i P))"

definition gd_get_main_branch ::
  "('s, 'doc, 'h, 'v, 'o, 'd, 'x, 'u) api_env \<Rightarrow> nat \<Rightarrow> ('d, 'doc, 'h, 'x, 'p) project \<Rightarrow> 'g gd_value option" where
  "gd_get_main_branch A fuel P = map_option (branch_to_variant (ae_ids A)) (get_main_branch_view A fuel P)"

definition gd_get_checked_out_branch ::
  "('s, 'doc, 'h, 'v, 'o, 'd, 'x, 'u) api_env \<Rightarrow> nat \<Rightarrow> ('d, 'doc, 'h, 'x, 'p) project \<Rightarrow> 'g gd_value option" where
  "gd_get_checked_out_branch A fuel P = map_option (branch_to_variant (ae_ids A)) (get_checked_out_branch A fuel P)"

definition gd_is_branch_loaded ::
  "('s, 'doc, 'h, 'v, 'o, 'd, 'x, 'u) api_env \<Rightarrow> string \<Rightarrow> ('d, 'doc, 'h, 'x, 'p) project \<Rightarrow> bool" where
  "gd_is_branch_loaded A i P = (case parse_doc (ae_ids A) i of None \<Rightarrow> False | Some i \<Rightarrow> api_is_branch_loaded A i P)"

definition gd_checkout_branch ::
  "('s, 'doc, 'h, 'v, 'o, 'd, 'x, 'u) api_env \<Rightarrow> string \<Rightarrow> (('d, 'doc, 'h, 'x, 'p) project, ('d, 'h) db_error, unit) run" where
  "gd_checkout_branch A i = (case parse_doc (ae_ids A) i of None \<Rightarrow> sret () | Some i \<Rightarrow> checkout_branch i)"

datatype gd_error = GdOk | ErrInvalidData | ErrCantCreate | ErrBug | ErrInvalidParameter

fun merge_error_code :: "('d, 'h) create_merge_error \<Rightarrow> gd_error" where
  "merge_error_code MergeNoCheckedOutBranch = ErrInvalidData"
| "merge_error_code NoChangesToMerge = ErrCantCreate"
| "merge_error_code _ = ErrBug"

fun revert_error_code :: "('d, 'h) create_revert_error \<Rightarrow> gd_error" where
  "revert_error_code RevertNoCheckedOutBranch = ErrInvalidData"
| "revert_error_code NoChangesToRevert = ErrCantCreate"
| "revert_error_code _ = ErrBug"

text \<open>The code of an operation's result: every error of it is turned into a code.\<close>

definition result_code :: "('e \<Rightarrow> gd_error) \<Rightarrow> ('s, 'e, unit) run \<Rightarrow> ('s, 'f, gd_error) run" where
  "result_code code m = sbind (stry m) (\<lambda>r. sret (case r of Inl e \<Rightarrow> code e | Inr _ \<Rightarrow> GdOk))"

definition gd_create_merge_preview ::
  "('s, 'doc, 'h::linorder, 'v, 'o, 'd, 'x, 'u) api_env \<Rightarrow> (('d, 'doc, 'h, 'x, 'p) project, 'f, gd_error) run" where
  "gd_create_merge_preview A = result_code merge_error_code (create_merge_preview A)"

definition gd_can_create_revert_preview ::
  "('s, 'doc, 'h, 'v, 'o, 'd, 'x, 'u) api_env \<Rightarrow> string \<Rightarrow> ('d, 'doc, 'h, 'x, 'p) project \<Rightarrow> bool" where
  "gd_can_create_revert_preview A head P =
     (case parse_hash (ae_ids A) head of None \<Rightarrow> False | Some h \<Rightarrow> can_create_revert_preview h P)"

definition gd_create_revert_preview ::
  "('s, 'doc, 'h::linorder, 'v, 'o, 'd, 'x, 'u) api_env \<Rightarrow> string \<Rightarrow> (('d, 'doc, 'h, 'x, 'p) project, 'f, gd_error) run" where
  "gd_create_revert_preview A head =
     (case parse_hash (ae_ids A) head of
        None \<Rightarrow> sret ErrInvalidParameter | Some h \<Rightarrow> result_code revert_error_code (create_revert_preview A h))"

definition gd_get_branch_history :: "('s, 'doc, 'h, 'v, 'o, 'd, 'x, 'u) api_env \<Rightarrow> ('d, 'doc, 'h, 'x, 'p) project \<Rightarrow> 'g gd_value" where
  "gd_get_branch_history A P = GStrs (map (show_hash (ae_ids A)) (get_branch_history P))"

definition gd_get_change ::
  "('s, 'doc, 'h, 'v, 'o, 'd, 'x, 'u) api_env \<Rightarrow> (int \<Rightarrow> string) \<Rightarrow> string \<Rightarrow> ('d, 'doc, 'h, 'x, 'p) project \<Rightarrow> 'g gd_value" where
  "gd_get_change A exact_time hash P =
     gd_option (Option.bind (parse_hash (ae_ids A) hash) (\<lambda>h.
       map_option (\<lambda>c. GDict (change_view_model_to_dict (ae_ids A) exact_time (ae_human_time A) c)) (get_change h P)))"

text \<open>A difference that is not there is nil; its error is logged.\<close>

definition diff_or_nil ::
  "'g godot_engine \<Rightarrow> (('d, 'doc, 'h, 'x, diff list) project, request_diff_error, diff list diff_wrapper) run \<Rightarrow>
   (('d, 'doc, 'h, 'x, diff list) project, 'f, 'g gd_value) run" where
  "diff_or_nil G m =
     sbind (stry m) (\<lambda>r. sret (case r of Inl _ \<Rightarrow> GNil | Inr d \<Rightarrow> GDict (diff_view_model_to_dict G d)))"

definition gd_try_get_diff ::
  "('s, 'doc, 'h::linorder, 'v, 'o, 'd, 'x, 'u) api_env \<Rightarrow> 'g godot_engine \<Rightarrow> bool \<Rightarrow> string \<Rightarrow>
   (('d, 'doc, 'h, 'x, diff list) project, 'f, 'g gd_value) run" where
  "gd_try_get_diff A G checks hash =
     (case parse_hash (ae_ids A) hash of None \<Rightarrow> sret GNil | Some h \<Rightarrow> diff_or_nil G (try_get_diff A checks h))"

definition gd_try_get_default_diff ::
  "('s, 'doc, 'h::linorder, 'v, 'o, 'd, 'x, 'u) api_env \<Rightarrow> 'g godot_engine \<Rightarrow> nat \<Rightarrow>
   (('d, 'doc, 'h, 'x, diff list) project, 'f, 'g gd_value) run" where
  "gd_try_get_default_diff A G fuel = diff_or_nil G (try_get_default_diff A fuel)"

text \<open>A reference that cannot be shown is a panic of \<open>to_string\<close>.\<close>

definition get_current_ref_string :: "('s, 'doc, 'h, 'v, 'o, 'd, 'x, 'u) api_env \<Rightarrow> ('d, 'doc, 'h, 'x, 'p) project \<Rightarrow> ('e, string) outcome" where
  "get_current_ref_string A P =
     (case get_current_ref P of
        None \<Rightarrow> Inr []
      | Some r \<Rightarrow> (case history_ref_fmt (ae_ids A) r of Inl _ \<Rightarrow> Inl Panic | Inr s \<Rightarrow> Inr s))"

end
