(* ===== verification/Fake_Importers.thy ===== *)
theory Fake_Importers imports Editor_Update begin

text \<open>
  \<open>fake_importers.rs\<close> of \<open>backstitch_godot\<close>: what Godot's importers would make of an old version of a file. Which
  importer takes a file, how images are read and cut into slices, and what becomes of temporary files.

  Images and resources are the types \<open>'i\<close> and \<open>'r\<close>; the calls of Godot and of the operating system are the record
  \<open>import_io\<close>, and values of Godot are of type \<open>'v\<close>. How a glTF document becomes a scene and a list of images a texture
  in space is Godot's.
\<close>

section \<open>The importers\<close>

datatype importer =
    Texture | LayeredTexture | Mp3 | OggVorbis | Wav | BMFont | DynamicFont | ImageFont | Svg | Obj | SceneFile | TextureAtlas

definition image_extensions :: "string list" where
  "image_extensions = [''png'', ''jpg'', ''jpeg'', ''webp'', ''tga'', ''svg'', ''bmp'', ''dds'', ''hdr'', ''exr'']"

definition font_extensions :: "string list" where
  "font_extensions = [''ttf'', ''ttc'', ''otf'', ''otc'', ''woff'', ''woff2'', ''pfb'', ''pfm'']"

definition scene_extensions :: "string list" where
  "scene_extensions = [''escn'', ''glb'', ''gltf'', ''fbx'', ''blend'', ''dae'']"

fun recognized_importers :: "importer \<Rightarrow> string list" where
  "recognized_importers Texture = [''texture'']"
| "recognized_importers LayeredTexture = [''cubemap_texture'', ''2d_array_texture'', ''cubemap_array_texture'', ''3d_texture'']"
| "recognized_importers Mp3 = [''mp3'']"
| "recognized_importers OggVorbis = [''oggvorbisstr'']"
| "recognized_importers Wav = [''wav'']"
| "recognized_importers BMFont = [''font_data_bmfont'']"
| "recognized_importers DynamicFont = [''font_data_dynamic'']"
| "recognized_importers ImageFont = [''font_data_image'']"
| "recognized_importers Svg = [''svg'']"
| "recognized_importers Obj = [''wavefront_obj'']"
| "recognized_importers SceneFile = [''scene'', ''animation_library'']"
| "recognized_importers TextureAtlas = [''texture_atlas'']"

fun recognized_extensions :: "importer \<Rightarrow> string list" where
  "recognized_extensions Texture = image_extensions"
| "recognized_extensions LayeredTexture = image_extensions"
| "recognized_extensions Mp3 = [''mp3'']"
| "recognized_extensions OggVorbis = [''ogg'']"
| "recognized_extensions Wav = [''wav'']"
| "recognized_extensions BMFont = [''fnt'', ''font'']"
| "recognized_extensions DynamicFont = font_extensions"
| "recognized_extensions ImageFont = font_extensions"
| "recognized_extensions Svg = [''svg'']"
| "recognized_extensions Obj = [''obj'']"
| "recognized_extensions SceneFile = scene_extensions"
| "recognized_extensions TextureAtlas = [''texture_atlas'']"

text \<open>The lower case of an extension is the library's; it is given for the extensions of the files.\<close>

definition get_extension :: "(string \<Rightarrow> string) \<Rightarrow> string \<Rightarrow> string" where
  "get_extension lower path = lower (path_extension path)"

definition recognize :: "(string \<Rightarrow> string) \<Rightarrow> string \<Rightarrow> string option \<Rightarrow> importer \<Rightarrow> bool" where
  "recognize lower path importer_name im =
     (case importer_name of
        Some name \<Rightarrow> name \<in> set (recognized_importers im)
      | None \<Rightarrow>
          (case im of
             Texture \<Rightarrow> get_extension lower path \<noteq> ''svg'' \<and> get_extension lower path \<in> set (recognized_extensions Texture)
           | LayeredTexture \<Rightarrow> False
           | ImageFont \<Rightarrow> False
           | _ \<Rightarrow> get_extension lower path \<in> set (recognized_extensions im)))"

definition importers :: "importer list" where
  "importers = [Texture, LayeredTexture, Mp3, OggVorbis, Wav, BMFont, DynamicFont, ImageFont, Svg, Obj, SceneFile, TextureAtlas]"

definition fake_recognize :: "(string \<Rightarrow> string) \<Rightarrow> string \<Rightarrow> string option \<Rightarrow> bool" where
  "fake_recognize lower path importer_name \<longleftrightarrow> (\<exists>im\<in>set importers. recognize lower path importer_name im)"

section \<open>Images\<close>

datatype import_error = ErrUnavailable | ErrInvalidParam | ErrCantCreateFile | ErrCantOpen | ErrCantAcquire | ErrGodot nat

datatype image_format = Png | Jpg | Bmp | Webp | Tga | Ktx | Dds | SvgImage

fun buffer_format :: "string \<Rightarrow> image_format option" where
  "buffer_format e =
     (if e = ''png'' then Some Png else if e = ''jpg'' then Some Jpg else if e = ''bmp'' then Some Bmp
      else if e = ''webp'' then Some Webp else if e = ''tga'' then Some Tga else if e = ''ktx'' then Some Ktx
      else if e = ''dds'' then Some Dds else if e = ''svg'' then Some SvgImage else None)"

text \<open>What a parameter is taken to be if it is not there or of another type.\<close>

datatype setting_default = DBool bool | DInt int | DFloat int | DFonts | DDict

record ('i, 'r, 'p, 'v) import_io =
  im_lower :: "string \<Rightarrow> string"
  im_temp :: "string \<Rightarrow> string"                                          \<comment> \<open>the temporary directory joined with a name\<close>
  im_uuid :: string
  im_create :: "string \<Rightarrow> bool"
  im_write_all :: "string \<Rightarrow> bool"
  im_buffer :: "image_format \<Rightarrow> string \<Rightarrow> 'p \<Rightarrow> nat + 'i"                    \<comment> \<open>an image or a code\<close>
  im_image_file :: "(string \<Rightarrow> string option) \<Rightarrow> string \<Rightarrow> 'i option"
  im_size :: "'i \<Rightarrow> int \<times> int"
  im_region :: "'i \<Rightarrow> int \<times> int \<Rightarrow> int \<times> int \<Rightarrow> 'i option"
  im_texture :: "'i \<Rightarrow> 'r option"
  im_layered :: "string \<Rightarrow> 'i list \<Rightarrow> nat + 'r"
  im_3d :: "'i \<Rightarrow> int \<times> int \<times> int \<Rightarrow> 'p \<Rightarrow> 'i list \<Rightarrow> nat + 'r"
  im_of_image :: "'i \<Rightarrow> 'r"
  im_param :: "'p \<Rightarrow> string \<Rightarrow> 'v option"
  im_relaxed :: "setting_default \<Rightarrow> 'v \<Rightarrow> 'v option"                    \<comment> \<open>converted to the type of the default\<close>
  im_default :: "setting_default \<Rightarrow> 'v"
  im_as_int :: "'v \<Rightarrow> int"
  im_is_ord :: "string \<Rightarrow> int \<Rightarrow> bool"                                  \<comment> \<open>of an enumeration of Godot\<close>
  im_set :: "string \<Rightarrow> 'v \<Rightarrow> 'r \<Rightarrow> 'r"
  im_no_scale :: 'p
  im_scene_file :: "(string \<Rightarrow> string option) \<Rightarrow> string \<Rightarrow> 'r option"
  im_gltf :: "bool \<Rightarrow> string \<Rightarrow> string \<Rightarrow> import_error + 'r"
  im_utf8 :: "string \<Rightarrow> string option"
  im_decode :: "importer \<Rightarrow> string \<Rightarrow> 'r option"                        \<comment> \<open>from a buffer, or the text of an SVG file\<close>
  im_font :: "bool \<Rightarrow> (string \<Rightarrow> string option) \<Rightarrow> string \<Rightarrow> nat + 'r"    \<comment> \<open>a bitmap font or a dynamic one\<close>

definition get_or_default :: "('i, 'r, 'p, 'v) import_io \<Rightarrow> 'p \<Rightarrow> string \<Rightarrow> setting_default \<Rightarrow> 'v" where
  "get_or_default M params key d =
     (case im_param M params key of
        None \<Rightarrow> im_default M d
      | Some v \<Rightarrow> (case im_relaxed M d v of None \<Rightarrow> im_default M d | Some v \<Rightarrow> v))"

definition int_param :: "('i, 'r, 'p, 'v) import_io \<Rightarrow> 'p \<Rightarrow> string \<Rightarrow> int \<Rightarrow> int" where
  "int_param M params key d = im_as_int M (get_or_default M params key (DInt d))"

text \<open>The files of the operating system. Creating a file empties it; a failed write leaves it.\<close>

type_synonym ('a) file_run = "((string \<Rightarrow> string option), import_error, 'a) run"

definition temp_path :: "('i, 'r, 'p, 'v) import_io \<Rightarrow> string \<Rightarrow> string \<Rightarrow> string" where
  "temp_path M old_path override_ext =
     (let path = (case strip_prefix old_path ''res://'' of None \<Rightarrow> old_path | Some p \<Rightarrow> p);
          basename = (case path_file_name path of None \<Rightarrow> ''file_name'' | Some n \<Rightarrow> fst (split_name n))
      in im_temp M (''backstitch_'' @ basename @ ''_'' @ im_uuid M @ ''.'' @ override_ext))"

definition write_temp_file :: "('i, 'r, 'p, 'v) import_io \<Rightarrow> string \<Rightarrow> string \<Rightarrow> unit file_run" where
  "write_temp_file M path content fs =
     (if \<not> im_create M path then (Inl (Err ErrCantCreateFile), fs)
      else if \<not> im_write_all M path then (Inl (Err ErrCantCreateFile), fs(path \<mapsto> []))
      else (Inr (), fs(path \<mapsto> content)))"

definition remove_temp_file :: "string \<Rightarrow> unit file_run" where
  "remove_temp_file path = smodify (\<lambda>fs. fs(path := None))"

definition load_image_from_buffer :: "('i, 'r, 'p, 'v) import_io \<Rightarrow> string \<Rightarrow> string \<Rightarrow> 'p \<Rightarrow> 'i file_run" where
  "load_image_from_buffer M path content scale =
     (case buffer_format (get_extension (im_lower M) path) of
        Some f \<Rightarrow> (case im_buffer M f content scale of Inl code \<Rightarrow> sfail (Err (ErrGodot code)) | Inr img \<Rightarrow> sret img)
      | None \<Rightarrow>
          sbind (if starts_with path ''patchwork/'' \<or> path = ''patchwork''
                 then (let temp = temp_path M path ''png''
                       in sbind (write_temp_file M temp content) (\<lambda>_.
                          sbind (sgets (\<lambda>fs. Inr (im_image_file M fs temp))) (\<lambda>res.
                          sbind (remove_temp_file temp) (\<lambda>_. sret res))))
                 else sgets (\<lambda>fs. Inr (im_image_file M fs path)))
            (\<lambda>res. case res of None \<Rightarrow> sfail (Err ErrCantOpen) | Some img \<Rightarrow> sret img))"

section \<open>Layered textures\<close>

definition slice_arrangement :: "('i, 'r, 'p, 'v) import_io \<Rightarrow> 'p \<Rightarrow> int \<times> int" where
  "slice_arrangement M params =
     (let layout = int_param M params ''slices/arrangement'' 1
      in if layout = 0 then (1, 6) else if layout = 1 then (2, 3) else if layout = 2 then (3, 2)
         else if layout = 3 then (6, 1) else (2, 3))"

text \<open>Numbers are 32 bits wide; the products wrap around in a release build.\<close>

definition wrap32 :: "int \<Rightarrow> int" where
  "wrap32 i = sint (word_of_int i :: 32 word)"

definition slice_counts :: "('i, 'r, 'p, 'v) import_io \<Rightarrow> string \<Rightarrow> 'p \<Rightarrow> int \<times> int" where
  "slice_counts M importer_name params =
     (if importer_name = ''cubemap_texture'' then slice_arrangement M params
      else if importer_name = ''2d_array_texture'' \<or> importer_name = ''3d_texture''
      then (int_param M params ''slices/horizontal'' 1, int_param M params ''slices/vertical'' 1)
      else if importer_name = ''cubemap_array_texture''
      then (let (hslices, vslices) = slice_arrangement M params;
                layout = int_param M params ''slices/layout'' 1;
                amount = int_param M params ''slices/amount'' 1
            in if layout = 0 then (wrap32 (hslices * amount), vslices) else (hslices, wrap32 (vslices * amount)))
      else (1, 1))"

text \<open>Division by zero is a panic, and so is the one quotient that does not fit.\<close>

definition div32 :: "int \<Rightarrow> int \<Rightarrow> ('e, int) outcome" where
  "div32 a b = (if b = 0 \<or> (a = - (2 ^ 31) \<and> b = -1) then Inl Panic else Inr (sgn a * sgn b * (\<bar>a\<bar> div \<bar>b\<bar>)))"

fun regions :: "('i, 'r, 'p, 'v) import_io \<Rightarrow> 'i \<Rightarrow> int \<Rightarrow> int \<Rightarrow> (int \<times> int) list \<Rightarrow> (import_error, 'i list) outcome" where
  "regions M img w h [] = Inr []"
| "regions M img w h ((i, j) # ps) =
     (case im_region M img (wrap32 (j * w), wrap32 (i * h)) (w, h) of
        None \<Rightarrow> Inl (Err ErrInvalidParam)
      | Some part \<Rightarrow> rbind (regions M img w h ps) (\<lambda>slices. Inr (part # slices)))"

definition grid :: "int \<Rightarrow> int \<Rightarrow> (int \<times> int) list" where
  "grid x y = concat (map (\<lambda>i. map (\<lambda>j. (i, j)) [0..x - 1]) [0..y - 1])"

definition image_slices :: "('i, 'r, 'p, 'v) import_io \<Rightarrow> 'i \<Rightarrow> int \<Rightarrow> int \<Rightarrow> (import_error, 'i list) outcome" where
  "image_slices M img x y =
     rbind (div32 (fst (im_size M img)) x) (\<lambda>slice_w.
     rbind (div32 (snd (im_size M img)) y) (\<lambda>slice_h. regions M img slice_w slice_h (grid x y)))"

definition godot_result :: "nat + 'r \<Rightarrow> (import_error, 'r) outcome" where
  "godot_result r = (case r of Inl code \<Rightarrow> Inl (Err (ErrGodot code)) | Inr x \<Rightarrow> Inr x)"

definition layered_texture :: "('i, 'r, 'p, 'v) import_io \<Rightarrow> string \<Rightarrow> 'i \<Rightarrow> 'p \<Rightarrow> (import_error, 'r) outcome" where
  "layered_texture M importer_name img params =
     (let (x, y) = slice_counts M importer_name params
      in rbind (image_slices M img x y) (\<lambda>slices.
         if importer_name = ''3d_texture''
         then rbind (div32 (fst (im_size M img)) x) (\<lambda>width.
              rbind (div32 (snd (im_size M img)) y) (\<lambda>height.
              godot_result (im_3d M img (width, height, wrap32 (x * y)) params slices)))
         else if importer_name \<in> {''cubemap_texture'', ''2d_array_texture'', ''cube_array_texture''}
         then godot_result (im_layered M importer_name slices)
         else Inl (Err ErrInvalidParam)))"

section \<open>Importing a file\<close>

definition lift_result :: "(import_error, 'a) outcome \<Rightarrow> 'a file_run" where
  "lift_result r = sgets (\<lambda>_. r)"

definition import_scene :: "('i, 'r, 'p, 'v) import_io \<Rightarrow> string \<Rightarrow> string \<Rightarrow> 'r file_run" where
  "import_scene M path content =
     (let e = path_extension path
      in if e = ''escn''
         then (let temp = temp_path M path ''tscn''
               in sbind (write_temp_file M temp content) (\<lambda>_.
                  sbind (sgets (\<lambda>fs. Inr (im_scene_file M fs temp))) (\<lambda>res.
                  case res of None \<Rightarrow> sfail (Err ErrCantAcquire) | Some r \<Rightarrow> sret r)))
         else if e \<in> {''glb'', ''gltf'', ''fbx''}
         then lift_result (case im_gltf M (e = ''fbx'') path content of Inl err \<Rightarrow> Inl (Err err) | Inr r \<Rightarrow> Inr r)
         else sfail (Err ErrUnavailable))"

text \<open>Setters are called in their order; one that takes an enumeration gets a fallback if the number is none of it.\<close>

definition set_param :: "('i, 'r, 'p, 'v) import_io \<Rightarrow> 'p \<Rightarrow> string \<Rightarrow> string \<Rightarrow> setting_default \<Rightarrow> 'r \<Rightarrow> 'r" where
  "set_param M params setter key d = im_set M setter (get_or_default M params key d)"

definition set_enum :: "('i, 'r, 'p, 'v) import_io \<Rightarrow> string \<Rightarrow> string \<Rightarrow> int \<Rightarrow> int \<Rightarrow> 'r \<Rightarrow> 'r" where
  "set_enum M setter enum i fallback = im_set M setter (im_default M (DInt (if im_is_ord M enum i then i else fallback)))"

definition apply_all :: "('r \<Rightarrow> 'r) list \<Rightarrow> 'r \<Rightarrow> 'r" where
  "apply_all fs r = fold (\<lambda>f. f) fs r"

definition decoded :: "('i, 'r, 'p, 'v) import_io \<Rightarrow> importer \<Rightarrow> string \<Rightarrow> ('r \<Rightarrow> 'r) list \<Rightarrow> (import_error, 'r) outcome" where
  "decoded M im content settings =
     (case im_decode M im content of None \<Rightarrow> Inl (Err ErrInvalidParam) | Some r \<Rightarrow> Inr (apply_all settings r))"

definition stream_settings :: "('i, 'r, 'p, 'v) import_io \<Rightarrow> 'p \<Rightarrow> ('r \<Rightarrow> 'r) list" where
  "stream_settings M params =
     [set_param M params ''set_loop'' ''loop'' (DBool False), set_param M params ''set_loop_offset'' ''loop_offset'' (DFloat 0),
      set_param M params ''set_bpm'' ''bpm'' (DFloat 0), set_param M params ''set_beat_count'' ''beat_count'' (DInt 0),
      set_param M params ''set_bar_beats'' ''bar_beats'' (DInt 4)]"

text \<open>The modes of the importer have one more before those of the stream.\<close>

definition wav_settings :: "('i, 'r, 'p, 'v) import_io \<Rightarrow> 'p \<Rightarrow> ('r \<Rightarrow> 'r) list" where
  "wav_settings M params =
     (let mode = int_param M params ''loop_mode'' 0
      in (if mode > 0 then [set_enum M ''set_loop_mode'' ''LoopMode'' (mode - 1) 0] else []) @
         [set_param M params ''set_loop_begin'' ''loop_begin'' (DInt 0), set_param M params ''set_loop_end'' ''loop_end'' (DInt (-1))])"

definition bmfont_settings :: "('i, 'r, 'p, 'v) import_io \<Rightarrow> 'p \<Rightarrow> ('r \<Rightarrow> 'r) list" where
  "bmfont_settings M params =
     [im_set M ''set_allow_system_fallback'' (im_default M (DBool False)), set_param M params ''set_fallbacks'' ''fallbacks'' DFonts,
      set_enum M ''set_fixed_size_scale_mode'' ''FixedSizeScaleMode'' (int_param M params ''scaling_mode'' 2) 2]"

definition font_settings :: "('i, 'r, 'p, 'v) import_io \<Rightarrow> 'p \<Rightarrow> ('r \<Rightarrow> 'r) list" where
  "font_settings M params =
     [set_enum M ''set_antialiasing'' ''FontAntialiasing'' (int_param M params ''antialiasing'' 0) 0,
      set_param M params ''set_disable_embedded_bitmaps'' ''disable_embedded_bitmaps'' (DBool False),
      set_param M params ''set_generate_mipmaps'' ''generate_mipmaps'' (DBool False),
      set_param M params ''set_multichannel_signed_distance_field'' ''multichannel_signed_distance_field'' (DBool False),
      set_param M params ''set_msdf_pixel_range'' ''msdf_pixel_range'' (DInt 0),
      set_param M params ''set_msdf_size'' ''msdf_size'' (DInt 0),
      set_param M params ''set_opentype_feature_overrides'' ''opentype_features'' DDict,
      set_param M params ''set_force_autohinter'' ''force_autohinter'' (DBool False),
      set_param M params ''set_modulate_color_glyphs'' ''modulate_color_glyphs'' (DBool False),
      set_param M params ''set_allow_system_fallback'' ''allow_system_fallback'' (DBool False),
      set_enum M ''set_hinting'' ''Hinting'' (int_param M params ''hinting'' 0) 0,
      set_enum M ''set_subpixel_positioning'' ''SubpixelPositioning'' (int_param M params ''subpixel_positioning'' 0) 0,
      set_param M params ''set_keep_rounding_remainders'' ''keep_rounding_remainders'' (DBool False),
      set_param M params ''set_oversampling'' ''oversampling'' (DFloat 0),
      set_param M params ''set_fallbacks'' ''fallbacks'' DFonts]"

definition svg_settings :: "('i, 'r, 'p, 'v) import_io \<Rightarrow> 'p \<Rightarrow> ('r \<Rightarrow> 'r) list" where
  "svg_settings M params =
     [set_param M params ''set_base_scale'' ''base_scale'' (DFloat 1), set_param M params ''set_saturation'' ''saturation'' (DFloat 1),
      set_param M params ''set_color_map'' ''color_map'' DDict,
      set_param M params ''set_fix_alpha_border'' ''fix_alpha_border'' (DBool False),
      set_param M params ''set_premult_alpha'' ''premult_alpha'' (DBool False)]"

definition font_from_buffer :: "('i, 'r, 'p, 'v) import_io \<Rightarrow> bool \<Rightarrow> string \<Rightarrow> string \<Rightarrow> 'r file_run" where
  "font_from_buffer M bitmap path content =
     (let temp = temp_path M path ''font''
      in sbind (write_temp_file M temp content) (\<lambda>_.
         sbind (sgets (\<lambda>fs. Inr (im_font M bitmap fs temp))) (\<lambda>res.
         sbind (remove_temp_file temp) (\<lambda>_. lift_result (godot_result res)))))"

fun import_with :: "('i, 'r, 'p, 'v) import_io \<Rightarrow> importer \<Rightarrow> string \<Rightarrow> string \<Rightarrow> string \<Rightarrow> 'p \<Rightarrow> 'r file_run" where
  "import_with M Texture path name content params =
     sbind (load_image_from_buffer M path content params) (\<lambda>img.
       case im_texture M img of None \<Rightarrow> sfail (Err ErrInvalidParam) | Some r \<Rightarrow> sret r)"
| "import_with M LayeredTexture path name content params =
     sbind (load_image_from_buffer M path content (im_no_scale M)) (\<lambda>img. lift_result (layered_texture M name img params))"
| "import_with M ImageFont path name content params =
     sbind (load_image_from_buffer M path content (im_no_scale M)) (\<lambda>img. sret (im_of_image M img))"
| "import_with M SceneFile path name content params = import_scene M path content"
| "import_with M Obj path name content params = sfail (Err ErrUnavailable)"
| "import_with M TextureAtlas path name content params = sfail (Err ErrUnavailable)"
| "import_with M Mp3 path name content params = lift_result (decoded M Mp3 content (stream_settings M params))"
| "import_with M OggVorbis path name content params = lift_result (decoded M OggVorbis content (stream_settings M params))"
| "import_with M Wav path name content params = lift_result (decoded M Wav content (wav_settings M params))"
| "import_with M Svg path name content params =
     lift_result (decoded M Svg (case im_utf8 M content of None \<Rightarrow> [] | Some text \<Rightarrow> text) (svg_settings M params))"
| "import_with M BMFont path name content params =
     sbind (font_from_buffer M True path content) (\<lambda>r. sret (apply_all (bmfont_settings M params) r))"
| "import_with M DynamicFont path name content params =
     sbind (font_from_buffer M False path content) (\<lambda>r. sret (apply_all (font_settings M params) r))"

definition import_file :: "('i, 'r, 'p, 'v) import_io \<Rightarrow> string \<Rightarrow> string option \<Rightarrow> string \<Rightarrow> 'p \<Rightarrow> 'r file_run" where
  "import_file M path importer_name content params =
     (case List.find (recognize (im_lower M) path importer_name) importers of
        None \<Rightarrow> sfail (Err ErrCantCreateFile)
      | Some im \<Rightarrow>
          import_with M im path (case importer_name of Some n \<Rightarrow> n | None \<Rightarrow> hd (recognized_importers im)) content params)"

section \<open>Which importer\<close>

text \<open>An importer's name is taken by at most one importer, and so is an extension: the order of the list does not matter.\<close>

definition importer_of_name :: "string \<Rightarrow> importer option" where
  "importer_of_name name = map_of
     [(''texture'', Texture), (''cubemap_texture'', LayeredTexture), (''2d_array_texture'', LayeredTexture),
      (''cubemap_array_texture'', LayeredTexture), (''3d_texture'', LayeredTexture), (''mp3'', Mp3), (''oggvorbisstr'', OggVorbis),
      (''wav'', Wav), (''font_data_bmfont'', BMFont), (''font_data_dynamic'', DynamicFont), (''font_data_image'', ImageFont),
      (''svg'', Svg), (''wavefront_obj'', Obj), (''scene'', SceneFile), (''animation_library'', SceneFile),
      (''texture_atlas'', TextureAtlas)] name"

definition importer_of_extension :: "string \<Rightarrow> importer option" where
  "importer_of_extension e = map_of
     ([(''svg'', Svg), (''mp3'', Mp3), (''ogg'', OggVorbis), (''wav'', Wav), (''fnt'', BMFont), (''font'', BMFont), (''obj'', Obj),
       (''texture_atlas'', TextureAtlas)] @
      map (\<lambda>e. (e, Texture)) image_extensions @ map (\<lambda>e. (e, DynamicFont)) font_extensions @
      map (\<lambda>e. (e, SceneFile)) scene_extensions) e"

lemma all_importers [simp]: "im \<in> set importers"
  by (cases im) (simp_all add: importers_def)

lemma name_table: "list_all (\<lambda>im. list_all (\<lambda>name. importer_of_name name = Some im) (recognized_importers im)) importers"
  by code_simp

lemma extension_table:
  "list_all (\<lambda>im. im = LayeredTexture \<or> im = ImageFont \<or>
     list_all (\<lambda>e. (im = Texture \<and> e = ''svg'') \<or> importer_of_extension e = Some im) (recognized_extensions im)) importers"
  by code_simp

lemma name_importer: "name \<in> set (recognized_importers im) \<Longrightarrow> importer_of_name name = Some im"
  using name_table by (auto simp: list_all_iff)

lemma extension_importer: "recognize lower path None im \<Longrightarrow> importer_of_extension (get_extension lower path) = Some im"
  using extension_table [unfolded list_all_iff, rule_format, of im]
  by (cases im) (auto simp: recognize_def simp del: recognized_extensions.simps)

lemma recognize_unique:
  assumes "recognize lower path importer_name im" and "recognize lower path importer_name im'"
  shows "im = im'"
proof (cases importer_name)
  case None
  with assms extension_importer [of lower path im] extension_importer [of lower path im'] show ?thesis by simp
next
  case (Some name)
  with assms have "name \<in> set (recognized_importers im)" "name \<in> set (recognized_importers im')"
    by (simp_all add: recognize_def)
  from name_importer [OF this(1)] name_importer [OF this(2)] show ?thesis by simp
qed

lemma find_importer:
  "recognize lower path importer_name im \<Longrightarrow> List.find (recognize lower path importer_name) importers = Some im"
proof -
  assume im: "recognize lower path importer_name im"
  show ?thesis
  proof (cases "List.find (recognize lower path importer_name) importers")
    case None
    with im show ?thesis by (auto simp: find_None_iff)
  next
    case (Some v)
    then have "recognize lower path importer_name v" by (auto simp: find_Some_iff)
    with Some recognize_unique [OF this im] show ?thesis by simp
  qed
qed

section \<open>Slices\<close>

lemma regions_length: "regions M img w h ps = Inr slices \<Longrightarrow> length slices = length ps"
  by (induction M img w h ps arbitrary: slices rule: regions.induct) (auto simp: rbind_eq_Inr_iff split: option.splits)

lemma grid_length: "length (grid x y) = nat x * nat y"
proof -
  have "map (length \<circ> (\<lambda>i. map (\<lambda>j. (i, j)) [0..x - 1])) [0..y - 1] = replicate (nat y) (nat x)"
    by (simp add: comp_def map_replicate_const)
  then show ?thesis by (simp add: grid_def length_concat sum_list_replicate)
qed

text \<open>An image that is cut gives one slice for each cell of the grid, and a cube map is always cut into six.\<close>

theorem slices_exact:
  assumes "image_slices M img x y = Inr slices"
  shows "length slices = nat x * nat y \<and>
    (slice_counts M ''cubemap_texture'' params = (x, y) \<longrightarrow> length slices = 6)"
proof -
  have len: "length slices = nat x * nat y"
    using assms by (auto simp: image_slices_def rbind_eq_Inr_iff grid_length dest: regions_length)
  moreover have "nat x * nat y = 6" if "slice_counts M ''cubemap_texture'' params = (x, y)"
    using that by (auto simp: slice_counts_def slice_arrangement_def Let_def split: if_splits)
  ultimately show ?thesis by simp
qed

section \<open>Cases to know of\<close>

text \<open>The importer of arrays of cube maps is known under one name and asked for under another: it never gives a
  resource.\<close>

theorem cubemap_arrays_fail: "layered_texture M ''cubemap_array_texture'' img params \<noteq> Inr r"
  by (auto simp: layered_texture_def Let_def rbind_eq_Inr_iff split: prod.split)

text \<open>No slices in a row or in a column is a panic.\<close>

theorem no_slices_panic: "image_slices M img 0 y = Inl Panic"
  by (simp add: image_slices_def div32_def)

text \<open>Images of three extensions that are recognized have no reader for their content: they are read from a file of the
  name under which the old version is loaded, which is no file. The prefix under which a temporary file would be
  used is not the one that paths of the history have.\<close>

theorem unread_images:
  assumes "get_extension (im_lower M) path \<in> {''jpeg'', ''hdr'', ''exr''}" and "starts_with path ''backstitch''"
    and "im_image_file M fs path = None"
  shows "get_extension (im_lower M) path \<in> set (recognized_extensions Texture) \<and>
    load_image_from_buffer M path content scale fs = (Inl (Err ErrCantOpen), fs)"
proof -
  have "\<not> starts_with path ''patchwork/''" "path \<noteq> ''patchwork''"
    using assms(2) by (cases path; auto simp: starts_with_def)+
  with assms(1,3) show ?thesis
    by (auto simp: load_image_from_buffer_def image_extensions_def sbind_def)
qed

text \<open>Sounds, fonts and SVG files leave no file behind, unless a write fails half-way.\<close>

theorem import_leaves_no_file:
  assumes "im \<in> {Mp3, OggVorbis, Wav, Svg, BMFont, DynamicFont}" and "fs (temp_path M path ''font'') = None"
    and "im_create M (temp_path M path ''font'') \<longrightarrow> im_write_all M (temp_path M path ''font'')"
  shows "snd (import_with M im path name content params fs) = fs"
  using assms
  by (auto simp: font_from_buffer_def lift_result_def Let_def sbind_def write_temp_file_def remove_temp_file_def fun_upd_idem
      split: sum.split)

text \<open>A scene in a temporary file leaves the file behind.\<close>

theorem scene_file_stays:
  assumes "path_extension path = ''escn''" and "im_create M (temp_path M path ''tscn'')" and "im_write_all M (temp_path M path ''tscn'')"
  shows "snd (import_scene M path content fs) (temp_path M path ''tscn'') = Some content"
  using assms by (simp add: import_scene_def write_temp_file_def Let_def sbind_def split: option.split)

end
