(* ===== verification/Resource_Loader.thy ===== *)
theory Resource_Loader imports Fake_Importers begin

text \<open>
  \<open>backstitch_resource_loader.rs\<close> of \<open>backstitch_godot\<close>: resources of Godot from the history of the project, by
  paths such as \<open>backstitch-<document>+<heads>-res://<path>\<close>.

  A load works on the files of the operating system, in which it leaves a temporary file for Godot's own loader.
  What that loader, the importers' settings and the classes of Godot give is in the record \<open>load_io\<close>, with the
  importers of \<open>Fake_Importers\<close> in \<open>import_io\<close>. A resource is of type \<open>'r\<close>. The lock of the project is
  never held over another call.
\<close>

section \<open>Contents of old versions\<close>

datatype content_error = FileUnrecognized | FileNotFound | CannotCreate

type_synonym ('s, 'doc, 'h, 'v, 'o, 'd, 'x, 'u, 'p) history =
  "('s, 'doc, 'h, 'v, 'o, 'd, 'x, 'u) api_env \<times> ('d, 'doc, 'h, 'x, 'p) project"

text \<open>A panic or a wait in the project is one of the caller.\<close>

definition history_content ::
  "('s, 'doc, 'h, 'v, 'o, 'd, 'x, 'u, 'p) history \<Rightarrow> ('d, 'h) history_ref_path \<Rightarrow> (content_error, file_content) outcome" where
  "history_content H p =
     rbind (get_file_at_ref (fst H) (hp_path p) (hp_ref p) (snd H)) (\<lambda>content. ok_or (Err FileNotFound) content)"

definition history_content_str ::
  "('s, 'doc, 'h, 'v, 'o, 'd, 'x, 'u, 'p) history \<Rightarrow> string \<Rightarrow> (content_error, file_content) outcome" where
  "history_content_str H s =
     (case history_ref_path_from_str (ae_ids (fst H)) s of
        Inl (Err _) \<Rightarrow> Inl (Err FileUnrecognized) | Inl Panic \<Rightarrow> Inl Panic | Inl Diverges \<Rightarrow> Inl Diverges
      | Inr p \<Rightarrow> history_content H p)"

definition import_path :: "('d, 'h) history_ref_path \<Rightarrow> string" where
  "import_path p = hp_path p @ ''.import''"

text \<open>The content of a file with that of its import file, which is taken from the checked out reference when the old
  one has none.\<close>

definition content_and_import ::
  "('s, 'doc, 'h, 'v, 'o, 'd, 'x, 'u, 'p) history \<Rightarrow> ('d, 'h) history_ref_path \<Rightarrow>
   (content_error, file_content \<times> file_content option) outcome" where
  "content_and_import H p =
     rbind (api_get_files_at_ref (fst H) (hp_ref p) [hp_path p, import_path p] (snd H)) (\<lambda>contents.
     rbind (ok_or (Err FileNotFound) contents) (\<lambda>contents.
     rbind (ok_or (Err FileNotFound) (hm_get contents (hp_path p))) (\<lambda>content.
     case hm_get contents (import_path p) of
       Some i \<Rightarrow> Inr (content, Some i)
     | None \<Rightarrow>
         (case get_current_ref (snd H) of
            None \<Rightarrow> Inr (content, None)
          | Some r \<Rightarrow> rbind (get_file_at_ref (fst H) (import_path p) r (snd H)) (\<lambda>i. Inr (content, i))))))"

section \<open>What the loader says of a path\<close>

definition loader_recognize_path :: "('s, 'doc, 'h, 'v, 'o, 'd, 'x, 'u, 'p) history \<Rightarrow> string \<Rightarrow> ('e, bool) outcome" where
  "loader_recognize_path H path =
     (case history_ref_path_from_str (ae_ids (fst H)) path of
        Inl (Err _) \<Rightarrow> Inr False | Inl Panic \<Rightarrow> Inl Panic | Inl Diverges \<Rightarrow> Inl Diverges
      | Inr p \<Rightarrow>
          (case content_and_import H p of
             Inl (Err _) \<Rightarrow> Inr False | Inl Panic \<Rightarrow> Inl Panic | Inl Diverges \<Rightarrow> Inl Diverges
           | Inr (_, import_content) \<Rightarrow> Inr (import_content \<noteq> None)))"

text \<open>A query on the content of a path that answers with a default when there is none.\<close>

definition content_or :: "'a \<Rightarrow> (content_error, file_content) outcome \<Rightarrow> (file_content \<Rightarrow> 'a) \<Rightarrow> ('e, 'a) outcome" where
  "content_or d content f =
     (case content of Inl (Err _) \<Rightarrow> Inr d | Inl Panic \<Rightarrow> Inl Panic | Inl Diverges \<Rightarrow> Inl Diverges | Inr c \<Rightarrow> Inr (f c))"

definition resource_types :: "(string \<times> string) list" where
  "resource_types =
     [(''scn'', ''PackedScene''), (''tscn'', ''PackedScene''), (''gd'', ''GDScript''), (''cs'', ''CSharpScript''),
      (''txt'', ''TextFile''), (''md'', ''MarkdownFile''), (''cfg'', ''ConfigFile''), (''ini'', ''IniFile''),
      (''log'', ''LogFile''), (''json'', ''JsonFile''), (''yml'', ''YamlFile''), (''yaml'', ''YamlFile'')]"

text \<open>The extension \<open>e\<close> of a path is Godot's, in lower case.\<close>

definition get_resource_type :: "('s, 'doc, 'h, 'v, 'o, 'd, 'x, 'u, 'p) history \<Rightarrow> (string \<Rightarrow> string) \<Rightarrow> string \<Rightarrow> ('e, string) outcome" where
  "get_resource_type H extension path =
     (case map_of resource_types (extension path) of
        Some t \<Rightarrow> Inr t
      | None \<Rightarrow>
          if extension path \<noteq> ''tres'' then Inr []
          else content_or [] (history_content_str H path) (\<lambda>c. case c of CScene scn \<Rightarrow> gs_resource_type scn | _ \<Rightarrow> []))"

definition get_resource_script_class :: "('s, 'doc, 'h, 'v, 'o, 'd, 'x, 'u, 'p) history \<Rightarrow> string \<Rightarrow> ('e, string) outcome" where
  "get_resource_script_class H path =
     content_or [] (history_content_str H path)
       (\<lambda>c. case c of CScene scn \<Rightarrow> (case gs_script_class scn of None \<Rightarrow> [] | Some s \<Rightarrow> s) | _ \<Rightarrow> [])"

definition get_resource_uid ::
  "('s, 'doc, 'h, 'v, 'o, 'd, 'x, 'u, 'p) history \<Rightarrow> (string \<Rightarrow> string) \<Rightarrow> (string \<Rightarrow> int) \<Rightarrow> string \<Rightarrow> ('e, int) outcome" where
  "get_resource_uid H extension text_to_id path =
     (case history_ref_path_from_str (ae_ids (fst H)) path of
        Inl (Err _) \<Rightarrow> Inr (-1) | Inl Panic \<Rightarrow> Inl Panic | Inl Diverges \<Rightarrow> Inl Diverges
      | Inr p \<Rightarrow>
          if extension path \<in> {''gd'', ''cs'', ''gdextension''}
          then content_or (-1) (history_content H (p\<lparr>hp_path := hp_path p @ ''.uid''\<rparr>))
                 (\<lambda>c. case c of CString s \<Rightarrow> text_to_id s | _ \<Rightarrow> -1)
          else content_or (-1) (history_content H p) (\<lambda>c. case c of CScene scn \<Rightarrow> text_to_id (gs_uid scn) | _ \<Rightarrow> -1))"

definition get_dependencies :: "('s, 'doc, 'h, 'v, 'o, 'd, 'x, 'u, 'p) history \<Rightarrow> string \<Rightarrow> ('e, string list) outcome" where
  "get_dependencies H path =
     content_or [] (history_content_str H path)
       (\<lambda>c. case c of CScene scn \<Rightarrow> map (\<lambda>(_, r). er_path r) (gs_ext_resources scn) | _ \<Rightarrow> [])"

section \<open>Loading\<close>

datatype cache_mode = Ignore | Reuse | Replace | IgnoreDeep | ReplaceDeep

fun cache_mode_of :: "int \<Rightarrow> cache_mode" where
  "cache_mode_of i =
     (if i = 1 then Reuse else if i = 2 then Replace else if i = 3 then IgnoreDeep else if i = 4 then ReplaceDeep else Ignore)"

datatype path_setting = SetPathCache | TakeOverPath | SetPath

fun set_resource_path :: "cache_mode \<Rightarrow> path_setting" where
  "set_resource_path Ignore = SetPathCache"
| "set_resource_path IgnoreDeep = SetPathCache"
| "set_resource_path Replace = TakeOverPath"
| "set_resource_path ReplaceDeep = TakeOverPath"
| "set_resource_path Reuse = SetPath"

fun sub_cache_mode :: "cache_mode \<Rightarrow> cache_mode" where
  "sub_cache_mode IgnoreDeep = IgnoreDeep"
| "sub_cache_mode Replace = Replace"
| "sub_cache_mode ReplaceDeep = ReplaceDeep"
| "sub_cache_mode _ = Ignore"

record ('r, 'q) load_io =
  le_extensions :: "string list"
  le_parse_import :: "string \<Rightarrow> string \<times> 'q"                    \<comment> \<open>the importer and its parameters\<close>
  le_no_params :: 'q
  le_text_file :: "string \<Rightarrow> 'r option"
  le_empty :: 'r                                              \<comment> \<open>a new resource, the default\<close>
  le_simplify :: "string \<Rightarrow> string"
  le_load :: "(string \<Rightarrow> string option) \<Rightarrow> string \<Rightarrow> cache_mode \<Rightarrow> 'r option"
  le_set_path :: "path_setting \<Rightarrow> string \<Rightarrow> 'r \<Rightarrow> 'r"

text \<open>\<open>Path::extension\<close>, with the default of the temporary file.\<close>

definition loader_temp_path :: "('i, 'r, 'q, 'v) import_io \<Rightarrow> ('d, 'h) history_ref_path \<Rightarrow> string" where
  "loader_temp_path M p =
     (let path = (case strip_prefix (hp_path p) ''res://'' of None \<Rightarrow> hp_path p | Some q \<Rightarrow> q);
          e = (case Option.bind (path_file_name path) (\<lambda>name. snd (split_name name)) of None \<Rightarrow> ''res'' | Some e \<Rightarrow> e)
      in im_temp M (''backstitch_'' @ im_uuid M @ ''.'' @ e))"

text \<open>The bytes for the temporary file: the external resources of a scene are those of the same reference.\<close>

definition temp_content :: "('d, 'h) id_io \<Rightarrow> file_content \<Rightarrow> ('d, 'h) history_ref \<Rightarrow> (unit, string) outcome" where
  "temp_content io content r =
     (case content of
        CString text \<Rightarrow> Inr text
      | CBinary bytes \<Rightarrow> Inr bytes
      | CScene scene \<Rightarrow> serialize_with_ext_resource_override io scene (Some r) True)"

text \<open>\<open>None\<close> is the nil that the loader returns after an error, which is logged.\<close>

definition load_from_temp ::
  "('i, 'r, 'q, 'v) import_io \<Rightarrow> ('r, 'q) load_io \<Rightarrow> ('d, 'h) id_io \<Rightarrow> ('d, 'h) history_ref_path \<Rightarrow> file_content \<Rightarrow>
   string \<Rightarrow> cache_mode \<Rightarrow> 'r option file_run" where
  "load_from_temp M L io p content path cache_mode =
     (case temp_content io content (hp_ref p) of
        Inl Diverges \<Rightarrow> sfail Diverges
      | Inl _ \<Rightarrow> sfail Panic
      | Inr bytes \<Rightarrow>
          let temp = loader_temp_path M p
          in sbind (stry (write_temp_file M temp bytes)) (\<lambda>written.
             case written of
               Inl _ \<Rightarrow> sret None
             | Inr _ \<Rightarrow>
                 sbind (sgets (\<lambda>fs. Inr (le_load L fs (le_simplify L temp) (sub_cache_mode cache_mode)))) (\<lambda>loaded.
                 sbind (remove_temp_file temp) (\<lambda>_.
                 sret (map_option (le_set_path L (set_resource_path cache_mode) path) loaded)))))"

definition load_imported ::
  "('i, 'r, 'q, 'v) import_io \<Rightarrow> ('r, 'q) load_io \<Rightarrow> ('d, 'h) id_io \<Rightarrow> ('d, 'h) history_ref_path \<Rightarrow> string option \<Rightarrow> 'q \<Rightarrow>
   file_content \<Rightarrow> string \<Rightarrow> cache_mode \<Rightarrow> 'r option file_run" where
  "load_imported M L io p importer params content path cache_mode =
     (case content of
        CScene _ \<Rightarrow> sret None
      | _ \<Rightarrow>
          let bytes = (case content of CString t \<Rightarrow> t | CBinary b \<Rightarrow> b | CScene _ \<Rightarrow> [])
          in (case make_path_string io (hp_ref p) (hp_path p) of
                Inl _ \<Rightarrow> sfail Panic
              | Inr full_path \<Rightarrow>
                  sbind (stry (import_file M full_path importer bytes params)) (\<lambda>resource.
                  case resource of
                    Inr r \<Rightarrow> sret (Some (le_set_path L (set_resource_path cache_mode) path r))
                  | Inl _ \<Rightarrow>
                      (case content of
                         CString text \<Rightarrow> sret (Some (case le_text_file L text of None \<Rightarrow> le_empty L | Some r \<Rightarrow> r))
                       | _ \<Rightarrow> sret None))))"

definition loader_load ::
  "('i, 'r, 'q, 'v) import_io \<Rightarrow> ('r, 'q) load_io \<Rightarrow> ('s, 'doc, 'h, 'v, 'o, 'd, 'x, 'u, 'p) history \<Rightarrow> bool \<Rightarrow>
   string \<Rightarrow> string \<Rightarrow> int \<Rightarrow> 'r option file_run" where
  "loader_load M L H checks path original_path cache_mode_ord =
     (if checks \<and> original_path \<noteq> path then sfail Panic
      else (case history_ref_path_from_str (ae_ids (fst H)) path of
        Inl (Err _) \<Rightarrow> sret None | Inl Panic \<Rightarrow> sfail Panic | Inl Diverges \<Rightarrow> sfail Diverges
      | Inr p \<Rightarrow>
          (case content_and_import H p of
             Inl (Err _) \<Rightarrow> sret None | Inl Panic \<Rightarrow> sfail Panic | Inl Diverges \<Rightarrow> sfail Diverges
           | Inr (content, import_content) \<Rightarrow>
               let cache_mode = cache_mode_of cache_mode_ord;
                   (importer, params) = (case import_content of
                       Some (CString text) \<Rightarrow> (let (importer, params) = le_parse_import L text in (Some importer, params))
                     | _ \<Rightarrow> (None, le_no_params L));
                   maybe_import = (import_content \<noteq> None \<or>
                     (get_extension (im_lower M) (hp_path p) \<notin> set (le_extensions L) \<and> (\<forall>scn. content \<noteq> CScene scn)))
               in if maybe_import \<and> fake_recognize (im_lower M) (hp_path p) importer
                  then load_imported M L (ae_ids (fst H)) p importer params content path cache_mode
                  else load_from_temp M L (ae_ids (fst H)) p content path cache_mode)))"

section \<open>The version that was asked for\<close>

lemma files_at_ref_good:
  assumes "pj_driver P = Some driver" and "good_ref (de_db (ae_driver A)) r v files (pd_states (dr_db driver))" and "paths \<noteq> []"
  shows "\<exists>cs. api_get_files_at_ref A r paths P = Inr (Some cs) \<and>
    (\<forall>p. hm_get cs p = (if p \<in> set paths then content_of (de_db (ae_driver A)) (pd_states (dr_db driver)) v files p else None))"
proof -
  from assms(2) have "view_at (de_db (ae_driver A)) r (pd_states (dr_db driver)) v" "files_ok (de_am (de_db (ae_driver A))) v files"
    "files_readable (de_db (ae_driver A)) (pd_states (dr_db driver)) v files"
    by (simp_all add: good_ref_def)
  from get_files_at_ref_of [OF this assms(3)] obtain cs where
    "get_files_at_ref (de_db (ae_driver A)) r paths (pd_states (dr_db driver)) = Inr cs"
    "\<forall>p. hm_get cs p = (if p \<in> set paths then content_of (de_db (ae_driver A)) (pd_states (dr_db driver)) v files p else None)"
    by blast
  with assms(1) show ?thesis by (simp add: api_get_files_at_ref_def)
qed

text \<open>C37: What is loaded for a path is the content of that file at the reference of the path, whatever is checked out; only the
  import file is taken from the checked out version where the old one has none.\<close>

theorem loads_asked_version:
  assumes "pj_driver P = Some driver" and "dr_ref driver = Some r"
    and "good_ref (de_db (ae_driver A)) (hp_ref p) v files (pd_states (dr_db driver))"
    and "good_ref (de_db (ae_driver A)) r v' files' (pd_states (dr_db driver))"
  shows "content_and_import (A, P) p =
    (case content_of (de_db (ae_driver A)) (pd_states (dr_db driver)) v files (hp_path p) of
       None \<Rightarrow> Inl (Err FileNotFound)
     | Some content \<Rightarrow>
         Inr (content, case content_of (de_db (ae_driver A)) (pd_states (dr_db driver)) v files (import_path p) of
            Some i \<Rightarrow> Some i
          | None \<Rightarrow> content_of (de_db (ae_driver A)) (pd_states (dr_db driver)) v' files' (import_path p)))"
proof -
  obtain cs where "api_get_files_at_ref A (hp_ref p) [hp_path p, import_path p] P = (Inr (Some cs) :: (content_error, (string, file_content) hmap option) outcome)"
    "\<forall>q. hm_get cs q = (if q \<in> set [hp_path p, import_path p] then content_of (de_db (ae_driver A)) (pd_states (dr_db driver)) v files q else None)"
    using files_at_ref_good [OF assms(1,3), of "[hp_path p, import_path p]"] by auto
  moreover obtain cs' where "api_get_files_at_ref A r [import_path p] P = (Inr (Some cs') :: (content_error, (string, file_content) hmap option) outcome)"
    "\<forall>q. hm_get cs' q = (if q \<in> set [import_path p] then content_of (de_db (ae_driver A)) (pd_states (dr_db driver)) v' files' q else None)"
    using files_at_ref_good [OF assms(1,4), of "[import_path p]"] by auto
  moreover have "get_current_ref P = Some r" using assms(1,2) by (simp add: get_current_ref_def)
  ultimately show ?thesis
    by (auto simp: content_and_import_def get_file_at_ref_def split: option.split)
qed

section \<open>Temporary files\<close>

text \<open>Unless a write fails half-way, Godot's loader finds the content in the temporary file, and the file is gone afterwards.\<close>

theorem load_leaves_no_file:
  assumes "fs (loader_temp_path M p) = None" and "im_create M (loader_temp_path M p) \<longrightarrow> im_write_all M (loader_temp_path M p)"
  shows "snd (load_from_temp M L io p content path mode fs) = fs"
  using assms
  by (auto simp: load_from_temp_def Let_def sbind_def stry_def write_temp_file_def remove_temp_file_def fun_upd_idem
      split: sum.split fault.split)

theorem failed_write_leaves_file:
  assumes "temp_content io content (hp_ref p) = Inr bytes" and "im_create M (loader_temp_path M p)" and "\<not> im_write_all M (loader_temp_path M p)"
  shows "snd (load_from_temp M L io p content path mode fs) (loader_temp_path M p) = Some []"
  using assms by (simp add: load_from_temp_def Let_def sbind_def stry_def write_temp_file_def)

text \<open>A path that is recognized has an import file, so that a load of it asks the importers first.\<close>

theorem recognized_is_imported:
  assumes "loader_recognize_path H path = Inr True"
  obtains p content i where "history_ref_path_from_str (ae_ids (fst H)) path = Inr p" "content_and_import H p = Inr (content, Some i)"
  using assms by (auto simp: loader_recognize_path_def split: sum.splits fault.splits)

section \<open>An example\<close>

definition demo_checked_out :: "(bool, demo_view list, nat, string, nat) project" where
  "demo_checked_out =
     (let driver = demo_driver [demo_first] ''old''
      in (demo_opened None)\<lparr>pj_driver := Some (driver\<lparr>dr_db := (dr_db driver)\<lparr>pd_checked_out := Some (history_ref_new True [1])\<rparr>\<rparr>)\<rparr>)"

theorem loads_asked_version_witness:
  "\<exists>c. content_and_import (demo_api, demo_checked_out) \<lparr>hp_ref = history_ref_new True [1], hp_path = ''res://a''\<rparr> = Inr (c, None)"
proof -
  let ?p = "\<lparr>hp_ref = history_ref_new True [1], hp_path = ''res://a''\<rparr>"
  let ?d = "the (pj_driver demo_checked_out)"
  have "pj_driver demo_checked_out = Some ?d" "dr_ref ?d = Some (history_ref_new True [1])"
    "pd_states (dr_db ?d) = demo_shadow_db [demo_first]"
    by (simp_all add: demo_checked_out_def Let_def demo_driver_def)
  moreover have "de_db (ae_driver demo_api) = demo_db_env" by (simp add: demo_api_def)
  ultimately show ?thesis
    using loads_asked_version [of demo_checked_out ?d "history_ref_new True [1]" demo_api ?p demo_first DFiles demo_first DFiles]
      demo_driver_good
    by (simp add: import_path_def content_of_def content_at_def demo_first_entry demo_first_content split: option.splits)
qed

end
