(* ===== verification/Spec2Isabelle.thy ===== *)
theory Spec2Isabelle
  imports Scene_Properties Main_Thread Change_Ingester File_Index Scene_Diff_Properties Project_Diff Godot_Hydrate
    Oidc Text_View Editor_Project Resource_Loader
begin

text \<open>
  Backstitch keeps a Godot project under version control in Automerge documents. The crate
  \<open>src/backstitch\<close> is its core: it reads scene files into a structure that merges well
  (\<open>parser/\<close>), writes them back, indexes the project's files by hash (\<open>fs/\<close>, \<open>project/fs/\<close>), commits
  changed files to branches (\<open>project/branch_db/\<close>), lets a driver move files between the disk and the
  checked out branch while the editor's main thread waits (\<open>project/driver.rs\<close>,
  \<open>project/main_thread_block.rs\<close>), lists the commits with their sync state
  (\<open>project/change_ingester.rs\<close>, \<open>project/peer_watcher.rs\<close>), and computes the differences between two
  points of the history (\<open>diff/\<close>). \<open>src/backstitch_godot\<close> binds it to the editor.

  \<^bold>\<open>Theories\<close>

  \<^item> \<open>Prelude\<close>: results with panics and non-termination as values (\<open>outcome\<close>), hash maps as association
    lists without duplicate keys (\<open>hmap\<close>, one iteration order among the possible ones), hash sets,
    folds that stop at an error, reachable states of a step relation (locale \<open>step_system\<close>).
  \<^item> \<open>Rust_Strings\<close>: the string functions of the Rust library that the code uses.
  \<^item> \<open>History_Ref\<close>: \<open>helpers/history_ref.rs\<close> and \<open>helpers/history_path.rs\<close>; document ids and change
    hashes and their text form are a parameter (\<open>id_io\<close>) with named laws.
  \<^item> \<open>Godot_Scene\<close>, \<open>Godot_Serialize\<close>, \<open>Godot_Parse\<close>: \<open>parser/godot_parser.rs\<close>. The data of a scene, its
    text, and the reader, which takes the captures of the tree-sitter query, one list per section.
    \<open>Parse_Linked\<close> and \<open>Serialize_Order\<close> hold the invariants, \<open>Scene_Properties\<close> the properties.
  \<^item> \<open>File_Content\<close>, \<open>File_Index\<close>: \<open>fs/file_utils.rs\<close>, \<open>project/fs/fs_index.rs\<close>,
    \<open>project/fs/fs_traversal.rs\<close>: contents, hash cache, project walk, changes between two file sets.
  \<^item> \<open>Scene_Diff\<close>, \<open>Scene_Diff_Properties\<close>, \<open>Project_Diff\<close>: \<open>diff/*.rs\<close>.
  \<^item> \<open>Main_Thread\<close>: \<open>project/main_thread_block.rs\<close> as a transition system, one atomic operation a step.
  \<^item> \<open>Commit_Info\<close>, \<open>Change_Ingester\<close>: \<open>helpers/utils.rs\<close>, \<open>project/change_ingester.rs\<close>,
    \<open>project/peer_watcher.rs\<close>.
  \<^item> \<open>Godot_Hydrate\<close>: \<open>hydrate_nodes\<close> and \<open>reconcile_nodes\<close> of the parser, between scenes and documents.
  \<^item> \<open>Branch_Sync\<close>: \<open>project/branch_db.rs\<close>, \<open>branch_db/branch_sync.rs\<close>: the canonical and the shadow
    document of a branch and when they are reconciled, against the abstract set of changes.
  \<^item> \<open>Doc_Files\<close>, \<open>Doc_Index\<close>, \<open>Doc_Index_Properties\<close>, \<open>Doc_Commit\<close>, \<open>Project_Paths\<close>: how files lie in a
    branch document, their hashes and contents at a reference, the writing of a commit
    (\<open>branch_db/file.rs\<close>, \<open>commit.rs\<close>, \<open>util.rs\<close>, \<open>helpers/doc_utils.rs\<close>).
  \<^item> \<open>Content_Source\<close>: the locale of a source of indexes and contents, with the lemmas that \<open>File_Sync\<close>
    rests on; \<open>Doc_Index_Properties\<close> interprets it on the branch database.
  \<^item> \<open>File_Sync\<close>, \<open>Fs_Commit\<close>: \<open>project/fs/sync_automerge_to_fs.rs\<close>, \<open>sync_fs_to_automerge.rs\<close>.
  \<^item> \<open>State_Result\<close>: operations on a state that fail half-way. \<open>Branch_Meta\<close>, \<open>Merge_Revert\<close>:
    \<open>helpers/branch.rs\<close>, \<open>helpers/autosurgeon_utils.rs\<close>, \<open>branch_db/branch.rs\<close>, \<open>branch_db/merge_revert.rs\<close>.
  \<^item> \<open>Document_Watcher\<close>, \<open>Connection\<close>, \<open>Server_Manager\<close>: the tasks of \<open>project/document_watcher.rs\<close>,
    \<open>project/connection.rs\<close> and \<open>auth/server_manager.rs\<close> as transition systems (\<open>step_system\<close>).
  \<^item> \<open>Driver\<close>, \<open>Project_Start\<close>: \<open>project/driver.rs\<close>, \<open>project/project_starter.rs\<close>: the sync task, the
    requests of the editor, how a project is loaded.
  \<^item> \<open>Config_File\<close>: \<open>project/config.rs\<close>, \<open>project/config/file_backed_toml.rs\<close>.
  \<^item> \<open>Project_Frame\<close>, \<open>Project_Api\<close>: \<open>project/project_base.rs\<close>, \<open>project/project_api_impl.rs\<close>: the frames of the
    editor's main thread and the interface that the editor uses, over the driver and the settings.
  \<^item> \<open>Redirect_Server\<close>, \<open>Oidc\<close>: \<open>auth/redirect_server.rs\<close>, \<open>auth/oidc.rs\<close>: the local server that the browser is sent
    back to as a transition system, and logging in, refreshing, storing, checking and clearing a session.
  \<^item> \<open>Godot_Convert\<close>, \<open>Text_View\<close>: \<open>interop/godot_diffs.rs\<close>, \<open>godot_helpers.rs\<close>, \<open>text_differ_view.rs\<close> of
    \<open>src/backstitch_godot\<close>: the core's values as values of Godot, and how text differences are drawn.
  \<^item> \<open>Editor_Update\<close>, \<open>Editor_Project\<close>: \<open>interop/godot_project.rs\<close>, \<open>godot_accessors.rs\<close>: what the editor has to be
    told about changed files and when it is updated; the project's node, its frames and calls.
  \<^item> \<open>Fake_Importers\<close>, \<open>Resource_Loader\<close>: \<open>interop/fake_importers.rs\<close>, \<open>backstitch_resource_loader.rs\<close>: old versions
    of files as resources.

  A change of the disk goes through \<open>Fs_Commit\<close> to \<open>Doc_Commit\<close>, into the shadow document of
  \<open>Branch_Sync\<close>, and from there, once its binary documents are in, to the canonical one; a change of
  another peer comes in by \<open>Document_Watcher\<close>, is listed by \<open>Change_Ingester\<close>, and is written to the disk by
  \<open>Driver\<close> through \<open>File_Sync\<close> while \<open>Main_Thread\<close> holds the editor. \<open>Project_Frame\<close> drives the other half
  of that block and shows the result.

  \<^bold>\<open>How code and model correspond\<close>

  A struct is a record, an enum a datatype; an early return, an error value, a panic (\<open>unwrap\<close>, a
  slice out of range) and a loop that does not end are four different results, so that a theorem
  that an operation returns a value excludes the other three. Loops that may not end are
  \<open>partial_function\<close>s (\<open>node_path_loop\<close>, \<open>instance_path_loop\<close>) or carry fuel: \<open>serialize_node\<close> gets
  one more than the number of nodes, which a tree of distinct nodes never uses up, \<open>did_value_change\<close>
  the number of pairs of sub resources, after which the code would recurse for ever;
  \<open>get_branch_in\<close> has the fuel of its caller, and \<open>get_branch_returns\<close> shows that one more than the height
  of the branch is enough when the branches are a forest. A wait whose answer never comes is \<open>Diverges\<close>, a bounded
  poll counts its tries. Asynchronous functions are the state change between two suspensions: where tasks
  meet (main thread block, watcher, connection, server manager) the system is an inductive step relation with
  the answers of the environment as inputs, elsewhere a function that runs under the locks the code holds.

  \<^bold>\<open>What is shown\<close>

  Scenes: a parsed scene has consistent links between parents and children; it is written and recognised as a
  scene file unless a node shares the root's path (\<open>own_parent_diverges\<close>), and its text does not depend on the iteration
  order of hash maps when the keys it is sorted by are distinct; scenes read back from a document up to the renaming of
  nodes that clash; round trips of ids, packed arrays, quotes and history references, with the inputs on which
  the code panics or never returns. Files: the change report is exact; under \<open>stamp_law\<close>, that a file with the same
  modification time and length has the same content, the hash cache is transparent, a checkout makes the disk agree
  with its reference and a commit shows the disk; the index of a reference has the hash that is stored for a content, which
  is the content's unless an older reference was asked for; the entries of a commit, scenes included, read back. Branches: reconciling refines the union of change sets and loses nothing; stored records
  read back; merging and reverting touch the branches they name. Diffs: nothing for equal scenes, exact for
  plain values, one entry per changed file, and the cases in which the code misses a change.
  Concurrency: workers run only inside a checkpoint, a checkpoint returns, a dropped wait blocks it; the
  watcher's tasks progress; at most one connection and one login at a time, and a cancellation that waits
  behind the login it should end; an answer of the browser reaches the task with its state. Project: order, sync flags and rate of ingestions; a frame shows the latest
  commits and no others; one difference task per request; the forest of branches is computed in full. Editor: what is
  pending, when the editor is touched, and that a complete update leaves the deleted files closed and reloads exactly what is open,
  under \<open>editor_law\<close>.
  The behaviours on which code and documents differ are theorems of their own, beside the properties.

  \<^bold>\<open>Parameters and what is not modelled\<close>

  Automerge, autosurgeon, samod, tree-sitter, blake3, similar, serde, toml, ignore, regex, Fjall, the operating
  system and the clock are arguments, and so are the identity provider, the key ring, the browser and Godot's editor, with
  the laws that the code relies on as named hypotheses.

  Not modelled, because what is left of the code without the library calls is nothing: the WebSocket dialer
  (\<open>connection/dialer.rs\<close>), the event source and debouncing of \<open>project/fs/fs_watcher.rs\<close>, \<open>helpers/spawn_utils.rs\<close>,
  tracing and the operations that only log or dump; of \<open>src/backstitch_godot\<close> the inspector sections and lazily loaded
  properties (\<open>diff_inspector_section.rs\<close>, \<open>lazy_load_editor_property.rs\<close>, \<open>lazy_load_token.rs\<close>), the registration
  of classes (\<open>extension.rs\<close>, \<open>lib.rs\<close>) and the plugin that shows the side bar. Also left out: the cancellation of tasks
  other than in \<open>Main_Thread\<close>, \<open>Connection\<close> and \<open>Server_Manager\<close>, and what is left of the redirect server after its panic.
\<close>

end
